(* ===== verification/GCAD_Prelude.thy ===== *)
theory GCAD_Prelude
  imports Main "HOL-Library.Word" "HOL-Library.AList" "HOL-Library.Multiset"
begin

text \<open>
  Shared vocabulary of the development: the fixed-width integer types of the C++ sources, byte
  buffers, the small part of the C++ standard library that the modelled code calls
  (\<^verbatim>\<open>std::to_string\<close>, \<^verbatim>\<open>std::stoi\<close>, \<^verbatim>\<open>std::stoull\<close>, \<^verbatim>\<open>std::getline\<close>, \<^verbatim>\<open>std::tolower\<close>
  in the C locale, a bounded \<^verbatim>\<open>std::deque\<close>), and the lemmas on lists, words and numerals that the
  component theories share. A \<^verbatim>\<open>size_t\<close> is a 64-bit unsigned integer; offsets and lengths of
  buffers are natural numbers, and the component theories prove the bounds that keep them
  below the length of the buffer.
\<close>

unbundle bit_operations_syntax

named_theorems word_nat \<open>conversion of word operations to natural numbers\<close>
named_theorems gcad_defs \<open>definitions unfolded by the component proofs\<close>

section \<open>Integers and buffers\<close>

type_synonym u8 = "8 word"
type_synonym u16 = "16 word"
type_synonym u32 = "32 word"
type_synonym u64 = "64 word"
type_synonym bytes = "u8 list"

text \<open>The iterator range \<^verbatim>\<open>[data + off, data + off + len)\<close> of a buffer.\<close>

definition sub_bytes :: "'a list \<Rightarrow> nat \<Rightarrow> nat \<Rightarrow> 'a list" where
  "sub_bytes data off len = take len (drop off data)"

text \<open>The value of a byte string read as a big-endian unsigned integer.\<close>

fun be_val :: "bytes \<Rightarrow> nat" where
  "be_val [] = 0"
| "be_val (b # bs) = unat b * 256 ^ length bs + be_val bs"

section \<open>Bounded containers\<close>

text \<open>
  The idiom \<^verbatim>\<open>push_back(x); if (size() > max) pop_front();\<close> of the history deques, and the idiom
  \<^verbatim>\<open>start = size() > count ? size() - count : 0; return {begin() + start, end()}\<close> of every
  \<^verbatim>\<open>recent(count)\<close> accessor.
\<close>

definition push_bounded :: "nat \<Rightarrow> 'a list \<Rightarrow> 'a \<Rightarrow> 'a list" where
  "push_bounded cap xs x = (let ys = xs @ [x] in if length ys > cap then tl ys else ys)"

definition last_n :: "nat \<Rightarrow> 'a list \<Rightarrow> 'a list" where
  "last_n n xs = drop (if length xs > n then length xs - n else 0) xs"

text \<open>\<^verbatim>\<open>while (size() > cap) pop_front()\<close>\<close>

fun pop_front_to :: "nat \<Rightarrow> 'a list \<Rightarrow> 'a list" where
  "pop_front_to cap [] = []"
| "pop_front_to cap (x # xs) = (if cap < length (x # xs) then pop_front_to cap xs else x # xs)"

section \<open>Strings\<close>

definition tolower_c :: "char \<Rightarrow> char" where
  "tolower_c c = (if 65 \<le> (of_char c :: nat) \<and> (of_char c :: nat) \<le> 90
     then char_of ((of_char c :: nat) + 32) else c)"

text \<open>\<^verbatim>\<open>std::to_string\<close> of an unsigned integer: decimal digits without leading zeros.\<close>

definition digit_char :: "nat \<Rightarrow> char" where
  "digit_char d = char_of (48 + d)"

fun to_string :: "nat \<Rightarrow> string" where
  "to_string n = (if n < 10 then [digit_char n] else to_string (n div 10) @ [digit_char (n mod 10)])"

declare to_string.simps [simp del]

definition is_digit :: "char \<Rightarrow> bool" where
  "is_digit c \<longleftrightarrow> 48 \<le> (of_char c :: nat) \<and> (of_char c :: nat) \<le> 57"

definition digit_val :: "char \<Rightarrow> nat" where
  "digit_val c = of_char c - 48"

text \<open>
  \<^verbatim>\<open>std::isspace\<close> in the C locale, and the number grammar of \<^verbatim>\<open>strtol\<close>/\<^verbatim>\<open>strtoull\<close> in base 10: leading
  white space, an optional sign, then the longest run of digits; no digit is an
  \<^verbatim>\<open>invalid_argument\<close> exception, here \<open>None\<close>. Trailing characters are ignored, as in C++.
\<close>

definition is_space :: "char \<Rightarrow> bool" where
  "is_space c \<longleftrightarrow> of_char c = (32::nat) \<or> (9 \<le> (of_char c :: nat) \<and> (of_char c :: nat) \<le> 13)"

definition digits_val :: "string \<Rightarrow> nat" where
  "digits_val ds = foldl (\<lambda>n c. 10 * n + digit_val c) 0 ds"

definition strto_int :: "string \<Rightarrow> int option" where
  "strto_int s =
     (let t = dropWhile is_space s;
          neg = (t \<noteq> [] \<and> hd t = CHR ''-'');
          u = (if t \<noteq> [] \<and> (hd t = CHR ''-'' \<or> hd t = CHR ''+'') then tl t else t);
          ds = takeWhile is_digit u
      in if ds = [] then None
         else Some (if neg then - int (digits_val ds) else int (digits_val ds)))"

text \<open>\<^verbatim>\<open>std::stoi\<close>, \<^verbatim>\<open>std::stoll\<close>: a value outside the type is an \<^verbatim>\<open>out_of_range\<close> exception.\<close>

definition stoi :: "string \<Rightarrow> int option" where
  "stoi s = (case strto_int s of None \<Rightarrow> None
     | Some v \<Rightarrow> if - (2 ^ 31) \<le> v \<and> v < 2 ^ 31 then Some v else None)"

definition stoll :: "string \<Rightarrow> int option" where
  "stoll s = (case strto_int s of None \<Rightarrow> None
     | Some v \<Rightarrow> if - (2 ^ 63) \<le> v \<and> v < 2 ^ 63 then Some v else None)"

text \<open>
  \<^verbatim>\<open>std::stoull\<close>: the magnitude must fit 64 bits, and a minus sign negates modulo \<open>2\<^sup>6\<^sup>4\<close>.
\<close>

definition stoull :: "string \<Rightarrow> u64 option" where
  "stoull s = (case strto_int s of None \<Rightarrow> None
     | Some v \<Rightarrow> if \<bar>v\<bar> < 2 ^ 64 then Some (word_of_int v) else None)"

text \<open>
  Repeated \<^verbatim>\<open>line.find(sep, start)\<close> splitting: the pieces between separators, one more than there
  are separators.
\<close>

fun split_on :: "'a \<Rightarrow> 'a list \<Rightarrow> 'a list list" where
  "split_on sep [] = [[]]"
| "split_on sep (c # cs) =
     (if c = sep then [] # split_on sep cs
      else (c # hd (split_on sep cs)) # tl (split_on sep cs))"

text \<open>
  The lines a \<^verbatim>\<open>while (std::getline(in, line))\<close> loop reads from a text: the pieces between newlines,
  where a final newline does not start another line.
\<close>

definition getlines :: "string \<Rightarrow> string list" where
  "getlines s = (let ls = split_on (CHR 0x0A) s in if last ls = [] then butlast ls else ls)"

text \<open>\<open>find_char c s\<close> is \<^verbatim>\<open>s.find(c)\<close>, with \<open>None\<close> for \<^verbatim>\<open>npos\<close>.\<close>

fun find_char :: "char \<Rightarrow> string \<Rightarrow> nat option" where
  "find_char c [] = None"
| "find_char c (x # xs) = (if x = c then Some 0 else map_option Suc (find_char c xs))"

text \<open>\<open>contains_text needle s\<close> is \<^verbatim>\<open>s.find(needle) != npos\<close>.\<close>

fun contains_text :: "string \<Rightarrow> string \<Rightarrow> bool" where
  "contains_text needle [] = (needle = [])"
| "contains_text needle (c # cs) = (take (length needle) (c # cs) = needle \<or> contains_text needle cs)"

text \<open>The characters the parsers of rule and indicator files trim: blank, tab, carriage return and newline.\<close>

definition blank :: "char \<Rightarrow> bool" where
  "blank c \<longleftrightarrow> c = CHR '' '' \<or> c = CHR 0x09 \<or> c = CHR 0x0D \<or> c = CHR 0x0A"

text \<open>Trimming by \<^verbatim>\<open>find_first_not_of\<close> and \<^verbatim>\<open>find_last_not_of\<close>; the empty result
  stands for a blank line.\<close>

definition trim :: "string \<Rightarrow> string" where
  "trim line = rev (dropWhile blank (rev (dropWhile blank line)))"

definition starts_with :: "string \<Rightarrow> string \<Rightarrow> bool" where
  "starts_with s prefix \<longleftrightarrow> take (length prefix) s = prefix"

text \<open>
  \<^verbatim>\<open>std::filesystem::path\<close> on Windows: \<^verbatim>\<open>generic_string\<close> writes the separators as slashes, and \<^verbatim>\<open>extension\<close> starts at the last
  dot of the file name unless that is the first character or the name is two dots.
\<close>

definition generic_string :: "string \<Rightarrow> string" where
  "generic_string path = map (\<lambda>c. if c = CHR 0x5C then CHR ''/'' else c) path"

definition filename :: "string \<Rightarrow> string" where
  "filename path = rev (takeWhile (\<lambda>c. c \<noteq> CHR ''/'') (rev (generic_string path)))"

definition extension :: "string \<Rightarrow> string" where
  "extension path =
     (let name = filename path; tail = takeWhile (\<lambda>c. c \<noteq> CHR ''.'') (rev name) in
      if CHR ''.'' \<notin> set name \<or> length tail + 1 = length name \<or> name = ''..'' then [] else CHR ''.'' # rev tail)"

text \<open>The UTF-8 encoding of the dash in the messages.\<close>

definition em_dash :: string where
  "em_dash = [CHR 0xE2, CHR 0x80, CHR 0x94]"

text \<open>The byte of a character and the value of a hexadecimal digit.\<close>

definition byte_of :: "char \<Rightarrow> u8" where
  "byte_of c = of_nat (of_char c)"

definition hex_val :: "char \<Rightarrow> nat option" where
  "hex_val ch = (let n = (of_char ch :: nat) in
     if 48 \<le> n \<and> n \<le> 57 then Some (n - 48)
     else if 97 \<le> n \<and> n \<le> 102 then Some (n - 97 + 10)
     else if 65 \<le> n \<and> n \<le> 70 then Some (n - 65 + 10)
     else None)"

section \<open>Lemmas: containers and buffers\<close>

lemma pop_front_to_drop: "pop_front_to cap xs = drop (length xs - cap) xs"
  by (induction cap xs rule: pop_front_to.induct) (auto simp: Suc_diff_le)

lemma contains_text_iff: "contains_text needle s \<longleftrightarrow> (\<exists>xs ys. s = xs @ needle @ ys)"
proof (induction needle s rule: contains_text.induct)
  case (2 needle c cs)
  have "take (length needle) (c # cs) = needle \<longleftrightarrow> (\<exists>ys. c # cs = needle @ ys)"
    by (metis append_eq_conv_conj)
  with 2 show ?case by (simp only: contains_text.simps) (metis append_Cons append_Nil list.inject neq_Nil_conv)
qed simp

lemma length_sub_bytes [simp]: "length (sub_bytes data off len) = min len (length data - off)"
  by (simp add: sub_bytes_def)

lemma sub_bytes_0 [simp]: "sub_bytes data off 0 = []"
  by (simp add: sub_bytes_def)

lemma sub_bytes_append_mid:
  "sub_bytes (xs @ ys @ zs) (length xs) (length ys) = ys"
  by (simp add: sub_bytes_def)

lemma sub_bytes_all [simp]: "sub_bytes data 0 (length data) = data"
  by (simp add: sub_bytes_def)

lemma sub_bytes_nth:
  "i < len \<Longrightarrow> off + len \<le> length data \<Longrightarrow> sub_bytes data off len ! i = data ! (off + i)"
  by (simp add: sub_bytes_def)

lemma length_push_bounded: "length (push_bounded cap xs x) \<le> max cap (length xs)"
  by (simp add: push_bounded_def Let_def)

lemma push_bounded_le: "length xs \<le> cap \<Longrightarrow> length (push_bounded cap xs x) \<le> cap"
  by (simp add: push_bounded_def Let_def)

lemma set_push_bounded: "set (push_bounded cap xs x) \<subseteq> insert x (set xs)"
  by (cases xs) (auto simp: push_bounded_def Let_def)

lemma push_bounded_last: "0 < cap \<Longrightarrow> last (push_bounded cap xs x) = x \<and> push_bounded cap xs x \<noteq> []"
  by (cases xs) (auto simp: push_bounded_def Let_def)

lemma length_last_n: "length (last_n n xs) = min n (length xs)"
  by (simp add: last_n_def)

lemma set_last_n: "set (last_n n xs) \<subseteq> set xs"
  by (simp add: last_n_def set_drop_subset)

lemma be_val_append: "be_val (xs @ ys) = be_val xs * 256 ^ length ys + be_val ys"
  by (induction xs) (auto simp: algebra_simps power_add)

lemma be_val_bound: "be_val bs < 256 ^ length bs"
proof (induction bs)
  case Nil
  then show ?case by simp
next
  case (Cons b bs)
  have b: "unat b \<le> 255" using unsigned_less [of b, where 'a = nat] by simp
  have "be_val (b # bs) < unat b * 256 ^ length bs + 256 ^ length bs"
    using Cons.IH by simp
  also have "\<dots> = (unat b + 1) * 256 ^ length bs" by simp
  also have "\<dots> \<le> 256 * 256 ^ length bs" using b by (intro mult_right_mono) auto
  finally show ?case by simp
qed

lemma be_val_zeros [simp]: "be_val (replicate n 0 @ bs) = be_val bs"
  by (induction n) auto

lemma be_val_inj:
  "length xs = length ys \<Longrightarrow> be_val xs = be_val ys \<Longrightarrow> xs = ys"
proof (induction xs ys rule: list_induct2)
  case Nil
  then show ?case by simp
next
  case (Cons x xs y ys)
  let ?B = "256 ^ length xs :: nat"
  have eq: "unat x * ?B + be_val xs = unat y * ?B + be_val ys"
    using Cons.prems Cons.hyps by simp
  have lt: "be_val xs < ?B" "be_val ys < ?B"
    using be_val_bound [of xs] be_val_bound [of ys] Cons.hyps by simp_all
  have "(unat x * ?B + be_val xs) div ?B = unat x" "(unat y * ?B + be_val ys) div ?B = unat y"
    using lt by simp_all
  with eq have "unat x = unat y" by simp
  then have xy: "x = y" by (rule unsigned_word_eqI)
  with eq have "be_val xs = be_val ys" by simp
  with Cons.IH xy show ?case by simp
qed

section \<open>Lemmas: words\<close>

lemma unat_le_u8 [simp]: "unat (b :: u8) \<le> 255"
  using unsigned_less [of b, where 'a = nat] by simp

lemma unat_lt_u8 [simp]: "unat (b :: u8) < 256"
  using unsigned_less [of b, where 'a = nat] by simp

lemma unat_and_mask_nat [word_nat]: "unat (w AND mask n) = unat w mod 2 ^ n"
  by (simp add: unat_drop_bit_eq flip: take_bit_eq_mask take_bit_eq_mod unsigned_take_bit_eq)

lemma unat_drop_bit_nat [word_nat]: "unat (drop_bit n w) = unat w div 2 ^ n"
  by (metis drop_bit_eq_div unat_drop_bit_eq)

section \<open>Lemmas: decimal numbers\<close>

lemma of_char_char_of_small: "n < 256 \<Longrightarrow> of_char (char_of n :: char) = (n :: nat)"
  by simp

lemma of_char_digit_char: "d < 10 \<Longrightarrow> of_char (digit_char d) = 48 + d"
  by (simp add: digit_char_def)

lemma is_digit_digit_char [simp]: "d < 10 \<Longrightarrow> is_digit (digit_char d)"
  by (simp add: is_digit_def of_char_digit_char)

lemma digit_val_digit_char [simp]: "d < 10 \<Longrightarrow> digit_val (digit_char d) = d"
  by (simp add: digit_val_def of_char_digit_char)

lemma to_string_digits: "\<forall>c \<in> set (to_string n). is_digit c"
proof (induction n rule: to_string.induct)
  case (1 n)
  then show ?case by (cases "n < 10") (auto simp: to_string.simps [of n])
qed

lemma to_string_nonempty [simp]: "to_string n \<noteq> []"
  by (subst to_string.simps) simp

lemma digits_val_append: "digits_val (xs @ [c]) = 10 * digits_val xs + digit_val c"
  by (simp add: digits_val_def)

lemma digits_val_to_string [simp]: "digits_val (to_string n) = n"
proof (induction n rule: to_string.induct)
  case (1 n)
  show ?case
  proof (cases "n < 10")
    case True
    then show ?thesis by (simp add: to_string.simps [of n] digits_val_def)
  next
    case False
    then show ?thesis using 1 by (simp add: to_string.simps [of n] digits_val_append)
  qed
qed

lemma to_string_inj: "to_string m = to_string n \<Longrightarrow> m = n"
  by (metis digits_val_to_string)

lemma takeWhile_to_string: "takeWhile is_digit (to_string n) = to_string n"
  by (simp add: takeWhile_eq_all_conv to_string_digits)

lemma is_digit_not_special:
  assumes "is_digit c"
  shows "\<not> is_space c" "c \<noteq> CHR ''-''" "c \<noteq> CHR ''+''" "c \<noteq> CHR ''|''" "c \<noteq> CHR 0x0A"
    "c \<noteq> CHR ''=''" "c \<noteq> CHR ''.''"
  using assms by (auto simp: is_digit_def is_space_def)

lemma strto_int_to_string [simp]: "strto_int (to_string n) = Some (int n)"
proof -
  obtain c cs where s: "to_string n = c # cs" by (cases "to_string n") auto
  then have c: "is_digit c" using to_string_digits [of n] by simp
  have d: "dropWhile is_space (c # cs) = c # cs" using is_digit_not_special [OF c] by simp
  have t: "takeWhile is_digit (c # cs) = c # cs" using takeWhile_to_string [of n] s by simp
  have v: "digits_val (c # cs) = n" using digits_val_to_string [of n] s by simp
  show ?thesis
    unfolding strto_int_def s Let_def d using is_digit_not_special(2,3) [OF c] t v by simp
qed

lemma stoi_to_string: "n < 2 ^ 31 \<Longrightarrow> stoi (to_string n) = Some (int n)"
proof -
  assume "n < 2 ^ 31"
  then have "int n < 2 ^ 31" by simp
  then show ?thesis by (simp add: stoi_def)
qed

lemma stoull_to_string [simp]: "stoull (to_string (unat (w :: u64))) = Some w"
proof -
  have "unat w < 2 ^ 64" using unsigned_less [of w, where 'a = nat] by simp
  then have "int (unat w) < 2 ^ 64" by (metis of_nat_less_numeral_power_cancel_iff)
  then show ?thesis by (simp add: stoull_def)
qed

lemma stoll_to_string: "n < 2 ^ 63 \<Longrightarrow> stoll (to_string n) = Some (int n)"
proof -
  assume "n < 2 ^ 63"
  then have "int n < 2 ^ 63" by simp
  then show ?thesis by (simp add: stoll_def)
qed

section \<open>Lemmas: splitting\<close>

lemma split_on_nonempty [simp]: "split_on sep s \<noteq> []"
  by (cases s) auto

lemma split_on_no_sep: "sep \<notin> set s \<Longrightarrow> split_on sep s = [s]"
  by (induction s) auto

lemma split_on_append_sep:
  "sep \<notin> set xs \<Longrightarrow> split_on sep (xs @ sep # ys) = xs # split_on sep ys"
  by (induction xs) auto

lemma split_on_pieces: "p \<in> set (split_on sep s) \<Longrightarrow> sep \<notin> set p"
proof (induction s arbitrary: p)
  case Nil
  then show ?case by simp
next
  case (Cons c cs)
  have "hd (split_on sep cs) \<in> set (split_on sep cs)" by simp
  with Cons.IH have hd: "sep \<notin> set (hd (split_on sep cs))" by blast
  have tl: "\<And>p. p \<in> set (tl (split_on sep cs)) \<Longrightarrow> sep \<notin> set p"
    using Cons.IH by (meson list.set_sel(2) split_on_nonempty)
  show ?case using Cons hd tl by (auto split: if_splits)
qed

lemma getlines_Nil [simp]: "getlines [] = []"
  by (simp add: getlines_def)

lemma getlines_Cons_line:
  assumes "CHR 0x0A \<notin> set l"
  shows "getlines (l @ CHR 0x0A # rest) = l # getlines rest"
  using assms by (auto simp: getlines_def split_on_append_sep Let_def)

lemma getlines_concat:
  assumes "\<forall>l \<in> set ls. CHR 0x0A \<notin> set l"
  shows "getlines (concat (map (\<lambda>l. l @ [CHR 0x0A]) ls)) = ls"
  using assms by (induction ls) (auto simp: getlines_Cons_line)

lemma find_char_None [simp]: "find_char c s = None \<longleftrightarrow> c \<notin> set s"
  by (induction s) auto

lemma find_char_Some:
  "find_char c s = Some i \<Longrightarrow> i < length s \<and> s ! i = c \<and> c \<notin> set (take i s)"
proof (induction s arbitrary: i)
  case Nil
  then show ?case by simp
next
  case (Cons x xs)
  show ?case
  proof (cases "x = c")
    case True
    with Cons.prems show ?thesis by simp
  next
    case False
    with Cons.prems obtain j where j: "find_char c xs = Some j" "i = Suc j" by auto
    with Cons.IH [OF j(1)] False show ?thesis by auto
  qed
qed

lemma find_char_append: "c \<notin> set xs \<Longrightarrow> find_char c (xs @ c # ys) = Some (length xs)"
  by (induction xs) auto

section \<open>Lemmas: association lists\<close>

lemma set_AList_update: "set (AList.update k v xs) \<subseteq> insert (k, v) (set xs)"
  by (induction xs) auto

lemma set_AList_delete: "set (AList.delete k xs) \<subseteq> set xs"
  by (auto simp: AList.delete_eq)

lemma length_AList_update:
  "length (AList.update k v xs) = (if k \<in> fst ` set xs then length xs else Suc (length xs))"
  by (induction xs) auto

lemma length_AList_delete:
  "distinct (map fst xs) \<Longrightarrow> k \<in> fst ` set xs \<Longrightarrow> length (AList.delete k xs) = length xs - 1"
proof (induction xs)
  case Nil
  then show ?case by simp
next
  case (Cons x xs)
  show ?case
  proof (cases "fst x = k")
    case True
    then have "k \<notin> fst ` set xs" using Cons.prems by auto
    then have "AList.delete k xs = xs" by simp
    with True show ?thesis by (cases x) simp
  next
    case False
    with Cons have "length (AList.delete k xs) = length xs - 1" by (cases x) auto
    moreover have "xs \<noteq> []" using False Cons.prems by auto
    ultimately show ?thesis using False by (cases x) (simp add: Suc_diff_le)
  qed
qed

section \<open>Shift and or\<close>

lemma unat_push_or:
  fixes a b :: "'a::len word"
  assumes "unat a < 2 ^ (LENGTH('a) - k)" "unat b < 2 ^ k" "k \<le> LENGTH('a)"
  shows "unat (push_bit k a OR b) = unat a * 2 ^ k + unat b"
proof -
  have tb: "take_bit k b = b"
  proof -
    have "unat (take_bit k b) = unat b" using assms(2) by (simp add: unsigned_take_bit_eq take_bit_nat_eq_self)
    then show ?thesis by (simp add: word_unat_eq_iff)
  qed
  have "\<not> bit b n" if "k \<le> n" for n using tb that by (metis bit_take_bit_iff not_le)
  then have "push_bit k a OR b = push_bit k a + b"
    by (intro disjunctive_add [symmetric]) (auto simp: bit_simps not_le [symmetric])
  moreover have lt: "unat a * 2 ^ k + unat b < 2 ^ LENGTH('a)"
  proof -
    have "unat a * 2 ^ k + unat b < (unat a + 1) * 2 ^ k" using assms(2) by simp
    also have "\<dots> \<le> 2 ^ (LENGTH('a) - k) * 2 ^ k" using assms(1) by (intro mult_right_mono) auto
    also have "\<dots> = 2 ^ LENGTH('a)" using assms(3) by (simp flip: power_add)
    finally show ?thesis .
  qed
  moreover have "unat (push_bit k a) = unat a * 2 ^ k"
  proof -
    have "unat (push_bit k a) = take_bit LENGTH('a) (push_bit k (unat a))" by (simp add: unsigned_push_bit_eq)
    also have "\<dots> = unat a * 2 ^ k" using lt by (simp add: push_bit_eq_mult take_bit_nat_eq_self)
    finally show ?thesis .
  qed
  ultimately show ?thesis by (simp add: unat_word_ariths)
qed

end
