(* ===== verification/GCAD_Common.thy ===== *)
theory GCAD_Common
  imports GCAD_Prelude
begin

text \<open>
  The enumerations and event structs of \<^verbatim>\<open>include/gcad/common.hpp\<close>: error codes, threat levels and
  categories with their numeric encodings, and \<^verbatim>\<open>ThreatEvent\<close>/\<^verbatim>\<open>EngineStatus\<close>. Threat levels are
  ordered as their underlying \<^verbatim>\<open>uint8_t\<close> values, which the comparisons in the sources use.
  A \<^verbatim>\<open>system_clock::time_point\<close> is an integer count of nanoseconds since the epoch.
\<close>

type_synonym time_point = int

definition seconds :: "int \<Rightarrow> int" where
  "seconds n = n * 1000000000"

definition minutes :: "int \<Rightarrow> int" where
  "minutes n = n * 60000000000"

datatype ErrorCode = OK | ERR_NOMEM | ERR_INIT_FAIL | ERR_ENGINE_START | ERR_ENGINE_STOP
  | ERR_SCAN_IO | ERR_SCAN_ACCESS | ERR_SCAN_CORRUPT | ERR_NET_SOCKET | ERR_NET_BIND | ERR_NET_RECV
  | ERR_CRYPTO_HASH | ERR_QUARANTINE_FULL | ERR_ROLLBACK_FAIL | ERR_NOT_FOUND
  | ERR_INVALID_TRANSITION | ERR_QUARANTINE_DENIED | ERR_SHRED_FAIL | ERR_PLATFORM
  | ERR_SELF_DEFENSE

datatype ThreatLevel = SAFE | LOW | MEDIUM | HIGH | CRITICAL

fun level_code :: "ThreatLevel \<Rightarrow> nat" where
  "level_code SAFE = 0"
| "level_code LOW = 1"
| "level_code MEDIUM = 2"
| "level_code HIGH = 3"
| "level_code CRITICAL = 4"

lemma level_code_inj: "level_code a = level_code b \<Longrightarrow> a = b"
  by (cases a; cases b) auto

instantiation ThreatLevel :: linorder
begin

definition less_eq_ThreatLevel :: "ThreatLevel \<Rightarrow> ThreatLevel \<Rightarrow> bool" where
  "less_eq_ThreatLevel a b \<longleftrightarrow> level_code a \<le> level_code b"

definition less_ThreatLevel :: "ThreatLevel \<Rightarrow> ThreatLevel \<Rightarrow> bool" where
  "less_ThreatLevel a b \<longleftrightarrow> level_code a < level_code b"

instance
  by standard (auto simp: less_eq_ThreatLevel_def less_ThreatLevel_def intro: level_code_inj)

end

lemmas level_order = less_eq_ThreatLevel_def less_ThreatLevel_def

datatype ThreatCategory = NONE | MEMORY_INJECTION | PROCESS_HOLLOW | DLL_INJECTION | APC_INJECTION
  | REFLECTIVE_LOAD | SHELLCODE | NETWORK_SCAN | SYN_FLOOD | UDP_FLOOD | DNS_TUNNEL | ARP_POISON
  | ICMP_COVERT | RAW_SOCKET_PROBE | RANSOMWARE | FILE_ENCRYPT | REGISTRY_TAMPER | BACKDOOR_ACCOUNT
  | EVASION_AMSI | EVASION_ETW | EVASION_UNHOOK | DIRECT_SYSCALL | PPID_SPOOF | KERBEROS_ATTACK
  | NTLM_COERCE | CREDENTIAL_DUMP | ENTROPY_ANOMALY | SUSPICIOUS_BINARY | FILELESS_EXEC
  | ANTI_FORENSIC | DGA_DOMAIN | C2_BEACON | FILE_INTEGRITY_VIOLATION | YARA_RULE_MATCH
  | DEVICE_POLICY | KERNEL_ATTACK | LOLBIN_EXECUTION | MALWARE_PACKER | PERSISTENCE_HIJACK

fun category_code :: "ThreatCategory \<Rightarrow> nat" where
  "category_code NONE = 0x0000"
| "category_code MEMORY_INJECTION = 0x0100"
| "category_code PROCESS_HOLLOW = 0x0101"
| "category_code DLL_INJECTION = 0x0102"
| "category_code APC_INJECTION = 0x0103"
| "category_code REFLECTIVE_LOAD = 0x0104"
| "category_code SHELLCODE = 0x0105"
| "category_code NETWORK_SCAN = 0x0200"
| "category_code SYN_FLOOD = 0x0201"
| "category_code UDP_FLOOD = 0x0202"
| "category_code DNS_TUNNEL = 0x0203"
| "category_code ARP_POISON = 0x0204"
| "category_code ICMP_COVERT = 0x0205"
| "category_code RAW_SOCKET_PROBE = 0x0206"
| "category_code RANSOMWARE = 0x0300"
| "category_code FILE_ENCRYPT = 0x0301"
| "category_code REGISTRY_TAMPER = 0x0302"
| "category_code BACKDOOR_ACCOUNT = 0x0303"
| "category_code EVASION_AMSI = 0x0400"
| "category_code EVASION_ETW = 0x0401"
| "category_code EVASION_UNHOOK = 0x0402"
| "category_code DIRECT_SYSCALL = 0x0403"
| "category_code PPID_SPOOF = 0x0404"
| "category_code KERBEROS_ATTACK = 0x0500"
| "category_code NTLM_COERCE = 0x0501"
| "category_code CREDENTIAL_DUMP = 0x0502"
| "category_code ENTROPY_ANOMALY = 0x0600"
| "category_code SUSPICIOUS_BINARY = 0x0700"
| "category_code FILELESS_EXEC = 0x0800"
| "category_code ANTI_FORENSIC = 0x0900"
| "category_code DGA_DOMAIN = 0x0207"
| "category_code C2_BEACON = 0x0208"
| "category_code FILE_INTEGRITY_VIOLATION = 0x0A00"
| "category_code YARA_RULE_MATCH = 0x0B00"
| "category_code DEVICE_POLICY = 0x0C00"
| "category_code KERNEL_ATTACK = 0x0D00"
| "category_code LOLBIN_EXECUTION = 0x0E00"
| "category_code MALWARE_PACKER = 0x0701"
| "category_code PERSISTENCE_HIJACK = 0x0702"

record ThreatEvent =
  ev_id :: u64
  ev_timestamp :: time_point
  ev_level :: ThreatLevel
  ev_category :: ThreatCategory
  ev_process_id :: u32
  ev_process_name :: string
  ev_file_path :: string
  ev_description :: string
  ev_source_ip :: string
  ev_source_port :: u16
  ev_quarantined :: bool
  ev_rolled_back :: bool

text \<open>The distinct numeric encodings let a category stand for its code in an observation key.\<close>

lemma level_code_le4: "level_code l \<le> 4"
  by (cases l) auto

end
