(* ===== verification/GCAD_Double.thy ===== *)
theory GCAD_Double
  imports Complex_Main "HOL-Library.Log_Nat"
begin

text \<open>
  The C++ type \<^verbatim>\<open>double\<close> as IEEE 754 binary64 with round-to-nearest, ties to even. A finite value
  is the rational number it stands for (the sign of zero is not kept: no modelled code divides by
  or inspects a zero's sign), beside the two infinities and NaN. Every arithmetic operation
  rounds its exact rational result with \<open>fl\<close>. The lemmas give the facts the
  scoring code relies on: rounding is monotone and is exact on integers below \<open>2\<^sup>5\<^sup>3\<close>.
\<close>

section \<open>Values and rounding\<close>

datatype double = NaN | PInf | NInf | Fin rat

text \<open>\<open>ilog2 x\<close> is the binary exponent of a positive rational: \<open>2\<^sup>e \<le> x < 2\<^sup>e\<^sup>+\<^sup>1\<close>.\<close>

definition ilog2 :: "rat \<Rightarrow> int" where
  "ilog2 x = (case quotient_of x of (p, q) \<Rightarrow>
     let d = bitlen p - bitlen q in if 2 powi d \<le> x then d else d - 1)"

definition round_even :: "rat \<Rightarrow> int" where
  "round_even y = (let f = \<lfloor>y\<rfloor>; r = y - of_int f in
     if r < 1/2 then f else if 1/2 < r then f + 1 else if even f then f else f + 1)"

definition ulp :: "rat \<Rightarrow> rat" where
  "ulp x = 2 powi (max (ilog2 \<bar>x\<bar> - 52) (- 1074))"

definition rnd :: "rat \<Rightarrow> rat" where
  "rnd x = (if x = 0 then 0 else of_int (round_even (x / ulp x)) * ulp x)"

definition fl :: "rat \<Rightarrow> double" where
  "fl x = (let r = rnd x in if 2 ^ 1024 \<le> r then PInf else if r \<le> - (2 ^ 1024) then NInf else Fin r)"

fun isfinite :: "double \<Rightarrow> bool" where
  "isfinite (Fin x) = True"
| "isfinite _ = False"

fun dmul :: "double \<Rightarrow> double \<Rightarrow> double" where
  "dmul (Fin a) (Fin b) = fl (a * b)"
| "dmul NaN _ = NaN"
| "dmul _ NaN = NaN"
| "dmul PInf (Fin b) = (if b = 0 then NaN else if b > 0 then PInf else NInf)"
| "dmul NInf (Fin b) = (if b = 0 then NaN else if b > 0 then NInf else PInf)"
| "dmul (Fin a) PInf = (if a = 0 then NaN else if a > 0 then PInf else NInf)"
| "dmul (Fin a) NInf = (if a = 0 then NaN else if a > 0 then NInf else PInf)"
| "dmul PInf PInf = PInf"
| "dmul PInf NInf = NInf"
| "dmul NInf PInf = NInf"
| "dmul NInf NInf = PInf"

fun dadd :: "double \<Rightarrow> double \<Rightarrow> double" where
  "dadd (Fin a) (Fin b) = fl (a + b)"
| "dadd NaN _ = NaN"
| "dadd _ NaN = NaN"
| "dadd PInf NInf = NaN"
| "dadd NInf PInf = NaN"
| "dadd PInf _ = PInf"
| "dadd _ PInf = PInf"
| "dadd NInf _ = NInf"
| "dadd _ NInf = NInf"

text \<open>Comparison: any comparison with NaN is false.\<close>

fun dle :: "double \<Rightarrow> double \<Rightarrow> bool" where
  "dle NaN _ = False"
| "dle _ NaN = False"
| "dle NInf _ = True"
| "dle _ PInf = True"
| "dle (Fin a) (Fin b) = (a \<le> b)"
| "dle _ _ = False"

definition dlt :: "double \<Rightarrow> double \<Rightarrow> bool" where
  "dlt a b \<longleftrightarrow> dle a b \<and> \<not> dle b a"

text \<open>
  \<^verbatim>\<open>std::lround\<close>: nearest integer, halfway cases away from zero. Its value for an infinity or a
  NaN is unspecified in C++; no modelled call reaches it with one, as the callers test
  \<^verbatim>\<open>std::isfinite\<close> first.
\<close>

fun lround :: "double \<Rightarrow> int" where
  "lround (Fin x) = (if 0 \<le> x then \<lfloor>x + 1/2\<rfloor> else - \<lfloor>- x + 1/2\<rfloor>)"
| "lround _ = 0"

section \<open>Rounding is monotone and exact on small integers\<close>

lemma ilog2_bounds:
  assumes "0 < x"
  shows "2 powi ilog2 x \<le> x" and "x < 2 powi (ilog2 x + 1)"
proof -
  obtain p q where pq: "quotient_of x = (p, q)" by (cases "quotient_of x") auto
  then have q: "0 < q" and x: "x = of_int p / of_int q"
    by (auto dest: quotient_of_denom_pos quotient_of_div)
  with assms have p: "0 < p" by (simp add: zero_less_divide_iff)
  let ?bp = "bitlen p" and ?bq = "bitlen q"
  have bounds: "2 powi (bitlen n - 1) \<le> (of_int n :: rat)" "(of_int n :: rat) < 2 powi bitlen n"
    if n: "0 < n" for n :: int
  proof -
    have b: "0 < bitlen n" using n bitlen_bounds [OF n] by (cases "bitlen n > 0") auto
    have "2 ^ nat (bitlen n - 1) \<le> n" "n < 2 ^ nat (bitlen n)"
      using bitlen_bounds [OF n] by auto
    then have "(of_int (2 ^ nat (bitlen n - 1)) :: rat) \<le> of_int n"
      "(of_int n :: rat) < of_int (2 ^ nat (bitlen n))" by (simp_all only: of_int_le_iff of_int_less_iff)
    then show "2 powi (bitlen n - 1) \<le> (of_int n :: rat)" "(of_int n :: rat) < 2 powi bitlen n"
      using b by (simp_all add: power_int_def)
  qed
  have "2 powi (?bp - ?bq - 1) * of_int q < 2 powi (?bp - ?bq - 1) * (2 powi ?bq :: rat)"
    using bounds(2) [OF q] by (intro mult_strict_left_mono) auto
  also have "\<dots> = 2 powi (?bp - 1)"
    by (simp add: power_int_add [symmetric])
  also have "\<dots> \<le> of_int p" using bounds(1) [OF p] .
  finally have lo: "2 powi (?bp - ?bq - 1) \<le> x"
    using q by (simp add: x pos_le_divide_eq)
  have "of_int p < (2 powi ?bp :: rat)" using bounds(2) [OF p] .
  also have "\<dots> = 2 powi (?bp - ?bq + 1) * 2 powi (?bq - 1)"
    by (simp add: power_int_add [symmetric])
  also have "\<dots> \<le> 2 powi (?bp - ?bq + 1) * of_int q"
    using bounds(1) [OF q] by (intro mult_left_mono) auto
  finally have hi: "x < 2 powi (?bp - ?bq + 1)"
    using q by (simp add: x pos_divide_less_eq)
  show "2 powi ilog2 x \<le> x" "x < 2 powi (ilog2 x + 1)"
    using lo hi by (auto simp: ilog2_def pq Let_def)
qed

lemma ilog2_mono:
  assumes "0 < x" "x \<le> y"
  shows "ilog2 x \<le> ilog2 y"
proof (rule ccontr)
  assume "\<not> ilog2 x \<le> ilog2 y"
  then have "ilog2 y + 1 \<le> ilog2 x" by simp
  then have "(2 powi (ilog2 y + 1) :: rat) \<le> 2 powi ilog2 x" by (intro power_int_increasing) auto
  with ilog2_bounds [of x] ilog2_bounds [of y] assms show False by linarith
qed

lemma ulp_pos [simp]: "0 < ulp x"
  by (simp add: ulp_def)

lemma round_even_of_int [simp]: "round_even (of_int k) = k"
  by (simp add: round_even_def)

lemma round_even_cases: "round_even y = \<lfloor>y\<rfloor> \<or> round_even y = \<lfloor>y\<rfloor> + 1"
  by (simp add: round_even_def Let_def)

lemma round_even_mono:
  assumes "x \<le> y"
  shows "round_even x \<le> round_even y"
proof (cases "\<lfloor>x\<rfloor> = \<lfloor>y\<rfloor>")
  case True
  with assms show ?thesis by (auto simp: round_even_def Let_def)
next
  case False
  with assms have "\<lfloor>x\<rfloor> + 1 \<le> \<lfloor>y\<rfloor>" using floor_mono [OF assms] by linarith
  with round_even_cases [of x] round_even_cases [of y] show ?thesis by linarith
qed

lemma round_even_bounds:
  assumes "of_int a \<le> y" "y \<le> of_int b"
  shows "a \<le> round_even y" "round_even y \<le> b"
  using round_even_mono [OF assms(1)] round_even_mono [OF assms(2)] by simp_all

text \<open>Rounding never crosses a power of two that is itself representable.\<close>

lemma rnd_ge_binade:
  assumes "0 < x" "- 1022 \<le> ilog2 x"
  shows "2 powi ilog2 x \<le> rnd x"
proof -
  have u: "ulp x = 2 powi (ilog2 x - 52)" using assms by (simp add: ulp_def)
  have split: "(2 powi ilog2 x :: rat) = of_int (2 ^ 52) * ulp x"
    by (simp add: u power_int_diff)
  have "of_int (2 ^ 52) * ulp x \<le> x" using ilog2_bounds(1) [OF assms(1)] split by simp
  then have "of_int (2 ^ 52) \<le> x / ulp x" by (simp add: pos_le_divide_eq)
  from round_even_mono [OF this] have "(2 ^ 52 :: int) \<le> round_even (x / ulp x)" by (metis round_even_of_int)
  then have "(of_int (2 ^ 52) :: rat) \<le> of_int (round_even (x / ulp x))" by (simp only: of_int_le_iff)
  then have "of_int (2 ^ 52) * ulp x \<le> of_int (round_even (x / ulp x)) * ulp x"
    by (intro mult_right_mono) (auto simp: less_imp_le)
  with split assms(1) show ?thesis by (simp add: rnd_def)
qed

lemma rnd_le_binade:
  assumes "0 < x" "- 1022 \<le> ilog2 x"
  shows "rnd x \<le> 2 powi (ilog2 x + 1)"
proof -
  have u: "ulp x = 2 powi (ilog2 x - 52)" using assms by (simp add: ulp_def)
  have split: "(2 powi (ilog2 x + 1) :: rat) = of_int (2 ^ 53) * ulp x"
    by (simp add: u power_int_diff power_int_add)
  have "x \<le> of_int (2 ^ 53) * ulp x" using ilog2_bounds(2) [OF assms(1)] split by simp
  then have "x / ulp x \<le> of_int (2 ^ 53)" by (simp add: pos_divide_le_eq)
  from round_even_mono [OF this] have "round_even (x / ulp x) \<le> (2 ^ 53 :: int)" by (metis round_even_of_int)
  then have "(of_int (round_even (x / ulp x)) :: rat) \<le> of_int (2 ^ 53)" by (simp only: of_int_le_iff)
  then have "of_int (round_even (x / ulp x)) * ulp x \<le> of_int (2 ^ 53) * ulp x"
    by (intro mult_right_mono) (auto simp: less_imp_le)
  with split assms(1) show ?thesis by (simp add: rnd_def)
qed

lemma rnd_same_ulp_mono:
  assumes "0 < x" "x \<le> y" "ulp x = ulp y"
  shows "rnd x \<le> rnd y"
proof -
  have "x / ulp x \<le> y / ulp y" using assms(2,3) by (simp add: divide_right_mono less_imp_le)
  then have "(of_int (round_even (x / ulp x)) :: rat) \<le> of_int (round_even (y / ulp y))"
    by (simp add: round_even_mono)
  then show ?thesis using assms by (auto simp: rnd_def intro: mult_right_mono less_imp_le)
qed

lemma rnd_mono_pos:
  assumes "0 < x" "x \<le> y"
  shows "rnd x \<le> rnd y"
proof (cases "ulp x = ulp y")
  case True
  with assms show ?thesis by (rule rnd_same_ulp_mono)
next
  case False
  have le: "ilog2 x \<le> ilog2 y" using assms by (rule ilog2_mono)
  with False assms have lt: "ilog2 x < ilog2 y" and y: "- 1022 < ilog2 y"
    by (cases "ilog2 x = ilog2 y"; auto simp: ulp_def max_def split: if_splits)+
  show ?thesis
  proof (cases "- 1022 \<le> ilog2 x")
    case True
    have "rnd x \<le> 2 powi (ilog2 x + 1)" using rnd_le_binade [OF assms(1) True] .
    also have "\<dots> \<le> 2 powi ilog2 y" using lt by (intro power_int_increasing) auto
    also have "\<dots> \<le> rnd y" using rnd_ge_binade [of y] assms y by simp
    finally show ?thesis .
  next
    case False
    then have u: "ulp x = 2 powi (- 1074)" using assms(1) by (simp add: ulp_def)
    have "x < 2 powi (ilog2 x + 1)" using ilog2_bounds(2) [OF assms(1)] .
    also have "\<dots> \<le> 2 powi (- 1022)" using False by (intro power_int_increasing) auto
    also have "\<dots> = of_int (2 ^ 52) * ulp x" by (simp add: u power_int_minus field_simps)
    finally have "x / ulp x \<le> of_int (2 ^ 52)" by (simp add: pos_divide_le_eq)
    from round_even_mono [OF this] have "round_even (x / ulp x) \<le> 2 ^ 52" by (metis round_even_of_int)
    then have "(of_int (round_even (x / ulp x)) :: rat) \<le> of_int (2 ^ 52)" by (simp only: of_int_le_iff)
    then have "rnd x \<le> of_int (2 ^ 52) * ulp x"
      using assms(1) by (auto simp: rnd_def intro: mult_right_mono less_imp_le)
    also have "\<dots> = 2 powi (- 1022)" by (simp add: u power_int_minus field_simps)
    also have "\<dots> \<le> 2 powi ilog2 y" using y by (intro power_int_increasing) auto
    also have "\<dots> \<le> rnd y" using rnd_ge_binade [of y] assms y by simp
    finally show ?thesis .
  qed
qed

lemma rnd_nonneg: "0 \<le> x \<Longrightarrow> 0 \<le> rnd x"
proof -
  assume "0 \<le> x"
  then have "0 \<le> round_even (x / ulp x)"
    using round_even_bounds(1) [of 0 "x / ulp x" "\<lceil>x / ulp x\<rceil>"] by (simp add: less_imp_le)
  then show ?thesis by (simp add: rnd_def less_imp_le)
qed

lemma rnd_of_nat:
  assumes "n < 2 ^ 53"
  shows "rnd (of_nat n) = of_nat n"
proof (cases "n = 0")
  case True
  then show ?thesis by (simp add: rnd_def)
next
  case False
  let ?x = "of_nat n :: rat"
  have x1: "1 \<le> ?x" using False by simp
  have pos: "0 < ?x" using False by simp
  have lo: "0 \<le> ilog2 ?x"
  proof (rule ccontr)
    assume "\<not> 0 \<le> ilog2 ?x"
    then have "(2 powi (ilog2 ?x + 1) :: rat) \<le> 2 powi 0" by (intro power_int_increasing) auto
    with ilog2_bounds(2) [OF pos] x1 show False by simp
  qed
  have hi: "ilog2 ?x \<le> 52"
  proof (rule ccontr)
    assume "\<not> ilog2 ?x \<le> 52"
    then have "(2 powi 53 :: rat) \<le> 2 powi ilog2 ?x" by (intro power_int_increasing) auto
    with ilog2_bounds(1) [OF pos] have "(2 ^ 53 :: rat) \<le> ?x" by simp
    then have "(of_nat (2 ^ 53) :: rat) \<le> of_nat n" by simp
    then have "2 ^ 53 \<le> n" by (simp only: of_nat_le_iff)
    with assms show False by simp
  qed
  have u: "ulp ?x = 2 powi (ilog2 ?x - 52)" using lo by (simp add: ulp_def)
  then have inv: "?x / ulp ?x = of_int (int n * 2 ^ nat (52 - ilog2 ?x))"
    using hi by (simp add: power_int_def field_simps nat_diff_distrib split: if_splits)
  have "rnd ?x = of_int (int n * 2 ^ nat (52 - ilog2 ?x)) * ulp ?x"
    using pos by (simp only: rnd_def inv round_even_of_int) simp
  also have "\<dots> = ?x" using inv ulp_pos [of ?x] by (metis less_numeral_extra(3) nonzero_eq_divide_eq)
  finally show ?thesis .
qed

lemma rnd_range:
  assumes "0 \<le> x" "x \<le> of_nat n" "n < 2 ^ 53"
  shows "0 \<le> rnd x" "rnd x \<le> of_nat n"
proof -
  show "0 \<le> rnd x" using assms(1) by (rule rnd_nonneg)
  show "rnd x \<le> of_nat n"
  proof (cases "x = 0")
    case True
    then show ?thesis by (simp add: rnd_def)
  next
    case False
    with assms have "rnd x \<le> rnd (of_nat n)" by (intro rnd_mono_pos) auto
    then show ?thesis using assms(3) by (simp add: rnd_of_nat)
  qed
qed

lemma fl_range:
  assumes "0 \<le> x" "x \<le> of_nat n" "n < 2 ^ 53"
  shows "fl x = Fin (rnd x)"
proof -
  have "rnd x \<le> of_nat n" using rnd_range [OF assms] by simp
  moreover have "(of_nat n :: rat) < 2 ^ 1024"
  proof -
    have "(of_nat n :: rat) < of_nat (2 ^ 53)" using assms(3) by (simp only: of_nat_less_iff)
    also have "\<dots> \<le> 2 ^ 1024" by simp
    finally show ?thesis .
  qed
  ultimately show ?thesis using rnd_range [OF assms] by (simp add: fl_def Let_def)
qed

lemma lround_range:
  assumes "0 \<le> x" "x \<le> of_nat n" "n < 2 ^ 53"
  shows "0 \<le> lround (fl x)" "lround (fl x) \<le> int n"
proof -
  have r: "0 \<le> rnd x" "rnd x \<le> of_nat n" using rnd_range [OF assms] by auto
  have "\<lfloor>rnd x + 1/2\<rfloor> \<le> \<lfloor>(of_nat n :: rat) + 1/2\<rfloor>" using r by (intro floor_mono) simp
  also have "\<dots> = int n" by (simp add: floor_eq_iff)
  finally show "lround (fl x) \<le> int n" using r by (simp add: fl_range [OF assms])
  show "0 \<le> lround (fl x)" using r by (simp add: fl_range [OF assms])
qed

lemma lround_mono:
  assumes "0 \<le> x" "x \<le> y" "y \<le> of_nat n" "n < 2 ^ 53"
  shows "lround (fl x) \<le> lround (fl y)"
proof -
  have "rnd x \<le> rnd y"
    using assms rnd_mono_pos [of x y] rnd_nonneg [of y] by (cases "x = 0") (auto simp: rnd_def)
  then show ?thesis
    using assms rnd_nonneg [of x] rnd_nonneg [of y] fl_range [of x n] fl_range [of y n]
    by (auto intro: floor_mono)
qed

lemma fl_of_nat: "n < 2 ^ 53 \<Longrightarrow> fl (of_nat n) = Fin (of_nat n)"
  using fl_range [of "of_nat n" n] by (simp add: rnd_of_nat)

lemma fl_numeral: "(numeral k :: nat) < 2 ^ 53 \<Longrightarrow> fl (numeral k) = Fin (numeral k)"
  using fl_of_nat [of "numeral k"] by simp

lemma lround_numeral:
  assumes "(numeral k :: nat) < 2 ^ 53"
  shows "lround (fl (numeral k)) = numeral k"
proof -
  have "\<lfloor>(of_nat n :: rat) + 1/2\<rfloor> = int n" for n by (simp add: floor_eq_iff)
  from this [of "numeral k"] have "lround (Fin (numeral k)) = numeral k" by simp
  then show ?thesis by (simp only: fl_numeral [OF assms])
qed

text \<open>The doubles that are admissible as a confidence.\<close>

definition unit_double :: "double \<Rightarrow> bool" where
  "unit_double d \<longleftrightarrow> (\<exists>x. d = Fin x \<and> 0 \<le> x \<and> x \<le> 1)"

lemma unit_double_fl: "0 \<le> q \<Longrightarrow> q \<le> 1 \<Longrightarrow> unit_double (fl q)"
  using fl_range [of q 1] rnd_range [of q 1] by (auto simp: unit_double_def)

lemma unit_double_valid:
  "unit_double d \<Longrightarrow> isfinite d \<and> dle (Fin 0) d \<and> dle d (Fin 1)"
  by (auto simp: unit_double_def)

text \<open>A double is a fixed point of rounding.\<close>

lemma ilog2_unique:
  assumes "2 powi e \<le> x" "x < 2 powi (e + 1)"
  shows "ilog2 x = e"
proof -
  have "(0 :: rat) < 2 powi e" by simp
  then have pos: "0 < x" using assms(1) by linarith
  have "e \<le> ilog2 x"
  proof (rule ccontr)
    assume "\<not> e \<le> ilog2 x"
    then have "(2 powi (ilog2 x + 1) :: rat) \<le> 2 powi e" by (intro power_int_increasing) auto
    then show False using ilog2_bounds(2) [OF pos] assms(1) by linarith
  qed
  moreover have "ilog2 x \<le> e"
  proof (rule ccontr)
    assume "\<not> ilog2 x \<le> e"
    then have "(2 powi (e + 1) :: rat) \<le> 2 powi ilog2 x" by (intro power_int_increasing) auto
    then show False using ilog2_bounds(1) [OF pos] assms(2) by linarith
  qed
  ultimately show ?thesis by simp
qed

lemma rnd_multiple: "x = of_int k * ulp x \<Longrightarrow> rnd x = x"
proof -
  assume x: "x = of_int k * ulp x"
  then have "x / ulp x = of_int k" by (metis less_numeral_extra(3) nonzero_eq_divide_eq ulp_pos)
  then show ?thesis using x by (simp add: rnd_def)
qed

lemma rnd_idem:
  assumes "0 < x" "- 1022 \<le> ilog2 x"
  shows "rnd (rnd x) = rnd x"
proof -
  let ?e = "ilog2 x"
  have b: "2 powi ?e \<le> rnd x" "rnd x \<le> 2 powi (?e + 1)" using rnd_ge_binade [OF assms] rnd_le_binade [OF assms] .
  have pos: "0 < rnd x" using b(1) zero_less_power_int [of "2 :: rat" ?e] by linarith
  show ?thesis
  proof (cases "rnd x = 2 powi (?e + 1)")
    case True
    then have "ilog2 (rnd x) = ?e + 1" by (intro ilog2_unique) (simp_all add: power_int_add)
    then have "ulp (rnd x) = 2 powi (?e - 51)" using pos assms(2) by (simp add: ulp_def)
    then have "rnd x = of_int (2 ^ 52) * ulp (rnd x)" using True by (simp add: power_int_diff power_int_add)
    then show ?thesis by (rule rnd_multiple)
  next
    case False
    with b have "ilog2 (rnd x) = ?e" by (intro ilog2_unique) auto
    then have "ulp (rnd x) = ulp x" using pos assms by (simp add: ulp_def)
    then have "rnd x = of_int (round_even (x / ulp x)) * ulp (rnd x)" using assms(1) by (simp add: rnd_def)
    then show ?thesis by (rule rnd_multiple)
  qed
qed

end
