(* ===== verification/Policy.thy ===== *)
theory Policy
  imports GCAD_Common GCAD_Double
begin

text \<open>
  \<^verbatim>\<open>security/observation.hpp\<close> and \<^verbatim>\<open>security/policy.{hpp,cpp}\<close>: the observation, finding, candidate and
  policy structs, the validity test and correlation key of an observation, the protected-path
  test, and \<^verbatim>\<open>PolicyEngine::decide\<close>/\<^verbatim>\<open>candidate_for\<close>. The lemmas characterise the path test as a
  prefix test on normalised paths and give the exact conditions under which a finding becomes a
  quarantine candidate.
\<close>

section \<open>Observations\<close>

datatype ObservationKind = ARTIFACT_SIGNATURE | ARTIFACT_STRUCTURE | ARTIFACT_TRUST | INVALID_PE
  | UNSIGNED_RISKY_LOCATION | INVALID_SIGNATURE | HIGH_ENTROPY | PROCESS_MEMORY | PROCESS_LINEAGE
  | NETWORK_CONNECTION | REGISTRY_PERSISTENCE | FILE_INTEGRITY | DNS_ANOMALY | YARA_MATCH
  | LEGACY_ENGINE

fun kind_code :: "ObservationKind \<Rightarrow> nat" where
  "kind_code ARTIFACT_SIGNATURE = 0"
| "kind_code ARTIFACT_STRUCTURE = 1"
| "kind_code ARTIFACT_TRUST = 2"
| "kind_code INVALID_PE = 3"
| "kind_code UNSIGNED_RISKY_LOCATION = 4"
| "kind_code INVALID_SIGNATURE = 5"
| "kind_code HIGH_ENTROPY = 6"
| "kind_code PROCESS_MEMORY = 7"
| "kind_code PROCESS_LINEAGE = 8"
| "kind_code NETWORK_CONNECTION = 9"
| "kind_code REGISTRY_PERSISTENCE = 10"
| "kind_code FILE_INTEGRITY = 11"
| "kind_code DNS_ANOMALY = 12"
| "kind_code YARA_MATCH = 13"
| "kind_code LEGACY_ENGINE = 14"

record SecurityObservation =
  obs_source_id :: string
  obs_kind :: ObservationKind
  obs_timestamp :: time_point
  obs_suggested_level :: ThreatLevel
  obs_confidence :: double
  obs_deterministic :: bool
  obs_process_id :: u32
  obs_process_name :: string
  obs_file_path :: string
  obs_sha256 :: string
  obs_evidence :: string

definition obs_valid :: "SecurityObservation \<Rightarrow> bool" where
  "obs_valid o' \<longleftrightarrow> obs_source_id o' \<noteq> [] \<and> obs_evidence o' \<noteq> [] \<and>
     isfinite (obs_confidence o') \<and> dle (Fin 0) (obs_confidence o') \<and>
     dle (obs_confidence o') (Fin 1) \<and> obs_suggested_level o' \<noteq> SAFE"

definition normalize :: "string \<Rightarrow> string" where
  "normalize value = map tolower_c (map (\<lambda>c. if c = CHR 0x5C then CHR ''/'' else c) value)"

definition correlation_key :: "SecurityObservation \<Rightarrow> string" where
  "correlation_key o' =
     (let identity =
        (if obs_sha256 o' \<noteq> [] then normalize (obs_sha256 o')
         else if obs_file_path o' \<noteq> [] then normalize (obs_file_path o')
         else if obs_process_id o' \<noteq> 0 then ''pid:'' @ to_string (unat (obs_process_id o'))
         else normalize (obs_process_name o'))
      in to_string (kind_code (obs_kind o')) @ '':'' @ identity)"

section \<open>Findings, candidates and the policy\<close>

datatype ResponseAction = REPORT_ONLY | QUARANTINE_CANDIDATE

datatype CandidateApprovalState = PENDING_APPROVAL | APPROVED | REJECTED

record SecurityFinding =
  fin_id :: u64
  fin_timestamp :: time_point
  fin_level :: ThreatLevel
  fin_risk_score :: u8
  fin_deterministic_signature :: bool
  fin_correlation_key :: string
  fin_file_path :: string
  fin_sha256 :: string
  fin_rationale :: string
  fin_contributing_sources :: "string list"
  fin_observation_ids :: "u64 list"

record RemediationCandidate =
  cand_finding_id :: u64
  cand_requested_action :: ResponseAction
  cand_approval_state :: CandidateApprovalState
  cand_target_path :: string
  cand_expected_sha256 :: string
  cand_rationale :: string

record LocalSecurityPolicy =
  pol_critical_threshold :: u8
  pol_finding_window :: int
  pol_protected_path_prefixes :: "string list"

definition default_policy :: LocalSecurityPolicy where
  "default_policy = \<lparr>pol_critical_threshold = 90, pol_finding_window = 5,
     pol_protected_path_prefixes = [''c:/windows/'', ''c:/program files/'']\<rparr>"

section \<open>The policy engine\<close>

definition ascii_lower :: "char \<Rightarrow> char" where
  "ascii_lower value = (if of_char (CHR ''A'') \<le> (of_char value :: nat) \<and> (of_char value :: nat) \<le> of_char (CHR ''Z'')
     then char_of ((of_char value :: nat) - of_char (CHR ''A'') + of_char (CHR ''a'')) else value)"

definition path_char :: "char \<Rightarrow> char" where
  "path_char c = (if c = CHR 0x5C then CHR ''/'' else ascii_lower c)"

fun path_chars_match :: "string \<Rightarrow> string \<Rightarrow> bool" where
  "path_chars_match path [] = True"
| "path_chars_match [] (q # qs) = False"
| "path_chars_match (p # ps) (q # qs) =
     (if path_char p \<noteq> path_char q then False else path_chars_match ps qs)"

definition path_starts_with :: "string \<Rightarrow> string \<Rightarrow> bool" where
  "path_starts_with path prefix =
     (if length path < length prefix then False else path_chars_match path prefix)"

definition is_protected_path :: "string \<Rightarrow> LocalSecurityPolicy \<Rightarrow> bool" where
  "is_protected_path path policy \<longleftrightarrow>
     (\<exists>prefix \<in> set (pol_protected_path_prefixes policy). path_starts_with path prefix)"

definition decide :: "SecurityFinding \<Rightarrow> LocalSecurityPolicy \<Rightarrow> ResponseAction" where
  "decide finding policy =
     (if \<not> fin_deterministic_signature finding \<or> fin_level finding \<noteq> CRITICAL \<or>
         fin_risk_score finding < pol_critical_threshold policy \<or> fin_file_path finding = [] \<or>
         is_protected_path (fin_file_path finding) policy
      then REPORT_ONLY else QUARANTINE_CANDIDATE)"

definition candidate_for :: "SecurityFinding \<Rightarrow> LocalSecurityPolicy \<Rightarrow> RemediationCandidate option" where
  "candidate_for finding policy =
     (if decide finding policy \<noteq> QUARANTINE_CANDIDATE then None
      else Some \<lparr>cand_finding_id = fin_id finding, cand_requested_action = QUARANTINE_CANDIDATE,
        cand_approval_state = PENDING_APPROVAL, cand_target_path = fin_file_path finding,
        cand_expected_sha256 = fin_sha256 finding, cand_rationale = fin_rationale finding\<rparr>)"

section \<open>The protected-path test\<close>

lemma path_chars_match_iff:
  "path_chars_match path prefix \<longleftrightarrow>
     length prefix \<le> length path \<and> map path_char (take (length prefix) path) = map path_char prefix"
  by (induction path prefix rule: path_chars_match.induct) auto

lemma path_starts_with_iff:
  "path_starts_with path prefix \<longleftrightarrow>
     (\<exists>rest. map path_char path = map path_char prefix @ rest)"
proof
  assume "path_starts_with path prefix"
  then have le: "length prefix \<le> length path"
    and eq: "map path_char (take (length prefix) path) = map path_char prefix"
    by (auto simp: path_starts_with_def path_chars_match_iff split: if_splits)
  have "map path_char path = map path_char (take (length prefix) path) @ map path_char (drop (length prefix) path)"
    by (metis append_take_drop_id map_append)
  with eq show "\<exists>rest. map path_char path = map path_char prefix @ rest" by auto
next
  assume "\<exists>rest. map path_char path = map path_char prefix @ rest"
  then obtain rest where r: "map path_char path = map path_char prefix @ rest" ..
  then have "length path = length prefix + length rest"
    by (metis length_append length_map)
  moreover have "map path_char (take (length prefix) path) = map path_char prefix"
    using r by (metis append_eq_conv_conj length_map take_map)
  ultimately show "path_starts_with path prefix"
    by (simp add: path_starts_with_def path_chars_match_iff)
qed

lemma is_protected_path_cong:
  assumes "map path_char p = map path_char q"
  shows "is_protected_path p policy = is_protected_path q policy"
  using assms by (simp add: is_protected_path_def path_starts_with_iff)

lemma ascii_lower_idem [simp]: "ascii_lower (ascii_lower c) = ascii_lower c"
  by (auto simp: ascii_lower_def)

lemma ascii_lower_backslash [simp]: "ascii_lower c = CHR 0x5C \<longleftrightarrow> c = CHR 0x5C"
  by (auto simp: ascii_lower_def dest!: arg_cong [where f = "of_char :: char \<Rightarrow> nat"])

lemma path_char_idem [simp]: "path_char (path_char c) = path_char c"
  by (auto simp: path_char_def) (simp_all add: ascii_lower_def)

lemma candidate_for_Some:
  "candidate_for f p = Some c \<longleftrightarrow>
     fin_deterministic_signature f \<and> fin_level f = CRITICAL \<and>
     pol_critical_threshold p \<le> fin_risk_score f \<and> fin_file_path f \<noteq> [] \<and>
     \<not> is_protected_path (fin_file_path f) p \<and>
     c = \<lparr>cand_finding_id = fin_id f, cand_requested_action = QUARANTINE_CANDIDATE,
        cand_approval_state = PENDING_APPROVAL, cand_target_path = fin_file_path f,
        cand_expected_sha256 = fin_sha256 f, cand_rationale = fin_rationale f\<rparr>"
  by (auto simp: candidate_for_def decide_def not_less)

section \<open>Properties\<close>

text \<open>
  The protected-path test is a prefix test up to the spelling of a path: a path is protected
  exactly when, after lower-casing ASCII letters and turning backslashes into slashes, it extends one
  of the policy's prefixes treated the same way. No other spelling of a protected path escapes it.
\<close>

theorem protected_path_spelling:
  "is_protected_path path policy \<longleftrightarrow>
     (\<exists>prefix \<in> set (pol_protected_path_prefixes policy). \<exists>rest. map path_char path = map path_char prefix @ rest)"
  by (simp add: is_protected_path_def path_starts_with_iff)

text \<open>
  The policy engine proposes a quarantine exactly for a critical finding with a deterministic
  signature, a score at or above the threshold and a non-empty unprotected path; the candidate
  copies the finding's id, path, hash and rationale and starts out pending.
\<close>

theorem candidate_for_exactly:
  "candidate_for f policy = Some c \<longleftrightarrow>
     fin_deterministic_signature f \<and> fin_level f = CRITICAL \<and> pol_critical_threshold policy \<le> fin_risk_score f \<and>
     fin_file_path f \<noteq> [] \<and> \<not> is_protected_path (fin_file_path f) policy \<and>
     cand_finding_id c = fin_id f \<and> cand_target_path c = fin_file_path f \<and> cand_expected_sha256 c = fin_sha256 f \<and>
     cand_rationale c = fin_rationale f \<and> cand_requested_action c = QUARANTINE_CANDIDATE \<and>
     cand_approval_state c = PENDING_APPROVAL"
  by (cases c) (auto simp: candidate_for_Some)

end
