(* ===== verification/Telemetry_Bus.thy ===== *)
theory Telemetry_Bus
  imports Policy
begin

text \<open>
  \<^verbatim>\<open>security/telemetry_bus.{hpp,cpp}\<close>: the bounded, closeable FIFO between the engines and the
  pipeline worker. Every member function holds \<^verbatim>\<open>mtx_\<close> while it reads or writes the fields, so a
  concurrent execution is a sequence of these operations in some order. \<^verbatim>\<open>wait_pop\<close> releases the
  lock while it waits; the operation here is what it does in the state it wakes up in. The
  locale states what a client of such a channel relies on; the lemmas show that nothing
  accepted is lost, duplicated or reordered and that the metrics count every publish.
\<close>

section \<open>State and operations\<close>

datatype PublishResult = ACCEPTED | DROPPED_FULL | REJECTED_INVALID | CLOSED

record TelemetryMetrics =
  accepted :: u64
  dropped_full :: u64
  rejected_invalid :: u64
  rejected_closed :: u64

record TelemetryBus =
  bus_capacity :: nat
  bus_queue :: "SecurityObservation list"
  bus_closed :: bool
  bus_metrics :: TelemetryMetrics

definition TelemetryBus_new :: "nat \<Rightarrow> TelemetryBus" where
  "TelemetryBus_new capacity = \<lparr>bus_capacity = max 1 capacity, bus_queue = [], bus_closed = False,
     bus_metrics = \<lparr>accepted = 0, dropped_full = 0, rejected_invalid = 0, rejected_closed = 0\<rparr>\<rparr>"

definition bus_publish :: "TelemetryBus \<Rightarrow> SecurityObservation \<Rightarrow> PublishResult \<times> TelemetryBus" where
  "bus_publish b observation =
     (let m = bus_metrics b in
      if \<not> obs_valid observation then
        (REJECTED_INVALID, b\<lparr>bus_metrics := m\<lparr>rejected_invalid := rejected_invalid m + 1\<rparr>\<rparr>)
      else if bus_closed b then
        (CLOSED, b\<lparr>bus_metrics := m\<lparr>rejected_closed := rejected_closed m + 1\<rparr>\<rparr>)
      else if bus_capacity b \<le> length (bus_queue b) then
        (DROPPED_FULL, b\<lparr>bus_metrics := m\<lparr>dropped_full := dropped_full m + 1\<rparr>\<rparr>)
      else
        (ACCEPTED, b\<lparr>bus_queue := bus_queue b @ [observation],
           bus_metrics := m\<lparr>accepted := accepted m + 1\<rparr>\<rparr>))"

definition try_pop :: "TelemetryBus \<Rightarrow> (SecurityObservation \<times> TelemetryBus) option" where
  "try_pop b = (case bus_queue b of [] \<Rightarrow> None | x # xs \<Rightarrow> Some (x, b\<lparr>bus_queue := xs\<rparr>))"

definition wait_pop :: "TelemetryBus \<Rightarrow> (SecurityObservation \<times> TelemetryBus) option" where
  "wait_pop b = (case bus_queue b of [] \<Rightarrow> None | x # xs \<Rightarrow> Some (x, b\<lparr>bus_queue := xs\<rparr>))"

definition bus_close :: "TelemetryBus \<Rightarrow> TelemetryBus" where
  "bus_close b = b\<lparr>bus_closed := True\<rparr>"

definition metrics :: "TelemetryBus \<Rightarrow> TelemetryMetrics" where
  "metrics b = bus_metrics b"

section \<open>The channel interface\<close>

datatype 'a chan_op = Put 'a | Get | Close

text \<open>
  A run of channel operations: the final state, the values whose \<open>put\<close> was accepted and the values
  \<open>get\<close> delivered, each in order.
\<close>

fun chan_run :: "('s \<Rightarrow> 'a \<Rightarrow> bool \<times> 's) \<Rightarrow> ('s \<Rightarrow> ('a \<times> 's) option) \<Rightarrow> ('s \<Rightarrow> 's) \<Rightarrow>
    's \<Rightarrow> 'a chan_op list \<Rightarrow> 's \<times> 'a list \<times> 'a list" where
  "chan_run put get cl s [] = (s, [], [])"
| "chan_run put get cl s (Put x # ops) =
     (case put s x of (ok, s') \<Rightarrow> case chan_run put get cl s' ops of
        (t, acc, del) \<Rightarrow> (t, (if ok then x # acc else acc), del))"
| "chan_run put get cl s (Get # ops) =
     (case get s of
        None \<Rightarrow> chan_run put get cl s ops
      | Some (x, s') \<Rightarrow> (case chan_run put get cl s' ops of (t, acc, del) \<Rightarrow> (t, acc, x # del)))"
| "chan_run put get cl s (Close # ops) = chan_run put get cl (cl s) ops"

locale fifo_channel =
  fixes put :: "'s \<Rightarrow> 'a \<Rightarrow> bool \<times> 's"
    and get :: "'s \<Rightarrow> ('a \<times> 's) option"
    and cl :: "'s \<Rightarrow> 's"
    and contents :: "'s \<Rightarrow> 'a list"
    and bound :: "'s \<Rightarrow> nat"
    and inv :: "'s \<Rightarrow> bool"
  assumes put_contents: "put s x = (ok, s') \<Longrightarrow> contents s' = (if ok then contents s @ [x] else contents s)"
    and get_None: "get s = None \<longleftrightarrow> contents s = []"
    and get_Some: "get s = Some (x, s') \<Longrightarrow> contents s = x # contents s'"
    and cl_contents: "contents (cl s) = contents s"
    and inv_bound: "inv s \<Longrightarrow> length (contents s) \<le> bound s"
    and inv_put: "inv s \<Longrightarrow> put s x = (ok, s') \<Longrightarrow> inv s' \<and> bound s' = bound s"
    and inv_get: "inv s \<Longrightarrow> get s = Some (x, s') \<Longrightarrow> inv s' \<and> bound s' = bound s"
    and inv_cl: "inv s \<Longrightarrow> inv (cl s) \<and> bound (cl s) = bound s"
begin

text \<open>What was in the channel plus what was accepted is what was delivered plus what is left.\<close>

lemma run_conserves:
  "chan_run put get cl s ops = (t, acc, del) \<Longrightarrow> contents s @ acc = del @ contents t"
proof (induction ops arbitrary: s acc del)
  case Nil
  then show ?case by simp
next
  case (Cons op ops)
  show ?case
  proof (cases op)
    case (Put x)
    obtain ok s' where p: "put s x = (ok, s')" by fastforce
    with Put Cons.prems obtain acc' where r: "chan_run put get cl s' ops = (t, acc', del)"
      and acc: "acc = (if ok then x # acc' else acc')" by (auto split: prod.splits)
    from Cons.IH [OF r] put_contents [OF p] acc show ?thesis by (auto split: if_splits)
  next
    case Get
    show ?thesis
    proof (cases "get s")
      case None
      with Get Cons.prems Cons.IH show ?thesis by simp
    next
      case (Some y)
      then obtain x s' where g: "get s = Some (x, s')" by (cases y) auto
      with Get Cons.prems obtain del' where r: "chan_run put get cl s' ops = (t, acc, del')"
        and del: "del = x # del'" by (auto split: prod.splits)
      from Cons.IH [OF r] get_Some [OF g] del show ?thesis by simp
    qed
  next
    case Close
    with Cons.prems Cons.IH [of "cl s"] show ?thesis by (simp add: cl_contents)
  qed
qed

lemma run_inv:
  "inv s \<Longrightarrow> chan_run put get cl s ops = (t, acc, del) \<Longrightarrow> inv t \<and> bound t = bound s"
proof (induction ops arbitrary: s acc del)
  case Nil
  then show ?case by simp
next
  case (Cons op ops)
  show ?case
  proof (cases op)
    case (Put x)
    obtain ok s' where p: "put s x = (ok, s')" by fastforce
    with Put Cons.prems obtain acc' where r: "chan_run put get cl s' ops = (t, acc', del)"
      by (auto split: prod.splits)
    from inv_put [OF Cons.prems(1) p] Cons.IH [OF _ r] show ?thesis by simp
  next
    case Get
    show ?thesis
    proof (cases "get s")
      case None
      with Get Cons.prems Cons.IH show ?thesis by simp
    next
      case (Some y)
      then obtain x s' where g: "get s = Some (x, s')" by (cases y) auto
      with Get Cons.prems obtain del' where r: "chan_run put get cl s' ops = (t, acc, del')"
        by (auto split: prod.splits)
      from inv_get [OF Cons.prems(1) g] Cons.IH [OF _ r] show ?thesis by simp
    qed
  next
    case Close
    with Cons.prems have r: "chan_run put get cl (cl s) ops = (t, acc, del)" by simp
    from inv_cl [OF Cons.prems(1)] Cons.IH [OF _ r] show ?thesis by simp
  qed
qed

lemma run_bounded:
  "inv s \<Longrightarrow> chan_run put get cl s ops = (t, acc, del) \<Longrightarrow> length (contents t) \<le> bound s"
  using run_inv inv_bound by fastforce

end

section \<open>The bus implements the channel\<close>

definition bus_inv :: "TelemetryBus \<Rightarrow> bool" where
  "bus_inv b \<longleftrightarrow> 1 \<le> bus_capacity b \<and> length (bus_queue b) \<le> bus_capacity b \<and>
     (\<forall>o' \<in> set (bus_queue b). obs_valid o')"

definition bus_put :: "TelemetryBus \<Rightarrow> SecurityObservation \<Rightarrow> bool \<times> TelemetryBus" where
  "bus_put b x = (case bus_publish b x of (r, b') \<Rightarrow> (r = ACCEPTED, b'))"

lemma bus_inv_new: "bus_inv (TelemetryBus_new c)"
  by (simp add: bus_inv_def TelemetryBus_new_def)

lemma bus_publish_inv: "bus_inv b \<Longrightarrow> bus_inv (snd (bus_publish b x))"
  by (auto simp: bus_inv_def bus_publish_def Let_def)

lemma bus_publish_accepted:
  "fst (bus_publish b x) = ACCEPTED \<longleftrightarrow>
     obs_valid x \<and> \<not> bus_closed b \<and> length (bus_queue b) < bus_capacity b"
  by (auto simp: bus_publish_def Let_def)

lemma wait_pop_inv: "bus_inv b \<Longrightarrow> wait_pop b = Some (x, b') \<Longrightarrow> bus_inv b' \<and> obs_valid x"
  by (auto simp: bus_inv_def wait_pop_def split: list.splits)

interpretation bus: fifo_channel bus_put wait_pop bus_close bus_queue bus_capacity bus_inv
proof unfold_locales
  fix s x ok s'
  show "bus_put s x = (ok, s') \<Longrightarrow> bus_queue s' = (if ok then bus_queue s @ [x] else bus_queue s)"
    by (auto simp: bus_put_def bus_publish_def Let_def split: if_splits)
  show "bus_inv s \<Longrightarrow> bus_put s x = (ok, s') \<Longrightarrow> bus_inv s' \<and> bus_capacity s' = bus_capacity s"
    using bus_publish_inv [of s x]
    by (auto simp: bus_put_def bus_publish_def Let_def split: if_splits)
next
  fix s x s'
  show "wait_pop s = Some (x, s') \<Longrightarrow> bus_queue s = x # bus_queue s'"
    by (auto simp: wait_pop_def split: list.splits)
  show "bus_inv s \<Longrightarrow> wait_pop s = Some (x, s') \<Longrightarrow> bus_inv s' \<and> bus_capacity s' = bus_capacity s"
    by (auto simp: wait_pop_def bus_inv_def split: list.splits)
next
  fix s
  show "wait_pop s = None \<longleftrightarrow> bus_queue s = []"
    by (auto simp: wait_pop_def split: list.splits)
  show "bus_queue (bus_close s) = bus_queue s" by (simp add: bus_close_def)
  show "bus_inv s \<Longrightarrow> length (bus_queue s) \<le> bus_capacity s" by (simp add: bus_inv_def)
  show "bus_inv s \<Longrightarrow> bus_inv (bus_close s) \<and> bus_capacity (bus_close s) = bus_capacity s"
    by (simp add: bus_inv_def bus_close_def)
qed

section \<open>Metrics\<close>

text \<open>A batch of publishes with the results they return.\<close>

fun publish_all :: "TelemetryBus \<Rightarrow> SecurityObservation list \<Rightarrow> PublishResult list \<times> TelemetryBus" where
  "publish_all b [] = ([], b)"
| "publish_all b (x # xs) = (case bus_publish b x of (r, b') \<Rightarrow>
     case publish_all b' xs of (rs, b'') \<Rightarrow> (r # rs, b''))"

lemma bus_publish_metrics:
  assumes "bus_publish b x = (r, b')"
  shows "accepted (bus_metrics b') = accepted (bus_metrics b) + of_bool (r = ACCEPTED)"
    and "dropped_full (bus_metrics b') = dropped_full (bus_metrics b) + of_bool (r = DROPPED_FULL)"
    and "rejected_invalid (bus_metrics b') = rejected_invalid (bus_metrics b) + of_bool (r = REJECTED_INVALID)"
    and "rejected_closed (bus_metrics b') = rejected_closed (bus_metrics b) + of_bool (r = CLOSED)"
  using assms by (auto simp: bus_publish_def Let_def split: if_splits)

lemma publish_all_metrics:
  "publish_all b xs = (rs, b') \<Longrightarrow>
     accepted (bus_metrics b') = accepted (bus_metrics b) + of_nat (count_list rs ACCEPTED) \<and>
     dropped_full (bus_metrics b') = dropped_full (bus_metrics b) + of_nat (count_list rs DROPPED_FULL) \<and>
     rejected_invalid (bus_metrics b') = rejected_invalid (bus_metrics b) + of_nat (count_list rs REJECTED_INVALID) \<and>
     rejected_closed (bus_metrics b') = rejected_closed (bus_metrics b) + of_nat (count_list rs CLOSED)"
proof (induction xs arbitrary: b rs)
  case Nil
  then show ?case by simp
next
  case (Cons x xs)
  then obtain r b1 rs' where p: "bus_publish b x = (r, b1)" and rs': "publish_all b1 xs = (rs', b')"
    and rs: "rs = r # rs'" by (auto split: prod.splits)
  from Cons.IH [OF rs'] bus_publish_metrics [OF p] rs show ?case by auto
qed

lemma publish_all_length: "length (fst (publish_all b xs)) = length xs"
  by (induction xs arbitrary: b) (simp_all split: prod.splits, metis fst_conv)

section \<open>Properties\<close>

text \<open>
  C12. The bus is a lossless bounded FIFO between publishers and the worker: over every interleaving of
  publish, pop and close on a new bus, the accepted observations are exactly the popped ones, in
  order, followed by those still queued, and never more than the capacity (at least one) are queued.
\<close>

theorem bus_lossless_fifo:
  "case chan_run bus_put wait_pop bus_close (TelemetryBus_new n) ops of
     (b, accepted_obs, popped_obs) \<Rightarrow> accepted_obs = popped_obs @ bus_queue b \<and> length (bus_queue b) \<le> max 1 n"
proof (cases "chan_run bus_put wait_pop bus_close (TelemetryBus_new n) ops")
  case (fields b acc del)
  then show ?thesis
    using bus.run_conserves [OF fields] bus.run_bounded [OF bus_inv_new fields] by (simp add: TelemetryBus_new_def)
qed

text \<open>
  Every publish is accounted for: after any sequence of publishes each of the four counters has
  grown by exactly the number of calls that returned the corresponding result, in 64-bit arithmetic.
\<close>

theorem bus_accounting:
  "case publish_all b xs of (rs, b') \<Rightarrow>
     length rs = length xs \<and>
     accepted (metrics b') = accepted (metrics b) + of_nat (count_list rs ACCEPTED) \<and>
     dropped_full (metrics b') = dropped_full (metrics b) + of_nat (count_list rs DROPPED_FULL) \<and>
     rejected_invalid (metrics b') = rejected_invalid (metrics b) + of_nat (count_list rs REJECTED_INVALID) \<and>
     rejected_closed (metrics b') = rejected_closed (metrics b) + of_nat (count_list rs CLOSED)"
  using publish_all_metrics [of b xs] publish_all_length [of b xs]
  by (cases "publish_all b xs") (simp add: metrics_def)

end
