(* ===== verification/Correlation.thy ===== *)
theory Correlation
  imports Policy "HOL-Library.List_Lexorder" "HOL-Library.Char_ord"
begin

text \<open>
  \<^verbatim>\<open>security/correlation_engine.{hpp,cpp}\<close>: per-target aggregation of observations into findings.
  The two \<^verbatim>\<open>std::unordered_map\<close>s are association lists with distinct keys; their order stands for
  the iteration order, which C++ leaves open and on which only the choice between equally old
  entries in \<^verbatim>\<open>evict_oldest_locked\<close> depends. The current time is an argument, as in the code.
\<close>

section \<open>State\<close>

record SourceState =
  src_confidence :: double
  src_suggested_level :: ThreatLevel
  src_deterministic :: bool
  src_last_seen :: time_point

record ActiveState =
  act_last_seen :: time_point
  act_sources :: "(string \<times> SourceState) list"
  act_file_path :: string
  act_sha256 :: string
  act_rationale :: string
  act_last_reported_score :: u8
  act_last_reported_level :: ThreatLevel

record CorrelationEngine =
  corr_policy :: LocalSecurityPolicy
  corr_active :: "(string \<times> ActiveState) list"
  corr_findings :: "SecurityFinding list"
  corr_next_finding_id :: u64

definition MAX_ACTIVE_KEYS :: nat where "MAX_ACTIVE_KEYS = 4096"
definition MAX_FINDINGS :: nat where "MAX_FINDINGS = 2000"
definition DUPLICATE_WINDOW :: int where "DUPLICATE_WINDOW = seconds 30"

definition empty_active :: ActiveState where
  "empty_active = \<lparr>act_last_seen = 0, act_sources = [], act_file_path = [], act_sha256 = [],
     act_rationale = [], act_last_reported_score = 0, act_last_reported_level = SAFE\<rparr>"

definition CorrelationEngine_new :: "LocalSecurityPolicy \<Rightarrow> CorrelationEngine" where
  "CorrelationEngine_new policy = \<lparr>corr_policy = policy, corr_active = [], corr_findings = [],
     corr_next_finding_id = 1\<rparr>"

section \<open>Scoring\<close>

definition source_points :: "SourceState \<Rightarrow> u32" where
  "source_points source = word_of_int (lround (dmul (src_confidence source) (Fin 50)))"

definition score_for :: "ActiveState \<Rightarrow> u8" where
  "score_for state =
     (let score = foldl (\<lambda>score (source_id, source). score + source_points source) 0 (act_sources state);
          score' = (if length (act_sources state) \<ge> 2 then score + 20 else score)
      in ucast (min score' 100))"

definition any_source_deterministic :: "ActiveState \<Rightarrow> bool" where
  "any_source_deterministic state \<longleftrightarrow> (\<exists>(source_id, source) \<in> set (act_sources state). src_deterministic source)"

definition level_for :: "u8 \<Rightarrow> ThreatLevel" where
  "level_for score = (if 90 \<le> score then CRITICAL else if 75 \<le> score then HIGH
     else if 50 \<le> score then MEDIUM else if 25 \<le> score then LOW else SAFE)"

section \<open>Eviction and expiry\<close>

fun oldest_key :: "(string \<times> ActiveState) \<Rightarrow> (string \<times> ActiveState) list \<Rightarrow> string" where
  "oldest_key oldest [] = fst oldest"
| "oldest_key oldest (it # rest) =
     oldest_key (if act_last_seen (snd it) < act_last_seen (snd oldest) then it else oldest) rest"

definition evict_oldest_locked :: "CorrelationEngine \<Rightarrow> CorrelationEngine" where
  "evict_oldest_locked e =
     (if length (corr_active e) < MAX_ACTIVE_KEYS then e
      else case corr_active e of
        [] \<Rightarrow> e
      | it # rest \<Rightarrow> e\<lparr>corr_active := AList.delete (oldest_key it rest) (corr_active e)\<rparr>)"

definition expire :: "CorrelationEngine \<Rightarrow> time_point \<Rightarrow> CorrelationEngine" where
  "expire e now = e\<lparr>corr_active := filter (\<lambda>(k, st).
     \<not> (act_last_seen st \<le> now \<and> minutes (pol_finding_window (corr_policy e)) < now - act_last_seen st))
     (corr_active e)\<rparr>"

section \<open>Ingesting an observation\<close>

text \<open>
  The state of the observation's key once the observation is recorded (lines from
  \<^verbatim>\<open>state.last_seen = now\<close> to the rationale assignment).
\<close>

definition record_source :: "ActiveState \<Rightarrow> SecurityObservation \<Rightarrow> time_point \<Rightarrow> ActiveState" where
  "record_source state obs now =
     state\<lparr>act_last_seen := now,
       act_sources := AList.update (obs_source_id obs)
         \<lparr>src_confidence = obs_confidence obs, src_suggested_level = obs_suggested_level obs,
          src_deterministic = obs_deterministic obs, src_last_seen = now\<rparr> (act_sources state),
       act_file_path := (if act_file_path state = [] \<and> obs_file_path obs \<noteq> []
         then obs_file_path obs else act_file_path state),
       act_sha256 := (if act_sha256 state = [] \<and> obs_sha256 obs \<noteq> [] then obs_sha256 obs else act_sha256 state),
       act_rationale := (if act_rationale state = [] then obs_evidence obs else act_rationale state)\<rparr>"

definition is_duplicate :: "ActiveState \<Rightarrow> SecurityObservation \<Rightarrow> time_point \<Rightarrow> bool" where
  "is_duplicate state obs now = (case map_of (act_sources state) (obs_source_id obs) of
     None \<Rightarrow> False
   | Some src \<Rightarrow> src_last_seen src \<le> now \<and> now - src_last_seen src < DUPLICATE_WINDOW)"

definition make_finding :: "u64 \<Rightarrow> time_point \<Rightarrow> ThreatLevel \<Rightarrow> u8 \<Rightarrow> string \<Rightarrow> ActiveState \<Rightarrow>
    SecurityFinding" where
  "make_finding fid now level score key state =
     \<lparr>fin_id = fid, fin_timestamp = now, fin_level = level, fin_risk_score = score,
      fin_deterministic_signature = any_source_deterministic state,
      fin_correlation_key = key, fin_file_path = act_file_path state, fin_sha256 = act_sha256 state,
      fin_rationale = act_rationale state,
      fin_contributing_sources = sort (map fst (act_sources state)), fin_observation_ids = []\<rparr>"

definition ingest :: "CorrelationEngine \<Rightarrow> SecurityObservation \<Rightarrow> time_point \<Rightarrow>
    SecurityFinding option \<times> CorrelationEngine" where
  "ingest e obs now =
     (if \<not> obs_valid obs then (None, e)
      else
        let key = correlation_key obs;
            e1 = expire e now;
            e2 = (case map_of (corr_active e1) key of
                    Some _ \<Rightarrow> e1
                  | None \<Rightarrow> (let e' = evict_oldest_locked e1 in
                      e'\<lparr>corr_active := AList.update key empty_active (corr_active e')\<rparr>));
            state = the (map_of (corr_active e2) key)
        in if is_duplicate state obs now then (None, e2)
           else
             let state1 = record_source state obs now;
                 score = score_for state1;
                 level = level_for score
             in if score \<le> act_last_reported_score state \<and> level \<le> act_last_reported_level state
                then (None, e2\<lparr>corr_active := AList.update key state1 (corr_active e2)\<rparr>)
                else
                  let state2 = state1\<lparr>act_last_reported_score := score, act_last_reported_level := level\<rparr>;
                      finding = make_finding (corr_next_finding_id e2) now level score key state2
                  in (Some finding,
                      e2\<lparr>corr_active := AList.update key state2 (corr_active e2),
                         corr_findings := push_bounded MAX_FINDINGS (corr_findings e2) finding,
                         corr_next_finding_id := corr_next_finding_id e2 + 1\<rparr>))"

definition recent :: "CorrelationEngine \<Rightarrow> nat \<Rightarrow> SecurityFinding list" where
  "recent e n = last_n n (corr_findings e)"

section \<open>Scores and levels\<close>

definition src_ok :: "SourceState \<Rightarrow> bool" where
  "src_ok s \<longleftrightarrow> (\<exists>x. src_confidence s = Fin x \<and> 0 \<le> x \<and> x \<le> 1)"

lemma source_points_le: "src_ok s \<Longrightarrow> unat (source_points s) \<le> 50"
proof -
  assume "src_ok s"
  then obtain x where x: "src_confidence s = Fin x" "0 \<le> x" "x \<le> 1" by (auto simp: src_ok_def)
  have r: "0 \<le> x * 50" "x * 50 \<le> of_nat 50" using x by simp_all
  have "0 \<le> lround (fl (x * 50))" "lround (fl (x * 50)) \<le> 50"
    using lround_range [OF r] by simp_all
  then have "nat (lround (fl (x * 50)) mod 2 ^ 32) \<le> 50" by simp
  then show ?thesis using x(1) by (simp add: source_points_def unat_eq_nat_uint uint_word_of_int)
qed

lemma score_for_le100: "score_for st \<le> 100"
proof -
  have "unat (ucast (min w 100) :: u8) \<le> 100" for w :: u32
  proof -
    have "unat (min w 100) \<le> 100"
      using word_le_nat_alt [of "min w 100" 100] by simp
    then show ?thesis by (simp add: unsigned_ucast_eq take_bit_eq_mod)
  qed
  then show ?thesis by (simp add: score_for_def Let_def word_le_nat_alt)
qed

lemma level_for_mono: "a \<le> b \<Longrightarrow> level_for a \<le> level_for b"
  by (auto simp: level_for_def level_order)

lemma level_for_critical: "level_for a = CRITICAL \<longleftrightarrow> 90 \<le> a"
  by (simp add: level_for_def)

text \<open>
  The score is a sum over the sources, so it does not depend on the iteration order of the
  unordered map.
\<close>

lemma foldl_points_sum:
  "foldl (\<lambda>score (source_id, source). score + source_points source) a xs =
     a + sum_list (map (source_points \<circ> snd) xs)"
  by (induction xs arbitrary: a) (auto simp: algebra_simps)

lemma score_for_perm:
  assumes "mset (act_sources st) = mset (act_sources st')"
  shows "score_for st = score_for st'"
proof -
  have "sum_list (map (source_points \<circ> snd) (act_sources st)) =
      sum_list (map (source_points \<circ> snd) (act_sources st'))"
    using assms by (metis mset_map sum_mset_sum_list)
  moreover have "length (act_sources st) = length (act_sources st')"
    using assms by (rule mset_eq_length)
  ultimately show ?thesis by (simp add: score_for_def foldl_points_sum)
qed

text \<open>One source alone scores at most 50 points, which is never critical.\<close>

lemma score_for_one:
  assumes "act_sources st = [(k, s)]" "src_ok s"
  shows "score_for st \<le> 50"
proof -
  have p: "unat (source_points s) \<le> 50" using assms(2) by (rule source_points_le)
  then have "source_points s \<le> 100" by (simp add: word_le_nat_alt)
  then have "min (source_points s) 100 = source_points s" by (simp add: min_def)
  then have "score_for st = ucast (source_points s)" using assms(1) by (simp add: score_for_def)
  then have "unat (score_for st) = unat (source_points s)"
    using p by (simp add: unsigned_ucast_eq take_bit_eq_mod)
  then show ?thesis using p by (simp add: word_le_nat_alt)
qed

lemma critical_needs_two_sources:
  assumes "level_for (score_for st) = CRITICAL" "\<forall>s \<in> snd ` set (act_sources st). src_ok s"
  shows "2 \<le> length (act_sources st)"
proof (rule ccontr)
  assume "\<not> 2 \<le> length (act_sources st)"
  then consider "act_sources st = []" | k s where "act_sources st = [(k, s)]"
    by (cases "act_sources st"; cases "tl (act_sources st)") auto
  then have "score_for st \<le> 50"
  proof cases
    case 1
    then show ?thesis by (simp add: score_for_def)
  next
    case 2
    then show ?thesis using assms(2) by (auto intro: score_for_one)
  qed
  moreover have "90 \<le> score_for st" using assms(1) by (simp add: level_for_critical)
  ultimately have "(90 :: u8) \<le> 50" by (rule order_trans [rotated])
  then show False by simp
qed

section \<open>Invariant\<close>

definition active_ok :: "ActiveState \<Rightarrow> bool" where
  "active_ok st \<longleftrightarrow> distinct (map fst (act_sources st)) \<and>
     (\<forall>s \<in> snd ` set (act_sources st). src_ok s) \<and>
     act_last_reported_level st = level_for (act_last_reported_score st)"

definition finding_ok :: "SecurityFinding \<Rightarrow> bool" where
  "finding_ok f \<longleftrightarrow> fin_level f = level_for (fin_risk_score f) \<and> fin_risk_score f \<le> 100 \<and>
     sorted (fin_contributing_sources f) \<and> distinct (fin_contributing_sources f) \<and>
     (fin_level f = CRITICAL \<longrightarrow> 2 \<le> length (fin_contributing_sources f))"

definition corr_inv :: "CorrelationEngine \<Rightarrow> bool" where
  "corr_inv e \<longleftrightarrow> distinct (map fst (corr_active e)) \<and> length (corr_active e) \<le> MAX_ACTIVE_KEYS \<and>
     length (corr_findings e) \<le> MAX_FINDINGS \<and>
     (\<forall>st \<in> snd ` set (corr_active e). active_ok st) \<and> (\<forall>f \<in> set (corr_findings e). finding_ok f)"

lemma corr_inv_new: "corr_inv (CorrelationEngine_new p)"
  by (simp add: corr_inv_def CorrelationEngine_new_def)

lemma empty_active_ok: "active_ok empty_active"
  by (simp add: active_ok_def empty_active_def level_for_def)

lemma distinct_map_fst_filter: "distinct (map fst xs) \<Longrightarrow> distinct (map fst (filter P xs))"
  by (rule distinct_map_filter)

lemma corr_inv_subset:
  assumes "corr_inv e" "set xs \<subseteq> set (corr_active e)" "distinct (map fst xs)"
    "length xs \<le> length (corr_active e)"
  shows "corr_inv (e\<lparr>corr_active := xs\<rparr>)"
  using assms by (auto simp: corr_inv_def)

lemma corr_inv_update:
  assumes "corr_inv e" "active_ok st"
    "k \<in> fst ` set (corr_active e) \<or> length (corr_active e) < MAX_ACTIVE_KEYS"
  shows "corr_inv (e\<lparr>corr_active := AList.update k st (corr_active e)\<rparr>)"
proof -
  have "\<forall>st' \<in> snd ` set (AList.update k st (corr_active e)). active_ok st'"
    using assms(1,2) set_AList_update [of k st "corr_active e"] by (auto simp: corr_inv_def)
  moreover have "length (AList.update k st (corr_active e)) \<le> MAX_ACTIVE_KEYS"
    using assms(1,3) by (auto simp: length_AList_update corr_inv_def)
  ultimately show ?thesis using assms(1) by (simp add: corr_inv_def distinct_update)
qed

lemma expire_inv: "corr_inv e \<Longrightarrow> corr_inv (expire e now)"
  unfolding expire_def
  by (rule corr_inv_subset) (auto simp: corr_inv_def intro: distinct_map_fst_filter)

lemma expire_fields [simp]:
  "corr_findings (expire e now) = corr_findings e" "corr_next_finding_id (expire e now) = corr_next_finding_id e"
  "corr_policy (expire e now) = corr_policy e"
  by (simp_all add: expire_def)

lemma oldest_key_mem: "oldest_key it rest \<in> insert (fst it) (fst ` set rest)"
proof (induction it rest rule: oldest_key.induct)
  case (2 oldest it rest)
  then show ?case by (simp only: oldest_key.simps) (auto split: if_splits)
qed simp

text \<open>The evicted entry is the least recently seen one.\<close>

lemma oldest_key_min:
  "\<exists>st. (oldest_key it rest, st) \<in> set (it # rest) \<and>
     (\<forall>(k, st') \<in> set (it # rest). act_last_seen st \<le> act_last_seen st')"
proof (induction it rest rule: oldest_key.induct)
  case (1 oldest)
  then show ?case by (cases oldest) auto
next
  case (2 oldest it rest)
  let ?m = "if act_last_seen (snd it) < act_last_seen (snd oldest) then it else oldest"
  from 2 obtain st where st: "(oldest_key ?m rest, st) \<in> set (?m # rest)"
    and min: "\<forall>(k, st') \<in> set (?m # rest). act_last_seen st \<le> act_last_seen st'" by blast
  have "act_last_seen st \<le> act_last_seen (snd ?m)" using min by (cases ?m) auto
  then have "act_last_seen st \<le> act_last_seen (snd it)" "act_last_seen st \<le> act_last_seen (snd oldest)"
    by (auto split: if_splits)
  with st min show ?case by (intro exI [of _ st]) (auto split: if_splits)
qed

lemma evict_inv:
  assumes "corr_inv e"
  shows "corr_inv (evict_oldest_locked e)" "length (corr_active (evict_oldest_locked e)) < MAX_ACTIVE_KEYS"
proof -
  have d: "distinct (map fst (corr_active e))" and l: "length (corr_active e) \<le> MAX_ACTIVE_KEYS"
    using assms by (simp_all add: corr_inv_def)
  show "corr_inv (evict_oldest_locked e)"
  proof (cases "length (corr_active e) < MAX_ACTIVE_KEYS \<or> corr_active e = []")
    case True
    then show ?thesis using assms by (auto simp: evict_oldest_locked_def)
  next
    case False
    then obtain it rest where "corr_active e = it # rest" by (cases "corr_active e") auto
    then have "evict_oldest_locked e =
        e\<lparr>corr_active := AList.delete (oldest_key it rest) (corr_active e)\<rparr>"
      using False by (simp add: evict_oldest_locked_def)
    then show ?thesis
      using corr_inv_subset [OF assms set_AList_delete distinct_delete [OF d] length_delete_le] by simp
  qed
  show "length (corr_active (evict_oldest_locked e)) < MAX_ACTIVE_KEYS"
  proof (cases "corr_active e")
    case Nil
    then show ?thesis by (simp add: evict_oldest_locked_def MAX_ACTIVE_KEYS_def)
  next
    case (Cons it rest)
    then have "oldest_key it rest \<in> fst ` set (corr_active e)" using oldest_key_mem [of it rest] by auto
    then show ?thesis
      using length_AList_delete [OF d] l Cons
      by (auto simp: evict_oldest_locked_def MAX_ACTIVE_KEYS_def)
  qed
qed

section \<open>Ingest keeps the invariant\<close>

text \<open>The engine and the key's state when the observation is looked at.\<close>

definition open_key :: "CorrelationEngine \<Rightarrow> string \<Rightarrow> time_point \<Rightarrow> CorrelationEngine" where
  "open_key e key now =
     (let e1 = expire e now in
      case map_of (corr_active e1) key of
        Some _ \<Rightarrow> e1
      | None \<Rightarrow> (let e' = evict_oldest_locked e1 in
          e'\<lparr>corr_active := AList.update key empty_active (corr_active e')\<rparr>))"

lemma evict_fields [simp]:
  "corr_findings (evict_oldest_locked e) = corr_findings e"
  "corr_next_finding_id (evict_oldest_locked e) = corr_next_finding_id e"
  "corr_policy (evict_oldest_locked e) = corr_policy e"
  by (simp_all add: evict_oldest_locked_def split: list.splits)

lemma open_key_fields [simp]:
  "corr_findings (open_key e key now) = corr_findings e"
  "corr_next_finding_id (open_key e key now) = corr_next_finding_id e"
  "corr_policy (open_key e key now) = corr_policy e"
  by (simp_all add: open_key_def Let_def split: option.splits)

lemma open_key_inv:
  assumes "corr_inv e"
  shows "corr_inv (open_key e key now)" "key \<in> fst ` set (corr_active (open_key e key now))"
proof -
  let ?e1 = "expire e now"
  have e1: "corr_inv ?e1" using assms by (rule expire_inv)
  show "corr_inv (open_key e key now)"
  proof (cases "map_of (corr_active ?e1) key")
    case None
    have "corr_inv ((evict_oldest_locked ?e1)\<lparr>corr_active :=
        AList.update key empty_active (corr_active (evict_oldest_locked ?e1))\<rparr>)"
      using evict_inv [OF e1] empty_active_ok by (intro corr_inv_update) auto
    with None show ?thesis by (simp add: open_key_def Let_def)
  next
    case (Some st)
    with e1 show ?thesis by (simp add: open_key_def Let_def)
  qed
  show "key \<in> fst ` set (corr_active (open_key e key now))"
    by (auto simp: open_key_def Let_def dom_update split: option.splits dest: map_of_SomeD intro: rev_image_eqI)
qed

lemma open_key_state:
  assumes "corr_inv e"
  obtains st where "map_of (corr_active (open_key e key now)) key = Some st" "active_ok st"
proof -
  obtain st where st: "map_of (corr_active (open_key e key now)) key = Some st"
    using open_key_inv(2) [OF assms, of key now] by (metis map_of_eq_None_iff not_None_eq)
  then have "st \<in> snd ` set (corr_active (open_key e key now))"
    by (auto dest: map_of_SomeD intro: rev_image_eqI)
  then have "active_ok st" using open_key_inv(1) [OF assms, of key now] by (auto simp: corr_inv_def)
  with st that show ?thesis by blast
qed

lemma ingest_unfold:
  "ingest e obs now =
     (if \<not> obs_valid obs then (None, e)
      else
        let key = correlation_key obs; e2 = open_key e key now; state = the (map_of (corr_active e2) key)
        in if is_duplicate state obs now then (None, e2)
           else
             let state1 = record_source state obs now; score = score_for state1; level = level_for score
             in if score \<le> act_last_reported_score state \<and> level \<le> act_last_reported_level state
                then (None, e2\<lparr>corr_active := AList.update key state1 (corr_active e2)\<rparr>)
                else
                  let state2 = state1\<lparr>act_last_reported_score := score, act_last_reported_level := level\<rparr>;
                      finding = make_finding (corr_next_finding_id e2) now level score key state2
                  in (Some finding,
                      e2\<lparr>corr_active := AList.update key state2 (corr_active e2),
                         corr_findings := push_bounded MAX_FINDINGS (corr_findings e2) finding,
                         corr_next_finding_id := corr_next_finding_id e2 + 1\<rparr>))"
  by (simp add: ingest_def open_key_def Let_def)

lemma obs_valid_confidence:
  assumes "obs_valid obs"
  shows "src_ok \<lparr>src_confidence = obs_confidence obs, src_suggested_level = l, src_deterministic = d,
    src_last_seen = t\<rparr>"
  using assms by (cases "obs_confidence obs") (auto simp: obs_valid_def src_ok_def)

lemma record_source_ok:
  assumes "active_ok st" "obs_valid obs"
  shows "active_ok (record_source st obs now)"
proof -
  let ?s = "\<lparr>src_confidence = obs_confidence obs, src_suggested_level = obs_suggested_level obs,
    src_deterministic = obs_deterministic obs, src_last_seen = now\<rparr>"
  have "src_ok ?s" using assms(2) by (rule obs_valid_confidence)
  then have "\<forall>s \<in> snd ` set (AList.update (obs_source_id obs) ?s (act_sources st)). src_ok s"
    using assms(1) set_AList_update [of "obs_source_id obs" ?s "act_sources st"]
    by (auto simp: active_ok_def)
  then show ?thesis using assms(1) by (simp add: active_ok_def record_source_def distinct_update)
qed

lemma score_for_reported [simp]:
  "score_for (st\<lparr>act_last_reported_score := a, act_last_reported_level := b\<rparr>) = score_for st"
  by (simp add: score_for_def)

lemma make_finding_ok:
  assumes "active_ok st"
  shows "finding_ok (make_finding fid now (level_for (score_for st)) (score_for st) key st)"
proof -
  have "2 \<le> length (act_sources st)" if "level_for (score_for st) = CRITICAL"
    using that assms by (intro critical_needs_two_sources) (auto simp: active_ok_def)
  then show ?thesis
    using assms by (simp add: finding_ok_def make_finding_def score_for_le100 active_ok_def)
qed

lemma ingest_inv:
  assumes "corr_inv e"
  shows "corr_inv (snd (ingest e obs now))"
proof (cases "obs_valid obs")
  case False
  then show ?thesis using assms by (simp add: ingest_def)
next
  case True
  let ?k = "correlation_key obs" and ?e2 = "open_key e (correlation_key obs) now"
  obtain st where st: "map_of (corr_active ?e2) ?k = Some st" and ok: "active_ok st"
    using open_key_state [OF assms] by blast
  have e2: "corr_inv ?e2" and key: "?k \<in> fst ` set (corr_active ?e2)"
    using open_key_inv [OF assms] by auto
  let ?st1 = "record_source st obs now"
  let ?st2 = "?st1\<lparr>act_last_reported_score := score_for ?st1, act_last_reported_level := level_for (score_for ?st1)\<rparr>"
  have ok1: "active_ok ?st1" using ok True by (rule record_source_ok)
  then have ok2: "active_ok ?st2" by (simp add: active_ok_def)
  have f: "finding_ok (make_finding i now (level_for (score_for ?st1)) (score_for ?st1) k ?st2)" for i k
    using make_finding_ok [OF ok2, of i now k] by simp
  have i1: "corr_inv (?e2\<lparr>corr_active := AList.update ?k ?st1 (corr_active ?e2)\<rparr>)"
    using e2 ok1 key by (intro corr_inv_update) auto
  have i2: "corr_inv (?e2\<lparr>corr_active := AList.update ?k ?st2 (corr_active ?e2)\<rparr>)"
    using e2 ok2 key by (intro corr_inv_update) auto
  have "corr_inv (?e2\<lparr>corr_active := AList.update ?k ?st2 (corr_active ?e2),
      corr_findings := push_bounded MAX_FINDINGS (corr_findings ?e2) fd, corr_next_finding_id := n\<rparr>)"
    if "finding_ok fd" for fd n
    using i2 that set_push_bounded [of MAX_FINDINGS "corr_findings ?e2" fd]
    by (auto simp: corr_inv_def intro: push_bounded_le)
  with i1 e2 f st True show ?thesis by (simp add: ingest_unfold Let_def)
qed

text \<open>What a reported finding says.\<close>

lemma ingest_Some:
  assumes "corr_inv e" "ingest e obs now = (Some f, e')"
  shows "finding_ok f" "obs_source_id obs \<in> set (fin_contributing_sources f)"
    "fin_id f = corr_next_finding_id e" "corr_next_finding_id e' = corr_next_finding_id e + 1"
    "fin_correlation_key f = correlation_key obs" "fin_timestamp f = now" "obs_valid obs"
    "corr_findings e' = push_bounded MAX_FINDINGS (corr_findings e) f"
proof -
  let ?k = "correlation_key obs" and ?e2 = "open_key e (correlation_key obs) now"
  obtain st where st: "map_of (corr_active ?e2) ?k = Some st" and ok: "active_ok st"
    using open_key_state [OF assms(1)] by blast
  show v: "obs_valid obs" using assms(2) by (auto simp: ingest_def split: if_splits)
  let ?st1 = "record_source st obs now"
  let ?st2 = "?st1\<lparr>act_last_reported_score := score_for ?st1, act_last_reported_level := level_for (score_for ?st1)\<rparr>"
  have f: "f = make_finding (corr_next_finding_id e) now (level_for (score_for ?st1)) (score_for ?st1) ?k ?st2"
    using assms(2) v st by (auto simp: ingest_unfold Let_def split: if_splits)
  have "active_ok ?st2" using record_source_ok [OF ok v, of now] by (simp add: active_ok_def)
  from make_finding_ok [OF this] show "finding_ok f" by (simp add: f)
  show "obs_source_id obs \<in> set (fin_contributing_sources f)"
    by (simp add: f make_finding_def record_source_def dom_update)
  show "fin_id f = corr_next_finding_id e" "fin_correlation_key f = ?k" "fin_timestamp f = now"
    by (simp_all add: f make_finding_def)
  show "corr_next_finding_id e' = corr_next_finding_id e + 1"
    "corr_findings e' = push_bounded MAX_FINDINGS (corr_findings e) f"
    using assms(2) v st f by (auto simp: ingest_unfold Let_def split: if_splits)
qed

lemma ingest_None:
  assumes "ingest e obs now = (None, e')"
  shows "corr_findings e' = corr_findings e" "corr_next_finding_id e' = corr_next_finding_id e"
  using assms by (auto simp: ingest_unfold Let_def split: if_splits)

lemma ingest_policy: "corr_policy (snd (ingest e obs now)) = corr_policy e"
  by (simp add: ingest_unfold Let_def)

section \<open>When a finding is reported\<close>

text \<open>
  Because the reported level is always the level of the reported score, the two comparisons of
  the code come down to one: a finding is reported exactly when the score grew.
\<close>

lemma ingest_reports_iff:
  assumes "corr_inv e" "obs_valid obs"
    "map_of (corr_active (open_key e (correlation_key obs) now)) (correlation_key obs) = Some st"
  shows "fst (ingest e obs now) \<noteq> None \<longleftrightarrow>
    \<not> is_duplicate st obs now \<and> act_last_reported_score st < score_for (record_source st obs now)"
proof -
  obtain st' where "map_of (corr_active (open_key e (correlation_key obs) now)) (correlation_key obs) = Some st'"
    "active_ok st'" using open_key_state [OF assms(1)] by blast
  with assms(3) have "active_ok st" by simp
  then have "act_last_reported_level st = level_for (act_last_reported_score st)"
    by (simp add: active_ok_def)
  then have lv: "level_for s \<le> act_last_reported_level st" if "s \<le> act_last_reported_score st" for s
    using level_for_mono [OF that] by simp
  show ?thesis
  proof (cases "score_for (record_source st obs now) \<le> act_last_reported_score st")
    case True
    with lv [OF True] show ?thesis using assms(2,3) by (simp add: ingest_unfold Let_def not_less)
  next
    case False
    then have "act_last_reported_score st < score_for (record_source st obs now)" by (simp add: not_le)
    with False show ?thesis using assms(2,3) by (simp add: ingest_unfold Let_def)
  qed
qed

text \<open>After a report, the same source cannot trigger another one for the same target within the window.\<close>

lemma ingest_duplicate_after:
  assumes "corr_inv e" "ingest e o1 now = (Some f, e1)" "obs_valid o2"
    "correlation_key o2 = correlation_key o1" "obs_source_id o2 = obs_source_id o1"
    "now \<le> now'" "now' - now < DUPLICATE_WINDOW" "0 < pol_finding_window (corr_policy e1)"
  shows "ingest e1 o2 now' = (None, expire e1 now')"
proof -
  let ?k = "correlation_key o1" and ?e2 = "open_key e (correlation_key o1) now"
  obtain st where st: "map_of (corr_active ?e2) ?k = Some st" using open_key_state [OF assms(1)] by blast
  have v: "obs_valid o1" using ingest_Some(7) [OF assms(1,2)] .
  define st2 where "st2 = (record_source st o1 now)\<lparr>act_last_reported_score := score_for (record_source st o1 now),
    act_last_reported_level := level_for (score_for (record_source st o1 now))\<rparr>"
  have act: "corr_active e1 = AList.update ?k st2 (corr_active ?e2)"
    using assms(2) v st by (auto simp: ingest_unfold Let_def st2_def split: if_splits)
  have inv1: "corr_inv e1" using ingest_inv [OF assms(1), of o1 now] assms(2) by simp
  have look: "map_of (corr_active e1) ?k = Some st2" by (simp add: act update_conv')
  have keep: "\<not> minutes (pol_finding_window (corr_policy e1)) < now' - act_last_seen st2"
    using assms(7,8) by (simp add: st2_def record_source_def DUPLICATE_WINDOW_def seconds_def minutes_def)
  have d: "distinct (map fst (corr_active e1))" using inv1 by (simp add: corr_inv_def)
  have "(?k, st2) \<in> set (corr_active (expire e1 now'))"
    using map_of_SomeD [OF look] keep by (auto simp: expire_def)
  then have look': "map_of (corr_active (expire e1 now')) ?k = Some st2"
    using d by (intro map_of_is_SomeI) (simp_all add: expire_def distinct_map_fst_filter)
  then have op: "open_key e1 ?k now' = expire e1 now'" by (simp add: open_key_def)
  have "is_duplicate st2 o2 now'"
    using assms(5,6,7) by (simp add: is_duplicate_def st2_def record_source_def update_conv')
  then show ?thesis using assms(3,4) op look' by (simp add: ingest_unfold Let_def)
qed

section \<open>Sample inputs\<close>

definition sample_observation :: "string \<Rightarrow> SecurityObservation" where
  "sample_observation source = \<lparr>obs_source_id = source, obs_kind = LEGACY_ENGINE, obs_timestamp = 0,
     obs_suggested_level = HIGH, obs_confidence = Fin 1, obs_deterministic = True, obs_process_id = 4,
     obs_process_name = ''p'', obs_file_path = ''c:/tmp/x'', obs_sha256 = [], obs_evidence = ''e''\<rparr>"

lemma sample_valid: "obs_valid (sample_observation (c # cs))"
  by (simp add: sample_observation_def obs_valid_def)

lemma sample_score: "score_for (record_source empty_active (sample_observation (c # cs)) now) = 50"
  by (simp add: record_source_def sample_observation_def empty_active_def score_for_def source_points_def
      lround_numeral)

lemma sample_reported:
  "\<exists>f e1. ingest (CorrelationEngine_new default_policy) (sample_observation (c # cs)) now = (Some f, e1)"
proof -
  have "fst (ingest (CorrelationEngine_new default_policy) (sample_observation (c # cs)) now) \<noteq> None"
    by (subst ingest_reports_iff [OF corr_inv_new sample_valid, where st = empty_active])
      (simp_all add: open_key_def CorrelationEngine_new_def expire_def evict_oldest_locked_def MAX_ACTIVE_KEYS_def
        sample_score, simp add: is_duplicate_def empty_active_def)
  then show ?thesis by (cases "ingest (CorrelationEngine_new default_policy) (sample_observation (c # cs)) now") auto
qed

definition full_engine :: CorrelationEngine where
  "full_engine = (CorrelationEngine_new default_policy)\<lparr>corr_active :=
     map (\<lambda>i. (to_string i, empty_active\<lparr>act_last_seen := int i\<rparr>)) [0..<MAX_ACTIVE_KEYS]\<rparr>"

lemma full_engine_full:
  "distinct (map fst (corr_active full_engine))" "length (corr_active full_engine) = MAX_ACTIVE_KEYS"
proof -
  have "map fst (corr_active full_engine) = map to_string [0..<MAX_ACTIVE_KEYS]"
    by (simp add: full_engine_def o_def)
  then show "distinct (map fst (corr_active full_engine))"
    by (simp add: distinct_map inj_on_def to_string_inj)
  show "length (corr_active full_engine) = MAX_ACTIVE_KEYS" by (simp add: full_engine_def)
qed

section \<open>Properties\<close>

text \<open>
  C11. Every state the correlation engine can reach from construction by ingesting observations at any
  times keeps its bounds (4096 active keys, 2000 findings), and every finding it holds has the level
  of its score, a score of at most 100, a sorted duplicate-free list of sources, and at least two
  sources when it is critical.
\<close>

theorem engine_invariant:
  "let e = foldl (\<lambda>e (obs, now). snd (ingest e obs now)) (CorrelationEngine_new policy) inputs in
     length (corr_active e) \<le> 4096 \<and> length (corr_findings e) \<le> 2000 \<and> distinct (map fst (corr_active e)) \<and>
     (\<forall>f. f \<in> set (corr_findings e) \<longrightarrow> fin_level f = level_for (fin_risk_score f) \<and> fin_risk_score f \<le> 100 \<and>
        sorted (fin_contributing_sources f) \<and> distinct (fin_contributing_sources f) \<and>
        (fin_level f = CRITICAL \<longrightarrow> 2 \<le> length (fin_contributing_sources f)))"
proof -
  have "corr_inv (foldl (\<lambda>e (obs, now). snd (ingest e obs now)) e inputs)" if "corr_inv e" for e
    using that by (induction inputs arbitrary: e) (auto simp: ingest_inv)
  from this [OF corr_inv_new] show ?thesis
    by (simp add: corr_inv_def finding_ok_def Let_def MAX_ACTIVE_KEYS_def MAX_FINDINGS_def)
qed

theorem engine_invariant_witness:
  "length (corr_active (snd (ingest (CorrelationEngine_new default_policy) (sample_observation ''a'') 0))) \<le> 4096"
  using engine_invariant [of default_policy "[(sample_observation ''a'', 0)]"] by (simp add: Let_def)

text \<open>
  A valid observation that is not a duplicate is reported exactly when it raises the score of its
  target above the score last reported for it; the comparison of levels in the code never matters,
  because the reported level is always the level of the reported score.
\<close>

theorem reports_exactly_on_growth:
  assumes "corr_inv e" "obs_valid obs"
    "map_of (corr_active (open_key e (correlation_key obs) now)) (correlation_key obs) = Some st"
  shows "fst (ingest e obs now) \<noteq> None \<longleftrightarrow>
    \<not> is_duplicate st obs now \<and> act_last_reported_score st < score_for (record_source st obs now)"
  using assms by (rule ingest_reports_iff)

theorem reports_exactly_on_growth_witness:
  "fst (ingest (CorrelationEngine_new default_policy) (sample_observation ''a'') 7) \<noteq> None \<longleftrightarrow>
    \<not> is_duplicate empty_active (sample_observation ''a'') 7 \<and>
    act_last_reported_score empty_active < score_for (record_source empty_active (sample_observation ''a'') 7)"
  by (rule reports_exactly_on_growth [OF corr_inv_new sample_valid])
    (simp add: open_key_def CorrelationEngine_new_def expire_def evict_oldest_locked_def MAX_ACTIVE_KEYS_def)

text \<open>
  Alert storms are damped: once an observation was reported, another one from the same source about
  the same target within 30 seconds reports nothing and only expires old entries.
\<close>

theorem duplicates_suppressed:
  assumes "corr_inv e" "ingest e o1 now = (Some f, e1)" "obs_valid o2"
    "correlation_key o2 = correlation_key o1" "obs_source_id o2 = obs_source_id o1"
    "now \<le> now'" "now' - now < DUPLICATE_WINDOW" "0 < pol_finding_window (corr_policy e1)"
  shows "ingest e1 o2 now' = (None, expire e1 now')"
  using assms by (rule ingest_duplicate_after)

theorem duplicates_suppressed_witness:
  "let (r, e1) = ingest (CorrelationEngine_new default_policy) (sample_observation ''a'') 0
   in ingest e1 (sample_observation ''a'') (seconds 29) = (None, expire e1 (seconds 29))"
proof -
  obtain f e1 where i: "ingest (CorrelationEngine_new default_policy) (sample_observation ''a'') 0 = (Some f, e1)"
    using sample_reported by blast
  have "pol_finding_window (corr_policy e1) = 5"
    using ingest_policy [of "CorrelationEngine_new default_policy" "sample_observation ''a''" 0] i
    by (simp add: CorrelationEngine_new_def default_policy_def)
  then show ?thesis
    using duplicates_suppressed [OF corr_inv_new i sample_valid] i
    by (simp add: DUPLICATE_WINDOW_def seconds_def)
qed

text \<open>
  When the table of targets is full, the entry that is dropped is one seen least recently, and
  afterwards there is room for the new target.
\<close>

theorem evicts_least_recent:
  assumes "distinct (map fst (corr_active e))" "length (corr_active e) = MAX_ACTIVE_KEYS"
  shows "\<exists>k st. (k, st) \<in> set (corr_active e) \<and> (\<forall>(k', st') \<in> set (corr_active e). act_last_seen st \<le> act_last_seen st') \<and>
    corr_active (evict_oldest_locked e) = AList.delete k (corr_active e) \<and>
    length (corr_active (evict_oldest_locked e)) < MAX_ACTIVE_KEYS"
proof (cases "corr_active e")
  case Nil
  then show ?thesis using assms(2) by (simp add: MAX_ACTIVE_KEYS_def)
next
  case (Cons it rest)
  let ?k = "oldest_key it rest"
  have ev: "corr_active (evict_oldest_locked e) = AList.delete ?k (corr_active e)"
    using Cons assms(2) by (simp add: evict_oldest_locked_def)
  obtain st where st: "(?k, st) \<in> set (corr_active e)"
      "\<forall>(k', st') \<in> set (corr_active e). act_last_seen st \<le> act_last_seen st'"
    using oldest_key_min [of it rest] Cons by auto
  have "?k \<in> fst ` set (corr_active e)" using st(1) by force
  then have "length (AList.delete ?k (corr_active e)) < MAX_ACTIVE_KEYS"
    using length_AList_delete [OF assms(1)] assms(2) by (simp add: MAX_ACTIVE_KEYS_def)
  with st ev show ?thesis by auto
qed

theorem evicts_least_recent_witness:
  "let e = full_engine in \<exists>k st. (k, st) \<in> set (corr_active e) \<and>
    (\<forall>(k', st') \<in> set (corr_active e). act_last_seen st \<le> act_last_seen st') \<and>
    corr_active (evict_oldest_locked e) = AList.delete k (corr_active e) \<and>
    length (corr_active (evict_oldest_locked e)) < MAX_ACTIVE_KEYS"
  using evicts_least_recent [OF full_engine_full] by (simp only: Let_def)

end
