(* ===== verification/Pipeline.thy ===== *)
theory Pipeline
  imports Telemetry_Bus Correlation
begin

text \<open>
  \<^verbatim>\<open>security/security_pipeline.{hpp,cpp}\<close>: the bus, the correlation engine and the policy engine joined
  by one worker thread, and the approval states of the candidates. The member functions are
  functions on the state; \<open>pl_step\<close> is the interleaving of the callers and the worker, with one
  rule per atomic action. The clock the worker reads is an argument of its step.
\<close>

section \<open>State and operations\<close>

record SecurityPipeline =
  pl_policy :: LocalSecurityPolicy
  pl_bus :: TelemetryBus
  pl_corr :: CorrelationEngine
  pl_running :: bool
  pl_worker :: bool
  pl_candidates :: "RemediationCandidate list"

definition MAX_CANDIDATES :: nat where "MAX_CANDIDATES = 2000"

definition SecurityPipeline_new :: "nat \<Rightarrow> LocalSecurityPolicy \<Rightarrow> SecurityPipeline" where
  "SecurityPipeline_new queue_capacity policy = \<lparr>pl_policy = policy, pl_bus = TelemetryBus_new queue_capacity,
     pl_corr = CorrelationEngine_new policy, pl_running = False, pl_worker = False, pl_candidates = []\<rparr>"

text \<open>\<open>spawned\<close> tells whether constructing the worker thread succeeded.\<close>

definition pipeline_start :: "bool \<Rightarrow> SecurityPipeline \<Rightarrow> ErrorCode \<times> SecurityPipeline" where
  "pipeline_start spawned p =
     (if pl_running p then (OK, p)
      else if bus_closed (pl_bus p) then (ERR_ENGINE_START, p\<lparr>pl_running := False\<rparr>)
      else if \<not> spawned then (ERR_ENGINE_START, p\<lparr>pl_running := False\<rparr>)
      else (OK, p\<lparr>pl_running := True, pl_worker := True\<rparr>))"

definition pipeline_publish :: "SecurityPipeline \<Rightarrow> SecurityObservation \<Rightarrow> PublishResult \<times> SecurityPipeline" where
  "pipeline_publish p observation =
     (if \<not> pl_running p then (CLOSED, p)
      else case bus_publish (pl_bus p) observation of (r, b) \<Rightarrow> (r, p\<lparr>pl_bus := b\<rparr>))"

definition process :: "SecurityPipeline \<Rightarrow> SecurityObservation \<Rightarrow> time_point \<Rightarrow> SecurityPipeline" where
  "process p observation now =
     (case ingest (pl_corr p) observation now of
        (None, e) \<Rightarrow> p\<lparr>pl_corr := e\<rparr>
      | (Some finding, e) \<Rightarrow>
          (case candidate_for finding (pl_policy p) of
             None \<Rightarrow> p\<lparr>pl_corr := e\<rparr>
           | Some candidate \<Rightarrow>
               p\<lparr>pl_corr := e, pl_candidates := push_bounded MAX_CANDIDATES (pl_candidates p) candidate\<rparr>))"

text \<open>
  One round of \<^verbatim>\<open>worker_loop\<close>: process the popped observation, or leave the loop when the bus is
  closed and empty. A timeout on an open bus goes round again without effect.
\<close>

definition worker_round :: "SecurityPipeline \<Rightarrow> time_point \<Rightarrow> SecurityPipeline" where
  "worker_round p now =
     (case wait_pop (pl_bus p) of
        Some (observation, b) \<Rightarrow> process (p\<lparr>pl_bus := b\<rparr>) observation now
      | None \<Rightarrow> if bus_closed (pl_bus p) then p\<lparr>pl_worker := False\<rparr> else p)"

lemma process_bus [simp]:
  "pl_bus (process p obs now) = pl_bus p" "pl_running (process p obs now) = pl_running p"
  "pl_worker (process p obs now) = pl_worker p" "pl_policy (process p obs now) = pl_policy p"
  by (simp_all add: process_def split: prod.splits option.splits)

lemma worker_round_queue:
  "bus_queue (pl_bus (worker_round p now)) = tl (bus_queue (pl_bus p))"
  by (cases "bus_queue (pl_bus p)") (simp_all add: worker_round_def wait_pop_def)

text \<open>
  \<^verbatim>\<open>stop()\<close> closes the bus and joins the worker, which first empties the queue; \<open>clock k\<close> is what the
  worker's \<open>k\<close>-th round reads. The queue shrinks in every round, so the loop ends.
\<close>

function worker_drain :: "(nat \<Rightarrow> time_point) \<Rightarrow> nat \<Rightarrow> SecurityPipeline \<Rightarrow> SecurityPipeline" where
  "worker_drain clock k p =
     (if bus_queue (pl_bus p) = [] then worker_round p (clock k)
      else worker_drain clock (k + 1) (worker_round p (clock k)))"
  by pat_completeness auto

termination
  by (relation "measure (\<lambda>(clock, k, p). length (bus_queue (pl_bus p)))") (simp_all add: worker_round_queue)

declare worker_drain.simps [simp del]

definition pipeline_stop :: "(nat \<Rightarrow> time_point) \<Rightarrow> SecurityPipeline \<Rightarrow> ErrorCode \<times> SecurityPipeline" where
  "pipeline_stop clock p =
     (if \<not> pl_running p then (OK, p)
      else let p1 = p\<lparr>pl_running := False, pl_bus := bus_close (pl_bus p)\<rparr> in
        (OK, if pl_worker p1 then worker_drain clock 0 p1 else p1))"

definition recent_findings :: "SecurityPipeline \<Rightarrow> nat \<Rightarrow> SecurityFinding list" where
  "recent_findings p n = recent (pl_corr p) n"

definition recent_candidates :: "SecurityPipeline \<Rightarrow> nat \<Rightarrow> RemediationCandidate list" where
  "recent_candidates p n = last_n n (pl_candidates p)"

fun find_candidate_in :: "RemediationCandidate list \<Rightarrow> u64 \<Rightarrow> RemediationCandidate option" where
  "find_candidate_in [] i = None"
| "find_candidate_in (c # cs) i = (if cand_finding_id c = i then Some c else find_candidate_in cs i)"

definition find_candidate :: "SecurityPipeline \<Rightarrow> u64 \<Rightarrow> RemediationCandidate option" where
  "find_candidate p i = find_candidate_in (pl_candidates p) i"

fun transition_candidate :: "RemediationCandidate list \<Rightarrow> u64 \<Rightarrow> CandidateApprovalState \<Rightarrow>
    ErrorCode \<times> RemediationCandidate list" where
  "transition_candidate [] i target = (ERR_NOT_FOUND, [])"
| "transition_candidate (c # cs) i target =
     (if cand_finding_id c \<noteq> i then (case transition_candidate cs i target of (rc, cs') \<Rightarrow> (rc, c # cs'))
      else if cand_approval_state c = target then (OK, c # cs)
      else if cand_approval_state c \<noteq> PENDING_APPROVAL then (ERR_INVALID_TRANSITION, c # cs)
      else (OK, c\<lparr>cand_approval_state := target\<rparr> # cs))"

definition approve_candidate :: "SecurityPipeline \<Rightarrow> u64 \<Rightarrow> ErrorCode \<times> SecurityPipeline" where
  "approve_candidate p i =
     (case transition_candidate (pl_candidates p) i APPROVED of (rc, cs) \<Rightarrow> (rc, p\<lparr>pl_candidates := cs\<rparr>))"

definition reject_candidate :: "SecurityPipeline \<Rightarrow> u64 \<Rightarrow> ErrorCode \<times> SecurityPipeline" where
  "reject_candidate p i =
     (case transition_candidate (pl_candidates p) i REJECTED of (rc, cs) \<Rightarrow> (rc, p\<lparr>pl_candidates := cs\<rparr>))"

lemma snd_approve_candidate:
  "snd (approve_candidate p i) = p\<lparr>pl_candidates := snd (transition_candidate (pl_candidates p) i APPROVED)\<rparr>"
  "fst (approve_candidate p i) = fst (transition_candidate (pl_candidates p) i APPROVED)"
  by (simp_all add: approve_candidate_def split: prod.splits)

lemma snd_reject_candidate:
  "snd (reject_candidate p i) = p\<lparr>pl_candidates := snd (transition_candidate (pl_candidates p) i REJECTED)\<rparr>"
  "fst (reject_candidate p i) = fst (transition_candidate (pl_candidates p) i REJECTED)"
  by (simp_all add: reject_candidate_def split: prod.splits)

definition telemetry_metrics :: "SecurityPipeline \<Rightarrow> TelemetryMetrics" where
  "telemetry_metrics p = metrics (pl_bus p)"

section \<open>Draining\<close>

lemma worker_round_fields [simp]:
  "bus_closed (pl_bus (worker_round p now)) = bus_closed (pl_bus p)" "pl_running (worker_round p now) = pl_running p"
  "pl_policy (worker_round p now) = pl_policy p"
  by (simp_all add: worker_round_def wait_pop_def split: list.splits)

lemma worker_drain_end:
  assumes "bus_closed (pl_bus p)"
  shows "bus_queue (pl_bus (worker_drain clock k p)) = [] \<and> \<not> pl_worker (worker_drain clock k p)"
  using assms
proof (induction clock k p rule: worker_drain.induct)
  case (1 clock k p)
  show ?case
  proof (cases "bus_queue (pl_bus p) = []")
    case True
    with 1 show ?thesis
      by (simp add: worker_drain.simps [of clock k p] worker_round_queue) (simp add: worker_round_def wait_pop_def)
  next
    case False
    then show ?thesis using 1 by (simp add: worker_drain.simps [of clock k p])
  qed
qed

lemma worker_drain_running: "pl_running (worker_drain clock k p) = pl_running p"
proof (induction clock k p rule: worker_drain.induct)
  case (1 clock k p)
  then show ?case by (simp add: worker_drain.simps [of clock k p])
qed

section \<open>Approval states\<close>

lemma transition_candidate_result:
  "fst (transition_candidate cs i target) =
     (case find_candidate_in cs i of
        None \<Rightarrow> ERR_NOT_FOUND
      | Some c \<Rightarrow> if cand_approval_state c = target \<or> cand_approval_state c = PENDING_APPROVAL then OK
                  else ERR_INVALID_TRANSITION)"
  by (induction cs i target rule: transition_candidate.induct) (auto split: prod.splits option.splits)

lemma transition_candidate_same:
  "fst (transition_candidate cs i target) \<noteq> OK \<Longrightarrow> snd (transition_candidate cs i target) = cs"
  by (induction cs i target rule: transition_candidate.induct) (auto split: prod.splits if_splits)

lemma transition_candidate_find:
  assumes "fst (transition_candidate cs i target) = OK"
  shows "find_candidate_in (snd (transition_candidate cs i target)) i =
    map_option (\<lambda>c. c\<lparr>cand_approval_state := target\<rparr>) (find_candidate_in cs i)"
  using assms
  by (induction cs i target rule: transition_candidate.induct) (auto split: prod.splits if_splits)

lemma transition_candidate_other:
  "i \<noteq> j \<Longrightarrow> find_candidate_in (snd (transition_candidate cs i target)) j = find_candidate_in cs j"
  by (induction cs i target rule: transition_candidate.induct) (auto split: prod.splits)

text \<open>Only the approval state of a candidate with the given id ever changes.\<close>

lemma transition_candidate_set:
  "c \<in> set (snd (transition_candidate cs i target)) \<Longrightarrow>
     c \<in> set cs \<or> (\<exists>c0 \<in> set cs. cand_approval_state c0 = PENDING_APPROVAL \<and> cand_finding_id c0 = i \<and>
       c = c0\<lparr>cand_approval_state := target\<rparr>)"
  by (induction cs i target rule: transition_candidate.induct) (auto split: prod.splits if_splits)

lemma transition_candidate_ids [simp]:
  "map cand_finding_id (snd (transition_candidate cs i target)) = map cand_finding_id cs"
  by (induction cs i target rule: transition_candidate.induct) (auto split: prod.splits)

lemma transition_candidate_length [simp]: "length (snd (transition_candidate cs i target)) = length cs"
  by (induction cs i target rule: transition_candidate.induct) (auto split: prod.splits)

section \<open>Evidence behind the findings\<close>

text \<open>
  \<open>backed S e\<close>: every source entry and file path the engine holds for a key comes from an
  observation of \<open>S\<close> with that key.
\<close>

definition source_backed :: "SecurityObservation set \<Rightarrow> string \<Rightarrow> string \<Rightarrow> SourceState \<Rightarrow> bool" where
  "source_backed S key sid s \<longleftrightarrow> (\<exists>obs \<in> S. obs_valid obs \<and> correlation_key obs = key \<and>
     obs_source_id obs = sid \<and> obs_deterministic obs = src_deterministic s)"

definition state_backed :: "SecurityObservation set \<Rightarrow> string \<Rightarrow> ActiveState \<Rightarrow> bool" where
  "state_backed S key st \<longleftrightarrow> (\<forall>(sid, s) \<in> set (act_sources st). source_backed S key sid s) \<and>
     (act_file_path st \<noteq> [] \<longrightarrow> (\<exists>obs \<in> S. obs_valid obs \<and> correlation_key obs = key \<and> obs_file_path obs = act_file_path st))"

definition backed :: "SecurityObservation set \<Rightarrow> CorrelationEngine \<Rightarrow> bool" where
  "backed S e \<longleftrightarrow> (\<forall>(key, st) \<in> set (corr_active e). state_backed S key st)"

lemma state_backed_mono: "state_backed S key st \<Longrightarrow> S \<subseteq> T \<Longrightarrow> state_backed T key st"
  unfolding state_backed_def source_backed_def by fast

lemma backed_mono: "backed S e \<Longrightarrow> S \<subseteq> T \<Longrightarrow> backed T e"
  unfolding backed_def using state_backed_mono by blast

lemma backed_update:
  assumes "backed S e" "state_backed S key st"
  shows "backed S (e\<lparr>corr_active := AList.update key st (corr_active e)\<rparr>)"
  using assms set_AList_update [of key st "corr_active e"] by (auto simp: backed_def)

lemma backed_open_key: "backed S e \<Longrightarrow> backed S (open_key e key now)"
proof -
  assume e: "backed S e"
  then have e1: "backed S (expire e now)" by (auto simp: backed_def expire_def)
  have "set (corr_active (evict_oldest_locked (expire e now))) \<subseteq> set (corr_active (expire e now))"
    using set_AList_delete by (simp add: evict_oldest_locked_def split: list.splits) fastforce
  then have "backed S (evict_oldest_locked (expire e now))" using e1 by (auto simp: backed_def)
  moreover have "state_backed S key empty_active" by (simp add: state_backed_def empty_active_def)
  ultimately show ?thesis
    using e1 by (auto simp: open_key_def Let_def split: option.splits intro: backed_update)
qed

lemma record_source_backed:
  assumes "state_backed S (correlation_key obs) st" "obs_valid obs" "obs \<in> S"
  shows "state_backed S (correlation_key obs) (record_source st obs now)"
proof -
  let ?s = "\<lparr>src_confidence = obs_confidence obs, src_suggested_level = obs_suggested_level obs,
    src_deterministic = obs_deterministic obs, src_last_seen = now\<rparr>"
  have s: "source_backed S (correlation_key obs) (obs_source_id obs) ?s"
    using assms by (auto simp: source_backed_def)
  have "\<forall>(sid, s) \<in> set (AList.update (obs_source_id obs) ?s (act_sources st)).
      source_backed S (correlation_key obs) sid s"
    using s assms(1) set_AList_update [of "obs_source_id obs" ?s "act_sources st"]
    by (auto simp: state_backed_def)
  then show ?thesis using assms by (auto simp: state_backed_def record_source_def)
qed

lemma state_backed_reported [simp]:
  "state_backed S key (st\<lparr>act_last_reported_score := a, act_last_reported_level := b\<rparr>) = state_backed S key st"
  by (simp add: state_backed_def)

lemma ingest_backed:
  assumes "corr_inv e" "backed S e" "obs \<in> S"
  shows "backed S (snd (ingest e obs now))"
proof (cases "obs_valid obs")
  case False
  then show ?thesis using assms by (simp add: ingest_def)
next
  case True
  let ?k = "correlation_key obs" and ?e2 = "open_key e (correlation_key obs) now"
  obtain st where st: "map_of (corr_active ?e2) ?k = Some st" using open_key_state [OF assms(1)] by blast
  have e2: "backed S ?e2" using assms(2) by (rule backed_open_key)
  then have "state_backed S ?k st" using map_of_SomeD [OF st] by (auto simp: backed_def)
  then have r: "state_backed S ?k (record_source st obs now)" using True assms(3) by (rule record_source_backed)
  have keep: "backed S (e'\<lparr>corr_findings := a, corr_next_finding_id := b\<rparr>) = backed S e'" for e' a b
    by (simp add: backed_def)
  show ?thesis
    using True st e2 r backed_update [OF e2] by (simp add: ingest_unfold Let_def keep)
qed

lemma ingest_finding_backed:
  assumes "corr_inv e" "backed S e" "obs \<in> S" "ingest e obs now = (Some f, e')"
  shows "\<forall>sid \<in> set (fin_contributing_sources f). \<exists>x \<in> S. obs_valid x \<and>
      correlation_key x = correlation_key obs \<and> obs_source_id x = sid"
    "fin_deterministic_signature f \<Longrightarrow> \<exists>x \<in> S. obs_valid x \<and> correlation_key x = correlation_key obs \<and> obs_deterministic x"
    "fin_file_path f \<noteq> [] \<Longrightarrow> \<exists>x \<in> S. obs_valid x \<and> correlation_key x = correlation_key obs \<and> obs_file_path x = fin_file_path f"
proof -
  let ?k = "correlation_key obs" and ?e2 = "open_key e (correlation_key obs) now"
  obtain st where st: "map_of (corr_active ?e2) ?k = Some st" using open_key_state [OF assms(1)] by blast
  have v: "obs_valid obs" using ingest_Some(7) [OF assms(1,4)] .
  have "backed S ?e2" using assms(2) by (rule backed_open_key)
  then have "state_backed S ?k st" using map_of_SomeD [OF st] by (auto simp: backed_def)
  then have r: "state_backed S ?k (record_source st obs now)" using v assms(3) by (rule record_source_backed)
  obtain fid lv sc a b where f: "f = make_finding fid now lv sc ?k ((record_source st obs now)\<lparr>act_last_reported_score := a,
      act_last_reported_level := b\<rparr>)"
    using assms(4) v st by (auto simp: ingest_unfold Let_def split: if_splits)
  show "\<forall>sid \<in> set (fin_contributing_sources f). \<exists>x \<in> S. obs_valid x \<and> correlation_key x = ?k \<and> obs_source_id x = sid"
    using r by (fastforce simp: f make_finding_def state_backed_def source_backed_def)
  show "fin_deterministic_signature f \<Longrightarrow> \<exists>x \<in> S. obs_valid x \<and> correlation_key x = ?k \<and> obs_deterministic x"
    using r by (fastforce simp: f make_finding_def any_source_deterministic_def state_backed_def source_backed_def)
  show "fin_file_path f \<noteq> [] \<Longrightarrow> \<exists>x \<in> S. obs_valid x \<and> correlation_key x = ?k \<and> obs_file_path x = fin_file_path f"
    using r by (auto simp: f make_finding_def state_backed_def)
qed

section \<open>Interleaved runs\<close>

text \<open>
  The atomic actions: \<open>ABusPublish\<close> is the second half of a \<open>publish\<close> whose running test passed before
  a concurrent \<open>stop\<close>, \<open>AClose\<close> the part of \<open>stop\<close> before it joins the worker, \<open>AWorker\<close> one round of the
  worker.
\<close>

datatype pl_action = AStart bool | APublish SecurityObservation | ABusPublish SecurityObservation | AClose
  | AWorker time_point | AApprove u64 | AReject u64

inductive pl_step :: "pl_action \<Rightarrow> SecurityPipeline \<Rightarrow> SecurityPipeline \<Rightarrow> bool" where
  start: "pl_step (AStart ok) p (snd (pipeline_start ok p))"
| publish: "pl_step (APublish obs) p (snd (pipeline_publish p obs))"
| bus_publish: "pl_step (ABusPublish obs) p (p\<lparr>pl_bus := snd (bus_publish (pl_bus p) obs)\<rparr>)"
| close: "pl_running p \<Longrightarrow> pl_step AClose p (p\<lparr>pl_running := False, pl_bus := bus_close (pl_bus p)\<rparr>)"
| worker: "pl_worker p \<Longrightarrow> pl_step (AWorker now) p (worker_round p now)"
| approve: "pl_step (AApprove i) p (snd (approve_candidate p i))"
| reject: "pl_step (AReject i) p (snd (reject_candidate p i))"

inductive_cases pl_stepE: "pl_step a p q"
inductive_simps pl_step_simps:
  "pl_step (AStart ok) p q" "pl_step (APublish obs) p q" "pl_step (ABusPublish obs) p q" "pl_step AClose p q"
  "pl_step (AWorker now) p q" "pl_step (AApprove i) p q" "pl_step (AReject i) p q"

inductive pl_run :: "pl_action list \<Rightarrow> SecurityPipeline \<Rightarrow> SecurityPipeline \<Rightarrow> bool" where
  pl_nil: "pl_run [] p p"
| pl_snoc: "pl_run as p q \<Longrightarrow> pl_step a q r \<Longrightarrow> pl_run (as @ [a]) p r"

definition published :: "pl_action list \<Rightarrow> SecurityObservation set" where
  "published as = {obs. APublish obs \<in> set as \<or> ABusPublish obs \<in> set as}"

definition candidate_evidence :: "SecurityObservation set \<Rightarrow> LocalSecurityPolicy \<Rightarrow> RemediationCandidate \<Rightarrow> bool" where
  "candidate_evidence S policy c \<longleftrightarrow> cand_target_path c \<noteq> [] \<and> \<not> is_protected_path (cand_target_path c) policy \<and>
     (\<exists>key. (\<exists>x \<in> S. \<exists>y \<in> S. obs_valid x \<and> obs_valid y \<and> correlation_key x = key \<and> correlation_key y = key \<and>
               obs_source_id x \<noteq> obs_source_id y) \<and>
            (\<exists>x \<in> S. obs_valid x \<and> correlation_key x = key \<and> obs_deterministic x) \<and>
            (\<exists>x \<in> S. obs_valid x \<and> correlation_key x = key \<and> obs_file_path x = cand_target_path c))"

definition pl_inv :: "SecurityObservation set \<Rightarrow> SecurityPipeline \<Rightarrow> bool" where
  "pl_inv S p \<longleftrightarrow> bus_inv (pl_bus p) \<and> corr_inv (pl_corr p) \<and> backed S (pl_corr p) \<and> set (bus_queue (pl_bus p)) \<subseteq> S \<and>
     length (pl_candidates p) \<le> MAX_CANDIDATES \<and> (\<forall>c \<in> set (pl_candidates p). candidate_evidence S (pl_policy p) c)"

lemma candidate_evidence_state [simp]:
  "candidate_evidence S pol (c\<lparr>cand_approval_state := t\<rparr>) = candidate_evidence S pol c"
  by (simp add: candidate_evidence_def)

lemma candidate_evidence_mono: "candidate_evidence S pol c \<Longrightarrow> S \<subseteq> T \<Longrightarrow> candidate_evidence T pol c"
  unfolding candidate_evidence_def subset_eq Bex_def by metis

lemma pl_inv_mono: "pl_inv S p \<Longrightarrow> S \<subseteq> T \<Longrightarrow> pl_inv T p"
  unfolding pl_inv_def using backed_mono candidate_evidence_mono by blast

lemma pl_inv_new: "pl_inv {} (SecurityPipeline_new n pol)"
  by (simp add: pl_inv_def SecurityPipeline_new_def bus_inv_new corr_inv_new backed_def)
    (simp add: TelemetryBus_new_def CorrelationEngine_new_def)

text \<open>A candidate made from a reported finding rests on two sources, one of them deterministic.\<close>

lemma candidate_for_evidence:
  assumes "corr_inv e" "backed S e" "obs \<in> S" "ingest e obs now = (Some f, e')" "candidate_for f pol = Some c"
  shows "candidate_evidence S pol c"
proof -
  have f: "fin_deterministic_signature f" "fin_level f = CRITICAL" "fin_file_path f \<noteq> []"
    "\<not> is_protected_path (fin_file_path f) pol" "cand_target_path c = fin_file_path f"
    using assms(5) by (auto simp: candidate_for_Some)
  have "finding_ok f" using ingest_Some(1) [OF assms(1,4)] .
  then have two: "2 \<le> length (fin_contributing_sources f)" "distinct (fin_contributing_sources f)"
    using f(2) by (auto simp: finding_ok_def)
  then obtain s t rest where "fin_contributing_sources f = s # t # rest"
    by (cases "fin_contributing_sources f"; cases "tl (fin_contributing_sources f)") auto
  with two have st: "s \<in> set (fin_contributing_sources f)" "t \<in> set (fin_contributing_sources f)" "s \<noteq> t" by auto
  note b = ingest_finding_backed [OF assms(1-4)]
  show ?thesis
    unfolding candidate_evidence_def
    using b(1) [rule_format, OF st(1)] b(1) [rule_format, OF st(2)] b(2) [OF f(1)] b(3) [OF f(3)] f st(3)
    by (intro conjI exI [of _ "correlation_key obs"]) auto
qed

lemma process_inv:
  assumes "pl_inv S p" "obs \<in> S"
  shows "pl_inv S (process p obs now)"
proof -
  have e: "corr_inv (pl_corr p)" "backed S (pl_corr p)" using assms(1) by (simp_all add: pl_inv_def)
  obtain r e' where i: "ingest (pl_corr p) obs now = (r, e')" by fastforce
  have e': "corr_inv e'" "backed S e'"
    using ingest_inv [OF e(1), of obs now] ingest_backed [OF e assms(2), of now] i by simp_all
  have base: "pl_inv S (p\<lparr>pl_corr := e'\<rparr>)" using assms(1) e' by (simp add: pl_inv_def)
  show ?thesis
  proof (cases "\<exists>f c. r = Some f \<and> candidate_for f (pl_policy p) = Some c")
    case True
    then obtain f c where f: "r = Some f" "candidate_for f (pl_policy p) = Some c" by blast
    have "candidate_evidence S (pl_policy p) c" using candidate_for_evidence [OF e assms(2)] i f by blast
    then show ?thesis
      using base i f set_push_bounded [of MAX_CANDIDATES "pl_candidates p" c]
      by (auto simp: process_def pl_inv_def intro: push_bounded_le)
  next
    case False
    then show ?thesis using base i by (auto simp: process_def split: option.splits)
  qed
qed

lemma worker_round_inv:
  assumes "pl_inv S p"
  shows "pl_inv S (worker_round p now)"
proof (cases "wait_pop (pl_bus p)")
  case None
  then show ?thesis using assms by (simp add: worker_round_def pl_inv_def)
next
  case (Some r)
  obtain obs b where r: "r = (obs, b)" by fastforce
  have q: "obs \<in> S" "set (bus_queue b) \<subseteq> S"
    using Some r assms by (auto simp: wait_pop_def pl_inv_def split: list.splits)
  have "bus_inv b" using wait_pop_inv [of "pl_bus p" obs b] Some r assms by (simp add: pl_inv_def)
  then have "pl_inv S (p\<lparr>pl_bus := b\<rparr>)" using assms q by (simp add: pl_inv_def)
  then show ?thesis using q(1) Some r by (simp add: worker_round_def process_inv)
qed

lemma bus_publish_queue_subset: "set (bus_queue (snd (bus_publish b x))) \<subseteq> insert x (set (bus_queue b))"
  by (auto simp: bus_publish_def Let_def)

lemma transition_inv:
  assumes "pl_inv S p"
  shows "pl_inv S (p\<lparr>pl_candidates := snd (transition_candidate (pl_candidates p) i t)\<rparr>)"
  using assms by (auto simp: pl_inv_def dest!: transition_candidate_set)

lemma pl_step_inv:
  assumes "pl_step a p q" "pl_inv S p"
  shows "pl_inv (S \<union> published [a]) q"
  using assms
proof cases
  case (publish obs)
  have "pl_inv (insert obs S) q"
    using publish assms(2) bus_publish_queue_subset [of "pl_bus p" obs] bus_publish_inv [of "pl_bus p" obs]
      pl_inv_mono [OF assms(2), of "insert obs S"]
    by (auto simp: pipeline_publish_def pl_inv_def split: prod.splits)
  then show ?thesis using publish by (simp add: published_def)
next
  case (bus_publish obs)
  have "pl_inv (insert obs S) q"
    using bus_publish assms(2) bus_publish_queue_subset [of "pl_bus p" obs] bus_publish_inv [of "pl_bus p" obs]
      pl_inv_mono [OF assms(2), of "insert obs S"]
    by (auto simp: pl_inv_def)
  then show ?thesis using bus_publish by (simp add: published_def)
next
  case (start ok)
  then show ?thesis using assms(2) by (simp add: pipeline_start_def pl_inv_def published_def)
next
  case close
  then show ?thesis using assms(2) by (simp add: pl_inv_def published_def bus_inv_def bus_close_def)
next
  case (worker now)
  then show ?thesis using worker_round_inv [OF assms(2)] by (simp add: published_def)
next
  case (approve i)
  then show ?thesis using transition_inv [OF assms(2), of i APPROVED]
    by (simp add: published_def snd_approve_candidate)
next
  case (reject i)
  then show ?thesis using transition_inv [OF assms(2), of i REJECTED]
    by (simp add: published_def snd_reject_candidate)
qed

lemma pl_step_policy: "pl_step a p q \<Longrightarrow> pl_policy q = pl_policy p"
  by (erule pl_stepE)
    (auto simp: pipeline_start_def pipeline_publish_def approve_candidate_def reject_candidate_def split: prod.splits)

lemma published_append [simp]: "published (as @ bs) = published as \<union> published bs"
  by (auto simp: published_def)

lemma pl_run_inv: "pl_run as p q \<Longrightarrow> pl_inv S p \<Longrightarrow> pl_inv (S \<union> published as) q \<and> pl_policy q = pl_policy p"
proof (induction rule: pl_run.induct)
  case (pl_nil p)
  then show ?case by (simp add: published_def)
next
  case (pl_snoc as p q a r)
  then show ?case using pl_step_inv [of a q r "S \<union> published as"] pl_step_policy [of a q r] by (simp add: Un_assoc)
qed

lemma pl_run_evidence:
  assumes "pl_run as (SecurityPipeline_new n pol) p" "c \<in> set (pl_candidates p)"
  shows "candidate_evidence (published as) pol c"
  using pl_run_inv [OF assms(1) pl_inv_new] assms(2) by (auto simp: pl_inv_def SecurityPipeline_new_def)

text \<open>The worker only adds pending candidates.\<close>

lemma worker_round_candidates:
  "c \<in> set (pl_candidates (worker_round p now)) \<Longrightarrow> c \<in> set (pl_candidates p) \<or> cand_approval_state c = PENDING_APPROVAL"
  by (auto simp: worker_round_def process_def candidate_for_Some split: option.splits prod.splits if_splits
      dest!: set_push_bounded [THEN subsetD])

lemma pl_run_approved:
  assumes "pl_run as p0 p" "pl_candidates p0 = []" "c \<in> set (pl_candidates p)"
  shows "(cand_approval_state c = APPROVED \<longrightarrow> AApprove (cand_finding_id c) \<in> set as) \<and>
    (cand_approval_state c = REJECTED \<longrightarrow> AReject (cand_finding_id c) \<in> set as)"
  using assms
proof (induction arbitrary: c rule: pl_run.induct)
  case (pl_snoc as p q a r)
  from pl_snoc.hyps(2) show ?case
  proof cases
    case (worker now)
    then show ?thesis using pl_snoc worker_round_candidates [of c q now] by auto
  next
    case (approve i)
    then have "c \<in> set (snd (transition_candidate (pl_candidates q) i APPROVED))"
      using pl_snoc.prems by (simp add: snd_approve_candidate)
    then show ?thesis using pl_snoc approve by (auto dest!: transition_candidate_set)
  next
    case (reject i)
    then have "c \<in> set (snd (transition_candidate (pl_candidates q) i REJECTED))"
      using pl_snoc.prems by (simp add: snd_reject_candidate)
    then show ?thesis using pl_snoc reject by (auto dest!: transition_candidate_set)
  qed (use pl_snoc in \<open>auto simp: pipeline_start_def pipeline_publish_def split: prod.splits if_splits\<close>)
qed simp

text \<open>
  Finding ids are drawn from a 64-bit counter that grows by at most one per worker round, so until
  it wraps no two candidates share an id.
\<close>

definition ids_below :: "nat \<Rightarrow> SecurityPipeline \<Rightarrow> bool" where
  "ids_below n p \<longleftrightarrow> unat (corr_next_finding_id (pl_corr p)) \<le> n \<and> distinct (map cand_finding_id (pl_candidates p)) \<and>
     (\<forall>i \<in> cand_finding_id ` set (pl_candidates p). i < corr_next_finding_id (pl_corr p))"

lemma ids_below_mono: "ids_below n p \<Longrightarrow> n \<le> m \<Longrightarrow> ids_below m p"
  by (simp add: ids_below_def)

lemma unat_next_id:
  fixes w :: u64
  assumes "unat w \<le> n" "n < 2 ^ 64 - 1"
  shows "unat (w + 1) = unat w + 1"
  using assms by (simp add: unat_word_ariths)

lemma process_ids:
  assumes "corr_inv (pl_corr p)" "ids_below n p" "n < 2 ^ 64 - 1"
  shows "ids_below (n + 1) (process p obs now)"
proof (cases "ingest (pl_corr p) obs now")
  case (Pair r e)
  show ?thesis
  proof (cases r)
    case None
    then show ?thesis
      using Pair ingest_None [of "pl_corr p" obs now e] assms(2) by (simp add: process_def ids_below_def)
  next
    case (Some f)
    have w: "unat (corr_next_finding_id (pl_corr p) + 1) = unat (corr_next_finding_id (pl_corr p)) + 1"
      using assms(2,3) by (intro unat_next_id) (auto simp: ids_below_def)
    have i: "fin_id f = corr_next_finding_id (pl_corr p)" "corr_next_finding_id e = corr_next_finding_id (pl_corr p) + 1"
      using ingest_Some [OF assms(1), of obs now f e] Pair Some by auto
    have lt: "j < corr_next_finding_id e" if "j < corr_next_finding_id (pl_corr p) \<or> j = corr_next_finding_id (pl_corr p)" for j
      using that w i by (auto simp: word_less_nat_alt)
    have "ids_below (n + 1) (p\<lparr>pl_corr := e\<rparr>)"
      using assms(2) lt w i by (auto simp: ids_below_def)
    moreover have "ids_below (n + 1) (p\<lparr>pl_corr := e,
        pl_candidates := push_bounded MAX_CANDIDATES (pl_candidates p) c\<rparr>)"
      if "candidate_for f (pl_policy p) = Some c" for c
    proof -
      have c: "cand_finding_id c = corr_next_finding_id (pl_corr p)" using that i by (simp add: candidate_for_Some)
      have "distinct (map cand_finding_id (pl_candidates p @ [c]))"
        using assms(2) c by (auto simp: ids_below_def)
      then have "distinct (map cand_finding_id (push_bounded MAX_CANDIDATES (pl_candidates p) c))"
        by (cases "pl_candidates p") (simp_all add: push_bounded_def Let_def)
      then show ?thesis
        using assms(2) c lt w i set_push_bounded [of MAX_CANDIDATES "pl_candidates p" c]
        by (auto simp: ids_below_def)
    qed
    ultimately show ?thesis using Pair Some by (auto simp: process_def split: option.splits)
  qed
qed

lemma pl_step_ids:
  assumes "pl_step a p q" "corr_inv (pl_corr p)" "ids_below n p" "n < 2 ^ 64 - 1"
  shows "ids_below (n + 1) q"
  using assms(1)
proof cases
  case (worker now)
  have "ids_below (n + 1) (process (p\<lparr>pl_bus := b\<rparr>) obs now)" for b obs
    using assms by (intro process_ids) (auto simp: ids_below_def)
  moreover have "ids_below (n + 1) (p\<lparr>pl_worker := False\<rparr>)" "ids_below (n + 1) p"
    using assms(3) by (simp_all add: ids_below_def)
  ultimately show ?thesis using worker by (auto simp: worker_round_def split: option.splits)
next
  case (approve i)
  then show ?thesis using assms(3)
      arg_cong [OF transition_candidate_ids, of set "pl_candidates p" i APPROVED, unfolded set_map]
    by (simp add: snd_approve_candidate ids_below_def)
next
  case (reject i)
  then show ?thesis using assms(3)
      arg_cong [OF transition_candidate_ids, of set "pl_candidates p" i REJECTED, unfolded set_map]
    by (simp add: snd_reject_candidate ids_below_def)
qed (use assms(3) in \<open>auto simp: ids_below_def pipeline_start_def pipeline_publish_def split: prod.splits\<close>)

lemma pl_run_ids:
  assumes "pl_run as p0 p" "p0 = SecurityPipeline_new n pol" "length as < 2 ^ 64 - 2"
  shows "ids_below (length as + 1) p"
  using assms
proof (induction rule: pl_run.induct)
  case (pl_nil p)
  then show ?case by (simp add: ids_below_def SecurityPipeline_new_def CorrelationEngine_new_def)
next
  case (pl_snoc as p q a r)
  have "corr_inv (pl_corr q)" using pl_run_inv [OF pl_snoc.hyps(1), of "{}"] pl_snoc.prems(1) pl_inv_new
    by (simp add: pl_inv_def)
  then show ?case using pl_step_ids [OF pl_snoc.hyps(2)] pl_snoc by simp
qed

text \<open>\<open>stop\<close> as a whole is one of these runs: closing the bus, then worker rounds only.\<close>

lemma pl_run_append: "pl_run bs q r \<Longrightarrow> pl_run as p q \<Longrightarrow> pl_run (as @ bs) p r"
proof (induction rule: pl_run.induct)
  case (pl_snoc bs q r' b r)
  then show ?case using pl_run.pl_snoc [of "as @ bs" p r' b r] by simp
qed simp

lemma worker_drain_run:
  "pl_worker p \<Longrightarrow> \<exists>ts. pl_run (map AWorker ts) p (worker_drain clock k p)"
proof (induction clock k p rule: worker_drain.induct)
  case (1 clock k p)
  have one: "pl_run [AWorker (clock k)] p (worker_round p (clock k))"
    using pl_snoc [OF pl_nil worker [OF 1(2)]] by simp
  show ?case
  proof (cases "bus_queue (pl_bus p) = []")
    case True
    then show ?thesis using one by (intro exI [of _ "[clock k]"]) (simp add: worker_drain.simps [of clock k p])
  next
    case False
    have "pl_worker (worker_round p (clock k))"
      using False 1(2) by (cases "bus_queue (pl_bus p)") (simp_all add: worker_round_def wait_pop_def)
    then obtain ts where "pl_run (map AWorker ts) (worker_round p (clock k)) (worker_drain clock (k + 1) (worker_round p (clock k)))"
      using 1(1) [OF False] by blast
    from pl_run_append [OF this one] show ?thesis
      using False by (intro exI [of _ "clock k # ts"]) (simp add: worker_drain.simps [of clock k p])
  qed
qed

lemma pipeline_stop_run:
  assumes "pl_running p" "pl_worker p"
  shows "\<exists>ts. pl_run (AClose # map AWorker ts) p (snd (pipeline_stop clock p))"
proof -
  let ?q = "p\<lparr>pl_running := False, pl_bus := bus_close (pl_bus p)\<rparr>"
  have c: "pl_run [AClose] p ?q" using pl_snoc [OF pl_nil close [OF assms(1)]] by simp
  obtain ts where "pl_run (map AWorker ts) ?q (worker_drain clock 0 ?q)"
    using worker_drain_run [of ?q] assms(2) by auto
  from pl_run_append [OF this c] show ?thesis using assms by (auto simp: pipeline_stop_def Let_def)
qed

section \<open>Progress\<close>

fun is_worker :: "pl_action \<Rightarrow> bool" where
  "is_worker (AWorker now) = True"
| "is_worker _ = False"

lemma pl_step_queue:
  assumes "pl_step a p q"
  shows "\<exists>ys. bus_queue (pl_bus q) = (if is_worker a then tl (bus_queue (pl_bus p)) else bus_queue (pl_bus p)) @ ys"
  using assms
proof cases
  case (start ok)
  then show ?thesis by (simp add: pipeline_start_def split: prod.splits)
next
  case (publish obs)
  then show ?thesis by (auto simp: pipeline_publish_def bus_publish_def Let_def split: prod.splits)
next
  case (bus_publish obs)
  then show ?thesis by (auto simp: bus_publish_def Let_def)
next
  case close
  then show ?thesis by (simp add: bus_close_def)
next
  case (worker now)
  then show ?thesis by (simp add: worker_round_queue)
qed (simp_all add: snd_approve_candidate snd_reject_candidate)

lemma pl_step_worker:
  assumes "pl_step a p q" "pl_worker p" "bus_queue (pl_bus p) \<noteq> []"
  shows "pl_worker q"
  using assms
proof cases
  case (worker now)
  then show ?thesis using assms by (simp add: worker_round_def wait_pop_def split: list.splits)
qed (auto simp: pipeline_start_def pipeline_publish_def snd_approve_candidate snd_reject_candidate split: prod.splits)

definition taken :: "SecurityPipeline \<Rightarrow> nat \<Rightarrow> pl_action list \<Rightarrow> SecurityPipeline \<Rightarrow> bool" where
  "taken p i as q \<longleftrightarrow> (\<exists>as1 now as2 s b. as = as1 @ AWorker now # as2 \<and> pl_run as1 p s \<and>
     worker_round s now = process (s\<lparr>pl_bus := b\<rparr>) (bus_queue (pl_bus p) ! i) now \<and> pl_run as2 (worker_round s now) q)"

lemma pl_run_progress:
  assumes "pl_run as p q" "i < length (bus_queue (pl_bus p))" "pl_worker p"
  shows "if i < length (filter is_worker as) then taken p i as q
    else pl_worker q \<and> (\<exists>ys. bus_queue (pl_bus q) = drop (length (filter is_worker as)) (bus_queue (pl_bus p)) @ ys)"
  using assms
proof (induction rule: pl_run.induct)
  case (pl_snoc as p q a r)
  let ?k = "length (filter is_worker as)"
  show ?case
  proof (cases "i < ?k")
    case True
    with pl_snoc have "taken p i as q" by simp
    then obtain as1 now as2 s b where t: "as = as1 @ AWorker now # as2" "pl_run as1 p s"
      "worker_round s now = process (s\<lparr>pl_bus := b\<rparr>) (bus_queue (pl_bus p) ! i) now" "pl_run as2 (worker_round s now) q"
      by (auto simp: taken_def)
    have "taken p i (as @ [a]) r" unfolding taken_def
      using t pl_run.pl_snoc [OF t(4) pl_snoc.hyps(2)] by (intro exI [of _ as1] exI [of _ now] exI [of _ "as2 @ [a]"] exI [of _ s] exI [of _ b]) simp
    then show ?thesis using True by simp
  next
    case False
    then obtain ys where q: "pl_worker q" "bus_queue (pl_bus q) = drop ?k (bus_queue (pl_bus p)) @ ys" using pl_snoc by auto
    have lt: "?k < length (bus_queue (pl_bus p))" using False pl_snoc.prems(1) by simp
    then have hd: "bus_queue (pl_bus q) = bus_queue (pl_bus p) ! ?k # drop (?k + 1) (bus_queue (pl_bus p)) @ ys"
      using q(2) by (simp add: Cons_nth_drop_Suc)
    show ?thesis
    proof (cases "is_worker a \<and> i = ?k")
      case True
      then obtain now where a: "a = AWorker now" by (cases a) auto
      have r: "r = worker_round q now" using pl_snoc.hyps(2) a by (simp add: pl_step_simps)
      obtain b where "worker_round q now = process (q\<lparr>pl_bus := b\<rparr>) (bus_queue (pl_bus p) ! i) now"
        using hd True by (auto simp: worker_round_def wait_pop_def)
      then have "taken p i (as @ [a]) r" unfolding taken_def
        using pl_snoc.hyps(1) a r pl_nil by (intro exI [of _ as] exI [of _ now] exI [of _ "[]"] exI [of _ q] exI [of _ b]) simp
      then show ?thesis using True by simp
    next
      case F: False
      obtain zs where "bus_queue (pl_bus r) = (if is_worker a then tl (bus_queue (pl_bus q)) else bus_queue (pl_bus q)) @ zs"
        using pl_step_queue [OF pl_snoc.hyps(2)] by blast
      moreover have "pl_worker r" using pl_step_worker [OF pl_snoc.hyps(2) q(1)] hd by simp
      ultimately show ?thesis using F False hd q(2) by auto
    qed
  qed
qed simp

section \<open>Sample run\<close>

definition sample_pipeline :: SecurityPipeline where
  "sample_pipeline = SecurityPipeline_new 8 default_policy"

text \<open>Two deterministic sources report the same file; the worker makes the candidate, which is then approved.\<close>

definition sample_actions :: "pl_action list" where
  "sample_actions = [AStart True, APublish (sample_observation ''a''), APublish (sample_observation ''b''),
     AWorker 1, AWorker 2]"

fun pl_exec :: "pl_action \<Rightarrow> SecurityPipeline \<Rightarrow> SecurityPipeline" where
  "pl_exec (AStart ok) p = snd (pipeline_start ok p)"
| "pl_exec (APublish obs) p = snd (pipeline_publish p obs)"
| "pl_exec (ABusPublish obs) p = p\<lparr>pl_bus := snd (bus_publish (pl_bus p) obs)\<rparr>"
| "pl_exec AClose p = (if pl_running p then p\<lparr>pl_running := False, pl_bus := bus_close (pl_bus p)\<rparr> else p)"
| "pl_exec (AWorker now) p = (if pl_worker p then worker_round p now else p)"
| "pl_exec (AApprove i) p = snd (approve_candidate p i)"
| "pl_exec (AReject i) p = snd (reject_candidate p i)"

fun pl_enabled :: "pl_action \<Rightarrow> SecurityPipeline \<Rightarrow> bool" where
  "pl_enabled AClose p = pl_running p"
| "pl_enabled (AWorker now) p = pl_worker p"
| "pl_enabled _ p = True"

lemma pl_step_exec: "pl_step a p q \<longleftrightarrow> pl_enabled a p \<and> q = pl_exec a p"
  by (cases a) (auto simp: pl_step_simps)

lemma pl_run_exec_snoc: "pl_run as p q \<Longrightarrow> pl_enabled a q \<Longrightarrow> pl_run (as @ [a]) p (pl_exec a q)"
  by (rule pl_snoc) (simp_all add: pl_step_exec)

fun all_enabled :: "pl_action list \<Rightarrow> SecurityPipeline \<Rightarrow> bool" where
  "all_enabled [] p = True"
| "all_enabled (a # as) p = (pl_enabled a p \<and> all_enabled as (pl_exec a p))"

lemma pl_run_fold: "all_enabled as p \<Longrightarrow> pl_run as p (fold pl_exec as p)"
proof (induction as arbitrary: p)
  case Nil
  then show ?case by (simp add: pl_nil)
next
  case (Cons a as)
  have "pl_run [a] p (pl_exec a p)" using pl_run_exec_snoc [OF pl_nil, of a p] Cons.prems by simp
  from pl_run_append [OF Cons.IH this] show ?case using Cons.prems by simp
qed

lemma sample_enabled: "all_enabled sample_actions sample_pipeline"
  by (simp add: sample_actions_def worker_round_def wait_pop_def pipeline_start_def pipeline_publish_def bus_publish_def
      sample_valid sample_pipeline_def SecurityPipeline_new_def TelemetryBus_new_def Let_def)

abbreviation sample_key :: string where
  "sample_key \<equiv> correlation_key (sample_observation ''a'')"

definition sample_state :: ActiveState where
  "sample_state = (record_source empty_active (sample_observation ''a'') 1)\<lparr>act_last_reported_score := 50,
     act_last_reported_level := MEDIUM\<rparr>"

definition sample_engine :: CorrelationEngine where
  "sample_engine = (CorrelationEngine_new default_policy)\<lparr>corr_active := [(sample_key, sample_state)],
     corr_findings := [make_finding 1 1 MEDIUM 50 sample_key sample_state], corr_next_finding_id := 2\<rparr>"

lemma sample_ingest1:
  "ingest (CorrelationEngine_new default_policy) (sample_observation ''a'') 1 =
     (Some (make_finding 1 1 MEDIUM 50 sample_key sample_state), sample_engine)"
  by (simp add: ingest_def Let_def sample_valid expire_def evict_oldest_locked_def MAX_ACTIVE_KEYS_def MAX_FINDINGS_def
      sample_score level_for_def push_bounded_def sample_engine_def sample_state_def CorrelationEngine_new_def
      is_duplicate_def)
    (simp add: empty_active_def)

lemma sample_key_same: "correlation_key (sample_observation s) = sample_key"
  by (simp add: correlation_key_def sample_observation_def)

lemma sample_score2: "score_for (record_source sample_state (sample_observation ''b'') 2) = 100"
  by (simp add: score_for_def source_points_def sample_state_def record_source_def sample_observation_def
      empty_active_def lround_numeral)

lemma sample_ingest2:
  "fst (ingest sample_engine (sample_observation ''b'') 2) =
     Some (make_finding 2 2 CRITICAL 100 sample_key ((record_source sample_state (sample_observation ''b'') 2)
       \<lparr>act_last_reported_score := 100, act_last_reported_level := CRITICAL\<rparr>))"
proof -
  have keep: "expire sample_engine 2 = sample_engine"
    by (simp add: expire_def sample_engine_def sample_state_def record_source_def minutes_def CorrelationEngine_new_def
        default_policy_def)
  have "\<not> is_duplicate sample_state (sample_observation ''b'') 2"
    by (simp add: is_duplicate_def sample_state_def record_source_def sample_observation_def empty_active_def)
  moreover have "act_last_reported_score sample_state = 50" by (simp add: sample_state_def)
  moreover have "map_of (corr_active sample_engine) sample_key = Some sample_state"
    "corr_next_finding_id sample_engine = 2" by (simp_all add: sample_engine_def)
  ultimately show ?thesis
    by (simp add: ingest_def Let_def sample_valid keep sample_key_same [of "''b''"] sample_score2 level_for_def)
qed

lemma sample_candidate_for:
  "candidate_for (make_finding i now CRITICAL 100 key ((record_source sample_state (sample_observation ''b'') 2)
       \<lparr>act_last_reported_score := 100, act_last_reported_level := CRITICAL\<rparr>)) default_policy =
     Some \<lparr>cand_finding_id = i, cand_requested_action = QUARANTINE_CANDIDATE, cand_approval_state = PENDING_APPROVAL,
       cand_target_path = ''c:/tmp/x'', cand_expected_sha256 = [], cand_rationale = ''e''\<rparr>"
  by (simp add: candidate_for_Some make_finding_def any_source_deterministic_def sample_state_def record_source_def
      sample_observation_def empty_active_def)
    (simp add: is_protected_path_def default_policy_def path_starts_with_def path_char_def ascii_lower_def)

lemma sample_candidates:
  "pl_candidates (fold pl_exec sample_actions sample_pipeline) =
     [\<lparr>cand_finding_id = 2, cand_requested_action = QUARANTINE_CANDIDATE, cand_approval_state = PENDING_APPROVAL,
       cand_target_path = ''c:/tmp/x'', cand_expected_sha256 = [], cand_rationale = ''e''\<rparr>]"
proof -
  let ?q = "fold pl_exec (take 3 sample_actions) sample_pipeline"
  have q: "pl_worker ?q" "pl_corr ?q = CorrelationEngine_new default_policy" "pl_policy ?q = default_policy"
    "pl_candidates ?q = []" "bus_queue (pl_bus ?q) = [sample_observation ''a'', sample_observation ''b'']"
    by (simp_all add: sample_actions_def pipeline_start_def pipeline_publish_def bus_publish_def
        sample_valid sample_pipeline_def SecurityPipeline_new_def TelemetryBus_new_def Let_def)
  have n: "candidate_for (make_finding 1 1 MEDIUM 50 sample_key sample_state) default_policy = None"
    by (simp add: candidate_for_def decide_def make_finding_def)
  have "pl_candidates (worker_round (worker_round ?q 1) 2) =
     [\<lparr>cand_finding_id = 2, cand_requested_action = QUARANTINE_CANDIDATE, cand_approval_state = PENDING_APPROVAL,
       cand_target_path = ''c:/tmp/x'', cand_expected_sha256 = [], cand_rationale = ''e''\<rparr>]"
    using sample_ingest2
    by (cases "ingest sample_engine (sample_observation ''b'') 2")
      (simp add: worker_round_def wait_pop_def q process_def sample_ingest1 n sample_candidate_for push_bounded_def
        MAX_CANDIDATES_def)
  moreover have "pl_worker (worker_round ?q 1)"
    by (simp add: worker_round_def wait_pop_def q)
  ultimately show ?thesis using q(1) by (simp add: sample_actions_def)
qed

lemma sample_run: "pl_run sample_actions (SecurityPipeline_new 8 default_policy) (fold pl_exec sample_actions sample_pipeline)"
  using pl_run_fold [OF sample_enabled] by (simp add: sample_pipeline_def)

lemma sample_approved:
  "pl_run (sample_actions @ [AApprove 2]) (SecurityPipeline_new 8 default_policy)
     (snd (approve_candidate (fold pl_exec sample_actions sample_pipeline) 2))"
  using pl_run_exec_snoc [OF sample_run, of "AApprove 2"] by simp

lemma sample_approved_candidate:
  "\<exists>c. pl_candidates (snd (approve_candidate (fold pl_exec sample_actions sample_pipeline) 2)) = [c] \<and>
     cand_finding_id c = 2 \<and> cand_approval_state c = APPROVED"
  by (simp add: snd_approve_candidate sample_candidates)

section \<open>Properties\<close>

text \<open>
  C2. No single engine can put a file up for quarantine. In every interleaving of publishers, worker and
  operators from a new pipeline, each candidate names a non-empty unprotected path and rests on
  observations that were published: two valid ones about the same target from different sources, a
  deterministic one, and one that carried exactly that path.
\<close>

theorem candidates_need_two_sources:
  assumes "pl_run as (SecurityPipeline_new n policy) p" "c \<in> set (pl_candidates p)"
  shows "cand_target_path c \<noteq> [] \<and> \<not> is_protected_path (cand_target_path c) policy \<and>
     (\<exists>key. (\<exists>x \<in> published as. \<exists>y \<in> published as. obs_valid x \<and> obs_valid y \<and> correlation_key x = key \<and>
               correlation_key y = key \<and> obs_source_id x \<noteq> obs_source_id y) \<and>
            (\<exists>x \<in> published as. obs_valid x \<and> correlation_key x = key \<and> obs_deterministic x) \<and>
            (\<exists>x \<in> published as. obs_valid x \<and> correlation_key x = key \<and> obs_file_path x = cand_target_path c))"
  using pl_run_evidence [OF assms] by (simp add: candidate_evidence_def)

theorem candidates_need_two_sources_witness:
  "\<exists>p c. pl_run sample_actions (SecurityPipeline_new 8 default_policy) p \<and> pl_candidates p = [c] \<and>
     cand_target_path c \<noteq> [] \<and>
     (\<exists>x \<in> published sample_actions. \<exists>y \<in> published sample_actions. obs_source_id x \<noteq> obs_source_id y)"
proof -
  obtain c where c: "pl_candidates (fold pl_exec sample_actions sample_pipeline) = [c]"
    using sample_candidates by blast
  from candidates_need_two_sources [OF sample_run, of c] c sample_run show ?thesis by auto
qed

text \<open>
  C3. Approval is always an explicit act: in every interleaving a candidate is APPROVED only if an
  approval of its finding id was among the actions, and REJECTED only if a rejection was.
\<close>

theorem approval_is_explicit:
  assumes "pl_run as (SecurityPipeline_new n policy) p" "c \<in> set (pl_candidates p)"
  shows "(cand_approval_state c = APPROVED \<longrightarrow> AApprove (cand_finding_id c) \<in> set as) \<and>
    (cand_approval_state c = REJECTED \<longrightarrow> AReject (cand_finding_id c) \<in> set as)"
  using pl_run_approved [OF assms(1) _ assms(2)] by (simp add: SecurityPipeline_new_def)

theorem approval_is_explicit_witness:
  "\<exists>p c. pl_run (sample_actions @ [AApprove 2]) (SecurityPipeline_new 8 default_policy) p \<and> c \<in> set (pl_candidates p) \<and>
     cand_approval_state c = APPROVED \<and> AApprove (cand_finding_id c) \<in> set (sample_actions @ [AApprove 2])"
proof -
  obtain c where c: "pl_candidates (snd (approve_candidate (fold pl_exec sample_actions sample_pipeline) 2)) = [c]"
    "cand_approval_state c = APPROVED" using sample_approved_candidate by blast
  from approval_is_explicit [OF sample_approved, of c] c sample_approved show ?thesis by auto
qed

text \<open>
  The approval state machine: an approval answers NOT_FOUND for an unknown id, OK for a pending or
  already approved candidate and INVALID_TRANSITION for a rejected one; when it answers OK exactly the
  looked-up candidate is approved, otherwise nothing changes, and no other id is affected. Rejection
  is the mirror image.
\<close>

theorem approve_outcome:
  "(fst (approve_candidate p i) = (case find_candidate p i of
      None \<Rightarrow> ERR_NOT_FOUND
    | Some c \<Rightarrow> if cand_approval_state c = REJECTED then ERR_INVALID_TRANSITION else OK)) \<and>
   (fst (reject_candidate p i) = (case find_candidate p i of
      None \<Rightarrow> ERR_NOT_FOUND
    | Some c \<Rightarrow> if cand_approval_state c = APPROVED then ERR_INVALID_TRANSITION else OK)) \<and>
   find_candidate (snd (approve_candidate p i)) j =
     (if i = j \<and> fst (approve_candidate p i) = OK
      then map_option (\<lambda>c. c\<lparr>cand_approval_state := APPROVED\<rparr>) (find_candidate p i) else find_candidate p j) \<and>
   find_candidate (snd (reject_candidate p i)) j =
     (if i = j \<and> fst (reject_candidate p i) = OK
      then map_option (\<lambda>c. c\<lparr>cand_approval_state := REJECTED\<rparr>) (find_candidate p i) else find_candidate p j)"
proof -
  have a: "(s = APPROVED \<or> s = PENDING_APPROVAL) = (s \<noteq> REJECTED)" "(s = REJECTED \<or> s = PENDING_APPROVAL) = (s \<noteq> APPROVED)"
    for s by (cases s; simp)+
  have b: "find_candidate_in (snd (transition_candidate cs i t)) j =
     (if i = j \<and> fst (transition_candidate cs i t) = OK
      then map_option (\<lambda>c. c\<lparr>cand_approval_state := t\<rparr>) (find_candidate_in cs i) else find_candidate_in cs j)" for cs t
    using transition_candidate_find [of cs i t] transition_candidate_other [of i j cs t]
      transition_candidate_same [of cs i t] by (cases "i = j"; cases "fst (transition_candidate cs i t) = OK") auto
  show ?thesis
  proof (intro conjI)
    show "fst (approve_candidate p i) = (case find_candidate p i of None \<Rightarrow> ERR_NOT_FOUND
        | Some c \<Rightarrow> if cand_approval_state c = REJECTED then ERR_INVALID_TRANSITION else OK)"
      "fst (reject_candidate p i) = (case find_candidate p i of None \<Rightarrow> ERR_NOT_FOUND
        | Some c \<Rightarrow> if cand_approval_state c = APPROVED then ERR_INVALID_TRANSITION else OK)"
      by (simp_all add: snd_approve_candidate snd_reject_candidate find_candidate_def transition_candidate_result a
          split: option.split)
  qed (auto simp: snd_approve_candidate snd_reject_candidate find_candidate_def b)
qed

text \<open>
  C9. Stopping a running pipeline always returns and loses nothing that was queued: the worker
  processes every queued observation before it ends, so the queue is empty, the worker is gone, the
  bus is closed and nothing can be published any more; and the whole is one of the interleaved runs,
  closing the bus and then worker rounds only.
\<close>

theorem stop_drains_queue:
  assumes "pl_running p" "pl_worker p"
  shows "\<exists>q ts. pipeline_stop clock p = (OK, q) \<and> pl_run (AClose # map AWorker ts) p q \<and>
    bus_queue (pl_bus q) = [] \<and> \<not> pl_worker q \<and> \<not> pl_running q \<and> pipeline_publish q obs = (CLOSED, q)"
proof -
  let ?p1 = "p\<lparr>pl_running := False, pl_bus := bus_close (pl_bus p)\<rparr>"
  have s: "pipeline_stop clock p = (OK, worker_drain clock 0 ?p1)" using assms by (simp add: pipeline_stop_def Let_def)
  have "bus_queue (pl_bus (worker_drain clock 0 ?p1)) = [] \<and> \<not> pl_worker (worker_drain clock 0 ?p1)"
    by (rule worker_drain_end) (simp add: bus_close_def)
  moreover have "\<not> pl_running (worker_drain clock 0 ?p1)" using worker_drain_running [of clock 0 ?p1] by simp
  ultimately show ?thesis
    using s pipeline_stop_run [OF assms, of clock] by (auto simp: pipeline_publish_def)
qed

theorem stop_drains_queue_witness:
  "\<exists>q ts. pipeline_stop (\<lambda>_. 5) (fold pl_exec [AStart True, APublish (sample_observation ''a'')] sample_pipeline) = (OK, q) \<and>
     pl_run (AClose # map AWorker ts) (fold pl_exec [AStart True, APublish (sample_observation ''a'')] sample_pipeline) q \<and>
     bus_queue (pl_bus q) = []"
proof -
  let ?p = "fold pl_exec [AStart True, APublish (sample_observation ''a'')] sample_pipeline"
  have "pl_running ?p" "pl_worker ?p"
    by (simp_all add: pipeline_start_def pipeline_publish_def sample_pipeline_def SecurityPipeline_new_def
        TelemetryBus_new_def split: prod.splits)
  from stop_drains_queue [OF this, of "\<lambda>_. 5"] show ?thesis by blast
qed

text \<open>
  Candidate ids identify candidates: as long as fewer than 2^64 - 2 actions happened, no two
  candidates of a pipeline share a finding id, so an approval names one file.
\<close>

theorem candidate_ids_unique:
  assumes "pl_run as (SecurityPipeline_new n policy) p" "length as < 2 ^ 64 - 2"
  shows "distinct (map cand_finding_id (pl_candidates p)) \<and> length (pl_candidates p) \<le> MAX_CANDIDATES"
  using pl_run_ids [OF assms(1) refl assms(2)] pl_run_inv [OF assms(1) pl_inv_new]
  by (simp add: ids_below_def pl_inv_def)

theorem candidate_ids_unique_witness:
  "distinct (map cand_finding_id (pl_candidates (fold pl_exec sample_actions sample_pipeline)))"
  using candidate_ids_unique [OF sample_run] by (simp add: sample_actions_def)

text \<open>
  C10. Queued observations are eventually processed: in every interleaving that starts with a live worker and an
  observation at position i of the queue, the worker stays alive and the observation stays queued until i + 1 worker rounds
  have run, and the round with number i + 1 processes exactly this observation; fairness of the worker thread is the only
  assumption.
\<close>

theorem queued_is_processed:
  assumes "pl_run as p q" "i < length (bus_queue (pl_bus p))" "pl_worker p"
  shows "if i < length (filter is_worker as)
    then \<exists>as1 now as2 s b. as = as1 @ AWorker now # as2 \<and> pl_run as1 p s \<and>
       worker_round s now = process (s\<lparr>pl_bus := b\<rparr>) (bus_queue (pl_bus p) ! i) now \<and> pl_run as2 (worker_round s now) q
    else pl_worker q \<and> bus_queue (pl_bus q) ! (i - length (filter is_worker as)) = bus_queue (pl_bus p) ! i"
proof -
  have "bus_queue (pl_bus q) ! (i - length (filter is_worker as)) = bus_queue (pl_bus p) ! i"
    if "bus_queue (pl_bus q) = drop (length (filter is_worker as)) (bus_queue (pl_bus p)) @ ys" "\<not> i < length (filter is_worker as)" for ys
    using that assms(2) by (simp add: nth_append)
  then show ?thesis using pl_run_progress [OF assms] unfolding taken_def by auto
qed

theorem queued_is_processed_witness:
  "let p = fold pl_exec [AStart True, APublish (sample_observation ''a'')] sample_pipeline in
    \<exists>b. worker_round p 7 = process (p\<lparr>pl_bus := b\<rparr>) (sample_observation ''a'') 7"
proof -
  define p where "p = fold pl_exec [AStart True, APublish (sample_observation ''a'')] sample_pipeline"
  have p: "pl_worker p" "bus_queue (pl_bus p) = [sample_observation ''a'']"
    by (simp_all add: p_def pipeline_start_def pipeline_publish_def sample_pipeline_def SecurityPipeline_new_def
        TelemetryBus_new_def bus_publish_def sample_observation_def obs_valid_def Let_def split: prod.splits)
  have run: "pl_run [AWorker 7] p (worker_round p 7)" using pl_snoc [OF pl_nil worker [OF p(1)]] by simp
  have nil: "s = p" if "pl_run [] p s" for s using that by cases simp_all
  obtain as1 now as2 s b where t: "[AWorker 7] = as1 @ AWorker now # as2" "pl_run as1 p s"
    "worker_round s now = process (s\<lparr>pl_bus := b\<rparr>) (bus_queue (pl_bus p) ! 0) now"
    using queued_is_processed [OF run, of 0] p by auto
  from t(1) have "as1 = [] \<and> now = 7" by (cases as1) simp_all
  then have n: "now = 7" and s: "s = p" using t(2) nil [of s] by auto
  have "worker_round p 7 = process (p\<lparr>pl_bus := b\<rparr>) (sample_observation ''a'') 7" using t(3) p(2) by (simp add: n s)
  then show ?thesis unfolding p_def [symmetric] Let_def by blast
qed

end
