(* ===== verification/Sha2.thy ===== *)
theory Sha2
  imports GCAD_Prelude
begin

text \<open>
  The \<^verbatim>\<open>SHA256\<close> and \<^verbatim>\<open>SHA384\<close> classes of \<^verbatim>\<open>include/gcad/common.hpp\<close>. The two classes share one
  buffering scheme (a block buffer filled byte by byte, a bit counter, a final padding step) and
  differ in word size, constants, block length and truncation, so the buffering is written once
  over these parameters and instantiated twice. The locale \<open>md_hash\<close> proves that the incremental
  \<^verbatim>\<open>update\<close>/\<^verbatim>\<open>finalize\<close> code computes the one-shot definition of FIPS 180-4 (padding, then one
  compression per block); it is interpreted for both classes.
\<close>

section \<open>Incremental hashing\<close>

record 's md_ctx =
  md_state :: 's
  md_buffer :: bytes
  md_bitcount :: u64
  md_buflen :: nat

text \<open>\<^verbatim>\<open>reset()\<close>: the initial hash value, an all-zero buffer of one block, no bytes.\<close>

definition md_reset :: "nat \<Rightarrow> 's \<Rightarrow> 's md_ctx" where
  "md_reset B iv = \<lparr>md_state = iv, md_buffer = replicate B 0, md_bitcount = 0, md_buflen = 0\<rparr>"

text \<open>One iteration of the \<^verbatim>\<open>update\<close> loop.\<close>

definition md_update_byte :: "nat \<Rightarrow> ('s \<Rightarrow> bytes \<Rightarrow> 's) \<Rightarrow> 's md_ctx \<Rightarrow> u8 \<Rightarrow> 's md_ctx" where
  "md_update_byte B transform ctx b =
     (let buf = (md_buffer ctx)[md_buflen ctx := b]; n = md_buflen ctx + 1 in
      if n = B then ctx\<lparr>md_state := transform (md_state ctx) buf, md_buffer := buf,
        md_bitcount := md_bitcount ctx + of_nat (8 * B), md_buflen := 0\<rparr>
      else ctx\<lparr>md_buffer := buf, md_buflen := n\<rparr>)"

definition md_update :: "nat \<Rightarrow> ('s \<Rightarrow> bytes \<Rightarrow> 's) \<Rightarrow> 's md_ctx \<Rightarrow> bytes \<Rightarrow> 's md_ctx" where
  "md_update B transform ctx data = foldl (md_update_byte B transform) ctx data"

text \<open>The loops \<^verbatim>\<open>while (buflen_ < limit) buffer_[buflen_++] = 0\<close> and the stores of a byte run.\<close>

definition zero_fill :: "bytes \<Rightarrow> nat \<Rightarrow> nat \<Rightarrow> bytes" where
  "zero_fill buf from limit = foldl (\<lambda>b i. b[i := 0]) buf [from..<limit]"

fun store_bytes :: "bytes \<Rightarrow> nat \<Rightarrow> bytes \<Rightarrow> bytes" where
  "store_bytes buf pos [] = buf"
| "store_bytes buf pos (b # bs) = store_bytes (buf[pos := b]) (pos + 1) bs"

definition md_finalize :: "nat \<Rightarrow> nat \<Rightarrow> ('s \<Rightarrow> bytes \<Rightarrow> 's) \<Rightarrow> (u64 \<Rightarrow> bytes) \<Rightarrow> 's md_ctx \<Rightarrow> 's" where
  "md_finalize B L transform lenfield ctx =
     (let bits = md_bitcount ctx + of_nat (md_buflen ctx * 8);
          buf = (md_buffer ctx)[md_buflen ctx := 0x80]; n = md_buflen ctx + 1;
          (st, buf1, n1) =
            (if L < n then (let b = zero_fill buf n B in (transform (md_state ctx) b, b, 0))
             else (md_state ctx, buf, n));
          buf2 = zero_fill buf1 n1 L;
          buf3 = store_bytes buf2 L (lenfield bits)
      in transform st buf3)"

text \<open>The bytes \<^verbatim>\<open>uint8_t(bits >> (i * 8))\<close> for \<open>i = 7, \<dots>, 0\<close>.\<close>

definition be64 :: "u64 \<Rightarrow> bytes" where
  "be64 bits = map (\<lambda>i. ucast (drop_bit (i * 8) bits)) (rev [0..<8])"

section \<open>SHA-256\<close>

definition sha256_K :: "u32 list" where
  "sha256_K = concat
     [[0x428a2f98, 0x71374491, 0xb5c0fbcf, 0xe9b5dba5, 0x3956c25b, 0x59f111f1, 0x923f82a4, 0xab1c5ed5],
      [0xd807aa98, 0x12835b01, 0x243185be, 0x550c7dc3, 0x72be5d74, 0x80deb1fe, 0x9bdc06a7, 0xc19bf174],
      [0xe49b69c1, 0xefbe4786, 0x0fc19dc6, 0x240ca1cc, 0x2de92c6f, 0x4a7484aa, 0x5cb0a9dc, 0x76f988da],
      [0x983e5152, 0xa831c66d, 0xb00327c8, 0xbf597fc7, 0xc6e00bf3, 0xd5a79147, 0x06ca6351, 0x14292967],
      [0x27b70a85, 0x2e1b2138, 0x4d2c6dfc, 0x53380d13, 0x650a7354, 0x766a0abb, 0x81c2c92e, 0x92722c85],
      [0xa2bfe8a1, 0xa81a664b, 0xc24b8b70, 0xc76c51a3, 0xd192e819, 0xd6990624, 0xf40e3585, 0x106aa070],
      [0x19a4c116, 0x1e376c08, 0x2748774c, 0x34b0bcb5, 0x391c0cb3, 0x4ed8aa4a, 0x5b9cca4f, 0x682e6ff3],
      [0x748f82ee, 0x78a5636f, 0x84c87814, 0x8cc70208, 0x90befffa, 0xa4506ceb, 0xbef9a3f7, 0xc67178f2]]"

definition rotr32 :: "u32 \<Rightarrow> nat \<Rightarrow> u32" where
  "rotr32 x n = drop_bit n x OR push_bit (32 - n) x"

definition ch32 :: "u32 \<Rightarrow> u32 \<Rightarrow> u32 \<Rightarrow> u32" where
  "ch32 x y z = (x AND y) XOR (NOT x AND z)"

definition maj32 :: "u32 \<Rightarrow> u32 \<Rightarrow> u32 \<Rightarrow> u32" where
  "maj32 x y z = (x AND y) XOR (x AND z) XOR (y AND z)"

definition sha256_ep0 :: "u32 \<Rightarrow> u32" where
  "sha256_ep0 x = rotr32 x 2 XOR rotr32 x 13 XOR rotr32 x 22"

definition sha256_ep1 :: "u32 \<Rightarrow> u32" where
  "sha256_ep1 x = rotr32 x 6 XOR rotr32 x 11 XOR rotr32 x 25"

definition sha256_sig0 :: "u32 \<Rightarrow> u32" where
  "sha256_sig0 x = rotr32 x 7 XOR rotr32 x 18 XOR drop_bit 3 x"

definition sha256_sig1 :: "u32 \<Rightarrow> u32" where
  "sha256_sig1 x = rotr32 x 17 XOR rotr32 x 19 XOR drop_bit 10 x"

definition sha256_schedule :: "bytes \<Rightarrow> u32 list" where
  "sha256_schedule block =
     (let w0 = map (\<lambda>i. push_bit 24 (ucast (block ! (i*4))) OR push_bit 16 (ucast (block ! (i*4+1))) OR
                       push_bit 8 (ucast (block ! (i*4+2))) OR ucast (block ! (i*4+3))) [0..<16]
      in foldl (\<lambda>w i. w @ [sha256_sig1 (w ! (i-2)) + w ! (i-7) + sha256_sig0 (w ! (i-15)) + w ! (i-16)])
           w0 [16..<64])"

fun sha256_round :: "u32 \<times> u32 \<times> u32 \<times> u32 \<times> u32 \<times> u32 \<times> u32 \<times> u32 \<Rightarrow> u32 \<times> u32 \<Rightarrow>
    u32 \<times> u32 \<times> u32 \<times> u32 \<times> u32 \<times> u32 \<times> u32 \<times> u32" where
  "sha256_round (a, b, c, d, e, f, g, h) (k, w) =
     (let t1 = h + sha256_ep1 e + ch32 e f g + k + w;
          t2 = sha256_ep0 a + maj32 a b c
      in (t1 + t2, a, b, c, d + t1, e, f, g))"

type_synonym sha256_state = "u32 \<times> u32 \<times> u32 \<times> u32 \<times> u32 \<times> u32 \<times> u32 \<times> u32"

definition sha256_transform :: "sha256_state \<Rightarrow> bytes \<Rightarrow> sha256_state" where
  "sha256_transform st block =
     (case foldl sha256_round st (zip sha256_K (sha256_schedule block)) of
        (a, b, c, d, e, f, g, h) \<Rightarrow> case st of (s0, s1, s2, s3, s4, s5, s6, s7) \<Rightarrow>
          (s0 + a, s1 + b, s2 + c, s3 + d, s4 + e, s5 + f, s6 + g, s7 + h))"

definition sha256_iv :: sha256_state where
  "sha256_iv = (0x6a09e667, 0xbb67ae85, 0x3c6ef372, 0xa54ff53a, 0x510e527f, 0x9b05688c, 0x1f83d9ab, 0x5be0cd19)"

definition sha256_reset :: "sha256_state md_ctx" where
  "sha256_reset = md_reset 64 sha256_iv"

definition sha256_update :: "sha256_state md_ctx \<Rightarrow> bytes \<Rightarrow> sha256_state md_ctx" where
  "sha256_update = md_update 64 sha256_transform"

definition be32 :: "u32 \<Rightarrow> bytes" where
  "be32 x = [ucast (drop_bit 24 x), ucast (drop_bit 16 x), ucast (drop_bit 8 x), ucast x]"

definition sha256_out :: "sha256_state \<Rightarrow> bytes" where
  "sha256_out st = (case st of (s0, s1, s2, s3, s4, s5, s6, s7) \<Rightarrow>
     be32 s0 @ be32 s1 @ be32 s2 @ be32 s3 @ be32 s4 @ be32 s5 @ be32 s6 @ be32 s7)"

definition sha256_finalize :: "sha256_state md_ctx \<Rightarrow> bytes" where
  "sha256_finalize ctx = sha256_out (md_finalize 64 56 sha256_transform be64 ctx)"

definition hex_digit :: "nat \<Rightarrow> char" where
  "hex_digit n = ''0123456789abcdef'' ! n"

text \<open>\<^verbatim>\<open>SHA256::hex\<close> and \<^verbatim>\<open>SHA384::hex\<close>, which have the same body.\<close>

definition sha_hex :: "bytes \<Rightarrow> string" where
  "sha_hex h = concat (map (\<lambda>b. [hex_digit (unat (drop_bit 4 b)), hex_digit (unat (b AND 0xf))]) h)"

definition sha256_hash_bytes :: "bytes \<Rightarrow> string" where
  "sha256_hash_bytes data = sha_hex (sha256_finalize (sha256_update sha256_reset data))"

text \<open>
  \<^verbatim>\<open>SHA256::hash_file\<close>: the file is read in chunks of 8192 bytes and each chunk is passed to
  \<^verbatim>\<open>update\<close>. \<open>None\<close> is a file that cannot be opened, for which the code returns the empty string.
\<close>

function hash_chunks :: "sha256_state md_ctx \<Rightarrow> bytes \<Rightarrow> sha256_state md_ctx" where
  "hash_chunks ctx rest =
     (if 8192 \<le> length rest then hash_chunks (sha256_update ctx (take 8192 rest)) (drop 8192 rest)
      else if 0 < length rest then sha256_update ctx rest else ctx)"
  by pat_completeness auto
termination
  by (relation "measure (\<lambda>(ctx, rest). length rest)") auto

declare hash_chunks.simps [simp del]

definition sha256_hash_file :: "bytes option \<Rightarrow> string" where
  "sha256_hash_file contents = (case contents of None \<Rightarrow> []
     | Some data \<Rightarrow> sha_hex (sha256_finalize (hash_chunks sha256_reset data)))"

section \<open>SHA-384\<close>

definition sha384_K :: "u64 list" where
  "sha384_K = concat
     [[0x428a2f98d728ae22, 0x7137449123ef65cd, 0xb5c0fbcfec4d3b2f, 0xe9b5dba58189dbbc],
      [0x3956c25bf348b538, 0x59f111f1b605d019, 0x923f82a4af194f9b, 0xab1c5ed5da6d8118],
      [0xd807aa98a3030242, 0x12835b0145706fbe, 0x243185be4ee4b28c, 0x550c7dc3d5ffb4e2],
      [0x72be5d74f27b896f, 0x80deb1fe3b1696b1, 0x9bdc06a725c71235, 0xc19bf174cf692694],
      [0xe49b69c19ef14ad2, 0xefbe4786384f25e3, 0x0fc19dc68b8cd5b5, 0x240ca1cc77ac9c65],
      [0x2de92c6f592b0275, 0x4a7484aa6ea6e483, 0x5cb0a9dcbd41fbd4, 0x76f988da831153b5],
      [0x983e5152ee66dfab, 0xa831c66d2db43210, 0xb00327c898fb213f, 0xbf597fc7beef0ee4],
      [0xc6e00bf33da88fc2, 0xd5a79147930aa725, 0x06ca6351e003826f, 0x142929670a0e6e70],
      [0x27b70a8546d22ffc, 0x2e1b21385c26c926, 0x4d2c6dfc5ac42aed, 0x53380d139d95b3df],
      [0x650a73548baf63de, 0x766a0abb3c77b2a8, 0x81c2c92e47edaee6, 0x92722c851482353b],
      [0xa2bfe8a14cf10364, 0xa81a664bbc423001, 0xc24b8b70d0f89791, 0xc76c51a30654be30],
      [0xd192e819d6ef5218, 0xd69906245565a910, 0xf40e35855771202a, 0x106aa07032bbd1b8],
      [0x19a4c116b8d2d0c8, 0x1e376c085141ab53, 0x2748774cdf8eeb99, 0x34b0bcb5e19b48a8],
      [0x391c0cb3c5c95a63, 0x4ed8aa4ae3418acb, 0x5b9cca4f7763e373, 0x682e6ff3d6b2b8a3],
      [0x748f82ee5defb2fc, 0x78a5636f43172f60, 0x84c87814a1f0ab72, 0x8cc702081a6439ec],
      [0x90befffa23631e28, 0xa4506cebde82bde9, 0xbef9a3f7b2c67915, 0xc67178f2e372532b],
      [0xca273eceea26619c, 0xd186b8c721c0c207, 0xeada7dd6cde0eb1e, 0xf57d4f7fee6ed178],
      [0x06f067aa72176fba, 0x0a637dc5a2c898a6, 0x113f9804bef90dae, 0x1b710b35131c471b],
      [0x28db77f523047d84, 0x32caab7b40c72493, 0x3c9ebe0a15c9bebc, 0x431d67c49c100d4c],
      [0x4cc5d4becb3e42b6, 0x597f299cfc657e2a, 0x5fcb6fab3ad6faec, 0x6c44198c4a475817]]"

definition rotr64 :: "u64 \<Rightarrow> nat \<Rightarrow> u64" where
  "rotr64 x n = drop_bit n x OR push_bit (64 - n) x"

definition ch64 :: "u64 \<Rightarrow> u64 \<Rightarrow> u64 \<Rightarrow> u64" where
  "ch64 x y z = (x AND y) XOR (NOT x AND z)"

definition maj64 :: "u64 \<Rightarrow> u64 \<Rightarrow> u64 \<Rightarrow> u64" where
  "maj64 x y z = (x AND y) XOR (x AND z) XOR (y AND z)"

definition sha384_ep0 :: "u64 \<Rightarrow> u64" where
  "sha384_ep0 x = rotr64 x 28 XOR rotr64 x 34 XOR rotr64 x 39"

definition sha384_ep1 :: "u64 \<Rightarrow> u64" where
  "sha384_ep1 x = rotr64 x 14 XOR rotr64 x 18 XOR rotr64 x 41"

definition sha384_sig0 :: "u64 \<Rightarrow> u64" where
  "sha384_sig0 x = rotr64 x 1 XOR rotr64 x 8 XOR drop_bit 7 x"

definition sha384_sig1 :: "u64 \<Rightarrow> u64" where
  "sha384_sig1 x = rotr64 x 19 XOR rotr64 x 61 XOR drop_bit 6 x"

definition sha384_schedule :: "bytes \<Rightarrow> u64 list" where
  "sha384_schedule block =
     (let w0 = map (\<lambda>i. foldl (\<lambda>w b. push_bit 8 w OR ucast (block ! (i * 8 + b))) 0 [0..<8]) [0..<16]
      in foldl (\<lambda>w i. w @ [sha384_sig1 (w ! (i-2)) + w ! (i-7) + sha384_sig0 (w ! (i-15)) + w ! (i-16)])
           w0 [16..<80])"

fun sha384_round :: "u64 \<times> u64 \<times> u64 \<times> u64 \<times> u64 \<times> u64 \<times> u64 \<times> u64 \<Rightarrow> u64 \<times> u64 \<Rightarrow>
    u64 \<times> u64 \<times> u64 \<times> u64 \<times> u64 \<times> u64 \<times> u64 \<times> u64" where
  "sha384_round (a, b, c, d, e, f, g, h) (k, w) =
     (let t1 = h + sha384_ep1 e + ch64 e f g + k + w;
          t2 = sha384_ep0 a + maj64 a b c
      in (t1 + t2, a, b, c, d + t1, e, f, g))"

type_synonym sha384_state = "u64 \<times> u64 \<times> u64 \<times> u64 \<times> u64 \<times> u64 \<times> u64 \<times> u64"

definition sha384_transform :: "sha384_state \<Rightarrow> bytes \<Rightarrow> sha384_state" where
  "sha384_transform st block =
     (case foldl sha384_round st (zip sha384_K (sha384_schedule block)) of
        (a, b, c, d, e, f, g, h) \<Rightarrow> case st of (s0, s1, s2, s3, s4, s5, s6, s7) \<Rightarrow>
          (s0 + a, s1 + b, s2 + c, s3 + d, s4 + e, s5 + f, s6 + g, s7 + h))"

definition sha384_iv :: sha384_state where
  "sha384_iv = (0xcbbb9d5dc1059ed8, 0x629a292a367cd507, 0x9159015a3070dd17, 0x152fecd8f70e5939,
     0x67332667ffc00b31, 0x8eb44a8768581511, 0xdb0c2e0d64f98fa7, 0x47b5481dbefa4fa4)"

definition sha384_reset :: "sha384_state md_ctx" where
  "sha384_reset = md_reset 128 sha384_iv"

definition sha384_update :: "sha384_state md_ctx \<Rightarrow> bytes \<Rightarrow> sha384_state md_ctx" where
  "sha384_update = md_update 128 sha384_transform"

text \<open>The high 64 bits of the 128-bit length are written as zero bytes.\<close>

definition sha384_lenfield :: "u64 \<Rightarrow> bytes" where
  "sha384_lenfield bits = replicate 8 0 @ be64 bits"

definition sha384_out :: "sha384_state \<Rightarrow> bytes" where
  "sha384_out st = (case st of (s0, s1, s2, s3, s4, s5, s6, s7) \<Rightarrow>
     be64 s0 @ be64 s1 @ be64 s2 @ be64 s3 @ be64 s4 @ be64 s5)"

definition sha384_finalize :: "sha384_state md_ctx \<Rightarrow> bytes" where
  "sha384_finalize ctx = sha384_out (md_finalize 128 112 sha384_transform sha384_lenfield ctx)"

definition sha384_hash_bytes :: "bytes \<Rightarrow> string" where
  "sha384_hash_bytes data = sha_hex (sha384_finalize (sha384_update sha384_reset data))"

section \<open>The one-shot definition\<close>

text \<open>Whole blocks of a byte string, a shorter rest being dropped.\<close>

function chunks :: "nat \<Rightarrow> bytes \<Rightarrow> bytes list" where
  "chunks B xs = (if B = 0 \<or> length xs < B then [] else take B xs # chunks B (drop B xs))"
  by pat_completeness auto
termination
  by (relation "measure (\<lambda>(B, xs). length xs)") auto

declare chunks.simps [simp del]

text \<open>
  FIPS 180-4 padding for blocks of \<open>B\<close> bytes whose length field starts at offset \<open>L\<close>: a one bit, the
  least number of zero bits, and the length in bits.
\<close>

definition md_zeros :: "nat \<Rightarrow> nat \<Rightarrow> nat \<Rightarrow> nat" where
  "md_zeros B L len = (let n = len mod B + 1 in if n \<le> L then L - n else B + L - n)"

definition md_pad :: "nat \<Rightarrow> nat \<Rightarrow> (u64 \<Rightarrow> bytes) \<Rightarrow> bytes \<Rightarrow> bytes" where
  "md_pad B L lenfield data =
     data @ [0x80] @ replicate (md_zeros B L (length data)) 0 @ lenfield (of_nat (8 * length data))"

definition md_digest :: "nat \<Rightarrow> nat \<Rightarrow> ('s \<Rightarrow> bytes \<Rightarrow> 's) \<Rightarrow> (u64 \<Rightarrow> bytes) \<Rightarrow> 's \<Rightarrow> bytes \<Rightarrow> 's" where
  "md_digest B L transform lenfield iv data = foldl transform iv (chunks B (md_pad B L lenfield data))"

lemma chunks_Cons: "0 < B \<Longrightarrow> length xs = B \<Longrightarrow> chunks B (xs @ ys) = xs # chunks B ys"
  by (subst chunks.simps) simp

lemma chunks_short: "length xs < B \<Longrightarrow> chunks B xs = []"
  by (subst chunks.simps) simp

lemma chunks_append:
  "0 < B \<Longrightarrow> length xs mod B = 0 \<Longrightarrow> chunks B (xs @ ys) = chunks B xs @ chunks B ys"
proof (induction B xs rule: chunks.induct)
  case (1 B xs)
  show ?case
  proof (cases "length xs < B")
    case True
    with "1.prems" have "xs = []" by simp
    then show ?thesis using "1.prems" by (simp add: chunks_short)
  next
    case False
    then have l: "length (take B xs) = B" by simp
    have "length (drop B xs) mod B = 0" using "1.prems" False by (simp add: le_mod_geq)
    then have "chunks B (drop B xs @ ys) = chunks B (drop B xs) @ chunks B ys"
      using "1.IH" "1.prems" False by simp
    moreover have "chunks B (xs @ ys) = take B xs # chunks B (drop B xs @ ys)"
      using chunks_Cons [OF "1.prems"(1) l, of "drop B xs @ ys"] by (metis append.assoc append_take_drop_id)
    ultimately show ?thesis using False "1.prems" by (simp add: chunks.simps [of B xs])
  qed
qed

lemma length_zero_fill [simp]: "length (zero_fill buf a b) = length buf"
proof -
  have "length (foldl (\<lambda>b i. b[i := 0]) buf xs) = length buf" for xs :: "nat list" and buf :: bytes
    by (induction xs arbitrary: buf) auto
  then show ?thesis by (simp add: zero_fill_def)
qed

lemma zero_fill_eq:
  assumes "a \<le> b" "b \<le> length buf"
  shows "zero_fill buf a b = take a buf @ replicate (b - a) 0 @ drop b buf"
  using assms
proof (induction b)
  case 0
  then show ?case by (simp add: zero_fill_def)
next
  case (Suc b)
  show ?case
  proof (cases "a = Suc b")
    case True
    then show ?thesis by (simp add: zero_fill_def)
  next
    case False
    with Suc.prems have ab: "a \<le> b" by simp
    then have "zero_fill buf a (Suc b) = (zero_fill buf a b)[b := 0]" by (simp add: zero_fill_def)
    also have "\<dots> = (take a buf @ replicate (b - a) 0 @ drop b buf)[b := 0]" using Suc ab by simp
    also have "\<dots> = take a buf @ replicate (b - a) 0 @ (drop b buf)[0 := 0]"
      using ab Suc.prems by (simp add: list_update_append)
    also have "(drop b buf)[0 := 0] = 0 # drop (Suc b) buf"
      using Suc.prems by (metis Cons_nth_drop_Suc Suc_le_eq list_update_code(2))
    finally show ?thesis using ab by (simp add: Suc_diff_le replicate_append_same [symmetric])
  qed
qed

lemma length_store_bytes [simp]: "length (store_bytes buf pos bs) = length buf"
  by (induction buf pos bs rule: store_bytes.induct) auto

lemma store_bytes_eq:
  "pos + length bs \<le> length buf \<Longrightarrow> store_bytes buf pos bs = take pos buf @ bs @ drop (pos + length bs) buf"
proof (induction buf pos bs rule: store_bytes.induct)
  case (2 buf pos b bs)
  have "take (pos + 1) (buf[pos := b]) = take pos buf @ [b]"
    using "2.prems" by (simp add: take_Suc_conv_app_nth)
  then show ?case using 2 by (simp add: drop_update_swap)
qed simp

section \<open>Incremental hashing computes the one-shot definition\<close>

locale md_hash =
  fixes B :: nat and L :: nat and transform :: "'s \<Rightarrow> bytes \<Rightarrow> 's" and lenfield :: "u64 \<Rightarrow> bytes" and iv :: 's
  assumes L_pos: "0 < L" and L_lt: "L < B" and lenfield_length: "length (lenfield n) = B - L"
begin

text \<open>
  The context after absorbing \<open>data\<close>: complete blocks are compressed, the rest waits in the buffer,
  and the counter holds the bits already compressed.
\<close>

definition absorbed :: "bytes \<Rightarrow> 's md_ctx \<Rightarrow> bool" where
  "absorbed data ctx \<longleftrightarrow> (\<exists>done rest. data = done @ rest \<and> length done mod B = 0 \<and> length rest < B \<and>
     md_state ctx = foldl transform iv (chunks B done) \<and> length (md_buffer ctx) = B \<and>
     md_buflen ctx = length rest \<and> take (length rest) (md_buffer ctx) = rest \<and>
     md_bitcount ctx = of_nat (8 * length done))"

lemma absorbed_reset: "absorbed [] (md_reset B iv)"
  using L_lt by (auto simp: absorbed_def md_reset_def chunks_short)

lemma absorbed_step:
  assumes "absorbed data ctx"
  shows "absorbed (data @ [b]) (md_update_byte B transform ctx b)"
proof -
  obtain d r where a: "data = d @ r" "length d mod B = 0" "length r < B"
    "md_state ctx = foldl transform iv (chunks B d)" "length (md_buffer ctx) = B"
    "md_buflen ctx = length r" "take (length r) (md_buffer ctx) = r"
    "md_bitcount ctx = of_nat (8 * length d)"
    using assms by (auto simp: absorbed_def)
  have B: "0 < B" using L_lt by simp
  let ?buf = "(md_buffer ctx)[length r := b]"
  have tk: "take (length r + 1) ?buf = r @ [b]"
    using a by (simp add: take_Suc_conv_app_nth)
  show ?thesis
  proof (cases "length r + 1 = B")
    case True
    then have buf: "?buf = r @ [b]" using tk a(5) by simp
    have "chunks B (d @ r @ [b]) = chunks B d @ [r @ [b]]"
      using chunks_append [OF B a(2), of "r @ [b]"] chunks_Cons [OF B, of "r @ [b]" "[]"] True B
      by (simp add: chunks_short)
    moreover have len: "length (d @ r @ [b]) = length d + B" using True by simp
    then have "length (d @ r @ [b]) mod B = 0" using a(2) by (simp only: mod_add_self2)
    moreover have "(of_nat (8 * length (d @ r @ [b])) :: u64) = md_bitcount ctx + of_nat (8 * B)"
      unfolding len a(8) by (simp add: algebra_simps)
    ultimately show ?thesis
      using a True buf B unfolding absorbed_def
      by (intro exI [of _ "d @ r @ [b]"] exI [of _ "[]"]) (simp add: md_update_byte_def Let_def)
  next
    case False
    then show ?thesis
      using a tk unfolding absorbed_def
      by (intro exI [of _ d] exI [of _ "r @ [b]"]) (simp add: md_update_byte_def Let_def)
  qed
qed

lemma absorbed_update: "absorbed data ctx \<Longrightarrow> absorbed (data @ bs) (md_update B transform ctx bs)"
proof (induction bs arbitrary: data ctx)
  case Nil
  then show ?case by (simp add: md_update_def)
next
  case (Cons b bs)
  from Cons.IH [OF absorbed_step [OF Cons.prems]] show ?case by (simp add: md_update_def)
qed

lemma finalize_absorbed:
  assumes "absorbed data ctx"
  shows "md_finalize B L transform lenfield ctx = md_digest B L transform lenfield iv data"
proof -
  obtain d r where a: "data = d @ r" "length d mod B = 0" "length r < B"
    "md_state ctx = foldl transform iv (chunks B d)" "length (md_buffer ctx) = B"
    "md_buflen ctx = length r" "take (length r) (md_buffer ctx) = r"
    "md_bitcount ctx = of_nat (8 * length d)"
    using assms by (auto simp: absorbed_def)
  have B: "0 < B" using L_lt by simp
  let ?n = "length r + 1" and ?bits = "of_nat (8 * length data) :: u64"
  let ?buf = "(md_buffer ctx)[length r := 0x80]"
  have bits: "md_bitcount ctx + of_nat (md_buflen ctx * 8) = ?bits"
    using a by (simp add: algebra_simps)
  have tk: "take ?n ?buf = r @ [0x80]" using a by (simp add: take_Suc_conv_app_nth)
  have mod: "length data mod B = length r" using a by (simp add: mod_add_eq [symmetric])
  have store: "store_bytes (zero_fill b m L) L (lenfield ?bits) = take m b @ replicate (L - m) 0 @ lenfield ?bits"
    if "length b = B" "m \<le> L" for b m
    using that L_lt lenfield_length by (simp add: store_bytes_eq zero_fill_eq)
  have pad: "chunks B (md_pad B L lenfield data) =
      chunks B d @ chunks B (r @ [0x80] @ replicate (md_zeros B L (length data)) 0 @ lenfield ?bits)"
    unfolding md_pad_def a(1) append_assoc by (rule chunks_append [OF B a(2)])
  show ?thesis
  proof (cases "L < ?n")
    case False
    have z: "md_zeros B L (length data) = L - ?n" using False mod by (simp add: md_zeros_def)
    let ?blk = "r @ [0x80] @ replicate (L - ?n) 0 @ lenfield ?bits"
    have "length ?blk = B" using False L_lt lenfield_length by simp
    then have "chunks B ?blk = [?blk]" using chunks_Cons [OF B, of ?blk "[]"] B by (simp add: chunks_short)
    with pad z have "md_digest B L transform lenfield iv data = transform (md_state ctx) ?blk"
      using a(4) by (simp add: md_digest_def)
    moreover have "md_finalize B L transform lenfield ctx = transform (md_state ctx) ?blk"
      unfolding md_finalize_def Let_def bits using False store [of ?buf ?n] tk a(5,6) by simp
    ultimately show ?thesis by simp
  next
    case True
    have z: "md_zeros B L (length data) = (B - ?n) + L" using True mod a(3) by (simp add: md_zeros_def)
    let ?b1 = "r @ [0x80] @ replicate (B - ?n) 0" and ?b2 = "replicate L 0 @ lenfield ?bits"
    have l: "length ?b1 = B" "length ?b2 = B" using a(3) L_lt lenfield_length by simp_all
    have "chunks B (?b1 @ ?b2) = [?b1, ?b2]"
      using chunks_Cons [OF B l(1), of ?b2] chunks_Cons [OF B l(2), of "[]"] B by (simp add: chunks_short)
    then have "chunks B (md_pad B L lenfield data) = chunks B d @ [?b1, ?b2]"
      using pad z by (simp add: replicate_add)
    then have "md_digest B L transform lenfield iv data = transform (transform (md_state ctx) ?b1) ?b2"
      using a(4) by (simp add: md_digest_def)
    moreover have "zero_fill ?buf ?n B = ?b1" using tk a by (simp add: zero_fill_eq)
    ultimately show ?thesis
      unfolding md_finalize_def Let_def bits using True store [of ?b1 0] l(1) a(6) by simp
  qed
qed

lemma incremental_is_one_shot:
  "md_finalize B L transform lenfield (md_update B transform (md_reset B iv) data) =
     md_digest B L transform lenfield iv data"
  using finalize_absorbed [OF absorbed_update [OF absorbed_reset]] by simp

end

lemma length_be64 [simp]: "length (be64 n) = 8"
  by (simp add: be64_def)

interpretation sha256: md_hash 64 56 sha256_transform be64 sha256_iv
  by unfold_locales simp_all

interpretation sha384: md_hash 128 112 sha384_transform sha384_lenfield sha384_iv
  by unfold_locales (simp_all add: sha384_lenfield_def)

lemma md_update_append:
  "md_update B T ctx (xs @ ys) = md_update B T (md_update B T ctx xs) ys"
  by (simp add: md_update_def)

lemma hash_chunks_eq: "hash_chunks ctx data = sha256_update ctx data"
proof (induction ctx data rule: hash_chunks.induct)
  case (1 ctx data)
  show ?case
  proof (cases "8192 \<le> length data")
    case True
    with 1 show ?thesis
      by (simp add: hash_chunks.simps [of ctx data] sha256_update_def flip: md_update_append)
  next
    case False
    then show ?thesis
      by (simp add: hash_chunks.simps [of ctx data] sha256_update_def md_update_def)
  qed
qed

lemma length_sha256_finalize [simp]: "length (sha256_finalize ctx) = 32"
  by (simp add: sha256_finalize_def sha256_out_def be32_def split: prod.split)

lemma length_sha384_finalize [simp]: "length (sha384_finalize ctx) = 48"
  by (simp add: sha384_finalize_def sha384_out_def split: prod.split)

lemma length_sha_hex [simp]: "length (sha_hex h) = 2 * length h"
  by (induction h) (simp_all add: sha_hex_def)

lemma hex_digit_alnum:
  "n < 16 \<Longrightarrow> hex_digit n \<noteq> CHR ''|'' \<and> hex_digit n \<noteq> CHR 0x0A"
proof -
  assume "n < 16"
  then have "n \<in> set [0..<16]" by simp
  moreover have "\<forall>n \<in> set [0..<16]. hex_digit n \<noteq> CHR ''|'' \<and> hex_digit n \<noteq> CHR 0x0A"
    by (simp add: hex_digit_def upt_rec)
  ultimately show ?thesis by blast
qed

lemma sha_hex_clean: "CHR ''|'' \<notin> set (sha_hex h)" "CHR 0x0A \<notin> set (sha_hex h)"
proof -
  have d: "unat (drop_bit 4 b) < 16" "unat (b AND 0xf) < 16" for b :: u8
  proof -
    show "unat (drop_bit 4 b) < 16" using unat_lt_u8 [of b] by (simp add: unat_drop_bit_nat less_mult_imp_div_less)
    have "unat (b AND mask 4) < 16" by (simp add: unat_and_mask_nat)
    then show "unat (b AND 0xf) < 16" by (simp add: mask_eq_exp_minus_1)
  qed
  have "set (sha_hex h) \<subseteq> hex_digit ` {..<16}"
    using d by (auto simp: sha_hex_def)
  then show "CHR ''|'' \<notin> set (sha_hex h)" "CHR 0x0A \<notin> set (sha_hex h)"
    using hex_digit_alnum by fastforce+
qed

lemma foldl_sha256_update: "foldl sha256_update ctx pieces = sha256_update ctx (concat pieces)"
  by (induction pieces arbitrary: ctx) (simp_all add: sha256_update_def md_update_append, simp add: md_update_def)

lemma foldl_sha384_update: "foldl sha384_update ctx pieces = sha384_update ctx (concat pieces)"
  by (induction pieces arbitrary: ctx) (simp_all add: sha384_update_def md_update_append, simp add: md_update_def)

section \<open>Properties\<close>

text \<open>
  C40. The streaming SHA-256 computes the Merkle-Damgard construction: feeding the data in any pieces
  and finalizing gives the compression function folded over the 64-byte blocks of the data padded
  with 0x80, zeros and the 64-bit bit length.
\<close>

theorem sha256_streaming:
  "sha256_finalize (foldl sha256_update sha256_reset pieces) =
     sha256_out (md_digest 64 56 sha256_transform be64 sha256_iv (concat pieces))"
  using sha256.incremental_is_one_shot [of "concat pieces"] foldl_sha256_update [of sha256_reset pieces]
  by (simp add: sha256_finalize_def sha256_reset_def sha256_update_def)

text \<open>The same for SHA-384, with 128-byte blocks and a 128-bit length field.\<close>

theorem sha384_streaming:
  "sha384_finalize (foldl sha384_update sha384_reset pieces) =
     sha384_out (md_digest 128 112 sha384_transform sha384_lenfield sha384_iv (concat pieces))"
  using sha384.incremental_is_one_shot [of "concat pieces"] foldl_sha384_update [of sha384_reset pieces]
  by (simp add: sha384_finalize_def sha384_reset_def sha384_update_def)

text \<open>
  Hashing a file chunk by chunk gives the hash of its bytes, and the hexadecimal digest always has
  64 characters; the empty string is returned exactly for a file that cannot be opened.
\<close>

theorem hash_file_is_hash_bytes:
  "sha256_hash_file (Some data) = sha256_hash_bytes data \<and> length (sha256_hash_bytes data) = 64 \<and>
   (sha256_hash_file contents = [] \<longleftrightarrow> contents = None)"
proof -
  have eq: "sha256_hash_file (Some d) = sha256_hash_bytes d" for d
    by (simp add: sha256_hash_file_def sha256_hash_bytes_def hash_chunks_eq)
  have len: "length (sha256_hash_bytes d) = 64" for d by (simp add: sha256_hash_bytes_def)
  have "sha256_hash_file contents = [] \<longleftrightarrow> contents = None"
    using len eq by (cases contents) (auto simp: sha256_hash_file_def dest: arg_cong [where f = length])
  with eq len show ?thesis by simp
qed

end
