(* ===== verification/Quarantine.thy ===== *)
theory Quarantine
  imports Policy Sha2
begin

text \<open>
  \<^verbatim>\<open>security/quarantine_executor.{hpp,cpp}\<close>: the only component that moves a detected file. The file
  system is a map from path strings to nodes; every call into \<^verbatim>\<open>std::filesystem\<close> or a stream can
  fail, and which ones do is the environment record \<open>fs_env\<close>, which the theorems quantify over.
  Directories are implicit. The ledger text file is a separate field of the state.
  The lemmas give the conditions and the exact effect of a successful quarantine, show that a
  refused one loses nothing, that restore undoes quarantine, and that the ledger file reloads to the
  in-memory ledger.
\<close>

section \<open>File system\<close>

datatype fs_node = Regular bytes | Symlink string | Directory

type_synonym fs = "string \<rightharpoonup> fs_node"

record fs_env =
  err_status :: "string \<Rightarrow> bool"
  cannot_open :: "string \<Rightarrow> bool"
  err_rename :: "string \<Rightarrow> string \<Rightarrow> bool"
  err_copy :: "string \<Rightarrow> string \<Rightarrow> bool"
  err_remove :: "string \<Rightarrow> bool"
  err_ledger_append :: bool
  err_ledger_rewrite :: bool
  clock_now :: time_point

text \<open>The environment in which no call fails.\<close>

definition fs_fine :: "time_point \<Rightarrow> fs_env" where
  "fs_fine now = \<lparr>err_status = \<lambda>_. False, cannot_open = \<lambda>_. False, err_rename = \<lambda>_ _. False,
     err_copy = \<lambda>_ _. False, err_remove = \<lambda>_. False, err_ledger_append = False,
     err_ledger_rewrite = False, clock_now = now\<rparr>"

definition is_symlink :: "fs \<Rightarrow> string \<Rightarrow> bool" where
  "is_symlink fs p = (case fs p of Some (Symlink _) \<Rightarrow> True | _ \<Rightarrow> False)"

definition is_regular_file :: "fs \<Rightarrow> string \<Rightarrow> bool" where
  "is_regular_file fs p = (case fs p of Some (Regular _) \<Rightarrow> True
     | Some (Symlink t) \<Rightarrow> (case fs t of Some (Regular _) \<Rightarrow> True | _ \<Rightarrow> False) | _ \<Rightarrow> False)"

definition fs_exists :: "fs \<Rightarrow> string \<Rightarrow> bool" where
  "fs_exists fs p = (case fs p of None \<Rightarrow> False | Some (Symlink t) \<Rightarrow> fs t \<noteq> None | _ \<Rightarrow> True)"

text \<open>The bytes a stream opened on the path reads; \<open>None\<close> when it is not a readable file.\<close>

definition file_contents :: "fs \<Rightarrow> string \<Rightarrow> bytes option" where
  "file_contents fs p = (case fs p of Some (Regular b) \<Rightarrow> Some b
     | Some (Symlink t) \<Rightarrow> (case fs t of Some (Regular b) \<Rightarrow> Some b | _ \<Rightarrow> None) | _ \<Rightarrow> None)"

text \<open>
  \<^verbatim>\<open>std::filesystem::rename\<close> (which replaces an existing target), \<^verbatim>\<open>copy_file\<close> with
  \<^verbatim>\<open>copy_options::none\<close> (an error when the target exists) and \<^verbatim>\<open>remove\<close> (no error when there is
  nothing to remove). The first component tells whether \<^verbatim>\<open>ec\<close> was set.
\<close>

definition fs_rename :: "fs_env \<Rightarrow> fs \<Rightarrow> string \<Rightarrow> string \<Rightarrow> bool \<times> fs" where
  "fs_rename env fs a b = (if err_rename env a b \<or> fs a = None then (True, fs)
     else if a = b then (False, fs) else (False, fs(b := fs a, a := None)))"

definition fs_copy :: "fs_env \<Rightarrow> fs \<Rightarrow> string \<Rightarrow> string \<Rightarrow> bool \<times> fs" where
  "fs_copy env fs a b = (if err_copy env a b \<or> fs b \<noteq> None then (True, fs)
     else case file_contents fs a of None \<Rightarrow> (True, fs) | Some c \<Rightarrow> (False, fs(b := Some (Regular c))))"

definition fs_remove :: "fs_env \<Rightarrow> fs \<Rightarrow> string \<Rightarrow> bool \<times> fs" where
  "fs_remove env fs p = (if err_remove env p then (True, fs) else (False, fs(p := None)))"

section \<open>Records and the ledger\<close>

record QuarantineRecord =
  qr_id :: u64
  qr_finding_id :: u64
  qr_original_path :: string
  qr_vault_path :: string
  qr_sha256_at_quarantine :: string
  qr_quarantined_at :: time_point
  qr_restored :: bool
  qr_shredded :: bool

record QuarantineExecutor =
  qx_vault_dir :: string
  qx_policy :: LocalSecurityPolicy
  qx_ledger :: "QuarantineRecord list"
  qx_next_id :: u64
  qx_ledger_file :: "string option"
  qx_fs :: fs

definition MAX_QUARANTINE_BYTES :: nat where "MAX_QUARANTINE_BYTES = 200 * 1024 * 1024"
definition MAX_LEDGER_RECORDS :: nat where "MAX_LEDGER_RECORDS = 5000"

definition int_to_string :: "int \<Rightarrow> string" where
  "int_to_string n = (if n < 0 then CHR ''-'' # to_string (nat (- n)) else to_string (nat n))"

text \<open>\<^verbatim>\<open>duration_cast<seconds>\<close> truncates towards zero.\<close>

definition epoch_seconds :: "time_point \<Rightarrow> int" where
  "epoch_seconds t = (if t < 0 then - ((- t) div seconds 1) else t div seconds 1)"

definition ledger_line :: "QuarantineRecord \<Rightarrow> string" where
  "ledger_line r = to_string (unat (qr_id r)) @ ''|'' @ to_string (unat (qr_finding_id r)) @ ''|'' @
     qr_original_path r @ ''|'' @ qr_vault_path r @ ''|'' @ qr_sha256_at_quarantine r @ ''|'' @
     int_to_string (epoch_seconds (qr_quarantined_at r)) @ ''|'' @
     (if qr_restored r then ''1'' else ''0'') @ ''|'' @ (if qr_shredded r then ''1'' else ''0'')"

definition has_unsafe_delimiter :: "string \<Rightarrow> bool" where
  "has_unsafe_delimiter value \<longleftrightarrow> find_char (CHR ''|'') value \<noteq> None \<or> find_char (CHR 0x0A) value \<noteq> None"

text \<open>The body of the ledger-loading loop; a field that does not parse skips the line.\<close>

definition parse_ledger_line :: "string \<Rightarrow> QuarantineRecord option" where
  "parse_ledger_line line =
     (let fields = split_on (CHR ''|'') line in
      if line = [] \<or> (length fields \<noteq> 7 \<and> length fields \<noteq> 8) then None
      else case (stoull (fields ! 0), stoull (fields ! 1), stoll (fields ! 5)) of
        (Some i, Some f, Some t) \<Rightarrow>
          Some \<lparr>qr_id = i, qr_finding_id = f, qr_original_path = fields ! 2, qr_vault_path = fields ! 3,
            qr_sha256_at_quarantine = fields ! 4, qr_quarantined_at = seconds t,
            qr_restored = (fields ! 6 = ''1''),
            qr_shredded = (if length fields \<ge> 8 then fields ! 7 = ''1'' else False)\<rparr>
      | _ \<Rightarrow> None)"

definition load_record :: "QuarantineExecutor \<Rightarrow> string \<Rightarrow> QuarantineExecutor" where
  "load_record x line = (case parse_ledger_line line of
     None \<Rightarrow> x
   | Some r \<Rightarrow> x\<lparr>qx_ledger := qx_ledger x @ [r],
       qx_next_id := (if qx_next_id x \<le> qr_id r then qr_id r + 1 else qx_next_id x)\<rparr>)"

definition load_ledger_locked :: "QuarantineExecutor \<Rightarrow> QuarantineExecutor" where
  "load_ledger_locked x = (case qx_ledger_file x of None \<Rightarrow> x
     | Some contents \<Rightarrow> foldl load_record x (getlines contents))"

definition QuarantineExecutor_new :: "string \<Rightarrow> LocalSecurityPolicy \<Rightarrow> string option \<Rightarrow> fs \<Rightarrow> QuarantineExecutor" where
  "QuarantineExecutor_new vault_dir policy ledger_file fs =
     load_ledger_locked \<lparr>qx_vault_dir = vault_dir, qx_policy = policy, qx_ledger = [], qx_next_id = 1,
       qx_ledger_file = ledger_file, qx_fs = fs\<rparr>"

definition append_ledger_locked :: "fs_env \<Rightarrow> QuarantineExecutor \<Rightarrow> QuarantineRecord \<Rightarrow> QuarantineExecutor" where
  "append_ledger_locked env x r = (if err_ledger_append env then x
     else x\<lparr>qx_ledger_file := Some ((case qx_ledger_file x of None \<Rightarrow> [] | Some s \<Rightarrow> s) @
            ledger_line r @ [CHR 0x0A])\<rparr>)"

definition rewrite_ledger_locked :: "fs_env \<Rightarrow> QuarantineExecutor \<Rightarrow> QuarantineExecutor" where
  "rewrite_ledger_locked env x = (if err_ledger_rewrite env then x
     else x\<lparr>qx_ledger_file := Some (concat (map (\<lambda>r. ledger_line r @ [CHR 0x0A]) (qx_ledger x)))\<rparr>)"

section \<open>Quarantine, restore, shred\<close>

definition vault_path_for :: "QuarantineExecutor \<Rightarrow> u64 \<Rightarrow> string" where
  "vault_path_for x i = qx_vault_dir x @ ''/q_'' @ to_string (unat i) @ ''.gcadq''"

text \<open>Moving the file: rename, or copy and remove; \<open>True\<close> when the move failed.\<close>

definition move_to_vault :: "fs_env \<Rightarrow> fs \<Rightarrow> string \<Rightarrow> string \<Rightarrow> bool \<times> fs" where
  "move_to_vault env fs target vault_path =
     (case fs_rename env fs target vault_path of
        (False, fs1) \<Rightarrow> (False, fs1)
      | (True, fs1) \<Rightarrow>
          (case fs_copy env fs1 target vault_path of
             (True, fs2) \<Rightarrow> (True, fs2)
           | (False, fs2) \<Rightarrow>
               (case fs_remove env fs2 target of
                  (False, fs3) \<Rightarrow> (False, fs3)
                | (True, fs3) \<Rightarrow> (True, snd (fs_remove env fs3 vault_path)))))"

definition quarantine :: "fs_env \<Rightarrow> QuarantineExecutor \<Rightarrow> RemediationCandidate \<Rightarrow>
    ErrorCode \<times> QuarantineRecord option \<times> QuarantineExecutor" where
  "quarantine env x candidate =
     (let target = cand_target_path candidate; fs = qx_fs x in
      if cand_approval_state candidate \<noteq> APPROVED then (ERR_QUARANTINE_DENIED, None, x)
      else if target = [] then (ERR_QUARANTINE_DENIED, None, x)
      else if has_unsafe_delimiter target then (ERR_QUARANTINE_DENIED, None, x)
      else if is_protected_path target (qx_policy x) then (ERR_QUARANTINE_DENIED, None, x)
      else if is_symlink fs target \<or> err_status env target then (ERR_QUARANTINE_DENIED, None, x)
      else if \<not> is_regular_file fs target then (ERR_QUARANTINE_DENIED, None, x)
      else case file_contents fs target of None \<Rightarrow> (ERR_QUARANTINE_DENIED, None, x)
      | Some contents \<Rightarrow>
        if length contents = 0 \<or> MAX_QUARANTINE_BYTES < length contents then (ERR_QUARANTINE_DENIED, None, x)
        else let current_hash = sha256_hash_file (if cannot_open env target then None else Some contents) in
          if current_hash = [] then (ERR_QUARANTINE_DENIED, None, x)
          else if cand_expected_sha256 candidate \<noteq> [] \<and> current_hash \<noteq> cand_expected_sha256 candidate
            then (ERR_QUARANTINE_DENIED, None, x)
          else if MAX_LEDGER_RECORDS \<le> length (qx_ledger x) then (ERR_QUARANTINE_FULL, None, x)
          else
            let i = qx_next_id x; x1 = x\<lparr>qx_next_id := i + 1\<rparr>; vault_path = vault_path_for x i;
                (failed, fs') = move_to_vault env fs target vault_path; x2 = x1\<lparr>qx_fs := fs'\<rparr> in
            if failed then (ERR_QUARANTINE_DENIED, None, x2)
            else let record = \<lparr>qr_id = i, qr_finding_id = cand_finding_id candidate,
                   qr_original_path = target, qr_vault_path = vault_path,
                   qr_sha256_at_quarantine = current_hash, qr_quarantined_at = clock_now env,
                   qr_restored = False, qr_shredded = False\<rparr>
              in (OK, Some record, append_ledger_locked env (x2\<lparr>qx_ledger := qx_ledger x2 @ [record]\<rparr>) record))"

text \<open>The first ledger position with the given id, as the loops over \<^verbatim>\<open>ledger_\<close> find it.\<close>

fun ledger_index :: "QuarantineRecord list \<Rightarrow> u64 \<Rightarrow> nat option" where
  "ledger_index [] i = None"
| "ledger_index (r # rs) i = (if qr_id r \<noteq> i then map_option Suc (ledger_index rs i) else Some 0)"

text \<open>Moving the file back: rename, or copy and a remove whose outcome is ignored; \<open>None\<close> when it failed.\<close>

definition move_from_vault :: "fs_env \<Rightarrow> fs \<Rightarrow> string \<Rightarrow> string \<Rightarrow> fs option" where
  "move_from_vault env fs vault original =
     (case fs_rename env fs vault original of
        (False, fs1) \<Rightarrow> Some fs1
      | (True, fs1) \<Rightarrow> (case fs_copy env fs1 vault original of
           (True, _) \<Rightarrow> None
         | (False, fs2) \<Rightarrow> Some (snd (fs_remove env fs2 vault))))"

definition restore :: "fs_env \<Rightarrow> QuarantineExecutor \<Rightarrow> u64 \<Rightarrow> ErrorCode \<times> QuarantineExecutor" where
  "restore env x record_id =
     (case ledger_index (qx_ledger x) record_id of
        None \<Rightarrow> (ERR_NOT_FOUND, x)
      | Some k \<Rightarrow>
          let r = qx_ledger x ! k; fs = qx_fs x; original = qr_original_path r; vault = qr_vault_path r in
          if qr_shredded r then (ERR_ROLLBACK_FAIL, x)
          else if qr_restored r then (OK, x)
          else if fs_exists fs original then (ERR_ROLLBACK_FAIL, x)
          else if \<not> fs_exists fs vault then (ERR_ROLLBACK_FAIL, x)
          else
            (case move_from_vault env fs vault original of
               None \<Rightarrow> (ERR_ROLLBACK_FAIL, x)
             | Some fs' \<Rightarrow>
                 (OK, rewrite_ledger_locked env
                        (x\<lparr>qx_fs := fs', qx_ledger := (qx_ledger x)[k := r\<lparr>qr_restored := True\<rparr>]\<rparr>))))"

text \<open>
  Shredding: the vault file is overwritten with zero bytes when it can be opened, then removed; the
  outcomes of both are ignored and the record is marked shredded.
\<close>

definition shred_file :: "fs_env \<Rightarrow> fs \<Rightarrow> string \<Rightarrow> fs" where
  "shred_file env fs p =
     (if fs_exists fs p then
        let fs1 = (case fs p of
                     Some (Regular b) \<Rightarrow> (if \<not> err_status env p \<and> 0 < length b \<and> \<not> cannot_open env p
                       then fs(p \<mapsto> Regular (replicate (length b) 0)) else fs)
                   | _ \<Rightarrow> fs)
        in snd (fs_remove env fs1 p)
      else fs)"

definition shred :: "fs_env \<Rightarrow> QuarantineExecutor \<Rightarrow> u64 \<Rightarrow> ErrorCode \<times> QuarantineExecutor" where
  "shred env x record_id =
     (case ledger_index (qx_ledger x) record_id of
        None \<Rightarrow> (ERR_NOT_FOUND, x)
      | Some k \<Rightarrow>
          let r = qx_ledger x ! k in
          if qr_shredded r then (OK, x)
          else if qr_restored r then (ERR_NOT_FOUND, x)
          else (OK, rewrite_ledger_locked env
                 (x\<lparr>qx_fs := shred_file env (qx_fs x) (qr_vault_path r),
                    qx_ledger := (qx_ledger x)[k := r\<lparr>qr_shredded := True\<rparr>]\<rparr>)))"

definition records :: "QuarantineExecutor \<Rightarrow> nat \<Rightarrow> QuarantineRecord list" where
  "records x n = last_n n (qx_ledger x)"

section \<open>Moving files\<close>

lemma move_ok:
  assumes "move_to_vault env fs t v = (False, fs')" "t \<noteq> v" "fs t = Some (Regular c)"
  shows "fs' = fs(v \<mapsto> Regular c, t := None)"
  using assms
  by (auto simp: move_to_vault_def fs_rename_def fs_copy_def fs_remove_def file_contents_def fun_upd_twist
      split: if_splits prod.splits bool.splits option.splits)

lemma move_fails:
  assumes "move_to_vault env fs t v = (True, fs')" "t \<noteq> v" "p \<noteq> v \<or> fs v \<noteq> None"
  shows "fs' p = fs p"
  using assms
  by (auto simp: move_to_vault_def fs_rename_def fs_copy_def fs_remove_def
      split: if_splits prod.splits bool.splits option.splits)

lemma append_ledger_fields [simp]:
  "qx_fs (append_ledger_locked env x r) = qx_fs x" "qx_ledger (append_ledger_locked env x r) = qx_ledger x"
  "qx_next_id (append_ledger_locked env x r) = qx_next_id x" "qx_policy (append_ledger_locked env x r) = qx_policy x"
  "qx_vault_dir (append_ledger_locked env x r) = qx_vault_dir x"
  by (simp_all add: append_ledger_locked_def)

lemma rewrite_ledger_fields [simp]:
  "qx_fs (rewrite_ledger_locked env x) = qx_fs x" "qx_ledger (rewrite_ledger_locked env x) = qx_ledger x"
  "qx_next_id (rewrite_ledger_locked env x) = qx_next_id x" "qx_policy (rewrite_ledger_locked env x) = qx_policy x"
  "qx_vault_dir (rewrite_ledger_locked env x) = qx_vault_dir x"
  by (simp_all add: rewrite_ledger_locked_def)

lemma sha256_hash_file_nonempty: "sha256_hash_file (Some c) \<noteq> []"
proof -
  have "length (sha256_hash_file (Some c)) = 64" by (simp add: sha256_hash_file_def)
  then show ?thesis by auto
qed

lemma sha256_hash_file_eq: "sha256_hash_file (Some c) = sha256_hash_bytes c"
  by (simp add: sha256_hash_file_def sha256_hash_bytes_def hash_chunks_eq)

section \<open>Quarantine\<close>

text \<open>Everything the checks establish before the file is moved.\<close>

definition may_quarantine :: "fs_env \<Rightarrow> QuarantineExecutor \<Rightarrow> RemediationCandidate \<Rightarrow> bytes \<Rightarrow> bool" where
  "may_quarantine env x c contents \<longleftrightarrow>
     cand_approval_state c = APPROVED \<and> cand_target_path c \<noteq> [] \<and>
     \<not> has_unsafe_delimiter (cand_target_path c) \<and> \<not> is_protected_path (cand_target_path c) (qx_policy x) \<and>
     qx_fs x (cand_target_path c) = Some (Regular contents) \<and>
     0 < length contents \<and> length contents \<le> MAX_QUARANTINE_BYTES \<and>
     \<not> err_status env (cand_target_path c) \<and> \<not> cannot_open env (cand_target_path c) \<and>
     (cand_expected_sha256 c = [] \<or> sha256_hash_bytes contents = cand_expected_sha256 c) \<and>
     length (qx_ledger x) < MAX_LEDGER_RECORDS"

lemma quarantine_cases:
  obtains (denied) code where "quarantine env x c = (code, None, x)" "code \<noteq> OK" "\<nexists>b. may_quarantine env x c b"
  | (moved) b fs' where "may_quarantine env x c b"
      "move_to_vault env (qx_fs x) (cand_target_path c) (vault_path_for x (qx_next_id x)) = (False, fs')"
      "quarantine env x c =
        (let r = \<lparr>qr_id = qx_next_id x, qr_finding_id = cand_finding_id c,
             qr_original_path = cand_target_path c, qr_vault_path = vault_path_for x (qx_next_id x),
             qr_sha256_at_quarantine = sha256_hash_bytes b, qr_quarantined_at = clock_now env,
             qr_restored = False, qr_shredded = False\<rparr>
         in (OK, Some r, append_ledger_locked env
               (x\<lparr>qx_next_id := qx_next_id x + 1, qx_fs := fs', qx_ledger := qx_ledger x @ [r]\<rparr>) r))"
  | (failed) b fs' where "may_quarantine env x c b"
      "move_to_vault env (qx_fs x) (cand_target_path c) (vault_path_for x (qx_next_id x)) = (True, fs')"
      "quarantine env x c = (ERR_QUARANTINE_DENIED, None, x\<lparr>qx_next_id := qx_next_id x + 1, qx_fs := fs'\<rparr>)"
proof (cases "\<exists>b. may_quarantine env x c b")
  case False
  have "\<exists>code. quarantine env x c = (code, None, x) \<and> code \<noteq> OK"
  proof (cases "qx_fs x (cand_target_path c)")
    case None
    then show ?thesis
      by (simp add: quarantine_def Let_def is_regular_file_def)
  next
    case (Some node)
    show ?thesis
    proof (cases node)
      case (Regular b)
      have "\<not> may_quarantine env x c b" using False by blast
      then show ?thesis
        using Some Regular sha256_hash_file_nonempty [of b]
        by (auto simp: quarantine_def Let_def is_symlink_def is_regular_file_def file_contents_def
            may_quarantine_def sha256_hash_file_eq not_le not_less sha256_hash_file_def [of None])
    qed (use Some in \<open>simp_all add: quarantine_def Let_def is_symlink_def is_regular_file_def\<close>)
  qed
  with False denied show ?thesis by blast
next
  case True
  then obtain b where b: "may_quarantine env x c b" ..
  let ?mv = "move_to_vault env (qx_fs x) (cand_target_path c) (vault_path_for x (qx_next_id x))"
  obtain f fs' where mv: "?mv = (f, fs')" by fastforce
  have nonempty: "sha256_hash_bytes b \<noteq> []"
    using sha256_hash_file_nonempty [of b] by (simp add: sha256_hash_file_eq)
  show ?thesis
  proof (cases f)
    case True
    with mv b nonempty show ?thesis
      by (intro failed [of b fs'])
        (auto simp: quarantine_def Let_def is_symlink_def is_regular_file_def file_contents_def
            may_quarantine_def sha256_hash_file_eq)
  next
    case False
    with mv b nonempty show ?thesis
      by (intro moved [of b fs'])
        (auto simp: quarantine_def Let_def is_symlink_def is_regular_file_def file_contents_def
            may_quarantine_def sha256_hash_file_eq)
  qed
qed

lemma quarantine_OK:
  assumes "quarantine env x c = (OK, ro, x')" "cand_target_path c \<noteq> vault_path_for x (qx_next_id x)"
  shows "\<exists>b r. may_quarantine env x c b \<and> ro = Some r \<and> qr_id r = qx_next_id x \<and>
    qr_finding_id r = cand_finding_id c \<and> qr_original_path r = cand_target_path c \<and>
    qr_vault_path r = vault_path_for x (qx_next_id x) \<and> qr_sha256_at_quarantine r = sha256_hash_bytes b \<and>
    \<not> qr_restored r \<and> \<not> qr_shredded r \<and> qr_quarantined_at r = clock_now env \<and>
    qx_ledger x' = qx_ledger x @ [r] \<and> qx_next_id x' = qx_next_id x + 1 \<and>
    qx_fs x' = (qx_fs x)(qr_vault_path r \<mapsto> Regular b, cand_target_path c := None)"
  by (cases rule: quarantine_cases [where env = env and x = x and c = c])
    (use assms move_ok in \<open>auto simp: Let_def may_quarantine_def\<close>)

lemma quarantine_not_OK:
  assumes "quarantine env x c = (code, ro, x')" "code \<noteq> OK"
    "cand_target_path c \<noteq> vault_path_for x (qx_next_id x)"
  shows "ro = None \<and> qx_ledger x' = qx_ledger x \<and> qx_ledger_file x' = qx_ledger_file x \<and>
    (\<forall>p. p \<noteq> vault_path_for x (qx_next_id x) \<or> qx_fs x p \<noteq> None \<longrightarrow> qx_fs x' p = qx_fs x p)"
proof (cases rule: quarantine_cases [where env = env and x = x and c = c])
  case (denied code)
  with assms show ?thesis by simp
next
  case (moved b fs')
  with assms show ?thesis by (simp add: Let_def)
next
  case (failed b fs')
  then have "qx_fs x' = fs'" "qx_ledger x' = qx_ledger x" "qx_ledger_file x' = qx_ledger_file x" "ro = None"
    using assms(1) by auto
  moreover have "fs' p = qx_fs x p" if "p \<noteq> vault_path_for x (qx_next_id x) \<or> qx_fs x p \<noteq> None" for p
    using move_fails [OF failed(2) assms(3), of p] that
    by (cases "p = vault_path_for x (qx_next_id x)") auto
  ultimately show ?thesis by simp
qed

section \<open>Restore undoes quarantine\<close>

lemma ledger_index_append:
  "\<forall>r \<in> set rs. qr_id r \<noteq> i \<Longrightarrow> ledger_index (rs @ [r]) i = (if qr_id r = i then Some (length rs) else None)"
  by (induction rs) auto

lemma ledger_index_Some:
  "ledger_index rs i = Some k \<Longrightarrow> k < length rs \<and> qr_id (rs ! k) = i"
  by (induction rs i arbitrary: k rule: ledger_index.induct) (auto split: if_splits)

lemma restore_after_quarantine:
  assumes q: "quarantine env x c = (OK, Some r, x1)"
    and fresh: "\<forall>r' \<in> set (qx_ledger x). qr_id r' \<noteq> qx_next_id x"
    and ne: "cand_target_path c \<noteq> vault_path_for x (qx_next_id x)"
    and vault: "qx_fs x (vault_path_for x (qx_next_id x)) = None"
    and fine: "\<not> err_rename env' (qr_vault_path r) (qr_original_path r)"
  shows "fst (restore env' x1 (qr_id r)) = OK" "qx_fs (snd (restore env' x1 (qr_id r))) = qx_fs x"
proof -
  obtain b where b: "may_quarantine env x c b" and i: "qr_id r = qx_next_id x"
    and org: "qr_original_path r = cand_target_path c" and v: "qr_vault_path r = vault_path_for x (qx_next_id x)"
    and flags: "\<not> qr_restored r" "\<not> qr_shredded r" and led: "qx_ledger x1 = qx_ledger x @ [r]"
    and fs: "qx_fs x1 = (qx_fs x)(qr_vault_path r \<mapsto> Regular b, cand_target_path c := None)"
    using quarantine_OK [OF q ne] by auto
  have k: "ledger_index (qx_ledger x1) (qr_id r) = Some (length (qx_ledger x))"
    using ledger_index_append [of "qx_ledger x" "qr_id r" r] fresh i led by simp
  have r: "qx_ledger x1 ! length (qx_ledger x) = r" by (simp add: led)
  have ex: "\<not> fs_exists (qx_fs x1) (qr_original_path r)" "fs_exists (qx_fs x1) (qr_vault_path r)"
    using ne by (simp_all add: fs_exists_def fs org v)
  have rn: "move_from_vault env' (qx_fs x1) (qr_vault_path r) (qr_original_path r) =
      Some ((qx_fs x1)(qr_original_path r \<mapsto> Regular b, qr_vault_path r := None))"
    using fine ne by (simp add: move_from_vault_def fs_rename_def fs org v)
  have bk: "(qx_fs x1)(qr_original_path r \<mapsto> Regular b, qr_vault_path r := None) = qx_fs x"
    using b ne vault by (auto simp: fs org v may_quarantine_def fun_upd_def fun_eq_iff)
  show "fst (restore env' x1 (qr_id r)) = OK" "qx_fs (snd (restore env' x1 (qr_id r))) = qx_fs x"
    using k r ex rn bk flags by (simp_all add: restore_def Let_def)
qed

lemma move_from_vault_other:
  "move_from_vault env fs v org = Some fs' \<Longrightarrow> p \<noteq> v \<Longrightarrow> p \<noteq> org \<Longrightarrow> fs' p = fs p"
  by (auto simp: move_from_vault_def fs_rename_def fs_copy_def fs_remove_def
      split: if_splits prod.splits bool.splits option.splits)

lemma restore_keeps_occupied:
  assumes "restore env x i = (code, x')" "p \<in> dom (qx_fs x)"
    "\<forall>r \<in> set (qx_ledger x). qr_id r = i \<longrightarrow> p \<noteq> qr_vault_path r"
    "\<nexists>t. qx_fs x p = Some (Symlink t)"
  shows "qx_fs x' p = qx_fs x p"
proof (cases "ledger_index (qx_ledger x) i")
  case None
  then show ?thesis using assms(1) by (simp add: restore_def)
next
  case (Some k)
  let ?r = "qx_ledger x ! k"
  have k: "k < length (qx_ledger x)" "qr_id ?r = i" using ledger_index_Some [OF Some] by auto
  then have pv: "p \<noteq> qr_vault_path ?r" using assms(3) by simp
  show ?thesis
  proof (cases "p = qr_original_path ?r")
    case True
    then have "fs_exists (qx_fs x) (qr_original_path ?r)"
      using assms(2,4) by (auto simp: fs_exists_def split: option.splits fs_node.splits)
    then show ?thesis using assms(1) Some by (auto simp: restore_def Let_def split: if_splits)
  next
    case False
    then show ?thesis
      using assms(1) Some pv by (auto simp: restore_def Let_def move_from_vault_other split: if_splits option.splits)
  qed
qed

section \<open>The ledger file\<close>

lemma to_string_clean: "CHR ''|'' \<notin> set (to_string n)" "CHR 0x0A \<notin> set (to_string n)"
  using to_string_digits is_digit_not_special(4,5) by blast+

lemma int_to_string_clean: "CHR ''|'' \<notin> set (int_to_string n)" "CHR 0x0A \<notin> set (int_to_string n)"
  by (simp_all add: int_to_string_def to_string_clean)

lemma stoll_int_to_string:
  assumes "- (2 ^ 63) \<le> n" "n < 2 ^ 63"
  shows "stoll (int_to_string n) = Some n"
proof (cases "n < 0")
  case False
  then show ?thesis using assms by (simp add: int_to_string_def stoll_def)
next
  case True
  let ?m = "nat (- n)"
  have "dropWhile is_space (CHR ''-'' # to_string ?m) = CHR ''-'' # to_string ?m"
    by (simp add: is_space_def)
  then have "strto_int (CHR ''-'' # to_string ?m) = Some (- int ?m)"
    by (simp add: strto_int_def takeWhile_to_string Let_def)
  then show ?thesis using True assms by (simp add: int_to_string_def stoll_def)
qed

definition record_clean :: "QuarantineRecord \<Rightarrow> bool" where
  "record_clean r \<longleftrightarrow> \<not> has_unsafe_delimiter (qr_original_path r) \<and> \<not> has_unsafe_delimiter (qr_vault_path r) \<and>
     \<not> has_unsafe_delimiter (qr_sha256_at_quarantine r) \<and>
     - (2 ^ 63) \<le> epoch_seconds (qr_quarantined_at r) \<and> epoch_seconds (qr_quarantined_at r) < 2 ^ 63"

text \<open>What reloading keeps of a record: the time is cut to whole seconds.\<close>

definition reloaded :: "QuarantineRecord \<Rightarrow> QuarantineRecord" where
  "reloaded r = r\<lparr>qr_quarantined_at := seconds (epoch_seconds (qr_quarantined_at r))\<rparr>"

lemma ledger_line_no_newline: "record_clean r \<Longrightarrow> CHR 0x0A \<notin> set (ledger_line r)"
  by (auto simp: ledger_line_def record_clean_def has_unsafe_delimiter_def to_string_clean int_to_string_clean)

lemma parse_ledger_line_print:
  assumes "record_clean r"
  shows "parse_ledger_line (ledger_line r) = Some (reloaded r)"
proof -
  let ?flag = "\<lambda>b. if b then ''1'' else ''0''"
  have flag: "CHR ''|'' \<notin> set (?flag b)" for b by simp
  have clean: "CHR ''|'' \<notin> set (qr_original_path r)" "CHR ''|'' \<notin> set (qr_vault_path r)"
    "CHR ''|'' \<notin> set (qr_sha256_at_quarantine r)"
    using assms by (simp_all add: record_clean_def has_unsafe_delimiter_def)
  have line: "ledger_line r = to_string (unat (qr_id r)) @ CHR ''|'' # to_string (unat (qr_finding_id r)) @
      CHR ''|'' # qr_original_path r @ CHR ''|'' # qr_vault_path r @ CHR ''|'' # qr_sha256_at_quarantine r @
      CHR ''|'' # int_to_string (epoch_seconds (qr_quarantined_at r)) @ CHR ''|'' # ?flag (qr_restored r) @
      CHR ''|'' # ?flag (qr_shredded r)"
    by (simp add: ledger_line_def)
  have split: "split_on (CHR ''|'') (ledger_line r) = [to_string (unat (qr_id r)), to_string (unat (qr_finding_id r)),
      qr_original_path r, qr_vault_path r, qr_sha256_at_quarantine r,
      int_to_string (epoch_seconds (qr_quarantined_at r)), ?flag (qr_restored r), ?flag (qr_shredded r)]"
    unfolding line
    by (simp add: split_on_append_sep split_on_no_sep to_string_clean int_to_string_clean clean)
  have "stoll (int_to_string (epoch_seconds (qr_quarantined_at r))) = Some (epoch_seconds (qr_quarantined_at r))"
    using assms by (intro stoll_int_to_string) (simp_all add: record_clean_def)
  then show ?thesis
    unfolding parse_ledger_line_def split Let_def
    by (simp add: reloaded_def line)
qed

definition ledger_text :: "QuarantineRecord list \<Rightarrow> string" where
  "ledger_text rs = concat (map (\<lambda>r. ledger_line r @ [CHR 0x0A]) rs)"

lemma getlines_ledger_text:
  assumes "\<forall>r \<in> set rs. record_clean r"
  shows "getlines (ledger_text rs) = map ledger_line rs"
proof -
  have eq: "ledger_text rs = concat (map (\<lambda>l. l @ [CHR 0x0A]) (map ledger_line rs))"
    by (simp add: ledger_text_def comp_def)
  show ?thesis unfolding eq by (rule getlines_concat) (use assms ledger_line_no_newline in auto)
qed

lemma foldl_load_record_ledger:
  "\<forall>r \<in> set rs. record_clean r \<Longrightarrow>
     qx_ledger (foldl load_record x (map ledger_line rs)) = qx_ledger x @ map reloaded rs"
  by (induction rs arbitrary: x) (auto simp: load_record_def parse_ledger_line_print)

lemma unat_suc: "unat (w :: u64) + 1 < 2 ^ 64 \<Longrightarrow> unat (w + 1) = unat w + 1"
  by (simp add: unat_word_ariths)

lemma foldl_load_record_next:
  "\<forall>r \<in> set rs. record_clean r \<and> unat (qr_id r) + 1 < 2 ^ 64 \<Longrightarrow>
     qx_next_id x \<le> qx_next_id (foldl load_record x (map ledger_line rs)) \<and>
     (\<forall>r \<in> set rs. qr_id r < qx_next_id (foldl load_record x (map ledger_line rs)))"
proof (induction rs arbitrary: x)
  case Nil
  then show ?case by simp
next
  case (Cons r rs)
  let ?x = "load_record x (ledger_line r)"
  have "unat (qr_id r + 1) = unat (qr_id r) + 1" using Cons.prems by (simp add: unat_suc)
  then have lt: "qr_id r < qr_id r + 1" by (simp add: word_less_nat_alt)
  have "qx_next_id x \<le> qx_next_id ?x" "qr_id r < qx_next_id ?x"
    using Cons.prems lt by (auto simp: load_record_def parse_ledger_line_print reloaded_def not_le)
  with Cons.IH [of ?x] Cons.prems show ?case by fastforce
qed

section \<open>Life of the ledger\<close>

text \<open>
  The executor's operations as a step relation over every environment, and changes of the file
  system by other programs.
\<close>

inductive qx_step :: "QuarantineExecutor \<Rightarrow> QuarantineExecutor \<Rightarrow> bool" where
  step_quarantine: "qx_step x (snd (snd (quarantine env x c)))"
| step_restore: "qx_step x (snd (restore env x i))"
| step_shred: "qx_step x (snd (shred env x i))"
| step_other: "qx_step x (x\<lparr>qx_fs := fs'\<rparr>)"

text \<open>
  Record ids are distinct and below the next id, the ledger is bounded, and no record is both
  restored and shredded.
\<close>

definition qx_inv :: "QuarantineExecutor \<Rightarrow> bool" where
  "qx_inv x \<longleftrightarrow> distinct (map qr_id (qx_ledger x)) \<and> (\<forall>r \<in> set (qx_ledger x). unat (qr_id r) < unat (qx_next_id x)) \<and>
     length (qx_ledger x) \<le> MAX_LEDGER_RECORDS \<and>
     (\<forall>r \<in> set (qx_ledger x). \<not> (qr_restored r \<and> qr_shredded r))"

text \<open>A later ledger extends an earlier one; marks are never taken back, identities never change.\<close>

definition ledger_extends :: "QuarantineRecord list \<Rightarrow> QuarantineRecord list \<Rightarrow> bool" where
  "ledger_extends rs rs' \<longleftrightarrow> length rs \<le> length rs' \<and>
     (\<forall>k < length rs. qr_id (rs' ! k) = qr_id (rs ! k) \<and> qr_original_path (rs' ! k) = qr_original_path (rs ! k) \<and>
        qr_vault_path (rs' ! k) = qr_vault_path (rs ! k) \<and>
        qr_sha256_at_quarantine (rs' ! k) = qr_sha256_at_quarantine (rs ! k) \<and>
        (qr_restored (rs ! k) \<longrightarrow> qr_restored (rs' ! k)) \<and> (qr_shredded (rs ! k) \<longrightarrow> qr_shredded (rs' ! k)))"

lemma ledger_extends_refl: "ledger_extends rs rs"
  by (simp add: ledger_extends_def)

lemma ledger_extends_trans: "ledger_extends a b \<Longrightarrow> ledger_extends b c \<Longrightarrow> ledger_extends a c"
  by (fastforce simp: ledger_extends_def)

lemma ledger_extends_append: "ledger_extends rs (rs @ [r])"
  by (simp add: ledger_extends_def nth_append)

lemma ledger_extends_restored: "k < length rs \<Longrightarrow> ledger_extends rs (rs[k := (rs ! k)\<lparr>qr_restored := True\<rparr>])"
  by (auto simp: ledger_extends_def nth_list_update)

lemma ledger_extends_shredded: "k < length rs \<Longrightarrow> ledger_extends rs (rs[k := (rs ! k)\<lparr>qr_shredded := True\<rparr>])"
  by (auto simp: ledger_extends_def nth_list_update)

lemma quarantine_ledger_cases:
  "qx_ledger (snd (snd (quarantine env x c))) = qx_ledger x \<and>
     qx_next_id (snd (snd (quarantine env x c))) \<in> {qx_next_id x, qx_next_id x + 1} \<or>
   (\<exists>r. qx_ledger (snd (snd (quarantine env x c))) = qx_ledger x @ [r] \<and> qr_id r = qx_next_id x \<and>
     \<not> qr_restored r \<and> \<not> qr_shredded r \<and> length (qx_ledger x) < MAX_LEDGER_RECORDS \<and>
     qx_next_id (snd (snd (quarantine env x c))) = qx_next_id x + 1)"
  by (cases rule: quarantine_cases [where env = env and x = x and c = c])
    (auto simp: Let_def may_quarantine_def)

lemma restore_ledger_cases:
  "qx_next_id (snd (restore env x i)) = qx_next_id x \<and>
   (qx_ledger (snd (restore env x i)) = qx_ledger x \<or>
    (\<exists>k < length (qx_ledger x). \<not> qr_shredded (qx_ledger x ! k) \<and>
      qx_ledger (snd (restore env x i)) = (qx_ledger x)[k := (qx_ledger x ! k)\<lparr>qr_restored := True\<rparr>]))"
  using ledger_index_Some [of "qx_ledger x" i]
  by (cases "ledger_index (qx_ledger x) i") (auto simp: restore_def Let_def split: option.splits)

lemma shred_ledger_cases:
  "qx_next_id (snd (shred env x i)) = qx_next_id x \<and>
   (qx_ledger (snd (shred env x i)) = qx_ledger x \<or>
    (\<exists>k < length (qx_ledger x). \<not> qr_restored (qx_ledger x ! k) \<and>
      qx_ledger (snd (shred env x i)) = (qx_ledger x)[k := (qx_ledger x ! k)\<lparr>qr_shredded := True\<rparr>]))"
  using ledger_index_Some [of "qx_ledger x" i]
  by (cases "ledger_index (qx_ledger x) i") (auto simp: shred_def Let_def)

lemma map_qr_id_mark: "k < length rs \<Longrightarrow> qr_id r' = qr_id (rs ! k) \<Longrightarrow> map qr_id (rs[k := r']) = map qr_id rs"
  by (metis list_update_id map_update nth_map length_map)

lemma qx_inv_mark:
  assumes "qx_inv x" "k < length (qx_ledger x)" "qr_id r' = qr_id (qx_ledger x ! k)"
    "\<not> (qr_restored r' \<and> qr_shredded r')" "qx_ledger y = (qx_ledger x)[k := r']" "qx_next_id y = qx_next_id x"
  shows "qx_inv y"
proof -
  have "set (qx_ledger y) \<subseteq> insert r' (set (qx_ledger x))" using assms(5) by (simp add: set_update_subset_insert)
  moreover have "unat (qr_id r') < unat (qx_next_id x)" using assms(1-3) by (simp add: qx_inv_def)
  ultimately show ?thesis
    using assms(1,2,4,5,6) map_qr_id_mark [OF assms(2,3)] by (auto simp: qx_inv_def)
qed

lemma qx_step_extends: "qx_step x y \<Longrightarrow> ledger_extends (qx_ledger x) (qx_ledger y)"
proof (induction rule: qx_step.induct)
  case (step_quarantine x env c)
  then show ?case
    using quarantine_ledger_cases [of env x c] ledger_extends_refl ledger_extends_append by metis
next
  case (step_restore x env i)
  then show ?case
    using restore_ledger_cases [of env x i] ledger_extends_refl ledger_extends_restored by metis
next
  case (step_shred x env i)
  then show ?case
    using shred_ledger_cases [of env x i] ledger_extends_refl ledger_extends_shredded by metis
qed (simp add: ledger_extends_refl)

lemma unat_suc_le: "unat (w + 1 :: u64) \<le> unat w + 1"
  by (simp add: unat_word_ariths mod_less_eq_dividend [THEN le_trans])

lemma qx_step_next_id: "qx_step x y \<Longrightarrow> unat (qx_next_id y) \<le> unat (qx_next_id x) + 1"
proof (induction rule: qx_step.induct)
  case (step_quarantine x env c)
  have "qx_next_id (snd (snd (quarantine env x c))) \<in> {qx_next_id x, qx_next_id x + 1}"
    using quarantine_ledger_cases [of env x c] by auto
  then show ?case using unat_suc_le [of "qx_next_id x"] by auto
qed (use restore_ledger_cases shred_ledger_cases in \<open>auto simp: le_SucI\<close>)

lemma qx_step_inv:
  assumes "qx_step x y" "qx_inv x" "unat (qx_next_id x) + 1 < 2 ^ 64"
  shows "qx_inv y"
  using assms
proof (induction rule: qx_step.induct)
  case (step_quarantine x env c)
  let ?y = "snd (snd (quarantine env x c))"
  have suc: "unat (qx_next_id x + 1) = unat (qx_next_id x) + 1"
    using step_quarantine.prems(2) by (rule unat_suc)
  consider "qx_ledger ?y = qx_ledger x" "unat (qx_next_id x) \<le> unat (qx_next_id ?y)"
    | r where "qx_ledger ?y = qx_ledger x @ [r]" "qr_id r = qx_next_id x" "\<not> qr_restored r"
        "length (qx_ledger x) < MAX_LEDGER_RECORDS" "qx_next_id ?y = qx_next_id x + 1"
    using quarantine_ledger_cases [of env x c] suc by auto
  then show ?case
    using step_quarantine.prems(1) suc by cases (force simp: qx_inv_def)+
next
  case (step_restore x env i)
  let ?y = "snd (restore env x i)"
  have n: "qx_next_id ?y = qx_next_id x" using restore_ledger_cases [of env x i] by simp
  consider "qx_ledger ?y = qx_ledger x"
    | k where "k < length (qx_ledger x)" "\<not> qr_shredded (qx_ledger x ! k)"
        "qx_ledger ?y = (qx_ledger x)[k := (qx_ledger x ! k)\<lparr>qr_restored := True\<rparr>]"
    using restore_ledger_cases [of env x i] by blast
  then show ?case
  proof cases
    case 1
    then show ?thesis using step_restore.prems(1) n by (simp add: qx_inv_def)
  next
    case 2
    then show ?thesis using n by (intro qx_inv_mark [OF step_restore.prems(1) 2(1) _ _ 2(3) n]) simp_all
  qed
next
  case (step_shred x env i)
  let ?y = "snd (shred env x i)"
  have n: "qx_next_id ?y = qx_next_id x" using shred_ledger_cases [of env x i] by simp
  consider "qx_ledger ?y = qx_ledger x"
    | k where "k < length (qx_ledger x)" "\<not> qr_restored (qx_ledger x ! k)"
        "qx_ledger ?y = (qx_ledger x)[k := (qx_ledger x ! k)\<lparr>qr_shredded := True\<rparr>]"
    using shred_ledger_cases [of env x i] by blast
  then show ?case
  proof cases
    case 1
    then show ?thesis using step_shred.prems(1) n by (simp add: qx_inv_def)
  next
    case 2
    then show ?thesis using n by (intro qx_inv_mark [OF step_shred.prems(1) 2(1) _ _ 2(3) n]) simp_all
  qed
qed (simp add: qx_inv_def)

lemma qx_steps:
  assumes "(qx_step ^^ n) x y" "qx_inv x" "unat (qx_next_id x) + n < 2 ^ 64"
  shows "qx_inv y \<and> ledger_extends (qx_ledger x) (qx_ledger y) \<and> unat (qx_next_id y) \<le> unat (qx_next_id x) + n"
  using assms
proof (induction n arbitrary: y)
  case 0
  then show ?case by (simp add: ledger_extends_refl)
next
  case (Suc n)
  then obtain z where z: "(qx_step ^^ n) x z" "qx_step z y" by auto
  then have "qx_inv z \<and> ledger_extends (qx_ledger x) (qx_ledger z) \<and> unat (qx_next_id z) \<le> unat (qx_next_id x) + n"
    using Suc by simp
  moreover from this have "qx_inv y" using qx_step_inv [OF z(2)] Suc.prems(3) by linarith
  moreover have "ledger_extends (qx_ledger x) (qx_ledger y)"
    using calculation qx_step_extends [OF z(2)] ledger_extends_trans by blast
  ultimately show ?case using qx_step_next_id [OF z(2)] by simp
qed

section \<open>Sample inputs\<close>

definition sample_candidate :: RemediationCandidate where
  "sample_candidate = \<lparr>cand_finding_id = 1, cand_requested_action = QUARANTINE_CANDIDATE, cand_approval_state = APPROVED,
     cand_target_path = ''c:/tmp/x'', cand_expected_sha256 = [], cand_rationale = ''r''\<rparr>"

definition sample_executor :: QuarantineExecutor where
  "sample_executor = QuarantineExecutor_new ''v'' default_policy None [''c:/tmp/x'' \<mapsto> Regular [1, 2, 3]]"

lemma sample_executor_fields [simp]:
  "qx_fs sample_executor = [''c:/tmp/x'' \<mapsto> Regular [1, 2, 3]]" "qx_next_id sample_executor = 1"
  "qx_ledger sample_executor = []" "qx_policy sample_executor = default_policy" "qx_vault_dir sample_executor = ''v''"
  by (simp_all add: sample_executor_def QuarantineExecutor_new_def load_ledger_locked_def)

lemma sample_may_quarantine: "may_quarantine (fs_fine 0) sample_executor sample_candidate [1, 2, 3]"
  by (simp add: may_quarantine_def sample_candidate_def fs_fine_def MAX_QUARANTINE_BYTES_def MAX_LEDGER_RECORDS_def
      is_protected_path_def default_policy_def path_starts_with_def path_char_def ascii_lower_def
      has_unsafe_delimiter_def)

lemma sample_target_not_vault: "cand_target_path sample_candidate \<noteq> vault_path_for sample_executor 1"
  by (simp add: sample_candidate_def vault_path_for_def)

lemma sample_quarantined: "\<exists>r x'. quarantine (fs_fine 0) sample_executor sample_candidate = (OK, Some r, x')"
proof (cases rule: quarantine_cases [where env = "fs_fine 0" and x = sample_executor and c = sample_candidate])
  case (denied code)
  with sample_may_quarantine show ?thesis by blast
next
  case (moved b fs')
  then show ?thesis by (simp add: Let_def)
next
  case (failed b fs')
  have "\<not> fst (move_to_vault (fs_fine 0) (qx_fs sample_executor) (cand_target_path sample_candidate) v)" for v
    by (simp add: move_to_vault_def fs_rename_def fs_fine_def sample_candidate_def)
  with failed(2) show ?thesis by (metis fst_conv)
qed

section \<open>Properties\<close>

text \<open>
  C4. A successful quarantine was allowed and does exactly one thing: the candidate was approved, its
  path unprotected, the file a regular file of admissible size whose hash matched the expected one when
  given; afterwards the file's bytes are in the vault, the original path is free, no other path
  changed, and the ledger has grown by the record that names both paths and the hash.
\<close>

theorem quarantine_success:
  assumes "quarantine env x c = (OK, ro, x')" "cand_target_path c \<noteq> vault_path_for x (qx_next_id x)"
  shows "\<exists>b r. cand_approval_state c = APPROVED \<and> \<not> is_protected_path (cand_target_path c) (qx_policy x) \<and>
    qx_fs x (cand_target_path c) = Some (Regular b) \<and> 0 < length b \<and> length b \<le> MAX_QUARANTINE_BYTES \<and>
    (cand_expected_sha256 c = [] \<or> sha256_hash_bytes b = cand_expected_sha256 c) \<and>
    ro = Some r \<and> qr_id r = qx_next_id x \<and> qr_original_path r = cand_target_path c \<and>
    qr_vault_path r = vault_path_for x (qx_next_id x) \<and> qr_sha256_at_quarantine r = sha256_hash_bytes b \<and>
    \<not> qr_restored r \<and> \<not> qr_shredded r \<and> qx_ledger x' = qx_ledger x @ [r] \<and>
    qx_fs x' = (qx_fs x)(qr_vault_path r \<mapsto> Regular b, cand_target_path c := None)"
  using quarantine_OK [OF assms] by (auto simp: may_quarantine_def)

theorem quarantine_success_witness:
  "\<exists>r. let (code, ro, x') = quarantine (fs_fine 0) sample_executor sample_candidate in
     code = OK \<and> ro = Some r \<and> qx_ledger x' = [r] \<and> qx_fs x' ''c:/tmp/x'' = None"
proof -
  obtain r x' where q: "quarantine (fs_fine 0) sample_executor sample_candidate = (OK, Some r, x')"
    using sample_quarantined by blast
  from quarantine_success [OF q] sample_target_not_vault show ?thesis
    by (auto simp: q) (simp_all add: sample_candidate_def)
qed

text \<open>
  C5. A refused or failed quarantine loses nothing: no record is produced, the ledger and its file are
  unchanged, and every path holds what it held, whichever file operations failed; only the unused
  vault name of this attempt may be left with a copy.
\<close>

theorem quarantine_refusal_harmless:
  assumes "quarantine env x c = (code, ro, x')" "code \<noteq> OK"
    "cand_target_path c \<noteq> vault_path_for x (qx_next_id x)"
  shows "ro = None \<and> qx_ledger x' = qx_ledger x \<and> qx_ledger_file x' = qx_ledger_file x \<and>
    (\<forall>p. p \<noteq> vault_path_for x (qx_next_id x) \<or> qx_fs x p \<noteq> None \<longrightarrow> qx_fs x' p = qx_fs x p)"
  using assms by (rule quarantine_not_OK)

theorem quarantine_refusal_harmless_witness:
  "qx_ledger (snd (snd (quarantine (fs_fine 0) sample_executor
     (sample_candidate\<lparr>cand_approval_state := PENDING_APPROVAL\<rparr>)))) = []"
  using quarantine_refusal_harmless [of "fs_fine 0" sample_executor
      "sample_candidate\<lparr>cand_approval_state := PENDING_APPROVAL\<rparr>" ERR_QUARANTINE_DENIED None sample_executor]
    sample_target_not_vault
  by (simp add: quarantine_def Let_def)



text \<open>
  C7. The ledger survives a restart: a ledger whose records contain no separator reloads from the text
  written by the rewrite to the same records in order (times cut to seconds), and the next id is
  above every loaded id, so no vault name is reused.
\<close>

theorem ledger_reload:
  assumes "\<forall>r \<in> set (qx_ledger x). record_clean r \<and> unat (qr_id r) + 1 < 2 ^ 64" "\<not> err_ledger_rewrite env"
  shows "let y = QuarantineExecutor_new dir pol (qx_ledger_file (rewrite_ledger_locked env x)) fs in
    qx_ledger y = map reloaded (qx_ledger x) \<and> (\<forall>r. r \<in> set (qx_ledger x) \<longrightarrow> qr_id r < qx_next_id y)"
  using assms foldl_load_record_ledger [of "qx_ledger x"] foldl_load_record_next [of "qx_ledger x"]
    getlines_ledger_text [of "qx_ledger x"]
  by (auto simp: Let_def QuarantineExecutor_new_def load_ledger_locked_def rewrite_ledger_locked_def ledger_text_def)

theorem ledger_reload_witness:
  "let r = \<lparr>qr_id = 3, qr_finding_id = 2, qr_original_path = ''c:/a'', qr_vault_path = ''v/q_3.gcadq'',
         qr_sha256_at_quarantine = ''ab'', qr_quarantined_at = seconds 5, qr_restored = True, qr_shredded = False\<rparr>;
       x = sample_executor\<lparr>qx_ledger := [r]\<rparr>
   in qx_ledger (QuarantineExecutor_new ''v'' default_policy
        (qx_ledger_file (rewrite_ledger_locked (fs_fine 0) x)) Map.empty) = [r]"
proof -
  let ?r = "\<lparr>qr_id = 3, qr_finding_id = 2, qr_original_path = ''c:/a'', qr_vault_path = ''v/q_3.gcadq'',
         qr_sha256_at_quarantine = ''ab'', qr_quarantined_at = seconds 5, qr_restored = True, qr_shredded = False\<rparr>"
  have "record_clean ?r" "reloaded ?r = ?r"
    by (simp_all add: record_clean_def reloaded_def epoch_seconds_def seconds_def has_unsafe_delimiter_def)
  then show ?thesis
    using ledger_reload [of "sample_executor\<lparr>qx_ledger := [?r]\<rparr>" "fs_fine 0" "''v''" default_policy Map.empty]
    by (simp add: Let_def fs_fine_def)
qed

text \<open>
  C8. Over every sequence of quarantine, restore and shred calls, whatever fails and whatever other
  programs do to the files, and as long as the 64-bit id counter does not wrap: record ids stay distinct, the
  ledger stays within 5000 records, no record is both restored and shredded, and the ledger only
  grows - records are never dropped or altered except that the two marks may be set.
\<close>

theorem ledger_history:
  assumes "(qx_step ^^ n) x y" "qx_inv x" "unat (qx_next_id x) + n < 2 ^ 64"
  shows "qx_inv y \<and> ledger_extends (qx_ledger x) (qx_ledger y)"
  using qx_steps [OF assms] by simp

theorem ledger_history_witness:
  "\<exists>y. qx_inv y \<and> ledger_extends [] (qx_ledger y) \<and> qx_ledger y \<noteq> []"
proof -
  obtain r x' where q: "quarantine (fs_fine 0) sample_executor sample_candidate = (OK, Some r, x')"
    using sample_quarantined by blast
  have "qx_step sample_executor x'"
    using step_quarantine [of sample_executor "fs_fine 0" sample_candidate] q by simp
  then have "(qx_step ^^ 1) sample_executor x'" by (simp add: eq_OO)
  from ledger_history [OF this] have "qx_inv x' \<and> ledger_extends [] (qx_ledger x')"
    by (simp add: qx_inv_def)
  moreover have "qx_ledger x' \<noteq> []" using quarantine_OK [OF q] sample_target_not_vault by auto
  ultimately show ?thesis by blast
qed

end
