(* ===== verification/Policy_Store.thy ===== *)
theory Policy_Store
  imports Policy
begin

text \<open>
  \<^verbatim>\<open>security/policy_store.{hpp,cpp}\<close>: the key=value policy file. \<^verbatim>\<open>PolicyStore::load\<close> takes the text of
  the file (\<open>None\<close> when it cannot be opened), \<^verbatim>\<open>PolicyStore::save\<close> produces the text it writes. The
  lemmas show that whatever the file holds the loaded policy is well formed, that an absent or
  corrupt field keeps its default, and that loading what was saved gives the saved policy back.
\<close>

section \<open>Loading\<close>

definition MAX_FINDING_WINDOW_MINUTES :: int where
  "MAX_FINDING_WINDOW_MINUTES = 24 * 60"

record load_state =
  ls_policy :: LocalSecurityPolicy
  ls_prefixes :: "string list"
  ls_seen :: bool

text \<open>The body of the \<^verbatim>\<open>getline\<close> loop; an exception of \<^verbatim>\<open>std::stoi\<close> leaves the state as it is.\<close>

definition load_line :: "load_state \<Rightarrow> string \<Rightarrow> load_state" where
  "load_line st line =
     (if line = [] \<or> hd line = CHR ''#'' then st
      else case find_char (CHR ''='') line of
        None \<Rightarrow> st
      | Some eq \<Rightarrow>
          if eq = 0 then st
          else let key = take eq line; value = drop (eq + 1) line; policy = ls_policy st in
            if key = ''critical_threshold'' then
              (case stoi value of None \<Rightarrow> st
               | Some v \<Rightarrow> if 0 \<le> v \<and> v \<le> 100
                   then st\<lparr>ls_policy := policy\<lparr>pol_critical_threshold := word_of_int v\<rparr>\<rparr> else st)
            else if key = ''finding_window_minutes'' then
              (case stoi value of None \<Rightarrow> st
               | Some v \<Rightarrow> if 0 < v \<and> v \<le> MAX_FINDING_WINDOW_MINUTES
                   then st\<lparr>ls_policy := policy\<lparr>pol_finding_window := v\<rparr>\<rparr> else st)
            else if key = ''protected_path_prefix'' then
              (if value \<noteq> [] then st\<lparr>ls_prefixes := ls_prefixes st @ [value], ls_seen := True\<rparr> else st)
            else st)"

definition PolicyStore_load :: "string option \<Rightarrow> LocalSecurityPolicy" where
  "PolicyStore_load contents = (case contents of
     None \<Rightarrow> default_policy
   | Some text \<Rightarrow>
       let st = foldl load_line \<lparr>ls_policy = default_policy, ls_prefixes = [], ls_seen = False\<rparr> (getlines text)
       in if ls_seen st then (ls_policy st)\<lparr>pol_protected_path_prefixes := ls_prefixes st\<rparr>
          else ls_policy st)"

section \<open>Saving\<close>

text \<open>
  The lines \<^verbatim>\<open>save\<close> writes. \<open>opened\<close> and \<open>good\<close> are the outcomes of opening the stream and of the
  final \<^verbatim>\<open>out.good()\<close>, which the file system decides.
\<close>

definition policy_lines :: "LocalSecurityPolicy \<Rightarrow> string list" where
  "policy_lines policy =
     [''critical_threshold='' @ to_string (unat (pol_critical_threshold policy)),
      ''finding_window_minutes='' @
        (if pol_finding_window policy < 0 then ''-'' else []) @ to_string (nat \<bar>pol_finding_window policy\<bar>)]
     @ map (\<lambda>prefix. ''protected_path_prefix='' @ prefix) (pol_protected_path_prefixes policy)"

definition PolicyStore_save :: "bool \<Rightarrow> bool \<Rightarrow> LocalSecurityPolicy \<Rightarrow> ErrorCode \<times> string option" where
  "PolicyStore_save opened good policy =
     (if \<not> opened then (ERR_SCAN_IO, None)
      else (if good then OK else ERR_SCAN_IO,
            Some (concat (map (\<lambda>l. l @ [CHR 0x0A]) (policy_lines policy)))))"

section \<open>Well-formed policies\<close>

definition policy_ok :: "LocalSecurityPolicy \<Rightarrow> bool" where
  "policy_ok p \<longleftrightarrow> unat (pol_critical_threshold p) \<le> 100 \<and> 0 < pol_finding_window p \<and>
     pol_finding_window p \<le> MAX_FINDING_WINDOW_MINUTES \<and> pol_protected_path_prefixes p \<noteq> [] \<and>
     [] \<notin> set (pol_protected_path_prefixes p)"

text \<open>A policy whose prefixes the line format can carry.\<close>

definition policy_saveable :: "LocalSecurityPolicy \<Rightarrow> bool" where
  "policy_saveable p \<longleftrightarrow> policy_ok p \<and> (\<forall>q \<in> set (pol_protected_path_prefixes p). CHR 0x0A \<notin> set q)"

definition load_ok :: "load_state \<Rightarrow> bool" where
  "load_ok st \<longleftrightarrow> policy_ok (ls_policy st) \<and> [] \<notin> set (ls_prefixes st) \<and>
     (ls_seen st \<longleftrightarrow> ls_prefixes st \<noteq> [])"

lemma default_policy_ok: "policy_ok default_policy"
  by (simp add: policy_ok_def default_policy_def MAX_FINDING_WINDOW_MINUTES_def)

lemma unat_word_of_int_100: "0 \<le> v \<Longrightarrow> v \<le> 100 \<Longrightarrow> unat (word_of_int v :: u8) \<le> 100"
  by (simp add: unat_eq_nat_uint uint_word_of_int)

lemma load_line_ok: "load_ok st \<Longrightarrow> load_ok (load_line st line)"
  by (auto simp: load_ok_def load_line_def policy_ok_def Let_def unat_word_of_int_100
      split: option.splits if_splits)

lemma foldl_load_line_ok: "load_ok st \<Longrightarrow> load_ok (foldl load_line st ls)"
  by (induction ls arbitrary: st) (auto intro: load_line_ok)

lemma load_policy_ok: "policy_ok (PolicyStore_load contents)"
proof (cases contents)
  case None
  then show ?thesis by (simp add: PolicyStore_load_def default_policy_ok)
next
  case (Some body)
  let ?st = "foldl load_line \<lparr>ls_policy = default_policy, ls_prefixes = [], ls_seen = False\<rparr> (getlines body)"
  have "load_ok ?st"
    by (rule foldl_load_line_ok) (simp add: load_ok_def default_policy_ok)
  then show ?thesis
    using Some by (auto simp: PolicyStore_load_def load_ok_def policy_ok_def Let_def)
qed

section \<open>Round trip\<close>

lemma load_line_key:
  assumes "CHR ''='' \<notin> set key" "key \<noteq> []" "hd key \<noteq> CHR ''#''"
  shows "load_line st (key @ CHR ''='' # value) =
    (if key = ''critical_threshold'' then
       (case stoi value of None \<Rightarrow> st
        | Some v \<Rightarrow> if 0 \<le> v \<and> v \<le> 100
            then st\<lparr>ls_policy := (ls_policy st)\<lparr>pol_critical_threshold := word_of_int v\<rparr>\<rparr> else st)
     else if key = ''finding_window_minutes'' then
       (case stoi value of None \<Rightarrow> st
        | Some v \<Rightarrow> if 0 < v \<and> v \<le> MAX_FINDING_WINDOW_MINUTES
            then st\<lparr>ls_policy := (ls_policy st)\<lparr>pol_finding_window := v\<rparr>\<rparr> else st)
     else if key = ''protected_path_prefix'' then
       (if value \<noteq> [] then st\<lparr>ls_prefixes := ls_prefixes st @ [value], ls_seen := True\<rparr> else st)
     else st)"
  using assms by (simp add: load_line_def find_char_append Let_def)

lemma load_line_threshold:
  assumes "unat t \<le> 100"
  shows "load_line st (''critical_threshold='' @ to_string (unat (t :: u8))) =
    st\<lparr>ls_policy := (ls_policy st)\<lparr>pol_critical_threshold := t\<rparr>\<rparr>"
proof -
  have v: "stoi (to_string (unat t)) = Some (uint t)"
    using stoi_to_string [of "unat t"] assms by simp
  have "int (unat t) \<le> 100" using assms by linarith
  then have u: "uint t \<le> 100" by simp
  have "load_line st (''critical_threshold'' @ CHR ''='' # to_string (unat t)) =
      st\<lparr>ls_policy := (ls_policy st)\<lparr>pol_critical_threshold := word_of_int (uint t)\<rparr>\<rparr>"
    by (subst load_line_key) (simp_all add: v u)
  then show ?thesis by simp
qed

lemma load_line_window:
  assumes "0 < w" "w \<le> MAX_FINDING_WINDOW_MINUTES"
  shows "load_line st (''finding_window_minutes='' @ to_string (nat \<bar>w\<bar>)) =
    st\<lparr>ls_policy := (ls_policy st)\<lparr>pol_finding_window := w\<rparr>\<rparr>"
proof -
  have "stoi (to_string (nat \<bar>w\<bar>)) = Some w"
    using assms stoi_to_string [of "nat \<bar>w\<bar>"] by (simp add: MAX_FINDING_WINDOW_MINUTES_def)
  then have "load_line st (''finding_window_minutes'' @ CHR ''='' # to_string (nat \<bar>w\<bar>)) =
      st\<lparr>ls_policy := (ls_policy st)\<lparr>pol_finding_window := w\<rparr>\<rparr>"
    by (subst load_line_key) (use assms in simp_all)
  then show ?thesis by simp
qed

lemma foldl_load_prefixes:
  assumes "[] \<notin> set qs"
  shows "foldl load_line st (map (\<lambda>q. ''protected_path_prefix='' @ q) qs) =
    st\<lparr>ls_prefixes := ls_prefixes st @ qs, ls_seen := ls_seen st \<or> qs \<noteq> []\<rparr>"
  using assms
proof (induction qs arbitrary: st)
  case Nil
  then show ?case by simp
next
  case (Cons q qs)
  have "q \<noteq> []" using Cons.prems by auto
  then have "load_line st (''protected_path_prefix='' @ q) =
      st\<lparr>ls_prefixes := ls_prefixes st @ [q], ls_seen := True\<rparr>"
    using load_line_key [of "''protected_path_prefix''" st q] by simp
  with Cons show ?case by simp
qed

lemma policy_lines_no_newline:
  assumes "policy_saveable p"
  shows "\<forall>l \<in> set (policy_lines p). CHR 0x0A \<notin> set l"
  using assms to_string_digits is_digit_not_special(5)
  by (fastforce simp: policy_lines_def policy_saveable_def)

lemma save_load:
  assumes "policy_saveable p"
  shows "PolicyStore_load (snd (PolicyStore_save True good p)) = p"
proof -
  let ?st = "\<lparr>ls_policy = default_policy, ls_prefixes = [], ls_seen = False\<rparr>"
  have ok: "policy_ok p" using assms by (simp add: policy_saveable_def)
  then have facts: "unat (pol_critical_threshold p) \<le> 100" "0 < pol_finding_window p"
      "pol_finding_window p \<le> MAX_FINDING_WINDOW_MINUTES"
      "[] \<notin> set (pol_protected_path_prefixes p)" "pol_protected_path_prefixes p \<noteq> []"
    by (auto simp: policy_ok_def)
  have "foldl load_line ?st (policy_lines p) =
      \<lparr>ls_policy = default_policy\<lparr>pol_critical_threshold := pol_critical_threshold p,
         pol_finding_window := pol_finding_window p\<rparr>,
       ls_prefixes = pol_protected_path_prefixes p, ls_seen = True\<rparr>"
    using facts load_line_threshold [of "pol_critical_threshold p"]
      load_line_window [of "pol_finding_window p"] foldl_load_prefixes [OF facts(4)]
    by (simp add: policy_lines_def)
  then show ?thesis
    using policy_lines_no_newline [OF assms]
    by (simp add: PolicyStore_save_def PolicyStore_load_def getlines_concat Let_def)
qed

section \<open>Properties\<close>

text \<open>
  Whatever the policy file holds - or when there is none - the loaded policy is usable: the
  threshold is at most 100, the window between one minute and a day, and there is at least one
  protected prefix, none of them empty.
\<close>

theorem load_always_safe:
  "let p = PolicyStore_load contents in
     unat (pol_critical_threshold p) \<le> 100 \<and> 0 < pol_finding_window p \<and> pol_finding_window p \<le> 1440 \<and>
     pol_protected_path_prefixes p \<noteq> [] \<and> [] \<notin> set (pol_protected_path_prefixes p)"
  using load_policy_ok [of contents] by (simp add: policy_ok_def Let_def MAX_FINDING_WINDOW_MINUTES_def)

text \<open>
  Saving a policy and loading the file gives the policy back, for every well-formed policy whose
  prefixes contain no line feed.
\<close>

theorem policy_round_trip:
  assumes "policy_saveable p"
  shows "PolicyStore_load (snd (PolicyStore_save True good p)) = p"
  using assms by (rule save_load)

theorem policy_round_trip_witness:
  "PolicyStore_load (snd (PolicyStore_save True True default_policy)) = default_policy"
  using policy_round_trip [of default_policy True]
  by (simp add: policy_saveable_def default_policy_ok) (simp add: default_policy_def)

end
