(* ===== verification/Legacy_Adapter.thy ===== *)
theory Legacy_Adapter
  imports Policy
begin

text \<open>
  \<^verbatim>\<open>security/legacy_adapter.{hpp,cpp}\<close>: conversion of a \<^verbatim>\<open>ThreatEvent\<close> of one of the older engines into a
  \<^verbatim>\<open>SecurityObservation\<close>, with confidence and determinism from a table keyed by engine name and
  category. The lemmas show that the result is always acceptable to the telemetry bus unless
  the event is \<^verbatim>\<open>SAFE\<close>, and that only the table can make an observation deterministic.
\<close>

record ConfidenceRule =
  rule_engine_name :: string
  rule_category :: ThreatCategory
  rule_confidence :: double
  rule_deterministic :: bool

text \<open>A decimal literal of the source is the nearest \<^verbatim>\<open>double\<close>.\<close>

definition conf_rule :: "string \<Rightarrow> ThreatCategory \<Rightarrow> rat \<Rightarrow> bool \<Rightarrow> ConfidenceRule" where
  "conf_rule e c q d = \<lparr>rule_engine_name = e, rule_category = c, rule_confidence = fl q, rule_deterministic = d\<rparr>"

definition kRules :: "ConfidenceRule list" where
  "kRules = [
    conf_rule ''PMSR'' MEMORY_INJECTION (92/100) True,
    conf_rule ''SelfDefense'' EVASION_UNHOOK (88/100) True,
    conf_rule ''SelfDefense'' MEMORY_INJECTION (90/100) True,
    conf_rule ''SelfDefense'' DLL_INJECTION (75/100) True,
    conf_rule ''SyscallGuard'' EVASION_UNHOOK (92/100) True,
    conf_rule ''SyscallGuard'' DIRECT_SYSCALL (80/100) True,
    conf_rule ''ARHS'' RANSOMWARE (55/100) False,
    conf_rule ''ARHS'' FILE_ENCRYPT (60/100) False,
    conf_rule ''ETG-RI'' ENTROPY_ANOMALY (45/100) False,
    conf_rule ''ETG-RI'' RAW_SOCKET_PROBE (45/100) False,
    conf_rule ''ETG-RI'' SYN_FLOOD (65/100) False,
    conf_rule ''ZRGP'' NETWORK_SCAN (85/100) True,
    conf_rule ''KernelMon'' EVASION_AMSI (90/100) True,
    conf_rule ''KernelMon'' EVASION_ETW (85/100) True,
    conf_rule ''KernelMon'' PPID_SPOOF (90/100) True,
    conf_rule ''KernelMon'' SUSPICIOUS_BINARY (50/100) False,
    conf_rule ''RegMon'' REGISTRY_TAMPER (85/100) True,
    conf_rule ''FIM'' FILE_INTEGRITY_VIOLATION (95/100) True,
    conf_rule ''DnsMon'' DNS_TUNNEL (90/100) True,
    conf_rule ''DnsMon'' DGA_DOMAIN (65/100) False,
    conf_rule ''YARA'' YARA_RULE_MATCH (88/100) True]"

fun confidence_for_level :: "ThreatLevel \<Rightarrow> double" where
  "confidence_for_level LOW = fl (30/100)"
| "confidence_for_level MEDIUM = fl (50/100)"
| "confidence_for_level HIGH = fl (70/100)"
| "confidence_for_level CRITICAL = fl (90/100)"
| "confidence_for_level SAFE = fl 0"

fun find_rule :: "ConfidenceRule list \<Rightarrow> string \<Rightarrow> ThreatCategory \<Rightarrow> ConfidenceRule option" where
  "find_rule [] name cat = None"
| "find_rule (r # rs) name cat =
     (if rule_engine_name r = name \<and> rule_category r = cat then Some r else find_rule rs name cat)"

definition adapt_legacy_event :: "ThreatEvent \<Rightarrow> string \<Rightarrow> SecurityObservation" where
  "adapt_legacy_event event engine_name =
     (let base = \<lparr>obs_source_id = [], obs_kind = LEGACY_ENGINE, obs_timestamp = ev_timestamp event,
            obs_suggested_level = ev_level event, obs_confidence = Fin 0, obs_deterministic = False,
            obs_process_id = ev_process_id event, obs_process_name = ev_process_name event,
            obs_file_path = ev_file_path event, obs_sha256 = [],
            obs_evidence = (if ev_description event = [] then ''Legacy engine event'' else ev_description event)\<rparr>
      in case find_rule kRules engine_name (ev_category event) of
           Some r \<Rightarrow> base\<lparr>obs_source_id := engine_name, obs_confidence := rule_confidence r,
                       obs_deterministic := rule_deterministic r\<rparr>
         | None \<Rightarrow> base\<lparr>obs_source_id := (if engine_name = []
                           then ''legacy:'' @ to_string (category_code (ev_category event)) else engine_name),
                       obs_confidence := confidence_for_level (ev_level event), obs_deterministic := False\<rparr>)"

section \<open>The adapter's observations\<close>

lemma find_rule_mem: "find_rule rs n c = Some r \<Longrightarrow> r \<in> set rs \<and> rule_engine_name r = n \<and> rule_category r = c"
  by (induction rs n c rule: find_rule.induct) (auto split: if_splits)

lemma kRules_unit: "r \<in> set kRules \<Longrightarrow> unit_double (rule_confidence r) \<and> rule_engine_name r \<noteq> []"
  by (auto simp: kRules_def conf_rule_def unit_double_fl)

lemma confidence_for_level_unit: "unit_double (confidence_for_level l)"
  by (cases l) (simp_all add: unit_double_fl)

lemma adapt_valid: "obs_valid (adapt_legacy_event ev name) \<longleftrightarrow> ev_level ev \<noteq> SAFE"
proof (cases "find_rule kRules name (ev_category ev)")
  case None
  then show ?thesis
    using unit_double_valid [OF confidence_for_level_unit [of "ev_level ev"]]
    by (auto simp: adapt_legacy_event_def obs_valid_def)
next
  case (Some r)
  then have "r \<in> set kRules" "rule_engine_name r = name" using find_rule_mem by auto
  then have "unit_double (rule_confidence r)" "name \<noteq> []" using kRules_unit by auto
  then show ?thesis
    using Some unit_double_valid [of "rule_confidence r"] by (auto simp: adapt_legacy_event_def obs_valid_def)
qed

lemma adapt_deterministic:
  "obs_deterministic (adapt_legacy_event ev name) \<longleftrightarrow>
     (\<exists>r. find_rule kRules name (ev_category ev) = Some r \<and> rule_deterministic r)"
  by (cases "find_rule kRules name (ev_category ev)") (simp_all add: adapt_legacy_event_def Let_def)

section \<open>Properties\<close>

text \<open>
  Every event an engine reports above SAFE becomes a valid observation, whatever engine name and
  category it carries, and only then; it claims to be deterministic only when the (engine, category)
  pair has an entry in the rule table that says so.
\<close>

theorem adapter_total:
  "(obs_valid (adapt_legacy_event ev name) \<longleftrightarrow> ev_level ev \<noteq> SAFE) \<and>
   (obs_deterministic (adapt_legacy_event ev name) \<longleftrightarrow>
      (\<exists>r. find_rule kRules name (ev_category ev) = Some r \<and> rule_deterministic r))"
  by (simp add: adapt_valid adapt_deterministic)

end
