(* ===== verification/Forensic_Timeline.thy ===== *)
theory Forensic_Timeline
  imports Policy
begin

text \<open>
  \<^verbatim>\<open>engines/forensic_timeline_engine.{hpp,cpp}\<close>: the bounded event timeline, the causal links between events of
  one process, the chains built from them and the multi-stage alert. Each ingest is one step here: the code takes
  the lock three times during an ingest, so the invariants are those of ingests that do not overlap.
  The lemmas show the bounds and the order of the timeline, that causal links point backwards and chains are
  disjoint, what the alert depends on, and that the queries return the newest matching events.
\<close>

section \<open>Stages and event types\<close>

datatype KillChainStage = UNKNOWN | RECONNAISSANCE | WEAPONIZATION | DELIVERY | EXPLOITATION | INSTALLATION
  | COMMAND_CONTROL | ACTIONS_ON_OBJ

fun stage_code :: "KillChainStage \<Rightarrow> nat" where
  "stage_code UNKNOWN = 0"
| "stage_code RECONNAISSANCE = 1"
| "stage_code WEAPONIZATION = 2"
| "stage_code DELIVERY = 3"
| "stage_code EXPLOITATION = 4"
| "stage_code INSTALLATION = 5"
| "stage_code COMMAND_CONTROL = 6"
| "stage_code ACTIONS_ON_OBJ = 7"

lemma stage_code_inj: "stage_code a = stage_code b \<Longrightarrow> a = b"
  by (cases a; cases b) auto

lemma stage_code_less: "stage_code s < 8"
  by (cases s) auto

instantiation KillChainStage :: linorder
begin

definition less_eq_KillChainStage :: "KillChainStage \<Rightarrow> KillChainStage \<Rightarrow> bool" where
  "less_eq_KillChainStage a b \<longleftrightarrow> stage_code a \<le> stage_code b"

definition less_KillChainStage :: "KillChainStage \<Rightarrow> KillChainStage \<Rightarrow> bool" where
  "less_KillChainStage a b \<longleftrightarrow> stage_code a < stage_code b"

instance
  by standard (auto simp: less_eq_KillChainStage_def less_KillChainStage_def intro: stage_code_inj)

end

datatype TimelineEventType = PROCESS | NETWORK | FILE_ACCESS | REGISTRY | MEMORY | DNS | CREDENTIAL | EVASION

definition stage_name :: "KillChainStage \<Rightarrow> string" where
  "stage_name stage = (case stage of
     RECONNAISSANCE \<Rightarrow> ''Reconnaissance''
   | WEAPONIZATION \<Rightarrow> ''Weaponization''
   | DELIVERY \<Rightarrow> ''Delivery''
   | EXPLOITATION \<Rightarrow> ''Exploitation''
   | INSTALLATION \<Rightarrow> ''Installation''
   | COMMAND_CONTROL \<Rightarrow> ''Command & Control''
   | ACTIONS_ON_OBJ \<Rightarrow> ''Actions on Objectives''
   | _ \<Rightarrow> ''Unknown'')"

definition map_category_to_stage :: "ThreatCategory \<Rightarrow> KillChainStage" where
  "map_category_to_stage cat =
     (if cat \<in> {NETWORK_SCAN, RAW_SOCKET_PROBE} then RECONNAISSANCE
      else if cat \<in> {ENTROPY_ANOMALY, SUSPICIOUS_BINARY} then WEAPONIZATION
      else if cat \<in> {SYN_FLOOD, UDP_FLOOD, ARP_POISON} then DELIVERY
      else if cat \<in> {MEMORY_INJECTION, PROCESS_HOLLOW, DLL_INJECTION, APC_INJECTION, SHELLCODE, REFLECTIVE_LOAD,
                      DIRECT_SYSCALL, KERBEROS_ATTACK, NTLM_COERCE, CREDENTIAL_DUMP} then EXPLOITATION
      else if cat \<in> {BACKDOOR_ACCOUNT, REGISTRY_TAMPER, FILELESS_EXEC, YARA_RULE_MATCH} then INSTALLATION
      else if cat \<in> {DNS_TUNNEL, ICMP_COVERT, DGA_DOMAIN} then COMMAND_CONTROL
      else if cat \<in> {RANSOMWARE, FILE_ENCRYPT, ANTI_FORENSIC, FILE_INTEGRITY_VIOLATION} then ACTIONS_ON_OBJ
      else if cat \<in> {EVASION_AMSI, EVASION_ETW, EVASION_UNHOOK, PPID_SPOOF} then EXPLOITATION
      else UNKNOWN)"

definition map_observation_to_stage :: "ObservationKind \<Rightarrow> KillChainStage" where
  "map_observation_to_stage kind =
     (if kind \<in> {NETWORK_CONNECTION, DNS_ANOMALY} then COMMAND_CONTROL
      else if kind \<in> {PROCESS_MEMORY, PROCESS_LINEAGE} then EXPLOITATION
      else if kind = REGISTRY_PERSISTENCE then INSTALLATION
      else if kind = FILE_INTEGRITY then ACTIONS_ON_OBJ
      else if kind \<in> {ARTIFACT_SIGNATURE, ARTIFACT_STRUCTURE, ARTIFACT_TRUST, INVALID_PE, UNSIGNED_RISKY_LOCATION,
                       INVALID_SIGNATURE} then WEAPONIZATION
      else if kind = HIGH_ENTROPY then WEAPONIZATION
      else if kind = YARA_MATCH then INSTALLATION
      else UNKNOWN)"

definition map_category_to_type :: "ThreatCategory \<Rightarrow> TimelineEventType" where
  "map_category_to_type cat =
     (if cat \<in> {MEMORY_INJECTION, PROCESS_HOLLOW, DLL_INJECTION, APC_INJECTION, REFLECTIVE_LOAD, SHELLCODE} then MEMORY
      else if cat \<in> {NETWORK_SCAN, SYN_FLOOD, UDP_FLOOD, ARP_POISON, ICMP_COVERT, RAW_SOCKET_PROBE} then NETWORK
      else if cat \<in> {DNS_TUNNEL, DGA_DOMAIN} then DNS
      else if cat \<in> {REGISTRY_TAMPER, BACKDOOR_ACCOUNT} then REGISTRY
      else if cat \<in> {RANSOMWARE, FILE_ENCRYPT, FILE_INTEGRITY_VIOLATION, ANTI_FORENSIC} then FILE_ACCESS
      else if cat \<in> {KERBEROS_ATTACK, NTLM_COERCE, CREDENTIAL_DUMP} then CREDENTIAL
      else if cat \<in> {EVASION_AMSI, EVASION_ETW, EVASION_UNHOOK, PPID_SPOOF, DIRECT_SYSCALL} then EVASION
      else PROCESS)"

definition map_observation_to_type :: "ObservationKind \<Rightarrow> TimelineEventType" where
  "map_observation_to_type kind = (case kind of
     NETWORK_CONNECTION \<Rightarrow> NETWORK
   | DNS_ANOMALY \<Rightarrow> DNS
   | PROCESS_MEMORY \<Rightarrow> MEMORY
   | PROCESS_LINEAGE \<Rightarrow> PROCESS
   | REGISTRY_PERSISTENCE \<Rightarrow> REGISTRY
   | FILE_INTEGRITY \<Rightarrow> FILE_ACCESS
   | _ \<Rightarrow> PROCESS)"

section \<open>State\<close>

record TimelineEvent =
  te_id :: u64
  te_timestamp :: time_point
  te_type :: TimelineEventType
  te_stage :: KillChainStage
  te_level :: ThreatLevel
  te_category :: ThreatCategory
  te_process_id :: u32
  te_process_name :: string
  te_file_path :: string
  te_source_ip :: string
  te_description :: string
  te_evidence :: string
  te_causal_parent :: u64
  te_confidence :: double

record CausalChain =
  cc_chain_id :: u64
  cc_event_ids :: "u64 list"
  cc_max_stage :: KillChainStage
  cc_max_level :: ThreatLevel
  cc_summary :: string

record KillChainProgress =
  kp_stage_counts :: "nat list"
  kp_furthest :: KillChainStage
  kp_total_events :: nat
  kp_multi_stage_detected :: bool

record ForensicTimelineEngine =
  tl_running :: bool
  tl_events_processed :: u64
  tl_threats_detected :: u64
  tl_next_id :: u64
  tl_next_chain_id :: u64
  tl_events :: "TimelineEvent list"
  tl_chains :: "CausalChain list"
  tl_threat_cb :: bool

definition MAX_EVENTS :: nat where "MAX_EVENTS = 5000"
definition MAX_CHAINS :: nat where "MAX_CHAINS = 200"

definition ForensicTimelineEngine_new :: ForensicTimelineEngine where
  "ForensicTimelineEngine_new = \<lparr>tl_running = False, tl_events_processed = 0, tl_threats_detected = 0, tl_next_id = 1,
     tl_next_chain_id = 1, tl_events = [], tl_chains = [], tl_threat_cb = False\<rparr>"

definition timeline_start :: "ForensicTimelineEngine \<Rightarrow> ErrorCode \<times> ForensicTimelineEngine" where
  "timeline_start s = (if tl_running s then (OK, s) else (OK, s\<lparr>tl_running := True\<rparr>))"

definition timeline_stop :: "ForensicTimelineEngine \<Rightarrow> ErrorCode \<times> ForensicTimelineEngine" where
  "timeline_stop s = (if \<not> tl_running s then (OK, s) else (OK, s\<lparr>tl_running := False\<rparr>))"

definition timeline_on_threat :: "bool \<Rightarrow> ForensicTimelineEngine \<Rightarrow> ForensicTimelineEngine" where
  "timeline_on_threat cb s = s\<lparr>tl_threat_cb := cb\<rparr>"

section \<open>Ingest\<close>

text \<open>\<^verbatim>\<open>duration_cast<seconds>\<close> truncates towards zero.\<close>

definition duration_seconds :: "int \<Rightarrow> int" where
  "duration_seconds d = (if d < 0 then - ((- d) div seconds 1) else d div seconds 1)"

text \<open>The loop over the events, newest first: the parent's id, or 0.\<close>

fun link_loop :: "TimelineEvent \<Rightarrow> TimelineEvent list \<Rightarrow> u64" where
  "link_loop ev [] = 0"
| "link_loop ev (e # es) =
     (if te_process_id e = te_process_id ev \<and> te_id e \<noteq> te_id ev then te_id e
      else if 300 < duration_seconds (te_timestamp ev - te_timestamp e) then 0
      else link_loop ev es)"

definition link_causal :: "ForensicTimelineEngine \<Rightarrow> TimelineEvent \<Rightarrow> TimelineEvent" where
  "link_causal s ev =
     (if te_process_id ev = 0 then ev
      else let parent = link_loop ev (rev (tl_events s)) in
        if parent \<noteq> 0 then ev\<lparr>te_causal_parent := parent\<rparr> else ev)"

text \<open>The first chain that holds the causal parent takes the event; \<open>None\<close> when there is none.\<close>

fun extend_chain :: "TimelineEvent \<Rightarrow> CausalChain list \<Rightarrow> CausalChain list option" where
  "extend_chain ev [] = None"
| "extend_chain ev (ch # chs) =
     (if te_causal_parent ev \<in> set (cc_event_ids ch)
      then Some (ch\<lparr>cc_event_ids := cc_event_ids ch @ [te_id ev], cc_max_stage := max (cc_max_stage ch) (te_stage ev),
             cc_max_level := max (cc_max_level ch) (te_level ev)\<rparr> # chs)
      else map_option ((#) ch) (extend_chain ev chs))"

definition update_chains :: "ForensicTimelineEngine \<Rightarrow> TimelineEvent \<Rightarrow> ForensicTimelineEngine" where
  "update_chains s ev =
     (case (if te_causal_parent ev \<noteq> 0 then extend_chain ev (tl_chains s) else None) of
        Some chs \<Rightarrow> s\<lparr>tl_chains := chs\<rparr>
      | None \<Rightarrow>
          if MEDIUM \<le> te_level ev \<or> te_stage ev \<noteq> UNKNOWN then
            let ch = \<lparr>cc_chain_id = tl_next_chain_id s, cc_event_ids = [te_id ev], cc_max_stage = te_stage ev,
                  cc_max_level = te_level ev, cc_summary = stage_name (te_stage ev) @ '': '' @ te_description ev\<rparr> in
            s\<lparr>tl_next_chain_id := tl_next_chain_id s + 1, tl_chains := pop_front_to MAX_CHAINS (tl_chains s @ [ch])\<rparr>
          else s)"

definition threat_entry :: "u64 \<Rightarrow> ThreatEvent \<Rightarrow> TimelineEvent" where
  "threat_entry i ev = \<lparr>te_id = i, te_timestamp = ev_timestamp ev, te_type = map_category_to_type (ev_category ev),
     te_stage = map_category_to_stage (ev_category ev), te_level = ev_level ev, te_category = ev_category ev,
     te_process_id = ev_process_id ev, te_process_name = ev_process_name ev, te_file_path = ev_file_path ev,
     te_source_ip = ev_source_ip ev, te_description = ev_description ev, te_evidence = [], te_causal_parent = 0,
     te_confidence = Fin 1\<rparr>"

definition observation_entry :: "u64 \<Rightarrow> SecurityObservation \<Rightarrow> TimelineEvent" where
  "observation_entry i obs = \<lparr>te_id = i, te_timestamp = obs_timestamp obs, te_type = map_observation_to_type (obs_kind obs),
     te_stage = map_observation_to_stage (obs_kind obs), te_level = obs_suggested_level obs, te_category = NONE,
     te_process_id = obs_process_id obs, te_process_name = obs_process_name obs, te_file_path = obs_file_path obs,
     te_source_ip = [], te_description = obs_evidence obs, te_evidence = obs_source_id obs, te_causal_parent = 0,
     te_confidence = obs_confidence obs\<rparr>"

text \<open>The part both ingest functions share once the entry is built.\<close>

definition ingest_entry :: "ForensicTimelineEngine \<Rightarrow> (u64 \<Rightarrow> TimelineEvent) \<Rightarrow> ForensicTimelineEngine" where
  "ingest_entry s entry =
     (let s1 = s\<lparr>tl_next_id := tl_next_id s + 1\<rparr>; te = link_causal s1 (entry (tl_next_id s));
          s2 = s1\<lparr>tl_events := pop_front_to MAX_EVENTS (tl_events s1 @ [te])\<rparr>; s3 = update_chains s2 te in
      s3\<lparr>tl_events_processed := tl_events_processed s3 + 1\<rparr>)"

definition ingest_threat :: "ForensicTimelineEngine \<Rightarrow> ThreatEvent \<Rightarrow> ForensicTimelineEngine" where
  "ingest_threat s ev =
     (let s' = ingest_entry s (\<lambda>i. threat_entry i ev) in
      if HIGH \<le> ev_level ev then s'\<lparr>tl_threats_detected := tl_threats_detected s' + 1\<rparr> else s')"

definition ingest_observation :: "ForensicTimelineEngine \<Rightarrow> SecurityObservation \<Rightarrow> ForensicTimelineEngine" where
  "ingest_observation s obs = ingest_entry s (\<lambda>i. observation_entry i obs)"

section \<open>The multi-stage alert and the queries\<close>

definition MULTI_STAGE :: string where "MULTI_STAGE = ''[MULTI-STAGE]''"

definition stage_seen :: "TimelineEvent list \<Rightarrow> u64 list \<Rightarrow> nat \<Rightarrow> bool" where
  "stage_seen events ids i \<longleftrightarrow>
     list_ex (\<lambda>eid. case find (\<lambda>e. te_id e = eid) events of None \<Rightarrow> False | Some e \<Rightarrow> stage_code (te_stage e) = i) ids"

definition distinct_stages :: "TimelineEvent list \<Rightarrow> u64 list \<Rightarrow> nat" where
  "distinct_stages events ids = length (filter (stage_seen events ids) [1..<8])"

definition multi_stage_alert :: "time_point \<Rightarrow> nat \<Rightarrow> nat \<Rightarrow> ThreatEvent" where
  "multi_stage_alert now stages n = \<lparr>ev_id = 0, ev_timestamp = now, ev_level = CRITICAL, ev_category = ANTI_FORENSIC,
     ev_process_id = 0, ev_process_name = [], ev_file_path = [],
     ev_description = ''Multi-stage attack detected: '' @ to_string stages @ '' kill chain stages observed across '' @
       to_string n @ '' events'', ev_source_ip = [], ev_source_port = 0, ev_quarantined = False, ev_rolled_back = False\<rparr>"

fun detect_loop :: "time_point \<Rightarrow> TimelineEvent list \<Rightarrow> CausalChain list \<Rightarrow> CausalChain list \<times> ThreatEvent list" where
  "detect_loop now events [] = ([], [])"
| "detect_loop now events (ch # chs) =
     (let distinct' = distinct_stages events (cc_event_ids ch); (rest, alerts) = detect_loop now events chs in
      if 3 \<le> distinct' \<and> \<not> contains_text MULTI_STAGE (cc_summary ch)
      then (ch\<lparr>cc_summary := MULTI_STAGE @ '' '' @ cc_summary ch\<rparr> # rest,
            multi_stage_alert now distinct' (length (cc_event_ids ch)) # alerts)
      else (ch # rest, alerts))"

definition detect_multi_stage :: "time_point \<Rightarrow> ForensicTimelineEngine \<Rightarrow> ForensicTimelineEngine \<times> ThreatEvent list" where
  "detect_multi_stage now s =
     (if \<not> tl_threat_cb s then (s, [])
      else case detect_loop now (tl_events s) (tl_chains s) of (chs, alerts) \<Rightarrow> (s\<lparr>tl_chains := chs\<rparr>, alerts))"

definition query_timeline :: "ForensicTimelineEngine \<Rightarrow> nat \<Rightarrow> TimelineEvent list" where
  "query_timeline s n = (let c = min n (length (tl_events s)) in drop (length (tl_events s) - c) (tl_events s))"

fun newest_loop :: "(TimelineEvent \<Rightarrow> bool) \<Rightarrow> nat \<Rightarrow> TimelineEvent list \<Rightarrow> TimelineEvent list \<Rightarrow> TimelineEvent list" where
  "newest_loop P n [] result = result"
| "newest_loop P n (e # es) result =
     (if length result < n then newest_loop P n es (if P e then result @ [e] else result) else result)"

definition query_by_pid :: "ForensicTimelineEngine \<Rightarrow> u32 \<Rightarrow> nat \<Rightarrow> TimelineEvent list" where
  "query_by_pid s pid n = rev (newest_loop (\<lambda>e. te_process_id e = pid) n (rev (tl_events s)) [])"

definition query_by_stage :: "ForensicTimelineEngine \<Rightarrow> KillChainStage \<Rightarrow> nat \<Rightarrow> TimelineEvent list" where
  "query_by_stage s stage n = rev (newest_loop (\<lambda>e. te_stage e = stage) n (rev (tl_events s)) [])"

definition query_time_range :: "ForensicTimelineEngine \<Rightarrow> time_point \<Rightarrow> time_point \<Rightarrow> TimelineEvent list" where
  "query_time_range s from' to' = filter (\<lambda>e. from' \<le> te_timestamp e \<and> te_timestamp e \<le> to') (tl_events s)"

definition causal_chains :: "ForensicTimelineEngine \<Rightarrow> nat \<Rightarrow> CausalChain list" where
  "causal_chains s n = (let c = min n (length (tl_chains s)) in drop (length (tl_chains s) - c) (tl_chains s))"

fun progress_loop :: "TimelineEvent list \<Rightarrow> nat list \<Rightarrow> KillChainStage \<Rightarrow> nat list \<times> KillChainStage" where
  "progress_loop [] counts furthest = (counts, furthest)"
| "progress_loop (e # es) counts furthest =
     (let idx = stage_code (te_stage e) in
      if idx < length counts
      then progress_loop es (counts[idx := counts ! idx + 1]) (if furthest < te_stage e then te_stage e else furthest)
      else progress_loop es counts furthest)"

definition kill_chain_progress :: "ForensicTimelineEngine \<Rightarrow> KillChainProgress" where
  "kill_chain_progress s =
     (case progress_loop (tl_events s) (replicate 8 0) UNKNOWN of (counts, furthest) \<Rightarrow>
        \<lparr>kp_stage_counts = counts, kp_furthest = furthest, kp_total_events = length (tl_events s),
          kp_multi_stage_detected = (3 \<le> length (filter (\<lambda>i. 0 < counts ! i) [1..<8]))\<rparr>)"

text \<open>One turn of the monitor thread.\<close>

definition monitor_round :: "time_point \<Rightarrow> ForensicTimelineEngine \<Rightarrow> ForensicTimelineEngine \<times> ThreatEvent list" where
  "monitor_round now s = (if \<not> tl_running s then (s, []) else detect_multi_stage now s)"

section \<open>Invariant\<close>

lemma link_loop_parent: "link_loop ev es = 0 \<or> (\<exists>e \<in> set es. te_id e = link_loop ev es \<and> te_process_id e = te_process_id ev)"
  by (induction ev es rule: link_loop.induct) auto

lemma link_causal_fields [simp]:
  "te_id (link_causal s ev) = te_id ev" "te_process_id (link_causal s ev) = te_process_id ev"
  "te_stage (link_causal s ev) = te_stage ev" "te_level (link_causal s ev) = te_level ev"
  by (simp_all add: link_causal_def Let_def)

definition events_ok :: "u64 \<Rightarrow> TimelineEvent list \<Rightarrow> bool" where
  "events_ok n es \<longleftrightarrow> sorted_wrt (<) (map te_id es) \<and>
     (\<forall>e \<in> set es. 0 < te_id e \<and> te_id e < n \<and> te_causal_parent e < te_id e) \<and>
     (\<forall>e \<in> set es. \<forall>p \<in> set es. te_causal_parent e = te_id p \<longrightarrow> te_process_id p = te_process_id e)"

definition chains_ok :: "u64 \<Rightarrow> CausalChain list \<Rightarrow> bool" where
  "chains_ok n chs \<longleftrightarrow>
     (\<forall>c \<in> set chs. cc_event_ids c \<noteq> [] \<and> sorted_wrt (<) (cc_event_ids c) \<and> (\<forall>i \<in> set (cc_event_ids c). 0 < i \<and> i < n)) \<and>
     distinct (concat (map cc_event_ids chs))"

definition covered :: "TimelineEvent list \<Rightarrow> CausalChain list \<Rightarrow> bool" where
  "covered es chs \<longleftrightarrow> (\<forall>c \<in> set chs. \<forall>e \<in> set es. te_id e \<in> set (cc_event_ids c) \<longrightarrow>
     te_level e \<le> cc_max_level c \<and> te_stage e \<le> cc_max_stage c \<and>
     (te_id e = hd (cc_event_ids c) \<or> te_causal_parent e \<in> set (cc_event_ids c)))"

definition tl_inv :: "ForensicTimelineEngine \<Rightarrow> bool" where
  "tl_inv s \<longleftrightarrow> length (tl_events s) \<le> MAX_EVENTS \<and> length (tl_chains s) \<le> MAX_CHAINS \<and> 0 < tl_next_id s \<and>
     events_ok (tl_next_id s) (tl_events s) \<and> chains_ok (tl_next_id s) (tl_chains s) \<and> covered (tl_events s) (tl_chains s)"

lemma events_ok_drop: "events_ok n es \<Longrightarrow> events_ok n (drop k es)"
  by (auto simp: events_ok_def drop_map [symmetric] sorted_wrt_drop dest: in_set_dropD)

lemma chains_ok_drop: "chains_ok n chs \<Longrightarrow> chains_ok n (drop k chs)"
proof -
  assume a: "chains_ok n chs"
  have "concat (map cc_event_ids chs) = concat (map cc_event_ids (take k chs)) @ concat (map cc_event_ids (drop k chs))"
    by (metis append_take_drop_id concat_append map_append)
  with a show ?thesis by (auto simp: chains_ok_def dest: in_set_dropD)
qed

lemma covered_subset: "covered es chs \<Longrightarrow> set es' \<subseteq> set es \<Longrightarrow> set chs' \<subseteq> set chs \<Longrightarrow> covered es' chs'"
  by (auto simp: covered_def)

lemma events_ok_push:
  assumes "events_ok n es" "te_id te = n" "te_causal_parent te < n" "0 < n" "n < n + 1"
    "\<And>p. p \<in> set es \<Longrightarrow> te_causal_parent te = te_id p \<Longrightarrow> te_process_id p = te_process_id te"
  shows "events_ok (n + 1) (es @ [te])"
proof -
  have "te_id e < n + 1 \<and> te_causal_parent e < n" if "e \<in> set es" for e
    using assms(1,5) that unfolding events_ok_def by (meson order.strict_trans)
  moreover have "te_id e < n" if "e \<in> set es" for e using assms(1) that by (simp add: events_ok_def)
  moreover have "te_causal_parent e \<noteq> te_id te" if "e \<in> set es" for e
    using assms(1,2) that unfolding events_ok_def by (metis order.asym order.strict_trans)
  moreover have "te_causal_parent te \<noteq> te_id te" using assms(2,3) by simp
  ultimately show ?thesis using assms by (auto simp: events_ok_def sorted_wrt_append)
qed

lemma chains_ok_mono: "chains_ok n chs \<Longrightarrow> n < m \<Longrightarrow> chains_ok m chs"
  unfolding chains_ok_def by (meson order.strict_trans)

lemma chains_ok_new: "chains_ok n chs \<Longrightarrow> n < n + 1 \<Longrightarrow> 0 < n \<Longrightarrow> cc_event_ids c = [n] \<Longrightarrow> chains_ok (n + 1) (chs @ [c])"
  using chains_ok_mono [of n chs "n + 1"] by (auto simp: chains_ok_def)

text \<open>Extending a chain: the new id joins exactly one chain, at its end.\<close>

lemma extend_chain_Some:
  assumes "extend_chain ev chs = Some chs'"
  obtains xs c ys where "chs = xs @ c # ys" "te_causal_parent ev \<in> set (cc_event_ids c)"
    "chs' = xs @ c\<lparr>cc_event_ids := cc_event_ids c @ [te_id ev], cc_max_stage := max (cc_max_stage c) (te_stage ev),
             cc_max_level := max (cc_max_level c) (te_level ev)\<rparr> # ys"
  using assms
proof (induction ev chs arbitrary: chs' thesis rule: extend_chain.induct)
  case (2 ev ch chs)
  show ?case
  proof (cases "te_causal_parent ev \<in> set (cc_event_ids ch)")
    case True
    then show ?thesis using 2(2) [of "[]" ch chs] 2(3) by simp
  next
    case False
    then obtain chs1 where c: "extend_chain ev chs = Some chs1" "chs' = ch # chs1" using 2(3) by auto
    show ?thesis
      by (rule 2(1) [OF False _ c(1)]) (use 2(2) [of "ch # _"] c(2) in auto)
  qed
qed simp

lemma chains_ok_extend:
  assumes ok: "chains_ok n (xs @ c # ys)" and n: "n < n + 1" "0 < n" and ids: "cc_event_ids c' = cc_event_ids c @ [n]"
  shows "chains_ok (n + 1) (xs @ c' # ys)"
proof -
  have lt: "i < n" if "d \<in> set (xs @ c # ys)" "i \<in> set (cc_event_ids d)" for d i
    using ok that unfolding chains_ok_def by blast
  have "chains_ok (n + 1) (xs @ c # ys)" using chains_ok_mono [OF ok n(1)] .
  moreover have "n \<notin> set (concat (map cc_event_ids (xs @ c # ys)))" using lt by fastforce
  moreover have "sorted_wrt (<) (cc_event_ids c')" using ok lt [of c] by (simp add: ids chains_ok_def sorted_wrt_append)
  ultimately show ?thesis using n by (auto simp: chains_ok_def ids)
qed

lemma ok_below:
  "chains_ok n chs \<Longrightarrow> c \<in> set chs \<Longrightarrow> i \<in> set (cc_event_ids c) \<Longrightarrow> i \<noteq> n"
  "events_ok n es \<Longrightarrow> e \<in> set es \<Longrightarrow> te_id e \<noteq> n"
  by (auto simp: chains_ok_def events_ok_def)

lemma covered_push:
  "covered es chs \<Longrightarrow> chains_ok n chs \<Longrightarrow> te_id te = n \<Longrightarrow> covered (es @ [te]) chs"
  using ok_below(1) [of n chs] by (fastforce simp: covered_def)

lemma covered_new:
  assumes "covered es chs" "chains_ok n chs" "events_ok n es" "te_id te = n" "cc_event_ids c = [n]"
    "cc_max_level c = te_level te" "cc_max_stage c = te_stage te"
  shows "covered (es @ [te]) (chs @ [c])"
  using covered_push [OF assms(1,2,4)] assms ok_below(2) [OF assms(3)] by (auto simp: covered_def)

lemma covered_extend:
  assumes cov: "covered es (xs @ c # ys)" and ok: "chains_ok n (xs @ c # ys)" "events_ok n es" and te: "te_id te = n"
    "te_causal_parent te \<in> set (cc_event_ids c)"
    and c': "c' = c\<lparr>cc_event_ids := cc_event_ids c @ [te_id te], cc_max_stage := max (cc_max_stage c) (te_stage te),
             cc_max_level := max (cc_max_level c) (te_level te)\<rparr>"
  shows "covered (es @ [te]) (xs @ c' # ys)"
proof -
  have old: "covered (es @ [te]) (xs @ c # ys)" using covered_push [OF cov ok(1) te(1)] .
  have ne: "cc_event_ids c \<noteq> []" using ok(1) by (simp add: chains_ok_def)
  have "te_level e \<le> cc_max_level c' \<and> te_stage e \<le> cc_max_stage c' \<and>
      (te_id e = hd (cc_event_ids c') \<or> te_causal_parent e \<in> set (cc_event_ids c'))"
    if e: "e \<in> set (es @ [te])" "te_id e \<in> set (cc_event_ids c')" for e
  proof (cases "e = te")
    case True
    then show ?thesis using te by (simp add: c')
  next
    case False
    with e have "e \<in> set es" "te_id e \<in> set (cc_event_ids c)" using ok_below(2) [OF ok(2)] te(1) by (auto simp: c')
    then have "te_level e \<le> cc_max_level c \<and> te_stage e \<le> cc_max_stage c \<and>
        (te_id e = hd (cc_event_ids c) \<or> te_causal_parent e \<in> set (cc_event_ids c))"
      using cov by (simp add: covered_def)
    then show ?thesis using ne by (auto simp: c' intro: max.coboundedI1)
  qed
  then show ?thesis using old by (simp add: covered_def)
qed

lemma update_chains_keeps [simp]:
  "tl_events (update_chains s ev) = tl_events s" "tl_next_id (update_chains s ev) = tl_next_id s"
  by (simp_all add: update_chains_def Let_def split: option.split)

lemma update_chains_inv:
  assumes ok: "chains_ok n (tl_chains s)" "events_ok n es" "covered es (tl_chains s)" "length (tl_chains s) \<le> MAX_CHAINS"
    and n: "n < n + 1" "0 < n" "te_id te = n"
  shows "chains_ok (n + 1) (tl_chains (update_chains s te)) \<and> covered (es @ [te]) (tl_chains (update_chains s te)) \<and>
    length (tl_chains (update_chains s te)) \<le> MAX_CHAINS"
proof (cases "if te_causal_parent te \<noteq> 0 then extend_chain te (tl_chains s) else None")
  case (Some chs)
  then have "extend_chain te (tl_chains s) = Some chs" by (simp split: if_splits)
  then obtain xs c ys where e: "tl_chains s = xs @ c # ys" "te_causal_parent te \<in> set (cc_event_ids c)"
    "chs = xs @ c\<lparr>cc_event_ids := cc_event_ids c @ [te_id te], cc_max_stage := max (cc_max_stage c) (te_stage te),
       cc_max_level := max (cc_max_level c) (te_level te)\<rparr> # ys"
    by (rule extend_chain_Some)
  have "tl_chains (update_chains s te) = chs" using Some by (simp add: update_chains_def)
  then show ?thesis
    using chains_ok_extend [OF ok(1) [unfolded e(1)] n(1,2)] covered_extend [OF ok(3) [unfolded e(1)] ok(1) [unfolded e(1)] ok(2) n(3) e(2)]
      ok(4) n(3) by (simp add: e(1,3))
next
  case None
  show ?thesis
  proof (cases "MEDIUM \<le> te_level te \<or> te_stage te \<noteq> UNKNOWN")
    case True
    let ?c = "\<lparr>cc_chain_id = tl_next_chain_id s, cc_event_ids = [te_id te], cc_max_stage = te_stage te,
        cc_max_level = te_level te, cc_summary = stage_name (te_stage te) @ '': '' @ te_description te\<rparr>"
    have eq: "tl_chains (update_chains s te) = drop (length (tl_chains s @ [?c]) - MAX_CHAINS) (tl_chains s @ [?c])"
      using None True by (simp only: update_chains_def option.case if_True Let_def pop_front_to_drop) simp
    have ok': "chains_ok (n + 1) (tl_chains s @ [?c])" using chains_ok_new [OF ok(1) n(1,2)] n(3) by simp
    have cov': "covered (es @ [te]) (tl_chains s @ [?c])" using covered_new [OF ok(3,1,2) n(3)] n(3) by simp
    have "length (drop (length (tl_chains s @ [?c]) - MAX_CHAINS) (tl_chains s @ [?c])) \<le> MAX_CHAINS" by simp
    then show ?thesis unfolding eq by (intro conjI chains_ok_drop ok' covered_subset [OF cov'] order_refl set_drop_subset)
  next
    case False
    then have "update_chains s te = s" using None by (simp add: update_chains_def)
    then show ?thesis using ok n chains_ok_mono [OF ok(1) n(1)] covered_push [OF ok(3,1) n(3)] by simp
  qed
qed

lemma ingest_entry_inv:
  assumes inv: "tl_inv s" and n: "tl_next_id s < tl_next_id s + 1"
    and entry: "te_id (entry (tl_next_id s)) = tl_next_id s" "te_causal_parent (entry (tl_next_id s)) = 0"
  shows "tl_inv (ingest_entry s entry)"
proof -
  let ?n = "tl_next_id s" and ?s1 = "s\<lparr>tl_next_id := tl_next_id s + 1\<rparr>"
  define te where "te = link_causal ?s1 (entry ?n)"
  let ?es = "tl_events s @ [te]"
  define es' where "es' = pop_front_to MAX_EVENTS ?es"
  let ?s2 = "?s1\<lparr>tl_events := es'\<rparr>"
  have es': "length es' \<le> MAX_EVENTS" "set es' \<subseteq> set ?es" unfolding es'_def pop_front_to_drop by (simp, rule set_drop_subset)
  have ok: "events_ok ?n (tl_events s)" "chains_ok ?n (tl_chains s)" "covered (tl_events s) (tl_chains s)" "0 < ?n"
    using inv by (simp_all add: tl_inv_def)
  have id: "te_id te = ?n" by (simp add: te_def entry)
  have par: "te_causal_parent te = 0 \<or> (\<exists>e \<in> set (tl_events s). te_id e = te_causal_parent te \<and> te_process_id e = te_process_id te)"
    using link_loop_parent [of "entry ?n" "rev (tl_events s)"] by (auto simp: te_def link_causal_def entry Let_def)
  have push: "events_ok (?n + 1) ?es"
  proof (rule events_ok_push [OF ok(1) id _ ok(4) n])
    show "te_causal_parent te < ?n" using par ok(1,4) by (auto simp: events_ok_def)
    show "te_process_id p = te_process_id te" if p: "p \<in> set (tl_events s)" "te_causal_parent te = te_id p" for p
    proof -
      have "te_id p \<noteq> 0" using p ok(1) by (auto simp: events_ok_def)
      then obtain e where e: "e \<in> set (tl_events s)" "te_id e = te_id p" "te_process_id e = te_process_id te" using par p by auto
      have "distinct (map te_id (tl_events s))" using ok(1) by (simp add: events_ok_def strict_sorted_iff)
      then have "inj_on te_id (set (tl_events s))" by (simp add: distinct_map)
      then show ?thesis using e p by (metis inj_onD)
    qed
  qed
  have up: "chains_ok (?n + 1) (tl_chains (update_chains ?s2 te)) \<and> covered ?es (tl_chains (update_chains ?s2 te)) \<and>
      length (tl_chains (update_chains ?s2 te)) \<le> MAX_CHAINS"
    by (rule update_chains_inv) (use ok n id inv in \<open>simp_all add: tl_inv_def\<close>)
  have "0 < ?n + 1" using n ok(4) by (meson order.strict_trans)
  moreover have "events_ok (?n + 1) es'" unfolding es'_def pop_front_to_drop by (rule events_ok_drop [OF push])
  moreover have "covered es' (tl_chains (update_chains ?s2 te))" using covered_subset [OF _ es'(2) order_refl] up by blast
  ultimately show ?thesis using up es'(1) by (simp add: tl_inv_def ingest_entry_def Let_def flip: te_def es'_def)
qed

section \<open>The alert\<close>

definition needs_alert :: "TimelineEvent list \<Rightarrow> CausalChain \<Rightarrow> bool" where
  "needs_alert events c \<longleftrightarrow> 3 \<le> distinct_stages events (cc_event_ids c) \<and> \<not> contains_text MULTI_STAGE (cc_summary c)"

definition mark_chain :: "TimelineEvent list \<Rightarrow> CausalChain \<Rightarrow> CausalChain" where
  "mark_chain events c = (if needs_alert events c then c\<lparr>cc_summary := MULTI_STAGE @ '' '' @ cc_summary c\<rparr> else c)"

lemma detect_loop_eq:
  "detect_loop now events chs = (map (mark_chain events) chs,
     map (\<lambda>c. multi_stage_alert now (distinct_stages events (cc_event_ids c)) (length (cc_event_ids c))) (filter (needs_alert events) chs))"
  by (induction now events chs rule: detect_loop.induct) (simp_all add: Let_def mark_chain_def needs_alert_def)

lemma mark_chain_fields [simp]:
  "cc_event_ids (mark_chain events c) = cc_event_ids c" "cc_max_level (mark_chain events c) = cc_max_level c"
  "cc_max_stage (mark_chain events c) = cc_max_stage c" "cc_chain_id (mark_chain events c) = cc_chain_id c"
  by (simp_all add: mark_chain_def)

lemma mark_chain_done: "\<not> needs_alert events (mark_chain events c)"
proof (cases "needs_alert events c")
  case True
  have "contains_text MULTI_STAGE ([] @ MULTI_STAGE @ '' '' @ cc_summary c)" unfolding contains_text_iff by blast
  with True show ?thesis by (simp add: mark_chain_def needs_alert_def)
qed (simp add: mark_chain_def)

lemma detect_fields [simp]:
  "tl_events (fst (detect_multi_stage now s)) = tl_events s" "tl_next_id (fst (detect_multi_stage now s)) = tl_next_id s"
  "tl_threat_cb (fst (detect_multi_stage now s)) = tl_threat_cb s"
  by (simp_all add: detect_multi_stage_def detect_loop_eq)

lemma detect_inv: "tl_inv s \<Longrightarrow> tl_inv (fst (detect_multi_stage now s))"
  by (auto simp: tl_inv_def detect_multi_stage_def detect_loop_eq chains_ok_def covered_def comp_def)

section \<open>Runs\<close>

datatype tl_op = TThreat ThreatEvent | TObservation SecurityObservation | TMonitor time_point | TStart | TStop | TCallback bool

fun tl_exec :: "tl_op \<Rightarrow> ForensicTimelineEngine \<Rightarrow> ForensicTimelineEngine" where
  "tl_exec (TThreat ev) s = ingest_threat s ev"
| "tl_exec (TObservation obs) s = ingest_observation s obs"
| "tl_exec (TMonitor now) s = fst (monitor_round now s)"
| "tl_exec TStart s = snd (timeline_start s)"
| "tl_exec TStop s = snd (timeline_stop s)"
| "tl_exec (TCallback cb) s = timeline_on_threat cb s"

lemma ingest_next_id [simp]:
  "tl_next_id (ingest_threat s ev) = tl_next_id s + 1" "tl_next_id (ingest_observation s obs) = tl_next_id s + 1"
  by (simp_all add: ingest_threat_def ingest_observation_def ingest_entry_def Let_def)

lemma tl_inv_threats [simp]: "tl_inv (s\<lparr>tl_threats_detected := n\<rparr>) = tl_inv s" "tl_inv (s\<lparr>tl_running := b\<rparr>) = tl_inv s"
  "tl_inv (s\<lparr>tl_threat_cb := b\<rparr>) = tl_inv s"
  by (simp_all add: tl_inv_def)

lemma tl_exec_inv: "tl_inv s \<Longrightarrow> tl_next_id s < tl_next_id s + 1 \<Longrightarrow> tl_inv (tl_exec op s)"
  using ingest_entry_inv [of s] detect_inv
  by (cases op) (simp_all add: ingest_threat_def ingest_observation_def Let_def threat_entry_def observation_entry_def
      monitor_round_def timeline_start_def timeline_stop_def timeline_on_threat_def)

lemma tl_exec_next_id: "tl_next_id (tl_exec op s) = tl_next_id s \<or> tl_next_id (tl_exec op s) = tl_next_id s + 1"
  by (cases op) (simp_all add: monitor_round_def timeline_start_def timeline_stop_def timeline_on_threat_def)

lemma tl_run_inv:
  "tl_inv s \<Longrightarrow> unat (tl_next_id s) + length ops < 2 ^ 64 \<Longrightarrow> tl_inv (fold tl_exec ops s)"
proof (induction ops arbitrary: s)
  case (Cons op ops)
  have n: "unat (tl_next_id s + 1) = unat (tl_next_id s) + 1" using Cons.prems(2) by (simp add: unat_word_ariths)
  then have lt: "tl_next_id s < tl_next_id s + 1" by (simp add: word_less_nat_alt)
  have "unat (tl_next_id (tl_exec op s)) \<le> unat (tl_next_id s) + 1" using tl_exec_next_id [of op s] n by auto
  then show ?case using Cons.IH [OF tl_exec_inv [OF Cons.prems(1) lt]] Cons.prems(2) by simp
qed simp

lemma tl_inv_new: "tl_inv ForensicTimelineEngine_new"
  by (simp add: tl_inv_def ForensicTimelineEngine_new_def events_ok_def chains_ok_def covered_def)

section \<open>Queries\<close>

lemma newest_loop_eq: "newest_loop P n es result = result @ take (n - length result) (filter P es)"
  by (induction P n es result rule: newest_loop.induct) (auto simp: take_Cons')

lemma newest_last_n: "rev (newest_loop P n (rev es) []) = last_n n (filter P es)"
  by (simp add: newest_loop_eq last_n_def rev_filter [symmetric] rev_take)

lemma progress_loop_eq:
  "length counts = 8 \<Longrightarrow> progress_loop es counts f =
     (map (\<lambda>k. counts ! k + length (filter (\<lambda>e. stage_code (te_stage e) = k) es)) [0..<8], fold max (map te_stage es) f)"
proof (induction es counts f rule: progress_loop.induct)
  case (1 counts f)
  then show ?case using map_nth [of counts] by simp
next
  case (2 e es counts f)
  have "stage_code (te_stage e) < length counts" using 2(3) stage_code_less by simp
  with 2(1) [OF refl] 2(3) show ?case by (auto simp: Let_def nth_list_update max_def intro!: map_cong)
qed

section \<open>Properties\<close>

text \<open>
  C14. The timeline after any sequence of calls (fewer than \<open>2 ^ 64 - 1\<close>): at most 5000 events and 200 chains;
  event ids increase along the timeline and no causal link points forward, so links cannot form a cycle; an event
  and its parent belong to the same process; chains are non-empty, increasing and pairwise disjoint; every event
  of a chain is bounded by the chain's maximal level and stage and, unless it starts the chain, has its parent in it.
\<close>

theorem timeline_invariant:
  assumes "length ops < 2 ^ 64 - 1" "s = fold tl_exec ops ForensicTimelineEngine_new"
  shows "length (tl_events s) \<le> 5000 \<and> length (tl_chains s) \<le> 200 \<and> sorted_wrt (<) (map te_id (tl_events s)) \<and>
    (\<forall>e \<in> set (tl_events s). te_causal_parent e < te_id e \<and>
       (\<forall>p \<in> set (tl_events s). te_id p = te_causal_parent e \<longrightarrow> te_process_id p = te_process_id e)) \<and>
    (\<forall>c \<in> set (tl_chains s). cc_event_ids c \<noteq> [] \<and> sorted_wrt (<) (cc_event_ids c) \<and>
       (\<forall>e \<in> set (tl_events s). te_id e \<in> set (cc_event_ids c) \<longrightarrow> te_level e \<le> cc_max_level c \<and> te_stage e \<le> cc_max_stage c \<and>
          (te_id e = hd (cc_event_ids c) \<or> te_causal_parent e \<in> set (cc_event_ids c)))) \<and>
    distinct (concat (map cc_event_ids (tl_chains s)))"
proof -
  have "tl_inv s" unfolding assms(2) by (rule tl_run_inv [OF tl_inv_new]) (use assms(1) in \<open>simp add: ForensicTimelineEngine_new_def\<close>)
  then show ?thesis by (auto simp: tl_inv_def events_ok_def chains_ok_def covered_def MAX_EVENTS_def MAX_CHAINS_def)
qed

definition sample_threat :: ThreatEvent where
  "sample_threat = \<lparr>ev_id = 0, ev_timestamp = 0, ev_level = HIGH, ev_category = SHELLCODE, ev_process_id = 7, ev_process_name = ''p'',
     ev_file_path = [], ev_description = ''d'', ev_source_ip = [], ev_source_port = 0, ev_quarantined = False, ev_rolled_back = False\<rparr>"

lemma sample_timeline: "map te_causal_parent (tl_events (fold tl_exec [TThreat sample_threat, TThreat sample_threat] ForensicTimelineEngine_new)) = [0, 1]"
  by code_simp

theorem timeline_invariant_witness:
  "let s = fold tl_exec [TThreat sample_threat, TThreat sample_threat] ForensicTimelineEngine_new in
     map te_causal_parent (tl_events s) = [0, 1] \<and> sorted_wrt (<) (map te_id (tl_events s))"
  using timeline_invariant [OF _ refl, of "[TThreat sample_threat, TThreat sample_threat]"] sample_timeline by (simp add: Let_def)

text \<open>
  The multi-stage alert: with a callback set, one CRITICAL alert is raised for exactly the chains that span
  three known stages among their logged events and do not carry the marker in their summary; these chains get the
  marker, nothing else changes, and a second run on the result raises nothing. Without a callback nothing happens.
\<close>

theorem multi_stage_alerts:
  "(let (s', alerts) = detect_multi_stage now s;
        hit = (\<lambda>c. tl_threat_cb s \<and> 3 \<le> distinct_stages (tl_events s) (cc_event_ids c) \<and> \<not> contains_text MULTI_STAGE (cc_summary c)) in
    alerts = map (\<lambda>c. multi_stage_alert now (distinct_stages (tl_events s) (cc_event_ids c)) (length (cc_event_ids c)))
      (filter hit (tl_chains s)) \<and>
    s' = s\<lparr>tl_chains := map (\<lambda>c. if hit c then c\<lparr>cc_summary := MULTI_STAGE @ '' '' @ cc_summary c\<rparr> else c) (tl_chains s)\<rparr> \<and>
    detect_multi_stage now' s' = (s', []))"
proof (cases "tl_threat_cb s")
  case True
  have "filter (needs_alert es) (map (mark_chain es) chs) = []" for es chs using mark_chain_done by (auto simp: filter_empty_conv)
  moreover have "mark_chain es (mark_chain es c) = mark_chain es c" for es c
    using mark_chain_done [of es c] unfolding mark_chain_def [of es "mark_chain es c"] by simp
  ultimately show ?thesis using True
    by (auto simp: detect_multi_stage_def detect_loop_eq Let_def comp_def simp flip: needs_alert_def mark_chain_def)
qed (simp add: detect_multi_stage_def)

text \<open>
  A description can switch the alert off: when the event that starts a chain carries the marker text in its
  description, the chain's summary contains it, and no alert is ever raised for that chain.
\<close>

theorem marker_in_description_suppresses:
  "tl_chains (update_chains s (ev\<lparr>te_causal_parent := 0, te_level := CRITICAL, te_description := xs @ MULTI_STAGE @ ys\<rparr>)) \<noteq> [] \<and>
   (let c = last (tl_chains (update_chains s (ev\<lparr>te_causal_parent := 0, te_level := CRITICAL, te_description := xs @ MULTI_STAGE @ ys\<rparr>))) in
    cc_event_ids c = [te_id ev] \<and> contains_text MULTI_STAGE (cc_summary c) \<and>
    detect_loop now events [c\<lparr>cc_event_ids := ids\<rparr>] = ([c\<lparr>cc_event_ids := ids\<rparr>], []))"
proof -
  define te where "te = ev\<lparr>te_causal_parent := 0, te_level := CRITICAL, te_description := xs @ MULTI_STAGE @ ys\<rparr>"
  define c where "c = \<lparr>cc_chain_id = tl_next_chain_id s, cc_event_ids = [te_id te], cc_max_stage = te_stage te,
    cc_max_level = te_level te, cc_summary = stage_name (te_stage te) @ '': '' @ te_description te\<rparr>"
  have "tl_chains (update_chains s te) = pop_front_to MAX_CHAINS (tl_chains s @ [c])"
    unfolding update_chains_def c_def by (simp add: te_def level_order Let_def)
  then have u: "tl_chains (update_chains s te) \<noteq> []" "last (tl_chains (update_chains s te)) = c"
    by (simp_all add: pop_front_to_drop MAX_CHAINS_def Suc_diff_le)
  have "cc_summary c = (stage_name (te_stage te) @ '': '' @ xs) @ MULTI_STAGE @ ys" by (simp add: c_def te_def)
  then have "contains_text MULTI_STAGE (cc_summary c)" unfolding contains_text_iff by blast
  moreover have "cc_event_ids c = [te_id ev]" by (simp add: c_def te_def)
  ultimately show ?thesis using u by (simp add: Let_def flip: te_def)
qed

text \<open>
  The queries return the newest matching events in timeline order, at most as many as asked for, and the
  progress report counts the logged events per stage.
\<close>

theorem timeline_queries:
  "query_timeline s n = last_n n (tl_events s) \<and>
   query_by_pid s pid n = last_n n (filter (\<lambda>e. te_process_id e = pid) (tl_events s)) \<and>
   query_by_stage s stage n = last_n n (filter (\<lambda>e. te_stage e = stage) (tl_events s)) \<and>
   causal_chains s n = last_n n (tl_chains s) \<and>
   kp_stage_counts (kill_chain_progress s) = map (\<lambda>k. length (filter (\<lambda>e. stage_code (te_stage e) = k) (tl_events s))) [0..<8] \<and>
   kp_furthest (kill_chain_progress s) = Max (insert UNKNOWN (te_stage ` set (tl_events s)))"
proof -
  have "query_timeline s n = last_n n (tl_events s)" "causal_chains s n = last_n n (tl_chains s)"
    by (auto simp: query_timeline_def causal_chains_def last_n_def Let_def min_def)
  moreover have "fold max (map te_stage (tl_events s)) UNKNOWN = Max (insert UNKNOWN (te_stage ` set (tl_events s)))"
    using Max.set_eq_fold [of UNKNOWN "map te_stage (tl_events s)"] by simp
  moreover have "map (\<lambda>k. replicate 8 0 ! k + f k) [0..<8] = map f [0..<8]" for f :: "nat \<Rightarrow> nat" by (rule map_cong) simp_all
  ultimately show ?thesis
    by (simp add: query_by_pid_def query_by_stage_def newest_last_n kill_chain_progress_def progress_loop_eq)
qed

end
