(* ===== verification/Engine_Manager.thy ===== *)
theory Engine_Manager
  imports Pipeline Quarantine Policy_Store Legacy_Adapter Forensic_Timeline
begin

text \<open>
  \<^verbatim>\<open>engine_manager.{hpp,cpp}\<close>: the composition root. It owns the engines, the event log, the security pipeline,
  the forensic timeline and the quarantine executor, and offers the approval workflow. The detection engines are
  seen through \<^verbatim>\<open>ISecurityEngine\<close> only: their names, whether they run and what they report; the outcomes of their
  start and stop functions, of the ETW session and of the worker thread are arguments. Log output and the global
  callback are left out. The run lemmas project every run of the manager to a run of the pipeline and to
  a sequence of executor calls.
\<close>

section \<open>State\<close>

record EngineStatus =
  es_name :: string
  es_running :: bool
  es_events_processed :: u64
  es_threats_detected :: u64
  es_cpu_percent :: double
  es_memory_bytes :: nat

record EngineManager =
  em_engines :: "EngineStatus list"
  em_timeline :: "ForensicTimelineEngine option"
  em_event_log :: "ThreatEvent list"
  em_next_id :: u64
  em_pipeline :: "SecurityPipeline option"
  em_etw_running :: bool
  em_last_inspection_ms :: int
  em_poll_running :: bool
  em_quarantine :: QuarantineExecutor

text \<open>The engines in construction order, by the names their \<^verbatim>\<open>name()\<close> functions return.\<close>

definition engine_names :: "string list" where
  "engine_names = [''PMSR'', ''ETG-RI'', ''ARHS'', ''ZRGP'', ''SelfDefense'', ''SyscallGuard'', ''KernelMon'', ''RegMon'', ''FIM'',
     ''DnsMon'', ''YARA'', ''Firewall'', ''Sandbox'', ''ThreatIntel'', ''AutoUpdate'', ''BehaviorML'', ''ForensicTimeline'',
     ''VulnScanner'', ''RansomwareShield'', ''CredentialGuard'', ''NetworkDPI'', ''DeviceControl'', ''AMSI-Guard'',
     ''WMI-BITS-Defense'', ''NamedPipe-Defense'', ''ReflectiveInjection'', ''DriverGuard'', ''WebhookEngine'',
     ''PeStaticAnalysis'', ''LolbinsGuard'', ''FilelessAstGuard'']"

definition idle_engine :: "string \<Rightarrow> EngineStatus" where
  "idle_engine n = \<lparr>es_name = n, es_running = False, es_events_processed = 0, es_threats_detected = 0,
     es_cpu_percent = Fin 0, es_memory_bytes = 0\<rparr>"

text \<open>
  The constructor: the pipeline and the executor each load the policy file; the timeline engine gets the manager's
  threat callback like every engine.
\<close>

definition EngineManager_new :: "string option \<Rightarrow> string \<Rightarrow> string option \<Rightarrow> fs \<Rightarrow> EngineManager" where
  "EngineManager_new policy_file vault_path ledger_file fs =
     \<lparr>em_engines = map idle_engine engine_names,
       em_timeline = Some (timeline_on_threat True ForensicTimelineEngine_new),
       em_event_log = [], em_next_id = 1,
       em_pipeline = Some (SecurityPipeline_new 1024 (PolicyStore_load policy_file)),
       em_etw_running = False, em_last_inspection_ms = 0, em_poll_running = False,
       em_quarantine = QuarantineExecutor_new vault_path (PolicyStore_load policy_file) ledger_file fs\<rparr>"

section \<open>Starting and stopping\<close>

text \<open>What an engine's start or stop function does: the returned code or an exception, and whether it runs afterwards.\<close>

datatype engine_outcome = Returned ErrorCode bool | Threw bool

fun runs_after :: "engine_outcome \<Rightarrow> bool" where
  "runs_after (Returned rc b) = b"
| "runs_after (Threw b) = b"

record start_env =
  sv_spawned :: bool
  sv_etw_rc :: ErrorCode
  sv_etw_running :: bool
  sv_engines :: "string \<Rightarrow> engine_outcome"

text \<open>
  The polling thread runs exactly while its flag is set, since \<^verbatim>\<open>stop_all\<close> joins it. Assigning a new thread to
  \<^verbatim>\<open>process_poll_thread_\<close> while it still runs ends the process by \<^verbatim>\<open>std::terminate\<close>: the value None.
\<close>

definition start_all :: "start_env \<Rightarrow> EngineManager \<Rightarrow> (ErrorCode \<times> EngineManager) option" where
  "start_all env m =
     (let (rc, m1) = (case em_pipeline m of
            None \<Rightarrow> (OK, m)
          | Some p \<Rightarrow> (case pipeline_start (sv_spawned env) p of (rc, p') \<Rightarrow> (rc, m\<lparr>em_pipeline := Some p'\<rparr>))) in
      if rc \<noteq> OK then Some (ERR_ENGINE_START, m1)
      else if sv_etw_rc env \<noteq> OK \<and> em_poll_running m1 then None
      else
        let m2 = m1\<lparr>em_etw_running := (sv_etw_rc env = OK \<and> sv_etw_running env)\<rparr>;
            m3 = (if sv_etw_rc env \<noteq> OK then m2\<lparr>em_poll_running := True\<rparr> else m2);
            m4 = (if runs_after (sv_engines env ''ForensicTimeline'')
                  then m3\<lparr>em_timeline := map_option (\<lambda>t. snd (timeline_start t)) (em_timeline m3)\<rparr> else m3)
        in Some (OK, m4\<lparr>em_engines := map (\<lambda>e. e\<lparr>es_running := runs_after (sv_engines env (es_name e))\<rparr>) (em_engines m4)\<rparr>))"

definition stop_all :: "(string \<Rightarrow> bool) \<Rightarrow> (nat \<Rightarrow> time_point) \<Rightarrow> EngineManager \<Rightarrow> ErrorCode \<times> EngineManager" where
  "stop_all still_running clock m =
     (let m1 = m\<lparr>em_poll_running := False,
            em_engines := map (\<lambda>e. if es_running e then e\<lparr>es_running := still_running (es_name e)\<rparr> else e) (em_engines m),
            em_etw_running := False,
            em_timeline := map_option (\<lambda>t. if tl_running t then snd (timeline_stop t) else t) (em_timeline m)\<rparr>
      in (OK, m1\<lparr>em_pipeline := map_option (\<lambda>p. snd (pipeline_stop clock p)) (em_pipeline m1)\<rparr>))"

definition all_running :: "EngineManager \<Rightarrow> bool" where
  "all_running m \<longleftrightarrow> list_all es_running (em_engines m) \<and> em_engines m \<noteq> []"

definition stopped_engines :: "EngineManager \<Rightarrow> string list" where
  "stopped_engines m = map es_name (filter (\<lambda>e. \<not> es_running e) (em_engines m))"

definition engine :: "EngineManager \<Rightarrow> string \<Rightarrow> EngineStatus option" where
  "engine m n = find (\<lambda>e. es_name e = n) (em_engines m)"

definition statuses :: "EngineManager \<Rightarrow> EngineStatus list" where
  "statuses m = em_engines m"

definition total_engine_events :: "EngineManager \<Rightarrow> u64" where
  "total_engine_events m = foldl (\<lambda>sum e. sum + es_events_processed e) 0 (em_engines m)"

section \<open>Events and observations\<close>

definition log_push :: "ThreatEvent list \<Rightarrow> ThreatEvent \<Rightarrow> ThreatEvent list" where
  "log_push lg ev = (let l = lg @ [ev] in if 10000 < length l then drop 5000 l else l)"

definition pipe_publish :: "SecurityObservation \<Rightarrow> EngineManager \<Rightarrow> EngineManager" where
  "pipe_publish obs m = m\<lparr>em_pipeline := map_option (\<lambda>p. snd (pipeline_publish p obs)) (em_pipeline m)\<rparr>"

definition push_event :: "time_point \<Rightarrow> ThreatEvent \<Rightarrow> string \<Rightarrow> EngineManager \<Rightarrow> EngineManager" where
  "push_event now ev engine_source m =
     (let ev' = ev\<lparr>ev_id := em_next_id m, ev_timestamp := now\<rparr>;
          m1 = m\<lparr>em_next_id := em_next_id m + 1, em_event_log := log_push (em_event_log m) ev'\<rparr>;
          m2 = m1\<lparr>em_timeline := map_option (\<lambda>t. ingest_threat t ev') (em_timeline m1)\<rparr>
      in pipe_publish (adapt_legacy_event ev' engine_source) m2)"

definition publish_observation :: "SecurityObservation \<Rightarrow> EngineManager \<Rightarrow> EngineManager" where
  "publish_observation obs m =
     pipe_publish obs (m\<lparr>em_timeline := map_option (\<lambda>t. ingest_observation t obs) (em_timeline m)\<rparr>)"

text \<open>The timeline's monitor thread hands its alerts to the callback the constructor installed.\<close>

definition timeline_monitor :: "time_point \<Rightarrow> EngineManager \<Rightarrow> EngineManager" where
  "timeline_monitor now m =
     (case em_timeline m of
        None \<Rightarrow> m
      | Some t \<Rightarrow> (case monitor_round now t of (t', alerts) \<Rightarrow>
          fold (\<lambda>ev. push_event now ev ''ForensicTimeline'') alerts (m\<lparr>em_timeline := Some t'\<rparr>)))"

definition recent_events :: "EngineManager \<Rightarrow> nat \<Rightarrow> ThreatEvent list" where
  "recent_events m n = last_n n (em_event_log m)"

definition total_threats :: "EngineManager \<Rightarrow> nat" where
  "total_threats m = length (em_event_log m)"

definition duration_minutes :: "int \<Rightarrow> int" where
  "duration_minutes d = (if d < 0 then - ((- d) div minutes 1) else d div minutes 1)"

fun level_loop :: "time_point \<Rightarrow> ThreatEvent list \<Rightarrow> ThreatLevel \<Rightarrow> ThreatLevel" where
  "level_loop now [] max_level = max_level"
| "level_loop now (e # es) max_level =
     (if 10 < duration_minutes (now - ev_timestamp e) then max_level
      else level_loop now es (if max_level < ev_level e then ev_level e else max_level))"

definition current_threat_level :: "time_point \<Rightarrow> EngineManager \<Rightarrow> ThreatLevel" where
  "current_threat_level now m = (if em_event_log m = [] then SAFE else level_loop now (rev (em_event_log m)) SAFE)"

fun histogram_loop :: "ThreatEvent list \<Rightarrow> nat list \<Rightarrow> nat list" where
  "histogram_loop [] h = h"
| "histogram_loop (e # es) h =
     (let i = level_code (ev_level e) in histogram_loop es (if i < length h then h[i := h ! i + 1] else h))"

definition severity_histogram :: "EngineManager \<Rightarrow> nat list" where
  "severity_histogram m = histogram_loop (em_event_log m) (replicate 5 0)"

text \<open>
  \<^verbatim>\<open>std::map\<close> lists the categories by their code; \<^verbatim>\<open>std::sort\<close> then orders by descending count. Categories with
  equal counts keep the order of their codes here.
\<close>

definition category_counts :: "ThreatEvent list \<Rightarrow> (ThreatCategory \<times> nat) list" where
  "category_counts lg =
     map (\<lambda>c. (c, length (filter (\<lambda>e. ev_category e = c) lg))) (sort_key category_code (remdups (map ev_category lg)))"

definition category_histogram :: "EngineManager \<Rightarrow> (ThreatCategory \<times> nat) list" where
  "category_histogram m = sort_key (\<lambda>(c, n). - int n) (category_counts (em_event_log m))"

section \<open>The approval workflow\<close>

definition recent_security_findings :: "EngineManager \<Rightarrow> nat \<Rightarrow> SecurityFinding list" where
  "recent_security_findings m n = (case em_pipeline m of None \<Rightarrow> [] | Some p \<Rightarrow> recent_findings p n)"

definition recent_remediation_candidates :: "EngineManager \<Rightarrow> nat \<Rightarrow> RemediationCandidate list" where
  "recent_remediation_candidates m n = (case em_pipeline m of None \<Rightarrow> [] | Some p \<Rightarrow> recent_candidates p n)"

definition find_remediation_candidate :: "EngineManager \<Rightarrow> u64 \<Rightarrow> RemediationCandidate option" where
  "find_remediation_candidate m i = (case em_pipeline m of None \<Rightarrow> None | Some p \<Rightarrow> find_candidate p i)"

definition approve_remediation :: "u64 \<Rightarrow> EngineManager \<Rightarrow> ErrorCode \<times> EngineManager" where
  "approve_remediation i m = (case em_pipeline m of
     None \<Rightarrow> (ERR_NOT_FOUND, m)
   | Some p \<Rightarrow> (case approve_candidate p i of (rc, p') \<Rightarrow> (rc, m\<lparr>em_pipeline := Some p'\<rparr>)))"

definition reject_remediation :: "u64 \<Rightarrow> EngineManager \<Rightarrow> ErrorCode \<times> EngineManager" where
  "reject_remediation i m = (case em_pipeline m of
     None \<Rightarrow> (ERR_NOT_FOUND, m)
   | Some p \<Rightarrow> (case reject_candidate p i of (rc, p') \<Rightarrow> (rc, m\<lparr>em_pipeline := Some p'\<rparr>)))"

definition execute_quarantine :: "fs_env \<Rightarrow> u64 \<Rightarrow> EngineManager \<Rightarrow> ErrorCode \<times> QuarantineRecord option \<times> EngineManager" where
  "execute_quarantine env i m = (case find_remediation_candidate m i of
     None \<Rightarrow> (ERR_NOT_FOUND, None, m)
   | Some candidate \<Rightarrow> (case quarantine env (em_quarantine m) candidate of
       (rc, r, x) \<Rightarrow> (rc, r, m\<lparr>em_quarantine := x\<rparr>)))"

definition restore_quarantine :: "fs_env \<Rightarrow> u64 \<Rightarrow> EngineManager \<Rightarrow> ErrorCode \<times> EngineManager" where
  "restore_quarantine env i m = (case restore env (em_quarantine m) i of (rc, x) \<Rightarrow> (rc, m\<lparr>em_quarantine := x\<rparr>))"

definition shred_quarantine :: "fs_env \<Rightarrow> u64 \<Rightarrow> EngineManager \<Rightarrow> ErrorCode \<times> EngineManager" where
  "shred_quarantine env i m = (case shred env (em_quarantine m) i of (rc, x) \<Rightarrow> (rc, m\<lparr>em_quarantine := x\<rparr>))"

definition recent_quarantine_records :: "EngineManager \<Rightarrow> nat \<Rightarrow> QuarantineRecord list" where
  "recent_quarantine_records m n = records (em_quarantine m) n"

section \<open>Process inspection\<close>

text \<open>Whether a started process is inspected: at most once per 250 milliseconds of the clock.\<close>

definition process_started :: "int \<Rightarrow> EngineManager \<Rightarrow> bool \<times> EngineManager" where
  "process_started now_ms m =
     (if em_pipeline m = None then (False, m)
      else if now_ms - em_last_inspection_ms m < 250 then (False, m)
      else (True, m\<lparr>em_last_inspection_ms := now_ms\<rparr>))"

text \<open>One pass of the polling fallback over the current processes, each with the clock read for it.\<close>

fun poll_pass :: "u32 list \<Rightarrow> (u32 \<times> int) list \<Rightarrow> int \<Rightarrow> (u32 \<times> int) list \<times> int" where
  "poll_pass known [] last_ms = ([], last_ms)"
| "poll_pass known ((pid, now_ms) # rest) last_ms =
     (if pid \<in> set known then poll_pass known rest last_ms
      else if now_ms - last_ms < 250 then poll_pass known rest last_ms
      else case poll_pass known rest now_ms of (inspected, last_ms') \<Rightarrow> ((pid, now_ms) # inspected, last_ms'))"

definition process_poll_round :: "u32 list \<Rightarrow> (u32 \<times> int) list \<Rightarrow> EngineManager \<Rightarrow> (u32 \<times> int) list \<times> u32 list \<times> EngineManager" where
  "process_poll_round known procs m =
     (if \<not> em_poll_running m then ([], known, m)
      else case poll_pass known procs (em_last_inspection_ms m) of
        (inspected, last_ms) \<Rightarrow> (inspected, map fst procs, m\<lparr>em_last_inspection_ms := last_ms\<rparr>))"

section \<open>Runs\<close>

text \<open>
  The calls on the manager, in the order their effects take place: \<open>MPush\<close> and \<open>MObserve\<close> come from the engines,
  \<open>MSensor\<close> from the ETW consumer and the polling fallback, \<open>MMonitor\<close> from the timeline thread and \<open>MWorker\<close>
  is one round of the pipeline worker. A start that ends the process leaves the state as it was.
\<close>

datatype em_op = MStart start_env | MStop "string \<Rightarrow> bool" "nat \<Rightarrow> time_point" | MPush time_point ThreatEvent string
  | MObserve SecurityObservation | MSensor SecurityObservation | MMonitor time_point | MWorker time_point
  | MApprove u64 | MReject u64 | MQuarantine fs_env u64 | MRestore fs_env u64 | MShred fs_env u64

fun em_exec :: "em_op \<Rightarrow> EngineManager \<Rightarrow> EngineManager" where
  "em_exec (MStart env) m = (case start_all env m of None \<Rightarrow> m | Some (rc, m') \<Rightarrow> m')"
| "em_exec (MStop still clock) m = snd (stop_all still clock m)"
| "em_exec (MPush now ev src) m = push_event now ev src m"
| "em_exec (MObserve obs) m = publish_observation obs m"
| "em_exec (MSensor obs) m = pipe_publish obs m"
| "em_exec (MMonitor now) m = timeline_monitor now m"
| "em_exec (MWorker now) m = m\<lparr>em_pipeline := map_option (\<lambda>p. if pl_worker p then worker_round p now else p) (em_pipeline m)\<rparr>"
| "em_exec (MApprove i) m = snd (approve_remediation i m)"
| "em_exec (MReject i) m = snd (reject_remediation i m)"
| "em_exec (MQuarantine env i) m = snd (snd (execute_quarantine env i m))"
| "em_exec (MRestore env i) m = snd (restore_quarantine env i m)"
| "em_exec (MShred env i) m = snd (shred_quarantine env i m)"

text \<open>The observations a sequence of calls hands to the pipeline.\<close>

definition em_published :: "em_op list \<Rightarrow> SecurityObservation set" where
  "em_published ops = {obs. MObserve obs \<in> set ops \<or> MSensor obs \<in> set ops \<or>
     (\<exists>now ev src. MPush now ev src \<in> set ops \<and> obs = adapt_legacy_event (ev\<lparr>ev_timestamp := now\<rparr>) src) \<or>
     (\<exists>now a b. MMonitor now \<in> set ops \<and> obs = adapt_legacy_event (multi_stage_alert now a b) ''ForensicTimeline'')}"

lemma adapt_ignores_id: "adapt_legacy_event (ev\<lparr>ev_id := i, ev_timestamp := now\<rparr>) src = adapt_legacy_event (ev\<lparr>ev_timestamp := now\<rparr>) src"
  unfolding adapt_legacy_event_def Let_def by (simp split: option.split)

lemma push_event_fields [simp]:
  "em_pipeline (push_event now ev src m) =
     map_option (\<lambda>p. snd (pipeline_publish p (adapt_legacy_event (ev\<lparr>ev_timestamp := now\<rparr>) src))) (em_pipeline m)"
  "em_quarantine (push_event now ev src m) = em_quarantine m"
  by (simp_all add: push_event_def pipe_publish_def Let_def adapt_ignores_id)

lemma push_events_pipeline:
  "em_pipeline m = Some p \<Longrightarrow> \<exists>p'. em_pipeline (fold (\<lambda>ev. push_event now ev src) evs m) = Some p' \<and>
     pl_run (map (\<lambda>ev. APublish (adapt_legacy_event (ev\<lparr>ev_timestamp := now\<rparr>) src)) evs) p p'"
proof (induction evs arbitrary: m p)
  case (Cons ev evs)
  let ?o = "adapt_legacy_event (ev\<lparr>ev_timestamp := now\<rparr>) src"
  have one: "pl_run [APublish ?o] p (snd (pipeline_publish p ?o))" using pl_run_exec_snoc [OF pl_nil, of "APublish ?o"] by simp
  obtain p' where "em_pipeline (fold (\<lambda>ev. push_event now ev src) evs (push_event now ev src m)) = Some p'"
    "pl_run (map (\<lambda>ev. APublish (adapt_legacy_event (ev\<lparr>ev_timestamp := now\<rparr>) src)) evs) (snd (pipeline_publish p ?o)) p'"
    using Cons.IH [of "push_event now ev src m"] Cons.prems by auto
  with pl_run_append [OF this(2) one] show ?case by simp
qed (simp add: pl_nil)

lemma monitor_alerts: "ev \<in> set (snd (monitor_round now t)) \<Longrightarrow> \<exists>a b. ev = multi_stage_alert now a b"
  by (auto simp: monitor_round_def detect_multi_stage_def detect_loop_eq split: if_splits)

lemma multi_stage_alert_timestamp [simp]: "(multi_stage_alert now a b)\<lparr>ev_timestamp := now\<rparr> = multi_stage_alert now a b"
  by (simp add: multi_stage_alert_def)

text \<open>Every call is a run of the pipeline.\<close>

lemma pipeline_stop_steps: "\<exists>as. pl_run as p (snd (pipeline_stop clock p)) \<and> published as = {} \<and> (\<forall>i. AApprove i \<notin> set as)"
proof (cases "pl_running p")
  case False
  then show ?thesis by (intro exI [of _ "[]"]) (simp add: pipeline_stop_def pl_nil published_def)
next
  case True
  show ?thesis
  proof (cases "pl_worker p")
    case False
    have "pl_run [AClose] p (pl_exec AClose p)" using pl_run_exec_snoc [OF pl_nil, of AClose p] True by simp
    then show ?thesis using True False by (intro exI [of _ "[AClose]"]) (simp add: pipeline_stop_def published_def Let_def)
  next
    case w: True
    then show ?thesis using pipeline_stop_run [OF True w] by (fastforce simp: published_def)
  qed
qed

lemma em_exec_pipeline:
  assumes p: "em_pipeline m = Some p"
  shows "\<exists>p' as. em_pipeline (em_exec op m) = Some p' \<and> pl_run as p p' \<and> published as \<subseteq> em_published [op] \<and>
    (\<forall>i. AApprove i \<in> set as \<longrightarrow> op = MApprove i)"
proof -
  have one: "\<exists>as. pl_run as p (pl_exec a p) \<and> published as \<subseteq> published [a] \<and> (\<forall>i. AApprove i \<in> set as \<longrightarrow> a = AApprove i)"
    if "pl_enabled a p" for a
    using pl_run_exec_snoc [OF pl_nil that] by (intro exI [of _ "[a]"]) simp
  have none: ?thesis if "em_pipeline (em_exec op m) = Some p"
    using that pl_nil by (intro exI [of _ p] exI [of _ "[]"]) (simp add: published_def)
  show ?thesis
  proof (cases op)
    case (MStart env)
    then have "em_pipeline (em_exec op m) = Some p \<or> em_pipeline (em_exec op m) = Some (pl_exec (AStart (sv_spawned env)) p)"
      using p by (auto simp: start_all_def Let_def split: prod.split)
    then show ?thesis using one [of "AStart (sv_spawned env)"] none by (fastforce simp: published_def)
  next
    case (MStop still clock)
    then show ?thesis using pipeline_stop_steps [of p clock] p by (auto simp: stop_all_def Let_def)
  next
    case (MPush now ev src)
    let ?o = "adapt_legacy_event (ev\<lparr>ev_timestamp := now\<rparr>) src"
    have "published [APublish ?o] \<subseteq> em_published [op]" using MPush by (auto simp: published_def em_published_def)
    then show ?thesis using one [of "APublish ?o"] p MPush by fastforce
  next
    case (MObserve obs)
    then show ?thesis using one [of "APublish obs"] p
      by (fastforce simp: publish_observation_def pipe_publish_def published_def em_published_def)
  next
    case (MSensor obs)
    then show ?thesis using one [of "APublish obs"] p by (fastforce simp: pipe_publish_def published_def em_published_def)
  next
    case (MMonitor now)
    show ?thesis
    proof (cases "em_timeline m")
      case None
      then show ?thesis using none MMonitor p by (simp add: timeline_monitor_def)
    next
      case (Some t)
      obtain t' alerts where t: "monitor_round now t = (t', alerts)" by fastforce
      obtain p' where p': "em_pipeline (em_exec op m) = Some p'"
        "pl_run (map (\<lambda>ev. APublish (adapt_legacy_event (ev\<lparr>ev_timestamp := now\<rparr>) ''ForensicTimeline'')) alerts) p p'"
        using push_events_pipeline [where m = "m\<lparr>em_timeline := Some t'\<rparr>" and p = p and now = now and src = "''ForensicTimeline''" and evs = alerts]
          p Some t MMonitor by (auto simp: timeline_monitor_def)
      have "adapt_legacy_event (ev\<lparr>ev_timestamp := now\<rparr>) ''ForensicTimeline'' \<in> em_published [op]" if "ev \<in> set alerts" for ev
        using monitor_alerts [of ev now t] that t MMonitor by (fastforce simp: em_published_def)
      then show ?thesis using p' by (intro exI conjI) (auto simp: published_def)
    qed
  next
    case (MWorker now)
    then show ?thesis using one [of "AWorker now"] none p by (cases "pl_worker p") (fastforce simp: published_def)+
  next
    case (MApprove i)
    then show ?thesis using one [of "AApprove i"] p
      by (cases "approve_candidate p i") (fastforce simp: approve_remediation_def published_def)
  next
    case (MReject i)
    then show ?thesis using one [of "AReject i"] p
      by (cases "reject_candidate p i") (fastforce simp: reject_remediation_def published_def)
  qed (use none p in \<open>auto simp: execute_quarantine_def restore_quarantine_def shred_quarantine_def split: option.splits prod.splits\<close>)
qed

lemma em_published_append [simp]: "em_published (as @ bs) = em_published as \<union> em_published bs"
  unfolding em_published_def set_append Un_iff by blast

lemma em_run_pipeline:
  assumes "em_pipeline m0 = Some p0"
  shows "\<exists>p as. em_pipeline (fold em_exec ops m0) = Some p \<and> pl_run as p0 p \<and> published as \<subseteq> em_published ops \<and>
    (\<forall>i. AApprove i \<in> set as \<longrightarrow> MApprove i \<in> set ops)"
proof (induction ops rule: rev_induct)
  case Nil
  then show ?case using assms pl_nil by (intro exI [of _ p0] exI [of _ "[]"]) (simp add: published_def)
next
  case (snoc op ops)
  then obtain p as where 1: "em_pipeline (fold em_exec ops m0) = Some p" "pl_run as p0 p" "published as \<subseteq> em_published ops"
    "\<forall>i. AApprove i \<in> set as \<longrightarrow> MApprove i \<in> set ops" by blast
  obtain p' bs where 2: "em_pipeline (em_exec op (fold em_exec ops m0)) = Some p'" "pl_run bs p p'" "published bs \<subseteq> em_published [op]"
    "\<forall>i. AApprove i \<in> set bs \<longrightarrow> op = MApprove i" using em_exec_pipeline [OF 1(1)] by blast
  from pl_run_append [OF 2(2) 1(2)] 1 2 show ?case by (intro exI [of _ p'] exI [of _ "as @ bs"]) auto
qed

section \<open>Files and approvals\<close>

lemma move_to_vault_other: "move_to_vault env fs t v = (b, fs') \<Longrightarrow> p \<noteq> t \<Longrightarrow> p \<noteq> v \<Longrightarrow> fs' p = fs p"
  by (auto simp: move_to_vault_def fs_rename_def fs_copy_def fs_remove_def split: if_splits prod.splits bool.splits option.splits)

lemma shred_file_other: "p \<noteq> v \<Longrightarrow> shred_file env fs v p = fs p"
  by (auto simp: shred_file_def fs_remove_def Let_def split: fs_node.split option.split)

definition vault_paths :: "string \<Rightarrow> string set" where
  "vault_paths dir = {dir @ ''/q_'' @ to_string (unat (i :: u64)) @ ''.gcadq'' |i. True}"

lemma vault_path_for_in: "vault_path_for x i \<in> vault_paths (qx_vault_dir x)"
  by (auto simp: vault_path_for_def vault_paths_def)

text \<open>
  What the executor has done so far: outside the vault a path differs from the start only if a ledger record names it,
  and every record stems from an approved candidate whose execution was requested.
\<close>

definition record_traced :: "LocalSecurityPolicy \<Rightarrow> em_op list \<Rightarrow> QuarantineRecord \<Rightarrow> bool" where
  "record_traced pol ops r \<longleftrightarrow> MApprove (qr_finding_id r) \<in> set ops \<and> (\<exists>env. MQuarantine env (qr_finding_id r) \<in> set ops) \<and>
     (\<exists>c. candidate_evidence (em_published ops) pol c \<and> cand_target_path c = qr_original_path r)"

definition traced :: "LocalSecurityPolicy \<Rightarrow> fs \<Rightarrow> string \<Rightarrow> em_op list \<Rightarrow> QuarantineExecutor \<Rightarrow> bool" where
  "traced pol fs0 dir ops x \<longleftrightarrow> qx_vault_dir x = dir \<and>
     (\<forall>r \<in> set (qx_ledger x). qr_vault_path r \<in> vault_paths dir \<and> record_traced pol ops r) \<and>
     (\<forall>p. p \<notin> vault_paths dir \<longrightarrow> qx_fs x p = fs0 p \<or> (\<exists>r \<in> set (qx_ledger x). qr_original_path r = p))"

lemma em_published_mono: "set as \<subseteq> set bs \<Longrightarrow> em_published as \<subseteq> em_published bs"
  unfolding em_published_def by blast

lemma record_traced_mono: "record_traced pol ops r \<Longrightarrow> set ops \<subseteq> set ops' \<Longrightarrow> record_traced pol ops' r"
  unfolding record_traced_def using candidate_evidence_mono em_published_mono by (meson subsetD)

lemma traced_mono: "traced pol fs0 dir ops x \<Longrightarrow> set ops \<subseteq> set ops' \<Longrightarrow> traced pol fs0 dir ops' x"
  unfolding traced_def using record_traced_mono by blast

lemma quarantine_traced:
  assumes t: "traced pol fs0 dir ops x" and ok: "cand_approval_state c = APPROVED \<Longrightarrow> MApprove (cand_finding_id c) \<in> set ops"
    and req: "MQuarantine env' (cand_finding_id c) \<in> set ops" and ev: "candidate_evidence (em_published ops) pol c"
  shows "traced pol fs0 dir ops (snd (snd (quarantine env x c)))"
proof (cases rule: quarantine_cases [where env = env and x = x and c = c])
  case (denied code)
  then show ?thesis using t by simp
next
  case (moved b fs')
  have "vault_path_for x (qx_next_id x) \<in> vault_paths dir" using vault_path_for_in t by (auto simp: traced_def)
  moreover have "cand_approval_state c = APPROVED" using moved(1) by (simp add: may_quarantine_def)
  moreover have "fs' p = fs0 p \<or> (\<exists>r \<in> set (qx_ledger x). qr_original_path r = p) \<or> cand_target_path c = p" if "p \<notin> vault_paths dir" for p
    using move_to_vault_other [OF moved(2), of p] that calculation(1) t unfolding traced_def by metis
  moreover have "qx_vault_dir x = dir" using t by (simp add: traced_def)
  ultimately show ?thesis using t ok req ev unfolding moved(3) traced_def record_traced_def by (auto simp: Let_def)
next
  case (failed b fs')
  have v: "vault_path_for x (qx_next_id x) \<in> vault_paths dir" using vault_path_for_in t by (auto simp: traced_def)
  have "fs' p = qx_fs x p" if "p \<notin> vault_paths dir" for p
  proof (cases "cand_target_path c = vault_path_for x (qx_next_id x)")
    case True
    then show ?thesis using move_to_vault_other [OF failed(2), of p] v that by metis
  next
    case False
    then show ?thesis using move_fails [OF failed(2) False, of p] v that by blast
  qed
  then show ?thesis using t unfolding failed(3) traced_def by simp
qed

lemma mark_traced:
  assumes "traced pol fs0 dir ops x" "k < length (qx_ledger x)" "qr_vault_path r' = qr_vault_path (qx_ledger x ! k)"
    "qr_finding_id r' = qr_finding_id (qx_ledger x ! k)" "qr_original_path r' = qr_original_path (qx_ledger x ! k)"
    "\<And>p. p \<noteq> qr_vault_path (qx_ledger x ! k) \<Longrightarrow> p \<noteq> qr_original_path (qx_ledger x ! k) \<Longrightarrow> fs' p = qx_fs x p"
  shows "traced pol fs0 dir ops (rewrite_ledger_locked env (x\<lparr>qx_fs := fs', qx_ledger := (qx_ledger x)[k := r']\<rparr>))"
proof -
  let ?r = "qx_ledger x ! k" and ?l = "(qx_ledger x)[k := r']"
  have r: "?r \<in> set (qx_ledger x)" using assms(2) by simp
  have l: "\<exists>r \<in> set (qx_ledger x). qr_vault_path q = qr_vault_path r \<and> qr_finding_id q = qr_finding_id r \<and>
      qr_original_path q = qr_original_path r" if "q \<in> set ?l" for q
    using that set_update_subset_insert [of "qx_ledger x" k r'] assms(3-5) r by blast
  have o: "\<exists>q \<in> set ?l. qr_original_path q = qr_original_path r" if "r \<in> set (qx_ledger x)" for r
  proof -
    from that obtain j where j: "j < length (qx_ledger x)" "r = qx_ledger x ! j" by (auto simp: in_set_conv_nth)
    have "qr_original_path (?l ! j) = qr_original_path r" using j assms(2,5) by (cases "j = k") simp_all
    moreover have "?l ! j \<in> set ?l" using j by (simp add: nth_mem)
    ultimately show ?thesis by blast
  qed
  have "fs' p = fs0 p \<or> (\<exists>q \<in> set ?l. qr_original_path q = p)" if p: "p \<notin> vault_paths dir" for p
  proof (cases "p = qr_original_path ?r")
    case True
    then show ?thesis using o [OF r] by blast
  next
    case False
    have "qr_vault_path ?r \<in> vault_paths dir" using assms(1) r by (simp add: traced_def)
    then have "fs' p = qx_fs x p" using assms(6) [of p] False p by metis
    moreover have "qx_fs x p = fs0 p \<or> (\<exists>r \<in> set (qx_ledger x). qr_original_path r = p)" using assms(1) p by (simp add: traced_def)
    ultimately show ?thesis using o by metis
  qed
  moreover have "qx_vault_dir x = dir" using assms(1) by (simp add: traced_def)
  moreover have "\<forall>q \<in> set ?l. qr_vault_path q \<in> vault_paths dir \<and> record_traced pol ops q"
  proof
    fix q assume "q \<in> set ?l"
    then obtain r where "r \<in> set (qx_ledger x)" "qr_vault_path q = qr_vault_path r" "qr_finding_id q = qr_finding_id r"
      "qr_original_path q = qr_original_path r" using l by blast
    then show "qr_vault_path q \<in> vault_paths dir \<and> record_traced pol ops q"
      using assms(1) by (simp add: traced_def record_traced_def)
  qed
  ultimately show ?thesis by (simp add: traced_def)
qed

lemma restore_traced: "traced pol fs0 dir ops x \<Longrightarrow> traced pol fs0 dir ops (snd (restore env x i))"
  using ledger_index_Some [of "qx_ledger x" i] move_from_vault_other
  by (cases "ledger_index (qx_ledger x) i") (auto simp: restore_def Let_def split: option.split intro!: mark_traced)

lemma shred_traced: "traced pol fs0 dir ops x \<Longrightarrow> traced pol fs0 dir ops (snd (shred env x i))"
  using ledger_index_Some [of "qx_ledger x" i]
  by (cases "ledger_index (qx_ledger x) i") (auto simp: shred_def Let_def shred_file_other intro!: mark_traced)

lemma start_all_executor: "start_all env m = Some (rc, m') \<Longrightarrow> em_quarantine m' = em_quarantine m"
  by (auto simp: start_all_def Let_def split: option.splits prod.splits if_splits)

lemma em_exec_executor:
  "em_quarantine (em_exec op m) = (case op of
     MQuarantine env i \<Rightarrow> (case find_remediation_candidate m i of None \<Rightarrow> em_quarantine m | Some c \<Rightarrow> snd (snd (quarantine env (em_quarantine m) c)))
   | MRestore env i \<Rightarrow> snd (restore env (em_quarantine m) i)
   | MShred env i \<Rightarrow> snd (shred env (em_quarantine m) i)
   | _ \<Rightarrow> em_quarantine m)"
proof -
  have fold_push: "em_quarantine (fold (\<lambda>ev. push_event now ev src) evs m) = em_quarantine m" for now src evs m
    by (induction evs arbitrary: m) simp_all
  show ?thesis
    by (cases op) (simp_all add: start_all_executor stop_all_def publish_observation_def pipe_publish_def timeline_monitor_def fold_push
        approve_remediation_def reject_remediation_def execute_quarantine_def restore_quarantine_def shred_quarantine_def Let_def
        split: option.split prod.split)
qed

lemma find_candidate_in_mem: "find_candidate_in cs i = Some c \<Longrightarrow> c \<in> set cs \<and> cand_finding_id c = i"
  by (induction cs i rule: find_candidate_in.induct) (auto split: if_splits)

lemma find_candidate_mem: "find_candidate p i = Some c \<Longrightarrow> c \<in> set (pl_candidates p) \<and> cand_finding_id c = i"
  unfolding find_candidate_def by (rule find_candidate_in_mem)

text \<open>Candidates of a manager that started empty, as the pipeline lemmas know them.\<close>

lemma em_candidate:
  assumes new: "em_pipeline m0 = Some (SecurityPipeline_new n pol)" and c: "find_remediation_candidate (fold em_exec ops m0) i = Some c"
  shows "cand_finding_id c = i" "candidate_evidence (em_published ops) pol c" "cand_approval_state c = APPROVED \<Longrightarrow> MApprove i \<in> set ops"
proof -
  obtain p as where p: "em_pipeline (fold em_exec ops m0) = Some p" "pl_run as (SecurityPipeline_new n pol) p"
    "published as \<subseteq> em_published ops" "\<forall>i. AApprove i \<in> set as \<longrightarrow> MApprove i \<in> set ops"
    using em_run_pipeline [OF new] by blast
  have m: "c \<in> set (pl_candidates p)" "cand_finding_id c = i" using c p(1) find_candidate_mem [of p i c] by (auto simp: find_remediation_candidate_def)
  show "cand_finding_id c = i" by (rule m)
  show "candidate_evidence (em_published ops) pol c" using pl_run_evidence [OF p(2) m(1)] p(3) by (rule candidate_evidence_mono)
  show "MApprove i \<in> set ops" if "cand_approval_state c = APPROVED"
    using pl_run_approved [OF p(2) _ m(1)] p(4) that m(2) by (simp add: SecurityPipeline_new_def)
qed

lemma em_run_traced:
  assumes "em_pipeline m0 = Some (SecurityPipeline_new n pol)" "qx_ledger (em_quarantine m0) = []"
  shows "traced pol (qx_fs (em_quarantine m0)) (qx_vault_dir (em_quarantine m0)) ops (em_quarantine (fold em_exec ops m0))"
proof (induction ops rule: rev_induct)
  case Nil
  then show ?case using assms(2) by (simp add: traced_def)
next
  case (snoc op ops)
  let ?m = "fold em_exec ops m0"
  have t: "traced pol (qx_fs (em_quarantine m0)) (qx_vault_dir (em_quarantine m0)) (ops @ [op]) (em_quarantine ?m)"
    by (rule traced_mono [OF snoc]) auto
  show ?case
  proof (cases op)
    case (MQuarantine env i)
    show ?thesis
    proof (cases "find_remediation_candidate ?m i")
      case (Some c)
      then have "traced pol (qx_fs (em_quarantine m0)) (qx_vault_dir (em_quarantine m0)) (ops @ [op]) (snd (snd (quarantine env (em_quarantine ?m) c)))"
        using em_candidate [OF assms(1) Some] MQuarantine candidate_evidence_mono [of "em_published ops" pol c "em_published (ops @ [op])"]
        by (intro quarantine_traced [OF t, where env' = env]) auto
      then show ?thesis using MQuarantine Some by (simp add: em_exec_executor del: em_exec.simps)
    qed (use MQuarantine t in \<open>simp add: em_exec_executor del: em_exec.simps\<close>)
  qed (use t restore_traced shred_traced in \<open>simp_all add: em_exec_executor del: em_exec.simps\<close>)
qed

section \<open>Event log and reports\<close>

definition log_ok :: "EngineManager \<Rightarrow> bool" where
  "log_ok m \<longleftrightarrow> length (em_event_log m) \<le> 10000 \<and> sorted_wrt (<) (map ev_id (em_event_log m)) \<and>
     (\<forall>e \<in> set (em_event_log m). ev_id e < em_next_id m)"

lemma log_push_ok:
  assumes "log_ok m" "em_next_id m < em_next_id m + 1"
  shows "log_ok (push_event now ev src m)"
proof -
  let ?e = "ev\<lparr>ev_id := em_next_id m, ev_timestamp := now\<rparr>" and ?l = "em_event_log m"
  have all: "sorted_wrt (<) (map ev_id (?l @ [?e]))" "\<forall>e \<in> set (?l @ [?e]). ev_id e < em_next_id m + 1"
    using assms order.strict_trans by (auto simp: log_ok_def sorted_wrt_append)
  have f: "em_event_log (push_event now ev src m) = log_push ?l ?e" "em_next_id (push_event now ev src m) = em_next_id m + 1"
    by (simp_all add: push_event_def pipe_publish_def Let_def)
  have "sorted_wrt (<) (map ev_id (drop k (?l @ [?e])))" for k
    using sorted_wrt_drop [OF all(1), of k] by (simp only: drop_map)
  moreover have "\<forall>e \<in> set (drop k (?l @ [?e])). ev_id e < em_next_id m + 1" for k using all(2) in_set_dropD by metis
  ultimately show ?thesis using all assms(1) unfolding log_ok_def f log_push_def Let_def by (auto simp: log_ok_def simp del: drop_append)
qed

lemma level_loop_eq:
  "level_loop now es l = foldl max l (map ev_level (takeWhile (\<lambda>e. duration_minutes (now - ev_timestamp e) \<le> 10) es))"
  by (induction now es l rule: level_loop.induct) (auto simp: max_def)

lemma duration_minutes_iff: "duration_minutes d \<le> 10 \<longleftrightarrow> d < minutes 11"
  by (auto simp: duration_minutes_def minutes_def)

lemma takeWhile_sorted:
  assumes "sorted_wrt (\<lambda>a b. f b \<le> (f a :: int)) es"
  shows "takeWhile (\<lambda>e. t < f e) es = filter (\<lambda>e. t < f e) es"
  using assms by (induction es) (auto simp: filter_empty_conv intro!: filter_False [symmetric])

lemma histogram_loop_eq:
  "length h = 5 \<Longrightarrow> histogram_loop es h = map (\<lambda>k. h ! k + length (filter (\<lambda>e. level_code (ev_level e) = k) es)) [0..<5]"
proof (induction es h rule: histogram_loop.induct)
  case (1 h)
  then show ?case using map_nth [of h] by simp
next
  case (2 e es h)
  have "level_code (ev_level e) < length h" using 2(2) level_code_le4 [of "ev_level e"] by simp
  with 2(1) [OF refl] 2(2) show ?case by (auto simp: Let_def nth_list_update intro!: map_cong)
qed

lemma poll_pass_spaced:
  "poll_pass known ps last_ms = (inspected, last_ms') \<Longrightarrow>
   sorted_wrt (\<lambda>a b. snd a + 250 \<le> snd b) inspected \<and> (\<forall>(pid, t) \<in> set inspected. pid \<notin> set known \<and> last_ms + 250 \<le> t) \<and>
   (if inspected = [] then last_ms' = last_ms else last_ms' = snd (last inspected))"
proof (induction known ps last_ms arbitrary: inspected last_ms' rule: poll_pass.induct)
  case (2 known pid now_ms rest last_ms)
  show ?case
  proof (cases "pid \<in> set known \<or> now_ms - last_ms < 250")
    case True
    then show ?thesis using 2 by (auto split: if_splits)
  next
    case False
    obtain ins l where r: "poll_pass known rest now_ms = (ins, l)" by fastforce
    then have i: "inspected = (pid, now_ms) # ins" "last_ms' = l" using 2(4) False by auto
    have ih: "sorted_wrt (\<lambda>a b. snd a + 250 \<le> snd b) ins" "\<forall>(pid, t) \<in> set ins. pid \<notin> set known \<and> now_ms + 250 \<le> t"
      "if ins = [] then l = now_ms else l = snd (last ins)" using 2(3) [OF _ _ r] False by auto
    show ?thesis unfolding i using ih False by (fastforce split: if_splits)
  qed
qed auto

section \<open>Reports over runs\<close>

lemma push_event_log [simp]:
  "em_event_log (push_event now ev src m) = log_push (em_event_log m) (ev\<lparr>ev_id := em_next_id m, ev_timestamp := now\<rparr>)"
  "em_next_id (push_event now ev src m) = em_next_id m + 1"
  by (simp_all add: push_event_def pipe_publish_def Let_def)

lemma log_ok_cong: "em_event_log m' = em_event_log m \<Longrightarrow> em_next_id m' = em_next_id m \<Longrightarrow> log_ok m' = log_ok m"
  by (simp add: log_ok_def)

lemma push_events_ok:
  "log_ok m \<Longrightarrow> unat (em_next_id m) + length evs < 2 ^ 64 \<Longrightarrow>
   log_ok (fold (\<lambda>ev. push_event now ev src) evs m) \<and>
   unat (em_next_id (fold (\<lambda>ev. push_event now ev src) evs m)) = unat (em_next_id m) + length evs"
proof (induction evs arbitrary: m)
  case (Cons ev evs)
  have n: "unat (em_next_id m + 1) = unat (em_next_id m) + 1" using Cons.prems(2) by (simp add: unat_word_ariths)
  then have "log_ok (push_event now ev src m)" using log_push_ok [OF Cons.prems(1)] by (simp add: word_less_nat_alt)
  with Cons.IH [of "push_event now ev src m"] Cons.prems(2) n show ?case by simp
qed simp

text \<open>Chains are cut to \<^verbatim>\<open>MAX_CHAINS\<close> whenever one is added, so a monitor round raises at most 200 alerts.\<close>

definition few_chains :: "EngineManager \<Rightarrow> bool" where
  "few_chains m \<longleftrightarrow> (\<forall>t. em_timeline m = Some t \<longrightarrow> length (tl_chains t) \<le> 200)"

lemma update_chains_length: "length (tl_chains t) \<le> 200 \<Longrightarrow> length (tl_chains (update_chains t ev)) \<le> 200"
proof (cases "if te_causal_parent ev \<noteq> 0 then extend_chain ev (tl_chains t) else None")
  case (Some chs)
  moreover assume "length (tl_chains t) \<le> 200"
  moreover from Some have "extend_chain ev (tl_chains t) = Some chs" by (simp split: if_splits)
  then have "length chs = length (tl_chains t)" by (auto elim: extend_chain_Some)
  ultimately show ?thesis by (simp add: update_chains_def)
next
  case None
  have "length (pop_front_to MAX_CHAINS chs) \<le> 200" for chs :: "CausalChain list"
    unfolding pop_front_to_drop MAX_CHAINS_def length_drop by arith
  moreover assume "length (tl_chains t) \<le> 200"
  ultimately show ?thesis by (simp add: update_chains_def None Let_def)
qed

lemma ingest_chains_length:
  "length (tl_chains t) \<le> 200 \<Longrightarrow> length (tl_chains (ingest_threat t ev)) \<le> 200"
  "length (tl_chains t) \<le> 200 \<Longrightarrow> length (tl_chains (ingest_observation t obs)) \<le> 200"
  using update_chains_length by (simp_all add: ingest_threat_def ingest_observation_def ingest_entry_def Let_def)

lemma push_few_chains: "few_chains m \<Longrightarrow> few_chains (push_event now ev src m)"
  using ingest_chains_length by (auto simp: few_chains_def push_event_def pipe_publish_def Let_def)

lemma pushes_few_chains: "few_chains m \<Longrightarrow> few_chains (fold (\<lambda>ev. push_event now ev src) evs m)"
  by (induction evs arbitrary: m) (simp_all add: push_few_chains)

lemma monitor_round_lengths:
  assumes "monitor_round now t = (t', alerts)"
  shows "length (tl_chains t') = length (tl_chains t) \<and> length alerts \<le> length (tl_chains t)"
  using assms length_filter_le by (auto simp: monitor_round_def detect_multi_stage_def detect_loop_eq split: if_splits)

definition em_ok :: "EngineManager \<Rightarrow> bool" where
  "em_ok m \<longleftrightarrow> log_ok m \<and> few_chains m"

lemma em_exec_ok:
  assumes ok: "em_ok m" and n: "unat (em_next_id m) + 200 < 2 ^ 64"
  shows "em_ok (em_exec op m) \<and> unat (em_next_id (em_exec op m)) \<le> unat (em_next_id m) + 200"
proof -
  have same: ?thesis if "em_event_log (em_exec op m) = em_event_log m" "em_next_id (em_exec op m) = em_next_id m"
    "\<And>t'. em_timeline (em_exec op m) = Some t' \<Longrightarrow> \<exists>t. em_timeline m = Some t \<and> length (tl_chains t') \<le> max 200 (length (tl_chains t))"
    using that ok log_ok_cong [of "em_exec op m" m] unfolding em_ok_def few_chains_def by fastforce
  show ?thesis
  proof (cases op)
    case (MPush now ev src)
    then show ?thesis using push_events_ok [of m "[ev]" now src] push_few_chains ok n by (auto simp: em_ok_def)
  next
    case (MMonitor now)
    show ?thesis
    proof (cases "em_timeline m")
      case None
      then show ?thesis using MMonitor by (intro same) (simp_all add: timeline_monitor_def)
    next
      case (Some t)
      obtain t' alerts where t: "monitor_round now t = (t', alerts)" by fastforce
      have l: "length (tl_chains t') \<le> 200" "length alerts \<le> 200"
        using monitor_round_lengths [OF t] ok Some by (simp_all add: em_ok_def few_chains_def)
      let ?m = "m\<lparr>em_timeline := Some t'\<rparr>"
      have "log_ok ?m" using ok log_ok_cong [of ?m m] by (simp add: em_ok_def)
      moreover have "few_chains ?m" using l by (simp add: few_chains_def)
      ultimately show ?thesis using push_events_ok [of ?m alerts now "''ForensicTimeline''"] pushes_few_chains [of ?m] n l Some t MMonitor
        by (auto simp: em_ok_def timeline_monitor_def)
    qed
  next
    case (MObserve obs)
    have "few_chains (publish_observation obs m)"
      using ok ingest_chains_length(2) by (auto simp: em_ok_def few_chains_def publish_observation_def pipe_publish_def)
    then show ?thesis using MObserve ok log_ok_cong [of "publish_observation obs m" m]
      by (simp add: em_ok_def publish_observation_def pipe_publish_def)
  next
    case (MStart env)
    then show ?thesis
      by (intro same) (auto simp: start_all_def Let_def timeline_start_def split: option.splits prod.splits if_splits)
  next
    case (MStop still clock)
    then show ?thesis by (intro same) (auto simp: stop_all_def Let_def timeline_stop_def split: if_splits)
  qed (rule same; auto simp: pipe_publish_def approve_remediation_def reject_remediation_def execute_quarantine_def
      restore_quarantine_def shred_quarantine_def split: option.splits prod.splits)+
qed

lemma em_run_ok:
  "em_ok m \<Longrightarrow> unat (em_next_id m) + 200 * length ops < 2 ^ 64 \<Longrightarrow> em_ok (fold em_exec ops m)"
proof (induction ops arbitrary: m)
  case (Cons op ops)
  then show ?case using em_exec_ok [of m op] Cons.IH [of "em_exec op m"] by fastforce
qed simp

lemma em_ok_new: "em_ok (EngineManager_new f v l fs)"
  by (simp add: em_ok_def log_ok_def few_chains_def EngineManager_new_def timeline_on_threat_def ForensicTimelineEngine_new_def)

text \<open>The log after a sequence of events: whole blocks of 5000 are dropped from the front.\<close>

lemma log_push_blocks:
  "\<exists>k. fold (\<lambda>e l. log_push l e) evs [] = drop (5000 * k) evs \<and> 5000 * k \<le> length evs \<and>
     length evs - 5000 * k \<le> 10000 \<and> (k = 0 \<or> 5000 < length evs - 5000 * k)"
proof (induction evs rule: rev_induct)
  case (snoc e evs)
  then obtain k where k: "fold (\<lambda>e l. log_push l e) evs [] = drop (5000 * k) evs" "5000 * k \<le> length evs"
    "length evs - 5000 * k \<le> 10000" "k = 0 \<or> 5000 < length evs - 5000 * k" by blast
  have l: "fold (\<lambda>e l. log_push l e) (evs @ [e]) [] = log_push (drop (5000 * k) evs) e" using k(1) by simp
  show ?case
  proof (cases "10000 < length (drop (5000 * k) evs @ [e])")
    case True
    have "drop 5000 (drop (5000 * k) evs @ [e]) = drop (5000 * (k + 1)) (evs @ [e])" using True k(2) by (simp add: algebra_simps)
    then show ?thesis using l True k by (intro exI [of _ "k + 1"]) (auto simp: log_push_def Let_def)
  qed (use l k in \<open>intro exI [of _ k]; auto simp: log_push_def Let_def\<close>)
qed simp

section \<open>Inspection runs\<close>

text \<open>Process starts and polling rounds in any order; the clock values at which an inspection was queued.\<close>

datatype inspection_op = IStarted int | IPoll "u32 list" "(u32 \<times> int) list" | IFlag bool

fun inspections :: "inspection_op list \<Rightarrow> EngineManager \<Rightarrow> int list" where
  "inspections [] m = []"
| "inspections (IStarted now_ms # ops) m =
     (case process_started now_ms m of (b, m') \<Rightarrow> (if b then [now_ms] else []) @ inspections ops m')"
| "inspections (IPoll known procs # ops) m =
     (case process_poll_round known procs m of (ins, known', m') \<Rightarrow> map snd ins @ inspections ops m')"
| "inspections (IFlag b # ops) m = inspections ops (m\<lparr>em_poll_running := b\<rparr>)"

lemma inspections_after:
  "sorted_wrt (\<lambda>a b. a + 250 \<le> b) (inspections ops m) \<and> (\<forall>t \<in> set (inspections ops m). em_last_inspection_ms m + 250 \<le> t)"
proof (induction ops m rule: inspections.induct)
  case (2 now_ms ops m)
  obtain b m' where r: "process_started now_ms m = (b, m')" by fastforce
  have "m' = m \<and> \<not> b \<or> em_last_inspection_ms m' = now_ms \<and> b \<and> em_last_inspection_ms m + 250 \<le> now_ms"
    using r by (auto simp: process_started_def split: if_splits)
  with 2 [OF r [symmetric]] show ?case by (elim disjE) (auto simp: r dest: bspec)
next
  case (3 known procs ops m)
  show ?case
  proof (cases "em_poll_running m")
    case True
    obtain ins l where p: "poll_pass known procs (em_last_inspection_ms m) = (ins, l)" by fastforce
    have r: "process_poll_round known procs m = (ins, map fst procs, m\<lparr>em_last_inspection_ms := l\<rparr>)"
      using True p by (simp add: process_poll_round_def)
    note sp = poll_pass_spaced [OF p]
    have ih: "sorted_wrt (\<lambda>a b. a + 250 \<le> b) (inspections ops (m\<lparr>em_last_inspection_ms := l\<rparr>))"
      "\<forall>t \<in> set (inspections ops (m\<lparr>em_last_inspection_ms := l\<rparr>)). l + 250 \<le> t" using 3 [OF r [symmetric] refl] by simp_all
    have below: "snd i \<le> l" if "i \<in> set ins" for i
    proof -
      have "snd i \<le> snd (last ins)" using sp that by (cases ins rule: rev_cases) (auto simp: sorted_wrt_append)
      moreover have "l = snd (last ins)" using sp that by (auto split: if_splits)
      ultimately show ?thesis by simp
    qed
    have "em_last_inspection_ms m \<le> l" using sp last_in_set [of ins] by (fastforce split: if_splits)
    then show ?thesis using sp ih below by (fastforce simp: r sorted_wrt_append sorted_wrt_map)
  qed (use 3 in \<open>simp add: process_poll_round_def\<close>)
qed simp_all

lemma worker_drain_closed: "bus_closed (pl_bus (worker_drain clock k p)) = bus_closed (pl_bus p)"
proof (induction clock k p rule: worker_drain.induct)
  case (1 clock k p)
  then show ?case by (simp add: worker_drain.simps [of clock k p])
qed

lemma level_window:
  assumes "sorted (map ev_timestamp (em_event_log m))"
  shows "current_threat_level now m = Max (insert SAFE (ev_level ` {e \<in> set (em_event_log m). now - ev_timestamp e < minutes 11}))"
proof -
  let ?es = "rev (em_event_log m)"
  have "sorted_wrt (\<lambda>a b. ev_timestamp b \<le> ev_timestamp a) ?es" using assms by (simp add: sorted_wrt_map sorted_wrt_rev)
  note tw = takeWhile_sorted [OF this, of "now - minutes 11"]
  have "(\<lambda>e. now - minutes 11 < ev_timestamp e) = (\<lambda>e. now - ev_timestamp e < minutes 11)" by (rule ext) linarith
  note tw [unfolded this]
  then have "current_threat_level now m = foldl max SAFE (map ev_level (filter (\<lambda>e. now - ev_timestamp e < minutes 11) ?es))"
    by (simp add: current_threat_level_def level_loop_eq duration_minutes_iff)
  also have "\<dots> = fold max (map ev_level (filter (\<lambda>e. now - ev_timestamp e < minutes 11) ?es)) SAFE"
    by (simp add: foldl_conv_fold max.commute)
  finally show ?thesis using Max.set_eq_fold [of SAFE "map ev_level (filter (\<lambda>e. now - ev_timestamp e < minutes 11) ?es)"] by simp
qed

lemma sum_by_level: "sum_list (map (\<lambda>k. length (filter (\<lambda>e. level_code (ev_level e) = k) es)) [0..<5]) = length es"
proof (induction es)
  case (Cons e es)
  have "level_code (ev_level e) < 5" using level_code_le4 [of "ev_level e"] by simp
  then have "level_code (ev_level e) \<in> {0, 1, 2, 3, 4}" by auto
  with Cons show ?case by (auto simp: upt_rec)
qed simp

section \<open>Properties\<close>

text \<open>
  C13. Starting works once. After a start without an ETW session, a second start without one ends the process
  (the polling thread is overwritten while it runs); and after any start, stopping and starting again fails for
  good: the pipeline's bus stays closed, so the call returns \<^verbatim>\<open>ERR_ENGINE_START\<close> before any engine is started
  and the manager stays as it was.
\<close>

theorem start_works_once:
  assumes "start_all env m = Some (OK, m')" "em_pipeline m \<noteq> None"
  shows "(sv_etw_rc env \<noteq> OK \<and> sv_etw_rc env' \<noteq> OK \<longrightarrow> start_all env' m' = None) \<and>
    (\<exists>m''. stop_all still clock m' = (OK, m'') \<and> start_all env' m'' = Some (ERR_ENGINE_START, m''))"
proof -
  obtain p where p: "em_pipeline m' = Some p" "pl_running p" "sv_etw_rc env \<noteq> OK \<longrightarrow> em_poll_running m'"
    using assms by (auto simp: start_all_def Let_def pipeline_start_def split: option.splits prod.splits if_splits)
  have s: "pipeline_start b p = (OK, p)" for b using p(2) by (simp add: pipeline_start_def)
  let ?q = "snd (pipeline_stop clock p)"
  have q: "bus_closed (pl_bus ?q)" "\<not> pl_running ?q"
    using p(2) worker_drain_running by (simp_all add: pipeline_stop_def Let_def worker_drain_closed bus_close_def)
  have "pipeline_start b ?q = (ERR_ENGINE_START, ?q)" for b using q by (simp add: pipeline_start_def)
  then show ?thesis using p s by (auto simp: start_all_def stop_all_def Let_def)
qed

definition sample_start :: start_env where
  "sample_start = \<lparr>sv_spawned = True, sv_etw_rc = ERR_PLATFORM, sv_etw_running = False, sv_engines = (\<lambda>n. Returned OK True)\<rparr>"

lemma sample_started: "\<exists>m'. start_all sample_start (EngineManager_new None v None fs) = Some (OK, m')"
  by (simp add: start_all_def sample_start_def EngineManager_new_def SecurityPipeline_new_def TelemetryBus_new_def pipeline_start_def Let_def)

theorem start_works_once_witness:
  "\<exists>m' m''. start_all sample_start (EngineManager_new None ''v'' None Map.empty) = Some (OK, m') \<and> start_all sample_start m' = None \<and>
     stop_all (\<lambda>n. False) (\<lambda>k. 0) m' = (OK, m'') \<and> start_all sample_start m'' = Some (ERR_ENGINE_START, m'')"
proof -
  obtain m' where m': "start_all sample_start (EngineManager_new None ''v'' None Map.empty) = Some (OK, m')" using sample_started by blast
  from start_works_once [OF m', of sample_start "\<lambda>n. False" "\<lambda>k. 0"] m' show ?thesis
    by (auto simp: sample_start_def EngineManager_new_def)
qed

text \<open>
  The event log of a new manager after any calls (as long as ids cannot wrap): at most 10000 events, ids
  strictly increasing along the log and below the next id. Whatever is pushed, the log holds the newest events
  without gaps: all of them up to 10000, afterwards always more than the newest 5000.
\<close>

theorem event_log_invariant:
  assumes "200 * length ops < 2 ^ 64 - 1" "m = fold em_exec ops (EngineManager_new f v l fs)"
  shows "length (em_event_log m) \<le> 10000 \<and> sorted_wrt (<) (map ev_id (em_event_log m)) \<and>
    (\<forall>e \<in> set (em_event_log m). ev_id e < em_next_id m) \<and>
    (\<exists>k. fold (\<lambda>e lg. log_push lg e) evs [] = drop (5000 * k) evs \<and>
         (length evs \<le> 10000 \<and> k = 0 \<or> 5000 < length (drop (5000 * k) evs) \<and> length (drop (5000 * k) evs) \<le> 10000))"
proof -
  have "em_ok m" unfolding assms(2) by (rule em_run_ok [OF em_ok_new]) (use assms(1) in \<open>simp add: EngineManager_new_def\<close>)
  moreover obtain k where "fold (\<lambda>e lg. log_push lg e) evs [] = drop (5000 * k) evs" "length evs - 5000 * k \<le> 10000"
    "k = 0 \<or> 5000 < length evs - 5000 * k" using log_push_blocks [of evs] by blast
  then have "\<exists>k. fold (\<lambda>e lg. log_push lg e) evs [] = drop (5000 * k) evs \<and>
         (length evs \<le> 10000 \<and> k = 0 \<or> 5000 < length (drop (5000 * k) evs) \<and> length (drop (5000 * k) evs) \<le> 10000)"
    by (intro exI [of _ k]) auto
  ultimately show ?thesis by (simp add: em_ok_def log_ok_def)
qed

theorem event_log_invariant_witness:
  "let m = fold em_exec [MPush 1 sample_threat ''PMSR'', MPush 2 sample_threat ''PMSR''] (EngineManager_new None ''v'' None Map.empty) in
     length (em_event_log m) = 2 \<and> sorted_wrt (<) (map ev_id (em_event_log m))"
proof -
  let ?m = "fold em_exec [MPush 1 sample_threat ''PMSR'', MPush 2 sample_threat ''PMSR''] (EngineManager_new None ''v'' None Map.empty)"
  have "length (em_event_log ?m) = 2" by (simp add: log_push_def Let_def EngineManager_new_def)
  with event_log_invariant [where ops = "[MPush 1 sample_threat ''PMSR'', MPush 2 sample_threat ''PMSR'']", OF _ refl] show ?thesis
    by (simp only: Let_def) simp
qed

text \<open>
  C24. The displayed threat level: on a log in time order it is the highest level of the events less than eleven
  minutes old, \<^verbatim>\<open>SAFE\<close> without such events. On any log the histograms count every event once: per level, and per
  category in descending order of the counts, each occurring category exactly once.
\<close>

theorem threat_level_and_histograms:
  "(sorted (map ev_timestamp (em_event_log m)) \<longrightarrow>
     current_threat_level now m = Max (insert SAFE (ev_level ` {e \<in> set (em_event_log m). now - ev_timestamp e < minutes 11}))) \<and>
   severity_histogram m = map (\<lambda>k. length (filter (\<lambda>e. level_code (ev_level e) = k) (em_event_log m))) [0..<5] \<and>
   sum_list (severity_histogram m) = total_threats m \<and>
   set (category_histogram m) = (\<lambda>c. (c, length (filter (\<lambda>e. ev_category e = c) (em_event_log m)))) ` ev_category ` set (em_event_log m) \<and>
   distinct (map fst (category_histogram m)) \<and> sorted_wrt (\<ge>) (map snd (category_histogram m))"
proof (intro conjI impI)
  assume "sorted (map ev_timestamp (em_event_log m))"
  then show "current_threat_level now m = Max (insert SAFE (ev_level ` {e \<in> set (em_event_log m). now - ev_timestamp e < minutes 11}))"
    by (rule level_window)
next
  show h: "severity_histogram m = map (\<lambda>k. length (filter (\<lambda>e. level_code (ev_level e) = k) (em_event_log m))) [0..<5]"
    by (simp add: severity_histogram_def histogram_loop_eq cong: map_cong)
  show "sum_list (severity_histogram m) = total_threats m" unfolding h total_threats_def by (rule sum_by_level)
  show "set (category_histogram m) = (\<lambda>c. (c, length (filter (\<lambda>e. ev_category e = c) (em_event_log m)))) ` ev_category ` set (em_event_log m)"
    by (auto simp: category_histogram_def category_counts_def)
  show "distinct (map fst (category_histogram m))"
  proof -
    have "mset (map fst (category_histogram m)) = mset (map fst (category_counts (em_event_log m)))" by (simp add: category_histogram_def)
    moreover have "distinct (map fst (category_counts (em_event_log m)))" by (simp add: category_counts_def comp_def)
    ultimately show ?thesis using mset_eq_imp_distinct_iff by blast
  qed
  have "sorted (map (\<lambda>(c, n). - int n) (category_histogram m))" unfolding category_histogram_def by simp
  then show "sorted_wrt (\<ge>) (map snd (category_histogram m))" by (simp add: sorted_wrt_map case_prod_unfold)
qed

theorem threat_level_and_histograms_witness:
  "let m = fold em_exec [MPush 1 sample_threat ''PMSR'', MPush 2 sample_threat ''PMSR''] (EngineManager_new None ''v'' None Map.empty) in
     current_threat_level 3 m = HIGH \<and> severity_histogram m = [0, 0, 0, 2, 0]"
proof -
  let ?m = "fold em_exec [MPush 1 sample_threat ''PMSR'', MPush 2 sample_threat ''PMSR''] (EngineManager_new None ''v'' None Map.empty)"
  have l: "em_event_log ?m = [sample_threat\<lparr>ev_id := 1, ev_timestamp := 1\<rparr>, sample_threat\<lparr>ev_id := 2, ev_timestamp := 2\<rparr>]"
    by (simp add: log_push_def Let_def EngineManager_new_def)
  have "ev_level ` {e \<in> set (em_event_log ?m). 3 - ev_timestamp e < minutes 11} = {HIGH}"
    unfolding l using image_eqI [of HIGH ev_level "sample_threat\<lparr>ev_id := 1, ev_timestamp := 1\<rparr>"]
    by (fastforce simp: minutes_def sample_threat_def)
  moreover have "max SAFE HIGH = HIGH" by code_simp
  ultimately show ?thesis using threat_level_and_histograms [of ?m 3] unfolding Let_def l
    by (simp add: sample_threat_def upt_rec)
qed

text \<open>
  Expensive process inspections stay rare: whatever sequence of process starts, polling rounds and changes of
  the polling flag occurs, any two inspections are at least 250 milliseconds apart, and a process that was known
  before a polling round is not inspected by it.
\<close>

theorem inspections_spaced:
  "sorted_wrt (\<lambda>a b. a + 250 \<le> b) (inspections ops m) \<and>
   (\<forall>i \<in> set (fst (process_poll_round known procs m)). fst i \<notin> set known \<and> i \<in> set procs)"
proof -
  have "\<forall>i \<in> set (fst (poll_pass known procs l)). fst i \<notin> set known \<and> i \<in> set procs" for l
    by (induction known procs l rule: poll_pass.induct) (auto split: prod.splits)
  from this [of "em_last_inspection_ms m"] inspections_after [of ops m] show ?thesis
    by (cases "poll_pass known procs (em_last_inspection_ms m)") (simp add: process_poll_round_def)
qed

theorem inspections_spaced_witness:
  "inspections [IFlag True, IPoll [1] [(1, 300), (2, 310), (3, 320)], IStarted 400, IStarted 700] (EngineManager_new None ''v'' None Map.empty)
     = [310, 700] \<and> sorted_wrt (\<lambda>a b. a + 250 \<le> b) [310, 700 :: int]"
  using inspections_spaced [of "[IFlag True, IPoll [1] [(1, 300), (2, 310), (3, 320)], IStarted 400, IStarted 700]" "EngineManager_new None ''v'' None Map.empty"]
  by (simp add: process_poll_round_def process_started_def EngineManager_new_def)

end
