(* ===== verification/Asn1.thy ===== *)
theory Asn1
  imports GCAD_Prelude
begin

text \<open>
  \<^verbatim>\<open>security/asn1.{hpp,cpp}\<close>: the DER reader under the certificate and signature parsers. A buffer is a
  byte list, offsets and lengths are natural numbers (every sum the code forms stays below the buffer
  size, and a length of at most eight bytes fits \<^verbatim>\<open>size_t\<close>); tag numbers and identifier arcs keep their
  32-bit and 64-bit width. The lemmas show that parsing stays inside the buffer, that it inverts an
  encoder written from X.690, and what the integer and object identifier readers return.
\<close>

unbundle bit_operations_syntax

section \<open>Elements\<close>

datatype TagClass = UNIVERSAL | APPLICATION | CONTEXT_SPECIFIC | PRIVATE

record Element =
  el_tag_class :: TagClass
  el_constructed :: bool
  el_tag_number :: u32
  el_content_offset :: nat
  el_content_length :: nat
  el_total_length :: nat

text \<open>The universal tag numbers the parsers ask for.\<close>

definition TAG_INTEGER :: u32 where "TAG_INTEGER = 2"
definition TAG_BIT_STRING :: u32 where "TAG_BIT_STRING = 3"
definition TAG_OCTET_STRING :: u32 where "TAG_OCTET_STRING = 4"
definition TAG_OBJECT_IDENTIFIER :: u32 where "TAG_OBJECT_IDENTIFIER = 6"
definition TAG_SEQUENCE :: u32 where "TAG_SEQUENCE = 16"
definition TAG_SET :: u32 where "TAG_SET = 17"
definition TAG_UTC_TIME :: u32 where "TAG_UTC_TIME = 23"
definition TAG_GENERALIZED_TIME :: u32 where "TAG_GENERALIZED_TIME = 24"
definition TAG_BMP_STRING :: u32 where "TAG_BMP_STRING = 30"

definition is_universal :: "Element \<Rightarrow> u32 \<Rightarrow> bool" where
  "is_universal el t \<longleftrightarrow> el_tag_class el = UNIVERSAL \<and> el_tag_number el = t"

definition tag_class_of :: "u8 \<Rightarrow> TagClass" where
  "tag_class_of tag_byte = (let c = drop_bit 6 tag_byte AND 0x03 in
     if c = 0 then UNIVERSAL else if c = 1 then APPLICATION else if c = 2 then CONTEXT_SPECIFIC else PRIVATE)"

section \<open>Parsing one element\<close>

text \<open>The high-tag-number loop; \<open>n\<close> is the number of iterations left.\<close>

fun high_tag :: "bytes \<Rightarrow> nat \<Rightarrow> nat \<Rightarrow> nat \<Rightarrow> u32 \<Rightarrow> (u32 \<times> nat) option" where
  "high_tag data sz 0 pos tag_number = None"
| "high_tag data sz (Suc n) pos tag_number =
     (if sz \<le> pos then None
      else let b = data ! pos; tag_number' = push_bit 7 tag_number OR ucast (b AND 0x7F)
        in if b AND 0x80 = 0 then Some (tag_number', pos + 1) else high_tag data sz n (pos + 1) tag_number')"

fun read_length :: "bytes \<Rightarrow> nat \<Rightarrow> nat \<Rightarrow> u64 \<Rightarrow> u64" where
  "read_length data 0 pos content_length = content_length"
| "read_length data (Suc n) pos content_length =
     read_length data n (pos + 1) (push_bit 8 content_length OR ucast (data ! pos))"

text \<open>The length octets at \<open>pos\<close>: the content length and the position after them.\<close>

definition parse_length :: "bytes \<Rightarrow> nat \<Rightarrow> nat \<Rightarrow> (nat \<times> nat) option" where
  "parse_length data sz pos =
     (if sz \<le> pos then None
      else let len_byte = data ! pos in
        if len_byte AND 0x80 = 0 then Some (unat len_byte, pos + 1)
        else let num_len_bytes = unat (len_byte AND 0x7F) in
          if num_len_bytes = 0 then None
          else if 8 < num_len_bytes then None
          else if sz < pos + 1 + num_len_bytes then None
          else Some (unat (read_length data num_len_bytes (pos + 1) 0), pos + 1 + num_len_bytes))"

definition parse_tag :: "bytes \<Rightarrow> nat \<Rightarrow> nat \<Rightarrow> (u32 \<times> nat) option" where
  "parse_tag data sz offset =
     (let tag_number = (ucast (data ! offset AND 0x1F) :: u32) in
      if tag_number = 0x1F then high_tag data sz 5 (offset + 1) 0 else Some (tag_number, offset + 1))"

definition parse_element :: "bytes \<Rightarrow> nat \<Rightarrow> nat \<Rightarrow> Element option" where
  "parse_element data sz offset =
     (if sz \<le> offset then None
      else let tag_byte = data ! offset in
        case parse_tag data sz offset of
          None \<Rightarrow> None
        | Some (tag_number, pos) \<Rightarrow>
            (case parse_length data sz pos of
               None \<Rightarrow> None
             | Some (content_length, pos') \<Rightarrow>
                 if sz - pos' < content_length then None
                 else Some \<lparr>el_tag_class = tag_class_of tag_byte, el_constructed = (tag_byte AND 0x20 \<noteq> 0),
                   el_tag_number = tag_number, el_content_offset = pos', el_content_length = content_length,
                   el_total_length = pos' + content_length - offset\<rparr>))"

lemma high_tag_bound: "high_tag data sz n pos t = Some (t', pos') \<Longrightarrow> pos < pos' \<and> pos' \<le> sz"
  by (induction n arbitrary: pos t) (fastforce simp: Let_def split: if_splits)+

lemma parse_tag_bound: "offset < sz \<Longrightarrow> parse_tag data sz offset = Some (t, pos) \<Longrightarrow> offset < pos \<and> pos \<le> sz"
  by (auto simp: parse_tag_def Let_def split: if_splits dest: high_tag_bound)

lemma parse_length_bound: "parse_length data sz pos = Some (n, pos') \<Longrightarrow> pos < pos' \<and> pos' \<le> sz"
  by (auto simp: parse_length_def Let_def split: if_splits)

lemma parse_element_bounds:
  assumes "parse_element data sz offset = Some el"
  shows "offset + 2 \<le> el_content_offset el" "el_content_offset el + el_content_length el \<le> sz"
    "offset + el_total_length el = el_content_offset el + el_content_length el" "2 \<le> el_total_length el"
proof -
  from assms obtain t pos pos' n where "offset < sz" "parse_tag data sz offset = Some (t, pos)"
    "parse_length data sz pos = Some (n, pos')" "n \<le> sz - pos'" "el_content_offset el = pos'"
    "el_content_length el = n" "el_total_length el = pos' + n - offset"
    by (auto simp: parse_element_def Let_def not_less split: if_splits option.splits prod.splits)
  with parse_tag_bound parse_length_bound show "offset + 2 \<le> el_content_offset el"
    "el_content_offset el + el_content_length el \<le> sz"
    "offset + el_total_length el = el_content_offset el + el_content_length el" "2 \<le> el_total_length el"
    by fastforce+
qed

section \<open>Children, integers, identifiers\<close>

function children_loop :: "bytes \<Rightarrow> nat \<Rightarrow> nat \<Rightarrow> Element list" where
  "children_loop data end' pos =
     (if end' \<le> pos then []
      else case parse_element data end' pos of
        None \<Rightarrow> []
      | Some child \<Rightarrow> child # children_loop data end' (pos + el_total_length child))"
  by pat_completeness auto

termination
  by (relation "measure (\<lambda>(data, end', pos). end' - pos)") (auto dest: parse_element_bounds(4))

declare children_loop.simps [simp del]

definition parse_sequence_children :: "bytes \<Rightarrow> nat \<Rightarrow> nat \<Rightarrow> Element list" where
  "parse_sequence_children data offset len = children_loop data (offset + len) offset"

definition el_content :: "bytes \<Rightarrow> Element \<Rightarrow> bytes" where
  "el_content data el = sub_bytes data (el_content_offset el) (el_content_length el)"

definition read_unsigned_integer :: "bytes \<Rightarrow> Element \<Rightarrow> bytes" where
  "read_unsigned_integer data el =
     (if \<not> is_universal el TAG_INTEGER \<or> el_content_length el = 0 then []
      else let content = el_content data el in
        if content ! 0 AND 0x80 \<noteq> 0 then []
        else drop (if 2 \<le> el_content_length el \<and> content ! 0 = 0 \<and> content ! 1 AND 0x80 \<noteq> 0 then 1 else 0) content)"

definition raw_bytes :: "bytes \<Rightarrow> Element \<Rightarrow> bytes" where
  "raw_bytes data el =
     (if el_total_length el < el_content_length el then []
      else let header_len = el_total_length el - el_content_length el in
        if el_content_offset el < header_len then []
        else sub_bytes data (el_content_offset el - header_len) (el_total_length el))"

text \<open>The loop over the remaining identifier bytes: the text so far, the arc so far, and whether an arc is open.\<close>

fun oid_loop :: "bytes \<Rightarrow> u64 \<Rightarrow> bool \<Rightarrow> string \<Rightarrow> string" where
  "oid_loop [] value' mid_arc out = (if mid_arc then [] else out)"
| "oid_loop (b # bs) value' mid_arc out =
     (let v = push_bit 7 value' OR ucast (b AND 0x7F) in
      if b AND 0x80 = 0 then oid_loop bs 0 False (out @ ''.'' @ to_string (unat v)) else oid_loop bs v True out)"

definition oid_to_string :: "bytes \<Rightarrow> Element \<Rightarrow> string" where
  "oid_to_string data el =
     (if \<not> is_universal el TAG_OBJECT_IDENTIFIER \<or> el_content_length el = 0 then []
      else let content = el_content data el; first_byte = unat (content ! 0);
               (first_arc, second_arc) =
                 (if 2 < first_byte div 40 then (2, first_byte - 80) else (first_byte div 40, first_byte mod 40))
        in oid_loop (tl content) 0 False (to_string first_arc @ ''.'' @ to_string second_arc))"

section \<open>Reads stay inside the buffer\<close>

lemma high_tag_local:
  "(\<And>i. pos \<le> i \<Longrightarrow> i < sz \<Longrightarrow> data ! i = data' ! i) \<Longrightarrow> high_tag data sz n pos t = high_tag data' sz n pos t"
  by (induction n arbitrary: pos t) (auto simp: Let_def)

lemma read_length_local:
  "(\<And>i. pos \<le> i \<Longrightarrow> i < pos + n \<Longrightarrow> data ! i = data' ! i) \<Longrightarrow> read_length data n pos a = read_length data' n pos a"
  by (induction n arbitrary: pos a) auto

lemma parse_length_local:
  assumes "\<And>i. pos \<le> i \<Longrightarrow> i < sz \<Longrightarrow> data ! i = data' ! i"
  shows "parse_length data sz pos = parse_length data' sz pos"
proof (cases "pos < sz")
  case True
  then have d: "data ! pos = data' ! pos" using assms by simp
  let ?n = "unat (data' ! pos AND 0x7F)"
  have "read_length data ?n (pos + 1) 0 = read_length data' ?n (pos + 1) 0" if "pos + 1 + ?n \<le> sz"
    using assms that by (intro read_length_local) auto
  with d show ?thesis by (auto simp: parse_length_def Let_def)
qed (simp add: parse_length_def)

text \<open>Parsing depends only on the bytes from the offset up to the size it is given.\<close>

lemma parse_element_local:
  assumes "\<And>i. offset \<le> i \<Longrightarrow> i < sz \<Longrightarrow> data ! i = data' ! i"
  shows "parse_element data sz offset = parse_element data' sz offset"
proof (cases "offset < sz")
  case True
  then have d: "data ! offset = data' ! offset" using assms by simp
  then have t: "parse_tag data sz offset = parse_tag data' sz offset"
    using assms high_tag_local [of "offset + 1" sz data data'] by (simp add: parse_tag_def Let_def)
  have "parse_length data sz pos = parse_length data' sz pos" if "parse_tag data sz offset = Some (n, pos)" for n pos
    using assms parse_tag_bound [OF True that] by (intro parse_length_local) auto
  with d t show ?thesis by (auto simp: parse_element_def Let_def split: option.splits prod.splits)
qed (simp add: parse_element_def)

section \<open>Lengths\<close>

lemma unat_shift_or_u64:
  assumes "unat (a :: u64) < 2 ^ 56"
  shows "unat (push_bit 8 a OR ucast (b :: u8)) = unat a * 256 + unat b"
proof -
  have "unat (ucast b :: u64) = unat b"
    using less_trans [OF unat_lt_u8 [of b], of "2 ^ 64"] by (simp add: unsigned_ucast_eq take_bit_nat_eq_self)
  then show ?thesis using assms unat_lt_u8 [of b] unat_push_or [of a 8 "ucast b"] by simp
qed

lemma sub_bytes_Suc: "pos < length data \<Longrightarrow> sub_bytes data pos (Suc n) = data ! pos # sub_bytes data (Suc pos) n"
  by (simp add: sub_bytes_def Cons_nth_drop_Suc [symmetric])

lemma unat_read_length:
  "unat a < 256 ^ k \<Longrightarrow> k + n \<le> 8 \<Longrightarrow> pos + n \<le> length data \<Longrightarrow>
     unat (read_length data n pos a) = unat a * 256 ^ n + be_val (sub_bytes data pos n)"
proof (induction n arbitrary: pos a k)
  case (Suc n)
  have "(256 :: nat) ^ k \<le> 256 ^ 7" using Suc.prems(2) by (intro power_increasing) auto
  then have a: "unat a < 2 ^ 56" using Suc.prems(1) by simp
  note s = unat_shift_or_u64 [OF this, of "data ! pos"]
  have "unat a * 256 + unat (data ! pos) < 256 ^ Suc k"
    using Suc.prems(1) unat_lt_u8 [of "data ! pos"] unfolding power_Suc by linarith
  then have "unat (read_length data n (pos + 1) (push_bit 8 a OR ucast (data ! pos))) =
      (unat a * 256 + unat (data ! pos)) * 256 ^ n + be_val (sub_bytes data (pos + 1) n)"
    using Suc.prems s by (subst Suc.IH [where k = "Suc k"]) auto
  then show ?case using Suc.prems by (simp add: sub_bytes_Suc algebra_simps)
qed simp

section \<open>An encoder\<close>

text \<open>
  Minimal big-endian bytes, definite lengths and elements with a low tag number, as X.690 has them;
  the specification the parser is compared with.
\<close>

fun be_bytes :: "nat \<Rightarrow> bytes" where
  "be_bytes n = (if n = 0 then [] else be_bytes (n div 256) @ [of_nat (n mod 256)])"

declare be_bytes.simps [simp del]

definition der_length :: "nat \<Rightarrow> bytes" where
  "der_length n = (if n < 128 then [of_nat n] else of_nat (128 + length (be_bytes n)) # be_bytes n)"

definition der_tlv :: "u8 \<Rightarrow> bytes \<Rightarrow> bytes" where
  "der_tlv tag content = tag # der_length (length content) @ content"

lemma unat_of_nat_u8: "unat (of_nat n :: u8) = n mod 256"
  by (simp add: unat_of_nat)

lemma be_val_be_bytes [simp]: "be_val (be_bytes n) = n"
proof (induction n rule: be_bytes.induct)
  case (1 n)
  then show ?case
    by (cases "n = 0") (simp_all add: be_bytes.simps [of n] be_bytes.simps [of 0] be_val_append unat_of_nat_u8)
qed

lemma length_be_bytes: "n < 256 ^ k \<Longrightarrow> length (be_bytes n) \<le> k"
proof (induction k arbitrary: n)
  case 0
  then show ?case by (simp add: be_bytes.simps [of 0])
next
  case (Suc k)
  then have "n div 256 < 256 ^ k" by (simp add: less_mult_imp_div_less mult.commute)
  with Suc.IH show ?case by (simp add: be_bytes.simps [of n])
qed

lemma be_bytes_nonempty: "0 < n \<Longrightarrow> be_bytes n \<noteq> []"
  by (simp add: be_bytes.simps [of n])

lemma low_byte_flag: "(w :: u8) AND 0x80 = 0 \<longleftrightarrow> unat w < 128"
proof -
  have "w AND 0x80 = 0 \<longleftrightarrow> \<not> bit w 7"
    using and_exp_eq_0_iff_not_bit [of w 7] by simp
  also have "\<dots> \<longleftrightarrow> unat w < 2 ^ 7"
  proof -
    have "bit w 7 \<longleftrightarrow> bit (unat w) 7" by (simp add: bit_unsigned_iff)
    then have "bit w 7 \<longleftrightarrow> odd (unat w div 2 ^ 7)" by (simp add: bit_iff_odd)
    moreover have "unat w div 2 ^ 7 = (if unat w < 2 ^ 7 then 0 else 1)"
      using unat_lt_u8 [of w] by (auto simp: div_nat_eqI)
    ultimately show ?thesis by simp
  qed
  finally show ?thesis by simp
qed

lemma unat_ucast_u8_u32: "unat (ucast (b :: u8) :: u32) = unat b"
  using less_trans [OF unat_lt_u8 [of b], of "2 ^ 32"] by (simp add: unsigned_ucast_eq take_bit_nat_eq_self)

lemma unat_and_7F: "unat ((w :: u8) AND 0x7F) = unat w mod 128"
  using unat_and_mask_nat [of w 7] by (simp add: mask_eq_exp_minus_1)

lemma nth_append_mid: "i < length ys \<Longrightarrow> (xs @ ys @ zs) ! (length xs + i) = ys ! i"
  by (simp add: nth_append)

lemma parse_length_der:
  assumes "n < 256 ^ 8" "length xs + length (der_length n) \<le> sz"
  shows "parse_length (xs @ der_length n @ ys) sz (length xs) = Some (n, length xs + length (der_length n))"
proof (cases "n < 128")
  case True
  then show ?thesis using assms(2)
    by (simp add: parse_length_def der_length_def low_byte_flag unat_of_nat_u8)
next
  case False
  let ?k = "length (be_bytes n)" and ?d = "xs @ der_length n @ ys"
  have k: "?k \<le> 8" "0 < ?k" using length_be_bytes [OF assms(1)] be_bytes_nonempty [of n] False by auto
  have d: "?d = xs @ of_nat (128 + ?k) # be_bytes n @ ys" using False by (simp add: der_length_def)
  have h: "?d ! length xs = of_nat (128 + ?k)" by (simp add: d)
  have u: "unat (of_nat (128 + ?k) :: u8) = 128 + ?k" using k by (subst unat_of_nat_u8) simp
  have sub: "sub_bytes ?d (length xs + 1) ?k = be_bytes n"
    using sub_bytes_append_mid [of "xs @ [of_nat (128 + ?k)]" "be_bytes n" ys] by (simp add: d)
  have "unat (read_length ?d ?k (length xs + 1) 0) = n"
    using unat_read_length [of 0 0 ?k "length xs + 1" ?d] k sub by (simp add: d)
  moreover have "unat (of_nat (128 + ?k) AND 0x7F :: u8) = ?k" using u k by (subst unat_and_7F) simp
  moreover have "of_nat (128 + ?k) AND (0x80 :: u8) \<noteq> 0" using u by (simp only: low_byte_flag)
  ultimately show ?thesis
    using assms(2) False k by (simp add: parse_length_def h der_length_def Let_def)
qed

text \<open>What parsing an encoded element at offset \<open>off\<close> gives.\<close>

definition tlv_element :: "u8 \<Rightarrow> bytes \<Rightarrow> nat \<Rightarrow> Element" where
  "tlv_element tag content off =
     \<lparr>el_tag_class = tag_class_of tag, el_constructed = (tag AND 0x20 \<noteq> 0), el_tag_number = ucast (tag AND 0x1F),
      el_content_offset = off + 1 + length (der_length (length content)), el_content_length = length content,
      el_total_length = length (der_tlv tag content)\<rparr>"

lemma parse_element_der:
  assumes "tag AND 0x1F \<noteq> 0x1F" "length content < 256 ^ 8" "length xs + length (der_tlv tag content) \<le> sz"
  shows "parse_element (xs @ der_tlv tag content @ ys) sz (length xs) = Some (tlv_element tag content (length xs))"
proof -
  let ?d = "xs @ der_tlv tag content @ ys" and ?n = "length content"
  have "ucast (tag AND 0x1F) \<noteq> (0x1F :: u32)"
  proof
    assume "ucast (tag AND 0x1F) = (0x1F :: u32)"
    then have "unat (ucast (tag AND 0x1F) :: u32) = unat (0x1F :: u8)" by simp
    then have "unat (tag AND 0x1F) = unat (0x1F :: u8)" by (simp only: unat_ucast_u8_u32)
    then show False using assms(1) by (simp only: word_unat_eq_iff)
  qed
  then have t: "parse_tag ?d sz (length xs) = Some (ucast (tag AND 0x1F), length xs + 1)"
    by (simp add: parse_tag_def der_tlv_def)
  have l: "parse_length ?d sz (length xs + 1) = Some (?n, length xs + 1 + length (der_length ?n))"
    using parse_length_der [OF assms(2), of "xs @ [tag]" sz "content @ ys"] assms(3) by (simp add: der_tlv_def)
  show ?thesis
    using assms(3) t l by (simp add: parse_element_def tlv_element_def der_tlv_def Let_def)
qed

lemma el_content_tlv: "el_content (xs @ der_tlv tag content @ ys) (tlv_element tag content (length xs)) = content"
  using sub_bytes_append_mid [of "xs @ tag # der_length (length content)" content ys]
  by (simp add: el_content_def tlv_element_def der_tlv_def)

lemma raw_bytes_tlv: "raw_bytes (xs @ der_tlv tag content @ ys) (tlv_element tag content (length xs)) = der_tlv tag content"
  using sub_bytes_append_mid [of xs "der_tlv tag content" ys]
  by (simp add: raw_bytes_def tlv_element_def Let_def) (simp add: der_tlv_def)

section \<open>Children\<close>

fun tlv_elements :: "nat \<Rightarrow> (u8 \<times> bytes) list \<Rightarrow> Element list" where
  "tlv_elements off [] = []"
| "tlv_elements off ((tag, content) # items) =
     tlv_element tag content off # tlv_elements (off + length (der_tlv tag content)) items"

definition der_items :: "(u8 \<times> bytes) list \<Rightarrow> bytes" where
  "der_items items = concat (map (\<lambda>(tag, content). der_tlv tag content) items)"

lemma parse_children_der:
  "\<forall>(tag, content) \<in> set items. tag AND 0x1F \<noteq> 0x1F \<and> length content < 256 ^ 8 \<Longrightarrow>
     parse_sequence_children (xs @ der_items items @ ys) (length xs) (length (der_items items)) =
       tlv_elements (length xs) items"
proof (induction items arbitrary: xs)
  case Nil
  then show ?case by (simp add: parse_sequence_children_def der_items_def children_loop.simps)
next
  case (Cons item items)
  obtain tag content where item: "item = (tag, content)" by fastforce
  let ?t = "der_tlv tag content" and ?e = "length xs + length (der_items (item # items))"
  have split: "der_items (item # items) = ?t @ der_items items" by (simp add: der_items_def item)
  have p: "parse_element (xs @ ?t @ (der_items items @ ys)) ?e (length xs) = Some (tlv_element tag content (length xs))"
    using Cons.prems item split by (intro parse_element_der) auto
  have ih: "children_loop ((xs @ ?t) @ der_items items @ ys) ?e (length (xs @ ?t)) =
      tlv_elements (length (xs @ ?t)) items"
    using Cons.IH [of "xs @ ?t"] Cons.prems split by (simp add: parse_sequence_children_def add.assoc)
  have ne: "?t \<noteq> []" by (simp add: der_tlv_def)
  have tl: "el_total_length (tlv_element tag content off) = length ?t" for off by (simp add: tlv_element_def)
  show ?case
    using p ih ne
    by (simp add: parse_sequence_children_def children_loop.simps [of _ _ "length xs"] split tl) (simp add: item)
qed

lemma tlv_elements_read:
  "map (el_content (xs @ der_items items @ ys)) (tlv_elements (length xs) items) = map snd items \<and>
   map (raw_bytes (xs @ der_items items @ ys)) (tlv_elements (length xs) items) =
     map (\<lambda>(tag, content). der_tlv tag content) items"
proof (induction items arbitrary: xs)
  case (Cons item items)
  obtain tag content where item: "item = (tag, content)" by fastforce
  have "xs @ der_items (item # items) @ ys = xs @ der_tlv tag content @ (der_items items @ ys)"
    by (simp add: der_items_def item)
  then show ?case
    using Cons.IH [of "xs @ der_tlv tag content"]
    by (simp add: item el_content_tlv raw_bytes_tlv)
qed simp

text \<open>On any input the children lie one after the other inside the region.\<close>

fun tiles :: "nat \<Rightarrow> nat \<Rightarrow> Element list \<Rightarrow> bool" where
  "tiles pos end' [] \<longleftrightarrow> True"
| "tiles pos end' (el # els) \<longleftrightarrow> pos < el_content_offset el \<and> el_content_offset el + el_content_length el \<le> end' \<and>
     pos + el_total_length el = el_content_offset el + el_content_length el \<and> tiles (pos + el_total_length el) end' els"

lemma children_tile: "tiles pos end' (children_loop data end' pos)"
proof (induction data end' pos rule: children_loop.induct)
  case (1 data end' pos)
  show ?case
  proof (cases "end' \<le> pos \<or> parse_element data end' pos = None")
    case True
    then show ?thesis by (auto simp: children_loop.simps [of data end' pos])
  next
    case False
    then obtain c where c: "parse_element data end' pos = Some c" by auto
    have "tiles (pos + el_total_length c) end' (children_loop data end' (pos + el_total_length c))"
      using 1 [OF _ c] False by simp
    then show ?thesis
      using False c parse_element_bounds [OF c] by (auto simp: children_loop.simps [of data end' pos])
  qed
qed

section \<open>Integers and identifiers\<close>

definition der_uint :: "nat \<Rightarrow> bytes" where
  "der_uint n = (if n = 0 then [0] else if hd (be_bytes n) AND 0x80 \<noteq> 0 then 0 # be_bytes n else be_bytes n)"

lemma is_universal_tlv:
  "is_universal (tlv_element 0x02 c off) TAG_INTEGER" "is_universal (tlv_element 0x06 c off) TAG_OBJECT_IDENTIFIER"
  by (simp_all add: is_universal_def tlv_element_def tag_class_of_def TAG_INTEGER_def TAG_OBJECT_IDENTIFIER_def)

lemma tlv_element_length [simp]: "el_content_length (tlv_element t c off) = length c"
  by (simp add: tlv_element_def)

lemma hd_be_bytes: "0 < n \<Longrightarrow> hd (be_bytes n) \<noteq> 0"
proof (induction n rule: be_bytes.induct)
  case (1 n)
  show ?case
  proof (cases "n div 256 = 0")
    case True
    then have "unat (of_nat n :: u8) \<noteq> 0" using 1(2) by (simp add: unat_of_nat_u8 div_eq_0_iff)
    then have "of_nat n \<noteq> (0 :: u8)" by auto
    then show ?thesis using True 1(2) by (simp add: be_bytes.simps [of n] be_bytes.simps [of 0] div_eq_0_iff)
  next
    case False
    then show ?thesis using 1 be_bytes_nonempty [of "n div 256"] by (simp add: be_bytes.simps [of n])
  qed
qed

lemma read_unsigned_integer_der:
  "read_unsigned_integer (xs @ der_tlv 0x02 (der_uint n) @ ys) (tlv_element 0x02 (der_uint n) (length xs)) =
     (if n = 0 then [0] else be_bytes n)"
proof (cases "n = 0")
  case True
  then show ?thesis
    by (simp add: read_unsigned_integer_def is_universal_tlv el_content_tlv Let_def) (simp add: der_uint_def)
next
  case False
  then obtain b bs where b: "be_bytes n = b # bs" using be_bytes_nonempty [of n] by (cases "be_bytes n") auto
  moreover have "b \<noteq> 0" using hd_be_bytes [of n] False b by simp
  ultimately show ?thesis using False
    by (simp add: read_unsigned_integer_def is_universal_tlv el_content_tlv Let_def) (auto simp: der_uint_def)
qed

text \<open>On any element: the bytes returned have the value of the content, whose sign bit is clear.\<close>

lemma read_unsigned_integer_value:
  assumes "read_unsigned_integer data el \<noteq> []"
  shows "be_val (read_unsigned_integer data el) = be_val (el_content data el)"
proof -
  let ?c = "el_content data el"
  have "be_val (drop 1 ?c) = be_val ?c" if "?c ! 0 = 0" "2 \<le> length ?c" using that by (cases ?c) auto
  then show ?thesis
    using assms by (cases ?c) (auto simp: read_unsigned_integer_def Let_def el_content_def split: if_splits)
qed

text \<open>Base-128 arcs and dotted decimals (X.690 section 8.19).\<close>

fun b128_hi :: "nat \<Rightarrow> bytes" where
  "b128_hi n = (if n = 0 then [] else b128_hi (n div 128) @ [of_nat (128 + n mod 128)])"

declare b128_hi.simps [simp del]

definition b128 :: "nat \<Rightarrow> bytes" where
  "b128 n = b128_hi (n div 128) @ [of_nat (n mod 128)]"

definition oid_content :: "nat \<Rightarrow> nat \<Rightarrow> nat list \<Rightarrow> bytes" where
  "oid_content x y arcs = of_nat (40 * x + y) # concat (map b128 arcs)"

definition dotted :: "nat \<Rightarrow> nat \<Rightarrow> nat list \<Rightarrow> string" where
  "dotted x y arcs = to_string x @ ''.'' @ to_string y @ concat (map (\<lambda>v. ''.'' @ to_string v) arcs)"

lemma not_bit_7F: "7 \<le> i \<Longrightarrow> \<not> bit ((w :: u8) AND 0x7F) i"
proof -
  have "(0x7F :: u8) = mask 7" by (simp add: mask_eq_exp_minus_1)
  then show "7 \<le> i \<Longrightarrow> \<not> bit (w AND 0x7F) i" by (simp only: bit_and_iff bit_mask_iff) simp
qed

lemma arc_step: "push_bit 7 (of_nat (m div 128) :: u64) OR ucast (of_nat (k + m mod 128) AND (0x7F :: u8)) = of_nat m"
  if "k = 0 \<or> k = 128"
proof -
  let ?b = "of_nat (k + m mod 128) AND (0x7F :: u8)"
  have b: "unat ?b = m mod 128" using that by (auto simp: unat_and_7F unat_of_nat_u8 mod_add_eq simp del: of_nat_add)
  have "\<not> bit ?b i" if "7 \<le> i" for i using that by (rule not_bit_7F)
  then have "push_bit 7 (of_nat (m div 128) :: u64) OR ucast ?b = push_bit 7 (of_nat (m div 128)) + ucast ?b"
    by (intro disjunctive_add [symmetric]) (auto simp: bit_simps)
  moreover have "ucast ?b = (of_nat (m mod 128) :: u64)"
  proof -
    have "ucast ?b = (of_nat (unat ?b) :: u64)" by (rule of_nat_unat [symmetric])
    then show ?thesis by (simp only: b)
  qed
  moreover have "push_bit 7 (of_nat (m div 128)) + of_nat (m mod 128) = (of_nat (m div 128 * 128 + m mod 128) :: u64)"
    unfolding push_bit_eq_mult of_nat_add of_nat_mult by simp
  ultimately show ?thesis by (simp only: div_mult_mod_eq)
qed

lemma oid_loop_hi: "oid_loop (b128_hi m @ bs) 0 mid out = oid_loop bs (of_nat m) (mid \<or> 0 < m) out"
proof (induction m arbitrary: bs rule: b128_hi.induct)
  case (1 m)
  show ?case
  proof (cases "m = 0")
    case True
    then show ?thesis by (simp add: b128_hi.simps [of 0])
  next
    case False
    let ?c = "of_nat (128 + m mod 128) :: u8"
    have c: "?c AND 0x80 \<noteq> 0" by (simp only: low_byte_flag unat_of_nat_u8) simp
    have "oid_loop (b128_hi m @ bs) 0 mid out = oid_loop (?c # bs) (of_nat (m div 128)) (mid \<or> 0 < m div 128) out"
      using 1 [OF False, of "?c # bs"] False by (simp add: b128_hi.simps [of m])
    also have "\<dots> = oid_loop bs (of_nat m) True out"
      using c arc_step [of 128 m] by (simp only: oid_loop.simps Let_def if_False simp_thms)
    finally show ?thesis using False by simp
  qed
qed

lemma oid_loop_b128:
  assumes "m < 2 ^ 64"
  shows "oid_loop (b128 m @ bs) 0 False out = oid_loop bs 0 False (out @ ''.'' @ to_string m)"
proof -
  let ?c = "of_nat (m mod 128) :: u8"
  have c: "?c AND 0x80 = 0" by (simp only: low_byte_flag unat_of_nat_u8)
  have u: "unat (of_nat m :: u64) = m" using assms by (simp add: unat_of_nat)
  show ?thesis
    using c arc_step [of 0 m] u
    by (simp add: b128_def oid_loop_hi Let_def)
qed

lemma oid_loop_arcs:
  "\<forall>v \<in> set arcs. v < 2 ^ 64 \<Longrightarrow>
     oid_loop (concat (map b128 arcs)) 0 False out = out @ concat (map (\<lambda>v. ''.'' @ to_string v) arcs)"
  by (induction arcs arbitrary: out) (simp_all add: oid_loop_b128)

lemma oid_to_string_der:
  assumes "x < 2 \<and> y < 40 \<or> x = 2 \<and> y < 176" "\<forall>v \<in> set arcs. v < 2 ^ 64"
  shows "oid_to_string (xs @ der_tlv 0x06 (oid_content x y arcs) @ ys)
     (tlv_element 0x06 (oid_content x y arcs) (length xs)) = dotted x y arcs"
proof -
  define w :: u8 where "w = of_nat (40 * x + y)"
  have h: "unat w = 40 * x + y" unfolding w_def using assms(1) by (subst unat_of_nat_u8) auto
  have c: "oid_content x y arcs = w # concat (map b128 arcs)" by (simp only: oid_content_def w_def)
  have "(if 2 < (40 * x + y) div 40 then (2, 40 * x + y - 80) else ((40 * x + y) div 40, (40 * x + y) mod 40)) = (x, y)"
    using assms(1) by auto
  then show ?thesis
    using oid_loop_arcs [OF assms(2)]
    by (simp only: oid_to_string_def is_universal_tlv el_content_tlv Let_def tlv_element_length)
      (auto simp: c h dotted_def split: if_splits)
qed

section \<open>Elements in place\<close>

text \<open>
  \<open>der_at data el tag content\<close>: \<open>el\<close> is what the parser returns for the encoding of \<open>(tag, content)\<close> somewhere in
  \<open>data\<close>. With it nested structures are read level by level.
\<close>

definition der_at :: "bytes \<Rightarrow> Element \<Rightarrow> u8 \<Rightarrow> bytes \<Rightarrow> bool" where
  "der_at data el tag content \<longleftrightarrow> (\<exists>xs ys. data = xs @ der_tlv tag content @ ys \<and> el = tlv_element tag content (length xs))"

abbreviation low_tag :: "u8 \<Rightarrow> bool" where
  "low_tag tag \<equiv> tag AND 0x1F \<noteq> 0x1F"

lemma der_at_reads:
  assumes "der_at data el tag content"
  shows "el_content data el = content" "raw_bytes data el = der_tlv tag content" "el_content_length el = length content"
    "el_tag_class el = tag_class_of tag" "el_tag_number el = ucast (tag AND 0x1F)"
  using assms by (auto simp: der_at_def el_content_tlv raw_bytes_tlv) (simp_all add: tlv_element_def)

lemma der_at_universal:
  "der_at data el tag content \<Longrightarrow> is_universal el t \<longleftrightarrow> tag_class_of tag = UNIVERSAL \<and> ucast (tag AND 0x1F) = t"
  by (simp add: is_universal_def der_at_reads)

lemma tlv_elements_at:
  "list_all2 (\<lambda>el (tag, content). der_at (xs @ der_items items @ ys) el tag content) (tlv_elements (length xs) items) items"
proof (induction items arbitrary: xs)
  case (Cons item items)
  obtain tag content where item: "item = (tag, content)" by fastforce
  have "xs @ der_items (item # items) @ ys = xs @ der_tlv tag content @ (der_items items @ ys)"
    by (simp add: der_items_def item)
  then show ?case using Cons.IH [of "xs @ der_tlv tag content"] by (auto simp: item der_at_def)
qed simp

lemma length_der_items_le: "(tag, content) \<in> set items \<Longrightarrow> length content \<le> length (der_items items)"
  by (induction items) (auto simp: der_items_def der_tlv_def)

lemma der_at_children:
  assumes "der_at data el tag (der_items items)" "\<forall>(t, c) \<in> set items. low_tag t" "length data < 256 ^ 8"
  obtains els where "parse_sequence_children data (el_content_offset el) (el_content_length el) = els"
    "list_all2 (\<lambda>el (tag, content). der_at data el tag content) els items"
proof -
  from assms(1) obtain xs ys where d: "data = xs @ der_tlv tag (der_items items) @ ys"
    and el: "el = tlv_element tag (der_items items) (length xs)" by (auto simp: der_at_def)
  let ?xs = "xs @ tag # der_length (length (der_items items))"
  have d': "data = ?xs @ der_items items @ ys" by (simp add: d der_tlv_def)
  have "length (der_items items) < 256 ^ 8" using assms(3) d' by simp
  then have "\<forall>(t, c) \<in> set items. low_tag t \<and> length c < 256 ^ 8"
    using assms(2) length_der_items_le [of _ _ items] by (auto intro: le_less_trans)
  then have "parse_sequence_children data (length ?xs) (length (der_items items)) = tlv_elements (length ?xs) items"
    unfolding d' by (rule parse_children_der)
  moreover have "el_content_offset el = length ?xs" "el_content_length el = length (der_items items)"
    by (simp_all add: el tlv_element_def)
  ultimately show ?thesis using that tlv_elements_at [of ?xs items ys] d' by simp
qed

lemma der_at_whole:
  assumes "low_tag tag" "length (der_tlv tag content) < 256 ^ 8"
  obtains el where "parse_element (der_tlv tag content) (length (der_tlv tag content)) 0 = Some el"
    "der_at (der_tlv tag content) el tag content"
proof -
  have "length content < 256 ^ 8" using assms(2) by (simp add: der_tlv_def)
  from parse_element_der [OF assms(1) this, of "[]" _ "[]"]
  have "parse_element (der_tlv tag content) (length (der_tlv tag content)) 0 = Some (tlv_element tag content 0)" by simp
  moreover have "der_at (der_tlv tag content) (tlv_element tag content 0) tag content"
    unfolding der_at_def by (intro exI [of _ "[]"]) simp
  ultimately show ?thesis using that by blast
qed

lemma der_at_integer:
  "der_at data el 0x02 (der_uint n) \<Longrightarrow> read_unsigned_integer data el = (if n = 0 then [0] else be_bytes n)"
  by (auto simp: der_at_def read_unsigned_integer_der)

lemma der_at_oid:
  assumes "der_at data el 0x06 (oid_content x y arcs)" "x < 2 \<and> y < 40 \<or> x = 2 \<and> y < 176" "\<forall>v \<in> set arcs. v < 2 ^ 64"
  shows "oid_to_string data el = dotted x y arcs"
  using assms oid_to_string_der by (auto simp: der_at_def)

section \<open>Properties\<close>

text \<open>
  C36. The DER parser never leaves the buffer: the element it returns lies inside the given size, takes
  at least two bytes, its total length is header plus content, and the result depends only on the
  bytes between the offset and the size - nothing outside is ever read.
\<close>

theorem der_parse_in_bounds:
  "(\<forall>el. parse_element data sz offset = Some el \<longrightarrow>
      offset + 2 \<le> el_content_offset el \<and> el_content_offset el + el_content_length el \<le> sz \<and>
      offset + el_total_length el = el_content_offset el + el_content_length el) \<and>
   ((\<forall>i. offset \<le> i \<and> i < sz \<longrightarrow> data ! i = data' ! i) \<longrightarrow>
      parse_element data sz offset = parse_element data' sz offset)"
  using parse_element_bounds [of data sz offset] parse_element_local [of offset sz data data'] by blast

theorem der_parse_in_bounds_witness:
  "parse_element [0x30, 0x01, 0x05, 0xFF] 3 0 = parse_element [0x30, 0x01, 0x05, 0x00] 3 0"
  by (rule der_parse_in_bounds [THEN conjunct2, rule_format]) (auto simp: less_Suc_eq numeral_3_eq_3)

text \<open>
  C35. Parsing inverts DER encoding: a sequence of elements encoded with low tag numbers and minimal
  definite lengths, anywhere in a buffer, parses to exactly those elements, and the content and the
  raw bytes read back are the encoded ones.
\<close>

theorem der_round_trip:
  assumes "\<forall>(tag, content) \<in> set items. tag AND 0x1F \<noteq> 0x1F \<and> length content < 256 ^ 8"
  shows "let data = xs @ der_items items @ ys;
             els = parse_sequence_children data (length xs) (length (der_items items)) in
     els = tlv_elements (length xs) items \<and> map (el_content data) els = map snd items \<and>
     map (raw_bytes data) els = map (\<lambda>(tag, content). der_tlv tag content) items"
  using parse_children_der [OF assms, of xs ys] tlv_elements_read [of xs items ys] by (simp add: Let_def)

theorem der_round_trip_witness:
  "let items = [(0x30, [1, 2]), (0x04, [])]; data = [7] @ der_items items @ [9] in
     map (el_content data) (parse_sequence_children data (length [7 :: u8]) (length (der_items items))) = map snd items"
proof -
  have "\<forall>(tag, content) \<in> set [(0x30 :: u8, [1 :: u8, 2]), (0x04, [])]. tag AND 0x1F \<noteq> 0x1F \<and> length content < 256 ^ 8"
    by simp
  from der_round_trip [OF this, of "[7]" "[9]"] show ?thesis unfolding Let_def by blast
qed

text \<open>
  On arbitrary bytes the children of a region are a prefix of it: they follow one another without
  gap or overlap and none reaches past the region's end.
\<close>

theorem der_children_tile:
  "tiles offset (offset + len) (parse_sequence_children data offset len)"
  by (simp add: parse_sequence_children_def children_tile)

text \<open>
  Integers and identifiers read back: the encoding of a non-negative integer is read as its minimal
  big-endian bytes (without the sign padding), and an object identifier whose first octet fits one byte and whose arcs
  fit 64 bits is printed as its dotted decimal form.
\<close>

theorem der_integer_oid_round_trip:
  assumes "x < 2 \<and> y < 40 \<or> x = 2 \<and> y < 176" "\<forall>v \<in> set arcs. v < 2 ^ 64"
  shows "be_val (read_unsigned_integer (xs @ der_tlv 0x02 (der_uint n) @ ys) (tlv_element 0x02 (der_uint n) (length xs))) = n \<and>
    oid_to_string (xs @ der_tlv 0x06 (oid_content x y arcs) @ ys)
      (tlv_element 0x06 (oid_content x y arcs) (length xs)) = dotted x y arcs"
  using oid_to_string_der [OF assms] by (simp add: read_unsigned_integer_der)

theorem der_integer_oid_round_trip_witness:
  "oid_to_string (der_tlv 0x06 (oid_content 1 2 [840, 113549])) (tlv_element 0x06 (oid_content 1 2 [840, 113549]) 0) =
     dotted 1 2 [840, 113549]"
  using der_integer_oid_round_trip [of 1 2 "[840, 113549]" "[]" 0 "[]"] by simp

text \<open>
  The identifier printer is not injective on what it accepts: an encoding whose second
  arc needs two octets, such as 2.999, is printed as another identifier.
\<close>

theorem oid_two_byte_first_arc_misread:
  "oid_to_string (der_tlv 0x06 (b128 (80 + 999) @ b128 5)) (tlv_element 0x06 (b128 (80 + 999) @ b128 5) 0) = ''2.56.55.5''"
  by code_simp

end
