(* ===== verification/Bignum.thy ===== *)
theory Bignum
  imports GCAD_Prelude
begin

text \<open>
  \<^verbatim>\<open>security/bignum.{hpp,cpp}\<close>: unsigned big integers as little-endian lists of 32-bit limbs, with the
  64-bit intermediate arithmetic of the code. \<open>big_val\<close> is the number a limb list stands for; each
  operation is shown to compute the corresponding operation on natural numbers, with no carry or
  borrow lost, and \<^verbatim>\<open>mod_pow\<close> to compute modular exponentiation.
\<close>

unbundle bit_operations_syntax

type_synonym limbs = "u32 list"

fun big_val :: "limbs \<Rightarrow> nat" where
  "big_val [] = 0"
| "big_val (l # ls) = unat l + 2 ^ 32 * big_val ls"

text \<open>No zero limb at the top: the representation invariant of \<^verbatim>\<open>BigUInt\<close>.\<close>

definition big_ok :: "limbs \<Rightarrow> bool" where
  "big_ok ls \<longleftrightarrow> ls = [] \<or> last ls \<noteq> 0"

section \<open>Operations\<close>

definition trim :: "limbs \<Rightarrow> limbs" where
  "trim ls = rev (dropWhile (\<lambda>l. l = 0) (rev ls))"

definition or_byte :: "bytes \<Rightarrow> nat \<Rightarrow> limbs \<Rightarrow> nat \<Rightarrow> limbs" where
  "or_byte data n ls i =
     ls[i div 4 := ls ! (i div 4) OR push_bit (i mod 4 * 8) (ucast (data ! (n - 1 - i)))]"

definition from_bytes_be :: "bytes \<Rightarrow> limbs" where
  "from_bytes_be data =
     (let rest = dropWhile (\<lambda>b. b = 0) data; n = length rest in
      if n = 0 then [] else trim (foldl (or_byte rest n) (replicate ((n + 3) div 4) 0) [0..<n]))"

definition from_small :: "u32 \<Rightarrow> limbs" where
  "from_small value' = (if value' \<noteq> 0 then [value'] else [])"

definition limb_bytes :: "u32 \<Rightarrow> bytes" where
  "limb_bytes l = [ucast (l AND 0xFF), ucast (drop_bit 8 l AND 0xFF), ucast (drop_bit 16 l AND 0xFF),
     ucast (drop_bit 24 l AND 0xFF)]"

fun skip_zeros :: "bytes \<Rightarrow> bytes" where
  "skip_zeros (b # c # bs) = (if b = 0 then skip_zeros (c # bs) else b # c # bs)"
| "skip_zeros bs = bs"

definition to_bytes_be :: "limbs \<Rightarrow> nat \<Rightarrow> bytes" where
  "to_bytes_be ls min_len =
     (let trimmed = skip_zeros (rev (concat (map limb_bytes ls))) in
      if length trimmed = 1 \<and> trimmed ! 0 = 0 \<and> min_len = 0 then []
      else if length trimmed < min_len then replicate (min_len - length trimmed) 0 @ trimmed
      else trimmed)"

definition is_zero :: "limbs \<Rightarrow> bool" where
  "is_zero ls \<longleftrightarrow> ls = []"

function top_bits :: "u32 \<Rightarrow> nat" where
  "top_bits tp = (if tp = 0 then 0 else 1 + top_bits (drop_bit 1 tp))"
  by pat_completeness auto

termination
proof (relation "measure unat")
  fix tp :: u32
  assume "tp \<noteq> 0"
  then have "0 < unat tp" by (simp add: unat_gt_0)
  then show "(drop_bit 1 tp, tp) \<in> measure unat" by (simp add: unat_drop_bit_nat)
qed simp

declare top_bits.simps [simp del]

definition bit_length :: "limbs \<Rightarrow> nat" where
  "bit_length ls = (if ls = [] then 0 else (length ls - 1) * 32 + top_bits (last ls))"

definition get_bit :: "limbs \<Rightarrow> nat \<Rightarrow> bool" where
  "get_bit ls index = (if length ls \<le> index div 32 then False
     else drop_bit (index mod 32) (ls ! (index div 32)) AND 1 \<noteq> 0)"

text \<open>The comparison loop, on the limbs from the most significant one down.\<close>

fun compare_limbs :: "limbs \<Rightarrow> limbs \<Rightarrow> int" where
  "compare_limbs (a # as) (b # bs) = (if a \<noteq> b then if a < b then - 1 else 1 else compare_limbs as bs)"
| "compare_limbs _ _ = 0"

definition compare :: "limbs \<Rightarrow> limbs \<Rightarrow> int" where
  "compare a b = (if length a \<noteq> length b then if length a < length b then - 1 else 1
     else compare_limbs (rev a) (rev b))"

definition limb_at :: "limbs \<Rightarrow> nat \<Rightarrow> u32" where
  "limb_at ls i = (if i < length ls then ls ! i else 0)"

fun add_loop :: "limbs \<Rightarrow> limbs \<Rightarrow> nat \<Rightarrow> nat \<Rightarrow> u64 \<Rightarrow> limbs" where
  "add_loop a b 0 i carry = []"
| "add_loop a b (Suc k) i carry =
     (let sum = ucast (limb_at a i) + ucast (limb_at b i) + carry
      in ucast (sum AND 0xFFFFFFFF) # add_loop a b k (i + 1) (drop_bit 32 sum))"

definition big_add :: "limbs \<Rightarrow> limbs \<Rightarrow> limbs" where
  "big_add a b = trim (add_loop a b (max (length a) (length b) + 1) 0 0)"

text \<open>The 64-bit signed differences stay far from overflow, so they are integers here.\<close>

fun sub_loop :: "limbs \<Rightarrow> limbs \<Rightarrow> nat \<Rightarrow> int \<Rightarrow> limbs" where
  "sub_loop [] b i borrow = []"
| "sub_loop (ai # as) b i borrow =
     (let diff = int (unat ai) - int (unat (limb_at b i)) - borrow
      in if diff < 0 then word_of_int (diff + 2 ^ 32) # sub_loop as b (i + 1) 1
         else word_of_int diff # sub_loop as b (i + 1) 0)"

definition big_subtract :: "limbs \<Rightarrow> limbs \<Rightarrow> limbs" where
  "big_subtract a b = trim (sub_loop a b 0 0)"

fun mul_row :: "u32 \<Rightarrow> limbs \<Rightarrow> limbs \<Rightarrow> nat \<Rightarrow> u64 \<Rightarrow> limbs \<times> u64" where
  "mul_row ai [] res p carry = (res, carry)"
| "mul_row ai (bj # bs) res p carry =
     (let prod = ucast ai * ucast bj + ucast (res ! p) + carry
      in mul_row ai bs (res[p := ucast (prod AND 0xFFFFFFFF)]) (p + 1) (drop_bit 32 prod))"

text \<open>\<open>None\<close> would be a write past the end of \<^verbatim>\<open>result.limbs_\<close>.\<close>

function carry_loop :: "limbs \<Rightarrow> nat \<Rightarrow> u64 \<Rightarrow> limbs option" where
  "carry_loop res k carry =
     (if carry = 0 then Some res
      else if length res \<le> k then None
      else let sum = ucast (res ! k) + carry
        in carry_loop (res[k := ucast (sum AND 0xFFFFFFFF)]) (k + 1) (drop_bit 32 sum))"
  by pat_completeness auto

termination
  by (relation "measure (\<lambda>(res, k, carry). length res - k)") auto

declare carry_loop.simps [simp del]

fun mul_rows :: "limbs \<Rightarrow> limbs \<Rightarrow> nat \<Rightarrow> limbs \<Rightarrow> limbs option" where
  "mul_rows [] b i res = Some res"
| "mul_rows (ai # as) b i res =
     (case mul_row ai b res i 0 of (res1, carry) \<Rightarrow>
        (case carry_loop res1 (i + length b) carry of
           None \<Rightarrow> None
         | Some res2 \<Rightarrow> mul_rows as b (i + 1) res2))"

definition multiply :: "limbs \<Rightarrow> limbs \<Rightarrow> limbs option" where
  "multiply a b = (if is_zero a \<or> is_zero b then Some []
     else map_option trim (mul_rows a b 0 (replicate (length a + length b) 0)))"

fun shift_loop :: "limbs \<Rightarrow> u32 \<Rightarrow> limbs" where
  "shift_loop [] carry = [carry]"
| "shift_loop (l # ls) carry = (push_bit 1 l OR carry) # shift_loop ls (drop_bit 31 l)"

definition shift_left_one_bit :: "limbs \<Rightarrow> limbs" where
  "shift_left_one_bit a = (if is_zero a then [] else trim (shift_loop a 0))"

fun mod_loop :: "limbs \<Rightarrow> limbs \<Rightarrow> nat \<Rightarrow> limbs \<Rightarrow> limbs" where
  "mod_loop a m 0 remainder = remainder"
| "mod_loop a m (Suc idx) remainder =
     (let r1 = shift_left_one_bit remainder;
          r2 = (if get_bit a idx then big_add r1 (from_small 1) else r1);
          r3 = (if 0 \<le> compare r2 m then big_subtract r2 m else r2)
      in mod_loop a m idx r3)"

definition big_mod :: "limbs \<Rightarrow> limbs \<Rightarrow> limbs" where
  "big_mod a m = (if is_zero m then [] else if compare a m < 0 then a else mod_loop a m (bit_length a) [])"

text \<open>Iterations \<open>i\<close> to \<open>i + n - 1\<close> of the exponentiation loop.\<close>

fun pow_loop :: "limbs \<Rightarrow> limbs \<Rightarrow> nat \<Rightarrow> nat \<Rightarrow> limbs \<Rightarrow> limbs \<Rightarrow> limbs option" where
  "pow_loop e m 0 i result base = Some result"
| "pow_loop e m (Suc n) i result base =
     (case (if get_bit e i then map_option (\<lambda>p. big_mod p m) (multiply result base) else Some result) of
        None \<Rightarrow> None
      | Some result' \<Rightarrow>
          (case multiply base base of
             None \<Rightarrow> None
           | Some p \<Rightarrow> pow_loop e m n (i + 1) result' (big_mod p m)))"

definition mod_pow :: "limbs \<Rightarrow> limbs \<Rightarrow> limbs \<Rightarrow> limbs option" where
  "mod_pow base_in e m = (if is_zero m then Some []
     else pow_loop e m (bit_length e) 0 (from_small 1) (big_mod base_in m))"

section \<open>Values\<close>

lemma unat_u32_lt: "unat (w :: u32) < 4294967296"
  using unsigned_less [of w] by simp

lemma big_val_append: "big_val (xs @ ys) = big_val xs + 2 ^ (32 * length xs) * big_val ys"
  by (induction xs) (simp_all add: algebra_simps power_add)

lemma big_val_bound: "big_val ls < 2 ^ (32 * length ls)"
proof (induction ls)
  case (Cons l ls)
  have "unat l + 2 ^ 32 * big_val ls < 2 ^ 32 + 2 ^ 32 * big_val ls" using unat_u32_lt [of l] by simp
  also have "\<dots> = 2 ^ 32 * Suc (big_val ls)" by simp
  also have "\<dots> \<le> 2 ^ 32 * 2 ^ (32 * length ls)" using Cons by (intro mult_left_mono) auto
  finally show ?case by (simp add: power_add)
qed simp

lemma big_val_replicate [simp]: "big_val (replicate n 0) = 0"
  by (induction n) simp_all

lemma trim_snoc: "trim (ls @ [l]) = (if l = 0 then trim ls else ls @ [l])"
  by (simp add: trim_def)

lemma big_val_trim [simp]: "big_val (trim ls) = big_val ls"
  by (induction ls rule: rev_induct) (simp_all add: trim_snoc big_val_append, simp add: trim_def)

lemma big_ok_trim [simp]: "big_ok (trim ls)"
  by (induction ls rule: rev_induct) (auto simp: trim_snoc big_ok_def, simp add: trim_def)

lemma big_val_lower: "big_ok ls \<Longrightarrow> ls \<noteq> [] \<Longrightarrow> 2 ^ (32 * (length ls - 1)) \<le> big_val ls"
proof (induction ls rule: rev_induct)
  case (snoc l ls)
  then have "1 \<le> unat l" by (simp add: big_ok_def Suc_le_eq unat_gt_0)
  then have "2 ^ (32 * length ls) * 1 \<le> 2 ^ (32 * length ls) * unat l" by (rule mult_left_mono) simp
  then have "2 ^ (32 * length ls) \<le> big_val ls + 2 ^ (32 * length ls) * unat l" by (simp only: mult_1_right trans_le_add2)
  then show ?case by (simp only: big_val_append big_val.simps length_append_singleton diff_Suc_1) simp
qed simp

lemma big_val_0_iff: "big_ok ls \<Longrightarrow> big_val ls = 0 \<longleftrightarrow> ls = []"
proof (cases "ls = []")
  case False
  assume "big_ok ls"
  from big_val_lower [OF this False] have "0 < big_val ls" by (rule less_le_trans [rotated]) simp
  with False show ?thesis by simp
qed simp

lemma big_val_update:
  "k < length ls \<Longrightarrow> big_val (ls[k := x]) + 2 ^ (32 * k) * unat (ls ! k) = big_val ls + 2 ^ (32 * k) * unat x"
proof (induction ls arbitrary: k)
  case (Cons l ls)
  show ?case
  proof (cases k)
    case (Suc j)
    then have "big_val (ls[j := x]) + 2 ^ (32 * j) * unat (ls ! j) = big_val ls + 2 ^ (32 * j) * unat x"
      using Cons by simp
    from arg_cong [OF this, of "\<lambda>v. 2 ^ 32 * v"] show ?thesis
      using Suc by (simp add: power_add algebra_simps)
  qed simp
qed simp

section \<open>Addition\<close>

lemma unat_ucast_u32_u64 [simp]: "unat (ucast (w :: u32) :: u64) = unat w"
  using less_trans [OF unat_u32_lt [of w], of "2 ^ 64"] by (simp add: unsigned_ucast_eq take_bit_nat_eq_self)

lemma unat_add_u64: "unat (x :: u64) + unat y < 2 ^ 64 \<Longrightarrow> unat (x + y) = unat x + unat y"
  by (simp add: unat_word_ariths)

lemma unat_mult_u64: "unat (x :: u64) * unat y < 2 ^ 64 \<Longrightarrow> unat (x * y) = unat x * unat y"
  by (simp add: unat_word_ariths)

lemma unat_low32: "unat (ucast ((w :: u64) AND 0xFFFFFFFF) :: u32) = unat w mod 2 ^ 32"
proof -
  have "(0xFFFFFFFF :: u64) = mask 32" by (simp add: mask_eq_exp_minus_1)
  then have "unat (w AND 0xFFFFFFFF) = unat w mod 2 ^ 32" by (simp only: unat_and_mask_nat)
  then show ?thesis by (simp only: unsigned_ucast_eq) (simp add: take_bit_eq_mod)
qed

lemma unat_high32: "unat (drop_bit 32 (w :: u64)) = unat w div 2 ^ 32"
  by (simp add: unat_drop_bit_nat)

lemma split32: "unat (ucast ((w :: u64) AND 0xFFFFFFFF) :: u32) + 2 ^ 32 * unat (drop_bit 32 w) = unat w"
  by (simp only: unat_low32 unat_high32 mod_mult_div_eq)

lemma drop_limb: "big_val (drop i ls) = unat (limb_at ls i) + 2 ^ 32 * big_val (drop (Suc i) ls)"
  by (cases "i < length ls") (simp_all add: limb_at_def Cons_nth_drop_Suc [symmetric])

lemma add_loop_val:
  "unat carry \<le> 1 \<Longrightarrow> big_val (drop i a) + big_val (drop i b) + unat carry < 2 ^ (32 * k) \<Longrightarrow>
     big_val (add_loop a b k i carry) = big_val (drop i a) + big_val (drop i b) + unat carry"
proof (induction k arbitrary: i carry)
  case 0
  then show ?case by simp
next
  case (Suc k)
  let ?s = "ucast (limb_at a i) + ucast (limb_at b i) + carry :: u64"
  let ?x = "big_val (drop (Suc i) a)" and ?y = "big_val (drop (Suc i) b)"
  have s: "unat ?s = unat (limb_at a i) + unat (limb_at b i) + unat carry"
    using unat_u32_lt [of "limb_at a i"] unat_u32_lt [of "limb_at b i"] Suc.prems(1)
    by (simp add: unat_add_u64)
  have c: "unat (drop_bit 32 ?s) \<le> 1"
    using unat_u32_lt [of "limb_at a i"] unat_u32_lt [of "limb_at b i"] Suc.prems(1)
    by (simp only: unat_high32 s) (simp add: less_mult_imp_div_less less_Suc_eq_le [symmetric])
  note e = split32 [of ?s, unfolded s]
  have tot: "big_val (drop i a) + big_val (drop i b) + unat carry =
      unat (ucast (?s AND 0xFFFFFFFF) :: u32) + 2 ^ 32 * (?x + ?y + unat (drop_bit 32 ?s))"
    using e by (simp only: drop_limb [of i a] drop_limb [of i b] distrib_left)
  have "2 ^ 32 * (?x + ?y + unat (drop_bit 32 ?s)) < 2 ^ 32 * 2 ^ (32 * k)"
    using Suc.prems(2) tot by (simp add: power_add)
  then have "?x + ?y + unat (drop_bit 32 ?s) < 2 ^ (32 * k)" by simp
  from Suc.IH [OF c this] show ?case unfolding add_loop.simps Let_def big_val.simps using tot by (simp only: Suc_eq_plus1)
qed

lemma big_add_val [simp]: "big_val (big_add a b) = big_val a + big_val b"
proof -
  let ?n = "max (length a) (length b)"
  have "big_val a < 2 ^ (32 * ?n)" "big_val b < 2 ^ (32 * ?n)"
    using big_val_bound [of a] big_val_bound [of b]
      power_increasing [of "32 * length a" "32 * ?n" "2 :: nat"] power_increasing [of "32 * length b" "32 * ?n" "2 :: nat"]
    by (auto intro: less_le_trans)
  then have "big_val a + big_val b < 2 ^ (32 * (?n + 1))" by (simp add: power_add)
  then show ?thesis using add_loop_val [of 0 0 a b "?n + 1"] by (simp add: big_add_def)
qed

lemma big_ok_add [simp]: "big_ok (big_add a b)"
  by (simp add: big_add_def)

section \<open>Subtraction\<close>

lemma sub_loop_val:
  "borrow \<in> {0, 1} \<Longrightarrow> int (big_val (drop i b)) + borrow \<le> int (big_val a) \<Longrightarrow>
     int (big_val (sub_loop a b i borrow)) = int (big_val a) - int (big_val (drop i b)) - borrow"
proof (induction a arbitrary: i borrow)
  case Nil
  then show ?case by auto
next
  case (Cons ai as)
  let ?d = "int (unat ai) - int (unat (limb_at b i)) - borrow"
  have u: "int (unat w) < 2 ^ 32" for w :: u32
  proof -
    have "int (unat w) < int (2 ^ 32)" using unat_u32_lt [of w] by (simp only: of_nat_less_iff) simp
    then show ?thesis by simp
  qed
  note lt = u [of ai] u [of "limb_at b i"]
  have bb: "0 \<le> borrow" "borrow \<le> 1" using Cons.prems(1) by auto
  have e: "int (big_val (drop i b)) = int (unat (limb_at b i)) + 2 ^ 32 * int (big_val (drop (Suc i) b))"
    by (simp add: drop_limb [of i b])
  have w: "int (unat (word_of_int v :: u32)) = v" if "0 \<le> v" "v < 2 ^ 32" for v
    using that by (simp add: unsigned_of_int take_bit_int_eq_self)
  show ?case
  proof (cases "?d < 0")
    case True
    have r: "int (unat (word_of_int (?d + 2 ^ 32) :: u32)) = ?d + 2 ^ 32"
      using True lt bb by (intro w) linarith+
    have "int (big_val (drop (Suc i) b)) + 1 \<le> int (big_val as)"
      using Cons.prems(2) e True lt by simp
    from Cons.IH [OF _ this] have "int (big_val (sub_loop as b (Suc i) 1)) = int (big_val as) - int (big_val (drop (Suc i) b)) - 1"
      by simp
    then show ?thesis using True e r by simp
  next
    case False
    have r: "int (unat (word_of_int ?d :: u32)) = ?d" using False lt bb by (intro w) linarith+
    have "2 ^ 32 * int (big_val (drop (Suc i) b)) < 2 ^ 32 * (int (big_val as) + 1)"
      using Cons.prems(2) e False lt bb by (simp del: of_nat_unat)
    then have "int (big_val (drop (Suc i) b)) + 0 \<le> int (big_val as)" by simp
    from Cons.IH [OF _ this] have "int (big_val (sub_loop as b (Suc i) 0)) = int (big_val as) - int (big_val (drop (Suc i) b)) - 0"
      by simp
    then show ?thesis using False e r by simp
  qed
qed

lemma big_subtract_val: "big_val b \<le> big_val a \<Longrightarrow> big_val (big_subtract a b) = big_val a - big_val b"
  using sub_loop_val [of 0 0 b a] by (simp add: big_subtract_def)

lemma big_ok_subtract [simp]: "big_ok (big_subtract a b)"
  by (simp add: big_subtract_def)

section \<open>Comparison\<close>

lemma compare_limbs_val:
  "length as = length bs \<Longrightarrow>
     compare_limbs as bs = (if big_val (rev as) < big_val (rev bs) then - 1
       else if big_val (rev as) = big_val (rev bs) then 0 else 1)"
proof (induction as bs rule: list_induct2)
  case (Cons a as b bs)
  let ?p = "2 ^ (32 * length bs) :: nat"
  have bnd: "big_val (rev as) < ?p" "big_val (rev bs) < ?p"
    using big_val_bound [of "rev as"] big_val_bound [of "rev bs"] Cons.hyps by simp_all
  have less: "x + ?p * u < y + ?p * v" if "u < v" "x < ?p" for x y u v :: nat
  proof -
    have "x + ?p * u < ?p * Suc u" using that by simp
    also have "\<dots> \<le> ?p * v" using that by (intro mult_left_mono) auto
    finally show ?thesis by simp
  qed
  consider "unat a = unat b" | "unat a < unat b" | "unat b < unat a" by linarith
  then show ?case
  proof cases
    case 1
    then show ?thesis using Cons by (simp add: big_val_append word_unat_eq_iff)
  next
    case 2
    then show ?thesis using less [OF 2 bnd(1)] Cons.hyps
      by (auto simp: big_val_append word_less_nat_alt)
  next
    case 3
    then show ?thesis using less [OF 3 bnd(2), of "big_val (rev as)"] Cons.hyps
      by (auto simp: big_val_append word_less_nat_alt)
  qed
qed simp

lemma length_less_val:
  assumes "big_ok b" "length a < length b"
  shows "big_val a < big_val b"
proof -
  have "big_val a < 2 ^ (32 * length a)" by (rule big_val_bound)
  also have "\<dots> \<le> 2 ^ (32 * (length b - 1))" using assms(2) by (intro power_increasing) auto
  also have "\<dots> \<le> big_val b" using assms by (intro big_val_lower) auto
  finally show ?thesis .
qed

lemma compare_val:
  assumes "big_ok a" "big_ok b"
  shows "compare a b = (if big_val a < big_val b then - 1 else if big_val a = big_val b then 0 else 1)"
  using length_less_val [OF assms(1), of b] length_less_val [OF assms(2), of a] compare_limbs_val [of "rev a" "rev b"]
  by (cases "length a" "length b" rule: linorder_cases) (auto simp: compare_def)

section \<open>Shifting and bits\<close>

lemma unat_shift1: "unat (push_bit 1 (l :: u32) OR c) + 2 ^ 32 * unat (drop_bit 31 l) = 2 * unat l + unat c"
  if "unat c \<le> 1"
proof -
  have d: "unat (drop_bit 31 l) = unat l div 2 ^ 31" by (simp add: unat_drop_bit_nat)
  have "push_bit 1 l = push_bit 1 (take_bit 31 l)"
    by (simp only: push_bit_take_bit) (simp add: take_bit_word_eq_self)
  moreover have "unat (take_bit 31 l) = unat l mod 2 ^ 31"
    by (simp only: unsigned_take_bit_eq) (simp only: take_bit_eq_mod)
  ultimately have "unat (push_bit 1 l OR c) = unat l mod 2 ^ 31 * 2 + unat c"
    using that unat_push_or [of "take_bit 31 l" 1 c] by simp
  moreover have "2 * unat l = 2 ^ 32 * (unat l div 2 ^ 31) + unat l mod 2 ^ 31 * 2"
    using arg_cong [OF div_mult_mod_eq [of "unat l" "2 ^ 31"], of "\<lambda>v. 2 * v"]
    by (simp only: distrib_left) simp
  ultimately show ?thesis using d by (simp only: ac_simps)
qed

lemma shift_loop_val: "unat c \<le> 1 \<Longrightarrow> big_val (shift_loop ls c) = 2 * big_val ls + unat c"
proof (induction ls arbitrary: c)
  case (Cons l ls)
  have "unat (drop_bit 31 l) < 2" using unat_u32_lt [of l] by (simp add: unat_drop_bit_nat less_mult_imp_div_less)
  then have "big_val (shift_loop ls (drop_bit 31 l)) = 2 * big_val ls + unat (drop_bit 31 l)"
    using Cons.IH by simp
  then show ?case using unat_shift1 [OF Cons.prems, of l] by simp
qed simp

lemma shift_left_val [simp]: "big_val (shift_left_one_bit a) = 2 * big_val a"
  using shift_loop_val [of 0 a] by (simp add: shift_left_one_bit_def is_zero_def)

lemma big_ok_shift [simp]: "big_ok (shift_left_one_bit a)"
  by (simp add: shift_left_one_bit_def) (simp add: big_ok_def)

lemma top_bits_bound: "unat w < 2 ^ top_bits w"
proof (induction w rule: top_bits.induct)
  case (1 w)
  show ?case
  proof (cases "w = 0")
    case False
    then have "unat w div 2 < 2 ^ top_bits (drop_bit 1 w)" using 1 by (simp add: unat_drop_bit_nat)
    then have "unat w < 2 * 2 ^ top_bits (drop_bit 1 w)" by linarith
    then show ?thesis using False by (simp add: top_bits.simps [of w])
  qed simp
qed

lemma bit_length_bound: "big_val a < 2 ^ bit_length a"
proof (cases a rule: rev_cases)
  case (snoc ls l)
  have "big_val ls + 2 ^ (32 * length ls) * unat l < 2 ^ (32 * length ls) * Suc (unat l)"
    using big_val_bound [of ls] by simp
  also have "\<dots> \<le> 2 ^ (32 * length ls) * 2 ^ top_bits l"
    using top_bits_bound [of l] by (intro mult_left_mono) auto
  finally show ?thesis using snoc by (simp add: big_val_append bit_length_def power_add mult.commute)
qed (simp add: bit_length_def)

lemma big_val_div: "big_val ls div 2 ^ (32 * i) = big_val (drop i ls)"
proof (induction i arbitrary: ls)
  case (Suc i)
  show ?case
  proof (cases ls)
    case (Cons l rest)
    have "(unat l + 2 ^ 32 * big_val rest) div 2 ^ 32 = big_val rest" using unat_u32_lt [of l] by simp
    then show ?thesis using Suc [of rest] Cons by (simp add: power_add div_mult2_eq)
  qed simp
qed simp

lemma get_bit_val: "get_bit a i = odd (big_val a div 2 ^ i)"
proof -
  let ?k = "i div 32" and ?j = "i mod 32"
  have p: "(2 :: nat) ^ i = 2 ^ (32 * ?k) * 2 ^ ?j" by (simp flip: power_add)
  have v: "big_val a div 2 ^ i = big_val (drop ?k a) div 2 ^ ?j"
    by (simp only: p div_mult2_eq big_val_div)
  show ?thesis
  proof (cases "?k < length a")
    case True
    have "(unat (a ! ?k) + 2 ^ 32 * x) div 2 ^ ?j = unat (a ! ?k) div 2 ^ ?j + 2 ^ (32 - ?j) * x" for x
    proof -
      have "(2 :: nat) ^ 32 = 2 ^ ?j * 2 ^ (32 - ?j)" by (simp flip: power_add)
      then show ?thesis by (simp only: mult.assoc div_mult_self2 [OF power_not_zero])
    qed
    then have "odd (big_val a div 2 ^ i) = odd (unat (a ! ?k) div 2 ^ ?j)"
      using True by (simp add: v drop_limb [of ?k a] limb_at_def even_add)
    also have "\<dots> = (drop_bit ?j (a ! ?k) AND 1 \<noteq> 0)"
    proof -
      have "drop_bit ?j (a ! ?k) AND 1 \<noteq> 0 \<longleftrightarrow> bit (a ! ?k) ?j" by (simp add: and_one_eq bit_iff_odd_drop_bit odd_iff_mod_2_eq_one)
      also have "\<dots> \<longleftrightarrow> bit (unat (a ! ?k)) ?j" by (simp add: bit_unsigned_iff)
      finally show ?thesis by (simp add: bit_iff_odd)
    qed
    finally show ?thesis using True by (simp add: get_bit_def)
  qed (simp add: get_bit_def v)
qed

section \<open>Multiplication\<close>

lemma unat_mac:
  fixes x y r :: u32 and c :: u64
  assumes "unat c < 2 ^ 32"
  shows "unat (ucast x * ucast y + ucast r + c :: u64) = unat x * unat y + unat r + unat c"
    "unat (drop_bit 32 (ucast x * ucast y + ucast r + c :: u64)) < 2 ^ 32"
proof -
  have le: "unat x \<le> 2 ^ 32 - 1" "unat y \<le> 2 ^ 32 - 1" "unat r \<le> 2 ^ 32 - 1" "unat c \<le> 2 ^ 32 - 1"
    using unat_u32_lt [of x] unat_u32_lt [of y] unat_u32_lt [of r] assms by simp_all
  have m: "unat x * unat y \<le> (2 ^ 32 - 1) * (2 ^ 32 - 1)" using le by (intro mult_le_mono)
  then have tot: "unat x * unat y + unat r + unat c < 2 ^ 64" using le by simp
  then show e: "unat (ucast x * ucast y + ucast r + c :: u64) = unat x * unat y + unat r + unat c"
    using m by (simp add: unat_mult_u64 unat_add_u64)
  show "unat (drop_bit 32 (ucast x * ucast y + ucast r + c :: u64)) < 2 ^ 32"
    using tot by (simp only: unat_high32 e) (simp add: less_mult_imp_div_less)
qed

lemma mul_row_length [simp]: "length (fst (mul_row ai bs res p c)) = length res"
  by (induction bs arbitrary: res p c) (simp_all add: Let_def)

lemma mul_row_val:
  "unat c < 2 ^ 32 \<Longrightarrow> p + length bs \<le> length res \<Longrightarrow> mul_row ai bs res p c = (res', c') \<Longrightarrow>
     unat c' < 2 ^ 32 \<and> big_val res' + unat c' * 2 ^ (32 * (p + length bs)) =
       big_val res + (unat ai * big_val bs + unat c) * 2 ^ (32 * p)"
proof (induction bs arbitrary: res p c)
  case (Cons bj bs)
  let ?m = "ucast ai * ucast bj + ucast (res ! p) + c :: u64"
  let ?lo = "ucast (?m AND 0xFFFFFFFF) :: u32" and ?hi = "drop_bit 32 ?m"
  note mac = unat_mac [OF Cons.prems(1), of ai bj "res ! p"]
  have row: "mul_row ai bs (res[p := ?lo]) (p + 1) ?hi = (res', c')" using Cons.prems(3) by (simp add: Let_def)
  have ih: "unat c' < 2 ^ 32 \<and> big_val res' + unat c' * 2 ^ (32 * (p + 1 + length bs)) =
      big_val (res[p := ?lo]) + (unat ai * big_val bs + unat ?hi) * 2 ^ (32 * (p + 1))"
    using Cons.prems(2) by (intro Cons.IH [OF mac(2) _ row]) simp
  have up: "big_val (res[p := ?lo]) + 2 ^ (32 * p) * unat (res ! p) = big_val res + 2 ^ (32 * p) * unat ?lo"
    using Cons.prems(2) by (intro big_val_update) simp
  have sp: "unat ?lo + 2 ^ 32 * unat ?hi = unat ai * unat bj + unat (res ! p) + unat c"
    using split32 [of ?m] by (simp only: mac(1))
  define P :: nat where "P = 2 ^ (32 * p)"
  have P1: "2 ^ (32 * (p + 1)) = 2 ^ 32 * P" by (simp add: P_def power_add)
  have "P * (unat ?lo + 2 ^ 32 * unat ?hi) = P * (unat ai * unat bj + unat (res ! p) + unat c)" by (simp only: sp)
  then have "big_val (res[p := ?lo]) + (unat ai * big_val bs + unat ?hi) * (2 ^ 32 * P) =
      big_val res + (unat ai * (unat bj + 2 ^ 32 * big_val bs) + unat c) * P"
    using up unfolding P_def [symmetric] by (simp add: algebra_simps)
  then show ?case using ih unfolding P1 by (simp add: P_def)
qed simp

lemma carry_loop_val:
  "big_val res + unat c * 2 ^ (32 * k) < 2 ^ (32 * length res) \<Longrightarrow> unat c < 2 ^ 32 \<Longrightarrow>
     \<exists>res'. carry_loop res k c = Some res' \<and> length res' = length res \<and> big_val res' = big_val res + unat c * 2 ^ (32 * k)"
proof (induction res k c rule: carry_loop.induct)
  case (1 res k c)
  show ?case
  proof (cases "c = 0")
    case True
    then have "carry_loop res k c = Some res" by (subst carry_loop.simps) simp
    then show ?thesis using True by simp
  next
    case False
    then have c: "1 \<le> unat c" by (simp add: Suc_le_eq unat_gt_0)
    have k: "k < length res"
    proof (rule ccontr)
      assume "\<not> k < length res"
      then have "(2 :: nat) ^ (32 * length res) \<le> 2 ^ (32 * k)" by (intro power_increasing) auto
      also have "\<dots> \<le> unat c * 2 ^ (32 * k)" using c by simp
      finally show False using 1(2) by simp
    qed
    let ?m = "ucast (res ! k) + c :: u64"
    let ?lo = "ucast (?m AND 0xFFFFFFFF) :: u32" and ?hi = "drop_bit 32 ?m"
    have m: "unat ?m = unat (res ! k) + unat c"
      using 1(3) unat_u32_lt [of "res ! k"] by (simp add: unat_add_u64)
    have sp: "unat ?lo + 2 ^ 32 * unat ?hi = unat (res ! k) + unat c" using split32 [of ?m] by (simp only: m)
    have up: "big_val (res[k := ?lo]) + 2 ^ (32 * k) * unat (res ! k) = big_val res + 2 ^ (32 * k) * unat ?lo"
      using k by (rule big_val_update)
    define P :: nat where "P = 2 ^ (32 * k)"
    have P1: "2 ^ (32 * (k + 1)) = 2 ^ 32 * P" by (simp add: P_def power_add)
    have "P * (unat ?lo + 2 ^ 32 * unat ?hi) = P * (unat (res ! k) + unat c)" by (simp only: sp)
    then have v: "big_val (res[k := ?lo]) + unat ?hi * (2 ^ 32 * P) = big_val res + unat c * P"
      using up unfolding P_def [symmetric] by (simp add: algebra_simps)
    have hi: "unat ?hi < 2 ^ 32"
      using 1(3) unat_u32_lt [of "res ! k"] by (simp only: unat_high32 m) (simp add: less_mult_imp_div_less)
    have "\<exists>res'. carry_loop (res[k := ?lo]) (k + 1) ?hi = Some res' \<and> length res' = length (res[k := ?lo]) \<and>
        big_val res' = big_val (res[k := ?lo]) + unat ?hi * 2 ^ (32 * (k + 1))"
      using False k v 1(2) hi unfolding P1 by (intro 1(1) [unfolded P1]) (auto simp: P_def)
    then show ?thesis using False k v unfolding P1
      by (simp add: carry_loop.simps [of res k c] Let_def P_def)
  qed
qed

lemma mul_rows_val:
  "big_val res + big_val as * big_val b * 2 ^ (32 * i) < 2 ^ (32 * length res) \<Longrightarrow> i + length as + length b = length res \<Longrightarrow>
     \<exists>res'. mul_rows as b i res = Some res' \<and> big_val res' = big_val res + big_val as * big_val b * 2 ^ (32 * i)"
proof (induction as arbitrary: i res)
  case (Cons ai as)
  obtain res1 c where r: "mul_row ai b res i 0 = (res1, c)" by fastforce
  have len: "length res1 = length res" using mul_row_length [of ai b res i 0] r by simp
  have row: "unat c < 2 ^ 32 \<and> big_val res1 + unat c * 2 ^ (32 * (i + length b)) =
      big_val res + unat ai * big_val b * 2 ^ (32 * i)"
    using mul_row_val [OF _ _ r] Cons.prems(2) by simp
  have split: "big_val (ai # as) * big_val b * 2 ^ (32 * i) =
      unat ai * big_val b * 2 ^ (32 * i) + big_val as * big_val b * 2 ^ (32 * (i + 1))"
    by (simp add: algebra_simps power_add)
  have "\<exists>res2. carry_loop res1 (i + length b) c = Some res2 \<and> length res2 = length res1 \<and>
      big_val res2 = big_val res1 + unat c * 2 ^ (32 * (i + length b))"
    using row Cons.prems(1) split len by (intro carry_loop_val) auto
  then obtain res2 where res2: "carry_loop res1 (i + length b) c = Some res2" "length res2 = length res"
    "big_val res2 = big_val res + unat ai * big_val b * 2 ^ (32 * i)"
    using row len by auto
  have "\<exists>res'. mul_rows as b (i + 1) res2 = Some res' \<and>
      big_val res' = big_val res2 + big_val as * big_val b * 2 ^ (32 * (i + 1))"
    using Cons.prems split res2 by (intro Cons.IH) auto
  then show ?case using r res2 split by auto
qed simp

lemma multiply_val: "\<exists>r. multiply a b = Some r \<and> big_ok r \<and> big_val r = big_val a * big_val b"
proof (cases "is_zero a \<or> is_zero b")
  case True
  then show ?thesis by (auto simp: multiply_def is_zero_def big_ok_def)
next
  case False
  have "big_val a * big_val b < 2 ^ (32 * length a) * 2 ^ (32 * length b)"
    using big_val_bound [of a] big_val_bound [of b] by (intro mult_strict_mono') auto
  then have "\<exists>r. mul_rows a b 0 (replicate (length a + length b) 0) = Some r \<and>
      big_val r = big_val (replicate (length a + length b) 0) + big_val a * big_val b * 2 ^ (32 * 0)"
    by (intro mul_rows_val) (simp_all add: power_add distrib_left)
  with False show ?thesis by (auto simp: multiply_def)
qed

section \<open>Reduction and exponentiation\<close>

lemma big_val_from_small [simp]: "big_val (from_small w) = unat w"
  by (simp add: from_small_def)

lemma big_ok_from_small [simp]: "big_ok (from_small w)"
  by (simp add: from_small_def big_ok_def)

lemma mod_step: "(2 * (x mod m) + d) mod m = (2 * x + d) mod (m :: nat)"
  by (metis mod_add_left_eq mod_mult_right_eq)

lemma mod_loop_val:
  assumes "big_ok m" "0 < big_val m"
  shows "big_ok r \<Longrightarrow> big_val r = big_val a div 2 ^ n mod big_val m \<Longrightarrow>
    big_ok (mod_loop a m n r) \<and> big_val (mod_loop a m n r) = big_val a mod big_val m"
proof (induction n arbitrary: r)
  case (Suc n)
  let ?r1 = "shift_left_one_bit r"
  let ?r2 = "if get_bit a n then big_add ?r1 (from_small 1) else ?r1"
  let ?r3 = "if 0 \<le> compare ?r2 m then big_subtract ?r2 m else ?r2"
  have ok2: "big_ok ?r2" by simp
  have d: "big_val a div 2 ^ n = 2 * (big_val a div 2 ^ Suc n) + of_bool (get_bit a n)"
    by (simp add: get_bit_val div_mult2_eq [of _ "2 ^ n" 2, simplified mult.commute])
  have v2: "big_val ?r2 = 2 * big_val r + of_bool (get_bit a n)" by simp
  have lt: "big_val r < big_val m" using Suc.prems(2) assms(2) by simp
  have "big_val ?r3 = big_val ?r2 mod big_val m \<and> big_ok ?r3"
  proof (cases "big_val m \<le> big_val ?r2")
    case True
    then have "0 \<le> compare ?r2 m" using compare_val [OF ok2 assms(1)] by simp
    moreover have "big_val ?r2 - big_val m < big_val m" using v2 lt True by (auto split: if_splits)
    ultimately show ?thesis using True big_subtract_val [OF True] by (simp add: le_mod_geq)
  next
    case False
    then show ?thesis using compare_val [OF ok2 assms(1)] ok2 by simp
  qed
  moreover have "big_val ?r2 mod big_val m = big_val a div 2 ^ n mod big_val m"
    unfolding v2 Suc.prems(2) d by (rule mod_step)
  ultimately show ?case using Suc.IH [of ?r3] by (simp only: mod_loop.simps Let_def)
qed simp

lemma big_mod_val:
  assumes "big_ok a" "big_ok m" "0 < big_val m"
  shows "big_ok (big_mod a m) \<and> big_val (big_mod a m) = big_val a mod big_val m"
proof (cases "big_val a < big_val m")
  case True
  then show ?thesis using assms compare_val [OF assms(1,2)] by (simp add: big_mod_def is_zero_def big_val_0_iff) auto
next
  case False
  have "m \<noteq> []" using assms(3) by auto
  then show ?thesis
    using False compare_val [OF assms(1,2)] mod_loop_val [OF assms(2,3), of "[]" a "bit_length a"] bit_length_bound [of a]
    by (simp add: big_mod_def is_zero_def big_ok_def)
qed

lemma pow_loop_val:
  assumes "big_ok m" "0 < big_val m"
  shows "big_ok result \<Longrightarrow> big_ok base \<Longrightarrow> big_val e div 2 ^ i < 2 ^ n \<Longrightarrow>
    \<exists>r. pow_loop e m n i result base = Some r \<and> big_ok r \<and>
      big_val r = (if big_val e div 2 ^ i = 0 then big_val result
        else big_val result * big_val base ^ (big_val e div 2 ^ i) mod big_val m)"
proof (induction n arbitrary: i result base)
  case 0
  then show ?case by simp
next
  case (Suc n)
  let ?M = "big_val m" and ?E = "big_val e div 2 ^ i" and ?E' = "big_val e div 2 ^ (i + 1)"
  have d: "?E = 2 * ?E' + of_bool (get_bit e i)"
    by (simp add: get_bit_val div_mult2_eq [of _ "2 ^ i" 2, simplified mult.commute])
  obtain p where p: "multiply result base = Some p" "big_ok p" "big_val p = big_val result * big_val base"
    using multiply_val by blast
  obtain q where q: "multiply base base = Some q" "big_ok q" "big_val q = big_val base * big_val base"
    using multiply_val by blast
  define result' where "result' = (if get_bit e i then big_mod p m else result)"
  have r': "big_ok result'" "big_val result' = (if get_bit e i then big_val result * big_val base mod ?M else big_val result)"
    using big_mod_val [OF p(2) assms] p(3) Suc.prems(1) by (simp_all add: result'_def)
  have b': "big_ok (big_mod q m)" "big_val (big_mod q m) = big_val base * big_val base mod ?M"
    using big_mod_val [OF q(2) assms] q(3) by simp_all
  have step: "pow_loop e m (Suc n) i result base = pow_loop e m n (i + 1) result' (big_mod q m)"
    using p q by (simp add: result'_def)
  have "?E' < 2 ^ n" using Suc.prems(3) d by simp
  from Suc.IH [OF r'(1) b'(1) this] obtain r where r: "pow_loop e m n (i + 1) result' (big_mod q m) = Some r"
    "big_ok r" "big_val r = (if ?E' = 0 then big_val result' else big_val result' * big_val (big_mod q m) ^ ?E' mod ?M)"
    by blast
  have sq: "(big_val base * big_val base mod ?M) ^ ?E' mod ?M = big_val base ^ (2 * ?E') mod ?M"
    by (simp add: power_mod power_mult power2_eq_square)
  have "big_val r = (if ?E = 0 then big_val result else big_val result * big_val base ^ ?E mod ?M)"
  proof (cases "?E' = 0")
    case True
    then show ?thesis using r(3) r'(2) d by simp
  next
    case False
    then have "big_val r = big_val result' * big_val base ^ (2 * ?E') mod ?M"
      using r(3) b'(2) sq by (metis mod_mult_right_eq)
    also have "\<dots> = big_val result * big_val base ^ ?E mod ?M"
    proof (cases "get_bit e i")
      case True
      then show ?thesis using r'(2) d by (simp add: mod_mult_left_eq mult.assoc)
    next
      case False
      then show ?thesis using r'(2) d by simp
    qed
    finally show ?thesis using False d by simp
  qed
  then show ?case using step r by simp
qed

lemma mod_pow_val:
  assumes "big_ok b" "big_ok m" "0 < big_val m"
  shows "\<exists>r. mod_pow b e m = Some r \<and> big_ok r \<and>
    big_val r = (if big_val e = 0 then 1 else big_val b ^ big_val e mod big_val m)"
proof -
  have b: "big_ok (big_mod b m)" "big_val (big_mod b m) = big_val b mod big_val m" using big_mod_val [OF assms] by auto
  have "m \<noteq> []" using assms(3) by auto
  moreover obtain r where "pow_loop e m (bit_length e) 0 (from_small 1) (big_mod b m) = Some r" "big_ok r"
      "big_val r = (if big_val e = 0 then 1 else (big_val b mod big_val m) ^ big_val e mod big_val m)"
    using bit_length_bound [of e] pow_loop_val [OF assms(2,3), of "from_small 1" "big_mod b m" e 0 "bit_length e"]
    by (auto simp: b)
  ultimately show ?thesis by (auto simp: mod_pow_def is_zero_def power_mod)
qed

section \<open>Bytes\<close>

lemma or_byte_step:
  assumes "i < n" "n = length data" "length ls = (n + 3) div 4" "big_val ls < 256 ^ i"
  shows "length (or_byte data n ls i) = length ls"
    "big_val (or_byte data n ls i) = big_val ls + unat (data ! (n - 1 - i)) * 256 ^ i"
proof -
  let ?k = "i div 4" and ?j = "i mod 4 * 8"
  let ?b = "ucast (data ! (n - 1 - i)) :: u32"
  have k: "?k < length ls" using assms(1,3) by (simp add: less_mult_imp_div_less div_less_iff_less_mult)
  have i: "(256 :: nat) ^ i = 2 ^ (32 * ?k) * 2 ^ ?j"
    by (simp flip: power_add power_mult [of "2 :: nat" 8, simplified]) presburger
  have "unat (ls ! ?k) \<le> big_val ls div 2 ^ (32 * ?k)"
    using k by (simp add: big_val_div drop_limb [of ?k ls] limb_at_def)
  also have "\<dots> < 2 ^ ?j" using assms(4) by (simp add: i less_mult_imp_div_less mult.commute)
  finally have l: "unat (ls ! ?k) < 2 ^ ?j" .
  have b: "unat ?b = unat (data ! (n - 1 - i))"
    using less_trans [OF unat_lt_u8 [of "data ! (n - 1 - i)"], of "2 ^ 32"] by (simp add: unsigned_ucast_eq take_bit_nat_eq_self)
  have "i mod 4 \<le> 3" by simp
  then have j: "?j \<le> 24" by linarith
  have "(2 :: nat) ^ 8 \<le> 2 ^ (32 - ?j)" using j by (intro power_increasing) auto
  moreover have "unat ?b < 2 ^ 8" unfolding b using unat_lt_u8 [of "data ! (n - 1 - i)"] by simp
  ultimately have "unat ?b < 2 ^ (32 - ?j)" by (rule less_le_trans [rotated])
  then have "unat (push_bit ?j ?b OR ls ! ?k) = unat ?b * 2 ^ ?j + unat (ls ! ?k)"
    using l j unat_push_or [of ?b ?j "ls ! ?k"] by simp
  then have "unat (ls ! ?k OR push_bit ?j ?b) = unat ?b * 2 ^ ?j + unat (ls ! ?k)" by (simp only: or.commute)
  then have "big_val (or_byte data n ls i) + 2 ^ (32 * ?k) * unat (ls ! ?k) =
      big_val ls + 2 ^ (32 * ?k) * (unat ?b * 2 ^ ?j + unat (ls ! ?k))"
    unfolding or_byte_def using big_val_update [OF k] by simp
  then show "big_val (or_byte data n ls i) = big_val ls + unat (data ! (n - 1 - i)) * 256 ^ i"
    unfolding b i by (simp add: algebra_simps)
  show "length (or_byte data n ls i) = length ls" by (simp add: or_byte_def)
qed

lemma or_bytes_val:
  "i \<le> n \<Longrightarrow> n = length data \<Longrightarrow>
     length (foldl (or_byte data n) (replicate ((n + 3) div 4) 0) [0..<i]) = (n + 3) div 4 \<and>
     big_val (foldl (or_byte data n) (replicate ((n + 3) div 4) 0) [0..<i]) = be_val (drop (n - i) data)"
proof (induction i)
  case (Suc i)
  let ?ls = "foldl (or_byte data n) (replicate ((n + 3) div 4) 0) [0..<i]"
  have ih: "length ?ls = (n + 3) div 4" "big_val ?ls = be_val (drop (n - i) data)" using Suc by auto
  have "be_val (drop (n - i) data) < 256 ^ i" using be_val_bound [of "drop (n - i) data"] Suc.prems by simp
  then have "big_val ?ls < 256 ^ i" using ih by simp
  note s = or_byte_step [OF _ Suc.prems(2) ih(1) this]
  have "drop (n - Suc i) data = data ! (n - 1 - i) # drop (n - i) data"
    using Suc.prems by (simp add: Cons_nth_drop_Suc [symmetric] Suc_diff_Suc)
  then show ?case using s Suc.prems ih by simp
qed simp

lemma be_val_dropWhile: "be_val (dropWhile (\<lambda>b. b = 0) bs) = be_val bs"
  by (induction bs) simp_all

lemma from_bytes_be_val [simp]: "big_val (from_bytes_be data) = be_val data"
  using or_bytes_val [of "length (dropWhile (\<lambda>b. b = 0) data)" _ "dropWhile (\<lambda>b. b = 0) data"]
    be_val_dropWhile [of data]
  by (auto simp: from_bytes_be_def Let_def)

lemma big_ok_from_bytes [simp]: "big_ok (from_bytes_be data)"
  by (simp add: from_bytes_be_def Let_def) (simp add: big_ok_def)

lemma unat_byte_of: "unat (ucast (drop_bit k (l :: u32) AND 0xFF) :: u8) = unat l div 2 ^ k mod 256"
proof -
  have "(0xFF :: u32) = mask 8" by (simp add: mask_eq_exp_minus_1)
  then have "unat (drop_bit k l AND 0xFF) = unat l div 2 ^ k mod 256"
    by (simp only: unat_and_mask_nat) (simp add: unat_drop_bit_nat)
  then show ?thesis by (simp only: unsigned_ucast_eq) (simp add: take_bit_eq_mod)
qed

lemma limb_bytes_val: "be_val (rev (limb_bytes l)) = unat l"
proof -
  define n where "n = unat l"
  have n: "n < 2 ^ 32" using unat_u32_lt [of l] by (simp add: n_def)
  have "n mod 256 + 256 * (n div 2 ^ 8 mod 256 + 256 * (n div 2 ^ 16 mod 256 + 256 * (n div 2 ^ 24 mod 256))) = n"
  proof -
    have "n div 2 ^ 16 = n div 2 ^ 8 div 256" "n div 2 ^ 24 = n div 2 ^ 16 div 256" by (simp_all flip: div_mult2_eq)
    moreover have "n div 2 ^ 24 mod 256 = n div 2 ^ 24" using n by (simp add: less_mult_imp_div_less)
    moreover have "x mod 256 + 256 * (x div 256) = x" for x :: nat by simp
    ultimately show ?thesis by simp
  qed
  then show ?thesis
    using unat_byte_of [of 0 l] unat_byte_of [of 8 l] unat_byte_of [of 16 l] unat_byte_of [of 24 l]
    by (simp add: limb_bytes_def n_def del: div_mod_decomp)
qed

lemma limbs_bytes_val: "be_val (rev (concat (map limb_bytes ls))) = big_val ls"
  by (induction ls) (simp_all add: be_val_append limb_bytes_val, simp add: limb_bytes_def)

lemma skip_zeros_val [simp]: "be_val (skip_zeros bs) = be_val bs"
  by (induction bs rule: skip_zeros.induct) simp_all

lemma skip_zeros_head: "2 \<le> length (skip_zeros bs) \<Longrightarrow> 256 ^ (length (skip_zeros bs) - 1) \<le> be_val bs"
proof (induction bs rule: skip_zeros.induct)
  case (1 b c bs)
  show ?case
  proof (cases "b = 0")
    case False
    then have "1 \<le> unat b" by (simp add: Suc_le_eq unat_gt_0)
    then have "1 * 256 ^ Suc (length bs) \<le> unat b * 256 ^ Suc (length bs)" by (rule mult_right_mono) simp
    then have "256 ^ Suc (length bs) \<le> be_val (b # c # bs)" by (simp only: be_val.simps length_Cons mult_1 trans_le_add1)
    then show ?thesis using False by simp
  qed (use 1 in simp)
qed simp_all

lemma to_bytes_be_val [simp]: "be_val (to_bytes_be ls k) = big_val ls"
proof -
  let ?t = "skip_zeros (rev (concat (map limb_bytes ls)))"
  have v: "be_val ?t = big_val ls" by (simp add: limbs_bytes_val)
  have "be_val [] = big_val ls" if "length ?t = 1" "?t ! 0 = 0" using v that by (cases ?t) auto
  then show ?thesis using v by (auto simp: to_bytes_be_def Let_def)
qed

lemma length_to_bytes_be:
  assumes "0 < k" "big_val ls < 256 ^ k"
  shows "length (to_bytes_be ls k) = k"
proof -
  let ?t = "skip_zeros (rev (concat (map limb_bytes ls)))"
  have "length ?t \<le> k"
  proof (cases "2 \<le> length ?t")
    case True
    have "(256 :: nat) ^ (length ?t - 1) < 256 ^ k"
      using le_less_trans [OF skip_zeros_head [OF True]] assms(2) by (simp only: limbs_bytes_val)
    then have "length ?t - 1 < k" by (rule power_less_imp_less_exp [rotated]) simp
    then show ?thesis by simp
  qed (use assms(1) in simp)
  then show ?thesis using assms(1) by (auto simp: to_bytes_be_def Let_def)
qed

section \<open>Properties\<close>

text \<open>
  The limb arithmetic is exact: addition, multiplication, left shift and the conversion to and from
  big-endian bytes compute the corresponding operations on natural numbers for operands of any size
  (no carry is lost, and multiplication never writes past its result), and every result is normalized.
\<close>

theorem bignum_exact:
  "big_val (big_add a b) = big_val a + big_val b \<and> big_ok (big_add a b) \<and>
   (\<exists>r. multiply a b = Some r \<and> big_ok r \<and> big_val r = big_val a * big_val b) \<and>
   big_val (shift_left_one_bit a) = 2 * big_val a \<and>
   big_val (from_bytes_be data) = be_val data \<and> big_ok (from_bytes_be data) \<and>
   be_val (to_bytes_be a k) = big_val a"
  using multiply_val [of a b] by simp

text \<open>
  On normalized operands comparison decides the order of the values, subtraction of a smaller
  number is exact, and reduction computes the remainder.
\<close>

theorem bignum_reduction:
  assumes "big_ok a" "big_ok b" "0 < big_val b"
  shows "compare a b = (if big_val a < big_val b then - 1 else if big_val a = big_val b then 0 else 1) \<and>
    (big_val b \<le> big_val a \<longrightarrow> big_val (big_subtract a b) = big_val a - big_val b) \<and>
    big_val (big_mod a b) = big_val a mod big_val b \<and> big_ok (big_mod a b)"
  using compare_val [OF assms(1,2)] big_subtract_val [of b a] big_mod_val [OF assms] by blast

theorem bignum_reduction_witness:
  "big_val (big_mod [5, 7] [3]) = big_val [5, 7] mod 3"
  using bignum_reduction [of "[5, 7]" "[3]"] by (simp add: big_ok_def)

text \<open>
  C37. Modular exponentiation always returns and is correct: for a positive modulus and a positive
  exponent the result is the power reduced modulo the modulus, normalized.
\<close>

theorem mod_pow_correct:
  assumes "big_ok b" "big_ok m" "0 < big_val m" "0 < big_val e"
  shows "\<exists>r. mod_pow b e m = Some r \<and> big_ok r \<and> big_val r = big_val b ^ big_val e mod big_val m"
  using mod_pow_val [OF assms(1-3), of e] assms(4) by auto

theorem mod_pow_correct_witness:
  "\<exists>r. mod_pow [7] [5] [11] = Some r \<and> big_ok r \<and> big_val r = 7 ^ 5 mod 11"
proof -
  have "big_ok [7]" "big_ok [11]" "0 < big_val [11]" "0 < big_val [5]" by (simp_all add: big_ok_def)
  from mod_pow_correct [OF this] show ?thesis by (simp only: big_val.simps) simp
qed

text \<open>
  The zero exponent is the exception: the result is then 1 whatever the modulus, also for the modulus
  1, where the reduced power is 0.
\<close>

theorem mod_pow_zero_exponent:
  "mod_pow [7] [] [1] = Some [1] \<and> big_val [7] ^ big_val [] mod big_val [1] = 0"
  by (simp add: mod_pow_def is_zero_def bit_length_def from_small_def)

end
