(* ===== verification/Rsa_Pkcs1.thy ===== *)
theory Rsa_Pkcs1
  imports Bignum
begin

text \<open>
  \<^verbatim>\<open>security/rsa_pkcs1.{hpp,cpp}\<close>: RSA PKCS\#1 v1.5 signature verification on the big integers of
  \<open>Bignum\<close>. The main lemma states verification over numbers: a signature is accepted exactly when its
  power is the number of the one admissible encoded message.
\<close>

record RsaPublicKey =
  rsa_modulus :: bytes
  rsa_exponent :: bytes

definition kSha256DigestInfoPrefix :: bytes where
  "kSha256DigestInfoPrefix = concat
    [[0x30, 0x31, 0x30, 0x0d, 0x06, 0x09, 0x60, 0x86, 0x48, 0x01],
     [0x65, 0x03, 0x04, 0x02, 0x01, 0x05, 0x00, 0x04, 0x20]]"

definition kSha384DigestInfoPrefix :: bytes where
  "kSha384DigestInfoPrefix = concat
    [[0x30, 0x41, 0x30, 0x0d, 0x06, 0x09, 0x60, 0x86, 0x48, 0x01],
     [0x65, 0x03, 0x04, 0x02, 0x02, 0x05, 0x00, 0x04, 0x30]]"

text \<open>The checks on the encoded message, from the padding to the digest.\<close>

definition check_em :: "bytes \<Rightarrow> bytes \<Rightarrow> bytes \<Rightarrow> nat \<Rightarrow> bool" where
  "check_em em prefix digest modulus_size =
     (if length em \<noteq> modulus_size then False
      else if length em < 11 \<or> em ! 0 \<noteq> 0x00 \<or> em ! 1 \<noteq> 0x01 then False
      else
        let padding_len = length (takeWhile (\<lambda>b. b = 0xFF) (drop 2 em)); i = 2 + padding_len in
        if padding_len < 8 then False
        else if length em \<le> i \<or> em ! i \<noteq> 0x00 then False
        else if length em - (i + 1) \<noteq> length prefix + length digest then False
        else if sub_bytes em (i + 1) (length prefix) \<noteq> prefix then False
        else sub_bytes em (i + 1 + length prefix) (length digest) = digest)"

definition verify_pkcs1v15 :: "bytes \<Rightarrow> RsaPublicKey \<Rightarrow> bytes \<Rightarrow> bytes \<Rightarrow> bool" where
  "verify_pkcs1v15 signature key digest digest_info_prefix =
     (if signature = [] \<or> rsa_modulus key = [] \<or> rsa_exponent key = [] then False
      else
        let n = from_bytes_be (rsa_modulus key); e = from_bytes_be (rsa_exponent key); sig = from_bytes_be signature in
        if is_zero n \<or> is_zero e \<or> is_zero sig then False
        else if 0 \<le> compare sig n then False
        else case mod_pow sig e n of
          None \<Rightarrow> False
        | Some decoded \<Rightarrow> check_em (to_bytes_be decoded (length (rsa_modulus key))) digest_info_prefix digest
            (length (rsa_modulus key)))"

definition verify_pkcs1v15_sha256 :: "bytes \<Rightarrow> RsaPublicKey \<Rightarrow> bytes \<Rightarrow> bool" where
  "verify_pkcs1v15_sha256 signature key digest = verify_pkcs1v15 signature key digest kSha256DigestInfoPrefix"

definition verify_pkcs1v15_sha384 :: "bytes \<Rightarrow> RsaPublicKey \<Rightarrow> bytes \<Rightarrow> bool" where
  "verify_pkcs1v15_sha384 signature key digest = verify_pkcs1v15 signature key digest kSha384DigestInfoPrefix"

section \<open>The encoded message\<close>

text \<open>EMSA-PKCS1-v1\_5 (RFC 8017, section 9.2): \<open>None\<close> when the modulus is too short.\<close>

definition emsa_pkcs1v15 :: "bytes \<Rightarrow> nat \<Rightarrow> bytes option" where
  "emsa_pkcs1v15 digest_info k = (if k < length digest_info + 11 then None
     else Some ([0x00, 0x01] @ replicate (k - length digest_info - 3) 0xFF @ [0x00] @ digest_info))"

lemma split_two: "length xs = a + b \<Longrightarrow> xs = take a xs @ take b (drop a xs)"
  by simp

lemma check_em_iff:
  "check_em em prefix digest k \<longleftrightarrow> emsa_pkcs1v15 (prefix @ digest) k = Some em"
proof
  let ?t = "prefix @ digest"
  assume c: "check_em em prefix digest k"
  define p where "p = length (takeWhile (\<lambda>b. b = 0xFF) (drop 2 em))"
  from c have k: "length em = k" "11 \<le> k" "em ! 0 = 0" "em ! 1 = 1" "8 \<le> p" "2 + p < k" "em ! (2 + p) = 0"
    "k - (2 + p + 1) = length ?t" "sub_bytes em (2 + p + 1) (length prefix) = prefix"
    "sub_bytes em (2 + p + 1 + length prefix) (length digest) = digest"
    by (auto simp: check_em_def p_def Let_def split: if_splits)
  have "drop (2 + p + 1) em = sub_bytes em (2 + p + 1) (length prefix) @ sub_bytes em (2 + p + 1 + length prefix) (length digest)"
    using k(1,8) split_two [of "drop (2 + p + 1) em" "length prefix" "length digest"]
    by (simp add: sub_bytes_def add.commute)
  then have t: "drop (2 + p + 1) em = ?t" using k by simp
  have "drop 2 em = takeWhile (\<lambda>b. b = 0xFF) (drop 2 em) @ drop p (drop 2 em)"
    by (metis p_def append_take_drop_id takeWhile_eq_take)
  moreover have "takeWhile (\<lambda>b. b = 0xFF) (drop 2 em) = replicate p 0xFF"
    unfolding p_def by (intro replicate_eqI [symmetric, THEN sym]) (auto dest: set_takeWhileD)
  moreover have "drop p (drop 2 em) = em ! (2 + p) # drop (2 + p + 1) em"
    using k(1,6) by (simp add: Cons_nth_drop_Suc add.commute)
  ultimately have "drop 2 em = replicate p 0xFF @ 0 # ?t" using k t by simp
  moreover have "em = em ! 0 # em ! 1 # drop 2 em"
    using k(1,2) by (cases em; cases "tl em") auto
  moreover have "p = k - length ?t - 3" using k(6,8) by linarith
  ultimately show "emsa_pkcs1v15 ?t k = Some em" using k by (simp add: emsa_pkcs1v15_def)
next
  assume e: "emsa_pkcs1v15 (prefix @ digest) k = Some em"
  define p where "p = k - length (prefix @ digest) - 3"
  have k: "length (prefix @ digest) + 11 \<le> k" and em: "em = 0 # 1 # replicate p 0xFF @ 0 # prefix @ digest"
    using e by (auto simp: emsa_pkcs1v15_def p_def split: if_splits)
  have tw: "takeWhile (\<lambda>b. b = 0xFF) (drop 2 em) = replicate p 0xFF"
    by (simp add: em takeWhile_append2 takeWhile_tail)
  have p: "8 \<le> p" "k = p + 3 + length prefix + length digest" using k by (simp_all add: p_def)
  have d: "drop (Suc p) (1 # replicate p 0xFF @ ys) = (ys :: bytes)" for ys by simp
  show "check_em em prefix digest k"
    using p tw by (simp add: check_em_def Let_def) (simp add: em nth_append sub_bytes_def)
qed

lemma emsa_length: "emsa_pkcs1v15 t k = Some em \<Longrightarrow> length em = k"
  by (auto simp: emsa_pkcs1v15_def split: if_splits)

lemma emsa_value:
  assumes "0 < k" "big_val d < 256 ^ k"
  shows "emsa_pkcs1v15 t k = Some (to_bytes_be d k) \<longleftrightarrow> (\<exists>em. emsa_pkcs1v15 t k = Some em \<and> big_val d = be_val em)"
proof
  assume "\<exists>em. emsa_pkcs1v15 t k = Some em \<and> big_val d = be_val em"
  then obtain em where em: "emsa_pkcs1v15 t k = Some em" "be_val (to_bytes_be d k) = be_val em" by auto
  then have "to_bytes_be d k = em"
    using length_to_bytes_be [OF assms] emsa_length by (intro be_val_inj) auto
  then show "emsa_pkcs1v15 t k = Some (to_bytes_be d k)" using em by simp
qed auto

lemma verify_iff:
  "verify_pkcs1v15 sig key digest prefix \<longleftrightarrow>
     (let n = be_val (rsa_modulus key); e = be_val (rsa_exponent key); s = be_val sig in
      0 < e \<and> 0 < s \<and> s < n \<and>
      (\<exists>em. emsa_pkcs1v15 (prefix @ digest) (length (rsa_modulus key)) = Some em \<and> s ^ e mod n = be_val em))"
proof -
  let ?n = "from_bytes_be (rsa_modulus key)" and ?e = "from_bytes_be (rsa_exponent key)" and ?s = "from_bytes_be sig"
  have z: "is_zero (from_bytes_be bs) \<longleftrightarrow> be_val bs = 0" for bs
    using big_val_0_iff [of "from_bytes_be bs"] by (simp add: is_zero_def)
  show ?thesis
  proof (cases "0 < be_val (rsa_exponent key) \<and> 0 < be_val sig \<and> be_val sig < be_val (rsa_modulus key)")
    case False
    then show ?thesis
      using compare_val [of ?s ?n] by (auto simp: verify_pkcs1v15_def Let_def z)
  next
    case True
    then have ne: "sig \<noteq> []" "rsa_modulus key \<noteq> []" "rsa_exponent key \<noteq> []" by auto
    obtain d where d: "mod_pow ?s ?e ?n = Some d" "big_val d = be_val sig ^ be_val (rsa_exponent key) mod be_val (rsa_modulus key)"
      using mod_pow_val [of ?s ?n ?e] True by auto
    have "big_val d < be_val (rsa_modulus key)" using d(2) True by simp
    then have "big_val d < 256 ^ length (rsa_modulus key)" using be_val_bound by (rule less_trans)
    then show ?thesis
      using True ne d compare_val [of ?s ?n] emsa_value [of "length (rsa_modulus key)" d "prefix @ digest"]
      by (simp add: verify_pkcs1v15_def Let_def z check_em_iff)
  qed
qed

section \<open>Properties\<close>

text \<open>
  C38. RSA verification accepts exactly the signatures that RFC 8017 section 8.2.2 does, by comparing encodings:
  the signature is a positive number below the modulus whose e-th power modulo n, written with the
  length of the modulus, is the unique EMSA-PKCS1-v1_5 encoding of the digest. No other padding, length or
  trailing bytes are accepted.
\<close>

theorem rsa_verify_exact:
  "verify_pkcs1v15_sha256 sig key digest \<longleftrightarrow>
     (let n = be_val (rsa_modulus key); e = be_val (rsa_exponent key); s = be_val sig in
      0 < e \<and> 0 < s \<and> s < n \<and>
      (\<exists>em. emsa_pkcs1v15 (kSha256DigestInfoPrefix @ digest) (length (rsa_modulus key)) = Some em \<and>
         s ^ e mod n = be_val em))"
  by (simp only: verify_pkcs1v15_sha256_def verify_iff)

text \<open>
  A signature binds the digest: under one key and one hash the same signature is never
  accepted for two different digests.
\<close>

theorem rsa_digest_binding:
  assumes "verify_pkcs1v15 sig key d1 prefix" "verify_pkcs1v15 sig key d2 prefix" "length d1 = length d2"
  shows "d1 = d2"
proof -
  let ?k = "length (rsa_modulus key)"
  obtain em1 em2 where e: "emsa_pkcs1v15 (prefix @ d1) ?k = Some em1" "emsa_pkcs1v15 (prefix @ d2) ?k = Some em2"
    "be_val em1 = be_val em2"
    using assms(1,2) by (auto simp: verify_iff Let_def)
  then have "em1 = em2" using emsa_length by (intro be_val_inj) auto
  with e(1,2) assms(3) show ?thesis by (auto simp: emsa_pkcs1v15_def split: if_splits)
qed

theorem rsa_digest_binding_witness:
  "\<exists>sig key. verify_pkcs1v15 sig key [5] [] \<and> (\<forall>d. length d = 1 \<and> verify_pkcs1v15 sig key d [] \<longrightarrow> d = [5])"
proof -
  let ?em = "[0x00, 0x01, 0xFF, 0xFF, 0xFF, 0xFF, 0xFF, 0xFF, 0xFF, 0xFF, 0x00, 5] :: bytes"
  let ?key = "\<lparr>rsa_modulus = [2, 0, 0, 0, 0, 0, 0, 0, 0, 0, 0, 0], rsa_exponent = [1]\<rparr>"
  have r: "replicate 8 x = [x, x, x, x, x, x, x, x]" for x :: u8 by (simp add: numeral_eq_Suc)
  have len: "length (rsa_modulus ?key) = 12" by simp
  have em: "emsa_pkcs1v15 ([] @ [5]) 12 = Some ?em" by (simp add: emsa_pkcs1v15_def r)
  have v: "verify_pkcs1v15 ?em ?key [5] []"
    unfolding verify_iff Let_def len em by simp
  show ?thesis
    using v rsa_digest_binding [OF v, of _] by (intro exI [of _ ?em] exI [of _ ?key]) (auto dest: rsa_digest_binding [OF v])
qed

end
