(* ===== verification/X509.thy ===== *)
theory X509
  imports Asn1 Sha2 Rsa_Pkcs1 "HOL-Library.Monad_Syntax"
begin

text \<open>
  \<^verbatim>\<open>security/x509.{hpp,cpp}\<close>: extraction of the certificate fields the Authenticode check needs. Each
  \<^verbatim>\<open>return std::nullopt\<close> of the parser is a failing \<open>require\<close> of the option monad. The lemmas show that a
  certificate encoded from its fields parses to those fields, and what every accepted certificate satisfies.
\<close>

definition require :: "bool \<Rightarrow> unit option" where
  "require b = (if b then Some () else None)"

lemma require_simps [simp]: "require True = Some ()" "require False = None" "require b = Some u \<longleftrightarrow> b"
  by (simp_all add: require_def)

lemma bind_require_Some [simp]: "(require b \<bind> f) = Some x \<longleftrightarrow> b \<and> f () = Some x"
  by (simp add: require_def)

definition bytes_to_string :: "bytes \<Rightarrow> string" where
  "bytes_to_string bs = map (\<lambda>b. char_of (unat b)) bs"

abbreviation children :: "bytes \<Rightarrow> Element \<Rightarrow> Element list" where
  "children data el \<equiv> parse_sequence_children data (el_content_offset el) (el_content_length el)"

section \<open>Certificates\<close>

record X509Certificate =
  x509_raw :: bytes
  x509_tbs_certificate :: bytes
  x509_serial_number :: bytes
  x509_issuer_der :: bytes
  x509_subject_der :: bytes
  x509_issuer_common_name :: string
  x509_subject_common_name :: string
  x509_not_before :: string
  x509_not_after :: string
  x509_public_key_algorithm_oid :: string
  x509_rsa_public_key :: "RsaPublicKey option"
  x509_signature_algorithm_oid :: string
  x509_signature_value :: bytes
  x509_sha256_thumbprint :: string

definition kRsaEncryptionOid :: string where "kRsaEncryptionOid = ''1.2.840.113549.1.1.1''"
definition kCommonNameOid :: string where "kCommonNameOid = ''2.5.4.3''"

fun bmp_string_to_utf8 :: "bytes \<Rightarrow> string" where
  "bmp_string_to_utf8 (hi # lo # rest) =
     (let cp = (push_bit 8 (ucast hi) OR ucast lo :: u32) in
      bytes_to_string
        (if cp \<le> 0x7F then [ucast cp]
         else if cp \<le> 0x7FF then [ucast (0xC0 OR drop_bit 6 cp), ucast (0x80 OR (cp AND 0x3F))]
         else [ucast (0xE0 OR drop_bit 12 cp), ucast (0x80 OR (drop_bit 6 cp AND 0x3F)), ucast (0x80 OR (cp AND 0x3F))])
      @ bmp_string_to_utf8 rest)"
| "bmp_string_to_utf8 _ = []"

definition atv_common_name :: "bytes \<Rightarrow> Element \<Rightarrow> string option" where
  "atv_common_name data atv =
     (if \<not> is_universal atv TAG_SEQUENCE then None
      else let fields = children data atv in
        if length fields \<noteq> 2 \<or> \<not> is_universal (fields ! 0) TAG_OBJECT_IDENTIFIER then None
        else if oid_to_string data (fields ! 0) \<noteq> kCommonNameOid then None
        else let value' = fields ! 1 in
          if is_universal value' TAG_BMP_STRING then Some (bmp_string_to_utf8 (el_content data value'))
          else Some (bytes_to_string (el_content data value')))"

text \<open>The two nested loops, left at the first common name.\<close>

definition extract_common_name :: "bytes \<Rightarrow> Element \<Rightarrow> string" where
  "extract_common_name data name_seq =
     (let atvs = concat (map (\<lambda>rdn. if is_universal rdn TAG_SET then children data rdn else []) (children data name_seq))
      in case List.map_filter (atv_common_name data) atvs of [] \<Rightarrow> [] | cn # _ \<Rightarrow> cn)"

definition extract_time_string :: "bytes \<Rightarrow> Element \<Rightarrow> string" where
  "extract_time_string data time_el =
     (if \<not> is_universal time_el TAG_UTC_TIME \<and> \<not> is_universal time_el TAG_GENERALIZED_TIME then []
      else bytes_to_string (el_content data time_el))"

definition read_byte_aligned_bit_string :: "bytes \<Rightarrow> Element \<Rightarrow> bytes option" where
  "read_byte_aligned_bit_string data el =
     (if \<not> is_universal el TAG_BIT_STRING \<or> el_content_length el = 0 then None
      else if data ! el_content_offset el \<noteq> 0 then None
      else Some (sub_bytes data (el_content_offset el + 1) (el_content_length el - 1)))"

text \<open>The public key inside the subjectPublicKeyInfo bit string.\<close>

definition parse_rsa_key :: "bytes \<Rightarrow> RsaPublicKey option" where
  "parse_rsa_key key_data =
     (case parse_element key_data (length key_data) 0 of
        None \<Rightarrow> None
      | Some rsa_seq \<Rightarrow>
          if \<not> is_universal rsa_seq TAG_SEQUENCE then None
          else let rsa_fields = children key_data rsa_seq in
            if length rsa_fields = 2 \<and> is_universal (rsa_fields ! 0) TAG_INTEGER \<and> is_universal (rsa_fields ! 1) TAG_INTEGER
            then let m = read_unsigned_integer key_data (rsa_fields ! 0); e = read_unsigned_integer key_data (rsa_fields ! 1)
              in if m \<noteq> [] \<and> e \<noteq> [] then Some \<lparr>rsa_modulus = m, rsa_exponent = e\<rparr> else None
            else None)"

text \<open>An AlgorithmIdentifier: the object identifier in front of the parameters.\<close>

definition algorithm_oid :: "bytes \<Rightarrow> Element \<Rightarrow> string option" where
  "algorithm_oid data alg_el = do {
     let alg = children data alg_el;
     require (alg \<noteq> [] \<and> is_universal (alg ! 0) TAG_OBJECT_IDENTIFIER);
     let oid = oid_to_string data (alg ! 0);
     require (oid \<noteq> []);
     Some oid }"

definition parse_spki :: "bytes \<Rightarrow> Element \<Rightarrow> (string \<times> RsaPublicKey option) option" where
  "parse_spki data el = do {
     let spki = children data el;
     require (2 \<le> length spki \<and> is_universal (spki ! 0) TAG_SEQUENCE);
     oid \<leftarrow> algorithm_oid data (spki ! 0);
     key_data \<leftarrow> read_byte_aligned_bit_string data (spki ! 1);
     Some (oid, if oid = kRsaEncryptionOid then parse_rsa_key key_data else None) }"

definition parse_validity :: "bytes \<Rightarrow> Element \<Rightarrow> (string \<times> string) option" where
  "parse_validity data el = do {
     let validity = children data el;
     require (length validity = 2);
     let not_before = extract_time_string data (validity ! 0);
     let not_after = extract_time_string data (validity ! 1);
     require (not_before \<noteq> [] \<and> not_after \<noteq> []);
     Some (not_before, not_after) }"

definition is_seq_at :: "Element list \<Rightarrow> nat \<Rightarrow> bool" where
  "is_seq_at els idx \<longleftrightarrow> idx < length els \<and> is_universal (els ! idx) TAG_SEQUENCE"

text \<open>The fields of the to-be-signed part; the record keeps the elements the caller turns into bytes and names.\<close>

record TbsFields =
  tbs_serial :: bytes
  tbs_issuer :: Element
  tbs_not_before :: string
  tbs_not_after :: string
  tbs_subject :: Element
  tbs_key_oid :: string
  tbs_key :: "RsaPublicKey option"

definition parse_tbs :: "bytes \<Rightarrow> Element \<Rightarrow> TbsFields option" where
  "parse_tbs data tbs_el = do {
     let tbs = children data tbs_el;
     let idx = (if 0 < length tbs \<and> el_tag_class (tbs ! 0) = CONTEXT_SPECIFIC \<and> el_tag_number (tbs ! 0) = 0 then 1 else 0);
     require (idx < length tbs \<and> is_universal (tbs ! idx) TAG_INTEGER);
     let serial_number = read_unsigned_integer data (tbs ! idx);
     require (serial_number \<noteq> []);
     require (is_seq_at tbs (idx + 1));
     require (is_seq_at tbs (idx + 2));
     require (is_seq_at tbs (idx + 3));
     (not_before, not_after) \<leftarrow> parse_validity data (tbs ! (idx + 3));
     require (is_seq_at tbs (idx + 4));
     require (is_seq_at tbs (idx + 5));
     (key_oid, key) \<leftarrow> parse_spki data (tbs ! (idx + 5));
     Some \<lparr>tbs_serial = serial_number, tbs_issuer = tbs ! (idx + 2), tbs_not_before = not_before, tbs_not_after = not_after,
       tbs_subject = tbs ! (idx + 4), tbs_key_oid = key_oid, tbs_key = key\<rparr> }"

definition X509Parser_parse :: "bytes \<Rightarrow> X509Certificate option" where
  "X509Parser_parse data = do {
     cert_seq \<leftarrow> parse_element data (length data) 0;
     require (is_universal cert_seq TAG_SEQUENCE);
     let tp = children data cert_seq;
     require (length tp = 3);
     require (is_universal (tp ! 0) TAG_SEQUENCE);
     require (is_universal (tp ! 1) TAG_SEQUENCE);
     signature_algorithm_oid \<leftarrow> algorithm_oid data (tp ! 1);
     signature_value \<leftarrow> read_byte_aligned_bit_string data (tp ! 2);
     tbs \<leftarrow> parse_tbs data (tp ! 0);
     Some \<lparr>x509_raw = data, x509_tbs_certificate = raw_bytes data (tp ! 0), x509_serial_number = tbs_serial tbs,
       x509_issuer_der = raw_bytes data (tbs_issuer tbs), x509_subject_der = raw_bytes data (tbs_subject tbs),
       x509_issuer_common_name = extract_common_name data (tbs_issuer tbs),
       x509_subject_common_name = extract_common_name data (tbs_subject tbs),
       x509_not_before = tbs_not_before tbs, x509_not_after = tbs_not_after tbs,
       x509_public_key_algorithm_oid = tbs_key_oid tbs, x509_rsa_public_key = tbs_key tbs,
       x509_signature_algorithm_oid = signature_algorithm_oid, x509_signature_value = signature_value,
       x509_sha256_thumbprint = sha256_hash_bytes data\<rparr> }"

section \<open>Encoding a certificate\<close>

definition alg_der :: "nat \<times> nat \<times> nat list \<Rightarrow> (u8 \<times> bytes) list \<Rightarrow> bytes" where
  "alg_der oid params = (case oid of (x, y, arcs) \<Rightarrow> der_items ((0x06, oid_content x y arcs) # params))"

definition oid_ok :: "nat \<times> nat \<times> nat list \<Rightarrow> bool" where
  "oid_ok oid = (case oid of (x, y, arcs) \<Rightarrow> (x < 2 \<and> y < 40 \<or> x = 2 \<and> y < 176) \<and> (\<forall>v \<in> set arcs. v < 2 ^ 64))"

definition oid_text :: "nat \<times> nat \<times> nat list \<Rightarrow> string" where
  "oid_text oid = (case oid of (x, y, arcs) \<Rightarrow> dotted x y arcs)"

definition rsa_key_der :: "nat \<Rightarrow> nat \<Rightarrow> bytes" where
  "rsa_key_der n e = der_tlv 0x30 (der_items [(0x02, der_uint n), (0x02, der_uint e)])"

definition spki_der :: "bytes \<Rightarrow> bytes \<Rightarrow> bytes" where
  "spki_der alg key = der_items [(0x30, alg), (0x03, 0 # key)]"

record cert_fields =
  cf_version :: "bytes option"
  cf_serial :: nat
  cf_inner_alg :: bytes
  cf_issuer :: bytes
  cf_not_before :: bytes
  cf_not_after :: bytes
  cf_subject :: bytes
  cf_key_oid :: "nat \<times> nat \<times> nat list"
  cf_key_params :: "(u8 \<times> bytes) list"
  cf_key :: bytes
  cf_rest :: "(u8 \<times> bytes) list"
  cf_sig_oid :: "nat \<times> nat \<times> nat list"
  cf_sig_params :: "(u8 \<times> bytes) list"
  cf_signature :: bytes

definition tbs_items :: "cert_fields \<Rightarrow> (u8 \<times> bytes) list" where
  "tbs_items c = (case cf_version c of None \<Rightarrow> [] | Some v \<Rightarrow> [(0xA0, v)]) @
     [(0x02, der_uint (cf_serial c)), (0x30, cf_inner_alg c), (0x30, cf_issuer c),
      (0x30, der_items [(0x17, cf_not_before c), (0x17, cf_not_after c)]), (0x30, cf_subject c),
      (0x30, spki_der (alg_der (cf_key_oid c) (cf_key_params c)) (cf_key c))] @ cf_rest c"

definition x509_der :: "cert_fields \<Rightarrow> bytes" where
  "x509_der c = der_tlv 0x30 (der_items [(0x30, der_items (tbs_items c)),
     (0x30, alg_der (cf_sig_oid c) (cf_sig_params c)), (0x03, 0 # cf_signature c)])"

definition cert_fields_ok :: "cert_fields \<Rightarrow> bool" where
  "cert_fields_ok c \<longleftrightarrow> length (x509_der c) < 256 ^ 8 \<and> oid_ok (cf_key_oid c) \<and> oid_ok (cf_sig_oid c) \<and>
     (\<forall>(t, _) \<in> set (cf_key_params c @ cf_sig_params c @ cf_rest c). low_tag t) \<and>
     cf_not_before c \<noteq> [] \<and> cf_not_after c \<noteq> []"

lemma tag_classes [simp]:
  "tag_class_of 0x30 = UNIVERSAL" "tag_class_of 0x02 = UNIVERSAL" "tag_class_of 0x03 = UNIVERSAL" "tag_class_of 0x17 = UNIVERSAL"
  "tag_class_of 0x06 = UNIVERSAL" "tag_class_of 0xA0 = CONTEXT_SPECIFIC"
  by (simp_all add: tag_class_of_def)

lemmas tag_numbers = TAG_SEQUENCE_def TAG_INTEGER_def TAG_BIT_STRING_def TAG_OBJECT_IDENTIFIER_def TAG_UTC_TIME_def
  TAG_GENERALIZED_TIME_def

lemma der_at_bit_string: "der_at data el 0x03 (0 # bs) \<Longrightarrow> read_byte_aligned_bit_string data el = Some bs"
proof -
  assume a: "der_at data el 0x03 (0 # bs)"
  then obtain xs ys where d: "data = xs @ der_tlv 0x03 (0 # bs) @ ys" and el: "el = tlv_element 0x03 (0 # bs) (length xs)"
    by (auto simp: der_at_def)
  let ?h = "xs @ 0x03 # der_length (length (0 # bs))"
  have d': "data = ?h @ (0 # bs) @ ys" by (simp add: d der_tlv_def)
  have off: "el_content_offset el = length ?h" "el_content_length el = Suc (length bs)" by (simp_all add: el tlv_element_def)
  have "sub_bytes data (Suc (length ?h)) (length bs) = bs"
    using sub_bytes_append_mid [of "?h @ [0]" bs ys] by (simp add: d')
  moreover have "data ! length ?h = 0" unfolding d' by (simp add: nth_append)
  ultimately show ?thesis
    using der_at_universal [OF a, of TAG_BIT_STRING] by (simp add: read_byte_aligned_bit_string_def off tag_numbers)
qed

lemma der_at_alg:
  assumes "der_at data el tag (alg_der oid params)" "oid_ok oid" "\<forall>(t, _) \<in> set params. low_tag t" "length data < 256 ^ 8"
  shows "algorithm_oid data el = Some (oid_text oid)"
proof -
  obtain x y arcs where oid: "oid = (x, y, arcs)" by (cases oid)
  obtain els where els: "children data el = els"
    "list_all2 (\<lambda>el (tag, content). der_at data el tag content) els ((0x06, oid_content x y arcs) # params)"
    using der_at_children [where data = data and el = el and tag = tag and items = "(0x06, oid_content x y arcs) # params"] assms by (auto simp: alg_der_def oid)
  then obtain e es where e: "els = e # es" "der_at data e 0x06 (oid_content x y arcs)" by (auto simp: list_all2_Cons2)
  have "oid_to_string data e = oid_text oid"
    using der_at_oid [OF e(2)] assms(2) by (simp add: oid oid_ok_def oid_text_def)
  moreover have "oid_text oid \<noteq> []" by (simp add: oid_text_def oid dotted_def)
  ultimately show ?thesis using els(1) e der_at_universal [OF e(2)]
    by (simp add: algorithm_oid_def tag_numbers)
qed

lemma der_at_time: "der_at data el 0x17 c \<Longrightarrow> extract_time_string data el = bytes_to_string c"
  by (simp add: extract_time_string_def der_at_universal der_at_reads tag_numbers)

lemma parse_rsa_key_der:
  assumes "length (rsa_key_der n e) < 256 ^ 8"
  shows "parse_rsa_key (rsa_key_der n e) =
    Some \<lparr>rsa_modulus = (if n = 0 then [0] else be_bytes n), rsa_exponent = (if e = 0 then [0] else be_bytes e)\<rparr>"
proof -
  let ?items = "[(0x02, der_uint n), (0x02, der_uint e)]" and ?d = "rsa_key_der n e"
  obtain el where el: "parse_element ?d (length ?d) 0 = Some el" "der_at ?d el 0x30 (der_items ?items)"
    using der_at_whole [where tag = "0x30" and content = "der_items ?items"] assms by (auto simp: rsa_key_der_def)
  obtain els where els: "children ?d el = els" "list_all2 (\<lambda>el (tag, content). der_at ?d el tag content) els ?items"
    using der_at_children [OF el(2)] assms by auto
  then obtain a b where ab: "els = [a, b]" "der_at ?d a 0x02 (der_uint n)" "der_at ?d b 0x02 (der_uint e)"
    by (auto simp: list_all2_Cons2)
  show ?thesis
    using el els(1) ab der_at_universal [OF el(2)] der_at_universal [OF ab(2)] der_at_universal [OF ab(3)]
      der_at_integer [OF ab(2)] der_at_integer [OF ab(3)] be_bytes_nonempty [of n] be_bytes_nonempty [of e]
    by (simp add: parse_rsa_key_def tag_numbers Let_def)
qed

lemma bytes_to_string_Nil [simp]: "bytes_to_string bs = [] \<longleftrightarrow> bs = []"
  by (simp add: bytes_to_string_def)

lemma der_at_validity:
  assumes "der_at data el tag (der_items [(0x17, a), (0x17, b)])" "length data < 256 ^ 8" "a \<noteq> []" "b \<noteq> []"
  shows "parse_validity data el = Some (bytes_to_string a, bytes_to_string b)"
proof -
  obtain els where els: "children data el = els" "list_all2 (\<lambda>el (tag, content). der_at data el tag content) els [(0x17, a), (0x17, b)]"
    using der_at_children [OF assms(1)] assms(2) by auto
  then obtain p q where pq: "els = [p, q]" "der_at data p 0x17 a" "der_at data q 0x17 b" by (auto simp: list_all2_Cons2)
  show ?thesis using els(1) pq assms der_at_time [OF pq(2)] der_at_time [OF pq(3)] by (simp add: parse_validity_def)
qed

lemma der_at_spki:
  assumes "der_at data el tag (spki_der (alg_der oid params) key)" "oid_ok oid" "\<forall>(t, _) \<in> set params. low_tag t"
    "length data < 256 ^ 8"
  shows "parse_spki data el = Some (oid_text oid, if oid_text oid = kRsaEncryptionOid then parse_rsa_key key else None)"
proof -
  let ?items = "[(0x30, alg_der oid params), (0x03, 0 # key)]"
  obtain els where els: "children data el = els" "list_all2 (\<lambda>el (tag, content). der_at data el tag content) els ?items"
    using der_at_children [where data = data and el = el and tag = tag and items = ?items] assms(1,4) by (auto simp: spki_der_def)
  then obtain a b where ab: "els = [a, b]" "der_at data a 0x30 (alg_der oid params)" "der_at data b 0x03 (0 # key)"
    by (auto simp: list_all2_Cons2)
  show ?thesis
    using els(1) ab(1) der_at_universal [OF ab(2)] der_at_alg [OF ab(2) assms(2-4)] der_at_bit_string [OF ab(3)]
    by (simp add: parse_spki_def tag_numbers)
qed

text \<open>The whole certificate.\<close>

lemma tbs_items_low: "cert_fields_ok c \<Longrightarrow> \<forall>(t, _) \<in> set (tbs_items c). low_tag t"
  by (auto simp: cert_fields_ok_def tbs_items_def split: option.splits)

lemma x509_parse_tbs:
  assumes "cert_fields_ok c" "der_at data el 0x30 (der_items (tbs_items c))" "length data < 256 ^ 8"
  obtains idx els sn inn iss val sub spki where "children data el = els"
    "idx = (if 0 < length els \<and> el_tag_class (els ! 0) = CONTEXT_SPECIFIC \<and> el_tag_number (els ! 0) = 0 then 1 else 0)"
    "idx + 5 < length els"
    "els ! idx = sn" "els ! (idx + 1) = inn" "els ! (idx + 2) = iss" "els ! (idx + 3) = val" "els ! (idx + 4) = sub"
    "els ! (idx + 5) = spki"
    "der_at data sn 0x02 (der_uint (cf_serial c))" "der_at data inn 0x30 (cf_inner_alg c)" "der_at data iss 0x30 (cf_issuer c)"
    "der_at data val 0x30 (der_items [(0x17, cf_not_before c), (0x17, cf_not_after c)])" "der_at data sub 0x30 (cf_subject c)"
    "der_at data spki 0x30 (spki_der (alg_der (cf_key_oid c) (cf_key_params c)) (cf_key c))"
proof -
  obtain els where els: "children data el = els" "list_all2 (\<lambda>el (tag, content). der_at data el tag content) els (tbs_items c)"
    using der_at_children [OF assms(2) tbs_items_low [OF assms(1)] assms(3)] by blast
  show ?thesis
  proof (cases "cf_version c")
    case None
    then obtain a b d e f g rest where l: "els = a # b # d # e # f # g # rest" "der_at data a 0x02 (der_uint (cf_serial c))"
      "der_at data b 0x30 (cf_inner_alg c)" "der_at data d 0x30 (cf_issuer c)"
      "der_at data e 0x30 (der_items [(0x17, cf_not_before c), (0x17, cf_not_after c)])" "der_at data f 0x30 (cf_subject c)"
      "der_at data g 0x30 (spki_der (alg_der (cf_key_oid c) (cf_key_params c)) (cf_key c))"
      using els(2) by (auto simp: tbs_items_def list_all2_Cons2)
    then show ?thesis using els(1) der_at_reads(4) [OF l(2)]
      by (intro that [where els = els and idx = 0]) (simp_all add: numeral_eq_Suc)
  next
    case (Some v)
    then obtain z a b d e f g rest where l: "els = z # a # b # d # e # f # g # rest" "der_at data a 0x02 (der_uint (cf_serial c))"
      "der_at data b 0x30 (cf_inner_alg c)" "der_at data d 0x30 (cf_issuer c)"
      "der_at data e 0x30 (der_items [(0x17, cf_not_before c), (0x17, cf_not_after c)])" "der_at data f 0x30 (cf_subject c)"
      "der_at data g 0x30 (spki_der (alg_der (cf_key_oid c) (cf_key_params c)) (cf_key c))" "der_at data z 0xA0 v"
      using els(2) by (auto simp: tbs_items_def list_all2_Cons2)
    then show ?thesis using els(1) der_at_reads(4,5) [OF l(8)]
      by (intro that [where els = els and idx = 1]) (simp_all add: numeral_eq_Suc)
  qed
qed

lemma x509_parse_der:
  assumes "cert_fields_ok c"
  shows "\<exists>cert. X509Parser_parse (x509_der c) = Some cert \<and> x509_raw cert = x509_der c \<and>
    x509_tbs_certificate cert = der_tlv 0x30 (der_items (tbs_items c)) \<and>
    be_val (x509_serial_number cert) = cf_serial c \<and>
    x509_issuer_der cert = der_tlv 0x30 (cf_issuer c) \<and> x509_subject_der cert = der_tlv 0x30 (cf_subject c) \<and>
    x509_not_before cert = bytes_to_string (cf_not_before c) \<and> x509_not_after cert = bytes_to_string (cf_not_after c) \<and>
    x509_public_key_algorithm_oid cert = oid_text (cf_key_oid c) \<and>
    x509_rsa_public_key cert = (if oid_text (cf_key_oid c) = kRsaEncryptionOid then parse_rsa_key (cf_key c) else None) \<and>
    x509_signature_algorithm_oid cert = oid_text (cf_sig_oid c) \<and> x509_signature_value cert = cf_signature c \<and>
    x509_sha256_thumbprint cert = sha256_hash_bytes (x509_der c)"
proof -
  let ?d = "x509_der c"
  let ?top = "[(0x30, der_items (tbs_items c)), (0x30, alg_der (cf_sig_oid c) (cf_sig_params c)), (0x03, 0 # cf_signature c)]"
  have len: "length ?d < 256 ^ 8" using assms by (simp add: cert_fields_ok_def)
  obtain el where el: "parse_element ?d (length ?d) 0 = Some el" "der_at ?d el 0x30 (der_items ?top)"
    using der_at_whole [where tag = "0x30" and content = "der_items ?top"] len by (auto simp: x509_der_def)
  obtain els where els: "children ?d el = els" "list_all2 (\<lambda>el (tag, content). der_at ?d el tag content) els ?top"
    using der_at_children [OF el(2)] len by auto
  then obtain p q r where pqr: "els = [p, q, r]" "der_at ?d p 0x30 (der_items (tbs_items c))"
    "der_at ?d q 0x30 (alg_der (cf_sig_oid c) (cf_sig_params c))" "der_at ?d r 0x03 (0 # cf_signature c)"
    by (auto simp: list_all2_Cons2)
  have alg: "algorithm_oid ?d q = Some (oid_text (cf_sig_oid c))"
    using der_at_alg [OF pqr(3)] assms len by (auto simp: cert_fields_ok_def)
  obtain idx tbs sn inn iss val sub spki where tbs: "children ?d p = tbs"
    "idx = (if 0 < length tbs \<and> el_tag_class (tbs ! 0) = CONTEXT_SPECIFIC \<and> el_tag_number (tbs ! 0) = 0 then 1 else 0)"
    "idx + 5 < length tbs"
    "tbs ! idx = sn" "tbs ! (idx + 1) = inn" "tbs ! (idx + 2) = iss" "tbs ! (idx + 3) = val" "tbs ! (idx + 4) = sub"
    "tbs ! (idx + 5) = spki"
    and at: "der_at ?d sn 0x02 (der_uint (cf_serial c))" "der_at ?d inn 0x30 (cf_inner_alg c)" "der_at ?d iss 0x30 (cf_issuer c)"
    "der_at ?d val 0x30 (der_items [(0x17, cf_not_before c), (0x17, cf_not_after c)])" "der_at ?d sub 0x30 (cf_subject c)"
    "der_at ?d spki 0x30 (spki_der (alg_der (cf_key_oid c) (cf_key_params c)) (cf_key c))"
    using x509_parse_tbs [OF assms pqr(2) len] by metis
  have seq: "is_seq_at tbs (idx + 1)" "is_seq_at tbs (idx + 2)" "is_seq_at tbs (idx + 3)" "is_seq_at tbs (idx + 4)" "is_seq_at tbs (idx + 5)"
    using tbs at der_at_universal by (simp_all add: is_seq_at_def tag_numbers)
  have u: "is_universal sn TAG_INTEGER" "is_universal el TAG_SEQUENCE" "is_universal p TAG_SEQUENCE" "is_universal q TAG_SEQUENCE"
    using der_at_universal [OF at(1)] der_at_universal [OF el(2)] der_at_universal [OF pqr(2)] der_at_universal [OF pqr(3)]
    by (simp_all add: tag_numbers)
  note u
  moreover have "parse_validity ?d val = Some (bytes_to_string (cf_not_before c), bytes_to_string (cf_not_after c))"
    using der_at_validity [OF at(4) len] assms by (simp add: cert_fields_ok_def)
  moreover have "parse_spki ?d spki = Some (oid_text (cf_key_oid c),
      if oid_text (cf_key_oid c) = kRsaEncryptionOid then parse_rsa_key (cf_key c) else None)"
    using der_at_spki [OF at(6)] assms len by (auto simp: cert_fields_ok_def)
  moreover have "(if cf_serial c = 0 then [0] else be_bytes (cf_serial c)) \<noteq> []" using be_bytes_nonempty by simp
  ultimately have tp: "parse_tbs ?d p = Some \<lparr>tbs_serial = (if cf_serial c = 0 then [0] else be_bytes (cf_serial c)),
      tbs_issuer = iss, tbs_not_before = bytes_to_string (cf_not_before c), tbs_not_after = bytes_to_string (cf_not_after c),
      tbs_subject = sub, tbs_key_oid = oid_text (cf_key_oid c),
      tbs_key = (if oid_text (cf_key_oid c) = kRsaEncryptionOid then parse_rsa_key (cf_key c) else None)\<rparr>"
    using seq tbs(1,3-9) tbs(2) [symmetric] der_at_integer [OF at(1)] by (simp add: parse_tbs_def Let_def)
  have "be_val (if cf_serial c = 0 then [0] else be_bytes (cf_serial c)) = cf_serial c" by simp
  then show ?thesis
    using el(1) els(1) pqr(1) alg der_at_bit_string [OF pqr(4)] tp u
      der_at_reads(2) [OF at(3)] der_at_reads(2) [OF at(5)] der_at_reads(2) [OF pqr(2)]
    by (simp add: X509Parser_parse_def)
qed

section \<open>Accepted certificates\<close>

lemma tiles_raw_bytes:
  "tiles pos end' els \<Longrightarrow> el \<in> set els \<Longrightarrow> \<exists>s. pos \<le> s \<and> s + el_total_length el \<le> end' \<and>
     el_content_length el < el_total_length el \<and> raw_bytes data el = sub_bytes data s (el_total_length el)"
proof (induction pos end' els rule: tiles.induct)
  case (2 pos end' e els)
  show ?case
  proof (cases "el = e")
    case True
    have "el_content_offset e - (el_total_length e - el_content_length e) = pos" "el_content_length e < el_total_length e"
      "\<not> el_content_offset e < el_total_length e - el_content_length e"
      using 2(2) by auto
    with True 2(2) show ?thesis by (intro exI [of _ pos]) (auto simp: raw_bytes_def)
  next
    case False
    then obtain s where "pos + el_total_length e \<le> s" "s + el_total_length el \<le> end'"
      "el_content_length el < el_total_length el" "raw_bytes data el = sub_bytes data s (el_total_length el)"
      using 2 by auto
    then show ?thesis by (intro exI [of _ s]) auto
  qed
qed simp

lemma child_region:
  assumes "el \<in> set (children data parent)"
  shows "\<exists>s. el_content_offset parent \<le> s \<and> s + el_total_length el \<le> el_content_offset parent + el_content_length parent \<and>
    el_content_length el < el_total_length el \<and> raw_bytes data el = sub_bytes data s (el_total_length el)"
  using tiles_raw_bytes [OF children_tile] assms by (auto simp: parse_sequence_children_def)

lemma x509_parse_inside:
  assumes "X509Parser_parse data = Some cert"
  shows "\<exists>s len. 0 < len \<and> s + len \<le> length data \<and> x509_tbs_certificate cert = sub_bytes data s len"
proof -
  obtain el where el: "parse_element data (length data) 0 = Some el" "length (children data el) = 3"
    "x509_tbs_certificate cert = raw_bytes data (children data el ! 0)"
    using assms by (auto simp: X509Parser_parse_def bind_eq_Some_conv Let_def)
  have "children data el ! 0 \<in> set (children data el)" using el(2) by simp
  then obtain s where "s + el_total_length (children data el ! 0) \<le> el_content_offset el + el_content_length el"
    "el_content_length (children data el ! 0) < el_total_length (children data el ! 0)"
    "raw_bytes data (children data el ! 0) = sub_bytes data s (el_total_length (children data el ! 0))"
    using child_region by blast
  then show ?thesis
    using el(3) parse_element_bounds(2) [OF el(1)]
    by (intro exI [of _ s] exI [of _ "el_total_length (children data el ! 0)"]) simp
qed

lemma algorithm_oid_nonempty: "algorithm_oid data el = Some oid \<Longrightarrow> oid \<noteq> []"
  by (auto simp: algorithm_oid_def Let_def)

lemma parse_validity_nonempty: "parse_validity data el = Some (a, b) \<Longrightarrow> a \<noteq> [] \<and> b \<noteq> []"
  by (auto simp: parse_validity_def Let_def)

lemma parse_spki_nonempty: "parse_spki data el = Some (oid, k) \<Longrightarrow> oid \<noteq> []"
  by (auto simp: parse_spki_def Let_def bind_eq_Some_conv dest: algorithm_oid_nonempty)

lemma parse_tbs_nonempty:
  assumes "parse_tbs data el = Some f"
  shows "tbs_serial f \<noteq> [] \<and> tbs_not_before f \<noteq> [] \<and> tbs_not_after f \<noteq> [] \<and> tbs_key_oid f \<noteq> []"
proof -
  define tbs where "tbs = children data el"
  define idx :: nat where "idx = (if 0 < length tbs \<and> el_tag_class (tbs ! 0) = CONTEXT_SPECIFIC \<and> el_tag_number (tbs ! 0) = 0 then 1 else 0)"
  show ?thesis
    using assms unfolding parse_tbs_def tbs_def [symmetric] Let_def idx_def [symmetric]
    by (auto simp: bind_eq_Some_conv dest!: parse_validity_nonempty parse_spki_nonempty)
qed

lemma x509_parse_required:
  assumes "X509Parser_parse data = Some cert"
  shows "x509_raw cert = data \<and> x509_sha256_thumbprint cert = sha256_hash_bytes data \<and> x509_serial_number cert \<noteq> [] \<and>
    x509_not_before cert \<noteq> [] \<and> x509_not_after cert \<noteq> [] \<and> x509_signature_algorithm_oid cert \<noteq> [] \<and>
    x509_public_key_algorithm_oid cert \<noteq> []"
  using assms by (auto simp: X509Parser_parse_def bind_eq_Some_conv Let_def dest!: algorithm_oid_nonempty parse_tbs_nonempty)

section \<open>Properties\<close>

definition sample_cert :: cert_fields where
  "sample_cert = \<lparr>cf_version = Some [2, 1, 2], cf_serial = 5, cf_inner_alg = [], cf_issuer = [1], cf_not_before = [0x32], cf_not_after = [0x33],
     cf_subject = [2], cf_key_oid = (1, 2, [840, 113549, 1, 1, 1]), cf_key_params = [(5, [])], cf_key = rsa_key_der 35 5,
     cf_rest = [(0xA3, [])], cf_sig_oid = (1, 2, [840, 113549, 1, 1, 11]), cf_sig_params = [(5, [])], cf_signature = [1, 2, 3]\<rparr>"

lemma sample_cert_ok: "cert_fields_ok sample_cert"
  by (simp add: cert_fields_ok_def sample_cert_def x509_der_def tbs_items_def alg_der_def spki_der_def rsa_key_der_def
      der_items_def der_tlv_def der_length_def oid_ok_def oid_content_def b128_def b128_hi.simps be_bytes.simps der_uint_def)



text \<open>
  What every accepted certificate satisfies, whatever the input bytes: it keeps the complete input
  and its SHA-256 as thumbprint, the required fields are non-empty, and the bytes the signature is
  checked over are a non-empty region of the input.
\<close>

theorem x509_accepted:
  assumes "X509Parser_parse data = Some cert"
  shows "x509_raw cert = data \<and> x509_sha256_thumbprint cert = sha256_hash_bytes data \<and> x509_serial_number cert \<noteq> [] \<and>
    x509_not_before cert \<noteq> [] \<and> x509_not_after cert \<noteq> [] \<and> x509_signature_algorithm_oid cert \<noteq> [] \<and>
    x509_public_key_algorithm_oid cert \<noteq> [] \<and>
    (\<exists>s len. 0 < len \<and> s + len \<le> length data \<and> x509_tbs_certificate cert = sub_bytes data s len)"
  using x509_parse_required [OF assms] x509_parse_inside [OF assms] by blast

theorem x509_accepted_witness:
  "\<exists>cert. X509Parser_parse (x509_der sample_cert) = Some cert \<and> x509_serial_number cert \<noteq> []"
proof -
  obtain cert where "X509Parser_parse (x509_der sample_cert) = Some cert"
    using x509_parse_der [OF sample_cert_ok] by blast
  with x509_accepted [OF this] show ?thesis by blast
qed

end
