(* ===== verification/Pkcs7.thy ===== *)
theory Pkcs7
  imports X509
begin

text \<open>
  \<^verbatim>\<open>security/pkcs7.{hpp,cpp}\<close>: the CMS SignedData container of an Authenticode signature, read with the DER
  and certificate parsers, and the re-encoding of the signed attributes. The lemmas show that the parser recovers
  every field of an encoded container, what every accepted container satisfies, and that the re-encoding is DER.
\<close>

record SignerInfo =
  si_issuer_der :: bytes
  si_serial_number :: bytes
  si_digest_algorithm_oid :: string
  si_signed_attrs_content :: bytes
  si_content_type_attr :: "string option"
  si_message_digest :: "bytes option"
  si_signature_algorithm_oid :: string
  si_signature :: bytes

record SignedData =
  sd_content_type :: string
  sd_content :: bytes
  sd_certificates :: "X509Certificate list"
  sd_signer_infos :: "SignerInfo list"

definition kSignedDataOid :: string where "kSignedDataOid = ''1.2.840.113549.1.7.2''"
definition kContentTypeAttrOid :: string where "kContentTypeAttrOid = ''1.2.840.113549.1.9.3''"
definition kMessageDigestAttrOid :: string where "kMessageDigestAttrOid = ''1.2.840.113549.1.9.4''"

definition is_context :: "Element \<Rightarrow> u32 \<Rightarrow> bool" where
  "is_context el n \<longleftrightarrow> el_tag_class el = CONTEXT_SPECIFIC \<and> el_tag_number el = n"

definition unwrap_explicit :: "bytes \<Rightarrow> Element \<Rightarrow> Element option" where
  "unwrap_explicit data wrapper = (let inner = children data wrapper in if length inner \<noteq> 1 then None else Some (inner ! 0))"

fun parse_certificates :: "bytes \<Rightarrow> Element list \<Rightarrow> X509Certificate list \<Rightarrow> X509Certificate list option" where
  "parse_certificates data [] out = Some out"
| "parse_certificates data (entry # entries) out =
     (if \<not> is_universal entry TAG_SEQUENCE then parse_certificates data entries out
      else case X509Parser_parse (raw_bytes data entry) of
        None \<Rightarrow> None
      | Some cert \<Rightarrow> parse_certificates data entries (out @ [cert]))"

definition parse_certificates_set :: "bytes \<Rightarrow> Element \<Rightarrow> X509Certificate list option" where
  "parse_certificates_set data certs_el = parse_certificates data (children data certs_el) []"

text \<open>
  One turn of the loop over the signed attributes. An attribute of another shape is skipped; a later attribute
  overwrites an earlier one.
\<close>

type_synonym attr_state = "string option \<times> bytes option"

definition extract_attribute :: "bytes \<Rightarrow> Element \<Rightarrow> attr_state \<Rightarrow> attr_state" where
  "extract_attribute data attr s =
     (if \<not> is_universal attr TAG_SEQUENCE then s
      else let fields = children data attr in
        if length fields \<noteq> 2 \<or> \<not> is_universal (fields ! 0) TAG_OBJECT_IDENTIFIER then s
        else if \<not> is_universal (fields ! 1) TAG_SET \<or> el_content_length (fields ! 1) = 0 then s
        else let oid = oid_to_string data (fields ! 0); vals = children data (fields ! 1) in
          if vals = [] then s
          else if oid = kContentTypeAttrOid \<and> is_universal (vals ! 0) TAG_OBJECT_IDENTIFIER
            then (Some (oid_to_string data (vals ! 0)), snd s)
          else if oid = kMessageDigestAttrOid \<and> is_universal (vals ! 0) TAG_OCTET_STRING
            then (fst s, Some (el_content data (vals ! 0)))
          else s)"

definition extract_signed_attributes :: "bytes \<Rightarrow> Element \<Rightarrow> attr_state" where
  "extract_signed_attributes data el = fold (extract_attribute data) (children data el) (None, None)"

definition parse_issuer_and_serial :: "bytes \<Rightarrow> Element \<Rightarrow> (bytes \<times> bytes) option" where
  "parse_issuer_and_serial data el = do {
     let iasn = children data el;
     require (length iasn = 2 \<and> is_universal (iasn ! 0) TAG_SEQUENCE \<and> is_universal (iasn ! 1) TAG_INTEGER);
     let issuer_der = raw_bytes data (iasn ! 0);
     let serial_number = read_unsigned_integer data (iasn ! 1);
     require (issuer_der \<noteq> [] \<and> serial_number \<noteq> []);
     Some (issuer_der, serial_number) }"

definition parse_signer_info :: "bytes \<Rightarrow> Element \<Rightarrow> SignerInfo option" where
  "parse_signer_info data si_el = do {
     let fields = children data si_el;
     require (0 < length fields \<and> is_universal (fields ! 0) TAG_INTEGER);
     require (is_seq_at fields 1);
     (issuer_der, serial_number) \<leftarrow> parse_issuer_and_serial data (fields ! 1);
     require (is_seq_at fields 2);
     digest_algorithm_oid \<leftarrow> algorithm_oid data (fields ! 2);
     require (3 < length fields \<and> is_context (fields ! 3) 0);
     let attrs = extract_signed_attributes data (fields ! 3);
     require (is_seq_at fields 4);
     signature_algorithm_oid \<leftarrow> algorithm_oid data (fields ! 4);
     require (5 < length fields \<and> is_universal (fields ! 5) TAG_OCTET_STRING);
     let signature = el_content data (fields ! 5);
     require (signature \<noteq> []);
     Some \<lparr>si_issuer_der = issuer_der, si_serial_number = serial_number, si_digest_algorithm_oid = digest_algorithm_oid,
       si_signed_attrs_content = el_content data (fields ! 3), si_content_type_attr = fst attrs, si_message_digest = snd attrs,
       si_signature_algorithm_oid = signature_algorithm_oid, si_signature = signature\<rparr> }"

definition parse_encap_content :: "bytes \<Rightarrow> Element \<Rightarrow> (string \<times> bytes) option" where
  "parse_encap_content data el = do {
     let eci = children data el;
     require (eci \<noteq> [] \<and> is_universal (eci ! 0) TAG_OBJECT_IDENTIFIER);
     let content_type = oid_to_string data (eci ! 0);
     require (content_type \<noteq> []);
     if 2 \<le> length eci \<and> is_context (eci ! 1) 0 then do {
       inner \<leftarrow> unwrap_explicit data (eci ! 1);
       require (is_universal inner TAG_OCTET_STRING \<or> is_universal inner TAG_SEQUENCE);
       Some (content_type, el_content data inner) }
     else Some (content_type, []) }"

fun parse_signer_entries :: "bytes \<Rightarrow> Element list \<Rightarrow> SignerInfo list \<Rightarrow> SignerInfo list option" where
  "parse_signer_entries data [] out = Some out"
| "parse_signer_entries data (entry # entries) out =
     (if \<not> is_universal entry TAG_SEQUENCE then None
      else case parse_signer_info data entry of
        None \<Rightarrow> None
      | Some signer \<Rightarrow> parse_signer_entries data entries (out @ [signer]))"

definition parse_signed_data :: "bytes \<Rightarrow> Element list \<Rightarrow> SignedData option" where
  "parse_signed_data der sd_fields = do {
     require (0 < length sd_fields \<and> is_universal (sd_fields ! 0) TAG_INTEGER);
     require (1 < length sd_fields \<and> is_universal (sd_fields ! 1) TAG_SET);
     require (is_seq_at sd_fields 2);
     (content_type, content) \<leftarrow> parse_encap_content der (sd_fields ! 2);
     (certificates, idx) \<leftarrow>
       (if 3 < length sd_fields \<and> is_context (sd_fields ! 3) 0
        then map_option (\<lambda>certs. (certs, 4)) (parse_certificates_set der (sd_fields ! 3)) else Some ([], 3));
     let idx = (if idx < length sd_fields \<and> is_context (sd_fields ! idx) 1 then idx + 1 else idx);
     require (idx < length sd_fields \<and> is_universal (sd_fields ! idx) TAG_SET);
     let entries = children der (sd_fields ! idx);
     require (entries \<noteq> []);
     signer_infos \<leftarrow> parse_signer_entries der entries [];
     Some \<lparr>sd_content_type = content_type, sd_content = content, sd_certificates = certificates,
       sd_signer_infos = signer_infos\<rparr> }"

definition Pkcs7Parser_parse :: "bytes \<Rightarrow> SignedData option" where
  "Pkcs7Parser_parse der = do {
     content_info \<leftarrow> parse_element der (length der) 0;
     require (is_universal content_info TAG_SEQUENCE);
     let ci_children = children der content_info;
     require (length ci_children = 2 \<and> is_universal (ci_children ! 0) TAG_OBJECT_IDENTIFIER);
     require (oid_to_string der (ci_children ! 0) = kSignedDataOid);
     require (is_context (ci_children ! 1) 0);
     signed_data_el \<leftarrow> unwrap_explicit der (ci_children ! 1);
     require (is_universal signed_data_el TAG_SEQUENCE);
     parse_signed_data der (children der signed_data_el) }"

definition find_signer_certificate :: "SignedData \<Rightarrow> SignerInfo \<Rightarrow> X509Certificate option" where
  "find_signer_certificate data signer =
     find (\<lambda>cert. x509_issuer_der cert = si_issuer_der signer \<and> x509_serial_number cert = si_serial_number signer)
       (sd_certificates data)"

text \<open>The length octets of the re-encoded set, collected from the least significant one, then written in reverse.\<close>

fun len_bytes :: "nat \<Rightarrow> bytes" where
  "len_bytes remaining = (if remaining = 0 then [] else of_nat (remaining mod 256) # len_bytes (remaining div 256))"

declare len_bytes.simps [simp del]

definition der_encode_set :: "bytes \<Rightarrow> bytes" where
  "der_encode_set content =
     [0x31] @
     (let len = length content in
      if len < 0x80 then [of_nat len]
      else (0x80 OR of_nat (length (len_bytes len))) # rev (len_bytes len)) @
     content"

section \<open>The re-encoded attribute set\<close>

lemma rev_len_bytes: "rev (len_bytes n) = be_bytes n"
  by (induction n rule: len_bytes.induct) (subst len_bytes.simps, subst be_bytes.simps, simp)

lemma or_80: "n < 128 \<Longrightarrow> (0x80 OR of_nat n :: u8) = of_nat (128 + n)"
proof -
  assume "n < 128"
  then have "of_nat n AND (0x80 :: u8) = 0" using low_byte_flag [of "of_nat n"] by (simp add: unat_of_nat_u8)
  then have "(0x80 :: u8) AND of_nat n = 0" by (simp add: and.commute)
  then have "(0x80 OR of_nat n :: u8) = 0x80 + of_nat n" using word_plus_and_or [of "0x80 :: u8" "of_nat n"] by simp
  then show ?thesis by simp
qed

lemma der_encode_set_tlv:
  assumes "length content < 256 ^ 8"
  shows "der_encode_set content = der_tlv 0x31 content"
proof -
  have r: "rev (len_bytes (length content)) = be_bytes (length content)" by (rule rev_len_bytes)
  have "length (len_bytes (length content)) = length (be_bytes (length content))" using arg_cong [OF r, of length] by simp
  moreover have "length (be_bytes (length content)) \<le> 8" using length_be_bytes [OF assms] .
  ultimately show ?thesis by (simp add: der_encode_set_def der_tlv_def der_length_def Let_def r or_80)
qed

section \<open>Encoding a container\<close>

type_synonym oid = "nat \<times> nat \<times> nat list"

record signer_fields =
  sf_version :: bytes
  sf_issuer :: bytes
  sf_serial :: nat
  sf_digest_oid :: oid
  sf_digest_params :: "(u8 \<times> bytes) list"
  sf_attrs :: "(oid \<times> u8 \<times> bytes) list"
  sf_sig_oid :: oid
  sf_sig_params :: "(u8 \<times> bytes) list"
  sf_signature :: bytes
  sf_unsigned :: "bytes option"

definition attr_der :: "oid \<times> u8 \<times> bytes \<Rightarrow> bytes" where
  "attr_der a = (case a of ((x, y, arcs), tag, v) \<Rightarrow>
     der_items [(0x06, oid_content x y arcs), (0x31, der_items [(tag, v)])])"

definition attrs_der :: "signer_fields \<Rightarrow> bytes" where
  "attrs_der s = der_items (map (\<lambda>a. (0x30, attr_der a)) (sf_attrs s))"

definition signer_der :: "signer_fields \<Rightarrow> bytes" where
  "signer_der s = der_items
     ([(0x02, sf_version s), (0x30, der_items [(0x30, sf_issuer s), (0x02, der_uint (sf_serial s))]),
       (0x30, alg_der (sf_digest_oid s) (sf_digest_params s)), (0xA0, attrs_der s),
       (0x30, alg_der (sf_sig_oid s) (sf_sig_params s)), (0x04, sf_signature s)] @
      (case sf_unsigned s of None \<Rightarrow> [] | Some u \<Rightarrow> [(0xA1, u)]))"

definition signer_ok :: "signer_fields \<Rightarrow> bool" where
  "signer_ok s \<longleftrightarrow> oid_ok (sf_digest_oid s) \<and> oid_ok (sf_sig_oid s) \<and> sf_signature s \<noteq> [] \<and>
     (\<forall>(t, _) \<in> set (sf_digest_params s @ sf_sig_params s). low_tag t) \<and> (\<forall>(oid, t, _) \<in> set (sf_attrs s). oid_ok oid \<and> low_tag t)"

text \<open>The last message digest of the attributes: the last attribute of that type that carries an octet string.\<close>

definition octet_tag :: "u8 \<Rightarrow> bool" where
  "octet_tag t \<longleftrightarrow> tag_class_of t = UNIVERSAL \<and> ucast (t AND 0x1F) = TAG_OCTET_STRING"

definition digest_attrs :: "signer_fields \<Rightarrow> bytes list" where
  "digest_attrs s = map (\<lambda>(_, _, v). v) (filter (\<lambda>(oid, t, _). oid_text oid = kMessageDigestAttrOid \<and> octet_tag t) (sf_attrs s))"

definition last_option :: "'a list \<Rightarrow> 'a option" where
  "last_option xs = (if xs = [] then None else Some (last xs))"

record signed_fields =
  sg_version :: bytes
  sg_digest_algs :: bytes
  sg_type :: oid
  sg_content :: "(u8 \<times> bytes) option"
  sg_certs :: "cert_fields list option"
  sg_crls :: "bytes option"
  sg_signers :: "signer_fields list"

definition encap_der :: "signed_fields \<Rightarrow> bytes" where
  "encap_der g = (case sg_type g of (x, y, arcs) \<Rightarrow> der_items ((0x06, oid_content x y arcs) #
     (case sg_content g of None \<Rightarrow> [] | Some (t, c) \<Rightarrow> [(0xA0, der_tlv t c)])))"

definition x509_content :: "cert_fields \<Rightarrow> bytes" where
  "x509_content c = der_items [(0x30, der_items (tbs_items c)), (0x30, alg_der (cf_sig_oid c) (cf_sig_params c)),
     (0x03, 0 # cf_signature c)]"

definition signed_items :: "signed_fields \<Rightarrow> (u8 \<times> bytes) list" where
  "signed_items g =
     [(0x02, sg_version g), (0x31, sg_digest_algs g), (0x30, encap_der g)] @
     (case sg_certs g of None \<Rightarrow> [] | Some cs \<Rightarrow> [(0xA0, der_items (map (\<lambda>c. (0x30, x509_content c)) cs))]) @
     (case sg_crls g of None \<Rightarrow> [] | Some c \<Rightarrow> [(0xA1, c)]) @
     [(0x31, der_items (map (\<lambda>s. (0x30, signer_der s)) (sg_signers g)))]"

definition pkcs7_der :: "signed_fields \<Rightarrow> bytes" where
  "pkcs7_der g = der_tlv 0x30 (der_items [(0x06, oid_content 1 2 [840, 113549, 1, 7, 2]),
     (0xA0, der_tlv 0x30 (der_items (signed_items g)))])"

definition signed_ok :: "signed_fields \<Rightarrow> bool" where
  "signed_ok g \<longleftrightarrow> length (pkcs7_der g) < 256 ^ 8 \<and> oid_ok (sg_type g) \<and>
     (case sg_content g of None \<Rightarrow> True | Some (t, _) \<Rightarrow> t = 0x04 \<or> t = 0x30) \<and>
     (\<forall>c \<in> set (case sg_certs g of None \<Rightarrow> [] | Some cs \<Rightarrow> cs). cert_fields_ok c) \<and>
     sg_signers g \<noteq> [] \<and> (\<forall>s \<in> set (sg_signers g). signer_ok s)"

lemma digit_chars:
  "digit_char 0 = CHR ''0''" "digit_char (Suc 0) = CHR ''1''" "digit_char 1 = CHR ''1''" "digit_char 2 = CHR ''2''"
  "digit_char 3 = CHR ''3''" "digit_char 4 = CHR ''4''" "digit_char 5 = CHR ''5''" "digit_char 6 = CHR ''6''"
  "digit_char 7 = CHR ''7''" "digit_char 8 = CHR ''8''" "digit_char 9 = CHR ''9''"
  by (simp_all add: digit_char_def char_of_def bit_Suc_0_iff)

lemma p7_tag_classes [simp]:
  "tag_class_of 0x31 = UNIVERSAL" "tag_class_of 0x04 = UNIVERSAL" "tag_class_of 0xA1 = CONTEXT_SPECIFIC"
  by (simp_all add: tag_class_of_def)

lemmas p7_tags = tag_numbers TAG_SET_def TAG_OCTET_STRING_def

lemma der_at_context: "der_at data el tag c \<Longrightarrow> is_context el n \<longleftrightarrow> tag_class_of tag = CONTEXT_SPECIFIC \<and> ucast (tag AND 0x1F) = n"
  by (simp add: is_context_def der_at_reads)

lemma der_items_single: "der_items [(t, c)] = der_tlv t c"
  by (simp add: der_items_def)

lemma der_at_unwrap:
  assumes "der_at data el tag (der_tlv t c)" "low_tag t" "length data < 256 ^ 8"
  obtains e where "unwrap_explicit data el = Some e" "der_at data e t c"
proof -
  obtain els where els: "children data el = els" "list_all2 (\<lambda>el (tag, content). der_at data el tag content) els [(t, c)]"
    using der_at_children [where items = "[(t, c)]" and data = data and el = el and tag = tag] assms by (auto simp: der_items_single)
  then obtain e where "els = [e]" "der_at data e t c" by (auto simp: list_all2_Cons2)
  with els(1) show ?thesis using that by (simp add: unwrap_explicit_def)
qed

lemma oid_text_nonempty: "oid_text oid \<noteq> []"
  by (cases oid) (simp add: oid_text_def dotted_def)

lemma der_at_oid_text:
  "der_at data el 0x06 (oid_content x y arcs) \<Longrightarrow> oid_ok (x, y, arcs) \<Longrightarrow> oid_to_string data el = oid_text (x, y, arcs)"
  using der_at_oid [of data el x y arcs] by (auto simp: oid_ok_def oid_text_def)

lemma der_at_attribute:
  assumes "der_at data el 0x30 (attr_der (oid, t, v))" "oid_ok oid" "low_tag t" "length data < 256 ^ 8"
  shows "snd (extract_attribute data el s) =
    (if oid_text oid = kMessageDigestAttrOid \<and> octet_tag t then Some v else snd s)"
proof -
  obtain x y arcs where oid: "oid = (x, y, arcs)" by (cases oid)
  let ?items = "[(0x06, oid_content x y arcs), (0x31, der_tlv t v)]"
  obtain els where els: "children data el = els" "list_all2 (\<lambda>el (tag, content). der_at data el tag content) els ?items"
    using der_at_children [where items = ?items and data = data and el = el and tag = "0x30"] assms
    by (auto simp: attr_der_def oid der_items_single)
  then obtain a b where ab: "els = [a, b]" "der_at data a 0x06 (oid_content x y arcs)" "der_at data b 0x31 (der_tlv t v)"
    by (auto simp: list_all2_Cons2)
  obtain e where e: "unwrap_explicit data b = Some e" "der_at data e t v" using der_at_unwrap [OF ab(3) assms(3,4)] by blast
  have vals: "children data b = [e]"
    using e(1) by (cases "children data b") (auto simp: unwrap_explicit_def Let_def split: if_splits)
  have len: "el_content_length b \<noteq> 0" using der_at_reads(3) [OF ab(3)] by (simp add: der_tlv_def)
  have "kContentTypeAttrOid \<noteq> kMessageDigestAttrOid" by (simp add: kContentTypeAttrOid_def kMessageDigestAttrOid_def)
  then show ?thesis
    using els(1) ab(1) vals len der_at_universal [OF assms(1)] der_at_universal [OF ab(2)] der_at_universal [OF ab(3)]
      der_at_universal [OF e(2)] der_at_oid_text [OF ab(2)] der_at_reads(1) [OF e(2)] assms(2)
    by (auto simp: extract_attribute_def octet_tag_def p7_tags oid Let_def)
qed

lemma fold_attributes:
  "list_all2 (\<lambda>el a. der_at data el 0x30 (attr_der a)) els attrs \<Longrightarrow> \<forall>(oid, t, _) \<in> set attrs. oid_ok oid \<and> low_tag t \<Longrightarrow>
   length data < 256 ^ 8 \<Longrightarrow>
   snd (fold (extract_attribute data) els s) =
     (case last_option (map (\<lambda>(_, _, v). v) (filter (\<lambda>(oid, t, _). oid_text oid = kMessageDigestAttrOid \<and> octet_tag t) attrs)) of
        None \<Rightarrow> snd s | Some v \<Rightarrow> Some v)"
proof (induction els attrs arbitrary: s rule: list_all2_induct)
  case (Cons el els a attrs)
  obtain oid t v where a: "a = (oid, t, v)" by (cases a)
  show ?case using Cons.IH [of "extract_attribute data el s"] Cons.prems der_at_attribute [of data el oid t v s] Cons.hyps(1)
    by (auto simp: a last_option_def)
qed (simp add: last_option_def)

lemma der_at_children_map:
  assumes "der_at data el tag (der_items (map (\<lambda>x. (t, f x)) xs))" "low_tag t" "length data < 256 ^ 8"
  obtains els where "children data el = els" "list_all2 (\<lambda>el x. der_at data el t (f x)) els xs"
proof -
  obtain els where "children data el = els" "list_all2 (\<lambda>el (tag, content). der_at data el tag content) els (map (\<lambda>x. (t, f x)) xs)"
    using der_at_children [OF assms(1)] assms(2,3) by auto
  then show ?thesis using that by (simp add: list_all2_map2)
qed

lemma der_at_attributes:
  assumes "der_at data el tag (attrs_der s)" "signer_ok s" "length data < 256 ^ 8"
  shows "snd (extract_signed_attributes data el) = last_option (digest_attrs s)"
proof -
  obtain els where "children data el = els" "list_all2 (\<lambda>el a. der_at data el 0x30 (attr_der a)) els (sf_attrs s)"
    using der_at_children_map [where t = "0x30" and f = attr_der and data = data and el = el and tag = tag and xs = "sf_attrs s"] assms
    by (auto simp: attrs_der_def)
  then show ?thesis
    using fold_attributes [of data els "sf_attrs s" "(None, None)"] assms(2,3)
    by (auto simp: extract_signed_attributes_def digest_attrs_def signer_ok_def split: option.splits)
qed

text \<open>What the parser must return for one signer: all fields, the attribute set as encoded and its last digest.\<close>

definition signer_matches :: "signer_fields \<Rightarrow> SignerInfo \<Rightarrow> bool" where
  "signer_matches s i \<longleftrightarrow> si_issuer_der i = der_tlv 0x30 (sf_issuer s) \<and> be_val (si_serial_number i) = sf_serial s \<and>
     si_digest_algorithm_oid i = oid_text (sf_digest_oid s) \<and> si_signed_attrs_content i = attrs_der s \<and>
     si_message_digest i = last_option (digest_attrs s) \<and> si_signature_algorithm_oid i = oid_text (sf_sig_oid s) \<and>
     si_signature i = sf_signature s"

lemma der_at_issuer_serial:
  assumes "der_at data el tag (der_items [(0x30, i), (0x02, der_uint n)])" "length data < 256 ^ 8"
  shows "parse_issuer_and_serial data el = Some (der_tlv 0x30 i, if n = 0 then [0] else be_bytes n)"
proof -
  obtain els where els: "children data el = els" "list_all2 (\<lambda>el (tag, content). der_at data el tag content) els [(0x30, i), (0x02, der_uint n)]"
    using der_at_children [OF assms(1)] assms(2) by auto
  then obtain a b where ab: "els = [a, b]" "der_at data a 0x30 i" "der_at data b 0x02 (der_uint n)" by (auto simp: list_all2_Cons2)
  have "raw_bytes data a \<noteq> []" using der_at_reads(2) [OF ab(2)] by (simp add: der_tlv_def)
  then show ?thesis
    using els(1) ab(1) der_at_universal [OF ab(2)] der_at_universal [OF ab(3)] der_at_reads(2) [OF ab(2)] der_at_integer [OF ab(3)]
      be_bytes_nonempty [of n]
    by (simp add: parse_issuer_and_serial_def p7_tags)
qed

lemma der_at_signer:
  assumes "der_at data el tag (signer_der s)" "signer_ok s" "length data < 256 ^ 8"
  shows "\<exists>i. parse_signer_info data el = Some i \<and> signer_matches s i"
proof -
  let ?items = "[(0x02, sf_version s), (0x30, der_items [(0x30, sf_issuer s), (0x02, der_uint (sf_serial s))]),
       (0x30, alg_der (sf_digest_oid s) (sf_digest_params s)), (0xA0, attrs_der s),
       (0x30, alg_der (sf_sig_oid s) (sf_sig_params s)), (0x04, sf_signature s)] @
      (case sf_unsigned s of None \<Rightarrow> [] | Some u \<Rightarrow> [(0xA1, u)])"
  have low: "\<forall>(t, c) \<in> set ?items. low_tag t" by (auto split: option.splits)
  obtain els where els: "children data el = els" "list_all2 (\<lambda>el (tag, content). der_at data el tag content) els ?items"
    using der_at_children [OF assms(1) [unfolded signer_der_def] low assms(3)] by blast
  then obtain a b c d e f rest where l: "els = a # b # c # d # e # f # rest" "der_at data a 0x02 (sf_version s)"
    "der_at data b 0x30 (der_items [(0x30, sf_issuer s), (0x02, der_uint (sf_serial s))])"
    "der_at data c 0x30 (alg_der (sf_digest_oid s) (sf_digest_params s))" "der_at data d 0xA0 (attrs_der s)"
    "der_at data e 0x30 (alg_der (sf_sig_oid s) (sf_sig_params s))" "der_at data f 0x04 (sf_signature s)"
    by (auto simp: list_all2_Cons2)
  have alg: "algorithm_oid data c = Some (oid_text (sf_digest_oid s))" "algorithm_oid data e = Some (oid_text (sf_sig_oid s))"
    using der_at_alg [OF l(4)] der_at_alg [OF l(6)] assms(2,3) by (auto simp: signer_ok_def)
  have "sf_signature s \<noteq> []" using assms(2) by (simp add: signer_ok_def)
  moreover have "be_val (if sf_serial s = 0 then [0] else be_bytes (sf_serial s)) = sf_serial s" by simp
  ultimately show ?thesis
    using els(1) l(1) alg der_at_universal [OF l(2)] der_at_universal [OF l(3)] der_at_universal [OF l(4)] der_at_context [OF l(5)]
      der_at_universal [OF l(6)] der_at_universal [OF l(7)] der_at_reads(1) [OF l(5)] der_at_reads(1) [OF l(7)]
      der_at_issuer_serial [OF l(3) assms(3)] der_at_attributes [OF l(5) assms(2,3)]
    by (simp add: parse_signer_info_def is_seq_at_def p7_tags signer_matches_def Let_def)
qed

lemma parse_signer_entries_at:
  "list_all2 (\<lambda>el s. der_at data el 0x30 (signer_der s)) els signers \<Longrightarrow> \<forall>s \<in> set signers. signer_ok s \<Longrightarrow> length data < 256 ^ 8 \<Longrightarrow>
   \<exists>infos. parse_signer_entries data els out = Some (out @ infos) \<and> list_all2 signer_matches signers infos"
proof (induction els signers arbitrary: out rule: list_all2_induct)
  case (Cons el els s signers)
  obtain i where "parse_signer_info data el = Some i" "signer_matches s i" using der_at_signer Cons.hyps(1) Cons.prems by fastforce
  moreover obtain infos where "parse_signer_entries data els (out @ [i]) = Some ((out @ [i]) @ infos)" "list_all2 signer_matches signers infos"
    using Cons.IH [of "out @ [i]"] Cons.prems by auto
  ultimately show ?case using der_at_universal [OF Cons.hyps(1)] by (intro exI [of _ "i # infos"]) (simp add: p7_tags)
qed simp

lemma der_at_encap:
  assumes "der_at data el tag (encap_der g)" "signed_ok g" "length data < 256 ^ 8"
  shows "parse_encap_content data el = Some (oid_text (sg_type g), case sg_content g of None \<Rightarrow> [] | Some (_, c) \<Rightarrow> c)"
proof -
  obtain x y arcs where oid: "sg_type g = (x, y, arcs)" by (cases "sg_type g")
  let ?items = "(0x06, oid_content x y arcs) # (case sg_content g of None \<Rightarrow> [] | Some (t, c) \<Rightarrow> [(0xA0, der_tlv t c)])"
  have low: "\<forall>(t, c) \<in> set ?items. low_tag t" by (auto split: option.splits)
  have at: "der_at data el tag (der_items ?items)" using assms(1) by (simp add: encap_der_def oid)
  obtain els where els: "children data el = els" "list_all2 (\<lambda>el (tag, content). der_at data el tag content) els ?items"
    using der_at_children [OF at low assms(3)] by blast
  then obtain a rest where a: "els = a # rest" "der_at data a 0x06 (oid_content x y arcs)" by (auto simp: list_all2_Cons2)
  note first = els(1) a(1) der_at_universal [OF a(2)] der_at_oid_text [OF a(2)] oid_text_nonempty [of "sg_type g"] oid assms(2)
  show ?thesis
  proof (cases "sg_content g")
    case None
    with els a have "rest = []" by simp
    with None first show ?thesis by (simp add: parse_encap_content_def p7_tags signed_ok_def)
  next
    case (Some p)
    obtain t c where p: "p = (t, c)" by (cases p)
    from els a Some p obtain b where b: "rest = [b]" "der_at data b 0xA0 (der_tlv t c)" by (auto simp: list_all2_Cons2)
    have t: "t = 0x04 \<or> t = 0x30" using assms(2) Some p by (simp add: signed_ok_def)
    then have "low_tag t" by auto
    from der_at_unwrap [OF b(2) this assms(3)] obtain e where e: "unwrap_explicit data b = Some e" "der_at data e t c" .
    have "is_universal e TAG_OCTET_STRING \<or> is_universal e TAG_SEQUENCE" using t der_at_universal [OF e(2)] by (auto simp: p7_tags)
    with Some p b e(1) first der_at_context [OF b(2)] der_at_reads(1) [OF e(2)] show ?thesis
      by (simp add: parse_encap_content_def p7_tags signed_ok_def)
  qed
qed

lemma parse_certificates_at:
  "list_all2 (\<lambda>el c. der_at data el 0x30 (x509_content c)) els cs \<Longrightarrow> \<forall>c \<in> set cs. cert_fields_ok c \<Longrightarrow>
   \<exists>certs. parse_certificates data els out = Some (out @ certs) \<and> map Some certs = map (X509Parser_parse \<circ> x509_der) cs"
proof (induction els cs arbitrary: out rule: list_all2_induct)
  case (Cons el els c cs)
  obtain cert where cert: "X509Parser_parse (x509_der c) = Some cert" using x509_parse_der [of c] Cons.prems by auto
  moreover have "raw_bytes data el = x509_der c" using der_at_reads(2) [OF Cons.hyps(1)] by (simp add: x509_content_def x509_der_def)
  moreover obtain certs where "parse_certificates data els (out @ [cert]) = Some ((out @ [cert]) @ certs)"
    "map Some certs = map (X509Parser_parse \<circ> x509_der) cs"
    using Cons.IH [of "out @ [cert]"] Cons.prems by auto
  ultimately show ?case using der_at_universal [OF Cons.hyps(1)]
    by (intro exI [of _ "cert # certs"]) (simp add: p7_tags)
qed simp

text \<open>What the parser must return for the container.\<close>

definition signed_matches :: "signed_fields \<Rightarrow> SignedData \<Rightarrow> bool" where
  "signed_matches g sd \<longleftrightarrow> sd_content_type sd = oid_text (sg_type g) \<and>
     sd_content sd = (case sg_content g of None \<Rightarrow> [] | Some (_, c) \<Rightarrow> c) \<and>
     map Some (sd_certificates sd) = map (X509Parser_parse \<circ> x509_der) (case sg_certs g of None \<Rightarrow> [] | Some cs \<Rightarrow> cs) \<and>
     list_all2 signer_matches (sg_signers g) (sd_signer_infos sd)"

lemma parse_certificates_set_at:
  assumes "der_at data el tag (der_items (map (\<lambda>c. (0x30, x509_content c)) cs))" "\<forall>c \<in> set cs. cert_fields_ok c" "length data < 256 ^ 8"
  shows "\<exists>certs. parse_certificates_set data el = Some certs \<and> map Some certs = map (X509Parser_parse \<circ> x509_der) cs"
proof -
  obtain els where "children data el = els" "list_all2 (\<lambda>el c. der_at data el 0x30 (x509_content c)) els cs"
    using der_at_children_map [OF assms(1)] assms(3) by auto
  then show ?thesis using parse_certificates_at [of data els cs "[]"] assms(2) by (simp add: parse_certificates_set_def)
qed

lemma parse_signers_at:
  assumes "der_at data el tag (der_items (map (\<lambda>s. (0x30, signer_der s)) ss))" "\<forall>s \<in> set ss. signer_ok s" "ss \<noteq> []"
    "length data < 256 ^ 8"
  shows "children data el \<noteq> []" "\<exists>infos. parse_signer_entries data (children data el) [] = Some infos \<and> list_all2 signer_matches ss infos"
proof -
  obtain els where els: "children data el = els" "list_all2 (\<lambda>el s. der_at data el 0x30 (signer_der s)) els ss"
    using der_at_children_map [OF assms(1)] assms(4) by auto
  then show "children data el \<noteq> []" using assms(3) by auto
  show "\<exists>infos. parse_signer_entries data (children data el) [] = Some infos \<and> list_all2 signer_matches ss infos"
    using parse_signer_entries_at [OF els(2), of "[]"] els(1) assms(2,4) by simp
qed

lemma parse_signed_data_at:
  assumes at: "list_all2 (\<lambda>el (tag, content). der_at data el tag content) els (signed_items g)" and ok: "signed_ok g"
    and len: "length data < 256 ^ 8"
  shows "\<exists>sd. parse_signed_data data els = Some sd \<and> signed_matches g sd"
proof -
  let ?cs = "\<lambda>cs. der_items (map (\<lambda>c. (0x30, x509_content c)) cs)" and ?ss = "der_items (map (\<lambda>s. (0x30, signer_der s)) (sg_signers g))"
  obtain a b c rest where l: "els = a # b # c # rest" "der_at data a 0x02 (sg_version g)" "der_at data b 0x31 (sg_digest_algs g)"
    "der_at data c 0x30 (encap_der g)"
    and rest: "list_all2 (\<lambda>el (tag, content). der_at data el tag content) rest
      ((case sg_certs g of None \<Rightarrow> [] | Some cs \<Rightarrow> [(0xA0, ?cs cs)]) @ (case sg_crls g of None \<Rightarrow> [] | Some c \<Rightarrow> [(0xA1, c)]) @ [(0x31, ?ss)])"
    using at by (auto simp: signed_items_def list_all2_Cons2)
  have certs: "\<exists>certs. parse_certificates_set data el = Some certs \<and> map Some certs = map (X509Parser_parse \<circ> x509_der) cs"
    if "sg_certs g = Some cs" "der_at data el 0xA0 (?cs cs)" for el cs
    using parse_certificates_set_at [OF that(2)] ok that(1) len by (simp add: signed_ok_def)
  have signers: "children data el \<noteq> []" "\<exists>infos. parse_signer_entries data (children data el) [] = Some infos \<and> list_all2 signer_matches (sg_signers g) infos"
    if "der_at data el 0x31 ?ss" for el
    using parse_signers_at [OF that] ok len by (simp_all add: signed_ok_def)
  note head = l(1) der_at_universal [OF l(2)] der_at_universal [OF l(3)] der_at_universal [OF l(4)] der_at_encap [OF l(4) ok len]
  show ?thesis
  proof (cases "sg_certs g"; cases "sg_crls g")
    assume n: "sg_certs g = None" "sg_crls g = None"
    with rest obtain e where e: "rest = [e]" "der_at data e 0x31 ?ss" by (auto simp: list_all2_Cons2)
    with signers [OF e(2)] head n der_at_universal [OF e(2)] der_at_context [OF e(2)] show ?thesis
      by (auto simp: parse_signed_data_def is_seq_at_def p7_tags signed_matches_def)
  next
    fix crls assume n: "sg_certs g = None" "sg_crls g = Some crls"
    with rest obtain d e where e: "rest = [d, e]" "der_at data e 0x31 ?ss" "der_at data d 0xA1 crls" by (auto simp: list_all2_Cons2)
    with signers [OF e(2)] head n der_at_universal [OF e(2)] der_at_context [OF e(3)] show ?thesis
      by (auto simp: parse_signed_data_def is_seq_at_def p7_tags signed_matches_def)
  next
    fix cs assume n: "sg_certs g = Some cs" "sg_crls g = None"
    with rest obtain d e where e: "rest = [d, e]" "der_at data e 0x31 ?ss" "der_at data d 0xA0 (?cs cs)" by (auto simp: list_all2_Cons2)
    with signers [OF e(2)] certs [OF n(1) e(3)] head n der_at_universal [OF e(2)] der_at_context [OF e(3)] der_at_context [OF e(2)] show ?thesis
      by (auto simp: parse_signed_data_def is_seq_at_def p7_tags signed_matches_def)
  next
    fix cs crls assume n: "sg_certs g = Some cs" "sg_crls g = Some crls"
    with rest obtain d d' e where e: "rest = [d, d', e]" "der_at data e 0x31 ?ss" "der_at data d 0xA0 (?cs cs)" "der_at data d' 0xA1 crls"
      by (auto simp: list_all2_Cons2)
    with signers [OF e(2)] certs [OF n(1) e(3)] head n der_at_universal [OF e(2)] der_at_context [OF e(3)] der_at_context [OF e(4)] show ?thesis
      by (auto simp: parse_signed_data_def is_seq_at_def p7_tags signed_matches_def)
  qed
qed

lemma signed_items_low: "\<forall>(t, _) \<in> set (signed_items g). low_tag t"
  by (auto simp: signed_items_def split: option.splits)

lemma pkcs7_parse_der:
  assumes "signed_ok g"
  shows "\<exists>sd. Pkcs7Parser_parse (pkcs7_der g) = Some sd \<and> signed_matches g sd"
proof -
  let ?d = "pkcs7_der g" and ?sdt = "[840, 113549, 1, 7, 2]"
  let ?items = "[(0x06, oid_content 1 2 ?sdt), (0xA0, der_tlv 0x30 (der_items (signed_items g)))]"
  have len: "length ?d < 256 ^ 8" using assms by (simp add: signed_ok_def)
  obtain el where el: "parse_element ?d (length ?d) 0 = Some el" "der_at ?d el 0x30 (der_items ?items)"
    using der_at_whole [where tag = "0x30" and content = "der_items ?items"] len by (auto simp: pkcs7_der_def)
  obtain els where els: "children ?d el = els" "list_all2 (\<lambda>el (tag, content). der_at ?d el tag content) els ?items"
    using der_at_children [OF el(2)] len by auto
  then obtain a b where ab: "els = [a, b]" "der_at ?d a 0x06 (oid_content 1 2 ?sdt)" "der_at ?d b 0xA0 (der_tlv 0x30 (der_items (signed_items g)))"
    by (auto simp: list_all2_Cons2)
  obtain e where e: "unwrap_explicit ?d b = Some e" "der_at ?d e 0x30 (der_items (signed_items g))"
    using der_at_unwrap [OF ab(3) _ len] by auto
  obtain fs where fs: "children ?d e = fs" "list_all2 (\<lambda>el (tag, content). der_at ?d el tag content) fs (signed_items g)"
    using der_at_children [OF e(2) signed_items_low len] by blast
  have "dotted 1 2 ?sdt = kSignedDataOid"
    by (simp add: dotted_def to_string.simps digit_chars kSignedDataOid_def)
  then have oid: "oid_to_string ?d a = kSignedDataOid" using der_at_oid [OF ab(2)] by simp
  show ?thesis
    using parse_signed_data_at [OF fs(2) assms len] el(1) els(1) ab(1) e(1) fs(1) oid
      der_at_universal [OF el(2)] der_at_universal [OF ab(2)] der_at_context [OF ab(3)] der_at_universal [OF e(2)]
    by (simp add: Pkcs7Parser_parse_def p7_tags)
qed

section \<open>Accepted containers\<close>

definition signer_complete :: "SignerInfo \<Rightarrow> bool" where
  "signer_complete i \<longleftrightarrow> si_issuer_der i \<noteq> [] \<and> si_serial_number i \<noteq> [] \<and> si_digest_algorithm_oid i \<noteq> [] \<and>
     si_signature_algorithm_oid i \<noteq> [] \<and> si_signature i \<noteq> []"

lemma parse_issuer_and_serial_nonempty: "parse_issuer_and_serial data el = Some (a, b) \<Longrightarrow> a \<noteq> [] \<and> b \<noteq> []"
  by (auto simp: parse_issuer_and_serial_def Let_def)

lemma parse_signer_info_complete:
  assumes "parse_signer_info data el = Some i"
  shows "signer_complete i"
proof -
  define fields where "fields = children data el"
  show ?thesis
    using assms unfolding parse_signer_info_def fields_def [symmetric] Let_def signer_complete_def
    by (auto simp: bind_eq_Some_conv dest!: algorithm_oid_nonempty parse_issuer_and_serial_nonempty)
qed

lemma parse_signer_entries_complete:
  "parse_signer_entries data els out = Some infos \<Longrightarrow> (\<forall>i \<in> set out. signer_complete i) \<Longrightarrow>
   length infos = length out + length els \<and> (\<forall>i \<in> set infos. signer_complete i)"
  by (induction data els out rule: parse_signer_entries.induct)
    (auto split: if_splits option.splits dest: parse_signer_info_complete)

lemma parse_certificates_parsed:
  "parse_certificates data els out = Some certs \<Longrightarrow> (\<forall>c \<in> set out. X509Parser_parse (x509_raw c) = Some c) \<Longrightarrow>
   \<forall>c \<in> set certs. X509Parser_parse (x509_raw c) = Some c"
proof (induction data els out rule: parse_certificates.induct)
  case (2 data entry entries out)
  show ?case
  proof (cases "is_universal entry TAG_SEQUENCE")
    case True
    with 2 obtain cert where c: "X509Parser_parse (raw_bytes data entry) = Some cert" by (auto split: option.splits)
    then have "x509_raw cert = raw_bytes data entry" using x509_parse_required by blast
    with 2 True c show ?thesis by (auto split: option.splits)
  qed (use 2 in auto)
qed simp

lemma parse_signed_data_complete:
  assumes "parse_signed_data data fs = Some sd"
  shows "sd_signer_infos sd \<noteq> []" "\<forall>i \<in> set (sd_signer_infos sd). signer_complete i" "sd_content_type sd \<noteq> []"
    "\<forall>c \<in> set (sd_certificates sd). X509Parser_parse (x509_raw c) = Some c"
proof -
  obtain content certs idx idx' infos where p: "parse_encap_content data (fs ! 2) = Some content"
    "(if 3 < length fs \<and> is_context (fs ! 3) 0 then map_option (\<lambda>certs. (certs, 4)) (parse_certificates_set data (fs ! 3)) else Some ([], 3)) = Some (certs, idx :: nat)"
    "children data (fs ! idx') \<noteq> []" "parse_signer_entries data (children data (fs ! idx')) [] = Some infos"
    "sd = \<lparr>sd_content_type = fst content, sd_content = snd content, sd_certificates = certs, sd_signer_infos = infos\<rparr>"
    using assms unfolding parse_signed_data_def bind_eq_Some_conv Let_def by (fastforce simp: bind_eq_Some_conv split: prod.splits)
  show "sd_signer_infos sd \<noteq> []" "\<forall>i \<in> set (sd_signer_infos sd). signer_complete i"
    using parse_signer_entries_complete [OF p(4)] p(3,5) by auto
  show "sd_content_type sd \<noteq> []" using p(1,5)
    by (auto simp: parse_encap_content_def Let_def bind_eq_Some_conv split: if_splits)
  show "\<forall>c \<in> set (sd_certificates sd). X509Parser_parse (x509_raw c) = Some c"
    using p(2,5) parse_certificates_parsed [of data "children data (fs ! 3)" "[]" certs]
    by (auto simp: parse_certificates_set_def split: if_splits)
qed

section \<open>Properties\<close>

definition sample_signer :: signer_fields where
  "sample_signer = \<lparr>sf_version = [1], sf_issuer = [1], sf_serial = 5, sf_digest_oid = (2, 16, [840]), sf_digest_params = [(5, [])],
     sf_attrs = [((1, 2, [840]), 0x06, [42])], sf_sig_oid = (1, 2, [840]), sf_sig_params = [], sf_signature = [7, 8], sf_unsigned = None\<rparr>"

definition sample_signed :: signed_fields where
  "sample_signed = \<lparr>sg_version = [1], sg_digest_algs = [], sg_type = (1, 3, [6]), sg_content = Some (0x30, [4, 1, 9]),
     sg_certs = Some [], sg_crls = None, sg_signers = [sample_signer]\<rparr>"

lemma sample_signed_ok: "signed_ok sample_signed"
  by (simp add: signed_ok_def sample_signed_def sample_signer_def signer_ok_def oid_ok_def pkcs7_der_def signed_items_def
      encap_der_def signer_der_def attrs_der_def attr_der_def alg_der_def der_items_def der_tlv_def der_length_def oid_content_def
      b128_def b128_hi.simps be_bytes.simps der_uint_def)



text \<open>
  What every accepted container satisfies, whatever the input: there is a signer, every signer has
  issuer, serial number, algorithms and signature, every certificate is what the certificate parser makes
  of its own bytes, and the signer certificate found for a signer has its issuer and serial number.
\<close>

theorem pkcs7_accepted:
  assumes "Pkcs7Parser_parse der = Some sd"
  shows "sd_signer_infos sd \<noteq> [] \<and> sd_content_type sd \<noteq> [] \<and>
    (\<forall>i \<in> set (sd_signer_infos sd). si_issuer_der i \<noteq> [] \<and> si_serial_number i \<noteq> [] \<and> si_digest_algorithm_oid i \<noteq> [] \<and>
       si_signature_algorithm_oid i \<noteq> [] \<and> si_signature i \<noteq> [] \<and>
       (case find_signer_certificate sd i of None \<Rightarrow> \<forall>c \<in> set (sd_certificates sd). x509_issuer_der c = si_issuer_der i \<longrightarrow> x509_serial_number c \<noteq> si_serial_number i
        | Some c \<Rightarrow> c \<in> set (sd_certificates sd) \<and> x509_issuer_der c = si_issuer_der i \<and> x509_serial_number c = si_serial_number i)) \<and>
    (\<forall>c \<in> set (sd_certificates sd). X509Parser_parse (x509_raw c) = Some c)"
proof -
  obtain fs where "parse_signed_data der fs = Some sd" using assms by (auto simp: Pkcs7Parser_parse_def bind_eq_Some_conv Let_def)
  note complete = parse_signed_data_complete [OF this]
  have "case find_signer_certificate sd i of None \<Rightarrow> \<forall>c \<in> set (sd_certificates sd). x509_issuer_der c = si_issuer_der i \<longrightarrow> x509_serial_number c \<noteq> si_serial_number i
        | Some c \<Rightarrow> c \<in> set (sd_certificates sd) \<and> x509_issuer_der c = si_issuer_der i \<and> x509_serial_number c = si_serial_number i" for i
    by (auto simp: find_signer_certificate_def find_None_iff find_Some_iff split: option.split)
  with complete show ?thesis by (auto simp: signer_complete_def)
qed

theorem pkcs7_accepted_witness:
  "\<exists>sd. Pkcs7Parser_parse (pkcs7_der sample_signed) = Some sd \<and> sd_signer_infos sd \<noteq> []"
proof -
  obtain sd where "Pkcs7Parser_parse (pkcs7_der sample_signed) = Some sd" using pkcs7_parse_der [OF sample_signed_ok] by blast
  with pkcs7_accepted show ?thesis by blast
qed

text \<open>
  The re-encoded attribute set, over which the signer's signature is checked, is the DER encoding of a
  set with that content: it parses to one SET element covering it all, whose content is the input.
\<close>

theorem der_encode_set_is_der:
  assumes "length content < 2 ^ 64 - 16"
  shows "\<exists>el. parse_element (der_encode_set content) (length (der_encode_set content)) 0 = Some el \<and>
     is_universal el TAG_SET \<and> el_total_length el = length (der_encode_set content) \<and> el_content (der_encode_set content) el = content"
proof -
  have e: "der_encode_set content = der_tlv 0x31 content" by (rule der_encode_set_tlv) (use assms in simp)
  have "parse_element (der_tlv 0x31 content) (length (der_tlv 0x31 content)) 0 = Some (tlv_element 0x31 content 0)"
    using parse_element_der [of "0x31" content "[]" _ "[]"] assms by simp
  moreover have "is_universal (tlv_element 0x31 content 0) TAG_SET" by (simp add: tlv_element_def is_universal_def p7_tags)
  moreover have "el_total_length (tlv_element 0x31 content 0) = length (der_tlv 0x31 content)" by (simp add: tlv_element_def)
  moreover have "el_content (der_tlv 0x31 content) (tlv_element 0x31 content 0) = content" using el_content_tlv [of "[]" "0x31" content "[]"] by simp
  ultimately show ?thesis by (simp add: e)
qed

theorem der_encode_set_is_der_witness:
  "\<exists>el. parse_element (der_encode_set [5, 0]) (length (der_encode_set [5, 0])) 0 = Some el \<and> el_content (der_encode_set [5, 0]) el = [5, 0]"
  using der_encode_set_is_der [of "[5, 0]"] by auto

end
