(* ===== verification/Trust_Anchors.thy ===== *)
theory Trust_Anchors
  imports Pkcs7
begin

text \<open>
  \<^verbatim>\<open>security/trust_anchors.{hpp,cpp}\<close>: the compiled-in root certificates, byte for byte and row for row as in
  the source, and the lookup by subject. The lemmas recover the certificate fields behind the bytes of each
  root by showing that the bytes are the encoding of those fields, so that the parser lemma of \<open>X509\<close> applies
  and no root is lost when the list is built.
\<close>

section \<open>The compiled-in certificates\<close>

definition kDigiCertTrustedRootG4Der :: bytes where
  "kDigiCertTrustedRootG4Der = concat
    [[0x30, 0x82, 0x05, 0x90, 0x30, 0x82, 0x03, 0x78, 0xa0, 0x03, 0x02, 0x01],
     [0x02, 0x02, 0x10, 0x05, 0x9b, 0x1b, 0x57, 0x9e, 0x8e, 0x21, 0x32, 0xe2],
     [0x39, 0x07, 0xbd, 0xa7, 0x77, 0x75, 0x5c, 0x30, 0x0d, 0x06, 0x09, 0x2a],
     [0x86, 0x48, 0x86, 0xf7, 0x0d, 0x01, 0x01, 0x0c, 0x05, 0x00, 0x30, 0x62],
     [0x31, 0x0b, 0x30, 0x09, 0x06, 0x03, 0x55, 0x04, 0x06, 0x13, 0x02, 0x55],
     [0x53, 0x31, 0x15, 0x30, 0x13, 0x06, 0x03, 0x55, 0x04, 0x0a, 0x13, 0x0c],
     [0x44, 0x69, 0x67, 0x69, 0x43, 0x65, 0x72, 0x74, 0x20, 0x49, 0x6e, 0x63],
     [0x31, 0x19, 0x30, 0x17, 0x06, 0x03, 0x55, 0x04, 0x0b, 0x13, 0x10, 0x77],
     [0x77, 0x77, 0x2e, 0x64, 0x69, 0x67, 0x69, 0x63, 0x65, 0x72, 0x74, 0x2e],
     [0x63, 0x6f, 0x6d, 0x31, 0x21, 0x30, 0x1f, 0x06, 0x03, 0x55, 0x04, 0x03],
     [0x13, 0x18, 0x44, 0x69, 0x67, 0x69, 0x43, 0x65, 0x72, 0x74, 0x20, 0x54],
     [0x72, 0x75, 0x73, 0x74, 0x65, 0x64, 0x20, 0x52, 0x6f, 0x6f, 0x74, 0x20],
     [0x47, 0x34, 0x30, 0x1e, 0x17, 0x0d, 0x31, 0x33, 0x30, 0x38, 0x30, 0x31],
     [0x31, 0x32, 0x30, 0x30, 0x30, 0x30, 0x5a, 0x17, 0x0d, 0x33, 0x38, 0x30],
     [0x31, 0x31, 0x35, 0x31, 0x32, 0x30, 0x30, 0x30, 0x30, 0x5a, 0x30, 0x62],
     [0x31, 0x0b, 0x30, 0x09, 0x06, 0x03, 0x55, 0x04, 0x06, 0x13, 0x02, 0x55],
     [0x53, 0x31, 0x15, 0x30, 0x13, 0x06, 0x03, 0x55, 0x04, 0x0a, 0x13, 0x0c],
     [0x44, 0x69, 0x67, 0x69, 0x43, 0x65, 0x72, 0x74, 0x20, 0x49, 0x6e, 0x63],
     [0x31, 0x19, 0x30, 0x17, 0x06, 0x03, 0x55, 0x04, 0x0b, 0x13, 0x10, 0x77],
     [0x77, 0x77, 0x2e, 0x64, 0x69, 0x67, 0x69, 0x63, 0x65, 0x72, 0x74, 0x2e],
     [0x63, 0x6f, 0x6d, 0x31, 0x21, 0x30, 0x1f, 0x06, 0x03, 0x55, 0x04, 0x03],
     [0x13, 0x18, 0x44, 0x69, 0x67, 0x69, 0x43, 0x65, 0x72, 0x74, 0x20, 0x54],
     [0x72, 0x75, 0x73, 0x74, 0x65, 0x64, 0x20, 0x52, 0x6f, 0x6f, 0x74, 0x20],
     [0x47, 0x34, 0x30, 0x82, 0x02, 0x22, 0x30, 0x0d, 0x06, 0x09, 0x2a, 0x86],
     [0x48, 0x86, 0xf7, 0x0d, 0x01, 0x01, 0x01, 0x05, 0x00, 0x03, 0x82, 0x02],
     [0x0f, 0x00, 0x30, 0x82, 0x02, 0x0a, 0x02, 0x82, 0x02, 0x01, 0x00, 0xbf],
     [0xe6, 0x90, 0x73, 0x68, 0xde, 0xbb, 0xe4, 0x5d, 0x4a, 0x3c, 0x30, 0x22],
     [0x30, 0x69, 0x33, 0xec, 0xc2, 0xa7, 0x25, 0x2e, 0xc9, 0x21, 0x3d, 0xf2],
     [0x8a, 0xd8, 0x59, 0xc2, 0xe1, 0x29, 0xa7, 0x3d, 0x58, 0xab, 0x76, 0x9a],
     [0xcd, 0xae, 0x7b, 0x1b, 0x84, 0x0d, 0xc4, 0x30, 0x1f, 0xf3, 0x1b, 0xa4],
     [0x38, 0x16, 0xeb, 0x56, 0xc6, 0x97, 0x6d, 0x1d, 0xab, 0xb2, 0x79, 0xf2],
     [0xca, 0x11, 0xd2, 0xe4, 0x5f, 0xd6, 0x05, 0x3c, 0x52, 0x0f, 0x52, 0x1f],
     [0xc6, 0x9e, 0x15, 0xa5, 0x7e, 0xbe, 0x9f, 0xa9, 0x57, 0x16, 0x59, 0x55],
     [0x72, 0xaf, 0x68, 0x93, 0x70, 0xc2, 0xb2, 0xba, 0x75, 0x99, 0x6a, 0x73],
     [0x32, 0x94, 0xd1, 0x10, 0x44, 0x10, 0x2e, 0xdf, 0x82, 0xf3, 0x07, 0x84],
     [0xe6, 0x74, 0x3b, 0x6d, 0x71, 0xe2, 0x2d, 0x0c, 0x1b, 0xee, 0x20, 0xd5],
     [0xc9, 0x20, 0x1d, 0x63, 0x29, 0x2d, 0xce, 0xec, 0x5e, 0x4e, 0xc8, 0x93],
     [0xf8, 0x21, 0x61, 0x9b, 0x34, 0xeb, 0x05, 0xc6, 0x5e, 0xec, 0x5b, 0x1a],
     [0xbc, 0xeb, 0xc9, 0xcf, 0xcd, 0xac, 0x34, 0x40, 0x5f, 0xb1, 0x7a, 0x66],
     [0xee, 0x77, 0xc8, 0x48, 0xa8, 0x66, 0x57, 0x57, 0x9f, 0x54, 0x58, 0x8e],
     [0x0c, 0x2b, 0xb7, 0x4f, 0xa7, 0x30, 0xd9, 0x56, 0xee, 0xca, 0x7b, 0x5d],
     [0xe3, 0xad, 0xc9, 0x4f, 0x5e, 0xe5, 0x35, 0xe7, 0x31, 0xcb, 0xda, 0x93],
     [0x5e, 0xdc, 0x8e, 0x8f, 0x80, 0xda, 0xb6, 0x91, 0x98, 0x40, 0x90, 0x79],
     [0xc3, 0x78, 0xc7, 0xb6, 0xb1, 0xc4, 0xb5, 0x6a, 0x18, 0x38, 0x03, 0x10],
     [0x8d, 0xd8, 0xd4, 0x37, 0xa4, 0x2e, 0x05, 0x7d, 0x88, 0xf5, 0x82, 0x3e],
     [0x10, 0x91, 0x70, 0xab, 0x55, 0x82, 0x41, 0x32, 0xd7, 0xdb, 0x04, 0x73],
     [0x2a, 0x6e, 0x91, 0x01, 0x7c, 0x21, 0x4c, 0xd4, 0xbc, 0xae, 0x1b, 0x03],
     [0x75, 0x5d, 0x78, 0x66, 0xd9, 0x3a, 0x31, 0x44, 0x9a, 0x33, 0x40, 0xbf],
     [0x08, 0xd7, 0x5a, 0x49, 0xa4, 0xc2, 0xe6, 0xa9, 0xa0, 0x67, 0xdd, 0xa4],
     [0x27, 0xbc, 0xa1, 0x4f, 0x39, 0xb5, 0x11, 0x58, 0x17, 0xf7, 0x24, 0x5c],
     [0x46, 0x8f, 0x64, 0xf7, 0xc1, 0x69, 0x88, 0x76, 0x98, 0x76, 0x3d, 0x59],
     [0x5d, 0x42, 0x76, 0x87, 0x89, 0x97, 0x69, 0x7a, 0x48, 0xf0, 0xe0, 0xa2],
     [0x12, 0x1b, 0x66, 0x9a, 0x74, 0xca, 0xde, 0x4b, 0x1e, 0xe7, 0x0e, 0x63],
     [0xae, 0xe6, 0xd4, 0xef, 0x92, 0x92, 0x3a, 0x9e, 0x3d, 0xdc, 0x00, 0xe4],
     [0x45, 0x25, 0x89, 0xb6, 0x9a, 0x44, 0x19, 0x2b, 0x7e, 0xc0, 0x94, 0xb4],
     [0xd2, 0x61, 0x6d, 0xeb, 0x33, 0xd9, 0xc5, 0xdf, 0x4b, 0x04, 0x00, 0xcc],
     [0x7d, 0x1c, 0x95, 0xc3, 0x8f, 0xf7, 0x21, 0xb2, 0xb2, 0x11, 0xb7, 0xbb],
     [0x7f, 0xf2, 0xd5, 0x8c, 0x70, 0x2c, 0x41, 0x60, 0xaa, 0xb1, 0x63, 0x18],
     [0x44, 0x95, 0x1a, 0x76, 0x62, 0x7e, 0xf6, 0x80, 0xb0, 0xfb, 0xe8, 0x64],
     [0xa6, 0x33, 0xd1, 0x89, 0x07, 0xe1, 0xbd, 0xb7, 0xe6, 0x43, 0xa4, 0x18],
     [0xb8, 0xa6, 0x77, 0x01, 0xe1, 0x0f, 0x94, 0x0c, 0x21, 0x1d, 0xb2, 0x54],
     [0x29, 0x25, 0x89, 0x6c, 0xe5, 0x0e, 0x52, 0x51, 0x47, 0x74, 0xbe, 0x26],
     [0xac, 0xb6, 0x41, 0x75, 0xde, 0x7a, 0xac, 0x5f, 0x8d, 0x3f, 0xc9, 0xbc],
     [0xd3, 0x41, 0x11, 0x12, 0x5b, 0xe5, 0x10, 0x50, 0xeb, 0x31, 0xc5, 0xca],
     [0x72, 0x16, 0x22, 0x09, 0xdf, 0x7c, 0x4c, 0x75, 0x3f, 0x63, 0xec, 0x21],
     [0x5f, 0xc4, 0x20, 0x51, 0x6b, 0x6f, 0xb1, 0xab, 0x86, 0x8b, 0x4f, 0xc2],
     [0xd6, 0x45, 0x5f, 0x9d, 0x20, 0xfc, 0xa1, 0x1e, 0xc5, 0xc0, 0x8f, 0xa2],
     [0xb1, 0x7e, 0x0a, 0x26, 0x99, 0xf5, 0xe4, 0x69, 0x2f, 0x98, 0x1d, 0x2d],
     [0xf5, 0xd9, 0xa9, 0xb2, 0x1d, 0xe5, 0x1b, 0x02, 0x03, 0x01, 0x00, 0x01],
     [0xa3, 0x42, 0x30, 0x40, 0x30, 0x0f, 0x06, 0x03, 0x55, 0x1d, 0x13, 0x01],
     [0x01, 0xff, 0x04, 0x05, 0x30, 0x03, 0x01, 0x01, 0xff, 0x30, 0x0e, 0x06],
     [0x03, 0x55, 0x1d, 0x0f, 0x01, 0x01, 0xff, 0x04, 0x04, 0x03, 0x02, 0x01],
     [0x86, 0x30, 0x1d, 0x06, 0x03, 0x55, 0x1d, 0x0e, 0x04, 0x16, 0x04, 0x14],
     [0xec, 0xd7, 0xe3, 0x82, 0xd2, 0x71, 0x5d, 0x64, 0x4c, 0xdf, 0x2e, 0x67],
     [0x3f, 0xe7, 0xba, 0x98, 0xae, 0x1c, 0x0f, 0x4f, 0x30, 0x0d, 0x06, 0x09],
     [0x2a, 0x86, 0x48, 0x86, 0xf7, 0x0d, 0x01, 0x01, 0x0c, 0x05, 0x00, 0x03],
     [0x82, 0x02, 0x01, 0x00, 0xbb, 0x61, 0xd9, 0x7d, 0xa9, 0x6c, 0xbe, 0x17],
     [0xc4, 0x91, 0x1b, 0xc3, 0xa1, 0xa2, 0x00, 0x8d, 0xe3, 0x64, 0x68, 0x0f],
     [0x56, 0xcf, 0x77, 0xae, 0x70, 0xf9, 0xfd, 0x9a, 0x4a, 0x99, 0xb9, 0xc9],
     [0x78, 0x5c, 0x0c, 0x0c, 0x5f, 0xe4, 0xe6, 0x14, 0x29, 0x56, 0x0b, 0x36],
     [0x49, 0x5d, 0x44, 0x63, 0xe0, 0xad, 0x9c, 0x96, 0x18, 0x66, 0x1b, 0x23],
     [0x0d, 0x3d, 0x79, 0xe9, 0x6d, 0x6b, 0xd6, 0x54, 0xf8, 0xd2, 0x3c, 0xc1],
     [0x43, 0x40, 0xae, 0x1d, 0x50, 0xf5, 0x52, 0xfc, 0x90, 0x3b, 0xbb, 0x98],
     [0x99, 0x69, 0x6b, 0xc7, 0xc1, 0xa7, 0xa8, 0x68, 0xa4, 0x27, 0xdc, 0x9d],
     [0xf9, 0x27, 0xae, 0x30, 0x85, 0xb9, 0xf6, 0x67, 0x4d, 0x3a, 0x3e, 0x8f],
     [0x59, 0x39, 0x22, 0x53, 0x44, 0xeb, 0xc8, 0x5d, 0x03, 0xca, 0xed, 0x50],
     [0x7a, 0x7d, 0x62, 0x21, 0x0a, 0x80, 0xc8, 0x73, 0x66, 0xd1, 0xa0, 0x05],
     [0x60, 0x5f, 0xe8, 0xa5, 0xb4, 0xa7, 0xaf, 0xa8, 0xf7, 0x6d, 0x35, 0x9c],
     [0x7c, 0x5a, 0x8a, 0xd6, 0xa2, 0x38, 0x99, 0xf3, 0x78, 0x8b, 0xf4, 0x4d],
     [0xd2, 0x20, 0x0b, 0xde, 0x04, 0xee, 0x8c, 0x9b, 0x47, 0x81, 0x72, 0x0d],
     [0xc0, 0x14, 0x32, 0xef, 0x30, 0x59, 0x2e, 0xae, 0xe0, 0x71, 0xf2, 0x56],
     [0xe4, 0x6a, 0x97, 0x6f, 0x92, 0x50, 0x6d, 0x96, 0x8d, 0x68, 0x7a, 0x9a],
     [0xb2, 0x36, 0x14, 0x7a, 0x06, 0xf2, 0x24, 0xb9, 0x09, 0x11, 0x50, 0xd7],
     [0x08, 0xb1, 0xb8, 0x89, 0x7a, 0x84, 0x23, 0x61, 0x42, 0x29, 0xe5, 0xa3],
     [0xcd, 0xa2, 0x20, 0x41, 0xd7, 0xd1, 0x9c, 0x64, 0xd9, 0xea, 0x26, 0xa1],
     [0x8b, 0x14, 0xd7, 0x4c, 0x19, 0xb2, 0x50, 0x41, 0x71, 0x3d, 0x3f, 0x4d],
     [0x70, 0x23, 0x86, 0x0c, 0x4a, 0xdc, 0x81, 0xd2, 0xcc, 0x32, 0x94, 0x84],
     [0x0d, 0x08, 0x09, 0x97, 0x1c, 0x4f, 0xc0, 0xee, 0x6b, 0x20, 0x74, 0x30],
     [0xd2, 0xe0, 0x39, 0x34, 0x10, 0x85, 0x21, 0x15, 0x01, 0x08, 0xe8, 0x55],
     [0x32, 0xde, 0x71, 0x49, 0xd9, 0x28, 0x17, 0x50, 0x4d, 0xe6, 0xbe, 0x4d],
     [0xd1, 0x75, 0xac, 0xd0, 0xca, 0xfb, 0x41, 0xb8, 0x43, 0xa5, 0xaa, 0xd3],
     [0xc3, 0x05, 0x44, 0x4f, 0x2c, 0x36, 0x9b, 0xe2, 0xfa, 0xe2, 0x45, 0xb8],
     [0x23, 0x53, 0x6c, 0x06, 0x6f, 0x67, 0x55, 0x7f, 0x46, 0xb5, 0x4c, 0x3f],
     [0x6e, 0x28, 0x5a, 0x79, 0x26, 0xd2, 0xa4, 0xa8, 0x62, 0x97, 0xd2, 0x1e],
     [0xe2, 0xed, 0x4a, 0x8b, 0xbc, 0x1b, 0xfd, 0x47, 0x4a, 0x0d, 0xdf, 0x67],
     [0x66, 0x7e, 0xb2, 0x5b, 0x41, 0xd0, 0x3b, 0xe4, 0xf4, 0x3b, 0xf4, 0x04],
     [0x63, 0xe9, 0xef, 0xc2, 0x54, 0x00, 0x51, 0xa0, 0x8a, 0x2a, 0xc9, 0xce],
     [0x78, 0xcc, 0xd5, 0xea, 0x87, 0x04, 0x18, 0xb3, 0xce, 0xaf, 0x49, 0x88],
     [0xaf, 0xf3, 0x92, 0x99, 0xb6, 0xb3, 0xe6, 0x61, 0x0f, 0xd2, 0x85, 0x00],
     [0xe7, 0x50, 0x1a, 0xe4, 0x1b, 0x95, 0x9d, 0x19, 0xa1, 0xb9, 0x9c, 0xb1],
     [0x9b, 0xb1, 0x00, 0x1e, 0xef, 0xd0, 0x0f, 0x4f, 0x42, 0x6c, 0xc9, 0x0a],
     [0xbc, 0xee, 0x43, 0xfa, 0x3a, 0x71, 0xa5, 0xc8, 0x4d, 0x26, 0xa5, 0x35],
     [0xfd, 0x89, 0x5d, 0xbc, 0x85, 0x62, 0x1d, 0x32, 0xd2, 0xa0, 0x2b, 0x54],
     [0xed, 0x9a, 0x57, 0xc1, 0xdb, 0xfa, 0x10, 0xcf, 0x19, 0xb7, 0x8b, 0x4a],
     [0x1b, 0x8f, 0x01, 0xb6, 0x27, 0x95, 0x53, 0xe8, 0xb6, 0x89, 0x6d, 0x5b],
     [0xbc, 0x68, 0xd4, 0x23, 0xe8, 0x8b, 0x51, 0xa2, 0x56, 0xf9, 0xf0, 0xa6],
     [0x80, 0xa0, 0xd6, 0x1e, 0xb3, 0xbc, 0x0f, 0x0f, 0x53, 0x75, 0x29, 0xaa],
     [0xea, 0x13, 0x77, 0xe4, 0xde, 0x8c, 0x81, 0x21, 0xad, 0x07, 0x10, 0x47],
     [0x11, 0xad, 0x87, 0x3d, 0x07, 0xd1, 0x75, 0xbc, 0xcf, 0xf3, 0x66, 0x7e]]"

definition kDigiCertGlobalRootG2Der :: bytes where
  "kDigiCertGlobalRootG2Der = concat
    [[0x30, 0x82, 0x03, 0x8e, 0x30, 0x82, 0x02, 0x76, 0xa0, 0x03, 0x02, 0x01],
     [0x02, 0x02, 0x10, 0x03, 0x3a, 0xf1, 0xe6, 0xa7, 0x11, 0xa9, 0xa0, 0xbb],
     [0x28, 0x64, 0xb1, 0x1d, 0x09, 0xfa, 0xe5, 0x30, 0x0d, 0x06, 0x09, 0x2a],
     [0x86, 0x48, 0x86, 0xf7, 0x0d, 0x01, 0x01, 0x0b, 0x05, 0x00, 0x30, 0x61],
     [0x31, 0x0b, 0x30, 0x09, 0x06, 0x03, 0x55, 0x04, 0x06, 0x13, 0x02, 0x55],
     [0x53, 0x31, 0x15, 0x30, 0x13, 0x06, 0x03, 0x55, 0x04, 0x0a, 0x13, 0x0c],
     [0x44, 0x69, 0x67, 0x69, 0x43, 0x65, 0x72, 0x74, 0x20, 0x49, 0x6e, 0x63],
     [0x31, 0x19, 0x30, 0x17, 0x06, 0x03, 0x55, 0x04, 0x0b, 0x13, 0x10, 0x77],
     [0x77, 0x77, 0x2e, 0x64, 0x69, 0x67, 0x69, 0x63, 0x65, 0x72, 0x74, 0x2e],
     [0x63, 0x6f, 0x6d, 0x31, 0x20, 0x30, 0x1e, 0x06, 0x03, 0x55, 0x04, 0x03],
     [0x13, 0x17, 0x44, 0x69, 0x67, 0x69, 0x43, 0x65, 0x72, 0x74, 0x20, 0x47],
     [0x6c, 0x6f, 0x62, 0x61, 0x6c, 0x20, 0x52, 0x6f, 0x6f, 0x74, 0x20, 0x47],
     [0x32, 0x30, 0x1e, 0x17, 0x0d, 0x31, 0x33, 0x30, 0x38, 0x30, 0x31, 0x31],
     [0x32, 0x30, 0x30, 0x30, 0x30, 0x5a, 0x17, 0x0d, 0x33, 0x38, 0x30, 0x31],
     [0x31, 0x35, 0x31, 0x32, 0x30, 0x30, 0x30, 0x30, 0x5a, 0x30, 0x61, 0x31],
     [0x0b, 0x30, 0x09, 0x06, 0x03, 0x55, 0x04, 0x06, 0x13, 0x02, 0x55, 0x53],
     [0x31, 0x15, 0x30, 0x13, 0x06, 0x03, 0x55, 0x04, 0x0a, 0x13, 0x0c, 0x44],
     [0x69, 0x67, 0x69, 0x43, 0x65, 0x72, 0x74, 0x20, 0x49, 0x6e, 0x63, 0x31],
     [0x19, 0x30, 0x17, 0x06, 0x03, 0x55, 0x04, 0x0b, 0x13, 0x10, 0x77, 0x77],
     [0x77, 0x2e, 0x64, 0x69, 0x67, 0x69, 0x63, 0x65, 0x72, 0x74, 0x2e, 0x63],
     [0x6f, 0x6d, 0x31, 0x20, 0x30, 0x1e, 0x06, 0x03, 0x55, 0x04, 0x03, 0x13],
     [0x17, 0x44, 0x69, 0x67, 0x69, 0x43, 0x65, 0x72, 0x74, 0x20, 0x47, 0x6c],
     [0x6f, 0x62, 0x61, 0x6c, 0x20, 0x52, 0x6f, 0x6f, 0x74, 0x20, 0x47, 0x32],
     [0x30, 0x82, 0x01, 0x22, 0x30, 0x0d, 0x06, 0x09, 0x2a, 0x86, 0x48, 0x86],
     [0xf7, 0x0d, 0x01, 0x01, 0x01, 0x05, 0x00, 0x03, 0x82, 0x01, 0x0f, 0x00],
     [0x30, 0x82, 0x01, 0x0a, 0x02, 0x82, 0x01, 0x01, 0x00, 0xbb, 0x37, 0xcd],
     [0x34, 0xdc, 0x7b, 0x6b, 0xc9, 0xb2, 0x68, 0x90, 0xad, 0x4a, 0x75, 0xff],
     [0x46, 0xba, 0x21, 0x0a, 0x08, 0x8d, 0xf5, 0x19, 0x54, 0xc9, 0xfb, 0x88],
     [0xdb, 0xf3, 0xae, 0xf2, 0x3a, 0x89, 0x91, 0x3c, 0x7a, 0xe6, 0xab, 0x06],
     [0x1a, 0x6b, 0xcf, 0xac, 0x2d, 0xe8, 0x5e, 0x09, 0x24, 0x44, 0xba, 0x62],
     [0x9a, 0x7e, 0xd6, 0xa3, 0xa8, 0x7e, 0xe0, 0x54, 0x75, 0x20, 0x05, 0xac],
     [0x50, 0xb7, 0x9c, 0x63, 0x1a, 0x6c, 0x30, 0xdc, 0xda, 0x1f, 0x19, 0xb1],
     [0xd7, 0x1e, 0xde, 0xfd, 0xd7, 0xe0, 0xcb, 0x94, 0x83, 0x37, 0xae, 0xec],
     [0x1f, 0x43, 0x4e, 0xdd, 0x7b, 0x2c, 0xd2, 0xbd, 0x2e, 0xa5, 0x2f, 0xe4],
     [0xa9, 0xb8, 0xad, 0x3a, 0xd4, 0x99, 0xa4, 0xb6, 0x25, 0xe9, 0x9b, 0x6b],
     [0x00, 0x60, 0x92, 0x60, 0xff, 0x4f, 0x21, 0x49, 0x18, 0xf7, 0x67, 0x90],
     [0xab, 0x61, 0x06, 0x9c, 0x8f, 0xf2, 0xba, 0xe9, 0xb4, 0xe9, 0x92, 0x32],
     [0x6b, 0xb5, 0xf3, 0x57, 0xe8, 0x5d, 0x1b, 0xcd, 0x8c, 0x1d, 0xab, 0x95],
     [0x04, 0x95, 0x49, 0xf3, 0x35, 0x2d, 0x96, 0xe3, 0x49, 0x6d, 0xdd, 0x77],
     [0xe3, 0xfb, 0x49, 0x4b, 0xb4, 0xac, 0x55, 0x07, 0xa9, 0x8f, 0x95, 0xb3],
     [0xb4, 0x23, 0xbb, 0x4c, 0x6d, 0x45, 0xf0, 0xf6, 0xa9, 0xb2, 0x95, 0x30],
     [0xb4, 0xfd, 0x4c, 0x55, 0x8c, 0x27, 0x4a, 0x57, 0x14, 0x7c, 0x82, 0x9d],
     [0xcd, 0x73, 0x92, 0xd3, 0x16, 0x4a, 0x06, 0x0c, 0x8c, 0x50, 0xd1, 0x8f],
     [0x1e, 0x09, 0xbe, 0x17, 0xa1, 0xe6, 0x21, 0xca, 0xfd, 0x83, 0xe5, 0x10],
     [0xbc, 0x83, 0xa5, 0x0a, 0xc4, 0x67, 0x28, 0xf6, 0x73, 0x14, 0x14, 0x3d],
     [0x46, 0x76, 0xc3, 0x87, 0x14, 0x89, 0x21, 0x34, 0x4d, 0xaf, 0x0f, 0x45],
     [0x0c, 0xa6, 0x49, 0xa1, 0xba, 0xbb, 0x9c, 0xc5, 0xb1, 0x33, 0x83, 0x29],
     [0x85, 0x02, 0x03, 0x01, 0x00, 0x01, 0xa3, 0x42, 0x30, 0x40, 0x30, 0x0f],
     [0x06, 0x03, 0x55, 0x1d, 0x13, 0x01, 0x01, 0xff, 0x04, 0x05, 0x30, 0x03],
     [0x01, 0x01, 0xff, 0x30, 0x0e, 0x06, 0x03, 0x55, 0x1d, 0x0f, 0x01, 0x01],
     [0xff, 0x04, 0x04, 0x03, 0x02, 0x01, 0x86, 0x30, 0x1d, 0x06, 0x03, 0x55],
     [0x1d, 0x0e, 0x04, 0x16, 0x04, 0x14, 0x4e, 0x22, 0x54, 0x20, 0x18, 0x95],
     [0xe6, 0xe3, 0x6e, 0xe6, 0x0f, 0xfa, 0xfa, 0xb9, 0x12, 0xed, 0x06, 0x17],
     [0x8f, 0x39, 0x30, 0x0d, 0x06, 0x09, 0x2a, 0x86, 0x48, 0x86, 0xf7, 0x0d],
     [0x01, 0x01, 0x0b, 0x05, 0x00, 0x03, 0x82, 0x01, 0x01, 0x00, 0x60, 0x67],
     [0x28, 0x94, 0x6f, 0x0e, 0x48, 0x63, 0xeb, 0x31, 0xdd, 0xea, 0x67, 0x18],
     [0xd5, 0x89, 0x7d, 0x3c, 0xc5, 0x8b, 0x4a, 0x7f, 0xe9, 0xbe, 0xdb, 0x2b],
     [0x17, 0xdf, 0xb0, 0x5f, 0x73, 0x77, 0x2a, 0x32, 0x13, 0x39, 0x81, 0x67],
     [0x42, 0x84, 0x23, 0xf2, 0x45, 0x67, 0x35, 0xec, 0x88, 0xbf, 0xf8, 0x8f],
     [0xb0, 0x61, 0x0c, 0x34, 0xa4, 0xae, 0x20, 0x4c, 0x84, 0xc6, 0xdb, 0xf8],
     [0x35, 0xe1, 0x76, 0xd9, 0xdf, 0xa6, 0x42, 0xbb, 0xc7, 0x44, 0x08, 0x86],
     [0x7f, 0x36, 0x74, 0x24, 0x5a, 0xda, 0x6c, 0x0d, 0x14, 0x59, 0x35, 0xbd],
     [0xf2, 0x49, 0xdd, 0xb6, 0x1f, 0xc9, 0xb3, 0x0d, 0x47, 0x2a, 0x3d, 0x99],
     [0x2f, 0xbb, 0x5c, 0xbb, 0xb5, 0xd4, 0x20, 0xe1, 0x99, 0x5f, 0x53, 0x46],
     [0x15, 0xdb, 0x68, 0x9b, 0xf0, 0xf3, 0x30, 0xd5, 0x3e, 0x31, 0xe2, 0x8d],
     [0x84, 0x9e, 0xe3, 0x8a, 0xda, 0xda, 0x96, 0x3e, 0x35, 0x13, 0xa5, 0x5f],
     [0xf0, 0xf9, 0x70, 0x50, 0x70, 0x47, 0x41, 0x11, 0x57, 0x19, 0x4e, 0xc0],
     [0x8f, 0xae, 0x06, 0xc4, 0x95, 0x13, 0x17, 0x2f, 0x1b, 0x25, 0x9f, 0x75],
     [0xf2, 0xb1, 0x8e, 0x99, 0xa1, 0x6f, 0x13, 0xb1, 0x41, 0x71, 0xfe, 0x88],
     [0x2a, 0xc8, 0x4f, 0x10, 0x20, 0x55, 0xd7, 0xf3, 0x14, 0x45, 0xe5, 0xe0],
     [0x44, 0xf4, 0xea, 0x87, 0x95, 0x32, 0x93, 0x0e, 0xfe, 0x53, 0x46, 0xfa],
     [0x2c, 0x9d, 0xff, 0x8b, 0x22, 0xb9, 0x4b, 0xd9, 0x09, 0x45, 0xa4, 0xde],
     [0xa4, 0xb8, 0x9a, 0x58, 0xdd, 0x1b, 0x7d, 0x52, 0x9f, 0x8e, 0x59, 0x43],
     [0x88, 0x81, 0xa4, 0x9e, 0x26, 0xd5, 0x6f, 0xad, 0xdd, 0x0d, 0xc6, 0x37],
     [0x7d, 0xed, 0x03, 0x92, 0x1b, 0xe5, 0x77, 0x5f, 0x76, 0xee, 0x3c, 0x8d],
     [0xc4, 0x5d, 0x56, 0x5b, 0xa2, 0xd9, 0x66, 0x6e, 0xb3, 0x35, 0x37, 0xe5],
     [0x32, 0xb6]]"

definition kMicrosoftRoot2011Der :: bytes where
  "kMicrosoftRoot2011Der = concat
    [[0x30, 0x82, 0x05, 0xed, 0x30, 0x82, 0x03, 0xd5, 0xa0, 0x03, 0x02, 0x01],
     [0x02, 0x02, 0x10, 0x3f, 0x8b, 0xc8, 0xb5, 0xfc, 0x9f, 0xb2, 0x96, 0x43],
     [0xb5, 0x69, 0xd6, 0x6c, 0x42, 0xe1, 0x44, 0x30, 0x0d, 0x06, 0x09, 0x2a],
     [0x86, 0x48, 0x86, 0xf7, 0x0d, 0x01, 0x01, 0x0b, 0x05, 0x00, 0x30, 0x81],
     [0x88, 0x31, 0x0b, 0x30, 0x09, 0x06, 0x03, 0x55, 0x04, 0x06, 0x13, 0x02],
     [0x55, 0x53, 0x31, 0x13, 0x30, 0x11, 0x06, 0x03, 0x55, 0x04, 0x08, 0x13],
     [0x0a, 0x57, 0x61, 0x73, 0x68, 0x69, 0x6e, 0x67, 0x74, 0x6f, 0x6e, 0x31],
     [0x10, 0x30, 0x0e, 0x06, 0x03, 0x55, 0x04, 0x07, 0x13, 0x07, 0x52, 0x65],
     [0x64, 0x6d, 0x6f, 0x6e, 0x64, 0x31, 0x1e, 0x30, 0x1c, 0x06, 0x03, 0x55],
     [0x04, 0x0a, 0x13, 0x15, 0x4d, 0x69, 0x63, 0x72, 0x6f, 0x73, 0x6f, 0x66],
     [0x74, 0x20, 0x43, 0x6f, 0x72, 0x70, 0x6f, 0x72, 0x61, 0x74, 0x69, 0x6f],
     [0x6e, 0x31, 0x32, 0x30, 0x30, 0x06, 0x03, 0x55, 0x04, 0x03, 0x13, 0x29],
     [0x4d, 0x69, 0x63, 0x72, 0x6f, 0x73, 0x6f, 0x66, 0x74, 0x20, 0x52, 0x6f],
     [0x6f, 0x74, 0x20, 0x43, 0x65, 0x72, 0x74, 0x69, 0x66, 0x69, 0x63, 0x61],
     [0x74, 0x65, 0x20, 0x41, 0x75, 0x74, 0x68, 0x6f, 0x72, 0x69, 0x74, 0x79],
     [0x20, 0x32, 0x30, 0x31, 0x31, 0x30, 0x1e, 0x17, 0x0d, 0x31, 0x31, 0x30],
     [0x33, 0x32, 0x32, 0x32, 0x32, 0x30, 0x35, 0x32, 0x38, 0x5a, 0x17, 0x0d],
     [0x33, 0x36, 0x30, 0x33, 0x32, 0x32, 0x32, 0x32, 0x31, 0x33, 0x30, 0x34],
     [0x5a, 0x30, 0x81, 0x88, 0x31, 0x0b, 0x30, 0x09, 0x06, 0x03, 0x55, 0x04],
     [0x06, 0x13, 0x02, 0x55, 0x53, 0x31, 0x13, 0x30, 0x11, 0x06, 0x03, 0x55],
     [0x04, 0x08, 0x13, 0x0a, 0x57, 0x61, 0x73, 0x68, 0x69, 0x6e, 0x67, 0x74],
     [0x6f, 0x6e, 0x31, 0x10, 0x30, 0x0e, 0x06, 0x03, 0x55, 0x04, 0x07, 0x13],
     [0x07, 0x52, 0x65, 0x64, 0x6d, 0x6f, 0x6e, 0x64, 0x31, 0x1e, 0x30, 0x1c],
     [0x06, 0x03, 0x55, 0x04, 0x0a, 0x13, 0x15, 0x4d, 0x69, 0x63, 0x72, 0x6f],
     [0x73, 0x6f, 0x66, 0x74, 0x20, 0x43, 0x6f, 0x72, 0x70, 0x6f, 0x72, 0x61],
     [0x74, 0x69, 0x6f, 0x6e, 0x31, 0x32, 0x30, 0x30, 0x06, 0x03, 0x55, 0x04],
     [0x03, 0x13, 0x29, 0x4d, 0x69, 0x63, 0x72, 0x6f, 0x73, 0x6f, 0x66, 0x74],
     [0x20, 0x52, 0x6f, 0x6f, 0x74, 0x20, 0x43, 0x65, 0x72, 0x74, 0x69, 0x66],
     [0x69, 0x63, 0x61, 0x74, 0x65, 0x20, 0x41, 0x75, 0x74, 0x68, 0x6f, 0x72],
     [0x69, 0x74, 0x79, 0x20, 0x32, 0x30, 0x31, 0x31, 0x30, 0x82, 0x02, 0x22],
     [0x30, 0x0d, 0x06, 0x09, 0x2a, 0x86, 0x48, 0x86, 0xf7, 0x0d, 0x01, 0x01],
     [0x01, 0x05, 0x00, 0x03, 0x82, 0x02, 0x0f, 0x00, 0x30, 0x82, 0x02, 0x0a],
     [0x02, 0x82, 0x02, 0x01, 0x00, 0xb2, 0x80, 0x41, 0xaa, 0x35, 0x38, 0x4d],
     [0x13, 0x72, 0x32, 0x68, 0x22, 0x4d, 0xb8, 0xb2, 0xf1, 0xff, 0xd5, 0x52],
     [0xbc, 0x6c, 0xc7, 0xf5, 0xd2, 0x4a, 0x8c, 0x36, 0xee, 0xd1, 0xc2, 0x5c],
     [0x7e, 0x8c, 0x8a, 0xae, 0xaf, 0x13, 0x28, 0x6f, 0xc0, 0x73, 0xe3, 0x3a],
     [0xce, 0xd0, 0x25, 0xa8, 0x5a, 0x3a, 0x6d, 0xef, 0xa8, 0xb8, 0x59, 0xab],
     [0x13, 0x23, 0x68, 0xcd, 0x0c, 0x29, 0x87, 0xd1, 0x6f, 0x80, 0x5c, 0x8f],
     [0x44, 0x7f, 0x5d, 0x90, 0x01, 0x52, 0x58, 0xac, 0x51, 0xc5, 0x5f, 0x2a],
     [0x87, 0xdc, 0xdc, 0xd8, 0x0a, 0x1d, 0xc1, 0x03, 0xb9, 0x7b, 0xb0, 0x56],
     [0xe8, 0xa3, 0xde, 0x64, 0x61, 0xc2, 0x9e, 0xf8, 0xf3, 0x7c, 0xb9, 0xec],
     [0x0d, 0xb5, 0x54, 0xfe, 0x4c, 0xb6, 0x65, 0x4f, 0x88, 0xf0, 0x9c, 0x48],
     [0x99, 0x0c, 0x42, 0x0b, 0x09, 0x7c, 0x31, 0x59, 0x17, 0x79, 0x06, 0x78],
     [0x28, 0x8d, 0x89, 0x3a, 0x4c, 0x03, 0x25, 0xbe, 0x71, 0x6a, 0x5c, 0x0b],
     [0xe7, 0x84, 0x60, 0xa4, 0x99, 0x22, 0xe3, 0xd2, 0xaf, 0x84, 0xa4, 0xa7],
     [0xfb, 0xd1, 0x98, 0xed, 0x0c, 0xa9, 0xde, 0x94, 0x89, 0xe1, 0x0e, 0xa0],
     [0xdc, 0xc0, 0xce, 0x99, 0x3d, 0xea, 0x08, 0x52, 0xbb, 0x56, 0x79, 0xe4],
     [0x1f, 0x84, 0xba, 0x1e, 0xb8, 0xb4, 0xc4, 0x49, 0x5c, 0x4f, 0x31, 0x4b],
     [0x87, 0xdd, 0xdd, 0x05, 0x67, 0x26, 0x99, 0x80, 0xe0, 0x71, 0x11, 0xa3],
     [0xb8, 0xa5, 0x41, 0xe2, 0xa4, 0x53, 0xb9, 0xf7, 0x32, 0x29, 0x83, 0x0c],
     [0x13, 0xbf, 0x36, 0x5e, 0x04, 0xb3, 0x4b, 0x43, 0x47, 0x2f, 0x6b, 0xe2],
     [0x91, 0x1e, 0xd3, 0x98, 0x4f, 0xdd, 0x42, 0x07, 0xc8, 0xe8, 0x1d, 0x12],
     [0xfc, 0x99, 0xa9, 0x6b, 0x3e, 0x92, 0x7e, 0xc8, 0xd6, 0x69, 0x3a, 0xfc],
     [0x64, 0xbd, 0xb6, 0x09, 0x9d, 0xca, 0xfd, 0x0c, 0x0b, 0xa2, 0x9b, 0x77],
     [0x60, 0x4b, 0x03, 0x94, 0xa4, 0x30, 0x69, 0x12, 0xd6, 0x42, 0x2d, 0xc1],
     [0x41, 0x4c, 0xca, 0xdc, 0xaa, 0xfd, 0x8f, 0x5b, 0x83, 0x46, 0x9a, 0xd9],
     [0xfc, 0xb1, 0xd1, 0xe3, 0xb3, 0xc9, 0x7f, 0x48, 0x7a, 0xcd, 0x24, 0xf0],
     [0x41, 0x8f, 0x5c, 0x74, 0xd0, 0xac, 0xb0, 0x10, 0x20, 0x06, 0x49, 0xb7],
     [0xc7, 0x2d, 0x21, 0xc8, 0x57, 0xe3, 0xd0, 0x86, 0xf3, 0x03, 0x68, 0xfb],
     [0xd0, 0xce, 0x71, 0xc1, 0x89, 0x99, 0x4a, 0x64, 0x01, 0x6c, 0xfd, 0xec],
     [0x30, 0x91, 0xcf, 0x41, 0x3c, 0x92, 0xc7, 0xe5, 0xba, 0x86, 0x1d, 0x61],
     [0x84, 0xc7, 0x5f, 0x83, 0x39, 0x62, 0xae, 0xb4, 0x92, 0x2f, 0x47, 0xf3],
     [0x0b, 0xf8, 0x55, 0xeb, 0xa0, 0x1f, 0x59, 0xd0, 0xbb, 0x74, 0x9b, 0x1e],
     [0xd0, 0x76, 0xe6, 0xf2, 0xe9, 0x06, 0xd7, 0x10, 0xe8, 0xfa, 0x64, 0xde],
     [0x69, 0xc6, 0x35, 0x96, 0x88, 0x02, 0xf0, 0x46, 0xb8, 0x3f, 0x27, 0x99],
     [0x6f, 0xcb, 0x71, 0x89, 0x29, 0x35, 0xf7, 0x48, 0x16, 0x02, 0x35, 0x8f],
     [0xd5, 0x79, 0x7c, 0x4d, 0x02, 0xcf, 0x5f, 0xeb, 0x8a, 0x83, 0x4f, 0x45],
     [0x71, 0x88, 0xf9, 0xa9, 0x0d, 0x4e, 0x72, 0xe9, 0xc2, 0x9c, 0x07, 0xcf],
     [0x49, 0x1b, 0x4e, 0x04, 0x0e, 0x63, 0x51, 0x8c, 0x5e, 0xd8, 0x00, 0xc1],
     [0x55, 0x2c, 0xb6, 0xc6, 0xe0, 0xc2, 0x65, 0x4e, 0xc9, 0x34, 0x39, 0xf5],
     [0x9c, 0xb3, 0xc4, 0x7e, 0xe8, 0x61, 0x6e, 0x13, 0x5f, 0x15, 0xc4, 0x5f],
     [0xd9, 0x7e, 0xed, 0x1d, 0xce, 0xee, 0x44, 0xec, 0xcb, 0x2e, 0x86, 0xb1],
     [0xec, 0x38, 0xf6, 0x70, 0xed, 0xab, 0x5c, 0x13, 0xc1, 0xd9, 0x0f, 0x0d],
     [0xc7, 0x80, 0xb2, 0x55, 0xed, 0x34, 0xf7, 0xac, 0x9b, 0xe4, 0xc3, 0xda],
     [0xe7, 0x47, 0x3c, 0xa6, 0xb5, 0x8f, 0x31, 0xdf, 0xc5, 0x4b, 0xaf, 0xeb],
     [0xf1, 0x02, 0x03, 0x01, 0x00, 0x01, 0xa3, 0x51, 0x30, 0x4f, 0x30, 0x0b],
     [0x06, 0x03, 0x55, 0x1d, 0x0f, 0x04, 0x04, 0x03, 0x02, 0x01, 0x86, 0x30],
     [0x0f, 0x06, 0x03, 0x55, 0x1d, 0x13, 0x01, 0x01, 0xff, 0x04, 0x05, 0x30],
     [0x03, 0x01, 0x01, 0xff, 0x30, 0x1d, 0x06, 0x03, 0x55, 0x1d, 0x0e, 0x04],
     [0x16, 0x04, 0x14, 0x72, 0x2d, 0x3a, 0x02, 0x31, 0x90, 0x43, 0xb9, 0x14],
     [0x05, 0x4e, 0xe1, 0xea, 0xa7, 0xc7, 0x31, 0xd1, 0x23, 0x89, 0x34, 0x30],
     [0x10, 0x06, 0x09, 0x2b, 0x06, 0x01, 0x04, 0x01, 0x82, 0x37, 0x15, 0x01],
     [0x04, 0x03, 0x02, 0x01, 0x00, 0x30, 0x0d, 0x06, 0x09, 0x2a, 0x86, 0x48],
     [0x86, 0xf7, 0x0d, 0x01, 0x01, 0x0b, 0x05, 0x00, 0x03, 0x82, 0x02, 0x01],
     [0x00, 0x7f, 0x72, 0xcf, 0x0f, 0xb7, 0xc5, 0x15, 0xdb, 0x9b, 0xc0, 0x49],
     [0xca, 0x26, 0x5b, 0xfe, 0x9e, 0x13, 0xe6, 0xd3, 0xf0, 0xd2, 0xdb, 0x97],
     [0x5f, 0xf2, 0x4b, 0x3f, 0x4d, 0xb3, 0xae, 0x19, 0xae, 0xed, 0xd7, 0x97],
     [0xa0, 0xac, 0xef, 0xa9, 0x3a, 0xa3, 0xc2, 0x41, 0xb0, 0xe5, 0xb8, 0x91],
     [0x9e, 0x13, 0x81, 0x24, 0x03, 0xe6, 0x09, 0xfd, 0x3f, 0x57, 0x40, 0x39],
     [0x21, 0x24, 0x56, 0xd1, 0x10, 0x2f, 0x4b, 0x40, 0xa9, 0x36, 0x86, 0x4b],
     [0xb4, 0x53, 0x57, 0x9a, 0xfb, 0xf1, 0x7e, 0x89, 0x8f, 0x11, 0xfe, 0x18],
     [0x6c, 0x51, 0xaa, 0xe8, 0xed, 0x09, 0x95, 0xb5, 0xe5, 0x71, 0xc9, 0xa1],
     [0xe9, 0x87, 0x75, 0xa6, 0x15, 0x7f, 0xc9, 0x7e, 0x37, 0x54, 0x5e, 0x74],
     [0x93, 0xc5, 0xc3, 0x67, 0xcc, 0x0d, 0x4f, 0x6b, 0xa8, 0x17, 0x0c, 0x6d],
     [0x08, 0x92, 0x7e, 0x8b, 0xdd, 0x81, 0xaa, 0x2d, 0x70, 0x21, 0xc3, 0x3d],
     [0x06, 0x14, 0xbb, 0xbf, 0x24, 0x5e, 0xa7, 0x84, 0xd7, 0x3f, 0x0f, 0x21],
     [0x22, 0xbd, 0x4b, 0x00, 0x06, 0xdb, 0x97, 0x1c, 0xd8, 0x5e, 0xd4, 0xc5],
     [0x0b, 0x5c, 0x87, 0x6e, 0x50, 0xa4, 0xe8, 0xc3, 0x38, 0xa4, 0xfb, 0xcb],
     [0x2c, 0xc5, 0x92, 0x66, 0x9b, 0x85, 0x5e, 0xcb, 0x7a, 0x6c, 0x93, 0x7c],
     [0x80, 0x29, 0x58, 0x5b, 0x57, 0xb5, 0x40, 0x69, 0xba, 0x08, 0x79, 0xa6],
     [0x64, 0x62, 0x15, 0x9d, 0x87, 0x96, 0x45, 0xb5, 0x66, 0x23, 0x20, 0x03],
     [0x8b, 0x1c, 0x73, 0xa0, 0xd3, 0xa2, 0x79, 0x33, 0xe0, 0x50, 0x59, 0x86],
     [0xdb, 0x2f, 0xe5, 0x02, 0x25, 0xea, 0x73, 0x2a, 0x9f, 0x00, 0x14, 0xc8],
     [0x36, 0xc7, 0x92, 0x3b, 0xe9, 0x4e, 0x00, 0xec, 0xd8, 0x56, 0x09, 0xb9],
     [0x33, 0x49, 0x12, 0xd2, 0x54, 0x0b, 0x01, 0xab, 0xac, 0x47, 0xb6, 0x91],
     [0x29, 0x7d, 0x4c, 0xb4, 0x75, 0x80, 0x52, 0x01, 0xe8, 0xca, 0x82, 0xf6],
     [0x9f, 0xcc, 0xac, 0x9c, 0x8f, 0x17, 0xea, 0x2f, 0x26, 0xb0, 0xab, 0x72],
     [0xac, 0x0b, 0xfe, 0x9e, 0x51, 0x1e, 0xc7, 0x43, 0x55, 0x67, 0x4f, 0x51],
     [0xb3, 0x57, 0xd6, 0xb6, 0xec, 0xee, 0x52, 0xb7, 0x3a, 0xe9, 0x4e, 0xe1],
     [0xd7, 0x81, 0x88, 0xbc, 0x4f, 0x8e, 0x75, 0xbb, 0x4b, 0xa8, 0xf0, 0x35],
     [0xaa, 0x26, 0xd4, 0x67, 0x67, 0x49, 0xb2, 0x70, 0x4c, 0x3b, 0x93, 0xdc],
     [0x1d, 0xdf, 0x78, 0x90, 0x86, 0x72, 0xb2, 0x38, 0xa4, 0xd1, 0xdc, 0x92],
     [0x4d, 0xc9, 0x58, 0xeb, 0x2b, 0x12, 0x5c, 0xd4, 0x3b, 0xae, 0x8c, 0x6b],
     [0xb0, 0x83, 0xe5, 0x01, 0x3f, 0xf8, 0x09, 0x32, 0xf6, 0x93, 0x35, 0x34],
     [0x22, 0xaf, 0xdd, 0x37, 0x0d, 0x77, 0x09, 0x80, 0x2b, 0xcd, 0x48, 0x00],
     [0xf1, 0x8c, 0x99, 0x19, 0x47, 0x05, 0x01, 0xe9, 0xd1, 0xbf, 0xd1, 0x4e],
     [0xd0, 0xe6, 0x28, 0x43, 0x37, 0x99, 0xa4, 0x0a, 0x4a, 0x08, 0xd9, 0x9a],
     [0x71, 0x73, 0xd2, 0xaa, 0xcd, 0x31, 0x13, 0x63, 0x76, 0xa1, 0x37, 0x6f],
     [0x92, 0x38, 0x1e, 0x7d, 0x12, 0x3c, 0x66, 0x32, 0xe7, 0xcb, 0x6d, 0xe1],
     [0xfc, 0x52, 0x89, 0xdd, 0xca, 0xd6, 0x66, 0x05, 0x9a, 0x96, 0x61, 0xbe],
     [0xa2, 0x28, 0xc7, 0x1c, 0xa3, 0xa7, 0x36, 0x50, 0x3c, 0x3a, 0xa4, 0xdf],
     [0x4a, 0x6e, 0xe6, 0x87, 0x3b, 0xce, 0xeb, 0xf0, 0xe0, 0x81, 0x37, 0x9d],
     [0x13, 0x3c, 0x52, 0x8e, 0xbd, 0xb9, 0x1d, 0x34, 0xc6, 0x1d, 0xd5, 0x0a],
     [0x6a, 0x3d, 0x98, 0x29, 0x70, 0x8c, 0x89, 0x2a, 0xd1, 0xab, 0x82, 0x10],
     [0x48, 0x1f, 0xdc, 0xf4, 0xef, 0xa5, 0xc5, 0xbb, 0x55, 0x1a, 0x38, 0x63],
     [0x84, 0x4e, 0xb7, 0x6c, 0xad, 0x95, 0x54, 0xec, 0x65, 0x22, 0x10, 0x49],
     [0x17, 0xb8, 0xc0, 0x1e, 0xc7, 0x0f, 0xac, 0x54, 0x47]]"

definition kUserTrustRsaRootDer :: bytes where
  "kUserTrustRsaRootDer = concat
    [[0x30, 0x82, 0x05, 0xde, 0x30, 0x82, 0x03, 0xc6, 0xa0, 0x03, 0x02, 0x01],
     [0x02, 0x02, 0x10, 0x01, 0xfd, 0x6d, 0x30, 0xfc, 0xa3, 0xca, 0x51, 0xa8],
     [0x1b, 0xbc, 0x64, 0x0e, 0x35, 0x03, 0x2d, 0x30, 0x0d, 0x06, 0x09, 0x2a],
     [0x86, 0x48, 0x86, 0xf7, 0x0d, 0x01, 0x01, 0x0c, 0x05, 0x00, 0x30, 0x81],
     [0x88, 0x31, 0x0b, 0x30, 0x09, 0x06, 0x03, 0x55, 0x04, 0x06, 0x13, 0x02],
     [0x55, 0x53, 0x31, 0x13, 0x30, 0x11, 0x06, 0x03, 0x55, 0x04, 0x08, 0x13],
     [0x0a, 0x4e, 0x65, 0x77, 0x20, 0x4a, 0x65, 0x72, 0x73, 0x65, 0x79, 0x31],
     [0x14, 0x30, 0x12, 0x06, 0x03, 0x55, 0x04, 0x07, 0x13, 0x0b, 0x4a, 0x65],
     [0x72, 0x73, 0x65, 0x79, 0x20, 0x43, 0x69, 0x74, 0x79, 0x31, 0x1e, 0x30],
     [0x1c, 0x06, 0x03, 0x55, 0x04, 0x0a, 0x13, 0x15, 0x54, 0x68, 0x65, 0x20],
     [0x55, 0x53, 0x45, 0x52, 0x54, 0x52, 0x55, 0x53, 0x54, 0x20, 0x4e, 0x65],
     [0x74, 0x77, 0x6f, 0x72, 0x6b, 0x31, 0x2e, 0x30, 0x2c, 0x06, 0x03, 0x55],
     [0x04, 0x03, 0x13, 0x25, 0x55, 0x53, 0x45, 0x52, 0x54, 0x72, 0x75, 0x73],
     [0x74, 0x20, 0x52, 0x53, 0x41, 0x20, 0x43, 0x65, 0x72, 0x74, 0x69, 0x66],
     [0x69, 0x63, 0x61, 0x74, 0x69, 0x6f, 0x6e, 0x20, 0x41, 0x75, 0x74, 0x68],
     [0x6f, 0x72, 0x69, 0x74, 0x79, 0x30, 0x1e, 0x17, 0x0d, 0x31, 0x30, 0x30],
     [0x32, 0x30, 0x31, 0x30, 0x30, 0x30, 0x30, 0x30, 0x30, 0x5a, 0x17, 0x0d],
     [0x33, 0x38, 0x30, 0x31, 0x31, 0x38, 0x32, 0x33, 0x35, 0x39, 0x35, 0x39],
     [0x5a, 0x30, 0x81, 0x88, 0x31, 0x0b, 0x30, 0x09, 0x06, 0x03, 0x55, 0x04],
     [0x06, 0x13, 0x02, 0x55, 0x53, 0x31, 0x13, 0x30, 0x11, 0x06, 0x03, 0x55],
     [0x04, 0x08, 0x13, 0x0a, 0x4e, 0x65, 0x77, 0x20, 0x4a, 0x65, 0x72, 0x73],
     [0x65, 0x79, 0x31, 0x14, 0x30, 0x12, 0x06, 0x03, 0x55, 0x04, 0x07, 0x13],
     [0x0b, 0x4a, 0x65, 0x72, 0x73, 0x65, 0x79, 0x20, 0x43, 0x69, 0x74, 0x79],
     [0x31, 0x1e, 0x30, 0x1c, 0x06, 0x03, 0x55, 0x04, 0x0a, 0x13, 0x15, 0x54],
     [0x68, 0x65, 0x20, 0x55, 0x53, 0x45, 0x52, 0x54, 0x52, 0x55, 0x53, 0x54],
     [0x20, 0x4e, 0x65, 0x74, 0x77, 0x6f, 0x72, 0x6b, 0x31, 0x2e, 0x30, 0x2c],
     [0x06, 0x03, 0x55, 0x04, 0x03, 0x13, 0x25, 0x55, 0x53, 0x45, 0x52, 0x54],
     [0x72, 0x75, 0x73, 0x74, 0x20, 0x52, 0x53, 0x41, 0x20, 0x43, 0x65, 0x72],
     [0x74, 0x69, 0x66, 0x69, 0x63, 0x61, 0x74, 0x69, 0x6f, 0x6e, 0x20, 0x41],
     [0x75, 0x74, 0x68, 0x6f, 0x72, 0x69, 0x74, 0x79, 0x30, 0x82, 0x02, 0x22],
     [0x30, 0x0d, 0x06, 0x09, 0x2a, 0x86, 0x48, 0x86, 0xf7, 0x0d, 0x01, 0x01],
     [0x01, 0x05, 0x00, 0x03, 0x82, 0x02, 0x0f, 0x00, 0x30, 0x82, 0x02, 0x0a],
     [0x02, 0x82, 0x02, 0x01, 0x00, 0x80, 0x12, 0x65, 0x17, 0x36, 0x0e, 0xc3],
     [0xdb, 0x08, 0xb3, 0xd0, 0xac, 0x57, 0x0d, 0x76, 0xed, 0xcd, 0x27, 0xd3],
     [0x4c, 0xad, 0x50, 0x83, 0x61, 0xe2, 0xaa, 0x20, 0x4d, 0x09, 0x2d, 0x64],
     [0x09, 0xdc, 0xce, 0x89, 0x9f, 0xcc, 0x3d, 0xa9, 0xec, 0xf6, 0xcf, 0xc1],
     [0xdc, 0xf1, 0xd3, 0xb1, 0xd6, 0x7b, 0x37, 0x28, 0x11, 0x2b, 0x47, 0xda],
     [0x39, 0xc6, 0xbc, 0x3a, 0x19, 0xb4, 0x5f, 0xa6, 0xbd, 0x7d, 0x9d, 0xa3],
     [0x63, 0x42, 0xb6, 0x76, 0xf2, 0xa9, 0x3b, 0x2b, 0x91, 0xf8, 0xe2, 0x6f],
     [0xd0, 0xec, 0x16, 0x20, 0x90, 0x09, 0x3e, 0xe2, 0xe8, 0x74, 0xc9, 0x18],
     [0xb4, 0x91, 0xd4, 0x62, 0x64, 0xdb, 0x7f, 0xa3, 0x06, 0xf1, 0x88, 0x18],
     [0x6a, 0x90, 0x22, 0x3c, 0xbc, 0xfe, 0x13, 0xf0, 0x87, 0x14, 0x7b, 0xf6],
     [0xe4, 0x1f, 0x8e, 0xd4, 0xe4, 0x51, 0xc6, 0x11, 0x67, 0x46, 0x08, 0x51],
     [0xcb, 0x86, 0x14, 0x54, 0x3f, 0xbc, 0x33, 0xfe, 0x7e, 0x6c, 0x9c, 0xff],
     [0x16, 0x9d, 0x18, 0xbd, 0x51, 0x8e, 0x35, 0xa6, 0xa7, 0x66, 0xc8, 0x72],
     [0x67, 0xdb, 0x21, 0x66, 0xb1, 0xd4, 0x9b, 0x78, 0x03, 0xc0, 0x50, 0x3a],
     [0xe8, 0xcc, 0xf0, 0xdc, 0xbc, 0x9e, 0x4c, 0xfe, 0xaf, 0x05, 0x96, 0x35],
     [0x1f, 0x57, 0x5a, 0xb7, 0xff, 0xce, 0xf9, 0x3d, 0xb7, 0x2c, 0xb6, 0xf6],
     [0x54, 0xdd, 0xc8, 0xe7, 0x12, 0x3a, 0x4d, 0xae, 0x4c, 0x8a, 0xb7, 0x5c],
     [0x9a, 0xb4, 0xb7, 0x20, 0x3d, 0xca, 0x7f, 0x22, 0x34, 0xae, 0x7e, 0x3b],
     [0x68, 0x66, 0x01, 0x44, 0xe7, 0x01, 0x4e, 0x46, 0x53, 0x9b, 0x33, 0x60],
     [0xf7, 0x94, 0xbe, 0x53, 0x37, 0x90, 0x73, 0x43, 0xf3, 0x32, 0xc3, 0x53],
     [0xef, 0xdb, 0xaa, 0xfe, 0x74, 0x4e, 0x69, 0xc7, 0x6b, 0x8c, 0x60, 0x93],
     [0xde, 0xc4, 0xc7, 0x0c, 0xdf, 0xe1, 0x32, 0xae, 0xcc, 0x93, 0x3b, 0x51],
     [0x78, 0x95, 0x67, 0x8b, 0xee, 0x3d, 0x56, 0xfe, 0x0c, 0xd0, 0x69, 0x0f],
     [0x1b, 0x0f, 0xf3, 0x25, 0x26, 0x6b, 0x33, 0x6d, 0xf7, 0x6e, 0x47, 0xfa],
     [0x73, 0x43, 0xe5, 0x7e, 0x0e, 0xa5, 0x66, 0xb1, 0x29, 0x7c, 0x32, 0x84],
     [0x63, 0x55, 0x89, 0xc4, 0x0d, 0xc1, 0x93, 0x54, 0x30, 0x19, 0x13, 0xac],
     [0xd3, 0x7d, 0x37, 0xa7, 0xeb, 0x5d, 0x3a, 0x6c, 0x35, 0x5c, 0xdb, 0x41],
     [0xd7, 0x12, 0xda, 0xa9, 0x49, 0x0b, 0xdf, 0xd8, 0x80, 0x8a, 0x09, 0x93],
     [0x62, 0x8e, 0xb5, 0x66, 0xcf, 0x25, 0x88, 0xcd, 0x84, 0xb8, 0xb1, 0x3f],
     [0xa4, 0x39, 0x0f, 0xd9, 0x02, 0x9e, 0xeb, 0x12, 0x4c, 0x95, 0x7c, 0xf3],
     [0x6b, 0x05, 0xa9, 0x5e, 0x16, 0x83, 0xcc, 0xb8, 0x67, 0xe2, 0xe8, 0x13],
     [0x9d, 0xcc, 0x5b, 0x82, 0xd3, 0x4c, 0xb3, 0xed, 0x5b, 0xff, 0xde, 0xe5],
     [0x73, 0xac, 0x23, 0x3b, 0x2d, 0x00, 0xbf, 0x35, 0x55, 0x74, 0x09, 0x49],
     [0xd8, 0x49, 0x58, 0x1a, 0x7f, 0x92, 0x36, 0xe6, 0x51, 0x92, 0x0e, 0xf3],
     [0x26, 0x7d, 0x1c, 0x4d, 0x17, 0xbc, 0xc9, 0xec, 0x43, 0x26, 0xd0, 0xbf],
     [0x41, 0x5f, 0x40, 0xa9, 0x44, 0x44, 0xf4, 0x99, 0xe7, 0x57, 0x87, 0x9e],
     [0x50, 0x1f, 0x57, 0x54, 0xa8, 0x3e, 0xfd, 0x74, 0x63, 0x2f, 0xb1, 0x50],
     [0x65, 0x09, 0xe6, 0x58, 0x42, 0x2e, 0x43, 0x1a, 0x4c, 0xb4, 0xf0, 0x25],
     [0x47, 0x59, 0xfa, 0x04, 0x1e, 0x93, 0xd4, 0x26, 0x46, 0x4a, 0x50, 0x81],
     [0xb2, 0xde, 0xbe, 0x78, 0xb7, 0xfc, 0x67, 0x15, 0xe1, 0xc9, 0x57, 0x84],
     [0x1e, 0x0f, 0x63, 0xd6, 0xe9, 0x62, 0xba, 0xd6, 0x5f, 0x55, 0x2e, 0xea],
     [0x5c, 0xc6, 0x28, 0x08, 0x04, 0x25, 0x39, 0xb8, 0x0e, 0x2b, 0xa9, 0xf2],
     [0x4c, 0x97, 0x1c, 0x07, 0x3f, 0x0d, 0x52, 0xf5, 0xed, 0xef, 0x2f, 0x82],
     [0x0f, 0x02, 0x03, 0x01, 0x00, 0x01, 0xa3, 0x42, 0x30, 0x40, 0x30, 0x1d],
     [0x06, 0x03, 0x55, 0x1d, 0x0e, 0x04, 0x16, 0x04, 0x14, 0x53, 0x79, 0xbf],
     [0x5a, 0xaa, 0x2b, 0x4a, 0xcf, 0x54, 0x80, 0xe1, 0xd8, 0x9b, 0xc0, 0x9d],
     [0xf2, 0xb2, 0x03, 0x66, 0xcb, 0x30, 0x0e, 0x06, 0x03, 0x55, 0x1d, 0x0f],
     [0x01, 0x01, 0xff, 0x04, 0x04, 0x03, 0x02, 0x01, 0x06, 0x30, 0x0f, 0x06],
     [0x03, 0x55, 0x1d, 0x13, 0x01, 0x01, 0xff, 0x04, 0x05, 0x30, 0x03, 0x01],
     [0x01, 0xff, 0x30, 0x0d, 0x06, 0x09, 0x2a, 0x86, 0x48, 0x86, 0xf7, 0x0d],
     [0x01, 0x01, 0x0c, 0x05, 0x00, 0x03, 0x82, 0x02, 0x01, 0x00, 0x5c, 0xd4],
     [0x7c, 0x0d, 0xcf, 0xf7, 0x01, 0x7d, 0x41, 0x99, 0x65, 0x0c, 0x73, 0xc5],
     [0x52, 0x9f, 0xcb, 0xf8, 0xcf, 0x99, 0x06, 0x7f, 0x1b, 0xda, 0x43, 0x15],
     [0x9f, 0x9e, 0x02, 0x55, 0x57, 0x96, 0x14, 0xf1, 0x52, 0x3c, 0x27, 0x87],
     [0x94, 0x28, 0xed, 0x1f, 0x3a, 0x01, 0x37, 0xa2, 0x76, 0xfc, 0x53, 0x50],
     [0xc0, 0x84, 0x9b, 0xc6, 0x6b, 0x4e, 0xba, 0x8c, 0x21, 0x4f, 0xa2, 0x8e],
     [0x55, 0x62, 0x91, 0xf3, 0x69, 0x15, 0xd8, 0xbc, 0x88, 0xe3, 0xc4, 0xaa],
     [0x0b, 0xfd, 0xef, 0xa8, 0xe9, 0x4b, 0x55, 0x2a, 0x06, 0x20, 0x6d, 0x55],
     [0x78, 0x29, 0x19, 0xee, 0x5f, 0x30, 0x5c, 0x4b, 0x24, 0x11, 0x55, 0xff],
     [0x24, 0x9a, 0x6e, 0x5e, 0x2a, 0x2b, 0xee, 0x0b, 0x4d, 0x9f, 0x7f, 0xf7],
     [0x01, 0x38, 0x94, 0x14, 0x95, 0x43, 0x07, 0x09, 0xfb, 0x60, 0xa9, 0xee],
     [0x1c, 0xab, 0x12, 0x8c, 0xa0, 0x9a, 0x5e, 0xa7, 0x98, 0x6a, 0x59, 0x6d],
     [0x8b, 0x3f, 0x08, 0xfb, 0xc8, 0xd1, 0x45, 0xaf, 0x18, 0x15, 0x64, 0x90],
     [0x12, 0x0f, 0x73, 0x28, 0x2e, 0xc5, 0xe2, 0x24, 0x4e, 0xfc, 0x58, 0xec],
     [0xf0, 0xf4, 0x45, 0xfe, 0x22, 0xb3, 0xeb, 0x2f, 0x8e, 0xd2, 0xd9, 0x45],
     [0x61, 0x05, 0xc1, 0x97, 0x6f, 0xa8, 0x76, 0x72, 0x8f, 0x8b, 0x8c, 0x36],
     [0xaf, 0xbf, 0x0d, 0x05, 0xce, 0x71, 0x8d, 0xe6, 0xa6, 0x6f, 0x1f, 0x6c],
     [0xa6, 0x71, 0x62, 0xc5, 0xd8, 0xd0, 0x83, 0x72, 0x0c, 0xf1, 0x67, 0x11],
     [0x89, 0x0c, 0x9c, 0x13, 0x4c, 0x72, 0x34, 0xdf, 0xbc, 0xd5, 0x71, 0xdf],
     [0xaa, 0x71, 0xdd, 0xe1, 0xb9, 0x6c, 0x8c, 0x3c, 0x12, 0x5d, 0x65, 0xda],
     [0xbd, 0x57, 0x12, 0xb6, 0x43, 0x6b, 0xff, 0xe5, 0xde, 0x4d, 0x66, 0x11],
     [0x51, 0xcf, 0x99, 0xae, 0xec, 0x17, 0xb6, 0xe8, 0x71, 0x91, 0x8c, 0xde],
     [0x49, 0xfe, 0xdd, 0x35, 0x71, 0xa2, 0x15, 0x27, 0x94, 0x1c, 0xcf, 0x61],
     [0xe3, 0x26, 0xbb, 0x6f, 0xa3, 0x67, 0x25, 0x21, 0x5d, 0xe6, 0xdd, 0x1d],
     [0x0b, 0x2e, 0x68, 0x1b, 0x3b, 0x82, 0xaf, 0xec, 0x83, 0x67, 0x85, 0xd4],
     [0x98, 0x51, 0x74, 0xb1, 0xb9, 0x99, 0x80, 0x89, 0xff, 0x7f, 0x78, 0x19],
     [0x5c, 0x79, 0x4a, 0x60, 0x2e, 0x92, 0x40, 0xae, 0x4c, 0x37, 0x2a, 0x2c],
     [0xc9, 0xc7, 0x62, 0xc8, 0x0e, 0x5d, 0xf7, 0x36, 0x5b, 0xca, 0xe0, 0x25],
     [0x25, 0x01, 0xb4, 0xdd, 0x1a, 0x07, 0x9c, 0x77, 0x00, 0x3f, 0xd0, 0xdc],
     [0xd5, 0xec, 0x3d, 0xd4, 0xfa, 0xbb, 0x3f, 0xcc, 0x85, 0xd6, 0x6f, 0x7f],
     [0xa9, 0x2d, 0xdf, 0xb9, 0x02, 0xf7, 0xf5, 0x97, 0x9a, 0xb5, 0x35, 0xda],
     [0xc3, 0x67, 0xb0, 0x87, 0x4a, 0xa9, 0x28, 0x9e, 0x23, 0x8e, 0xff, 0x5c],
     [0x27, 0x6b, 0xe1, 0xb0, 0x4f, 0xf3, 0x07, 0xee, 0x00, 0x2e, 0xd4, 0x59],
     [0x87, 0xcb, 0x52, 0x41, 0x95, 0xea, 0xf4, 0x47, 0xd7, 0xee, 0x64, 0x41],
     [0x55, 0x7c, 0x8d, 0x59, 0x02, 0x95, 0xdd, 0x62, 0x9d, 0xc2, 0xb9, 0xee],
     [0x5a, 0x28, 0x74, 0x84, 0xa5, 0x9b, 0xb7, 0x90, 0xc7, 0x0c, 0x07, 0xdf],
     [0xf5, 0x89, 0x36, 0x74, 0x32, 0xd6, 0x28, 0xc1, 0xb0, 0xb0, 0x0b, 0xe0],
     [0x9c, 0x4c, 0xc3, 0x1c, 0xd6, 0xfc, 0xe3, 0x69, 0xb5, 0x47, 0x46, 0x81],
     [0x2f, 0xa2, 0x82, 0xab, 0xd3, 0x63, 0x44, 0x70, 0xc4, 0x8d, 0xff, 0x2d],
     [0x33, 0xba, 0xad, 0x8f, 0x7b, 0xb5, 0x70, 0x88, 0xae, 0x3e, 0x19, 0xcf],
     [0x40, 0x28, 0xd8, 0xfc, 0xc8, 0x90, 0xbb, 0x5d, 0x99, 0x22, 0xf5, 0x52],
     [0xe6, 0x58, 0xc5, 0x1f, 0x88, 0x31, 0x43, 0xee, 0x88, 0x1d, 0xd7, 0xc6],
     [0x8e, 0x3c, 0x43, 0x6a, 0x1d, 0xa7, 0x18, 0xde, 0x7d, 0x3d, 0x16, 0xf1],
     [0x62, 0xf9, 0xca, 0x90, 0xa8, 0xfd]]"

definition kGlobalSignRootR3Der :: bytes where
  "kGlobalSignRootR3Der = concat
    [[0x30, 0x82, 0x03, 0x5f, 0x30, 0x82, 0x02, 0x47, 0xa0, 0x03, 0x02, 0x01],
     [0x02, 0x02, 0x0b, 0x04, 0x00, 0x00, 0x00, 0x00, 0x01, 0x21, 0x58, 0x53],
     [0x08, 0xa2, 0x30, 0x0d, 0x06, 0x09, 0x2a, 0x86, 0x48, 0x86, 0xf7, 0x0d],
     [0x01, 0x01, 0x0b, 0x05, 0x00, 0x30, 0x4c, 0x31, 0x20, 0x30, 0x1e, 0x06],
     [0x03, 0x55, 0x04, 0x0b, 0x13, 0x17, 0x47, 0x6c, 0x6f, 0x62, 0x61, 0x6c],
     [0x53, 0x69, 0x67, 0x6e, 0x20, 0x52, 0x6f, 0x6f, 0x74, 0x20, 0x43, 0x41],
     [0x20, 0x2d, 0x20, 0x52, 0x33, 0x31, 0x13, 0x30, 0x11, 0x06, 0x03, 0x55],
     [0x04, 0x0a, 0x13, 0x0a, 0x47, 0x6c, 0x6f, 0x62, 0x61, 0x6c, 0x53, 0x69],
     [0x67, 0x6e, 0x31, 0x13, 0x30, 0x11, 0x06, 0x03, 0x55, 0x04, 0x03, 0x13],
     [0x0a, 0x47, 0x6c, 0x6f, 0x62, 0x61, 0x6c, 0x53, 0x69, 0x67, 0x6e, 0x30],
     [0x1e, 0x17, 0x0d, 0x30, 0x39, 0x30, 0x33, 0x31, 0x38, 0x31, 0x30, 0x30],
     [0x30, 0x30, 0x30, 0x5a, 0x17, 0x0d, 0x32, 0x39, 0x30, 0x33, 0x31, 0x38],
     [0x31, 0x30, 0x30, 0x30, 0x30, 0x30, 0x5a, 0x30, 0x4c, 0x31, 0x20, 0x30],
     [0x1e, 0x06, 0x03, 0x55, 0x04, 0x0b, 0x13, 0x17, 0x47, 0x6c, 0x6f, 0x62],
     [0x61, 0x6c, 0x53, 0x69, 0x67, 0x6e, 0x20, 0x52, 0x6f, 0x6f, 0x74, 0x20],
     [0x43, 0x41, 0x20, 0x2d, 0x20, 0x52, 0x33, 0x31, 0x13, 0x30, 0x11, 0x06],
     [0x03, 0x55, 0x04, 0x0a, 0x13, 0x0a, 0x47, 0x6c, 0x6f, 0x62, 0x61, 0x6c],
     [0x53, 0x69, 0x67, 0x6e, 0x31, 0x13, 0x30, 0x11, 0x06, 0x03, 0x55, 0x04],
     [0x03, 0x13, 0x0a, 0x47, 0x6c, 0x6f, 0x62, 0x61, 0x6c, 0x53, 0x69, 0x67],
     [0x6e, 0x30, 0x82, 0x01, 0x22, 0x30, 0x0d, 0x06, 0x09, 0x2a, 0x86, 0x48],
     [0x86, 0xf7, 0x0d, 0x01, 0x01, 0x01, 0x05, 0x00, 0x03, 0x82, 0x01, 0x0f],
     [0x00, 0x30, 0x82, 0x01, 0x0a, 0x02, 0x82, 0x01, 0x01, 0x00, 0xcc, 0x25],
     [0x76, 0x90, 0x79, 0x06, 0x78, 0x22, 0x16, 0xf5, 0xc0, 0x83, 0xb6, 0x84],
     [0xca, 0x28, 0x9e, 0xfd, 0x05, 0x76, 0x11, 0xc5, 0xad, 0x88, 0x72, 0xfc],
     [0x46, 0x02, 0x43, 0xc7, 0xb2, 0x8a, 0x9d, 0x04, 0x5f, 0x24, 0xcb, 0x2e],
     [0x4b, 0xe1, 0x60, 0x82, 0x46, 0xe1, 0x52, 0xab, 0x0c, 0x81, 0x47, 0x70],
     [0x6c, 0xdd, 0x64, 0xd1, 0xeb, 0xf5, 0x2c, 0xa3, 0x0f, 0x82, 0x3d, 0x0c],
     [0x2b, 0xae, 0x97, 0xd7, 0xb6, 0x14, 0x86, 0x10, 0x79, 0xbb, 0x3b, 0x13],
     [0x80, 0x77, 0x8c, 0x08, 0xe1, 0x49, 0xd2, 0x6a, 0x62, 0x2f, 0x1f, 0x5e],
     [0xfa, 0x96, 0x68, 0xdf, 0x89, 0x27, 0x95, 0x38, 0x9f, 0x06, 0xd7, 0x3e],
     [0xc9, 0xcb, 0x26, 0x59, 0x0d, 0x73, 0xde, 0xb0, 0xc8, 0xe9, 0x26, 0x0e],
     [0x83, 0x15, 0xc6, 0xef, 0x5b, 0x8b, 0xd2, 0x04, 0x60, 0xca, 0x49, 0xa6],
     [0x28, 0xf6, 0x69, 0x3b, 0xf6, 0xcb, 0xc8, 0x28, 0x91, 0xe5, 0x9d, 0x8a],
     [0x61, 0x57, 0x37, 0xac, 0x74, 0x14, 0xdc, 0x74, 0xe0, 0x3a, 0xee, 0x72],
     [0x2f, 0x2e, 0x9c, 0xfb, 0xd0, 0xbb, 0xbf, 0xf5, 0x3d, 0x00, 0xe1, 0x06],
     [0x33, 0xe8, 0x82, 0x2b, 0xae, 0x53, 0xa6, 0x3a, 0x16, 0x73, 0x8c, 0xdd],
     [0x41, 0x0e, 0x20, 0x3a, 0xc0, 0xb4, 0xa7, 0xa1, 0xe9, 0xb2, 0x4f, 0x90],
     [0x2e, 0x32, 0x60, 0xe9, 0x57, 0xcb, 0xb9, 0x04, 0x92, 0x68, 0x68, 0xe5],
     [0x38, 0x26, 0x60, 0x75, 0xb2, 0x9f, 0x77, 0xff, 0x91, 0x14, 0xef, 0xae],
     [0x20, 0x49, 0xfc, 0xad, 0x40, 0x15, 0x48, 0xd1, 0x02, 0x31, 0x61, 0x19],
     [0x5e, 0xb8, 0x97, 0xef, 0xad, 0x77, 0xb7, 0x64, 0x9a, 0x7a, 0xbf, 0x5f],
     [0xc1, 0x13, 0xef, 0x9b, 0x62, 0xfb, 0x0d, 0x6c, 0xe0, 0x54, 0x69, 0x16],
     [0xa9, 0x03, 0xda, 0x6e, 0xe9, 0x83, 0x93, 0x71, 0x76, 0xc6, 0x69, 0x85],
     [0x82, 0x17, 0x02, 0x03, 0x01, 0x00, 0x01, 0xa3, 0x42, 0x30, 0x40, 0x30],
     [0x0e, 0x06, 0x03, 0x55, 0x1d, 0x0f, 0x01, 0x01, 0xff, 0x04, 0x04, 0x03],
     [0x02, 0x01, 0x06, 0x30, 0x0f, 0x06, 0x03, 0x55, 0x1d, 0x13, 0x01, 0x01],
     [0xff, 0x04, 0x05, 0x30, 0x03, 0x01, 0x01, 0xff, 0x30, 0x1d, 0x06, 0x03],
     [0x55, 0x1d, 0x0e, 0x04, 0x16, 0x04, 0x14, 0x8f, 0xf0, 0x4b, 0x7f, 0xa8],
     [0x2e, 0x45, 0x24, 0xae, 0x4d, 0x50, 0xfa, 0x63, 0x9a, 0x8b, 0xde, 0xe2],
     [0xdd, 0x1b, 0xbc, 0x30, 0x0d, 0x06, 0x09, 0x2a, 0x86, 0x48, 0x86, 0xf7],
     [0x0d, 0x01, 0x01, 0x0b, 0x05, 0x00, 0x03, 0x82, 0x01, 0x01, 0x00, 0x4b],
     [0x40, 0xdb, 0xc0, 0x50, 0xaa, 0xfe, 0xc8, 0x0c, 0xef, 0xf7, 0x96, 0x54],
     [0x45, 0x49, 0xbb, 0x96, 0x00, 0x09, 0x41, 0xac, 0xb3, 0x13, 0x86, 0x86],
     [0x28, 0x07, 0x33, 0xca, 0x6b, 0xe6, 0x74, 0xb9, 0xba, 0x00, 0x2d, 0xae],
     [0xa4, 0x0a, 0xd3, 0xf5, 0xf1, 0xf1, 0x0f, 0x8a, 0xbf, 0x73, 0x67, 0x4a],
     [0x83, 0xc7, 0x44, 0x7b, 0x78, 0xe0, 0xaf, 0x6e, 0x6c, 0x6f, 0x03, 0x29],
     [0x8e, 0x33, 0x39, 0x45, 0xc3, 0x8e, 0xe4, 0xb9, 0x57, 0x6c, 0xaa, 0xfc],
     [0x12, 0x96, 0xec, 0x53, 0xc6, 0x2d, 0xe4, 0x24, 0x6c, 0xb9, 0x94, 0x63],
     [0xfb, 0xdc, 0x53, 0x68, 0x67, 0x56, 0x3e, 0x83, 0xb8, 0xcf, 0x35, 0x21],
     [0xc3, 0xc9, 0x68, 0xfe, 0xce, 0xda, 0xc2, 0x53, 0xaa, 0xcc, 0x90, 0x8a],
     [0xe9, 0xf0, 0x5d, 0x46, 0x8c, 0x95, 0xdd, 0x7a, 0x58, 0x28, 0x1a, 0x2f],
     [0x1d, 0xde, 0xcd, 0x00, 0x37, 0x41, 0x8f, 0xed, 0x44, 0x6d, 0xd7, 0x53],
     [0x28, 0x97, 0x7e, 0xf3, 0x67, 0x04, 0x1e, 0x15, 0xd7, 0x8a, 0x96, 0xb4],
     [0xd3, 0xde, 0x4c, 0x27, 0xa4, 0x4c, 0x1b, 0x73, 0x73, 0x76, 0xf4, 0x17],
     [0x99, 0xc2, 0x1f, 0x7a, 0x0e, 0xe3, 0x2d, 0x08, 0xad, 0x0a, 0x1c, 0x2c],
     [0xff, 0x3c, 0xab, 0x55, 0x0e, 0x0f, 0x91, 0x7e, 0x36, 0xeb, 0xc3, 0x57],
     [0x49, 0xbe, 0xe1, 0x2e, 0x2d, 0x7c, 0x60, 0x8b, 0xc3, 0x41, 0x51, 0x13],
     [0x23, 0x9d, 0xce, 0xf7, 0x32, 0x6b, 0x94, 0x01, 0xa8, 0x99, 0xe7, 0x2c],
     [0x33, 0x1f, 0x3a, 0x3b, 0x25, 0xd2, 0x86, 0x40, 0xce, 0x3b, 0x2c, 0x86],
     [0x78, 0xc9, 0x61, 0x2f, 0x14, 0xba, 0xee, 0xdb, 0x55, 0x6f, 0xdf, 0x84],
     [0xee, 0x05, 0x09, 0x4d, 0xbd, 0x28, 0xd8, 0x72, 0xce, 0xd3, 0x62, 0x50],
     [0x65, 0x1e, 0xeb, 0x92, 0x97, 0x83, 0x31, 0xd9, 0xb3, 0xb5, 0xca, 0x47],
     [0x58, 0x3f, 0x5f]]"

definition parse_all_roots :: "X509Certificate list" where
  "parse_all_roots = List.map_filter X509Parser_parse
     [kDigiCertTrustedRootG4Der, kDigiCertGlobalRootG2Der, kMicrosoftRoot2011Der, kUserTrustRsaRootDer, kGlobalSignRootR3Der]"

definition trusted_root_certificates :: "X509Certificate list" where
  "trusted_root_certificates = parse_all_roots"

definition find_trust_anchor_by_subject :: "bytes \<Rightarrow> X509Certificate option" where
  "find_trust_anchor_by_subject subject_der = find (\<lambda>root. x509_subject_der root = subject_der) trusted_root_certificates"

section \<open>The fields behind the bytes\<close>

text \<open>An RSA key whose modulus has its top bit set, as the roots have it.\<close>

definition root_key :: "bytes \<Rightarrow> bytes \<Rightarrow> bytes" where
  "root_key m e = der_tlv 0x30 (der_items [(0x02, 0 # m), (0x02, e)])"

lemma parse_root_key:
  assumes "m \<noteq> []" "m ! 0 AND 0x80 \<noteq> 0" "e \<noteq> []" "e ! 0 AND 0x80 = 0" "e ! 0 \<noteq> 0" "length (root_key m e) < 256 ^ 8"
  shows "parse_rsa_key (root_key m e) = Some \<lparr>rsa_modulus = m, rsa_exponent = e\<rparr>"
proof -
  let ?items = "[(0x02, 0 # m), (0x02, e)]" and ?d = "root_key m e"
  obtain el where el: "parse_element ?d (length ?d) 0 = Some el" "der_at ?d el 0x30 (der_items ?items)"
    using der_at_whole [where tag = "0x30" and content = "der_items ?items"] assms(6) by (auto simp: root_key_def)
  obtain els where els: "children ?d el = els" "list_all2 (\<lambda>el (tag, content). der_at ?d el tag content) els ?items"
    using der_at_children [OF el(2)] assms(6) by auto
  then obtain a b where ab: "els = [a, b]" "der_at ?d a 0x02 (0 # m)" "der_at ?d b 0x02 e"
    by (auto simp: list_all2_Cons2)
  have "read_unsigned_integer ?d a = m" "read_unsigned_integer ?d b = e"
    using assms der_at_universal [OF ab(2)] der_at_universal [OF ab(3)] der_at_reads(1,3) [OF ab(2)] der_at_reads(1,3) [OF ab(3)]
    by (simp_all add: read_unsigned_integer_def tag_numbers Suc_le_eq)
  then show ?thesis
    using el els(1) ab assms der_at_universal [OF el(2)] der_at_universal [OF ab(2)] der_at_universal [OF ab(3)]
    by (simp add: parse_rsa_key_def tag_numbers)
qed

lemma rsa_oid_text: "oid_text (1, 2, [840, 113549, 1, 1, 1]) = kRsaEncryptionOid"
  by (simp add: oid_text_def dotted_def to_string.simps digit_chars kRsaEncryptionOid_def)

text \<open>What is known of a root: its fields encode to its bytes, it names itself as issuer and has an RSA key.\<close>

definition root_fields :: "bytes \<Rightarrow> cert_fields \<Rightarrow> bytes \<Rightarrow> bytes \<Rightarrow> bool" where
  "root_fields der f m e \<longleftrightarrow> x509_der f = der \<and> cert_fields_ok f \<and> cf_key_oid f = (1, 2, [840, 113549, 1, 1, 1]) \<and>
     cf_issuer f = cf_subject f \<and> cf_key f = root_key m e \<and>
     m \<noteq> [] \<and> m ! 0 AND 0x80 \<noteq> 0 \<and> e = [1, 0, 1] \<and> length (root_key m e) < 256 ^ 8"

lemma root_parses:
  assumes "root_fields der f m e"
  shows "\<exists>cert. X509Parser_parse der = Some cert \<and> x509_raw cert = der \<and> x509_subject_der cert = der_tlv 0x30 (cf_subject f) \<and>
    x509_issuer_der cert = x509_subject_der cert \<and> x509_rsa_public_key cert = Some \<lparr>rsa_modulus = m, rsa_exponent = [1, 0, 1]\<rparr>"
proof -
  have "parse_rsa_key (root_key m e) = Some \<lparr>rsa_modulus = m, rsa_exponent = [1, 0, 1]\<rparr>"
    using assms by (auto simp: root_fields_def intro!: parse_root_key)
  moreover have "cf_key_oid f = (1, 2, [840, 113549, 1, 1, 1])" "cert_fields_ok f" using assms by (simp_all add: root_fields_def)
  ultimately show ?thesis using assms x509_parse_der [of f] rsa_oid_text by (auto simp: root_fields_def)
qed

lemmas der_unfold = x509_der_def tbs_items_def alg_der_def spki_der_def root_key_def der_items_def der_tlv_def der_length_def
  oid_content_def b128_def b128_hi.simps be_bytes.simps der_uint_def

definition digiCertTrustedRootG4_fields :: cert_fields where
  "digiCertTrustedRootG4_fields = \<lparr>cf_version = Some (sub_bytes kDigiCertTrustedRootG4Der 10 3), cf_serial = 7451500558977370777930084869016614236, cf_inner_alg = sub_bytes kDigiCertTrustedRootG4Der 33 13,
     cf_issuer = sub_bytes kDigiCertTrustedRootG4Der 48 98, cf_not_before = sub_bytes kDigiCertTrustedRootG4Der 150 13, cf_not_after = sub_bytes kDigiCertTrustedRootG4Der 165 13,
     cf_subject = sub_bytes kDigiCertTrustedRootG4Der 180 98, cf_key_oid = (1, 2, [840, 113549, 1, 1, 1]), cf_key_params = [(5, [])],
     cf_key = root_key (sub_bytes kDigiCertTrustedRootG4Der 311 512) (sub_bytes kDigiCertTrustedRootG4Der 825 3), cf_rest = [(0xA3, sub_bytes kDigiCertTrustedRootG4Der 830 66)],
     cf_sig_oid = (1, 2, [840, 113549, 1, 1, 12]), cf_sig_params = [(5, [])], cf_signature = sub_bytes kDigiCertTrustedRootG4Der 916 512\<rparr>"

lemma length_kDigiCertTrustedRootG4Der: "length kDigiCertTrustedRootG4Der = 1428"
  by (simp add: kDigiCertTrustedRootG4Der_def)

lemma der_digiCertTrustedRootG4_fields: "x509_der digiCertTrustedRootG4_fields = kDigiCertTrustedRootG4Der"
  by (simp add: digiCertTrustedRootG4_fields_def length_kDigiCertTrustedRootG4Der der_unfold) (simp add: sub_bytes_def kDigiCertTrustedRootG4Der_def)

lemma root_digiCertTrustedRootG4_fields: "root_fields kDigiCertTrustedRootG4Der digiCertTrustedRootG4_fields (sub_bytes kDigiCertTrustedRootG4Der 311 512) [1, 0, 1]"
proof -
  have e: "sub_bytes kDigiCertTrustedRootG4Der 825 3 = [1, 0, 1]" "(sub_bytes kDigiCertTrustedRootG4Der 311 512) ! 0 AND 0x80 \<noteq> 0"
    "sub_bytes kDigiCertTrustedRootG4Der 48 98 = sub_bytes kDigiCertTrustedRootG4Der 180 98"
    by (simp_all add: sub_bytes_def kDigiCertTrustedRootG4Der_def)
  have "cert_fields_ok digiCertTrustedRootG4_fields"
    unfolding cert_fields_ok_def der_digiCertTrustedRootG4_fields by (simp add: length_kDigiCertTrustedRootG4Der digiCertTrustedRootG4_fields_def oid_ok_def sub_bytes_def)
  with e show ?thesis
    by (simp add: root_fields_def der_digiCertTrustedRootG4_fields) (simp add: digiCertTrustedRootG4_fields_def root_key_def der_items_def der_tlv_def der_length_def be_bytes.simps
        length_kDigiCertTrustedRootG4Der flip: length_greater_0_conv)
qed

definition digiCertGlobalRootG2_fields :: cert_fields where
  "digiCertGlobalRootG2_fields = \<lparr>cf_version = Some (sub_bytes kDigiCertGlobalRootG2Der 10 3), cf_serial = 4293743540046975378534879503202253541, cf_inner_alg = sub_bytes kDigiCertGlobalRootG2Der 33 13,
     cf_issuer = sub_bytes kDigiCertGlobalRootG2Der 48 97, cf_not_before = sub_bytes kDigiCertGlobalRootG2Der 149 13, cf_not_after = sub_bytes kDigiCertGlobalRootG2Der 164 13,
     cf_subject = sub_bytes kDigiCertGlobalRootG2Der 179 97, cf_key_oid = (1, 2, [840, 113549, 1, 1, 1]), cf_key_params = [(5, [])],
     cf_key = root_key (sub_bytes kDigiCertGlobalRootG2Der 309 256) (sub_bytes kDigiCertGlobalRootG2Der 567 3), cf_rest = [(0xA3, sub_bytes kDigiCertGlobalRootG2Der 572 66)],
     cf_sig_oid = (1, 2, [840, 113549, 1, 1, 11]), cf_sig_params = [(5, [])], cf_signature = sub_bytes kDigiCertGlobalRootG2Der 658 256\<rparr>"

lemma length_kDigiCertGlobalRootG2Der: "length kDigiCertGlobalRootG2Der = 914"
  by (simp add: kDigiCertGlobalRootG2Der_def)

lemma der_digiCertGlobalRootG2_fields: "x509_der digiCertGlobalRootG2_fields = kDigiCertGlobalRootG2Der"
  by (simp add: digiCertGlobalRootG2_fields_def length_kDigiCertGlobalRootG2Der der_unfold) (simp add: sub_bytes_def kDigiCertGlobalRootG2Der_def)

lemma root_digiCertGlobalRootG2_fields: "root_fields kDigiCertGlobalRootG2Der digiCertGlobalRootG2_fields (sub_bytes kDigiCertGlobalRootG2Der 309 256) [1, 0, 1]"
proof -
  have e: "sub_bytes kDigiCertGlobalRootG2Der 567 3 = [1, 0, 1]" "(sub_bytes kDigiCertGlobalRootG2Der 309 256) ! 0 AND 0x80 \<noteq> 0"
    "sub_bytes kDigiCertGlobalRootG2Der 48 97 = sub_bytes kDigiCertGlobalRootG2Der 179 97"
    by (simp_all add: sub_bytes_def kDigiCertGlobalRootG2Der_def)
  have "cert_fields_ok digiCertGlobalRootG2_fields"
    unfolding cert_fields_ok_def der_digiCertGlobalRootG2_fields by (simp add: length_kDigiCertGlobalRootG2Der digiCertGlobalRootG2_fields_def oid_ok_def sub_bytes_def)
  with e show ?thesis
    by (simp add: root_fields_def der_digiCertGlobalRootG2_fields) (simp add: digiCertGlobalRootG2_fields_def root_key_def der_items_def der_tlv_def der_length_def be_bytes.simps
        length_kDigiCertGlobalRootG2Der flip: length_greater_0_conv)
qed

definition microsoftRoot2011_fields :: cert_fields where
  "microsoftRoot2011_fields = \<lparr>cf_version = Some (sub_bytes kMicrosoftRoot2011Der 10 3), cf_serial = 84467163898187471482657645020825444676, cf_inner_alg = sub_bytes kMicrosoftRoot2011Der 33 13,
     cf_issuer = sub_bytes kMicrosoftRoot2011Der 49 136, cf_not_before = sub_bytes kMicrosoftRoot2011Der 189 13, cf_not_after = sub_bytes kMicrosoftRoot2011Der 204 13,
     cf_subject = sub_bytes kMicrosoftRoot2011Der 220 136, cf_key_oid = (1, 2, [840, 113549, 1, 1, 1]), cf_key_params = [(5, [])],
     cf_key = root_key (sub_bytes kMicrosoftRoot2011Der 389 512) (sub_bytes kMicrosoftRoot2011Der 903 3), cf_rest = [(0xA3, sub_bytes kMicrosoftRoot2011Der 908 81)],
     cf_sig_oid = (1, 2, [840, 113549, 1, 1, 11]), cf_sig_params = [(5, [])], cf_signature = sub_bytes kMicrosoftRoot2011Der 1009 512\<rparr>"

lemma length_kMicrosoftRoot2011Der: "length kMicrosoftRoot2011Der = 1521"
  by (simp add: kMicrosoftRoot2011Der_def)

lemma der_microsoftRoot2011_fields: "x509_der microsoftRoot2011_fields = kMicrosoftRoot2011Der"
  by (simp add: microsoftRoot2011_fields_def length_kMicrosoftRoot2011Der der_unfold) (simp add: sub_bytes_def kMicrosoftRoot2011Der_def)

lemma root_microsoftRoot2011_fields: "root_fields kMicrosoftRoot2011Der microsoftRoot2011_fields (sub_bytes kMicrosoftRoot2011Der 389 512) [1, 0, 1]"
proof -
  have e: "sub_bytes kMicrosoftRoot2011Der 903 3 = [1, 0, 1]" "(sub_bytes kMicrosoftRoot2011Der 389 512) ! 0 AND 0x80 \<noteq> 0"
    "sub_bytes kMicrosoftRoot2011Der 49 136 = sub_bytes kMicrosoftRoot2011Der 220 136"
    by (simp_all add: sub_bytes_def kMicrosoftRoot2011Der_def)
  have "cert_fields_ok microsoftRoot2011_fields"
    unfolding cert_fields_ok_def der_microsoftRoot2011_fields by (simp add: length_kMicrosoftRoot2011Der microsoftRoot2011_fields_def oid_ok_def sub_bytes_def)
  with e show ?thesis
    by (simp add: root_fields_def der_microsoftRoot2011_fields) (simp add: microsoftRoot2011_fields_def root_key_def der_items_def der_tlv_def der_length_def be_bytes.simps
        length_kMicrosoftRoot2011Der flip: length_greater_0_conv)
qed

definition userTrustRsaRoot_fields :: cert_fields where
  "userTrustRsaRoot_fields = \<lparr>cf_version = Some (sub_bytes kUserTrustRsaRootDer 10 3), cf_serial = 2645093764781058787591871645665788717, cf_inner_alg = sub_bytes kUserTrustRsaRootDer 33 13,
     cf_issuer = sub_bytes kUserTrustRsaRootDer 49 136, cf_not_before = sub_bytes kUserTrustRsaRootDer 189 13, cf_not_after = sub_bytes kUserTrustRsaRootDer 204 13,
     cf_subject = sub_bytes kUserTrustRsaRootDer 220 136, cf_key_oid = (1, 2, [840, 113549, 1, 1, 1]), cf_key_params = [(5, [])],
     cf_key = root_key (sub_bytes kUserTrustRsaRootDer 389 512) (sub_bytes kUserTrustRsaRootDer 903 3), cf_rest = [(0xA3, sub_bytes kUserTrustRsaRootDer 908 66)],
     cf_sig_oid = (1, 2, [840, 113549, 1, 1, 12]), cf_sig_params = [(5, [])], cf_signature = sub_bytes kUserTrustRsaRootDer 994 512\<rparr>"

lemma length_kUserTrustRsaRootDer: "length kUserTrustRsaRootDer = 1506"
  by (simp add: kUserTrustRsaRootDer_def)

lemma der_userTrustRsaRoot_fields: "x509_der userTrustRsaRoot_fields = kUserTrustRsaRootDer"
  by (simp add: userTrustRsaRoot_fields_def length_kUserTrustRsaRootDer der_unfold) (simp add: sub_bytes_def kUserTrustRsaRootDer_def)

lemma root_userTrustRsaRoot_fields: "root_fields kUserTrustRsaRootDer userTrustRsaRoot_fields (sub_bytes kUserTrustRsaRootDer 389 512) [1, 0, 1]"
proof -
  have e: "sub_bytes kUserTrustRsaRootDer 903 3 = [1, 0, 1]" "(sub_bytes kUserTrustRsaRootDer 389 512) ! 0 AND 0x80 \<noteq> 0"
    "sub_bytes kUserTrustRsaRootDer 49 136 = sub_bytes kUserTrustRsaRootDer 220 136"
    by (simp_all add: sub_bytes_def kUserTrustRsaRootDer_def)
  have "cert_fields_ok userTrustRsaRoot_fields"
    unfolding cert_fields_ok_def der_userTrustRsaRoot_fields by (simp add: length_kUserTrustRsaRootDer userTrustRsaRoot_fields_def oid_ok_def sub_bytes_def)
  with e show ?thesis
    by (simp add: root_fields_def der_userTrustRsaRoot_fields) (simp add: userTrustRsaRoot_fields_def root_key_def der_items_def der_tlv_def der_length_def be_bytes.simps
        length_kUserTrustRsaRootDer flip: length_greater_0_conv)
qed

definition globalSignRootR3_fields :: cert_fields where
  "globalSignRootR3_fields = \<lparr>cf_version = Some (sub_bytes kGlobalSignRootR3Der 10 3), cf_serial = 4835703278459759426209954, cf_inner_alg = sub_bytes kGlobalSignRootR3Der 28 13,
     cf_issuer = sub_bytes kGlobalSignRootR3Der 43 76, cf_not_before = sub_bytes kGlobalSignRootR3Der 123 13, cf_not_after = sub_bytes kGlobalSignRootR3Der 138 13,
     cf_subject = sub_bytes kGlobalSignRootR3Der 153 76, cf_key_oid = (1, 2, [840, 113549, 1, 1, 1]), cf_key_params = [(5, [])],
     cf_key = root_key (sub_bytes kGlobalSignRootR3Der 262 256) (sub_bytes kGlobalSignRootR3Der 520 3), cf_rest = [(0xA3, sub_bytes kGlobalSignRootR3Der 525 66)],
     cf_sig_oid = (1, 2, [840, 113549, 1, 1, 11]), cf_sig_params = [(5, [])], cf_signature = sub_bytes kGlobalSignRootR3Der 611 256\<rparr>"

lemma length_kGlobalSignRootR3Der: "length kGlobalSignRootR3Der = 867"
  by (simp add: kGlobalSignRootR3Der_def)

lemma der_globalSignRootR3_fields: "x509_der globalSignRootR3_fields = kGlobalSignRootR3Der"
  by (simp add: globalSignRootR3_fields_def length_kGlobalSignRootR3Der der_unfold) (simp add: sub_bytes_def kGlobalSignRootR3Der_def)

lemma root_globalSignRootR3_fields: "root_fields kGlobalSignRootR3Der globalSignRootR3_fields (sub_bytes kGlobalSignRootR3Der 262 256) [1, 0, 1]"
proof -
  have e: "sub_bytes kGlobalSignRootR3Der 520 3 = [1, 0, 1]" "(sub_bytes kGlobalSignRootR3Der 262 256) ! 0 AND 0x80 \<noteq> 0"
    "sub_bytes kGlobalSignRootR3Der 43 76 = sub_bytes kGlobalSignRootR3Der 153 76"
    by (simp_all add: sub_bytes_def kGlobalSignRootR3Der_def)
  have "cert_fields_ok globalSignRootR3_fields"
    unfolding cert_fields_ok_def der_globalSignRootR3_fields by (simp add: length_kGlobalSignRootR3Der globalSignRootR3_fields_def oid_ok_def sub_bytes_def)
  with e show ?thesis
    by (simp add: root_fields_def der_globalSignRootR3_fields) (simp add: globalSignRootR3_fields_def root_key_def der_items_def der_tlv_def der_length_def be_bytes.simps
        length_kGlobalSignRootR3Der flip: length_greater_0_conv)
qed

section \<open>The anchor list\<close>

lemma find_key:
  "distinct (map f xs) \<Longrightarrow> x \<in> set xs \<Longrightarrow> find (\<lambda>y. f y = f x) xs = Some x"
  by (induction xs) force+

text \<open>Two octets tell the subjects apart: the first length octet, and one inside the names of equal length.\<close>

lemma root_subjects_distinct:
  "distinct (map (\<lambda>f. der_tlv 0x30 (cf_subject f))
     [digiCertTrustedRootG4_fields, digiCertGlobalRootG2_fields, microsoftRoot2011_fields, userTrustRsaRoot_fields, globalSignRootR3_fields])"
proof -
  have "map (\<lambda>s. (s ! 1, s ! 67)) (map (\<lambda>f. der_tlv 0x30 (cf_subject f))
     [digiCertTrustedRootG4_fields, digiCertGlobalRootG2_fields, microsoftRoot2011_fields, userTrustRsaRoot_fields, globalSignRootR3_fields]) =
    map (\<lambda>(k, v). (k, v)) [(0x62, 0x30), (0x61, 0x30), (0x81, 0x69), (0x81, 0x0a), (0x4c, 0x0a)]"
    by (simp add: der_tlv_def der_length_def be_bytes.simps digiCertTrustedRootG4_fields_def digiCertGlobalRootG2_fields_def microsoftRoot2011_fields_def userTrustRsaRoot_fields_def globalSignRootR3_fields_def
        length_kDigiCertTrustedRootG4Der length_kDigiCertGlobalRootG2Der length_kMicrosoftRoot2011Der length_kUserTrustRsaRootDer length_kGlobalSignRootR3Der)
      (simp add: sub_bytes_def kDigiCertTrustedRootG4Der_def kDigiCertGlobalRootG2Der_def kMicrosoftRoot2011Der_def kUserTrustRsaRootDer_def kGlobalSignRootR3Der_def)
  then have "distinct (map (\<lambda>s. (s ! 1, s ! 67)) (map (\<lambda>f. der_tlv 0x30 (cf_subject f))
     [digiCertTrustedRootG4_fields, digiCertGlobalRootG2_fields, microsoftRoot2011_fields, userTrustRsaRoot_fields, globalSignRootR3_fields]))" by simp
  then show ?thesis by (subst (asm) distinct_map) blast
qed


lemma trusted_roots:
  "map x509_raw trusted_root_certificates =
    [kDigiCertTrustedRootG4Der, kDigiCertGlobalRootG2Der, kMicrosoftRoot2011Der, kUserTrustRsaRootDer, kGlobalSignRootR3Der]"
  "distinct (map x509_subject_der trusted_root_certificates)"
  "list_all (\<lambda>c. X509Parser_parse (x509_raw c) = Some c \<and> x509_issuer_der c = x509_subject_der c) trusted_root_certificates"
  "map x509_rsa_public_key trusted_root_certificates = map (\<lambda>m. Some \<lparr>rsa_modulus = m, rsa_exponent = [1, 0, 1]\<rparr>)
       [sub_bytes kDigiCertTrustedRootG4Der 311 512,
        sub_bytes kDigiCertGlobalRootG2Der 309 256,
        sub_bytes kMicrosoftRoot2011Der 389 512,
        sub_bytes kUserTrustRsaRootDer 389 512,
        sub_bytes kGlobalSignRootR3Der 262 256]"
proof -
  obtain c1 where c1: "X509Parser_parse kDigiCertTrustedRootG4Der = Some c1" "x509_raw c1 = kDigiCertTrustedRootG4Der" "x509_subject_der c1 = der_tlv 0x30 (cf_subject digiCertTrustedRootG4_fields)"
    "x509_issuer_der c1 = x509_subject_der c1" "x509_rsa_public_key c1 = Some \<lparr>rsa_modulus = sub_bytes kDigiCertTrustedRootG4Der 311 512, rsa_exponent = [1, 0, 1]\<rparr>"
    using root_parses [OF root_digiCertTrustedRootG4_fields] by metis
  obtain c2 where c2: "X509Parser_parse kDigiCertGlobalRootG2Der = Some c2" "x509_raw c2 = kDigiCertGlobalRootG2Der" "x509_subject_der c2 = der_tlv 0x30 (cf_subject digiCertGlobalRootG2_fields)"
    "x509_issuer_der c2 = x509_subject_der c2" "x509_rsa_public_key c2 = Some \<lparr>rsa_modulus = sub_bytes kDigiCertGlobalRootG2Der 309 256, rsa_exponent = [1, 0, 1]\<rparr>"
    using root_parses [OF root_digiCertGlobalRootG2_fields] by metis
  obtain c3 where c3: "X509Parser_parse kMicrosoftRoot2011Der = Some c3" "x509_raw c3 = kMicrosoftRoot2011Der" "x509_subject_der c3 = der_tlv 0x30 (cf_subject microsoftRoot2011_fields)"
    "x509_issuer_der c3 = x509_subject_der c3" "x509_rsa_public_key c3 = Some \<lparr>rsa_modulus = sub_bytes kMicrosoftRoot2011Der 389 512, rsa_exponent = [1, 0, 1]\<rparr>"
    using root_parses [OF root_microsoftRoot2011_fields] by metis
  obtain c4 where c4: "X509Parser_parse kUserTrustRsaRootDer = Some c4" "x509_raw c4 = kUserTrustRsaRootDer" "x509_subject_der c4 = der_tlv 0x30 (cf_subject userTrustRsaRoot_fields)"
    "x509_issuer_der c4 = x509_subject_der c4" "x509_rsa_public_key c4 = Some \<lparr>rsa_modulus = sub_bytes kUserTrustRsaRootDer 389 512, rsa_exponent = [1, 0, 1]\<rparr>"
    using root_parses [OF root_userTrustRsaRoot_fields] by metis
  obtain c5 where c5: "X509Parser_parse kGlobalSignRootR3Der = Some c5" "x509_raw c5 = kGlobalSignRootR3Der" "x509_subject_der c5 = der_tlv 0x30 (cf_subject globalSignRootR3_fields)"
    "x509_issuer_der c5 = x509_subject_der c5" "x509_rsa_public_key c5 = Some \<lparr>rsa_modulus = sub_bytes kGlobalSignRootR3Der 262 256, rsa_exponent = [1, 0, 1]\<rparr>"
    using root_parses [OF root_globalSignRootR3_fields] by metis
  have "map x509_subject_der [c1, c2, c3, c4, c5] = map (\<lambda>f. der_tlv 0x30 (cf_subject f)) [digiCertTrustedRootG4_fields, digiCertGlobalRootG2_fields, microsoftRoot2011_fields, userTrustRsaRoot_fields, globalSignRootR3_fields]"
    using c1(3) c2(3) c3(3) c4(3) c5(3) by simp
  then have d: "distinct (map x509_subject_der [c1, c2, c3, c4, c5])" using root_subjects_distinct by metis
  have t: "trusted_root_certificates = [c1, c2, c3, c4, c5]"
    using c1(1) c2(1) c3(1) c4(1) c5(1) by (simp add: trusted_root_certificates_def parse_all_roots_def List.map_filter_simps)
  show "distinct (map x509_subject_der trusted_root_certificates)" unfolding t by (rule d)
  show "map x509_raw trusted_root_certificates =
    [kDigiCertTrustedRootG4Der, kDigiCertGlobalRootG2Der, kMicrosoftRoot2011Der, kUserTrustRsaRootDer, kGlobalSignRootR3Der]" unfolding t by (simp add: c1(2) c2(2) c3(2) c4(2) c5(2))
  show "list_all (\<lambda>c. X509Parser_parse (x509_raw c) = Some c \<and> x509_issuer_der c = x509_subject_der c) trusted_root_certificates"
    unfolding t by (simp add: c1(1,2,4) c2(1,2,4) c3(1,2,4) c4(1,2,4) c5(1,2,4))
  show "map x509_rsa_public_key trusted_root_certificates = map (\<lambda>m. Some \<lparr>rsa_modulus = m, rsa_exponent = [1, 0, 1]\<rparr>)
       [sub_bytes kDigiCertTrustedRootG4Der 311 512,
        sub_bytes kDigiCertGlobalRootG2Der 309 256,
        sub_bytes kMicrosoftRoot2011Der 389 512,
        sub_bytes kUserTrustRsaRootDer 389 512,
        sub_bytes kGlobalSignRootR3Der 262 256]"
    unfolding t by (simp add: c1(5) c2(5) c3(5) c4(5) c5(5))
qed

section \<open>Properties\<close>

text \<open>
  The compiled-in trust anchors: all five certificates parse and are kept, in the order of the source,
  they have different subjects, each names itself as issuer and carries an RSA key of 2048 or 4096 bits with
  exponent 65537, and the lookup by its subject finds it.
\<close>

theorem trust_anchors_intact:
  "map x509_raw trusted_root_certificates =
     [kDigiCertTrustedRootG4Der, kDigiCertGlobalRootG2Der, kMicrosoftRoot2011Der, kUserTrustRsaRootDer, kGlobalSignRootR3Der] \<and>
   distinct (map x509_subject_der trusted_root_certificates) \<and>
   list_all (\<lambda>root. X509Parser_parse (x509_raw root) = Some root \<and> x509_issuer_der root = x509_subject_der root \<and>
     (\<exists>key. x509_rsa_public_key root = Some key \<and> length (rsa_modulus key) \<in> {256, 512} \<and> be_val (rsa_exponent key) = 65537) \<and>
     find_trust_anchor_by_subject (x509_subject_der root) = Some root) trusted_root_certificates"
proof -
  have "be_val [1, 0, 1 :: u8] = 65537" by simp
  then have "list_all (\<lambda>k. \<exists>key. k = Some key \<and> length (rsa_modulus key) \<in> {256, 512} \<and> be_val (rsa_exponent key) = 65537)
      (map x509_rsa_public_key trusted_root_certificates)"
    unfolding trusted_roots(4) by (simp del: be_val.simps add: length_kDigiCertTrustedRootG4Der length_kDigiCertGlobalRootG2Der length_kMicrosoftRoot2011Der length_kUserTrustRsaRootDer length_kGlobalSignRootR3Der)
  moreover have "list_all (\<lambda>root. find_trust_anchor_by_subject (x509_subject_der root) = Some root) trusted_root_certificates"
    using find_key [OF trusted_roots(2)] by (auto simp: list_all_iff find_trust_anchor_by_subject_def)
  ultimately show ?thesis using trusted_roots(1-3) by (simp add: list_all_iff)
qed

end
