(* ===== verification/Pe_Authenticode.thy ===== *)
theory Pe_Authenticode
  imports X509
begin

text \<open>
  \<^verbatim>\<open>security/pe_authenticode_hash.{hpp,cpp}\<close>: the hash of a PE image that an Authenticode signature covers, and
  the extraction of the signature from the certificate table. Offsets that the code keeps in 32-bit variables
  wrap as there. The lemmas give the hash as one SHA-256 over listed regions of the file, and which bytes of the
  file do not influence it.
\<close>

section \<open>Reading the headers\<close>

definition read_u16 :: "bytes \<Rightarrow> nat \<Rightarrow> u16" where
  "read_u16 data offset = ucast (data ! offset) OR push_bit 8 (ucast (data ! (offset + 1)))"

definition read_u32 :: "bytes \<Rightarrow> nat \<Rightarrow> u32" where
  "read_u32 data offset = ucast (data ! offset) OR push_bit 8 (ucast (data ! (offset + 1))) OR
     push_bit 16 (ucast (data ! (offset + 2))) OR push_bit 24 (ucast (data ! (offset + 3)))"

definition fits :: "nat \<Rightarrow> nat \<Rightarrow> nat \<Rightarrow> bool" where
  "fits sz offset len \<longleftrightarrow> offset \<le> sz \<and> len \<le> sz - offset"

lemma fits_iff: "fits sz offset len \<longleftrightarrow> offset + len \<le> sz"
  by (auto simp: fits_def)

text \<open>
  The checks both functions start with: the offsets of the file header and the optional header, the size of the
  latter, and where its data directories start.
\<close>

definition pe_opt_header :: "bytes \<Rightarrow> (nat \<times> nat \<times> nat \<times> nat) option" where
  "pe_opt_header data = do {
     require (64 \<le> length data);
     require (data ! 0 = 0x4D \<and> data ! 1 = 0x5A);
     let pe_offset = read_u32 data 0x3C;
     require (fits (length data) (unat pe_offset) 4);
     require (data ! unat pe_offset = 0x50 \<and> data ! unat (pe_offset + 1) = 0x45 \<and>
       data ! unat (pe_offset + 2) = 0 \<and> data ! unat (pe_offset + 3) = 0);
     let file_header_offset = unat (pe_offset + 4);
     require (fits (length data) file_header_offset 20);
     let size_of_optional_header = unat (read_u16 data (file_header_offset + 16));
     let opt_header_offset = file_header_offset + 20;
     require (fits (length data) opt_header_offset size_of_optional_header);
     require (2 \<le> size_of_optional_header);
     let magic = read_u16 data opt_header_offset;
     data_dir_base \<leftarrow> (if magic = 0x10b then Some 96 else if magic = 0x20b then Some 112 else None);
     Some (file_header_offset, opt_header_offset, size_of_optional_header, data_dir_base) }"

type_synonym SectionRange = "nat \<times> nat"

fun read_sections :: "bytes \<Rightarrow> nat \<Rightarrow> nat \<Rightarrow> nat \<Rightarrow> SectionRange list \<Rightarrow> SectionRange list option" where
  "read_sections data section_table_offset 0 i sections = Some sections"
| "read_sections data section_table_offset (Suc n) i sections =
     (let hdr = section_table_offset + i * 40;
          raw_size = unat (read_u32 data (hdr + 16)); raw_ptr = unat (read_u32 data (hdr + 20)) in
      if raw_size = 0 then read_sections data section_table_offset n (i + 1) sections
      else if \<not> fits (length data) raw_ptr raw_size then None
      else read_sections data section_table_offset n (i + 1) (sections @ [(raw_ptr, raw_size)]))"

record PeLayout =
  pe_checksum_offset :: nat
  pe_security_dir :: nat
  pe_size_of_headers :: nat
  pe_cert_table_offset :: nat
  pe_cert_table_size :: nat
  pe_sections :: "SectionRange list"

definition pe_layout :: "bytes \<Rightarrow> PeLayout option" where
  "pe_layout data = do {
     (file_header_offset, opt_header_offset, size_of_optional_header, data_dir_base) \<leftarrow> pe_opt_header data;
     let number_of_sections = unat (read_u16 data (file_header_offset + 2));
     let checksum_offset = opt_header_offset + 64;
     require (fits (length data) checksum_offset 4);
     let size_of_headers_offset = opt_header_offset + 60;
     require (fits (length data) size_of_headers_offset 4);
     let size_of_headers = unat (read_u32 data size_of_headers_offset);
     require (fits (length data) 0 size_of_headers);
     require (checksum_offset + 4 \<le> size_of_headers);
     let security_dir_entry_offset = opt_header_offset + data_dir_base + 4 * 8;
     require (fits (length data) security_dir_entry_offset 8);
     require (security_dir_entry_offset + 8 \<le> size_of_headers);
     let cert_table_offset = unat (read_u32 data security_dir_entry_offset);
     let cert_table_size = unat (read_u32 data (security_dir_entry_offset + 4));
     require (cert_table_size = 0 \<or> fits (length data) cert_table_offset cert_table_size);
     let section_table_offset = opt_header_offset + size_of_optional_header;
     require (fits (length data) section_table_offset (number_of_sections * 40));
     require (section_table_offset + number_of_sections * 40 \<le> size_of_headers);
     sections \<leftarrow> read_sections data section_table_offset number_of_sections 0 [];
     Some \<lparr>pe_checksum_offset = checksum_offset, pe_security_dir = security_dir_entry_offset, pe_size_of_headers = size_of_headers,
       pe_cert_table_offset = cert_table_offset, pe_cert_table_size = cert_table_size, pe_sections = sections\<rparr> }"

section \<open>The Authenticode hash\<close>

text \<open>
  \<^verbatim>\<open>std::sort\<close> orders the sections by file offset. Sections with the same offset come in the order of the
  section table here; for different offsets the order is the only sorted one (\<open>section_order_unique\<close>).
\<close>

fun hash_sections :: "bytes \<Rightarrow> SectionRange list \<Rightarrow> sha256_state md_ctx \<Rightarrow> nat \<Rightarrow> sha256_state md_ctx \<times> nat" where
  "hash_sections data [] ctx extra_data_start = (ctx, extra_data_start)"
| "hash_sections data ((offset, len) # sections) ctx extra_data_start =
     (let section_end = offset + len in
      hash_sections data sections (sha256_update ctx (sub_bytes data offset len))
        (if extra_data_start < section_end then section_end else extra_data_start))"

definition compute_authenticode_pe_hash_sha256 :: "bytes \<Rightarrow> bytes option" where
  "compute_authenticode_pe_hash_sha256 data = do {
     l \<leftarrow> pe_layout data;
     let sections = sort_key fst (pe_sections l);
     let ctx = sha256_update sha256_reset (sub_bytes data 0 (pe_checksum_offset l));
     let ctx = sha256_update ctx (sub_bytes data (pe_checksum_offset l + 4) (pe_security_dir l - (pe_checksum_offset l + 4)));
     let ctx = sha256_update ctx (sub_bytes data (pe_security_dir l + 8) (pe_size_of_headers l - (pe_security_dir l + 8)));
     let (ctx, extra_data_start) = hash_sections data sections ctx (pe_size_of_headers l);
     let extra_data_end = (if 0 < pe_cert_table_size l then pe_cert_table_offset l else length data);
     if extra_data_start < extra_data_end then do {
       require (extra_data_end \<le> length data);
       Some (sha256_finalize (sha256_update ctx (sub_bytes data extra_data_start (extra_data_end - extra_data_start)))) }
     else Some (sha256_finalize ctx) }"

definition extract_authenticode_signature :: "bytes \<Rightarrow> bytes option" where
  "extract_authenticode_signature data = do {
     (_, opt_header_offset, _, data_dir_base) \<leftarrow> pe_opt_header data;
     let security_dir_entry_offset = opt_header_offset + data_dir_base + 4 * 8;
     require (fits (length data) security_dir_entry_offset 8);
     let cert_table_offset = read_u32 data security_dir_entry_offset;
     let cert_table_size = read_u32 data (security_dir_entry_offset + 4);
     require (cert_table_size \<noteq> 0);
     require (8 \<le> cert_table_size);
     require (fits (length data) (unat cert_table_offset) (unat cert_table_size));
     let wc_length = read_u32 data (unat cert_table_offset);
     let wc_cert_type = read_u16 data (unat (cert_table_offset + 6));
     require (wc_cert_type = 0x0002);
     require (8 \<le> wc_length \<and> wc_length \<le> cert_table_size);
     let pkcs7_offset = unat (cert_table_offset + 8);
     let pkcs7_size = unat (wc_length - 8);
     require (fits (length data) pkcs7_offset pkcs7_size);
     Some (sub_bytes data pkcs7_offset pkcs7_size) }"

section \<open>Regions\<close>

lemma section_order_unique:
  assumes "sorted (map fst ys)" "mset ys = mset (xs :: SectionRange list)" "distinct (map fst xs)"
  shows "ys = sort_key fst xs"
proof (rule properties_for_sort_key [symmetric])
  have d: "distinct (map fst ys)" using assms(2,3) by (metis mset_map mset_eq_imp_distinct_iff)
  have "filter (\<lambda>x. fst k = fst x) ys = filter (\<lambda>x. fst k = fst x) xs" if "k \<in> set ys" for k
  proof -
    have "filter (\<lambda>x. fst k = fst x) zs = [k]" if "distinct (map fst zs)" "k \<in> set zs" for zs
      using that by (induction zs) (auto simp: filter_empty_conv image_iff)
    then show ?thesis using d assms(2,3) that by (metis mset_eq_setD)
  qed
  then show "\<And>k. k \<in> set ys \<Longrightarrow> filter (\<lambda>x. fst k = fst x) ys = filter (\<lambda>x. fst k = fst x) xs" .
qed (use assms in auto)

text \<open>The regions the hash covers, in order, and where the data behind the sections starts.\<close>

definition data_start :: "PeLayout \<Rightarrow> nat" where
  "data_start l = fold max (map (\<lambda>(off, len). off + len) (sort_key fst (pe_sections l))) (pe_size_of_headers l)"

definition hashed_regions :: "PeLayout \<Rightarrow> nat \<Rightarrow> SectionRange list" where
  "hashed_regions l sz =
     [(0, pe_checksum_offset l), (pe_checksum_offset l + 4, pe_security_dir l - (pe_checksum_offset l + 4)),
      (pe_security_dir l + 8, pe_size_of_headers l - (pe_security_dir l + 8))] @ sort_key fst (pe_sections l) @
     (let e = (if 0 < pe_cert_table_size l then pe_cert_table_offset l else sz) in
      if data_start l < e then [(data_start l, e - data_start l)] else [])"

lemma hash_sections_eq:
  "hash_sections data secs ctx st =
     (foldl sha256_update ctx (map (\<lambda>(off, len). sub_bytes data off len) secs), fold max (map (\<lambda>(off, len). off + len) secs) st)"
  by (induction data secs ctx st rule: hash_sections.induct) (auto simp: Let_def max_def)

lemma sha256_update_append: "sha256_update ctx (xs @ ys) = sha256_update (sha256_update ctx xs) ys"
  by (simp add: sha256_update_def md_update_append)

lemma sha256_update_concat: "sha256_update ctx (concat xss) = foldl sha256_update ctx xss"
  by (simp add: foldl_sha256_update)

text \<open>What the header checks have established when a layout is returned.\<close>

lemma pe_opt_headerD:
  assumes "pe_opt_header data = Some (fh, opt, soh, base)"
  shows "64 \<le> length data" "data ! 0 = 0x4D \<and> data ! 1 = 0x5A" "fits (length data) (unat (read_u32 data 0x3C)) 4"
    "data ! unat (read_u32 data 0x3C) = 0x50 \<and> data ! unat (read_u32 data 0x3C + 1) = 0x45 \<and>
     data ! unat (read_u32 data 0x3C + 2) = 0 \<and> data ! unat (read_u32 data 0x3C + 3) = 0"
    "fh = unat (read_u32 data 0x3C + 4)" "opt = fh + 20" "soh = unat (read_u16 data (fh + 16))" "fits (length data) opt soh" "2 \<le> soh"
    "fits (length data) fh 20" "read_u16 data opt = 0x10b \<and> base = 96 \<or> read_u16 data opt = 0x20b \<and> base = 112"
  using assms by (auto simp: pe_opt_header_def Let_def bind_eq_Some_conv split: if_splits)

lemma pe_layoutD:
  assumes "pe_layout data = Some l"
  obtains fh opt soh base n where "pe_opt_header data = Some (fh, opt, soh, base)" "n = unat (read_u16 data (fh + 2))"
    "pe_checksum_offset l = opt + 64" "pe_security_dir l = opt + base + 32" "pe_size_of_headers l = unat (read_u32 data (opt + 60))"
    "pe_size_of_headers l \<le> length data" "opt + 68 \<le> pe_size_of_headers l" "opt + base + 40 \<le> pe_size_of_headers l"
    "pe_cert_table_offset l = unat (read_u32 data (opt + base + 32))" "pe_cert_table_size l = unat (read_u32 data (opt + base + 36))"
    "pe_cert_table_size l = 0 \<or> pe_cert_table_offset l + pe_cert_table_size l \<le> length data"
    "opt + soh + n * 40 \<le> pe_size_of_headers l" "read_sections data (opt + soh) n 0 [] = Some (pe_sections l)"
proof -
  obtain fh opt soh base where h: "pe_opt_header data = Some (fh, opt, soh, base)"
    using assms by (auto simp: pe_layout_def bind_eq_Some_conv)
  show ?thesis
    by (rule that [OF h refl]) (use assms in \<open>auto simp: pe_layout_def h Let_def bind_eq_Some_conv fits_def ac_simps\<close>)
qed

lemma pe_hash_regions:
  assumes "pe_layout data = Some l"
  shows "compute_authenticode_pe_hash_sha256 data = Some (sha256_finalize (sha256_update sha256_reset
       (concat (map (\<lambda>(off, len). sub_bytes data off len) (hashed_regions l (length data))))))"
proof -
  have "0 < pe_cert_table_size l \<Longrightarrow> pe_cert_table_offset l \<le> length data" by (rule pe_layoutD [OF assms]) auto
  then show ?thesis using assms
    by (simp add: compute_authenticode_pe_hash_sha256_def hash_sections_eq data_start_def [symmetric] hashed_regions_def Let_def
        sha256_update_append sha256_update_concat)
qed

section \<open>Bytes outside the hash\<close>

lemma sub_bytes_cong:
  assumes "off + len \<le> length data" "off + len \<le> length data'" "\<And>i. off \<le> i \<Longrightarrow> i < off + len \<Longrightarrow> data' ! i = data ! i"
  shows "sub_bytes data' off len = sub_bytes data off len"
  by (rule nth_equalityI) (use assms in \<open>simp_all add: sub_bytes_def\<close>)

lemma read_u16_cong: "data' ! i = data ! i \<Longrightarrow> data' ! (i + 1) = data ! (i + 1) \<Longrightarrow> read_u16 data' i = read_u16 data i"
  by (simp add: read_u16_def)

lemma read_u32_cong: "(\<And>k. i \<le> k \<Longrightarrow> k < i + 4 \<Longrightarrow> data' ! k = data ! k) \<Longrightarrow> read_u32 data' i = read_u32 data i"
  by (simp add: read_u32_def)

lemma read_sections_extends: "read_sections data st n i out = Some secs \<Longrightarrow> set out \<subseteq> set secs"
  by (induction data st n i out rule: read_sections.induct) (auto simp: Let_def split: if_splits)

lemma read_sections_local:
  "read_sections data st n i out = Some secs \<Longrightarrow>
   (\<And>k. st + i * 40 \<le> k \<Longrightarrow> k < st + (i + n) * 40 \<Longrightarrow> data' ! k = data ! k) \<Longrightarrow>
   \<forall>(off, len) \<in> set secs. off + len \<le> length data' \<Longrightarrow> read_sections data' st n i out = Some secs"
proof (induction data st n i out rule: read_sections.induct)
  case (2 data st n i out)
  let ?hdr = "st + i * 40"
  let ?size = "unat (read_u32 data (?hdr + 16))" and ?ptr = "unat (read_u32 data (?hdr + 20))"
  have r: "read_u32 data' (?hdr + 16) = read_u32 data (?hdr + 16)" "read_u32 data' (?hdr + 20) = read_u32 data (?hdr + 20)"
    by (rule read_u32_cong, rule 2(4), simp_all)+
  have keep: "\<And>k. st + (i + 1) * 40 \<le> k \<Longrightarrow> k < st + (i + 1 + n) * 40 \<Longrightarrow> data' ! k = data ! k" by (rule 2(4)) simp_all
  show ?case
  proof (cases "?size = 0")
    case True
    with 2(1) [OF refl refl refl] 2(3,5) keep r show ?thesis by (simp add: Let_def)
  next
    case False
    with 2(3) have f: "fits (length data) ?ptr ?size" and rest: "read_sections data st n (i + 1) (out @ [(?ptr, ?size)]) = Some secs"
      by (auto simp: Let_def split: if_splits)
    have "(?ptr, ?size) \<in> set secs" using read_sections_extends [OF rest] by auto
    then have "fits (length data') ?ptr ?size" using 2(5) by (auto simp: fits_def)
    with 2(2) [OF refl refl refl _ _ rest keep 2(5)] False f r show ?thesis by (simp add: Let_def)
  qed
qed simp

lemma pe_offset_small:
  assumes "pe_opt_header data = Some (fh, opt, soh, base)" "length data < 2 ^ 32"
  shows "unat (read_u32 data 0x3C) + 4 < 2 ^ 32" "fh = unat (read_u32 data 0x3C) + 4" "opt = unat (read_u32 data 0x3C) + 24"
proof -
  note h = pe_opt_headerD [OF assms(1)]
  show b: "unat (read_u32 data 0x3C) + 4 < 2 ^ 32" using h(3) h(1) assms(2) by (auto simp: fits_def)
  then show "fh = unat (read_u32 data 0x3C) + 4" using h(5) by (simp add: unat_word_ariths)
  then show "opt = unat (read_u32 data 0x3C) + 24" using h(6) by simp
qed

lemma pe_opt_header_local:
  assumes h: "pe_opt_header data = Some (fh, opt, soh, base)" and small: "length data < 2 ^ 32"
    and agree: "\<And>i. i < opt + 64 \<Longrightarrow> data' ! i = data ! i" and len: "opt + soh \<le> length data'" "64 \<le> length data'"
  shows "pe_opt_header data' = Some (fh, opt, soh, base)"
proof -
  note d = pe_opt_headerD [OF h] and o = pe_offset_small [OF h small]
  let ?p = "read_u32 data 0x3C"
  have p: "read_u32 data' 0x3C = ?p" by (rule read_u32_cong, rule agree) (use o in simp)
  have u: "unat (?p + 1) = unat ?p + 1" "unat (?p + 2) = unat ?p + 2" "unat (?p + 3) = unat ?p + 3"
    using o(1) by (simp_all add: unat_word_ariths)
  have same: "data' ! k = data ! k" if "k < unat ?p + 4" for k using that o agree by simp
  have low: "data' ! 0 = data ! 0" "data' ! 1 = data ! 1" using o agree by simp_all
  have r: "read_u16 data' (fh + 16) = read_u16 data (fh + 16)" "read_u16 data' opt = read_u16 data opt"
    by (rule read_u16_cong; rule agree; use o in simp)+
  have f: "fits (length data') (unat ?p) 4" "fits (length data') fh 20" "fits (length data') opt soh"
    using len o by (auto simp: fits_def)
  show ?thesis using d p u r f low len same [of "unat ?p"] same [of "unat ?p + 1"] same [of "unat ?p + 2"] same [of "unat ?p + 3"]
    by (auto simp: pe_opt_header_def Let_def)
qed

lemma fold_max_ge: "(x :: nat) \<in> set xs \<or> x = a \<Longrightarrow> x \<le> fold max xs a"
  using Max.set_eq_fold [of a xs] Max_ge [of "set (a # xs)" x] by auto

lemma data_start_ge:
  "pe_size_of_headers l \<le> data_start l" "(off, len) \<in> set (pe_sections l) \<Longrightarrow> off + len \<le> data_start l"
  unfolding data_start_def by (rule fold_max_ge, force)+

lemma pe_layout_local:
  assumes l: "pe_layout data = Some l" and h: "pe_opt_header data = Some (fh, opt, soh, base)"
    and small: "length data < 2 ^ 32" and soh: "68 \<le> soh"
    and room: "pe_cert_table_offset l + pe_cert_table_size l \<le> length data'" and behind: "data_start l \<le> pe_cert_table_offset l"
    and agree: "\<And>i. i < pe_cert_table_offset l \<Longrightarrow> i < opt + 64 \<or> opt + 68 \<le> i \<Longrightarrow> data' ! i = data ! i"
  shows "pe_layout data' = Some l"
proof -
  obtain n where n: "n = unat (read_u16 data (fh + 2))"
    and d: "pe_checksum_offset l = opt + 64" "pe_security_dir l = opt + base + 32" "pe_size_of_headers l = unat (read_u32 data (opt + 60))"
    "pe_size_of_headers l \<le> length data" "opt + 68 \<le> pe_size_of_headers l" "opt + base + 40 \<le> pe_size_of_headers l"
    "pe_cert_table_offset l = unat (read_u32 data (opt + base + 32))" "pe_cert_table_size l = unat (read_u32 data (opt + base + 36))"
    "opt + soh + n * 40 \<le> pe_size_of_headers l" "read_sections data (opt + soh) n 0 [] = Some (pe_sections l)"
    by (rule pe_layoutD [OF l]) (use h in auto)
  note o = pe_offset_small [OF h small] and base = pe_opt_headerD(11) [OF h]
  have co: "pe_size_of_headers l \<le> pe_cert_table_offset l" using data_start_ge(1) [of l] behind by simp
  have h': "pe_opt_header data' = Some (fh, opt, soh, base)"
    by (rule pe_opt_header_local [OF h small agree]) (use d co o room in simp_all)
  have r: "read_u16 data' (fh + 2) = read_u16 data (fh + 2)" "read_u32 data' (opt + 60) = read_u32 data (opt + 60)"
    "read_u32 data' (opt + base + 32) = read_u32 data (opt + base + 32)" "read_u32 data' (opt + base + 36) = read_u32 data (opt + base + 36)"
    by (rule read_u16_cong; rule agree; use d co o in simp) (rule read_u32_cong; rule agree; use d co o base in auto)+
  have "read_sections data' (opt + soh) n 0 [] = Some (pe_sections l)"
  proof (rule read_sections_local [OF d(10)])
    show "data' ! k = data ! k" if "opt + soh + 0 * 40 \<le> k" "k < opt + soh + (0 + n) * 40" for k
      by (rule agree) (use that d(9) co soh in simp_all)
    show "\<forall>(off, len) \<in> set (pe_sections l). off + len \<le> length data'"
      using data_start_ge(2) [of _ _ l] behind room by fastforce
  qed
  with h' r n d co room show ?thesis
    by (simp add: pe_layout_def fits_iff Let_def ac_simps)
qed

lemma data_start_le:
  "pe_size_of_headers l \<le> b \<Longrightarrow> (\<And>off len. (off, len) \<in> set (pe_sections l) \<Longrightarrow> off + len \<le> b) \<Longrightarrow> data_start l \<le> b"
  using Max.set_eq_fold [of "pe_size_of_headers l" "map (\<lambda>(off, len). off + len) (sort_key fst (pe_sections l))"]
  by (auto simp: data_start_def simp flip: Max.set_eq_fold)

lemma read_sections_fit:
  "read_sections data st n i out = Some secs \<Longrightarrow> \<forall>(off, len) \<in> set out. off + len \<le> length data \<Longrightarrow>
   \<forall>(off, len) \<in> set secs. off + len \<le> length data"
  by (induction data st n i out rule: read_sections.induct) (auto simp: Let_def fits_iff split: if_splits)

lemma hashed_regions_fit:
  assumes l: "pe_layout data = Some l"
  shows "list_all (\<lambda>(off, len). off + len \<le> length data) (hashed_regions l (length data))"
proof -
  obtain fh opt soh base n where h: "pe_opt_header data = Some (fh, opt, soh, base)"
    and d: "pe_checksum_offset l = opt + 64" "pe_security_dir l = opt + base + 32" "pe_size_of_headers l \<le> length data"
    "opt + 68 \<le> pe_size_of_headers l" "opt + base + 40 \<le> pe_size_of_headers l"
    "pe_cert_table_size l = 0 \<or> pe_cert_table_offset l + pe_cert_table_size l \<le> length data"
    "read_sections data (opt + soh) n 0 [] = Some (pe_sections l)"
    by (rule pe_layoutD [OF l])
  have "base = 96 \<or> base = 112" using pe_opt_headerD(11) [OF h] by blast
  moreover have "\<forall>(off, len) \<in> set (pe_sections l). off + len \<le> length data" using read_sections_fit [OF d(7)] by simp
  ultimately show ?thesis using d by (auto simp: hashed_regions_def list_all_iff Let_def)
qed

section \<open>Properties\<close>

text \<open>A minimal signed image: 224 bytes of headers, no sections, a certificate table of 12 bytes.\<close>

definition sample_pe :: bytes where
  "sample_pe = concat [[0x4D, 0x5A], replicate 58 0, [64, 0, 0, 0], [0x50, 0x45, 0, 0], replicate 16 0, [136, 0, 0, 0], [0x0b, 0x01],
     replicate 58 0, [224, 0, 0, 0], replicate 64 0, [224, 0, 0, 0, 12, 0, 0, 0], [12, 0, 0, 0, 0, 2, 2, 0, 7, 8, 9, 10]]"

definition sample_layout :: PeLayout where
  "sample_layout = \<lparr>pe_checksum_offset = 152, pe_security_dir = 216, pe_size_of_headers = 224, pe_cert_table_offset = 224,
     pe_cert_table_size = 12, pe_sections = []\<rparr>"

lemma sample_pe_header: "pe_opt_header sample_pe = Some (68, 88, 136, 96)"
  by code_simp

lemma sample_pe_layout: "pe_layout sample_pe = Some sample_layout"
  by code_simp

lemma sample_pe_signature: "extract_authenticode_signature sample_pe = Some [7, 8, 9, 10]"
  by code_simp



text \<open>
  What the hash does not cover: in an image smaller than 4 GiB whose optional header covers the checksum and
  whose sections lie between the headers and the certificate table, the checksum, the certificate table and any bytes
  behind it may be changed, and bytes may be appended, without changing the hash.
\<close>

theorem pe_hash_ignores:
  assumes l: "pe_layout data = Some l" and h: "pe_opt_header data = Some (fh, opt, soh, base)"
    and small: "length data < 2 ^ 32" and soh: "68 \<le> soh" and signed: "0 < pe_cert_table_size l"
    and secs: "\<forall>(off, len) \<in> set (pe_sections l). pe_size_of_headers l \<le> off \<and> off + len \<le> pe_cert_table_offset l"
    and headers: "pe_size_of_headers l \<le> pe_cert_table_offset l"
    and room: "pe_cert_table_offset l + pe_cert_table_size l \<le> length data'"
    and agree: "\<And>i. i < pe_cert_table_offset l \<Longrightarrow> i < pe_checksum_offset l \<or> pe_checksum_offset l + 4 \<le> i \<Longrightarrow> data' ! i = data ! i"
  shows "compute_authenticode_pe_hash_sha256 data' = compute_authenticode_pe_hash_sha256 data"
proof -
  obtain n where d: "pe_checksum_offset l = opt + 64" "pe_security_dir l = opt + base + 32" "opt + 68 \<le> pe_size_of_headers l"
    "opt + base + 40 \<le> pe_size_of_headers l" "pe_cert_table_offset l + pe_cert_table_size l \<le> length data"
    by (rule pe_layoutD [OF l]) (use h signed in auto)
  have base: "base = 96 \<or> base = 112" using pe_opt_headerD(11) [OF h] by blast
  have start: "data_start l \<le> pe_cert_table_offset l" using data_start_le headers secs by fastforce
  have l': "pe_layout data' = Some l"
    by (rule pe_layout_local [OF l h small soh room start]) (use agree d in auto)
  have "sub_bytes data' off len = sub_bytes data off len" if "(off, len) \<in> set (hashed_regions l sz)" for off len sz
  proof -
    have "off + len \<le> pe_cert_table_offset l \<and> (off + len \<le> opt + 64 \<or> opt + 68 \<le> off)"
      using that signed start data_start_ge(1) [of l] secs headers d base by (auto simp: hashed_regions_def Let_def split: if_splits)
    then show ?thesis using agree d room by (intro sub_bytes_cong) auto
  qed
  then have "map (\<lambda>(off, len). sub_bytes data' off len) (hashed_regions l (length data')) =
      map (\<lambda>(off, len). sub_bytes data off len) (hashed_regions l (length data))"
    using signed by (auto simp: hashed_regions_def)
  then show ?thesis using pe_hash_regions [OF l] pe_hash_regions [OF l'] by simp
qed

theorem pe_hash_ignores_witness:
  "compute_authenticode_pe_hash_sha256 (sample_pe @ [1, 2, 3]) = compute_authenticode_pe_hash_sha256 sample_pe"
  by (rule pe_hash_ignores [OF sample_pe_layout sample_pe_header])
    (simp_all add: sample_layout_def nth_append, simp_all add: sample_pe_def)

end
