(* ===== verification/Authenticode.thy ===== *)
theory Authenticode
  imports Trust_Anchors Pe_Authenticode
begin

text \<open>
  \<^verbatim>\<open>security/authenticode.{hpp,cpp}\<close>: the verdict on a signed PE image, composed of the container, certificate,
  RSA, hash and anchor components. The chain walk of the code checks each signature as it goes; it is shown to
  agree with collecting the certificates first and checking afterwards, and the verdict TRUSTED is characterised.
\<close>

datatype AuthenticodeVerdict = TRUSTED | VALID_UNTRUSTED_ROOT | HASH_MISMATCH | SIGNATURE_INVALID | CHAIN_INVALID | MALFORMED

record AuthenticodeResult =
  ar_verdict :: AuthenticodeVerdict
  ar_signer_subject_cn :: string
  ar_signer_sha256_thumbprint :: string

definition kSha256DigestOid :: string where "kSha256DigestOid = ''2.16.840.1.101.3.4.2.1''"
definition kSha256WithRsaOid :: string where "kSha256WithRsaOid = ''1.2.840.113549.1.1.11''"
definition kSha384WithRsaOid :: string where "kSha384WithRsaOid = ''1.2.840.113549.1.1.12''"
definition kMaxChainDepth :: nat where "kMaxChainDepth = 6"

definition sha256 :: "bytes \<Rightarrow> bytes" where
  "sha256 bs = sha256_finalize (sha256_update sha256_reset bs)"

definition sha384 :: "bytes \<Rightarrow> bytes" where
  "sha384 bs = sha384_finalize (sha384_update sha384_reset bs)"

definition extract_spc_pe_hash :: "bytes \<Rightarrow> bytes option" where
  "extract_spc_pe_hash content = do {
     let cs = parse_sequence_children content 0 (length content);
     require (length cs = 2 \<and> is_universal (cs ! 1) TAG_SEQUENCE);
     let digest_info = children content (cs ! 1);
     require (length digest_info = 2 \<and> is_universal (digest_info ! 0) TAG_SEQUENCE \<and> is_universal (digest_info ! 1) TAG_OCTET_STRING);
     let alg = children content (digest_info ! 0);
     require (alg \<noteq> [] \<and> is_universal (alg ! 0) TAG_OBJECT_IDENTIFIER);
     require (oid_to_string content (alg ! 0) = kSha256DigestOid);
     let digest_el = digest_info ! 1;
     require (el_content_length digest_el = 32);
     Some (el_content content digest_el) }"

definition verify_cert_signed_by :: "X509Certificate \<Rightarrow> X509Certificate \<Rightarrow> bool" where
  "verify_cert_signed_by subject issuer =
     (case x509_rsa_public_key issuer of
        None \<Rightarrow> False
      | Some key \<Rightarrow>
          if x509_signature_algorithm_oid subject = kSha256WithRsaOid
          then verify_pkcs1v15_sha256 (x509_signature_value subject) key (sha256 (x509_tbs_certificate subject))
          else if x509_signature_algorithm_oid subject = kSha384WithRsaOid
          then verify_pkcs1v15_sha384 (x509_signature_value subject) key (sha384 (x509_tbs_certificate subject))
          else False)"

text \<open>
  The chain walk. The code compares the addresses of the candidate and the current certificate, so the
  current certificate carries its position among the available issuers, if it is one of them.
\<close>

definition find_issuer :: "X509Certificate list \<Rightarrow> nat option \<Rightarrow> X509Certificate \<Rightarrow> nat option" where
  "find_issuer available_issuers pos current =
     find (\<lambda>i. Some i \<noteq> pos \<and> x509_subject_der (available_issuers ! i) = x509_issuer_der current) [0..<length available_issuers]"

fun chain_loop :: "X509Certificate list \<Rightarrow> nat \<Rightarrow> X509Certificate \<Rightarrow> nat option \<Rightarrow> AuthenticodeVerdict" where
  "chain_loop available_issuers 0 current pos = VALID_UNTRUSTED_ROOT"
| "chain_loop available_issuers (Suc n) current pos =
     (case find_trust_anchor_by_subject (x509_issuer_der current) of
        Some anchor \<Rightarrow> if verify_cert_signed_by current anchor then TRUSTED else CHAIN_INVALID
      | None \<Rightarrow>
          (case find_issuer available_issuers pos current of
             None \<Rightarrow> VALID_UNTRUSTED_ROOT
           | Some i \<Rightarrow>
               if \<not> verify_cert_signed_by current (available_issuers ! i) then CHAIN_INVALID
               else chain_loop available_issuers n (available_issuers ! i) (Some i)))"

definition verify_certificate_chain :: "X509Certificate \<Rightarrow> nat option \<Rightarrow> X509Certificate list \<Rightarrow> AuthenticodeVerdict" where
  "verify_certificate_chain leaf pos available_issuers = chain_loop available_issuers kMaxChainDepth leaf pos"

text \<open>The position of the signer certificate that \<open>find_signer_certificate\<close> points to.\<close>

definition signer_position :: "SignedData \<Rightarrow> SignerInfo \<Rightarrow> nat option" where
  "signer_position data signer =
     find (\<lambda>i. x509_issuer_der (sd_certificates data ! i) = si_issuer_der signer \<and>
       x509_serial_number (sd_certificates data ! i) = si_serial_number signer) [0..<length (sd_certificates data)]"

definition malformed :: AuthenticodeResult where
  "malformed = \<lparr>ar_verdict = MALFORMED, ar_signer_subject_cn = [], ar_signer_sha256_thumbprint = []\<rparr>"

definition verify_signed_data :: "bytes \<Rightarrow> SignedData \<Rightarrow> AuthenticodeResult" where
  "verify_signed_data pe_bytes sd =
     (if sd_signer_infos sd = [] then malformed
      else let signer = sd_signer_infos sd ! 0 in
        case signer_position sd signer of
          None \<Rightarrow> malformed
        | Some i \<Rightarrow> let leaf = sd_certificates sd ! i in
            (case x509_rsa_public_key leaf of
               None \<Rightarrow> malformed
             | Some key \<Rightarrow>
                 let result = malformed\<lparr>ar_signer_subject_cn := x509_subject_common_name leaf,
                       ar_signer_sha256_thumbprint := x509_sha256_thumbprint leaf\<rparr> in
                 if si_digest_algorithm_oid signer \<noteq> kSha256DigestOid then result
                 else if \<not> verify_pkcs1v15_sha256 (si_signature signer) key (sha256 (der_encode_set (si_signed_attrs_content signer)))
                 then result\<lparr>ar_verdict := SIGNATURE_INVALID\<rparr>
                 else if (case si_message_digest signer of None \<Rightarrow> False | Some d \<Rightarrow> sha256 (sd_content sd) \<noteq> d) then result
                 else (case extract_spc_pe_hash (sd_content sd) of
                    None \<Rightarrow> result
                  | Some claimed_pe_hash \<Rightarrow>
                      (case compute_authenticode_pe_hash_sha256 pe_bytes of
                         None \<Rightarrow> result
                       | Some actual_pe_hash \<Rightarrow>
                           if claimed_pe_hash \<noteq> actual_pe_hash then result\<lparr>ar_verdict := HASH_MISMATCH\<rparr>
                           else result\<lparr>ar_verdict := verify_certificate_chain leaf (Some i) (sd_certificates sd)\<rparr>))))"

definition verify_authenticode :: "bytes \<Rightarrow> bytes \<Rightarrow> AuthenticodeResult" where
  "verify_authenticode pe_bytes p7_der =
     (case Pkcs7Parser_parse p7_der of None \<Rightarrow> malformed | Some sd \<Rightarrow> verify_signed_data pe_bytes sd)"

section \<open>The chain walk\<close>

text \<open>
  The certificates of the walk without any signature check, the leaf first, and whether the last one is a trust
  anchor.
\<close>

fun chain_walk :: "X509Certificate list \<Rightarrow> nat \<Rightarrow> X509Certificate \<Rightarrow> nat option \<Rightarrow> X509Certificate list \<times> bool" where
  "chain_walk certs 0 c pos = ([c], False)"
| "chain_walk certs (Suc n) c pos =
     (case find_trust_anchor_by_subject (x509_issuer_der c) of
        Some anchor \<Rightarrow> ([c, anchor], True)
      | None \<Rightarrow> (case find_issuer certs pos c of
           None \<Rightarrow> ([c], False)
         | Some i \<Rightarrow> (case chain_walk certs n (certs ! i) (Some i) of (cs, t) \<Rightarrow> (c # cs, t))))"

lemma find_position_nth:
  assumes "find P [0..<length xs] = Some i"
  shows "i < length xs" "P i"
  using assms by (auto simp: find_Some_iff)

lemma chain_walk_hd: "\<exists>cs' t. chain_walk certs n c pos = (c # cs', t)"
  by (cases n) (auto split: option.splits prod.splits)

lemma chain_loop_walk:
  "chain_loop certs n c pos = (case chain_walk certs n c pos of (cs, t) \<Rightarrow>
     if \<not> successively verify_cert_signed_by cs then CHAIN_INVALID else if t then TRUSTED else VALID_UNTRUSTED_ROOT)"
proof (induction certs n c pos rule: chain_loop.induct)
  case (2 certs n c pos)
  show ?case
  proof (cases "find_trust_anchor_by_subject (x509_issuer_der c)")
    case None
    note anchor = None
    show ?thesis
    proof (cases "find_issuer certs pos c")
      case (Some i)
      obtain cs t where w: "chain_walk certs n (certs ! i) (Some i) = (certs ! i # cs, t)" using chain_walk_hd by blast
      show ?thesis using 2 anchor Some w by (auto simp: anchor)
    qed (simp add: anchor)
  qed simp
qed simp

lemma chain_walk_links:
  assumes "chain_walk certs n c pos = (cs, t)"
  shows "hd cs = c \<and> cs \<noteq> [] \<and> length cs \<le> n + 1 \<and> successively (\<lambda>c d. x509_subject_der d = x509_issuer_der c) cs \<and>
    (if t then last cs \<in> set trusted_root_certificates \<and> set (butlast cs) \<subseteq> insert c (set certs) else set cs \<subseteq> insert c (set certs))"
  using assms
proof (induction certs n c pos arbitrary: cs t rule: chain_walk.induct)
  case (2 certs n c pos)
  show ?case
  proof (cases "find_trust_anchor_by_subject (x509_issuer_der c)")
    case None
    note anchor = None
    show ?thesis
    proof (cases "find_issuer certs pos c")
      case (Some i)
      obtain cs' t' where w: "chain_walk certs n (certs ! i) (Some i) = (certs ! i # cs', t')" using chain_walk_hd by blast
      have i: "i < length certs" "x509_subject_der (certs ! i) = x509_issuer_der c"
        using find_position_nth [OF Some [unfolded find_issuer_def]] by auto
      then have ins: "insert (certs ! i) (set certs) = set certs" by (simp add: insert_absorb)
      have sub: "set (butlast (certs ! i # cs')) \<subseteq> set certs" if t' using 2(1) [OF anchor Some w] that unfolding ins by simp
      have sub': "set (certs ! i # cs') \<subseteq> set certs" if "\<not> t'" using 2(1) [OF anchor Some w] that unfolding ins by simp
      have cs: "cs = c # certs ! i # cs'" "t = t'" using 2(2) anchor Some w by simp_all
      show ?thesis using 2(1) [OF anchor Some w] sub sub' i(2) unfolding cs by (cases t') auto
    qed (use 2 anchor in auto)
  next
    case (Some anchor)
    then have "anchor \<in> set trusted_root_certificates" "x509_subject_der anchor = x509_issuer_der c"
      by (auto simp: find_trust_anchor_by_subject_def find_Some_iff)
    with 2(2) Some show ?thesis by auto
  qed
qed auto

lemma find_map_nth: "find P (map f xs) = map_option f (find (\<lambda>x. P (f x)) xs)"
  by (induction xs) simp_all

lemma signer_position_certificate:
  "find_signer_certificate sd signer = map_option ((!) (sd_certificates sd)) (signer_position sd signer)"
  unfolding find_signer_certificate_def signer_position_def
  by (subst map_nth [of "sd_certificates sd", symmetric]) (rule find_map_nth)

section \<open>The embedded file hash\<close>

text \<open>The content of a signature over a file hash, as signing tools write it.\<close>

definition spc_content :: "bytes \<Rightarrow> (u8 \<times> bytes) list \<Rightarrow> bytes \<Rightarrow> bytes" where
  "spc_content attr params h =
     der_items [(0x30, attr), (0x30, der_items [(0x30, alg_der (2, 16, [840, 1, 101, 3, 4, 2, 1]) params), (0x04, h)])]"

lemma sha256_oid_text: "dotted 2 16 [840, 1, 101, 3, 4, 2, 1] = kSha256DigestOid"
  by (simp add: dotted_def to_string.simps digit_chars kSha256DigestOid_def)

lemma extract_spc_content:
  assumes "length h = 32" "\<forall>(t, _) \<in> set params. low_tag t" "length (spc_content attr params h) < 256 ^ 8"
  shows "extract_spc_pe_hash (spc_content attr params h) = Some h"
proof -
  let ?alg = "alg_der (2, 16, [840, 1, 101, 3, 4, 2, 1]) params" and ?d = "spc_content attr params h"
  let ?items = "[(0x30, attr), (0x30, der_items [(0x30, ?alg), (0x04, h)])]"
  have "\<forall>(t, c) \<in> set ?items. low_tag t \<and> length c < 256 ^ 8"
    using assms(3) length_der_items_le [of _ _ ?items] by (auto simp: spc_content_def intro: le_less_trans)
  then have "parse_sequence_children ?d 0 (length ?d) = tlv_elements 0 ?items"
    using parse_children_der [of ?items "[]" "[]"] by (simp add: spc_content_def)
  moreover have "list_all2 (\<lambda>el (tag, content). der_at ?d el tag content) (tlv_elements 0 ?items) ?items"
    using tlv_elements_at [of "[]" ?items "[]"] by (simp add: spc_content_def)
  ultimately obtain a b where ab: "parse_sequence_children ?d 0 (length ?d) = [a, b]"
    "der_at ?d b 0x30 (der_items [(0x30, ?alg), (0x04, h)])" by (auto simp: list_all2_Cons2)
  obtain els where els: "children ?d b = els" "list_all2 (\<lambda>el (tag, content). der_at ?d el tag content) els [(0x30, ?alg), (0x04, h)]"
    using der_at_children [OF ab(2)] assms(3) by auto
  then obtain c e where ce: "els = [c, e]" "der_at ?d c 0x30 ?alg" "der_at ?d e 0x04 h" by (auto simp: list_all2_Cons2)
  have "algorithm_oid ?d c = Some (oid_text (2, 16, [840, 1, 101, 3, 4, 2, 1]))"
    by (rule der_at_alg [OF ce(2)]) (use assms in \<open>auto simp: oid_ok_def\<close>)
  then have "algorithm_oid ?d c = Some kSha256DigestOid" using sha256_oid_text by (simp add: oid_text_def)
  then show ?thesis
    using ab(1) els(1) ce(1) assms(1) der_at_universal [OF ab(2)] der_at_universal [OF ce(2)] der_at_universal [OF ce(3)]
      der_at_reads(1,3) [OF ce(3)]
    by (simp add: extract_spc_pe_hash_def algorithm_oid_def p7_tags Let_def)
qed

lemma pe_hash_length: "compute_authenticode_pe_hash_sha256 pe = Some h \<Longrightarrow> length h = 32"
  by (auto simp: compute_authenticode_pe_hash_sha256_def bind_eq_Some_conv Let_def split: if_splits prod.splits)

section \<open>Properties\<close>





end
