(* ===== verification/Engine_Base.thy ===== *)
theory Engine_Base
  imports Telemetry_Bus
begin

text \<open>
  What the detection engines share: the default-initialised \<^verbatim>\<open>ThreatEvent\<close> and \<^verbatim>\<open>SecurityObservation\<close> they fill in, the
  callback calls they make, as values in the order of the calls, and the contract of a source of observations, stated
  as a locale: what it sends is acceptable to the telemetry bus.
\<close>

definition ThreatEvent_default :: ThreatEvent where
  "ThreatEvent_default = \<lparr>ev_id = 0, ev_timestamp = 0, ev_level = SAFE, ev_category = NONE, ev_process_id = 0,
     ev_process_name = [], ev_file_path = [], ev_description = [], ev_source_ip = [], ev_source_port = 0,
     ev_quarantined = False, ev_rolled_back = False\<rparr>"

definition SecurityObservation_default :: SecurityObservation where
  "SecurityObservation_default = \<lparr>obs_source_id = [], obs_kind = LEGACY_ENGINE, obs_timestamp = 0,
     obs_suggested_level = SAFE, obs_confidence = Fin 0, obs_deterministic = False, obs_process_id = 0,
     obs_process_name = [], obs_file_path = [], obs_sha256 = [], obs_evidence = []\<rparr>"

text \<open>A call of the threat or of the observation callback.\<close>

datatype emission = Threat ThreatEvent | Observation SecurityObservation

fun observations :: "emission list \<Rightarrow> SecurityObservation list" where
  "observations [] = []"
| "observations (Threat ev # es) = observations es"
| "observations (Observation obs # es) = obs # observations es"

fun threats :: "emission list \<Rightarrow> ThreatEvent list" where
  "threats [] = []"
| "threats (Threat ev # es) = ev # threats es"
| "threats (Observation obs # es) = threats es"

lemma set_observations [simp]: "set (observations es) = {obs. Observation obs \<in> set es}"
  by (induction es rule: observations.induct) auto

lemma set_threats [simp]: "set (threats es) = {ev. Threat ev \<in> set es}"
  by (induction es rule: threats.induct) auto

lemma observations_append [simp]: "observations (xs @ ys) = observations xs @ observations ys"
  by (induction xs rule: observations.induct) auto

lemma threats_append [simp]: "threats (xs @ ys) = threats xs @ threats ys"
  by (induction xs rule: threats.induct) auto

text \<open>
  A source of observations: what an operation hands to the callbacks. Everything it sends is valid, so an
  open bus with room accepts it.
\<close>

locale observation_source =
  fixes emits :: "'i \<Rightarrow> emission list"
  assumes emits_valid: "Observation obs \<in> set (emits i) \<Longrightarrow> obs_valid obs"
begin

lemma sent_is_accepted:
  assumes "obs \<in> set (observations (emits i))" "\<not> bus_closed b" "length (bus_queue b) < bus_capacity b"
  shows "fst (bus_publish b obs) = ACCEPTED \<and> bus_queue (snd (bus_publish b obs)) = bus_queue b @ [obs]"
  using emits_valid assms by (simp add: bus_publish_def Let_def)

lemma sent_batch_accepted:
  assumes "\<not> bus_closed b" "length (bus_queue b) + length (observations (emits i)) \<le> bus_capacity b"
  shows "bus_queue (fold (\<lambda>obs b. snd (bus_publish b obs)) (observations (emits i)) b) = bus_queue b @ observations (emits i)"
proof -
  have "bus_queue (fold (\<lambda>obs b. snd (bus_publish b obs)) os b) = bus_queue b @ os"
    if "\<forall>obs \<in> set os. obs_valid obs" "\<not> bus_closed b" "length (bus_queue b) + length os \<le> bus_capacity b" for os b
    using that by (induction os arbitrary: b) (simp_all add: bus_publish_def Let_def)
  then show ?thesis using assms emits_valid by simp
qed

end

end
