(* ===== verification/Firewall_Engine.thy ===== *)
theory Firewall_Engine
  imports Engine_Base
begin

text \<open>
  \<^verbatim>\<open>engines/firewall_engine.{hpp,cpp}\<close>: the rule list with its priorities, the first-match evaluation of a
  connection, the connection log with its scan and flood statistics, IPv4 text conversion and the monitor loop's
  adaptive period. An \<^verbatim>\<open>unordered_map\<close> is an association list in first-insertion order; where its iteration order
  matters the properties speak of sets.
\<close>

section \<open>Rules\<close>

datatype FirewallDirection = INBOUND | OUTBOUND
datatype FirewallAction = ALLOW | DENY
datatype FirewallProto = ANY | TCP | UDP | ICMP

record FirewallRule =
  fr_id :: u32
  fr_label :: string
  fr_direction :: FirewallDirection
  fr_action :: FirewallAction
  fr_protocol :: FirewallProto
  fr_src_ip :: u32
  fr_src_mask :: u32
  fr_dst_ip :: u32
  fr_dst_mask :: u32
  fr_port_min :: u16
  fr_port_max :: u16
  fr_enabled :: bool
  fr_priority :: int

record ConnectionLog =
  cl_timestamp :: time_point
  cl_src_ip :: u32
  cl_dst_ip :: u32
  cl_src_port :: u16
  cl_dst_port :: u16
  cl_protocol :: FirewallProto
  cl_direction :: FirewallDirection
  cl_action_taken :: FirewallAction
  cl_matched_rule_id :: u32
  cl_packet_size :: nat

record SuspiciousTraffic =
  st_ip :: u32
  st_connection_count :: nat
  st_denied_count :: nat
  st_suspected_category :: ThreatCategory
  st_reason :: string

definition MAX_CONNECTION_LOG :: nat where "MAX_CONNECTION_LOG = 10000"
definition FLOOD_THRESHOLD :: nat where "FLOOD_THRESHOLD = 200"
definition DENY_RATIO_THRESH :: nat where "DENY_RATIO_THRESH = 5"

record FirewallEngine =
  fw_running :: bool
  fw_events_processed :: u64
  fw_threats_detected :: u64
  fw_total_allowed :: u64
  fw_total_denied :: u64
  fw_rules :: "FirewallRule list"
  fw_conn_log :: "ConnectionLog list"
  fw_next_rule_id :: u32
  fw_poll_ms :: int
  fw_quiet_ticks :: int

definition FirewallEngine_new :: FirewallEngine where
  "FirewallEngine_new = \<lparr>fw_running = False, fw_events_processed = 0, fw_threats_detected = 0, fw_total_allowed = 0,
     fw_total_denied = 0, fw_rules = [], fw_conn_log = [], fw_next_rule_id = 1, fw_poll_ms = 5000, fw_quiet_ticks = 0\<rparr>"

text \<open>\<^verbatim>\<open>std::stable_sort\<close> by priority is the stable \<^const>\<open>sort_key\<close>. The returned id is that of the last rule.\<close>

definition fw_add_rule :: "FirewallRule \<Rightarrow> FirewallEngine \<Rightarrow> u32 \<times> FirewallEngine" where
  "fw_add_rule rule s =
     (let rule' = rule\<lparr>fr_id := fw_next_rule_id s\<rparr>; rs = sort_key fr_priority (fw_rules s @ [rule']) in
      (fr_id (last rs), s\<lparr>fw_next_rule_id := fw_next_rule_id s + 1, fw_rules := rs\<rparr>))"

text \<open>Erasing and changing the rule \<^verbatim>\<open>std::find_if\<close> finds; \<open>None\<close> when there is none.\<close>

fun erase_rule :: "u32 \<Rightarrow> FirewallRule list \<Rightarrow> FirewallRule list option" where
  "erase_rule i [] = None"
| "erase_rule i (r # rs) = (if fr_id r = i then Some rs else map_option ((#) r) (erase_rule i rs))"

fun set_enabled :: "u32 \<Rightarrow> bool \<Rightarrow> FirewallRule list \<Rightarrow> FirewallRule list option" where
  "set_enabled i b [] = None"
| "set_enabled i b (r # rs) =
     (if fr_id r = i then Some (r\<lparr>fr_enabled := b\<rparr> # rs) else map_option ((#) r) (set_enabled i b rs))"

definition fw_remove_rule :: "u32 \<Rightarrow> FirewallEngine \<Rightarrow> bool \<times> FirewallEngine" where
  "fw_remove_rule i s = (case erase_rule i (fw_rules s) of None \<Rightarrow> (False, s) | Some rs \<Rightarrow> (True, s\<lparr>fw_rules := rs\<rparr>))"

definition fw_enable_rule :: "u32 \<Rightarrow> bool \<Rightarrow> FirewallEngine \<Rightarrow> bool \<times> FirewallEngine" where
  "fw_enable_rule i b s = (case set_enabled i b (fw_rules s) of None \<Rightarrow> (False, s) | Some rs \<Rightarrow> (True, s\<lparr>fw_rules := rs\<rparr>))"

section \<open>Evaluation\<close>

text \<open>The conditions of the loop body, each a \<^verbatim>\<open>continue\<close> of the source.\<close>

definition rule_applies :: "FirewallDirection \<Rightarrow> FirewallProto \<Rightarrow> u32 \<Rightarrow> u32 \<Rightarrow> u16 \<Rightarrow> u16 \<Rightarrow> FirewallRule \<Rightarrow> bool" where
  "rule_applies dir proto src_ip dst_ip src_port dst_port r =
     (if \<not> fr_enabled r then False
      else if fr_direction r \<noteq> dir then False
      else if fr_protocol r \<noteq> ANY \<and> fr_protocol r \<noteq> proto then False
      else if fr_src_ip r \<noteq> 0 \<and> src_ip AND fr_src_mask r \<noteq> fr_src_ip r AND fr_src_mask r then False
      else if fr_dst_ip r \<noteq> 0 \<and> dst_ip AND fr_dst_mask r \<noteq> fr_dst_ip r AND fr_dst_mask r then False
      else let check_port = (if dir = INBOUND then dst_port else src_port) in
        if (fr_port_min r \<noteq> 0 \<or> fr_port_max r \<noteq> 65535) \<and> (check_port < fr_port_min r \<or> fr_port_max r < check_port) then False
        else True)"

definition fw_evaluate ::
  "FirewallDirection \<Rightarrow> FirewallProto \<Rightarrow> u32 \<Rightarrow> u32 \<Rightarrow> u16 \<Rightarrow> u16 \<Rightarrow> FirewallEngine \<Rightarrow> FirewallAction \<times> FirewallEngine" where
  "fw_evaluate dir proto src_ip dst_ip src_port dst_port s =
     (let s1 = s\<lparr>fw_events_processed := fw_events_processed s + 1\<rparr> in
      case find (rule_applies dir proto src_ip dst_ip src_port dst_port) (fw_rules s1) of
        Some r \<Rightarrow>
          (fr_action r, if fr_action r = ALLOW then s1\<lparr>fw_total_allowed := fw_total_allowed s1 + 1\<rparr>
             else s1\<lparr>fw_total_denied := fw_total_denied s1 + 1\<rparr>)
      | None \<Rightarrow> (ALLOW, s1\<lparr>fw_total_allowed := fw_total_allowed s1 + 1\<rparr>))"

section \<open>Connection log\<close>

definition log_connection :: "ConnectionLog \<Rightarrow> FirewallEngine \<Rightarrow> FirewallEngine" where
  "log_connection entry s = s\<lparr>fw_conn_log := pop_front_to MAX_CONNECTION_LOG (fw_conn_log s @ [entry])\<rparr>"

definition recent_connections :: "FirewallEngine \<Rightarrow> nat \<Rightarrow> ConnectionLog list" where
  "recent_connections s n = (let c = min n (length (fw_conn_log s)) in drop (length (fw_conn_log s) - c) (fw_conn_log s))"

record IpStats =
  is_total :: nat
  is_denied :: nat
  is_port_scatter :: "(u16 \<times> nat) list"

definition IpStats_zero :: IpStats where
  "IpStats_zero = \<lparr>is_total = 0, is_denied = 0, is_port_scatter = []\<rparr>"

definition remote_ip :: "ConnectionLog \<Rightarrow> u32" where
  "remote_ip c = (if cl_direction c = INBOUND then cl_src_ip c else cl_dst_ip c)"

definition bump :: "'k \<Rightarrow> ('k \<times> nat) list \<Rightarrow> ('k \<times> nat) list" where
  "bump k m = AList.update k ((case map_of m k of None \<Rightarrow> 0 | Some n \<Rightarrow> n) + 1) m"

definition count_connection :: "ConnectionLog \<Rightarrow> (u32 \<times> IpStats) list \<Rightarrow> (u32 \<times> IpStats) list" where
  "count_connection c stats =
     (let key = remote_ip c; st = (case map_of stats key of None \<Rightarrow> IpStats_zero | Some st \<Rightarrow> st);
          st1 = st\<lparr>is_total := is_total st + 1\<rparr>;
          st2 = (if cl_action_taken c = DENY then st1\<lparr>is_denied := is_denied st1 + 1\<rparr> else st1)
      in AList.update key (st2\<lparr>is_port_scatter := bump (cl_dst_port c) (is_port_scatter st2)\<rparr>) stats)"

definition suspicion :: "u32 \<times> IpStats \<Rightarrow> SuspiciousTraffic option" where
  "suspicion e = (case e of (ip, st) \<Rightarrow>
     let mk = (\<lambda>cat reason. Some \<lparr>st_ip = ip, st_connection_count = is_total st, st_denied_count = is_denied st,
                 st_suspected_category = cat, st_reason = reason\<rparr>) in
     if FLOOD_THRESHOLD \<le> is_total st then
       mk SYN_FLOOD (''High connection volume ('' @ to_string (is_total st) @ '' connections)'')
     else if DENY_RATIO_THRESH \<le> is_denied st \<and> is_total st < is_denied st * 2 then
       mk NETWORK_SCAN (''High deny ratio ('' @ to_string (is_denied st) @ ''/'' @ to_string (is_total st) @ '')'')
     else if 20 \<le> length (is_port_scatter st) then
       mk NETWORK_SCAN (''Port scan detected ('' @ to_string (length (is_port_scatter st)) @ '' unique ports)'')
     else None)"

definition suspicious_candidates :: "FirewallEngine \<Rightarrow> SuspiciousTraffic list" where
  "suspicious_candidates s =
     sort_key (\<lambda>t. - int (st_connection_count t)) (List.map_filter suspicion (fold count_connection (fw_conn_log s) []))"

text \<open>\<^verbatim>\<open>analyze_traffic\<close> counts the newest entries of the last five minutes and only adds to the event counter.\<close>

definition analyze_traffic :: "time_point \<Rightarrow> FirewallEngine \<Rightarrow> FirewallEngine" where
  "analyze_traffic now s =
     (let recent = takeWhile (\<lambda>c. \<not> cl_timestamp c < now - minutes 5) (rev (fw_conn_log s));
          counts = fold (\<lambda>c. bump (remote_ip c)) recent []
      in s\<lparr>fw_events_processed := fw_events_processed s + of_nat (length (filter (\<lambda>(ip, n). FLOOD_THRESHOLD \<le> n) counts))\<rparr>)"

section \<open>Addresses\<close>

text \<open>\<^verbatim>\<open>std::from_chars\<close> into a \<^verbatim>\<open>uint32_t\<close>: the leading digits, an error without any or beyond the type.\<close>

definition from_chars_u32 :: "string \<Rightarrow> nat option" where
  "from_chars_u32 s =
     (let ds = takeWhile is_digit s in if ds = [] then None else if 2 ^ 32 \<le> digits_val ds then None else Some (digits_val ds))"

fun parse_octets :: "nat \<Rightarrow> string list \<Rightarrow> nat list option" where
  "parse_octets 0 pieces = Some []"
| "parse_octets (Suc n) [] = None"
| "parse_octets (Suc n) (p # pieces) =
     (case from_chars_u32 p of
        None \<Rightarrow> None
      | Some v \<Rightarrow> if 255 < v then None else map_option ((#) v) (parse_octets n pieces))"

text \<open>The pieces between dots are read until four octets are found; the result 0 also stands for failure.\<close>

definition parse_ipv4 :: "string \<Rightarrow> u32" where
  "parse_ipv4 s =
     (case parse_octets 4 (split_on CHR ''.'' s) of
        None \<Rightarrow> 0
      | Some os \<Rightarrow> push_bit 24 (of_nat (os ! 0)) OR push_bit 16 (of_nat (os ! 1)) OR push_bit 8 (of_nat (os ! 2)) OR of_nat (os ! 3))"

definition ip_to_string :: "u32 \<Rightarrow> string" where
  "ip_to_string ip = to_string (unat (drop_bit 24 ip AND 0xFF)) @ ''.'' @ to_string (unat (drop_bit 16 ip AND 0xFF)) @ ''.'' @
     to_string (unat (drop_bit 8 ip AND 0xFF)) @ ''.'' @ to_string (unat (ip AND 0xFF))"

definition cidr_to_mask :: "nat \<Rightarrow> u32" where
  "cidr_to_mask prefix_len =
     (if prefix_len = 0 then 0 else if 32 \<le> prefix_len then 0xFFFFFFFF else NOT (push_bit (32 - prefix_len) 1 - 1))"

section \<open>Default rules, start and stop\<close>

definition default_rule :: "string \<Rightarrow> FirewallDirection \<Rightarrow> FirewallAction \<Rightarrow> FirewallProto \<Rightarrow> u16 \<Rightarrow> u16 \<Rightarrow> int \<Rightarrow> FirewallRule" where
  "default_rule label dir act proto pmin pmax prio =
     \<lparr>fr_id = 0, fr_label = label, fr_direction = dir, fr_action = act, fr_protocol = proto, fr_src_ip = 0, fr_src_mask = 0,
       fr_dst_ip = 0, fr_dst_mask = 0, fr_port_min = pmin, fr_port_max = pmax, fr_enabled = True, fr_priority = prio\<rparr>"

definition default_rules :: "FirewallRule list" where
  "default_rules = [
     default_rule ''Allow DNS out'' OUTBOUND ALLOW UDP 53 53 10,
     default_rule ''Allow HTTP out'' OUTBOUND ALLOW TCP 80 80 10,
     default_rule ''Allow HTTPS out'' OUTBOUND ALLOW TCP 443 443 10,
     default_rule ''Allow DHCP out'' OUTBOUND ALLOW UDP 67 68 10,
     default_rule ''Allow loopback in'' INBOUND ALLOW ANY 0 65535 5,
     default_rule ''Deny known bad ports in'' INBOUND DENY TCP 4444 4444 20,
     default_rule ''Deny Telnet in'' INBOUND DENY TCP 23 23 20,
     default_rule ''Deny RDP brute in'' INBOUND DENY TCP 3389 3389 30]"

fun number_rules :: "u32 \<Rightarrow> FirewallRule list \<Rightarrow> FirewallRule list" where
  "number_rules i [] = []"
| "number_rules i (r # rs) = r\<lparr>fr_id := i\<rparr> # number_rules (i + 1) rs"

definition install_default_rules :: "FirewallEngine \<Rightarrow> FirewallEngine" where
  "install_default_rules s =
     (if fw_rules s \<noteq> [] then s
      else s\<lparr>fw_rules := sort_key fr_priority (number_rules (fw_next_rule_id s) default_rules),
             fw_next_rule_id := fw_next_rule_id s + of_nat (length default_rules)\<rparr>)"

definition fw_start :: "FirewallEngine \<Rightarrow> ErrorCode \<times> FirewallEngine" where
  "fw_start s = (if fw_running s then (OK, s)
     else (OK, (install_default_rules s)\<lparr>fw_running := True, fw_poll_ms := 5000, fw_quiet_ticks := 0\<rparr>))"

definition fw_stop :: "FirewallEngine \<Rightarrow> ErrorCode \<times> FirewallEngine" where
  "fw_stop s = (if \<not> fw_running s then (OK, s) else (OK, s\<lparr>fw_running := False\<rparr>))"

section \<open>The monitor loop\<close>

definition fw_threat :: "time_point \<Rightarrow> SuspiciousTraffic \<Rightarrow> ThreatEvent" where
  "fw_threat now t = ThreatEvent_default\<lparr>ev_level := HIGH, ev_category := st_suspected_category t,
     ev_description := st_reason t, ev_source_ip := ip_to_string (st_ip t), ev_source_port := 0, ev_timestamp := now\<rparr>"

definition fw_observation :: "time_point \<Rightarrow> SuspiciousTraffic \<Rightarrow> SecurityObservation" where
  "fw_observation now t = SecurityObservation_default\<lparr>obs_source_id := ''firewall'', obs_kind := NETWORK_CONNECTION,
     obs_timestamp := now, obs_suggested_level := HIGH, obs_confidence := fl (8/10), obs_deterministic := True,
     obs_evidence := st_reason t\<rparr>"

text \<open>One turn after the sleep; both callbacks are installed by the manager.\<close>

definition fw_monitor_round :: "time_point \<Rightarrow> FirewallEngine \<Rightarrow> FirewallEngine \<times> emission list" where
  "fw_monitor_round now s =
     (if \<not> fw_running s then (s, [])
      else let s1 = analyze_traffic now s; suspects = suspicious_candidates s1 in
        if suspects \<noteq> [] then
          (s1\<lparr>fw_poll_ms := 5000, fw_quiet_ticks := 0, fw_threats_detected := fw_threats_detected s1 + of_nat (length suspects)\<rparr>,
           concat (map (\<lambda>t. [Threat (fw_threat now t), Observation (fw_observation now t)]) suspects))
        else let s2 = s1\<lparr>fw_quiet_ticks := fw_quiet_ticks s1 + 1\<rparr> in
          if 5 \<le> fw_quiet_ticks s2 \<and> fw_poll_ms s2 < 30000
          then (s2\<lparr>fw_poll_ms := min (fw_poll_ms s2 * 2) 30000\<rparr>, []) else (s2, []))"

section \<open>The order of the rules\<close>

definition rule_before :: "FirewallRule \<Rightarrow> FirewallRule \<Rightarrow> bool" where
  "rule_before a b \<longleftrightarrow> fr_priority a < fr_priority b \<or> fr_priority a = fr_priority b \<and> fr_id a < fr_id b"

text \<open>A stable sort of a list whose ids increase within each priority orders by priority and id.\<close>

lemma insort_before:
  "sorted_wrt rule_before ys \<Longrightarrow> (\<forall>y \<in> set ys. fr_priority r = fr_priority y \<longrightarrow> fr_id r < fr_id y) \<Longrightarrow>
   sorted_wrt rule_before (insort_key fr_priority r ys)"
  by (induction ys) (auto simp: rule_before_def set_insort_key)

lemma sort_before:
  "sorted_wrt (\<lambda>a b. fr_priority a = fr_priority b \<longrightarrow> fr_id a < fr_id b) rs \<Longrightarrow> sorted_wrt rule_before (sort_key fr_priority rs)"
  by (induction rs) (simp_all add: insort_before)

definition fw_ok :: "FirewallEngine \<Rightarrow> bool" where
  "fw_ok s \<longleftrightarrow> sorted_wrt rule_before (fw_rules s) \<and> (\<forall>r \<in> set (fw_rules s). fr_id r < fw_next_rule_id s) \<and>
     distinct (map fr_id (fw_rules s)) \<and> fw_poll_ms s \<in> {5000, 10000, 20000, 30000}"

lemma distinct_sort_key: "distinct (map f (sort_key g xs)) = distinct (map f xs)"
  using mset_eq_imp_distinct_iff [of "map f (sort_key g xs)" "map f xs"] by simp

lemma fw_add_ok:
  assumes ok: "fw_ok s" and n: "fw_next_rule_id s < fw_next_rule_id s + 1"
  shows "fw_ok (snd (fw_add_rule rule s))"
proof -
  let ?r = "rule\<lparr>fr_id := fw_next_rule_id s\<rparr>" and ?rs = "fw_rules s"
  have lt: "\<forall>r \<in> set ?rs. fr_id r < fw_next_rule_id s" using ok by (simp add: fw_ok_def)
  have "sorted_wrt (\<lambda>a b. fr_priority a = fr_priority b \<longrightarrow> fr_id a < fr_id b) ?rs"
    by (rule sorted_wrt_mono_rel [of _ rule_before]) (use ok in \<open>auto simp: fw_ok_def rule_before_def\<close>)
  then have "sorted_wrt rule_before (sort_key fr_priority (?rs @ [?r]))"
    using lt by (intro sort_before) (auto simp: sorted_wrt_append)
  moreover have "distinct (map fr_id (sort_key fr_priority (?rs @ [?r])))"
    unfolding distinct_sort_key using ok lt by (auto simp: fw_ok_def)
  ultimately show ?thesis using ok lt n by (auto simp: fw_ok_def fw_add_rule_def Let_def intro: order.strict_trans)
qed

lemma erase_rule_Some: "erase_rule i rs = Some rs' \<Longrightarrow> \<exists>xs r ys. rs = xs @ r # ys \<and> rs' = xs @ ys \<and> fr_id r = i"
proof (induction i rs arbitrary: rs' rule: erase_rule.induct)
  case (2 i r rs)
  show ?case
  proof (cases "fr_id r = i")
    case True
    then show ?thesis using 2(2) by (intro exI [of _ "[]"]) auto
  next
    case False
    then obtain rs1 where "erase_rule i rs = Some rs1" "rs' = r # rs1" using 2(2) by auto
    then show ?thesis using 2(1) [OF False, of rs1] by (metis append_Cons)
  qed
qed simp

lemma set_enabled_Some:
  "set_enabled i b rs = Some rs' \<Longrightarrow> \<exists>xs r ys. rs = xs @ r # ys \<and> rs' = xs @ r\<lparr>fr_enabled := b\<rparr> # ys \<and> fr_id r = i"
proof (induction i b rs arbitrary: rs' rule: set_enabled.induct)
  case (2 i b r rs)
  show ?case
  proof (cases "fr_id r = i")
    case True
    then show ?thesis using 2(2) by (intro exI [of _ "[]"]) auto
  next
    case False
    then obtain rs1 where "set_enabled i b rs = Some rs1" "rs' = r # rs1" using 2(2) by auto
    then show ?thesis using 2(1) [OF False, of rs1] by (metis append_Cons)
  qed
qed simp

section \<open>Runs\<close>

datatype fw_op = FAdd FirewallRule | FRemove u32 | FEnable u32 bool | FStart | FStop | FMonitor time_point
  | FLog ConnectionLog | FEvaluate FirewallDirection FirewallProto u32 u32 u16 u16

fun fw_exec :: "fw_op \<Rightarrow> FirewallEngine \<Rightarrow> FirewallEngine" where
  "fw_exec (FAdd r) s = snd (fw_add_rule r s)"
| "fw_exec (FRemove i) s = snd (fw_remove_rule i s)"
| "fw_exec (FEnable i b) s = snd (fw_enable_rule i b s)"
| "fw_exec FStart s = snd (fw_start s)"
| "fw_exec FStop s = snd (fw_stop s)"
| "fw_exec (FMonitor now) s = fst (fw_monitor_round now s)"
| "fw_exec (FLog c) s = log_connection c s"
| "fw_exec (FEvaluate dir proto a b p q) s = snd (fw_evaluate dir proto a b p q s)"

lemma number_rules_ids:
  "unat i + length rs < 2 ^ 32 \<Longrightarrow> sorted_wrt (<) (map fr_id (number_rules i rs)) \<and>
   (\<forall>r \<in> set (number_rules i rs). unat i \<le> unat (fr_id r) \<and> unat (fr_id r) < unat i + length rs)"
proof (induction rs arbitrary: i)
  case (Cons r rs)
  have "unat (i + 1) = unat i + 1" using Cons.prems by (simp add: unat_word_ariths)
  then show ?case using Cons.IH [of "i + 1"] Cons.prems by (auto simp: word_less_nat_alt Suc_le_eq)
qed simp

lemma install_rules_ok:
  assumes ok: "fw_ok s" and n: "unat (fw_next_rule_id s) + 8 < 2 ^ 32"
  shows "fw_ok (install_default_rules s)"
proof (cases "fw_rules s = []")
  case True
  let ?n = "fw_next_rule_id s" and ?rs = "number_rules (fw_next_rule_id s) default_rules"
  have len: "length default_rules = 8" by (simp add: default_rules_def)
  have ids: "sorted_wrt (<) (map fr_id ?rs)" "\<forall>r \<in> set ?rs. unat (fr_id r) < unat ?n + 8"
    using number_rules_ids [of ?n default_rules] n len by auto
  have "unat (?n + 8) = unat ?n + 8" using n by (simp add: unat_word_ariths)
  then have "\<forall>r \<in> set ?rs. fr_id r < ?n + 8" using ids(2) by (simp add: word_less_nat_alt)
  moreover have "sorted_wrt rule_before (sort_key fr_priority ?rs)"
    by (rule sort_before, rule sorted_wrt_mono_rel [of _ "\<lambda>a b. fr_id a < fr_id b"]) (use ids(1) in \<open>auto simp: sorted_wrt_map\<close>)
  moreover have "distinct (map fr_id ?rs)" using ids(1) strict_sorted_iff by blast
  ultimately show ?thesis using ok True len by (simp add: fw_ok_def install_default_rules_def distinct_sort_key)
qed (use ok in \<open>simp add: install_default_rules_def\<close>)

lemma fw_evaluate_fields [simp]:
  "fw_rules (snd (fw_evaluate dir proto a b p q s)) = fw_rules s" "fw_next_rule_id (snd (fw_evaluate dir proto a b p q s)) = fw_next_rule_id s"
  "fw_poll_ms (snd (fw_evaluate dir proto a b p q s)) = fw_poll_ms s"
  by (simp_all add: fw_evaluate_def Let_def split: option.split)

lemma fw_exec_ok:
  assumes ok: "fw_ok s" and n: "unat (fw_next_rule_id s) + 8 < 2 ^ 32"
  shows "fw_ok (fw_exec op s) \<and> unat (fw_next_rule_id (fw_exec op s)) \<le> unat (fw_next_rule_id s) + 8"
proof -
  have 1: "unat (fw_next_rule_id s + 1) = unat (fw_next_rule_id s) + 1" using n by (simp add: unat_word_ariths)
  have 8: "unat (fw_next_rule_id s + 8) = unat (fw_next_rule_id s) + 8" using n by (simp add: unat_word_ariths)
  show ?thesis
  proof (cases op)
    case (FAdd r)
    then show ?thesis using fw_add_ok [OF ok] 1 by (simp add: word_less_nat_alt fw_add_rule_def Let_def)
  next
    case (FRemove i)
    then show ?thesis using ok by (cases "erase_rule i (fw_rules s)") (auto simp: fw_remove_rule_def fw_ok_def sorted_wrt_append dest!: erase_rule_Some)
  next
    case (FEnable i b)
    then show ?thesis using ok
      by (cases "set_enabled i b (fw_rules s)") (auto simp: fw_enable_rule_def fw_ok_def sorted_wrt_append rule_before_def dest!: set_enabled_Some)
  next
    case FStart
    then show ?thesis using install_rules_ok [OF ok n] ok 8
      by (auto simp: fw_start_def fw_ok_def install_default_rules_def default_rules_def)
  next
    case FStop
    then show ?thesis using ok by (simp add: fw_stop_def fw_ok_def)
  next
    case (FMonitor now)
    then show ?thesis using ok by (auto simp: fw_monitor_round_def fw_ok_def analyze_traffic_def Let_def)
  next
    case (FLog c)
    then show ?thesis using ok by (simp add: log_connection_def fw_ok_def)
  next
    case (FEvaluate dir proto a b p q)
    then show ?thesis using ok by (simp add: fw_ok_def)
  qed
qed

lemma fw_run_ok:
  "fw_ok s \<Longrightarrow> unat (fw_next_rule_id s) + 8 * length ops < 2 ^ 32 \<Longrightarrow> fw_ok (fold fw_exec ops s)"
proof (induction ops arbitrary: s)
  case (Cons op ops)
  then show ?case using fw_exec_ok [of s op] Cons.IH [of "fw_exec op s"] by fastforce
qed simp

lemma fw_ok_new: "fw_ok FirewallEngine_new"
  by (simp add: fw_ok_def FirewallEngine_new_def)

text \<open>The first rule that applies in the list is the least one in the order of priority and id.\<close>

lemma find_least_disj:
  assumes "sorted_wrt rule_before rs"
  shows "find P rs = None \<and> (\<forall>r \<in> set rs. \<not> P r) \<or>
    (\<exists>r \<in> set rs. find P rs = Some r \<and> P r \<and> (\<forall>q \<in> set rs. P q \<longrightarrow> q = r \<or> rule_before r q))"
  using assms by (induction rs) auto

lemma find_least:
  assumes "sorted_wrt rule_before rs"
  obtains (none) "find P rs = None" "\<forall>r \<in> set rs. \<not> P r"
    | (first) r where "find P rs = Some r" "r \<in> set rs" "P r" "\<forall>x \<in> set rs. P x \<longrightarrow> x = r \<or> rule_before r x"
  using find_least_disj [OF assms, of P] by (elim disjE conjE bexE) (blast intro: that)+

lemma evaluate_action:
  "fst (fw_evaluate dir proto a b p q s) =
     (case find (rule_applies dir proto a b p q) (fw_rules s) of None \<Rightarrow> ALLOW | Some r \<Rightarrow> fr_action r)"
  by (simp add: fw_evaluate_def Let_def split: option.split)

section \<open>Traffic statistics\<close>

lemma bump_keys: "dom (map_of (bump k m)) = insert k (dom (map_of m))"
  by (simp add: bump_def update_conv')

lemma bump_distinct: "distinct (map fst m) \<Longrightarrow> distinct (map fst (bump k m))"
  by (simp add: bump_def distinct_update)

definition entry_ok :: "ConnectionLog list \<Rightarrow> IpStats option \<Rightarrow> bool" where
  "entry_ok mine e = (case e of
     None \<Rightarrow> mine = []
   | Some st \<Rightarrow> mine \<noteq> [] \<and> is_total st = length mine \<and> is_denied st = length (filter (\<lambda>c. cl_action_taken c = DENY) mine) \<and>
       distinct (map fst (is_port_scatter st)) \<and> dom (map_of (is_port_scatter st)) = cl_dst_port ` set mine)"

definition stats_ok :: "ConnectionLog list \<Rightarrow> (u32 \<times> IpStats) list \<Rightarrow> bool" where
  "stats_ok cs stats \<longleftrightarrow> distinct (map fst stats) \<and> (\<forall>ip. entry_ok (filter (\<lambda>c. remote_ip c = ip) cs) (map_of stats ip))"

lemma count_connection_ok:
  assumes "stats_ok cs stats"
  shows "stats_ok (cs @ [c]) (count_connection c stats)"
proof -
  have "entry_ok (filter (\<lambda>c. remote_ip c = ip) (cs @ [c])) (map_of (count_connection c stats) ip)" for ip
  proof (cases "remote_ip c = ip")
    case False
    then show ?thesis using assms by (simp add: stats_ok_def count_connection_def Let_def update_conv')
  next
    case True
    have "entry_ok (filter (\<lambda>c. remote_ip c = ip) cs) (map_of stats ip)" using assms by (simp add: stats_ok_def)
    with True show ?thesis
      by (cases "map_of stats ip") (auto simp: entry_ok_def count_connection_def Let_def update_conv' IpStats_zero_def bump_keys bump_distinct)
  qed
  then show ?thesis using assms by (simp add: stats_ok_def count_connection_def Let_def distinct_update)
qed

lemma stats_exact: "stats_ok cs (fold count_connection cs [])"
proof (induction cs rule: rev_induct)
  case Nil
  then show ?case by (simp add: stats_ok_def entry_ok_def)
next
  case (snoc c cs)
  then show ?case using count_connection_ok by simp
qed

lemma port_count:
  assumes "distinct (map fst m)" "dom (map_of m) = S"
  shows "length m = card S"
  using assms by (metis distinct_card dom_map_of_conv_image_fst length_map set_map)

lemma set_map_filter: "set (List.map_filter f xs) = {t. \<exists>e \<in> set xs. f e = Some t}"
  by (induction xs) (auto simp: map_filter_simps split: option.splits)

lemma stats_entry:
  assumes "stats_ok cs stats" "(ip, st) \<in> set stats"
  shows "is_total st = length (filter (\<lambda>c. remote_ip c = ip) cs) \<and>
    is_denied st = length (filter (\<lambda>c. cl_action_taken c = DENY) (filter (\<lambda>c. remote_ip c = ip) cs)) \<and>
    length (is_port_scatter st) = card (cl_dst_port ` set (filter (\<lambda>c. remote_ip c = ip) cs))"
proof -
  have "map_of stats ip = Some st" using assms by (simp add: stats_ok_def)
  moreover have "entry_ok (filter (\<lambda>c. remote_ip c = ip) cs) (map_of stats ip)" using assms(1) unfolding stats_ok_def by blast
  ultimately show ?thesis using port_count [of "is_port_scatter st"] by (simp add: entry_ok_def)
qed

lemma stats_none:
  assumes "stats_ok cs stats" "map_of stats ip = None"
  shows "filter (\<lambda>c. remote_ip c = ip) cs = []"
proof -
  have "entry_ok (filter (\<lambda>c. remote_ip c = ip) cs) (map_of stats ip)" using assms(1) unfolding stats_ok_def by blast
  then show ?thesis using assms(2) by (simp add: entry_ok_def)
qed

lemma suspicion_counts:
  "suspicion (ip, st) = Some t \<Longrightarrow> st_ip t = ip \<and> st_connection_count t = is_total st \<and> st_denied_count t = is_denied st"
  by (auto simp: suspicion_def Let_def split: if_splits)

lemma suspicion_iff:
  "suspicion (ip, st) \<noteq> None \<longleftrightarrow>
     200 \<le> is_total st \<or> 5 \<le> is_denied st \<and> is_total st < is_denied st * 2 \<or> 20 \<le> length (is_port_scatter st)"
  by (auto simp: suspicion_def Let_def FLOOD_THRESHOLD_def DENY_RATIO_THRESH_def)

section \<open>Address arithmetic\<close>

lemma from_chars_octet: "n < 256 \<Longrightarrow> (rest = [] \<or> \<not> is_digit (hd rest)) \<Longrightarrow> from_chars_u32 (to_string n @ rest) = Some n"
  using to_string_digits [of n] by (cases rest) (auto simp: from_chars_u32_def Let_def takeWhile_append2 takeWhile_to_string)

lemma dot_no_digit: "CHR ''.'' \<notin> set (to_string n)"
  using to_string_digits [of n] by (auto simp: is_digit_def)

lemma split_dot: "split_on CHR ''.'' (to_string n @ CHR ''.'' # rest) = to_string n # split_on CHR ''.'' rest"
  using split_on_append_sep [OF dot_no_digit] by simp

lemma split_on_append: "sep \<notin> set xs \<Longrightarrow> split_on sep (xs @ ys) = (xs @ hd (split_on sep ys)) # tl (split_on sep ys)"
  by (induction xs) auto

lemma hd_split_on: "hd (split_on sep ys) = [] \<or> hd (hd (split_on sep ys)) = hd ys"
  by (cases ys) auto

lemma octets_join:
  "push_bit 24 (drop_bit 24 ip AND 0xFF) OR push_bit 16 (drop_bit 16 ip AND 0xFF) OR push_bit 8 (drop_bit 8 ip AND 0xFF) OR (ip AND 0xFF)
     = (ip :: u32)"
proof -
  have m: "(0xFF :: u32) = mask 8" by (simp add: mask_eq_exp_minus_1)
  show ?thesis unfolding m
  proof (rule bit_word_eqI)
    fix i assume "i < LENGTH(32)"
    then consider "i < 8" | "8 \<le> i" "i < 16" | "16 \<le> i" "i < 24" | "24 \<le> i" "i < 32" by (simp, linarith)
    then show "bit (push_bit 24 (drop_bit 24 ip AND mask 8) OR push_bit 16 (drop_bit 16 ip AND mask 8) OR
        push_bit 8 (drop_bit 8 ip AND mask 8) OR ip AND mask 8) i = bit ip i"
      by cases (auto simp: bit_simps)
  qed
qed

lemma ipv4_text:
  assumes "rest = [] \<or> \<not> is_digit (hd rest)"
  shows "parse_ipv4 (ip_to_string ip @ rest) = ip"
proof -
  have lt: "unat (w AND 0xFF) < 256" for w :: u32
  proof -
    have "w AND 0xFF \<le> 0xFF" by (rule word_and_le1)
    then show ?thesis by (simp add: word_le_nat_alt)
  qed
  define h where "h = hd (split_on CHR ''.'' rest)"
  have h: "h = [] \<or> \<not> is_digit (hd h)" using assms hd_split_on [of "CHR ''.''" rest] by (cases rest) (auto simp: h_def)
  have "parse_octets 4 (split_on CHR ''.'' (ip_to_string ip @ rest)) =
      Some [unat (drop_bit 24 ip AND 0xFF), unat (drop_bit 16 ip AND 0xFF), unat (drop_bit 8 ip AND 0xFF), unat (ip AND 0xFF)]"
    using lt from_chars_octet [OF lt, of "[]"] from_chars_octet [OF lt h]
    by (simp add: ip_to_string_def split_dot split_on_append [OF dot_no_digit] numeral_eq_Suc flip: h_def) (simp add: not_less less_Suc_eq_le)
  then show ?thesis unfolding parse_ipv4_def using octets_join [of ip] by simp
qed

lemma cidr_prefix:
  assumes "n \<le> 32"
  shows "a AND cidr_to_mask n = b AND cidr_to_mask n \<longleftrightarrow> drop_bit (32 - n) a = drop_bit (32 - n) b"
proof -
  have m: "cidr_to_mask n = NOT (mask (32 - n))"
  proof (cases "n = 0 \<or> n = 32")
    case True
    then show ?thesis by (auto simp: cidr_to_mask_def mask_eq_exp_minus_1)
  next
    case False
    then show ?thesis using assms by (simp add: cidr_to_mask_def mask_eq_exp_minus_1 push_bit_eq_mult)
  qed
  show ?thesis unfolding m
  proof
    assume "a AND NOT (mask (32 - n)) = b AND NOT (mask (32 - n))"
    then have e: "bit (a AND NOT (mask (32 - n))) i = bit (b AND NOT (mask (32 - n))) i" for i by simp
    have "bit a (32 - n + j) = bit b (32 - n + j)" for j
      using e [of "32 - n + j"] by (cases "32 - n + j < 32") (auto simp: bit_simps dest: bit_imp_le_length)
    then show "drop_bit (32 - n) a = drop_bit (32 - n) b" by (intro bit_word_eqI) (simp add: bit_simps)
  next
    assume "drop_bit (32 - n) a = drop_bit (32 - n) b"
    then have e: "bit (drop_bit (32 - n) a) i = bit (drop_bit (32 - n) b) i" for i by simp
    have "bit a i = bit b i" if "32 - n \<le> i" for i using e [of "i - (32 - n)"] that by (simp add: bit_simps)
    then show "a AND NOT (mask (32 - n)) = b AND NOT (mask (32 - n))" by (intro bit_word_eqI) (auto simp: bit_simps)
  qed
qed

section \<open>Observations\<close>

lemma suspicion_reason: "suspicion e = Some t \<Longrightarrow> st_reason t \<noteq> []"
  by (auto simp: suspicion_def Let_def split: prod.splits if_splits)

lemma fw_observation_valid: "st_reason t \<noteq> [] \<Longrightarrow> obs_valid (fw_observation now t)"
  using unit_double_valid [OF unit_double_fl, of "8/10"] by (simp add: fw_observation_def obs_valid_def SecurityObservation_default_def)

interpretation fw_source: observation_source "\<lambda>(now, s). snd (fw_monitor_round now s)"
proof
  fix obs :: SecurityObservation and i :: "time_point \<times> FirewallEngine"
  assume "Observation obs \<in> set ((\<lambda>(now, s). snd (fw_monitor_round now s)) i)"
  then obtain now t s' where "obs = fw_observation now t" "t \<in> set (suspicious_candidates s')"
    by (auto simp: fw_monitor_round_def Let_def split: prod.splits if_splits)
  then show "obs_valid obs" using suspicion_reason fw_observation_valid by (auto simp: suspicious_candidates_def map_filter_def)
qed

lemma rule_applies_iff:
  "rule_applies dir proto a b p q r \<longleftrightarrow> fr_enabled r \<and> fr_direction r = dir \<and> (fr_protocol r = ANY \<or> fr_protocol r = proto) \<and>
     (fr_src_ip r = 0 \<or> a AND fr_src_mask r = fr_src_ip r AND fr_src_mask r) \<and>
     (fr_dst_ip r = 0 \<or> b AND fr_dst_mask r = fr_dst_ip r AND fr_dst_mask r) \<and>
     fr_port_min r \<le> (if dir = INBOUND then q else p) \<and> (if dir = INBOUND then q else p) \<le> fr_port_max r"
proof -
  have "(65535 :: u16) = - 1" by simp
  then have "port \<le> (65535 :: u16)" for port by (simp only: word_n1_ge)
  then show ?thesis by (auto simp: rule_applies_def Let_def not_less not_le)
qed

section \<open>Properties\<close>

text \<open>
  C24. The firewall decides by the most important rule. After any sequence of calls (rule ids do not wrap), the
  rules lie in the order of priority and then age, and a connection gets the action of the least enabled rule in
  that order that applies to it, or is allowed when no rule applies; exactly one of the two counters goes up.
\<close>

theorem firewall_decision:
  assumes "8 * length ops < 2 ^ 32 - 1" "s = fold fw_exec ops FirewallEngine_new" "(act, s') = fw_evaluate dir proto a b p q s"
  shows "(let port = (if dir = INBOUND then q else p);
        app = {r \<in> set (fw_rules s). fr_enabled r \<and> fr_direction r = dir \<and> (fr_protocol r = ANY \<or> fr_protocol r = proto) \<and>
          (fr_src_ip r = 0 \<or> a AND fr_src_mask r = fr_src_ip r AND fr_src_mask r) \<and>
          (fr_dst_ip r = 0 \<or> b AND fr_dst_mask r = fr_dst_ip r AND fr_dst_mask r) \<and> fr_port_min r \<le> port \<and> port \<le> fr_port_max r} in
      if app = {} then act = ALLOW
      else \<exists>r \<in> app. fr_action r = act \<and> (\<forall>x \<in> app. x = r \<or> fr_priority r < fr_priority x \<or>
             fr_priority r = fr_priority x \<and> fr_id r < fr_id x)) \<and>
    (if act = ALLOW then fw_total_allowed s' = fw_total_allowed s + 1 \<and> fw_total_denied s' = fw_total_denied s
     else fw_total_denied s' = fw_total_denied s + 1 \<and> fw_total_allowed s' = fw_total_allowed s) \<and>
    fw_rules s' = fw_rules s"
proof -
  let ?P = "rule_applies dir proto a b p q"
  have "fw_ok s" unfolding assms(2) by (rule fw_run_ok [OF fw_ok_new]) (use assms(1) in \<open>simp add: FirewallEngine_new_def\<close>)
  then have "sorted_wrt rule_before (fw_rules s)" by (simp add: fw_ok_def)
  then have "(if {r \<in> set (fw_rules s). ?P r} = {} then act = ALLOW
      else \<exists>r \<in> {r \<in> set (fw_rules s). ?P r}. fr_action r = act \<and> (\<forall>x \<in> {r \<in> set (fw_rules s). ?P r}. x = r \<or> fr_priority r < fr_priority x \<or>
             fr_priority r = fr_priority x \<and> fr_id r < fr_id x)) \<and>
    (if act = ALLOW then fw_total_allowed s' = fw_total_allowed s + 1 \<and> fw_total_denied s' = fw_total_denied s
     else fw_total_denied s' = fw_total_denied s + 1 \<and> fw_total_allowed s' = fw_total_allowed s) \<and>
    fw_rules s' = fw_rules s"
  proof (cases rule: find_least [where P = ?P])
    case none
    then show ?thesis using assms(3) by (auto simp: fw_evaluate_def Let_def)
  next
    case (first r)
    then show ?thesis using assms(3) FirewallAction.exhaust [of "fr_action r"]
      by (auto simp: fw_evaluate_def Let_def rule_before_def split: if_splits)
  qed
  then show ?thesis unfolding rule_applies_iff Let_def .
qed

definition sample_deny :: FirewallRule where
  "sample_deny = (default_rule ''deny telnet'' INBOUND DENY TCP 23 23 1)\<lparr>fr_src_ip := 0x0A000000, fr_src_mask := 0xFF000000\<rparr>"

lemma sample_denied: "fst (fw_evaluate INBOUND TCP 0x0A010203 0 5000 23 (fold fw_exec [FStart, FAdd sample_deny] FirewallEngine_new)) = DENY"
  by code_simp

theorem firewall_decision_witness:
  "\<exists>r \<in> set (fw_rules (fold fw_exec [FStart, FAdd sample_deny] FirewallEngine_new)). fr_action r = DENY \<and>
     fr_enabled r \<and> fr_direction r = INBOUND \<and> fr_port_min r \<le> 23 \<and> 23 \<le> fr_port_max r"
proof -
  let ?s = "fold fw_exec [FStart, FAdd sample_deny] FirewallEngine_new"
  obtain s' where "(DENY, s') = fw_evaluate INBOUND TCP 0x0A010203 0 5000 23 ?s"
    using sample_denied by (metis prod.collapse)
  from firewall_decision [OF _ refl this] show ?thesis by (auto simp: Let_def split: if_splits)
qed

text \<open>
  The built-in rules deny nothing. A freshly started firewall holds enabled deny rules, but its rule for loopback
  traffic carries no address and a smaller priority number, so it applies to every inbound connection first;
  together with the default for outbound connections everything is allowed.
\<close>

theorem default_firewall_allows_all:
  "fst (fw_evaluate dir proto a b p q (snd (fw_start FirewallEngine_new))) = ALLOW \<and>
   length (filter (\<lambda>r. fr_action r = DENY \<and> fr_enabled r) (fw_rules (snd (fw_start FirewallEngine_new)))) = 3"
proof -
  have r: "fw_rules (snd (fw_start FirewallEngine_new)) =
    [(default_rule ''Allow loopback in'' INBOUND ALLOW ANY 0 65535 5)\<lparr>fr_id := 5\<rparr>,
     (default_rule ''Allow DNS out'' OUTBOUND ALLOW UDP 53 53 10)\<lparr>fr_id := 1\<rparr>,
     (default_rule ''Allow HTTP out'' OUTBOUND ALLOW TCP 80 80 10)\<lparr>fr_id := 2\<rparr>,
     (default_rule ''Allow HTTPS out'' OUTBOUND ALLOW TCP 443 443 10)\<lparr>fr_id := 3\<rparr>,
     (default_rule ''Allow DHCP out'' OUTBOUND ALLOW UDP 67 68 10)\<lparr>fr_id := 4\<rparr>,
     (default_rule ''Deny known bad ports in'' INBOUND DENY TCP 4444 4444 20)\<lparr>fr_id := 6\<rparr>,
     (default_rule ''Deny Telnet in'' INBOUND DENY TCP 23 23 20)\<lparr>fr_id := 7\<rparr>,
     (default_rule ''Deny RDP brute in'' INBOUND DENY TCP 3389 3389 30)\<lparr>fr_id := 8\<rparr>]"
    by code_simp
  have "find (rule_applies dir proto a b p q) (fw_rules (snd (fw_start FirewallEngine_new))) = None \<or>
      (\<exists>x. find (rule_applies dir proto a b p q) (fw_rules (snd (fw_start FirewallEngine_new))) = Some x \<and> fr_action x = ALLOW)"
    unfolding r by (cases dir) (simp_all add: rule_applies_def default_rule_def)
  then have "fst (fw_evaluate dir proto a b p q (snd (fw_start FirewallEngine_new))) = ALLOW" unfolding evaluate_action by auto
  then show ?thesis unfolding r by (simp add: default_rule_def)
qed

text \<open>
  The id that adding a rule returns: after any calls it is the id of the new rule exactly when no existing
  rule has a larger priority number; otherwise it is the id of another rule.
\<close>

theorem add_rule_returned_id:
  assumes "8 * length ops < 2 ^ 32 - 9" "s = fold fw_exec ops FirewallEngine_new"
  shows "fst (fw_add_rule rule s) = fw_next_rule_id s \<longleftrightarrow> (\<forall>r \<in> set (fw_rules s). fr_priority r \<le> fr_priority rule)"
proof -
  have "fw_ok (fold fw_exec (ops @ [FAdd rule]) FirewallEngine_new)" "fw_ok s" unfolding assms(2)
    by (rule fw_run_ok [OF fw_ok_new]; use assms(1) in \<open>simp add: FirewallEngine_new_def\<close>)+
  then have before: "sorted_wrt rule_before (fw_rules (snd (fw_add_rule rule s)))" and lt: "\<forall>r \<in> set (fw_rules s). fr_id r < fw_next_rule_id s"
    by (simp_all add: assms(2) fw_ok_def)
  define r where "r = rule\<lparr>fr_id := fw_next_rule_id s\<rparr>"
  define L where "L = sort_key fr_priority (fw_rules s @ [r])"
  have L: "sorted_wrt rule_before L" "set L = insert r (set (fw_rules s))" "fst (fw_add_rule rule s) = fr_id (last L)"
    using before by (simp_all add: L_def r_def fw_add_rule_def Let_def)
  have ne: "L \<noteq> []" using L(2) by auto
  have top': "x = last L \<or> rule_before x (last L)" if "x \<in> set L" for x
    using L(1) that by (cases L rule: rev_cases) (auto simp: sorted_wrt_append)
  have l: "last L \<in> set L" using ne by simp
  show ?thesis
  proof
    assume "fst (fw_add_rule rule s) = fw_next_rule_id s"
    then have "fr_id (last L) = fw_next_rule_id s" using L(3) by simp
    then have "last L = r" using l lt unfolding L(2) by auto
    then have "x = r \<or> rule_before x r" if "x \<in> set (fw_rules s)" for x using top' [of x] that L(2) by auto
    then show "\<forall>x \<in> set (fw_rules s). fr_priority x \<le> fr_priority rule" by (fastforce simp: r_def rule_before_def)
  next
    assume le: "\<forall>x \<in> set (fw_rules s). fr_priority x \<le> fr_priority rule"
    have "last L = r"
    proof (rule ccontr)
      assume "last L \<noteq> r"
      then have "last L \<in> set (fw_rules s)" "rule_before r (last L)" using l top' [of r] unfolding L(2) by auto
      then show False using le lt by (force simp: rule_before_def r_def)
    qed
    then show "fst (fw_add_rule rule s) = fw_next_rule_id s" using L(3) by (simp add: r_def)
  qed
qed

theorem add_rule_returned_id_witness:
  "fst (fw_add_rule sample_deny (fold fw_exec [FStart] FirewallEngine_new)) \<noteq> fw_next_rule_id (fold fw_exec [FStart] FirewallEngine_new)"
proof -
  have "\<not> (\<forall>r \<in> set (fw_rules (fold fw_exec [FStart] FirewallEngine_new)). fr_priority r \<le> fr_priority sample_deny)" by code_simp
  then show ?thesis using add_rule_returned_id [of "[FStart]", OF _ refl, of sample_deny] by simp
qed

text \<open>
  Suspicious traffic, exactly: an address is reported once, with its true numbers of logged and denied
  connections, if and only if it has 200 connections, or at least 5 denied ones that are more than half, or
  20 different ports; the report is in descending order of connections.
\<close>

theorem suspicious_traffic_exact:
  "(let mine = (\<lambda>ip. filter (\<lambda>c. remote_ip c = ip) (fw_conn_log s));
        denied = (\<lambda>ip. length (filter (\<lambda>c. cl_action_taken c = DENY) (mine ip))) in
    st_ip ` set (suspicious_candidates s) =
      {ip. 200 \<le> length (mine ip) \<or> 5 \<le> denied ip \<and> length (mine ip) < denied ip * 2 \<or> 20 \<le> card (cl_dst_port ` set (mine ip))} \<and>
    distinct (map st_ip (suspicious_candidates s)) \<and>
    (\<forall>t \<in> set (suspicious_candidates s). st_connection_count t = length (mine (st_ip t)) \<and> st_denied_count t = denied (st_ip t)) \<and>
    sorted_wrt (\<ge>) (map st_connection_count (suspicious_candidates s)))"
proof -
  define mine where "mine = (\<lambda>ip. filter (\<lambda>c. remote_ip c = ip) (fw_conn_log s))"
  define denied where "denied = (\<lambda>ip. length (filter (\<lambda>c. cl_action_taken c = DENY) (mine ip)))"
  define stats where "stats = fold count_connection (fw_conn_log s) []"
  have ok: "stats_ok (fw_conn_log s) stats" unfolding stats_def by (rule stats_exact)
  have st: "is_total x = length (mine ip) \<and> is_denied x = denied ip \<and> length (is_port_scatter x) = card (cl_dst_port ` set (mine ip))"
    if "(ip, x) \<in> set stats" for ip x using stats_entry [OF ok that] by (simp add: mine_def denied_def)
  have none: "mine ip = []" if "map_of stats ip = None" for ip using stats_none [OF ok that] by (simp add: mine_def)
  have d: "distinct (map fst stats)" using ok by (simp add: stats_ok_def)
  have set': "set (suspicious_candidates s) = {t. \<exists>e \<in> set stats. suspicion e = Some t}"
    by (simp add: suspicious_candidates_def stats_def set_map_filter)
  have 1: "st_connection_count t = length (mine (st_ip t)) \<and> st_denied_count t = denied (st_ip t)" if "t \<in> set (suspicious_candidates s)" for t
  proof -
    from that obtain ip x where "(ip, x) \<in> set stats" "suspicion (ip, x) = Some t" unfolding set' by auto
    then show ?thesis using st [of ip x] suspicion_counts [of ip x t] by simp
  qed
  have 2: "ip \<in> st_ip ` set (suspicious_candidates s) \<longleftrightarrow>
      200 \<le> length (mine ip) \<or> 5 \<le> denied ip \<and> length (mine ip) < denied ip * 2 \<or> 20 \<le> card (cl_dst_port ` set (mine ip))" for ip
  proof (cases "map_of stats ip")
    case None
    have "st_ip t \<noteq> ip" if "(i, x) \<in> set stats" "suspicion (i, x) = Some t" for i x t
      using that None suspicion_counts [OF that(2)] by (auto simp: map_of_eq_None_iff rev_image_eqI)
    then have "ip \<notin> st_ip ` set (suspicious_candidates s)" unfolding set' by auto
    then show ?thesis using none [OF None] by (simp add: denied_def)
  next
    case (Some x)
    have e: "(ip, x) \<in> set stats" using Some by (rule map_of_SomeD)
    note x = st [OF e]
    have "ip \<in> st_ip ` set (suspicious_candidates s) \<longleftrightarrow> suspicion (ip, x) \<noteq> None"
    proof
      assume "ip \<in> st_ip ` set (suspicious_candidates s)"
      then obtain y t where "(ip, y) \<in> set stats" "suspicion (ip, y) = Some t" using suspicion_counts unfolding set' by fastforce
      then show "suspicion (ip, x) \<noteq> None" using d e by (metis eq_key_imp_eq_value option.distinct(1))
    next
      assume "suspicion (ip, x) \<noteq> None"
      then obtain t where t: "suspicion (ip, x) = Some t" by blast
      then have "t \<in> set (suspicious_candidates s)" "st_ip t = ip" unfolding set' using e suspicion_counts [OF t] by auto
      then show "ip \<in> st_ip ` set (suspicious_candidates s)" by blast
    qed
    then show ?thesis using x suspicion_iff [of ip x] by simp
  qed
  have "map st_ip (List.map_filter suspicion xs) = map fst (filter (\<lambda>e. suspicion e \<noteq> None) xs)" for xs
    using suspicion_counts by (induction xs) (fastforce simp: map_filter_simps split: option.split)+
  then have 3: "distinct (map st_ip (suspicious_candidates s))"
    using d by (simp add: suspicious_candidates_def distinct_sort_key distinct_map_filter flip: stats_def)
  have "sorted (map (\<lambda>t. - int (st_connection_count t)) (suspicious_candidates s))" unfolding suspicious_candidates_def by simp
  then have 4: "sorted_wrt (\<ge>) (map st_connection_count (suspicious_candidates s))" by (simp add: sorted_wrt_map)
  show ?thesis unfolding Let_def using 1 2 3 4 unfolding mine_def denied_def by blast
qed

text \<open>
  Addresses: every IPv4 address reads back from its text form, and for a prefix length up to 32 the computed mask
  compares exactly the first bits of two addresses.
\<close>

theorem ipv4_addresses:
  assumes "n \<le> 32"
  shows "parse_ipv4 (ip_to_string ip) = ip \<and>
    (a AND cidr_to_mask n = b AND cidr_to_mask n \<longleftrightarrow> drop_bit (32 - n) a = drop_bit (32 - n) b)"
  using ipv4_text [where rest = "[]" and ip = ip] cidr_prefix [OF assms] by simp

theorem ipv4_addresses_witness:
  "parse_ipv4 (ip_to_string 0xC0A80001) = 0xC0A80001 \<and> 0xC0A80001 AND cidr_to_mask 24 = 0xC0A800FF AND cidr_to_mask 24"
  using ipv4_addresses [of 24 "0xC0A80001" "0xC0A80001" "0xC0A800FF"] by (simp add: drop_bit_eq_div)

end
