(* ===== verification/Yara_Engine.thy ===== *)
theory Yara_Engine
  imports Engine_Base
begin

text \<open>
  \<^verbatim>\<open>engines/yara_engine.{hpp,cpp}\<close>: rules made of text and hex strings, the rule text parser, the hex pattern
  parser, the search for a string in a buffer (Boyer-Moore-Horspool for longer patterns without wildcards, a direct
  comparison otherwise) and the evaluation of the conditions. The matches of a rule are kept in an \<^verbatim>\<open>unordered_map\<close>,
  here an association list; the theorems speak of the set of reported matches. Files enter as their contents.
\<close>

section \<open>Rules\<close>

record YaraString =
  ys_identifier :: string
  ys_pattern :: bytes
  ys_mask :: bytes
  ys_is_hex :: bool
  ys_nocase :: bool
  ys_wide :: bool
  ys_ascii :: bool

datatype ConditionOp = ALL_OF_THEM | ANY_OF_THEM | COUNT_GE

record YaraRule =
  yr_name :: string
  yr_description :: string
  yr_tags :: "string list"
  yr_strings :: "YaraString list"
  yr_condition :: ConditionOp
  yr_condition_count :: nat
  yr_threat_level :: ThreatLevel

record YaraMatch =
  ym_rule_name :: string
  ym_matched_string_id :: string
  ym_offset :: nat
  ym_length :: nat

record YaraEngine =
  ya_running :: bool
  ya_events_processed :: u64
  ya_threats_detected :: u64
  ya_rules :: "YaraRule list"

definition YaraString_default :: YaraString where
  "YaraString_default = \<lparr>ys_identifier = [], ys_pattern = [], ys_mask = [], ys_is_hex = False, ys_nocase = False,
     ys_wide = False, ys_ascii = True\<rparr>"

definition YaraRule_default :: YaraRule where
  "YaraRule_default = \<lparr>yr_name = [], yr_description = [], yr_tags = [], yr_strings = [], yr_condition = ANY_OF_THEM,
     yr_condition_count = 1, yr_threat_level = HIGH\<rparr>"

definition YaraEngine_new :: YaraEngine where
  "YaraEngine_new = \<lparr>ya_running = False, ya_events_processed = 0, ya_threats_detected = 0, ya_rules = []\<rparr>"

definition yara_add_rule :: "YaraRule \<Rightarrow> YaraEngine \<Rightarrow> YaraEngine" where
  "yara_add_rule rule s = s\<lparr>ya_rules := ya_rules s @ [rule]\<rparr>"

definition yara_rule_count :: "YaraEngine \<Rightarrow> nat" where
  "yara_rule_count s = length (ya_rules s)"

definition yara_clear_rules :: "YaraEngine \<Rightarrow> YaraEngine" where
  "yara_clear_rules s = s\<lparr>ya_rules := []\<rparr>"

section \<open>Patterns from text\<close>

definition text_to_pattern :: "string \<Rightarrow> bool \<Rightarrow> bytes" where
  "text_to_pattern txt wide = (if wide then concat (map (\<lambda>c. [byte_of c, 0x00]) txt) else map byte_of txt)"

definition push_byte :: "u8 \<Rightarrow> u8 \<Rightarrow> (bytes \<times> bytes) option \<Rightarrow> (bytes \<times> bytes) option" where
  "push_byte p m r = (case r of None \<Rightarrow> None | Some (ps, ms) \<Rightarrow> Some (p # ps, m # ms))"

fun hex_loop :: "string \<Rightarrow> (bytes \<times> bytes) option" where
  "hex_loop [] = Some ([], [])"
| "hex_loop (c # cs) =
     (if c = CHR '' '' \<or> c = CHR ''{'' \<or> c = CHR ''}'' then hex_loop cs
      else if c = CHR ''?'' then
        push_byte 0x00 0x00 (if cs \<noteq> [] \<and> hd cs = CHR ''?'' then hex_loop (tl cs) else hex_loop cs)
      else if cs = [] then None
      else case (hex_val c, hex_val (hd cs)) of
        (Some h, Some l) \<Rightarrow> push_byte (push_bit 4 (of_nat h) OR of_nat l) 0xFF (hex_loop (tl cs))
      | _ \<Rightarrow> None)"

text \<open>None stands for the result false; the partly filled output vectors are not used by any caller then.\<close>

definition parse_hex_pattern :: "string \<Rightarrow> (bytes \<times> bytes) option" where
  "parse_hex_pattern hex_str = (case hex_loop hex_str of
     None \<Rightarrow> None | Some (ps, ms) \<Rightarrow> if ps \<noteq> [] then Some (ps, ms) else None)"

section \<open>The rule text parser\<close>

definition rfind_char :: "char \<Rightarrow> string \<Rightarrow> nat option" where
  "rfind_char c s = map_option (\<lambda>k. length s - 1 - k) (find_char c (rev s))"

record yara_parse =
  yp_engine :: YaraEngine
  yp_current :: YaraRule
  yp_in_rule :: bool
  yp_added_any :: bool

definition name_sep :: "char \<Rightarrow> bool" where
  "name_sep c \<longleftrightarrow> c = CHR '' '' \<or> c = CHR 0x09 \<or> c = CHR '':'' \<or> c = CHR ''{''"

text \<open>A line that starts a rule: the finished rule is added, and the name is read behind the keyword.\<close>

definition parse_header :: "string \<Rightarrow> yara_parse \<Rightarrow> yara_parse" where
  "parse_header trimmed p =
     (let p1 = (if yp_in_rule p \<and> yr_strings (yp_current p) \<noteq> []
                then p\<lparr>yp_engine := yara_add_rule (yp_current p) (yp_engine p), yp_added_any := True, yp_current := YaraRule_default\<rparr>
                else p);
          rest = dropWhile name_sep (drop 4 trimmed);
          cur = yp_current p1;
          cur1 = (if rest \<noteq> [] then cur\<lparr>yr_name := takeWhile (\<lambda>c. \<not> name_sep c) rest\<rparr> else cur);
          cur2 = (if yr_name cur1 = [] then cur1\<lparr>yr_name := ''CustomRule_'' @ to_string (yara_rule_count (yp_engine p1) + 1)\<rparr> else cur1)
      in p1\<lparr>yp_in_rule := True, yp_current := cur2\<rparr>)"

definition parse_level :: "string \<Rightarrow> YaraRule \<Rightarrow> YaraRule" where
  "parse_level trimmed r =
     (if contains_text ''CRITICAL'' trimmed then r\<lparr>yr_threat_level := CRITICAL\<rparr>
      else if contains_text ''HIGH'' trimmed then r\<lparr>yr_threat_level := HIGH\<rparr>
      else if contains_text ''MEDIUM'' trimmed then r\<lparr>yr_threat_level := MEDIUM\<rparr>
      else r)"

definition text_string :: "string \<Rightarrow> string \<Rightarrow> bool \<Rightarrow> bool \<Rightarrow> YaraString" where
  "text_string ident literal nocase wide =
     (let pat = text_to_pattern literal wide in
      \<lparr>ys_identifier = ident, ys_pattern = pat, ys_mask = replicate (length pat) 0xFF, ys_is_hex = False,
        ys_nocase = nocase, ys_wide = wide, ys_ascii = (\<not> wide)\<rparr>)"

text \<open>A line that starts with a dollar sign: at most one string is added.\<close>

definition parse_string :: "string \<Rightarrow> YaraRule \<Rightarrow> YaraRule" where
  "parse_string trimmed r =
     (case find_char CHR ''='' trimmed of
        None \<Rightarrow> r
      | Some eq_pos \<Rightarrow>
          let ident = takeWhile (\<lambda>c. c \<noteq> CHR '' '' \<and> c \<noteq> CHR 0x09 \<and> c \<noteq> CHR ''='') trimmed;
              rest = drop (eq_pos + 1) trimmed in
          case find_char CHR 0x22 rest of
            Some quote_start \<Rightarrow>
              (case rfind_char CHR 0x22 rest of
                 None \<Rightarrow> r
               | Some quote_end \<Rightarrow>
                   if quote_start < quote_end then
                     let literal = sub_bytes rest (quote_start + 1) (quote_end - quote_start - 1);
                         nocase = contains_text ''nocase'' (drop quote_end rest); wide = contains_text ''wide'' (drop quote_end rest)
                     in r\<lparr>yr_strings := yr_strings r @ [text_string ident literal nocase wide]\<rparr>
                   else r)
          | None \<Rightarrow>
              (case find_char CHR ''{'' rest of
                 None \<Rightarrow> r
               | Some hex_start \<Rightarrow>
                   (case rfind_char CHR ''}'' rest of
                      None \<Rightarrow> r
                    | Some hex_end \<Rightarrow>
                        if hex_start < hex_end then
                          (case parse_hex_pattern (sub_bytes rest (hex_start + 1) (hex_end - hex_start - 1)) of
                             None \<Rightarrow> r
                           | Some (pat, msk) \<Rightarrow> r\<lparr>yr_strings := yr_strings r @
                               [YaraString_default\<lparr>ys_identifier := ident, ys_pattern := pat, ys_mask := msk, ys_is_hex := True\<rparr>]\<rparr>)
                        else r)))"

definition parse_condition :: "string \<Rightarrow> YaraRule \<Rightarrow> YaraRule" where
  "parse_condition trimmed r =
     (if contains_text ''all of them'' trimmed then r\<lparr>yr_condition := ALL_OF_THEM\<rparr>
      else if contains_text ''any of them'' trimmed then r\<lparr>yr_condition := ANY_OF_THEM\<rparr>
      else r)"

definition parse_line :: "yara_parse \<Rightarrow> string \<Rightarrow> yara_parse" where
  "parse_line p line =
     (let trimmed = trim line in
      if trimmed = [] then p
      else if hd trimmed = CHR ''#'' \<or> starts_with trimmed ''//'' then p
      else if starts_with trimmed ''rule '' \<or> starts_with trimmed ''rule:'' then parse_header trimmed p
      else if \<not> yp_in_rule p then p
      else let r1 = parse_level trimmed (yp_current p); r2 = (if hd trimmed = CHR ''$'' then parse_string trimmed r1 else r1)
        in p\<lparr>yp_current := parse_condition trimmed r2\<rparr>)"

definition add_rule_from_string :: "string \<Rightarrow> YaraEngine \<Rightarrow> bool \<times> YaraEngine" where
  "add_rule_from_string rule_text s =
     (let p = foldl parse_line \<lparr>yp_engine = s, yp_current = YaraRule_default, yp_in_rule = False, yp_added_any = False\<rparr> (getlines rule_text) in
      if yp_in_rule p \<and> yr_strings (yp_current p) \<noteq> [] then (True, yara_add_rule (yp_current p) (yp_engine p))
      else (yp_added_any p, yp_engine p))"

section \<open>Searching a buffer\<close>

definition lower_byte :: "u8 \<Rightarrow> u8" where
  "lower_byte b = (if 0x41 \<le> b \<and> b \<le> 0x5A then b - 0x41 + 0x61 else b)"

definition upper_byte :: "u8 \<Rightarrow> u8" where
  "upper_byte b = (if 0x61 \<le> b \<and> b \<le> 0x7A then b - 0x61 + 0x41 else b)"

definition folded :: "YaraString \<Rightarrow> u8 \<Rightarrow> u8" where
  "folded str b = (if ys_nocase str \<and> \<not> ys_is_hex str then lower_byte b else b)"

definition shift_entry :: "YaraString \<Rightarrow> nat list \<Rightarrow> nat \<Rightarrow> nat list" where
  "shift_entry str shift j =
     (let p = ys_pattern str ! j; v = length (ys_pattern str) - 1 - j in
      if ys_nocase str \<and> \<not> ys_is_hex str then (shift[unat (lower_byte p) := v])[unat (upper_byte p) := v]
      else shift[unat p := v])"

definition bmh_shift :: "YaraString \<Rightarrow> nat list" where
  "bmh_shift str = foldl (shift_entry str) (replicate 256 (length (ys_pattern str))) [0..<length (ys_pattern str) - 1]"

definition bmh_match :: "YaraString \<Rightarrow> bytes \<Rightarrow> nat \<Rightarrow> bool" where
  "bmh_match str data i = list_all (\<lambda>j. folded str (data ! (i + j)) = folded str (ys_pattern str ! j)) (rev [0..<length (ys_pattern str)])"

lemma shift_entry_length [simp]: "length (shift_entry str shift j) = length shift"
  by (simp add: shift_entry_def Let_def)

lemma shift_entry_bounds:
  assumes "\<forall>x \<in> set shift. 0 < x" "j + 1 < length (ys_pattern str)"
  shows "\<forall>x \<in> set (shift_entry str shift j). 0 < x"
  using assms by (auto simp: shift_entry_def Let_def dest!: subsetD [OF set_update_subset_insert])

lemma bmh_shift_pos:
  assumes "ys_pattern str \<noteq> []"
  shows "length (bmh_shift str) = 256 \<and> (\<forall>x \<in> set (bmh_shift str). 0 < x)"
proof -
  have "length (foldl (shift_entry str) t [0..<n]) = length t \<and> (\<forall>x \<in> set (foldl (shift_entry str) t [0..<n]). 0 < x)"
    if "\<forall>x \<in> set t. 0 < x" "n + 1 \<le> length (ys_pattern str)" for t n
    using that
  proof (induction n)
    case (Suc n)
    then show ?case using shift_entry_bounds [of "foldl (shift_entry str) t [0..<n]" n str] by simp
  qed simp
  from this [of "replicate 256 (length (ys_pattern str))" "length (ys_pattern str) - 1"] show ?thesis
    using assms by (simp add: bmh_shift_def Suc_leI)
qed

lemma bmh_step_pos: "\<not> bmh_match str data i \<Longrightarrow> 0 < bmh_shift str ! unat (b :: u8)"
  using bmh_shift_pos [of str] by (cases "ys_pattern str") (auto simp: bmh_match_def)

text \<open>
  The search loop. The table is the same in every round; a mismatch means that the pattern is not empty, and then every
  entry of the table is positive, so the position advances in every round.
\<close>

function bmh_loop :: "YaraString \<Rightarrow> bytes \<Rightarrow> nat \<Rightarrow> nat list" where
  "bmh_loop str data i =
     (if i \<le> length data - length (ys_pattern str) then
        if bmh_match str data i then i # bmh_loop str data (i + 1)
        else bmh_loop str data (i + bmh_shift str ! unat (folded str (data ! (i + length (ys_pattern str) - 1))))
      else [])"
  by pat_completeness auto

termination
proof (relation "measure (\<lambda>(str, data, i). length data - length (ys_pattern str) + 1 - i)")
  fix str data i
  assume "i \<le> length data - length (ys_pattern str)" "\<not> bmh_match str data i"
  moreover from bmh_step_pos [OF this(2)]
  have "0 < bmh_shift str ! unat (folded str (data ! (i + length (ys_pattern str) - 1)))" .
  ultimately show "((str, data, i + bmh_shift str ! unat (folded str (data ! (i + length (ys_pattern str) - 1)))), str, data, i)
      \<in> measure (\<lambda>(str, data, i). length data - length (ys_pattern str) + 1 - i)" by simp
qed simp_all

declare bmh_loop.simps [simp del]

definition mask_match :: "YaraString \<Rightarrow> bytes \<Rightarrow> nat \<Rightarrow> bool" where
  "mask_match str data i = list_all (\<lambda>j.
     let m = (if j < length (ys_mask str) then ys_mask str ! j else 0xFF); d = data ! (i + j); p = ys_pattern str ! j;
         fold_case = (ys_nocase str \<and> m = 0xFF \<and> \<not> ys_is_hex str);
         d' = (if fold_case then lower_byte d else d); p' = (if fold_case then lower_byte p else p)
     in d' AND m = p' AND m) [0..<length (ys_pattern str)]"

definition find_pattern :: "bytes \<Rightarrow> YaraString \<Rightarrow> nat list" where
  "find_pattern data str =
     (if ys_pattern str = [] \<or> length data < length (ys_pattern str) then []
      else if 4 \<le> length (ys_pattern str) \<and> \<not> list_ex (\<lambda>m. m \<noteq> 0xFF) (ys_mask str) then bmh_loop str data 0
      else filter (mask_match str data) [0..<length data - length (ys_pattern str) + 1])"

section \<open>Conditions and scans\<close>

definition matched :: "(string \<times> nat list) list \<Rightarrow> YaraString \<Rightarrow> bool" where
  "matched matches str = (case map_of matches (ys_identifier str) of None \<Rightarrow> False | Some offs \<Rightarrow> offs \<noteq> [])"

definition evaluate_condition :: "YaraRule \<Rightarrow> (string \<times> nat list) list \<Rightarrow> bool" where
  "evaluate_condition rule matches = (case yr_condition rule of
     ALL_OF_THEM \<Rightarrow> list_all (matched matches) (yr_strings rule)
   | ANY_OF_THEM \<Rightarrow> list_ex (matched matches) (yr_strings rule)
   | COUNT_GE \<Rightarrow> yr_condition_count rule \<le> length (filter (matched matches) (yr_strings rule)))"

definition record_offsets :: "bytes \<Rightarrow> (string \<times> nat list) list \<Rightarrow> YaraString \<Rightarrow> (string \<times> nat list) list" where
  "record_offsets data m str =
     (let offsets = find_pattern data str in if offsets \<noteq> [] then AList.update (ys_identifier str) offsets m else m)"

definition string_matches :: "bytes \<Rightarrow> YaraRule \<Rightarrow> (string \<times> nat list) list" where
  "string_matches data rule = foldl (record_offsets data) [] (yr_strings rule)"

definition match_entry :: "YaraRule \<Rightarrow> string \<Rightarrow> nat \<Rightarrow> YaraMatch" where
  "match_entry rule i off = \<lparr>ym_rule_name = yr_name rule, ym_matched_string_id = i, ym_offset = off,
     ym_length = (case find (\<lambda>str. ys_identifier str = i) (yr_strings rule) of None \<Rightarrow> 0 | Some str \<Rightarrow> length (ys_pattern str))\<rparr>"

definition rule_matches :: "YaraRule \<Rightarrow> (string \<times> nat list) list \<Rightarrow> YaraMatch list" where
  "rule_matches rule matches = concat (map (\<lambda>(i, offs). map (match_entry rule i) offs) matches)"

definition scan_buffer :: "YaraEngine \<Rightarrow> bytes \<Rightarrow> YaraMatch list" where
  "scan_buffer s data =
     concat (map (\<lambda>rule. let m = string_matches data rule in if evaluate_condition rule m then rule_matches rule m else []) (ya_rules s))"

text \<open>\<open>None\<close>: the size is not available or the file cannot be opened or read.\<close>

definition yara_scan_file :: "YaraEngine \<Rightarrow> bytes option \<Rightarrow> YaraMatch list" where
  "yara_scan_file s contents = (case contents of
     None \<Rightarrow> []
   | Some data \<Rightarrow> if length data = 0 \<or> 64 * 1024 * 1024 < length data then [] else scan_buffer s data)"

section \<open>Built-in rules, loading, start and stop\<close>

definition plain_text :: "string \<Rightarrow> string \<Rightarrow> bool \<Rightarrow> YaraString" where
  "plain_text ident txt nocase = YaraString_default\<lparr>ys_identifier := ident, ys_pattern := text_to_pattern txt False, ys_nocase := nocase\<rparr>"

definition hex_bytes :: "string \<Rightarrow> bytes \<Rightarrow> bytes \<Rightarrow> YaraString" where
  "hex_bytes ident pat msk = YaraString_default\<lparr>ys_identifier := ident, ys_pattern := pat, ys_mask := msk, ys_is_hex := True\<rparr>"

definition builtin_rules :: "YaraRule list" where
  "builtin_rules = [
     \<lparr>yr_name = ''GCAD_MZ_Header'', yr_description = ''Detects PE executables'', yr_tags = [''pe'', ''executable''],
       yr_strings = [hex_bytes ''$mz'' [0x4D, 0x5A] [0xFF, 0xFF]],
       yr_condition = ANY_OF_THEM, yr_condition_count = 1, yr_threat_level = LOW\<rparr>,
     \<lparr>yr_name = ''GCAD_Suspicious_PowerShell'', yr_description = ''Detects obfuscated PowerShell patterns'',
       yr_tags = [''powershell'', ''obfuscation''],
       yr_strings = [plain_text ''$enc_cmd'' ''-EncodedCommand'' True, plain_text ''$bypass'' ''-ExecutionPolicy Bypass'' True,
         plain_text ''$hidden'' ''-WindowStyle Hidden'' True, plain_text ''$iex'' ''IEX(New-Object'' True],
       yr_condition = COUNT_GE, yr_condition_count = 2, yr_threat_level = HIGH\<rparr>,
     \<lparr>yr_name = ''GCAD_Cobalt_Strike_Beacon'', yr_description = ''Detects Cobalt Strike beacon patterns'',
       yr_tags = [''apt'', ''c2'', ''cobalt_strike''],
       yr_strings = [plain_text ''$pipe'' ([CHR 0x5C, CHR 0x5C, CHR ''.'', CHR 0x5C] @ ''pipe'' @ [CHR 0x5C] @ ''msagent_'') False,
         (case parse_hex_pattern ''00 01 00 01 00 02 ?? ?? 00 02 00 01 00 02 ?? ??'' of
            None \<Rightarrow> hex_bytes ''$config'' [] [] | Some (pat, msk) \<Rightarrow> hex_bytes ''$config'' pat msk),
         plain_text ''$sleep_mask'' ''beacon.dll'' False],
       yr_condition = COUNT_GE, yr_condition_count = 2, yr_threat_level = CRITICAL\<rparr>,
     \<lparr>yr_name = ''GCAD_Mimikatz_Strings'', yr_description = ''Detects Mimikatz credential dumper'',
       yr_tags = [''credential'', ''mimikatz''],
       yr_strings = [plain_text ''$sekurlsa'' ''sekurlsa::logonpasswords'' True, plain_text ''$gentilkiwi'' ''gentilkiwi'' False,
         plain_text ''$lsadump'' ''lsadump::sam'' True],
       yr_condition = ANY_OF_THEM, yr_condition_count = 1, yr_threat_level = CRITICAL\<rparr>,
     \<lparr>yr_name = ''GCAD_Ransomware_Note'', yr_description = ''Detects common ransomware note patterns'',
       yr_tags = [''ransomware'', ''ransom_note''],
       yr_strings = [plain_text ''$encrypted'' ''Your files have been encrypted'' True, plain_text ''$bitcoin'' ''bitcoin wallet'' True,
         plain_text ''$decrypt_tool'' ''decryption tool'' True, plain_text ''$pay_ransom'' ''pay the ransom'' True],
       yr_condition = COUNT_GE, yr_condition_count = 2, yr_threat_level = CRITICAL\<rparr>,
     \<lparr>yr_name = ''GCAD_Shellcode_NOP_Sled'', yr_description = ''Detects NOP sled patterns common in shellcode'',
       yr_tags = [''shellcode'', ''exploit''],
       yr_strings = [hex_bytes ''$nop_sled'' (replicate 16 0x90) (replicate 16 0xFF)],
       yr_condition = ANY_OF_THEM, yr_condition_count = 1, yr_threat_level = HIGH\<rparr>]"

definition load_builtin_rules :: "YaraEngine \<Rightarrow> YaraEngine" where
  "load_builtin_rules s = fold yara_add_rule builtin_rules s"

text \<open>A directory entry: whether it is a regular file, its extension, and its contents if it opens.\<close>

type_synonym dir_entry = "bool \<times> string \<times> string option"

definition load_entry :: "nat \<times> YaraEngine \<Rightarrow> dir_entry \<Rightarrow> nat \<times> YaraEngine" where
  "load_entry st e = (case (st, e) of ((loaded, s), (regular, ext, content)) \<Rightarrow>
     if \<not> regular then (loaded, s)
     else if ext = ''.yar'' \<or> ext = ''.yara'' \<or> ext = ''.txt'' then
       (case content of
          None \<Rightarrow> (loaded, s)
        | Some txt \<Rightarrow> (case add_rule_from_string txt s of (ok, s') \<Rightarrow> (if ok then loaded + 1 else loaded, s')))
     else (loaded, s))"

definition load_rules_from_directory :: "dir_entry list option \<Rightarrow> YaraEngine \<Rightarrow> nat \<times> YaraEngine" where
  "load_rules_from_directory dir s = (case dir of None \<Rightarrow> (0, s) | Some entries \<Rightarrow> foldl load_entry (0, s) entries)"

definition reload_rules :: "bool \<Rightarrow> dir_entry list option \<Rightarrow> YaraEngine \<Rightarrow> nat \<times> YaraEngine" where
  "reload_rules has_path dir s =
     (let s1 = load_builtin_rules (yara_clear_rules s);
          s2 = (if has_path then snd (load_rules_from_directory dir s1) else s1)
      in (yara_rule_count s2, s2))"

definition yara_start :: "YaraEngine \<Rightarrow> ErrorCode \<times> YaraEngine" where
  "yara_start s = (if ya_running s then (OK, s)
     else (OK, (if ya_rules s = [] then load_builtin_rules s else s)\<lparr>ya_running := True\<rparr>))"

definition yara_stop :: "YaraEngine \<Rightarrow> ErrorCode \<times> YaraEngine" where
  "yara_stop s = (if \<not> ya_running s then (OK, s) else (OK, s\<lparr>ya_running := False\<rparr>))"

text \<open>The reports, with the callbacks installed; no function of the engine calls them, and the scan loop only sleeps.\<close>

definition yara_emit_threat :: "string \<Rightarrow> string \<Rightarrow> string \<Rightarrow> YaraEngine \<Rightarrow> YaraEngine \<times> emission list" where
  "yara_emit_threat rule_name file_path evidence s =
     (s\<lparr>ya_threats_detected := ya_threats_detected s + 1\<rparr>,
      [Threat (ThreatEvent_default\<lparr>ev_level := HIGH, ev_category := YARA_RULE_MATCH,
         ev_description := ''YARA rule matched: '' @ rule_name @ [CHR 0x20, CHR 0xE2, CHR 0x80, CHR 0x94, CHR 0x20] @ evidence,
         ev_file_path := file_path\<rparr>)])"

definition yara_emit_observation :: "time_point \<Rightarrow> string \<Rightarrow> string \<Rightarrow> double \<Rightarrow> string \<Rightarrow> emission list" where
  "yara_emit_observation now rule_name file_path confidence evidence =
     [Observation (SecurityObservation_default\<lparr>obs_source_id := ''yara'', obs_kind := YARA_MATCH, obs_timestamp := now,
        obs_suggested_level := HIGH, obs_confidence := confidence, obs_deterministic := True, obs_file_path := file_path,
        obs_evidence := ''YARA:'' @ rule_name @ '' '' @ evidence\<rparr>)]"

section \<open>The search finds exactly the occurrences\<close>

text \<open>The table entry of a folded pattern byte is at most the distance of its last position from the end.\<close>

lemma shift_entry_le:
  assumes "length shift = 256" "j < length (ys_pattern str)" "\<forall>k < j. shift ! unat (folded str (ys_pattern str ! k)) \<le> length (ys_pattern str) - 1 - k"
  shows "\<forall>k < j + 1. shift_entry str shift j ! unat (folded str (ys_pattern str ! k)) \<le> length (ys_pattern str) - 1 - k"
proof (intro allI impI)
  fix k assume k: "k < j + 1"
  have lt: "unat (b :: u8) < length shift" for b using assms(1) unat_lt_u8 by simp
  show "shift_entry str shift j ! unat (folded str (ys_pattern str ! k)) \<le> length (ys_pattern str) - 1 - k"
  proof (cases "k = j")
    case True
    then show ?thesis using lt by (auto simp: shift_entry_def Let_def folded_def nth_list_update)
  next
    case False
    then have "k < j" using k by simp
    then have "shift ! unat (folded str (ys_pattern str ! k)) \<le> length (ys_pattern str) - 1 - k"
      "length (ys_pattern str) - 1 - j \<le> length (ys_pattern str) - 1 - k" using assms(3) by auto
    then show ?thesis using lt by (auto simp: shift_entry_def Let_def nth_list_update)
  qed
qed

lemma bmh_shift_le:
  assumes "k + 1 < length (ys_pattern str)"
  shows "bmh_shift str ! unat (folded str (ys_pattern str ! k)) \<le> length (ys_pattern str) - 1 - k"
proof -
  have "length (foldl (shift_entry str) (replicate 256 c) [0..<n]) = 256 \<and>
      (\<forall>k < n. foldl (shift_entry str) (replicate 256 c) [0..<n] ! unat (folded str (ys_pattern str ! k)) \<le> length (ys_pattern str) - 1 - k)"
    if "n \<le> length (ys_pattern str)" for n c
    using that
  proof (induction n)
    case (Suc n)
    then show ?case using shift_entry_le [of "foldl (shift_entry str) (replicate 256 c) [0..<n]" n str] by simp
  qed simp
  then show ?thesis using assms by (simp add: bmh_shift_def less_diff_conv)
qed

text \<open>No occurrence lies within the distance that a mismatch skips.\<close>

lemma bmh_skip:
  assumes "bmh_match str data (i + k)" "0 < k" "i + length (ys_pattern str) \<le> length data"
  shows "bmh_shift str ! unat (folded str (data ! (i + length (ys_pattern str) - 1))) \<le> k \<or> length (ys_pattern str) \<le> k"
proof (cases "k < length (ys_pattern str)")
  case True
  define j where "j = length (ys_pattern str) - 1 - k"
  have j: "j + 1 < length (ys_pattern str)" "i + k + j = i + length (ys_pattern str) - 1" "length (ys_pattern str) - 1 - j = k"
    using True assms(2) by (auto simp: j_def)
  have "folded str (data ! (i + k + j)) = folded str (ys_pattern str ! j)"
    using assms(1) j(1) by (simp add: bmh_match_def list_all_iff)
  then show ?thesis using bmh_shift_le [OF j(1)] j by simp
qed simp

lemma bmh_shift_entry_le: "ys_pattern str \<noteq> [] \<Longrightarrow> bmh_shift str ! unat (b :: u8) \<le> length (ys_pattern str)"
proof -
  have e: "\<forall>x \<in> set (shift_entry str t j). x \<le> length (ys_pattern str)" if "\<forall>x \<in> set t. x \<le> length (ys_pattern str)" for t j
    using that by (auto simp: shift_entry_def Let_def dest!: subsetD [OF set_update_subset_insert])
  have f: "\<forall>x \<in> set (foldl (shift_entry str) t [0..<n]). x \<le> length (ys_pattern str)" if "\<forall>x \<in> set t. x \<le> length (ys_pattern str)" for t n
    using that e by (induction n) simp_all
  assume "ys_pattern str \<noteq> []"
  then have "unat b < length (bmh_shift str)" using bmh_shift_pos [of str] unat_lt_u8 [of b] by simp
  then have "bmh_shift str ! unat b \<in> set (bmh_shift str)" by simp
  moreover have "\<forall>x \<in> set (bmh_shift str). x \<le> length (ys_pattern str)" unfolding bmh_shift_def by (rule f) simp
  ultimately show ?thesis by blast
qed

lemma upt_split_filter:
  assumes "i \<le> m" "m \<le> n" "\<And>k. i \<le> k \<Longrightarrow> k < m \<Longrightarrow> \<not> P k"
  shows "filter P [i..<n] = filter P [m..<n]"
proof -
  have "[i..<n] = [i..<m] @ [m..<n]" using assms(1,2) by (metis le_Suc_ex upt_add_eq_append)
  moreover have "filter P [i..<m] = []" using assms(3) by (auto simp: filter_empty_conv)
  ultimately show ?thesis by simp
qed

lemma bmh_loop_filter:
  assumes "ys_pattern str \<noteq> []" "length (ys_pattern str) \<le> length data"
  shows "bmh_loop str data i = filter (bmh_match str data) [i..<length data - length (ys_pattern str) + 1]"
  using assms
proof (induction str data i rule: bmh_loop.induct)
  case (1 str data i)
  let ?n = "length data - length (ys_pattern str) + 1" and ?L = "length (ys_pattern str)"
  show ?case
  proof (cases "i < ?n")
    case True
    then have le: "i \<le> length data - ?L" by simp
    show ?thesis
    proof (cases "bmh_match str data i")
      case m: True
      have "[i..<?n] = i # [i + 1..<?n]" using True by (simp add: upt_conv_Cons)
      then show ?thesis using 1(1) [OF le m 1(3,4)] m le by (simp add: bmh_loop.simps [of str data i])
    next
      case m: False
      define sh where "sh = bmh_shift str ! unat (folded str (data ! (i + ?L - 1)))"
      have step: "bmh_loop str data i = filter (bmh_match str data) [i + sh..<?n]"
        using 1(2) [OF le m 1(3,4)] m le by (simp add: bmh_loop.simps [of str data i] sh_def)
      have no: "\<not> bmh_match str data k" if "i \<le> k" "k < i + sh" for k
      proof (cases "k = i")
        case False
        have "sh \<le> ?L" unfolding sh_def by (rule bmh_shift_entry_le [OF 1(3)])
        moreover have "i + ?L \<le> length data" using le 1(4) by linarith
        ultimately show ?thesis using bmh_skip [of str data i "k - i"] that False unfolding sh_def by auto
      qed (use m in simp)
      show ?thesis
      proof (cases "i + sh \<le> ?n")
        case True
        then show ?thesis using upt_split_filter [of i "i + sh" ?n "bmh_match str data"] no step by simp
      next
        case False
        have "filter (bmh_match str data) [i..<?n] = []" using no False by (auto simp: filter_empty_conv)
        then show ?thesis using step False by simp
      qed
    qed
  next
    case False
    then show ?thesis by (simp add: bmh_loop.simps [of str data i])
  qed
qed

lemma mask_match_full:
  assumes "\<not> list_ex (\<lambda>m. m \<noteq> 0xFF) (ys_mask str)"
  shows "mask_match str data i = bmh_match str data i"
proof -
  have m: "(if j < length (ys_mask str) then ys_mask str ! j else 0xFF) = 0xFF" for j
    using assms by (auto simp: list_ex_iff)
  have "(0xFF :: u8) = - 1" by simp
  then have id': "b AND 0xFF = (b :: u8)" for b by (simp only: and.right_neutral)
  show ?thesis unfolding mask_match_def bmh_match_def m Let_def by (auto simp: id' folded_def list_all_iff)
qed

lemma find_pattern_eq:
  "find_pattern data str =
     (if ys_pattern str = [] then [] else filter (mask_match str data) [0..<length data + 1 - length (ys_pattern str)])"
proof (cases "ys_pattern str = [] \<or> length data < length (ys_pattern str)")
  case True
  then show ?thesis by (auto simp: find_pattern_def)
next
  case False
  then have l: "length data - length (ys_pattern str) + 1 = length data + 1 - length (ys_pattern str)" by linarith
  show ?thesis
  proof (cases "4 \<le> length (ys_pattern str) \<and> \<not> list_ex (\<lambda>m. m \<noteq> 0xFF) (ys_mask str)")
    case True
    then have "mask_match str data = bmh_match str data" using mask_match_full by blast
    moreover have "find_pattern data str = bmh_loop str data 0" using False True by (simp add: find_pattern_def)
    moreover have "bmh_loop str data 0 = filter (bmh_match str data) [0..<length data - length (ys_pattern str) + 1]"
      using False by (intro bmh_loop_filter) auto
    ultimately show ?thesis using False by (simp only: l) simp
  next
    case n: False
    then have "find_pattern data str = filter (mask_match str data) [0..<length data - length (ys_pattern str) + 1]"
      using False by (auto simp: find_pattern_def)
    then show ?thesis using False by (simp only: l) simp
  qed
qed

section \<open>Matches of a rule\<close>

definition distinct_ids :: "YaraRule \<Rightarrow> bool" where
  "distinct_ids rule \<longleftrightarrow> distinct (map ys_identifier (yr_strings rule))"

lemma record_offsets_step:
  assumes "distinct (map fst m)" "\<forall>i offs. map_of m i = Some offs \<longleftrightarrow>
      (\<exists>x \<in> S. ys_identifier x = i \<and> find_pattern data x = offs \<and> offs \<noteq> [])" "ys_identifier str \<notin> ys_identifier ` S"
  shows "distinct (map fst (record_offsets data m str)) \<and> (\<forall>i offs. map_of (record_offsets data m str) i = Some offs \<longleftrightarrow>
      (\<exists>x \<in> insert str S. ys_identifier x = i \<and> find_pattern data x = offs \<and> offs \<noteq> []))"
proof (cases "find_pattern data str = []")
  case True
  then show ?thesis using assms by (auto simp: record_offsets_def Let_def simp del: map_of_eq_Some_iff)
next
  case False
  have "map_of (record_offsets data m str) i = Some offs \<longleftrightarrow>
      (\<exists>x \<in> insert str S. ys_identifier x = i \<and> find_pattern data x = offs \<and> offs \<noteq> [])" for i offs
  proof (cases "i = ys_identifier str")
    case True
    then show ?thesis using False assms(3) by (auto simp: record_offsets_def Let_def update_conv' image_iff)
  next
    case i: False
    have "map_of (record_offsets data m str) i = map_of m i" using False i by (simp add: record_offsets_def Let_def update_conv')
    then show ?thesis using assms(2) i by auto
  qed
  then show ?thesis using assms(1) False by (simp add: record_offsets_def Let_def distinct_update)
qed

lemma string_matches_run:
  "distinct (map ys_identifier strs) \<Longrightarrow> distinct (map fst (foldl (record_offsets data) [] strs)) \<and>
   (\<forall>i offs. map_of (foldl (record_offsets data) [] strs) i = Some offs \<longleftrightarrow>
     (\<exists>str \<in> set strs. ys_identifier str = i \<and> find_pattern data str = offs \<and> offs \<noteq> []))"
proof (induction strs rule: rev_induct)
  case (snoc str strs)
  then show ?case using record_offsets_step [of "foldl (record_offsets data) [] strs" "set strs" data str]
    by (simp del: map_of_eq_Some_iff)
qed simp

lemma map_of_string_matches:
  assumes "distinct_ids rule"
  shows "distinct (map fst (string_matches data rule))"
    "map_of (string_matches data rule) i = Some offs \<longleftrightarrow>
      (\<exists>str \<in> set (yr_strings rule). ys_identifier str = i \<and> find_pattern data str = offs \<and> offs \<noteq> [])"
  using string_matches_run [of "yr_strings rule" data] assms by (simp_all add: distinct_ids_def string_matches_def)

lemma distinct_ids_eq:
  "distinct_ids rule \<Longrightarrow> a \<in> set (yr_strings rule) \<Longrightarrow> b \<in> set (yr_strings rule) \<Longrightarrow> ys_identifier a = ys_identifier b \<Longrightarrow> a = b"
  by (auto simp: distinct_ids_def distinct_map dest: inj_onD)

lemma matched_iff:
  assumes "distinct_ids rule" "str \<in> set (yr_strings rule)"
  shows "matched (string_matches data rule) str \<longleftrightarrow> find_pattern data str \<noteq> []"
proof
  assume "matched (string_matches data rule) str"
  then obtain offs where "map_of (string_matches data rule) (ys_identifier str) = Some offs" "offs \<noteq> []"
    by (auto simp: matched_def split: option.splits)
  then obtain x where "x \<in> set (yr_strings rule)" "ys_identifier x = ys_identifier str" "find_pattern data x = offs" "offs \<noteq> []"
    using map_of_string_matches(2) [OF assms(1)] by blast
  then show "find_pattern data str \<noteq> []" using distinct_ids_eq [OF assms(1)] assms(2) by blast
next
  assume "find_pattern data str \<noteq> []"
  then have "map_of (string_matches data rule) (ys_identifier str) = Some (find_pattern data str)"
    using map_of_string_matches(2) [OF assms(1)] assms(2) by blast
  then show "matched (string_matches data rule) str" using \<open>find_pattern data str \<noteq> []\<close> by (simp add: matched_def)
qed

text \<open>When a rule fires, said without the map of matches.\<close>

definition fires :: "bytes \<Rightarrow> YaraRule \<Rightarrow> bool" where
  "fires data rule = (let hits = filter (\<lambda>str. find_pattern data str \<noteq> []) (yr_strings rule) in
     case yr_condition rule of
       ALL_OF_THEM \<Rightarrow> hits = yr_strings rule | ANY_OF_THEM \<Rightarrow> hits \<noteq> [] | COUNT_GE \<Rightarrow> yr_condition_count rule \<le> length hits)"

lemma filter_eq_self: "filter P xs = xs \<longleftrightarrow> list_all P xs"
  by (simp add: filter_id_conv list_all_iff)

lemma evaluate_fires:
  assumes "distinct_ids rule"
  shows "evaluate_condition rule (string_matches data rule) = fires data rule"
proof -
  have "filter (matched (string_matches data rule)) (yr_strings rule) = filter (\<lambda>str. find_pattern data str \<noteq> []) (yr_strings rule)"
    using matched_iff [OF assms] by (auto intro: filter_cong)
  then show ?thesis using matched_iff [OF assms]
    by (cases "yr_condition rule") (auto simp: evaluate_condition_def fires_def Let_def filter_eq_self list_all_iff list_ex_iff filter_empty_conv)
qed

lemma find_by_id:
  assumes "distinct_ids rule" "str \<in> set (yr_strings rule)"
  shows "find (\<lambda>x. ys_identifier x = ys_identifier str) (yr_strings rule) = Some str"
proof -
  have "distinct (map ys_identifier xs) \<Longrightarrow> str \<in> set xs \<Longrightarrow> find (\<lambda>x. ys_identifier x = ys_identifier str) xs = Some str" for xs
    by (induction xs) (auto simp: rev_image_eqI)
  then show ?thesis using assms by (simp add: distinct_ids_def)
qed

lemma match_entry_id:
  "distinct_ids rule \<Longrightarrow> str \<in> set (yr_strings rule) \<Longrightarrow> match_entry rule (ys_identifier str) off =
    \<lparr>ym_rule_name = yr_name rule, ym_matched_string_id = ys_identifier str, ym_offset = off, ym_length = length (ys_pattern str)\<rparr>"
  using find_by_id by (simp add: match_entry_def)

lemma set_rule_matches:
  assumes "distinct_ids rule"
  shows "set (rule_matches rule (string_matches data rule)) =
    {match_entry rule (ys_identifier str) off |str off. str \<in> set (yr_strings rule) \<and> off \<in> set (find_pattern data str)}"
proof -
  have e: "(i, offs) \<in> set (string_matches data rule) \<longleftrightarrow>
      (\<exists>str \<in> set (yr_strings rule). ys_identifier str = i \<and> find_pattern data str = offs \<and> offs \<noteq> [])" for i offs
    using map_of_string_matches [OF assms, of data] by (metis map_of_eq_Some_iff)
  have "set (rule_matches rule (string_matches data rule)) = {match_entry rule i off |i offs off. (i, offs) \<in> set (string_matches data rule) \<and> off \<in> set offs}"
    by (fastforce simp: rule_matches_def)
  then show ?thesis unfolding e by fastforce
qed

section \<open>Hex text\<close>

definition hex_digit_char :: "nat \<Rightarrow> char" where
  "hex_digit_char d = (if d < 10 then char_of (48 + d) else char_of (55 + d))"

text \<open>The text form of a pattern: two digits for a byte, two question marks for a wildcard, a blank after each.\<close>

fun hex_text :: "u8 option list \<Rightarrow> string" where
  "hex_text [] = []"
| "hex_text (None # ts) = ''?? '' @ hex_text ts"
| "hex_text (Some b # ts) = hex_digit_char (unat b div 16) # hex_digit_char (unat b mod 16) # CHR '' '' # hex_text ts"

lemma hex_digit_code: "d < 16 \<Longrightarrow> (of_char (hex_digit_char d) :: nat) = (if d < 10 then 48 + d else 55 + d)"
  by (simp add: hex_digit_char_def of_char_char_of_small)

lemma hex_digit_char_props:
  assumes "d < 16"
  shows "hex_val (hex_digit_char d) = Some d" "hex_digit_char d \<noteq> CHR '' ''" "hex_digit_char d \<noteq> CHR ''{''"
    "hex_digit_char d \<noteq> CHR ''}''" "hex_digit_char d \<noteq> CHR ''?''"
proof -
  show "hex_val (hex_digit_char d) = Some d" using assms by (simp add: hex_val_def hex_digit_code Let_def)
  have c: "hex_digit_char d \<noteq> c" if "(of_char c :: nat) \<noteq> (if d < 10 then 48 + d else 55 + d)" for c
    using hex_digit_code [OF assms] that by auto
  show "hex_digit_char d \<noteq> CHR '' ''" "hex_digit_char d \<noteq> CHR ''{''" "hex_digit_char d \<noteq> CHR ''}''" "hex_digit_char d \<noteq> CHR ''?''"
    by (rule c; use assms in auto)+
qed

lemma nibbles: "push_bit 4 (of_nat (unat b div 16)) OR of_nat (unat b mod 16) = (b :: u8)"
proof -
  have b: "unat b div 16 < 16" "unat b mod 16 < 16" using unat_lt_u8 [of b] less_mult_imp_div_less [of "unat b" 16 16] by simp_all
  have u: "unat (of_nat n :: u8) = n" if "n < 16" for n using that by (simp add: unat_of_nat)
  have "unat (push_bit 4 (of_nat (unat b div 16) :: u8) OR of_nat (unat b mod 16)) = unat b div 16 * 2 ^ 4 + unat b mod 16"
    using unat_push_or [of "of_nat (unat b div 16) :: u8" 4 "of_nat (unat b mod 16)"] b u by simp
  then show ?thesis by (intro word_unat_eq_iff [THEN iffD2]) simp
qed

lemma hex_loop_text:
  "hex_loop (hex_text ts) = Some (map (\<lambda>t. case t of None \<Rightarrow> 0 | Some b \<Rightarrow> b) ts, map (\<lambda>t. case t of None \<Rightarrow> 0 | Some b \<Rightarrow> 0xFF) ts)"
proof (induction ts rule: hex_text.induct)
  case (3 b ts)
  have "unat b div 16 < 16" "unat b mod 16 < 16" using unat_lt_u8 [of b] less_mult_imp_div_less [of "unat b" 16 16] by simp_all
  from hex_digit_char_props [OF this(1)] hex_digit_char_props [OF this(2)] 3 show ?case
    by (simp add: push_byte_def nibbles)
qed (simp_all add: push_byte_def)

section \<open>Well-formed rules\<close>

definition string_wf :: "YaraString \<Rightarrow> bool" where
  "string_wf str \<longleftrightarrow> (ys_mask str = [] \<or> length (ys_mask str) = length (ys_pattern str)) \<and>
     (if ys_is_hex str then ys_pattern str \<noteq> [] \<and> \<not> ys_nocase str \<and> \<not> ys_wide str
      else \<not> list_ex (\<lambda>m. m \<noteq> 0xFF) (ys_mask str) \<and> (ys_wide str \<longrightarrow> even (length (ys_pattern str))))"

definition rule_wf :: "YaraRule \<Rightarrow> bool" where
  "rule_wf r \<longleftrightarrow> yr_name r \<noteq> [] \<and> yr_strings r \<noteq> [] \<and> list_all string_wf (yr_strings r)"

definition same_lengths :: "(bytes \<times> bytes) option \<Rightarrow> bool" where
  "same_lengths r = (case r of None \<Rightarrow> True | Some (ps, ms) \<Rightarrow> length ms = length ps)"

lemma push_byte_lengths [simp]: "same_lengths r \<Longrightarrow> same_lengths (push_byte p m r)"
  by (simp add: same_lengths_def push_byte_def split: option.splits prod.splits)

lemma hex_loop_lengths: "same_lengths (hex_loop cs)"
proof (induction cs rule: hex_loop.induct)
  case (2 c cs)
  then show ?case by (simp split: option.split) (simp add: same_lengths_def)
qed (simp add: same_lengths_def)

lemma parse_hex_lengths: "parse_hex_pattern cs = Some (ps, ms) \<Longrightarrow> length ms = length ps \<and> ps \<noteq> []"
  using hex_loop_lengths [of cs] by (auto simp: parse_hex_pattern_def same_lengths_def split: option.splits if_splits)

lemma text_string_wf: "string_wf (text_string ident lit nocase wide)"
proof -
  have "length (concat (map (\<lambda>c. [byte_of c, 0x00]) lit)) = 2 * length lit" by (induction lit) simp_all
  then show ?thesis by (simp add: string_wf_def text_string_def text_to_pattern_def Let_def list_ex_iff)
qed

lemma hex_string_wf:
  "parse_hex_pattern cs = Some (pat, msk) \<Longrightarrow>
    string_wf (YaraString_default\<lparr>ys_identifier := ident, ys_pattern := pat, ys_mask := msk, ys_is_hex := True\<rparr>)"
  using parse_hex_lengths [of cs pat msk] by (simp add: string_wf_def YaraString_default_def)

lemma parse_string_wf:
  "list_all string_wf (yr_strings r) \<Longrightarrow> list_all string_wf (yr_strings (parse_string line r)) \<and> yr_name (parse_string line r) = yr_name r"
  by (simp add: parse_string_def Let_def text_string_wf hex_string_wf split: option.split)

definition parse_ok :: "yara_parse \<Rightarrow> bool" where
  "parse_ok p \<longleftrightarrow> list_all rule_wf (ya_rules (yp_engine p)) \<and> list_all string_wf (yr_strings (yp_current p)) \<and>
     (yp_in_rule p \<longrightarrow> yr_name (yp_current p) \<noteq> [])"

lemma parse_header_ok: "parse_ok p \<Longrightarrow> parse_ok (parse_header line p)"
  by (auto simp: parse_ok_def parse_header_def Let_def rule_wf_def yara_add_rule_def YaraRule_default_def)

lemma parse_line_ok: "parse_ok p \<Longrightarrow> parse_ok (parse_line p line)"
proof -
  assume ok: "parse_ok p"
  have "yr_strings (parse_condition t r) = yr_strings r" "yr_name (parse_condition t r) = yr_name r"
    "yr_strings (parse_level t r) = yr_strings r" "yr_name (parse_level t r) = yr_name r" for t r
    by (simp_all add: parse_condition_def parse_level_def)
  then show ?thesis using ok parse_header_ok [OF ok] parse_string_wf
    by (auto simp: parse_line_def Let_def parse_ok_def)
qed

lemma add_text_wf:
  assumes "list_all rule_wf (ya_rules s)"
  shows "list_all rule_wf (ya_rules (snd (add_rule_from_string txt s)))"
proof -
  have "parse_ok (foldl parse_line p ls)" if "parse_ok p" for p ls
    using that by (induction ls arbitrary: p) (simp_all add: parse_line_ok)
  then have "parse_ok (foldl parse_line \<lparr>yp_engine = s, yp_current = YaraRule_default, yp_in_rule = False, yp_added_any = False\<rparr> (getlines txt))"
    using assms by (simp add: parse_ok_def YaraRule_default_def)
  then show ?thesis by (auto simp: add_rule_from_string_def Let_def parse_ok_def rule_wf_def yara_add_rule_def)
qed

lemma builtin_wf: "list_all rule_wf builtin_rules"
proof -
  have h: "parse_hex_pattern ''00 01 00 01 00 02 ?? ?? 00 02 00 01 00 02 ?? ??'' =
    Some ([0, 1, 0, 1, 0, 2, 0, 0, 0, 2, 0, 1, 0, 2, 0, 0],
          [0xFF, 0xFF, 0xFF, 0xFF, 0xFF, 0xFF, 0, 0, 0xFF, 0xFF, 0xFF, 0xFF, 0xFF, 0xFF, 0, 0])" by code_simp
  show ?thesis unfolding builtin_rules_def h
    by (simp add: rule_wf_def string_wf_def plain_text_def hex_bytes_def YaraString_default_def)
qed

lemma ya_rules_load: "ya_rules (load_builtin_rules s) = ya_rules s @ builtin_rules"
proof -
  have "ya_rules (fold yara_add_rule rs s) = ya_rules s @ rs" for rs s by (induction rs arbitrary: s) (simp_all add: yara_add_rule_def)
  then show ?thesis by (simp add: load_builtin_rules_def)
qed

lemma load_directory_wf:
  assumes "list_all rule_wf (ya_rules s)"
  shows "list_all rule_wf (ya_rules (snd (load_rules_from_directory dir s)))"
proof -
  have "list_all rule_wf (ya_rules (snd (load_entry st e)))" if "list_all rule_wf (ya_rules (snd st))" for st e
  proof -
    have "list_all rule_wf (ya_rules s')" if "add_rule_from_string t (snd st) = (ok, s')" for ok s' t
      using add_text_wf [of "snd st" t] that \<open>list_all rule_wf (ya_rules (snd st))\<close> by simp
    then show ?thesis using that by (cases st; cases e) (auto simp: load_entry_def split: option.split prod.split)
  qed
  then have "list_all rule_wf (ya_rules (snd (foldl load_entry st es)))" if "list_all rule_wf (ya_rules (snd st))" for st es
    using that by (induction es arbitrary: st) auto
  then show ?thesis using assms by (simp add: load_rules_from_directory_def split: option.split)
qed

datatype ya_op = YText string | YDirectory "dir_entry list option" | YReload bool "dir_entry list option" | YClear | YBuiltin | YStart | YStop

fun ya_exec :: "ya_op \<Rightarrow> YaraEngine \<Rightarrow> YaraEngine" where
  "ya_exec (YText txt) s = snd (add_rule_from_string txt s)"
| "ya_exec (YDirectory dir) s = snd (load_rules_from_directory dir s)"
| "ya_exec (YReload b dir) s = snd (reload_rules b dir s)"
| "ya_exec YClear s = yara_clear_rules s"
| "ya_exec YBuiltin s = load_builtin_rules s"
| "ya_exec YStart s = snd (yara_start s)"
| "ya_exec YStop s = snd (yara_stop s)"

lemma ya_exec_wf: "list_all rule_wf (ya_rules s) \<Longrightarrow> list_all rule_wf (ya_rules (ya_exec op s))"
  using add_text_wf load_directory_wf builtin_wf
  by (cases op) (simp_all add: reload_rules_def yara_clear_rules_def yara_start_def yara_stop_def ya_rules_load Let_def)

lemma ya_run_wf: "list_all rule_wf (ya_rules s) \<Longrightarrow> list_all rule_wf (ya_rules (fold ya_exec ops s))"
  by (induction ops arbitrary: s) (simp_all add: ya_exec_wf)

section \<open>Properties\<close>

text \<open>
  C21. The string search is exact for every string, with and without wildcards and letter case: it returns, in
  ascending order, precisely the offsets at which each byte of the pattern agrees with the data in the bits of its
  mask, or up to letter case for a nocase text string. In particular the skipping search never misses an occurrence.
\<close>

theorem find_pattern_exact:
  "(let L = length (ys_pattern str);
        byte_ok = (\<lambda>j d. let p = ys_pattern str ! j; m = (if j < length (ys_mask str) then ys_mask str ! j else 0xFF) in
          if ys_nocase str \<and> \<not> ys_is_hex str \<and> m = 0xFF then lower_byte d = lower_byte p else d AND m = p AND m) in
    sorted_wrt (<) (find_pattern data str) \<and>
    set (find_pattern data str) = {i. 0 < L \<and> i + L \<le> length data \<and> list_all (\<lambda>j. byte_ok j (data ! (i + j))) [0..<L]})"
proof -
  have id': "b AND 0xFF = (b :: u8)" for b
  proof -
    have "(0xFF :: u8) = - 1" by simp
    then show ?thesis by (simp only: and.right_neutral)
  qed
  have step: "(let fold_case = (nc \<and> m = 0xFF \<and> \<not> hx); d' = (if fold_case then lower_byte d else d); p' = (if fold_case then lower_byte p else p)
       in d' AND m = p' AND m) \<longleftrightarrow> (if nc \<and> \<not> hx \<and> m = 0xFF then lower_byte d = lower_byte p else d AND m = p AND m)" for nc hx and m d p :: u8
    by (cases "nc \<and> \<not> hx \<and> m = 0xFF") (auto simp: Let_def id')
  have mm: "mask_match str data i \<longleftrightarrow> list_all (\<lambda>j.
      let p = ys_pattern str ! j; m = (if j < length (ys_mask str) then ys_mask str ! j else 0xFF) in
      if ys_nocase str \<and> \<not> ys_is_hex str \<and> m = 0xFF then lower_byte (data ! (i + j)) = lower_byte p else data ! (i + j) AND m = p AND m)
      [0..<length (ys_pattern str)]" for i
    unfolding mask_match_def step [unfolded Let_def] Let_def ..
  have "sorted_wrt (<) (find_pattern data str)" by (simp add: find_pattern_eq sorted_wrt_filter)
  moreover have "i < length data + 1 - length (ys_pattern str) \<longleftrightarrow> i + length (ys_pattern str) \<le> length data" if "ys_pattern str \<noteq> []" for i
    by linarith
  ultimately show ?thesis unfolding Let_def mm [unfolded Let_def, symmetric] by (auto simp: find_pattern_eq)
qed


lemma builtin_ids: "list_all distinct_ids (ya_rules (load_builtin_rules YaraEngine_new))"
  unfolding ya_rules_load by (simp add: YaraEngine_new_def builtin_rules_def distinct_ids_def plain_text_def hex_bytes_def
      YaraString_default_def split: option.split)


text \<open>
  Hex patterns read back: the text of any non-empty sequence of bytes and wildcards parses to those bytes
  with full masks, and to zero bytes with zero masks for the wildcards.
\<close>

theorem hex_pattern_round_trip:
  assumes "ts \<noteq> []"
  shows "parse_hex_pattern (hex_text ts) =
    Some (map (\<lambda>t. case t of None \<Rightarrow> 0 | Some b \<Rightarrow> b) ts, map (\<lambda>t. case t of None \<Rightarrow> 0 | Some b \<Rightarrow> 0xFF) ts)"
  using assms by (simp add: parse_hex_pattern_def hex_loop_text)

theorem hex_pattern_round_trip_witness:
  "parse_hex_pattern (hex_text [Some 0x4D, None, Some 0x5A]) = Some ([0x4D, 0, 0x5A], [0xFF, 0, 0xFF])"
  using hex_pattern_round_trip [of "[Some 0x4D, None, Some 0x5A]"] by simp

text \<open>
  C23. Every rule the engine loads is well formed, whatever the rule texts contain and in whatever order rules are
  loaded, cleared and reloaded: it has a name and at least one string; the mask of a string is absent or as long
  as its pattern; hex strings are non-empty and never case-insensitive, and text strings have no wildcards.
\<close>

theorem yara_rules_well_formed:
  assumes "r \<in> set (ya_rules (fold ya_exec ops YaraEngine_new))"
  shows "yr_name r \<noteq> [] \<and> yr_strings r \<noteq> [] \<and>
    (\<forall>str \<in> set (yr_strings r). (ys_mask str = [] \<or> length (ys_mask str) = length (ys_pattern str)) \<and>
       (if ys_is_hex str then ys_pattern str \<noteq> [] \<and> \<not> ys_nocase str \<and> \<not> ys_wide str
        else list_all (\<lambda>m. m = 0xFF) (ys_mask str) \<and> (ys_wide str \<longrightarrow> even (length (ys_pattern str)))))"
proof -
  have "list_all rule_wf (ya_rules (fold ya_exec ops YaraEngine_new))" by (rule ya_run_wf) (simp add: YaraEngine_new_def)
  then have "rule_wf r" using assms by (simp add: list_all_iff)
  moreover have "list_all (\<lambda>m. m = 0xFF) ms \<longleftrightarrow> \<not> list_ex (\<lambda>m. m \<noteq> 0xFF) ms" for ms :: bytes by (simp add: list_all_iff list_ex_iff)
  ultimately show ?thesis by (simp add: rule_wf_def string_wf_def list_all_iff [of string_wf])
qed

definition sample_rule_lines :: "string list" where
  "sample_rule_lines = [''rule First'', ''level = CRITICAL'', ''rule Second {'', ''$a = { 4D ?? }'', ''all of them'']"

lemma sample_rule_parsed:
  "add_rule_from_string (concat (map (\<lambda>l. l @ [CHR 0x0A]) sample_rule_lines)) YaraEngine_new =
     (True, YaraEngine_new\<lparr>ya_rules := [\<lparr>yr_name = ''Second'', yr_description = [], yr_tags = [], yr_strings = [hex_bytes ''$a'' [0x4D, 0] [0xFF, 0]],
        yr_condition = ALL_OF_THEM, yr_condition_count = 1, yr_threat_level = CRITICAL\<rparr>]\<rparr>)"
proof -
  have g: "getlines (concat (map (\<lambda>l. l @ [CHR 0x0A]) sample_rule_lines)) = sample_rule_lines"
    by (rule getlines_concat) (simp add: sample_rule_lines_def)
  have t: "trim ''rule First'' = ''rule First''" "trim ''level = CRITICAL'' = ''level = CRITICAL''" "trim ''rule Second {'' = ''rule Second {''"
    "trim ''$a = { 4D ?? }'' = ''$a = { 4D ?? }''" "trim ''all of them'' = ''all of them''" by (simp_all add: trim_def blank_def)
  have h: "parse_hex_pattern '' 4D ?? '' = Some ([0x4D, 0], [0xFF, 0])" by code_simp
  show ?thesis unfolding add_rule_from_string_def g unfolding sample_rule_lines_def
    by (simp add: parse_line_def t h starts_with_def parse_header_def name_sep_def YaraRule_default_def Let_def parse_level_def
        parse_string_def parse_condition_def rfind_char_def sub_bytes_def yara_add_rule_def YaraEngine_new_def hex_bytes_def)
qed

theorem yara_rules_well_formed_witness:
  "\<exists>r \<in> set (ya_rules (fold ya_exec [YText (concat (map (\<lambda>l. l @ [CHR 0x0A]) sample_rule_lines))] YaraEngine_new)). yr_name r = ''Second'' \<and> yr_strings r \<noteq> []"
proof -
  let ?ops = "[YText (concat (map (\<lambda>l. l @ [CHR 0x0A]) sample_rule_lines))]"
  obtain r where r: "ya_rules (fold ya_exec ?ops YaraEngine_new) = [r]" "yr_name r = ''Second''"
    by (simp add: sample_rule_parsed)
  from yara_rules_well_formed [of r ?ops] r show ?thesis by (simp only: list.set) blast
qed

text \<open>
  A rule without strings is dropped, but its level and condition stay in the parser's current rule: in the sample text
  the second rule, which names no level, is loaded as critical.
\<close>

lemma level_leaks_into_next_rule:
  "map yr_threat_level (ya_rules (snd (add_rule_from_string (concat (map (\<lambda>l. l @ [CHR 0x0A]) sample_rule_lines)) YaraEngine_new))) = [CRITICAL]"
  by (simp add: sample_rule_parsed)

end
