(* ===== verification/Threat_Intel.thy ===== *)
theory Threat_Intel
  imports Engine_Base
begin

text \<open>
  \<^verbatim>\<open>engines/threat_intel_engine.{hpp,cpp}\<close>: the database of indicators of compromise with its three lookup indices, the
  text format it is loaded from and saved to, and the queries. The \<^verbatim>\<open>unordered_set\<close> indices are sets. Files and directories
  enter as their contents, \<open>None\<close> when they cannot be opened; \<open>now\<close> is the clock, read once per operation.
\<close>

section \<open>State\<close>

datatype IocType = SHA256_HASH | MD5_HASH | IPV4_ADDRESS | DOMAIN | URL | FILE_NAME

record IocEntry =
  ioc_id :: u64
  ioc_type :: IocType
  ioc_value :: string
  ioc_source :: string
  ioc_description :: string
  ioc_severity :: ThreatLevel
  ioc_tags :: string
  ioc_added_at :: time_point
  ioc_active :: bool

record IocMatch =
  im_ioc :: IocEntry
  im_matched_against :: string
  im_context :: string
  im_matched_at :: time_point

record ThreatIntelEngine =
  ti_running :: bool
  ti_events_processed :: u64
  ti_threats_detected :: u64
  ti_next_id :: u64
  ti_iocs :: "IocEntry list"
  ti_hash_index :: "string set"
  ti_ip_index :: "string set"
  ti_domain_index :: "string set"
  ti_match_log :: "IocMatch list"

definition MAX_MATCHES :: nat where
  "MAX_MATCHES = 5000"

definition IocEntry_default :: IocEntry where
  "IocEntry_default = \<lparr>ioc_id = 0, ioc_type = SHA256_HASH, ioc_value = [], ioc_source = [], ioc_description = [],
     ioc_severity = HIGH, ioc_tags = [], ioc_added_at = 0, ioc_active = True\<rparr>"

definition ThreatIntelEngine_new :: ThreatIntelEngine where
  "ThreatIntelEngine_new = \<lparr>ti_running = False, ti_events_processed = 0, ti_threats_detected = 0, ti_next_id = 1, ti_iocs = [],
     ti_hash_index = {}, ti_ip_index = {}, ti_domain_index = {}, ti_match_log = []\<rparr>"

section \<open>Normal forms and indices\<close>

definition normalize_hash :: "string \<Rightarrow> string" where
  "normalize_hash hash = map tolower_c hash"

definition normalize_domain :: "string \<Rightarrow> string" where
  "normalize_domain domain = rev (dropWhile (\<lambda>c. c = CHR ''.'') (rev (map tolower_c domain)))"

definition index_entry :: "ThreatIntelEngine \<Rightarrow> IocEntry \<Rightarrow> ThreatIntelEngine" where
  "index_entry s e =
     (if \<not> ioc_active e then s
      else case ioc_type e of
        SHA256_HASH \<Rightarrow> s\<lparr>ti_hash_index := insert (ioc_value e) (ti_hash_index s)\<rparr>
      | MD5_HASH \<Rightarrow> s\<lparr>ti_hash_index := insert (ioc_value e) (ti_hash_index s)\<rparr>
      | IPV4_ADDRESS \<Rightarrow> s\<lparr>ti_ip_index := insert (ioc_value e) (ti_ip_index s)\<rparr>
      | DOMAIN \<Rightarrow> s\<lparr>ti_domain_index := insert (ioc_value e) (ti_domain_index s)\<rparr>
      | _ \<Rightarrow> s)"

definition rebuild_indices :: "ThreatIntelEngine \<Rightarrow> ThreatIntelEngine" where
  "rebuild_indices s = foldl index_entry (s\<lparr>ti_hash_index := {}, ti_ip_index := {}, ti_domain_index := {}\<rparr>) (ti_iocs s)"

section \<open>Adding and removing\<close>

definition normalize_entry :: "IocEntry \<Rightarrow> IocEntry" where
  "normalize_entry e =
     (if ioc_type e = SHA256_HASH \<or> ioc_type e = MD5_HASH then e\<lparr>ioc_value := normalize_hash (ioc_value e)\<rparr>
      else if ioc_type e = DOMAIN then e\<lparr>ioc_value := normalize_domain (ioc_value e)\<rparr>
      else e)"

definition add_ioc :: "time_point \<Rightarrow> IocEntry \<Rightarrow> ThreatIntelEngine \<Rightarrow> u64 \<times> ThreatIntelEngine" where
  "add_ioc now entry s =
     (let e1 = entry\<lparr>ioc_id := ti_next_id s\<rparr>;
          e2 = (if ioc_added_at e1 = 0 then e1\<lparr>ioc_added_at := now\<rparr> else e1);
          e3 = normalize_entry e2
      in (ioc_id e3, rebuild_indices (s\<lparr>ti_next_id := ti_next_id s + 1, ti_iocs := ti_iocs s @ [e3]\<rparr>)))"

fun erase_ioc :: "u64 \<Rightarrow> IocEntry list \<Rightarrow> IocEntry list option" where
  "erase_ioc i [] = None"
| "erase_ioc i (e # es) = (if ioc_id e = i then Some es else map_option ((#) e) (erase_ioc i es))"

definition remove_ioc :: "u64 \<Rightarrow> ThreatIntelEngine \<Rightarrow> bool \<times> ThreatIntelEngine" where
  "remove_ioc i s = (case erase_ioc i (ti_iocs s) of
     None \<Rightarrow> (False, s) | Some es \<Rightarrow> (True, rebuild_indices (s\<lparr>ti_iocs := es\<rparr>)))"

definition clear_iocs :: "ThreatIntelEngine \<Rightarrow> ThreatIntelEngine" where
  "clear_iocs s = s\<lparr>ti_iocs := [], ti_hash_index := {}, ti_ip_index := {}, ti_domain_index := {}\<rparr>"

section \<open>The text format\<close>

text \<open>The fields \<^verbatim>\<open>std::getline(ss, field, '|')\<close> delivers until it fails; a missing field stays empty.\<close>

definition getfields :: "string \<Rightarrow> string list" where
  "getfields line = (let fs = split_on CHR ''|'' line in if last fs = [] then butlast fs else fs)"

definition field :: "nat \<Rightarrow> string list \<Rightarrow> string" where
  "field k fs = (if k < length fs then fs ! k else [])"

definition parse_type :: "string \<Rightarrow> IocType option" where
  "parse_type type_str =
     (if type_str = ''sha256'' then Some SHA256_HASH
      else if type_str = ''md5'' then Some MD5_HASH
      else if type_str = ''ip'' then Some IPV4_ADDRESS
      else if type_str = ''domain'' then Some DOMAIN
      else if type_str = ''url'' then Some URL
      else if type_str = ''filename'' then Some FILE_NAME
      else None)"

definition parse_severity :: "string \<Rightarrow> ThreatLevel" where
  "parse_severity severity_str =
     (if severity_str = ''critical'' then CRITICAL
      else if severity_str = ''high'' then HIGH
      else if severity_str = ''medium'' then MEDIUM
      else if severity_str = ''low'' then LOW
      else HIGH)"

definition parse_entry :: "string \<Rightarrow> IocEntry option" where
  "parse_entry line =
     (let fs = getfields line in
      if length fs < 2 then None
      else case parse_type (field 0 fs) of
        None \<Rightarrow> None
      | Some t \<Rightarrow> Some (IocEntry_default\<lparr>ioc_type := t, ioc_value := field 1 fs, ioc_severity := parse_severity (field 2 fs),
          ioc_source := field 3 fs, ioc_description := field 4 fs\<rparr>))"

definition load_ioc_line :: "time_point \<Rightarrow> nat \<times> ThreatIntelEngine \<Rightarrow> string \<Rightarrow> nat \<times> ThreatIntelEngine" where
  "load_ioc_line now st line = (case st of (cnt, s) \<Rightarrow>
     if line = [] \<or> hd line = CHR ''#'' then (cnt, s)
     else (case parse_entry line of None \<Rightarrow> (cnt, s) | Some e \<Rightarrow> (cnt + 1, snd (add_ioc now e s))))"

definition load_iocs_from_file :: "time_point \<Rightarrow> string option \<Rightarrow> ThreatIntelEngine \<Rightarrow> nat \<times> ThreatIntelEngine" where
  "load_iocs_from_file now contents s = (case contents of
     None \<Rightarrow> (0, s) | Some txt \<Rightarrow> foldl (load_ioc_line now) (0, s) (getlines txt))"

definition import_line :: "time_point \<Rightarrow> string \<Rightarrow> nat \<times> ThreatIntelEngine \<Rightarrow> string \<Rightarrow> nat \<times> ThreatIntelEngine" where
  "import_line now default_source st line = (case st of (cnt, s) \<Rightarrow>
     let trimmed = trim line in
     if trimmed = [] \<or> hd trimmed = CHR ''#'' then (cnt, s)
     else (case parse_entry trimmed of
         None \<Rightarrow> (cnt, s)
       | Some e \<Rightarrow> (cnt + 1, snd (add_ioc now (if ioc_source e = [] then e\<lparr>ioc_source := default_source\<rparr> else e) s))))"

definition import_iocs_from_string :: "time_point \<Rightarrow> string \<Rightarrow> string \<Rightarrow> ThreatIntelEngine \<Rightarrow> nat \<times> ThreatIntelEngine" where
  "import_iocs_from_string now content default_source s = foldl (import_line now default_source) (0, s) (getlines content)"

definition type_text :: "IocType \<Rightarrow> string" where
  "type_text t = (case t of SHA256_HASH \<Rightarrow> ''sha256'' | MD5_HASH \<Rightarrow> ''md5'' | IPV4_ADDRESS \<Rightarrow> ''ip'' | DOMAIN \<Rightarrow> ''domain''
     | URL \<Rightarrow> ''url'' | FILE_NAME \<Rightarrow> ''filename'')"

definition severity_text :: "ThreatLevel \<Rightarrow> string" where
  "severity_text l = (case l of CRITICAL \<Rightarrow> ''critical'' | HIGH \<Rightarrow> ''high'' | MEDIUM \<Rightarrow> ''medium'' | LOW \<Rightarrow> ''low'' | _ \<Rightarrow> ''high'')"

definition entry_line :: "IocEntry \<Rightarrow> string" where
  "entry_line e = type_text (ioc_type e) @ ''|'' @ ioc_value e @ ''|'' @ severity_text (ioc_severity e) @ ''|'' @ ioc_source e @ ''|'' @
     ioc_description e"

text \<open>The text that is written and the number of entries; \<open>None\<close> when the file cannot be opened.\<close>

definition save_iocs :: "bool \<Rightarrow> ThreatIntelEngine \<Rightarrow> nat \<times> string option" where
  "save_iocs opened s =
     (if \<not> opened then (0, None)
      else let es = filter ioc_active (ti_iocs s) in
        (length es, Some (concat (map (\<lambda>l. l @ [CHR 0x0A])
           (''# GCAD Threat Intelligence IOC Database'' # ''# Format: type|value|severity|source|description'' # map entry_line es)))))"

section \<open>Default indicators, reloading, start and stop\<close>

definition default_ioc :: "IocType \<Rightarrow> string \<Rightarrow> ThreatLevel \<Rightarrow> string \<Rightarrow> IocEntry" where
  "default_ioc t v sev desc = IocEntry_default\<lparr>ioc_type := t, ioc_value := v, ioc_severity := sev, ioc_source := ''GCAD-default'',
     ioc_description := desc\<rparr>"

definition default_iocs :: "IocEntry list" where
  "default_iocs =
     [default_ioc DOMAIN ''malware-c2.example.com'' CRITICAL ''Known C2 domain'',
      default_ioc DOMAIN ''phishing-site.example.net'' HIGH ''Known phishing domain'',
      default_ioc DOMAIN ''cryptominer-pool.example.org'' HIGH ''Cryptominer pool'',
      default_ioc IPV4_ADDRESS ''198.51.100.1'' CRITICAL ''Known C2 server'',
      default_ioc IPV4_ADDRESS ''203.0.113.50'' HIGH ''Known scanner'',
      default_ioc SHA256_HASH ''e3b0c44298fc1c149afbf4c8996fb92427ae41e4649b934ca495991b7852b855'' LOW ''Empty file hash (suspicious if unexpected)'',
      default_ioc FILE_NAME ''mimikatz.exe'' CRITICAL ''Credential dumping tool'',
      default_ioc FILE_NAME ''lazagne.exe'' HIGH ''Password recovery tool'',
      default_ioc FILE_NAME ''psexec.exe'' MEDIUM ''Remote execution tool'']"

definition push_default :: "time_point \<Rightarrow> ThreatIntelEngine \<Rightarrow> IocEntry \<Rightarrow> ThreatIntelEngine" where
  "push_default now s e = s\<lparr>ti_next_id := ti_next_id s + 1, ti_iocs := ti_iocs s @ [e\<lparr>ioc_id := ti_next_id s, ioc_added_at := now\<rparr>]\<rparr>"

definition install_default_iocs :: "time_point \<Rightarrow> ThreatIntelEngine \<Rightarrow> ThreatIntelEngine" where
  "install_default_iocs now s =
     (if ti_iocs s \<noteq> [] then s else rebuild_indices (foldl (push_default now) s default_iocs))"

definition reload_entry :: "time_point \<Rightarrow> nat \<times> ThreatIntelEngine \<Rightarrow> bool \<times> string \<times> string option \<Rightarrow> nat \<times> ThreatIntelEngine" where
  "reload_entry now st e = (case (st, e) of ((loaded, s), (regular, ext, contents)) \<Rightarrow>
     if regular \<and> (ext = ''.ioc'' \<or> ext = ''.txt'' \<or> ext = ''.csv'')
     then (case load_iocs_from_file now contents s of (n, s') \<Rightarrow> (loaded + n, s'))
     else (loaded, s))"

definition reload_from_directory :: "time_point \<Rightarrow> (bool \<times> string \<times> string option) list option \<Rightarrow> ThreatIntelEngine \<Rightarrow> nat \<times> ThreatIntelEngine" where
  "reload_from_directory now dir s = (case dir of None \<Rightarrow> (0, s) | Some es \<Rightarrow> foldl (reload_entry now) (0, s) es)"

definition reload_all :: "time_point \<Rightarrow> bool \<Rightarrow> (bool \<times> string \<times> string option) list option \<Rightarrow> ThreatIntelEngine \<Rightarrow> nat \<times> ThreatIntelEngine" where
  "reload_all now has_path dir s =
     (let s1 = install_default_iocs now (clear_iocs s);
          s2 = (if has_path then snd (reload_from_directory now dir s1) else s1)
      in (length (ti_iocs s2), s2))"

definition ti_start :: "time_point \<Rightarrow> ThreatIntelEngine \<Rightarrow> ErrorCode \<times> ThreatIntelEngine" where
  "ti_start now s = (if ti_running s then (OK, s) else (OK, (install_default_iocs now s)\<lparr>ti_running := True\<rparr>))"

definition ti_stop :: "ThreatIntelEngine \<Rightarrow> ErrorCode \<times> ThreatIntelEngine" where
  "ti_stop s = (if \<not> ti_running s then (OK, s) else (OK, s\<lparr>ti_running := False\<rparr>))"

text \<open>One turn of the monitor loop after its sleep.\<close>

definition ti_monitor_round :: "ThreatIntelEngine \<Rightarrow> ThreatIntelEngine" where
  "ti_monitor_round s = (if \<not> ti_running s then s else s\<lparr>ti_events_processed := ti_events_processed s + 1\<rparr>)"

section \<open>Queries\<close>

definition check_hash :: "string \<Rightarrow> ThreatIntelEngine \<Rightarrow> bool" where
  "check_hash hash s \<longleftrightarrow> normalize_hash hash \<in> ti_hash_index s"

definition check_ip :: "string \<Rightarrow> ThreatIntelEngine \<Rightarrow> bool" where
  "check_ip ip s \<longleftrightarrow> ip \<in> ti_ip_index s"

definition check_domain :: "string \<Rightarrow> ThreatIntelEngine \<Rightarrow> bool" where
  "check_domain domain s \<longleftrightarrow> normalize_domain domain \<in> ti_domain_index s"

definition ioc_matches :: "string \<Rightarrow> IocEntry \<Rightarrow> bool" where
  "ioc_matches value e =
     (if (ioc_type e = SHA256_HASH \<or> ioc_type e = MD5_HASH) \<and> ioc_value e = normalize_hash value then True
      else if ioc_type e = IPV4_ADDRESS \<and> ioc_value e = value then True
      else if ioc_type e = DOMAIN \<and> ioc_value e = normalize_domain value then True
      else if ioc_type e = URL \<and> ioc_value e = value then True
      else ioc_type e = FILE_NAME \<and> ioc_value e = value)"

definition lookup_ioc :: "time_point \<Rightarrow> string \<Rightarrow> ThreatIntelEngine \<Rightarrow> IocMatch list" where
  "lookup_ioc now value s =
     map (\<lambda>e. \<lparr>im_ioc = e, im_matched_against = value, im_context = [], im_matched_at = now\<rparr>)
       (filter (\<lambda>e. ioc_active e \<and> ioc_matches value e) (ti_iocs s))"

definition recent_matches :: "nat \<Rightarrow> ThreatIntelEngine \<Rightarrow> IocMatch list" where
  "recent_matches n s = last_n n (ti_match_log s)"

definition record_match :: "time_point \<Rightarrow> IocEntry \<Rightarrow> string \<Rightarrow> string \<Rightarrow> ThreatIntelEngine \<Rightarrow> ThreatIntelEngine" where
  "record_match now ioc against ctx s = s\<lparr>ti_match_log := pop_front_to MAX_MATCHES
     (ti_match_log s @ [\<lparr>im_ioc = ioc, im_matched_against = against, im_context = ctx, im_matched_at = now\<rparr>])\<rparr>"

definition is_xdigit :: "char \<Rightarrow> bool" where
  "is_xdigit c = (let n = (of_char c :: nat) in 48 \<le> n \<and> n \<le> 57 \<or> 65 \<le> n \<and> n \<le> 70 \<or> 97 \<le> n \<and> n \<le> 102)"

definition detect_type :: "string \<Rightarrow> IocType" where
  "detect_type value =
     (if length value = 64 \<and> list_all is_xdigit value then SHA256_HASH
      else if length value = 32 \<and> list_all is_xdigit value then MD5_HASH
      else let dots = length (filter (\<lambda>c. c = CHR ''.'') value); all_digits_dots = list_all (\<lambda>c. c = CHR ''.'' \<or> is_digit c) value in
        if dots = 3 \<and> all_digits_dots then IPV4_ADDRESS
        else if starts_with value ''http://'' \<or> starts_with value ''https://'' then URL
        else if 1 \<le> dots then DOMAIN
        else FILE_NAME)"

text \<open>The reports, with the callbacks installed; no function of the engine calls them.\<close>

definition ti_emit_threat :: "time_point \<Rightarrow> ThreatCategory \<Rightarrow> string \<Rightarrow> ThreatIntelEngine \<Rightarrow> ThreatIntelEngine \<times> emission list" where
  "ti_emit_threat now cat desc s =
     (s\<lparr>ti_threats_detected := ti_threats_detected s + 1\<rparr>,
      [Threat (ThreatEvent_default\<lparr>ev_level := HIGH, ev_category := cat, ev_description := desc, ev_timestamp := now\<rparr>)])"

definition ti_emit_observation :: "time_point \<Rightarrow> ObservationKind \<Rightarrow> ThreatLevel \<Rightarrow> double \<Rightarrow> string \<Rightarrow> emission list" where
  "ti_emit_observation now kind level confidence evidence =
     [Observation (SecurityObservation_default\<lparr>obs_source_id := ''threat-intel'', obs_kind := kind, obs_timestamp := now,
        obs_suggested_level := level, obs_confidence := confidence, obs_deterministic := True, obs_evidence := evidence\<rparr>)]"

section \<open>The indices agree with the list of indicators\<close>

text \<open>
  The contract of an index that is filled entry by entry: each step adds the key of the entry, if it has one. The three
  indices of the engine are its instances.
\<close>

locale entry_index =
  fixes key :: "'e \<Rightarrow> 'k option" and index :: "'s \<Rightarrow> 'k set" and step :: "'s \<Rightarrow> 'e \<Rightarrow> 's"
  assumes step_index: "index (step s e) = (case key e of None \<Rightarrow> index s | Some k \<Rightarrow> insert k (index s))"
begin

lemma fold_index: "index (foldl step s es) = index s \<union> {k. \<exists>e \<in> set es. key e = Some k}"
proof (induction es arbitrary: s)
  case (Cons e es)
  then show ?case by (cases "key e") (auto simp: step_index)
qed simp

end

definition hash_key :: "IocEntry \<Rightarrow> string option" where
  "hash_key e = (if ioc_active e \<and> (ioc_type e = SHA256_HASH \<or> ioc_type e = MD5_HASH) then Some (ioc_value e) else None)"

definition ip_key :: "IocEntry \<Rightarrow> string option" where
  "ip_key e = (if ioc_active e \<and> ioc_type e = IPV4_ADDRESS then Some (ioc_value e) else None)"

definition domain_key :: "IocEntry \<Rightarrow> string option" where
  "domain_key e = (if ioc_active e \<and> ioc_type e = DOMAIN then Some (ioc_value e) else None)"

interpretation hash_idx: entry_index hash_key ti_hash_index index_entry
  by unfold_locales (simp add: hash_key_def index_entry_def split: IocType.split)

interpretation ip_idx: entry_index ip_key ti_ip_index index_entry
  by unfold_locales (simp add: ip_key_def index_entry_def split: IocType.split)

interpretation domain_idx: entry_index domain_key ti_domain_index index_entry
  by unfold_locales (simp add: domain_key_def index_entry_def split: IocType.split)

definition indexed :: "ThreatIntelEngine \<Rightarrow> bool" where
  "indexed s \<longleftrightarrow> ti_hash_index s = {k. \<exists>e \<in> set (ti_iocs s). hash_key e = Some k} \<and>
     ti_ip_index s = {k. \<exists>e \<in> set (ti_iocs s). ip_key e = Some k} \<and>
     ti_domain_index s = {k. \<exists>e \<in> set (ti_iocs s). domain_key e = Some k}"

lemma ti_iocs_foldl_index [simp]: "ti_iocs (foldl index_entry s es) = ti_iocs s"
  by (induction es arbitrary: s) (simp_all add: index_entry_def split: IocType.split)

lemma rebuild_iocs [simp]: "ti_iocs (rebuild_indices s) = ti_iocs s"
  by (simp add: rebuild_indices_def)

lemma rebuild_indexed [simp]: "indexed (rebuild_indices s)"
  by (simp add: indexed_def rebuild_indices_def hash_idx.fold_index ip_idx.fold_index domain_idx.fold_index)

section \<open>Stored values are in normal form\<close>

lemma tolower_idem [simp]: "tolower_c (tolower_c c) = tolower_c c"
  by (simp add: tolower_c_def of_char_char_of_small)

lemma normalize_hash_idem [simp]: "normalize_hash (normalize_hash v) = normalize_hash v"
  by (simp add: normalize_hash_def)

lemma normalize_domain_idem [simp]: "normalize_domain (normalize_domain v) = normalize_domain v"
proof -
  let ?v = "dropWhile (\<lambda>c. c = CHR ''.'') (rev (map tolower_c v))"
  have "map tolower_c (rev ?v) = rev ?v"
    by (rule map_idI) (auto dest!: set_dropWhileD)
  then show ?thesis by (simp add: normalize_domain_def)
qed

definition normal :: "IocEntry \<Rightarrow> bool" where
  "normal e \<longleftrightarrow> normalize_entry e = e"

lemma normalize_entry_normal [simp]: "normal (normalize_entry e)"
  by (simp add: normal_def normalize_entry_def)

definition ti_ok :: "ThreatIntelEngine \<Rightarrow> bool" where
  "ti_ok s \<longleftrightarrow> indexed s \<and> list_all normal (ti_iocs s)"

lemma add_ioc_ok: "ti_ok s \<Longrightarrow> ti_ok (snd (add_ioc now e s))"
  by (simp add: ti_ok_def add_ioc_def Let_def)

lemma erase_ioc_subset: "erase_ioc i es = Some es' \<Longrightarrow> set es' \<subseteq> set es"
  by (induction es arbitrary: es') (auto split: if_splits)

lemma remove_ioc_ok: "ti_ok s \<Longrightarrow> ti_ok (snd (remove_ioc i s))"
  using erase_ioc_subset [of i "ti_iocs s"] by (auto simp: ti_ok_def remove_ioc_def list_all_iff split: option.split)

lemma foldl_ok:
  assumes "ti_ok (snd st)" "\<And>st x. ti_ok (snd st) \<Longrightarrow> ti_ok (snd (f st x))"
  shows "ti_ok (snd (foldl f st xs))"
  using assms(1) by (induction xs arbitrary: st) (simp_all add: assms(2))

lemma load_file_ok: "ti_ok s \<Longrightarrow> ti_ok (snd (load_iocs_from_file now contents s))"
  by (auto simp: load_iocs_from_file_def load_ioc_line_def intro!: foldl_ok add_ioc_ok split: option.split)

lemma import_ok: "ti_ok s \<Longrightarrow> ti_ok (snd (import_iocs_from_string now content src s))"
  by (auto simp: import_iocs_from_string_def import_line_def Let_def intro!: foldl_ok add_ioc_ok split: option.split)

lemma reload_directory_ok: "ti_ok s \<Longrightarrow> ti_ok (snd (reload_from_directory now dir s))"
proof -
  have "ti_ok (snd (reload_entry now st e))" if "ti_ok (snd st)" for st e
  proof -
    have "ti_ok s'" if "load_iocs_from_file now c (snd st) = (n, s')" for c n s'
      using load_file_ok [OF \<open>ti_ok (snd st)\<close>, of now c] that by simp
    then show ?thesis using that by (cases st; cases e) (auto simp: reload_entry_def split: prod.split)
  qed
  then show "ti_ok s \<Longrightarrow> ti_ok (snd (reload_from_directory now dir s))"
    by (auto simp: reload_from_directory_def intro: foldl_ok split: option.split)
qed

lemma normal_cong: "normal e \<Longrightarrow> normal (e\<lparr>ioc_id := i, ioc_added_at := t\<rparr>)"
  by (cases e) (auto simp: normal_def normalize_entry_def)

lemma default_iocs_normal: "list_all normal default_iocs"
  by code_simp

lemma push_defaults_normal: "list_all normal es \<Longrightarrow> list_all normal (ti_iocs s) \<Longrightarrow> list_all normal (ti_iocs (foldl (push_default now) s es))"
  by (induction es arbitrary: s) (simp_all add: push_default_def normal_cong)

lemma install_iocs_ok: "ti_ok s \<Longrightarrow> ti_ok (install_default_iocs now s)"
  using push_defaults_normal [OF default_iocs_normal, of s now] by (simp add: ti_ok_def install_default_iocs_def)

lemma clear_ok: "ti_ok (clear_iocs s)"
  by (simp add: ti_ok_def indexed_def clear_iocs_def)

datatype ti_op =
    TAdd time_point IocEntry | TRemove u64 | TClear | TLoad time_point "string option" | TImport time_point string string
  | TDirectory time_point "(bool \<times> string \<times> string option) list option"
  | TReload time_point bool "(bool \<times> string \<times> string option) list option" | TStart time_point | TStop | TMonitor
  | TRecord time_point IocEntry string string

fun ti_exec :: "ti_op \<Rightarrow> ThreatIntelEngine \<Rightarrow> ThreatIntelEngine" where
  "ti_exec (TAdd now e) s = snd (add_ioc now e s)"
| "ti_exec (TRemove i) s = snd (remove_ioc i s)"
| "ti_exec TClear s = clear_iocs s"
| "ti_exec (TLoad now contents) s = snd (load_iocs_from_file now contents s)"
| "ti_exec (TImport now content src) s = snd (import_iocs_from_string now content src s)"
| "ti_exec (TDirectory now dir) s = snd (reload_from_directory now dir s)"
| "ti_exec (TReload now b dir) s = snd (reload_all now b dir s)"
| "ti_exec (TStart now) s = snd (ti_start now s)"
| "ti_exec TStop s = snd (ti_stop s)"
| "ti_exec TMonitor s = ti_monitor_round s"
| "ti_exec (TRecord now e against ctx) s = record_match now e against ctx s"

lemma ti_ok_cong [simp]:
  "ti_ok (s\<lparr>ti_running := b\<rparr>) = ti_ok s" "ti_ok (s\<lparr>ti_events_processed := n\<rparr>) = ti_ok s" "ti_ok (s\<lparr>ti_match_log := ms\<rparr>) = ti_ok s"
  by (simp_all add: ti_ok_def indexed_def)

lemma ti_exec_ok: "ti_ok s \<Longrightarrow> ti_ok (ti_exec op s)"
  by (cases op) (simp_all add: add_ioc_ok remove_ioc_ok clear_ok load_file_ok import_ok reload_directory_ok install_iocs_ok reload_all_def Let_def
      ti_start_def ti_stop_def ti_monitor_round_def record_match_def)

lemma ti_run_ok: "ti_ok (fold ti_exec ops ThreatIntelEngine_new)"
proof -
  have "ti_ok (fold ti_exec ops s)" if "ti_ok s" for s using that by (induction ops arbitrary: s) (simp_all add: ti_exec_ok)
  then show ?thesis by (simp add: ti_ok_def indexed_def ThreatIntelEngine_new_def)
qed

section \<open>Saving and loading\<close>

definition printable :: "IocEntry \<Rightarrow> bool" where
  "printable e \<longleftrightarrow> list_all (\<lambda>t. CHR ''|'' \<notin> set t \<and> CHR 0x0A \<notin> set t) [ioc_value e, ioc_source e, ioc_description e]"

definition restored :: "IocEntry \<Rightarrow> IocEntry" where
  "restored e = IocEntry_default\<lparr>ioc_type := ioc_type e, ioc_value := ioc_value e,
     ioc_severity := (if ioc_severity e = SAFE then HIGH else ioc_severity e), ioc_source := ioc_source e, ioc_description := ioc_description e\<rparr>"

definition ioc_payload :: "IocEntry \<Rightarrow> bool \<times> IocType \<times> string \<times> ThreatLevel \<times> string \<times> string" where
  "ioc_payload e = (ioc_active e, ioc_type e, ioc_value e, ioc_severity e, ioc_source e, ioc_description e)"

lemma type_text_props [simp]:
  "CHR ''|'' \<notin> set (type_text t)" "CHR 0x0A \<notin> set (type_text t)" "parse_type (type_text t) = Some t" "hd (type_text t) \<noteq> CHR ''#''" "type_text t \<noteq> []"
  by (cases t; simp add: type_text_def parse_type_def)+

lemma severity_text_props [simp]:
  "CHR ''|'' \<notin> set (severity_text l)" "CHR 0x0A \<notin> set (severity_text l)" "parse_severity (severity_text l) = (if l = SAFE then HIGH else l)"
  by (cases l; simp add: severity_text_def parse_severity_def)+

lemma getfields_entry_line:
  assumes "printable e"
  shows "getfields (entry_line e) = [type_text (ioc_type e), ioc_value e, severity_text (ioc_severity e), ioc_source e] @
    (if ioc_description e = [] then [] else [ioc_description e])"
  using assms by (simp add: getfields_def entry_line_def printable_def split_on_append_sep split_on_no_sep Let_def)

lemma parse_entry_line: "printable e \<Longrightarrow> parse_entry (entry_line e) = Some (restored e)"
  by (simp add: parse_entry_def getfields_entry_line field_def restored_def Let_def)

lemma load_entry_line:
  assumes "printable e"
  shows "load_ioc_line now (n, s) (entry_line e) = (n + 1, snd (add_ioc now (restored e) s))"
proof -
  have "entry_line e \<noteq> []" "hd (entry_line e) \<noteq> CHR ''#''" by (simp_all add: entry_line_def)
  then show ?thesis using assms by (simp add: load_ioc_line_def parse_entry_line)
qed

lemma add_restored:
  assumes "normal e"
  shows "map ioc_payload (ti_iocs (snd (add_ioc now (restored e) s))) = map ioc_payload (ti_iocs s) @ [ioc_payload (restored e)]"
proof -
  have "ioc_value (normalize_entry e) = ioc_value e" using assms by (simp add: normal_def)
  then show ?thesis
    by (cases "ioc_type e") (simp_all add: add_ioc_def normalize_entry_def restored_def ioc_payload_def IocEntry_default_def Let_def)
qed

lemma load_entry_lines:
  assumes "list_all printable es" "list_all normal es"
  shows "fst (foldl (load_ioc_line now) (n, s) (map entry_line es)) = n + length es \<and>
    map ioc_payload (ti_iocs (snd (foldl (load_ioc_line now) (n, s) (map entry_line es)))) = map ioc_payload (ti_iocs s) @ map (ioc_payload \<circ> restored) es"
  using assms by (induction es arbitrary: n s) (simp_all add: load_entry_line add_restored)

lemma load_saved:
  assumes "save_iocs True s = (n, Some body)" "list_all printable (filter ioc_active (ti_iocs s))" "list_all normal (ti_iocs s)"
  shows "fst (load_iocs_from_file now (Some body) (clear_iocs t)) = n \<and>
    map ioc_payload (ti_iocs (snd (load_iocs_from_file now (Some body) (clear_iocs t)))) = map (ioc_payload \<circ> restored) (filter ioc_active (ti_iocs s))"
proof -
  let ?es = "filter ioc_active (ti_iocs s)"
  let ?ls = "''# GCAD Threat Intelligence IOC Database'' # ''# Format: type|value|severity|source|description'' # map entry_line ?es"
  have b: "body = concat (map (\<lambda>l. l @ [CHR 0x0A]) ?ls)" and n: "n = length ?es"
    using assms(1) by (auto simp: save_iocs_def Let_def)
  have "CHR 0x0A \<notin> set (entry_line e)" if "e \<in> set ?es" for e
    using assms(2) that by (simp add: entry_line_def printable_def list_all_iff)
  then have "getlines body = ?ls" unfolding b by (intro getlines_concat) auto
  then have "load_iocs_from_file now (Some body) (clear_iocs t) = foldl (load_ioc_line now) (0, clear_iocs t) (map entry_line ?es)"
    by (simp add: load_iocs_from_file_def load_ioc_line_def)
  moreover have "list_all normal ?es" using assms(3) by (simp add: list_all_iff)
  ultimately show ?thesis using load_entry_lines [OF assms(2), of now 0 "clear_iocs t"] n by (simp add: clear_iocs_def)
qed

text \<open>What an index holds depends only on the payloads.\<close>

lemma keys_by_payload:
  assumes "ioc_payload ` A = ioc_payload ` B" "\<And>e e'. ioc_payload e = ioc_payload e' \<Longrightarrow> key e = key e'"
  shows "{k. \<exists>e \<in> A. key e = Some k} = {k. \<exists>e \<in> B. key e = Some k}"
proof -
  have sub: "\<exists>e' \<in> S. key e' = key e" if "ioc_payload ` R = ioc_payload ` S" "e \<in> R" for R S e
  proof -
    from that have "ioc_payload e \<in> ioc_payload ` S" by blast
    then obtain e' where "e' \<in> S" "ioc_payload e' = ioc_payload e" by auto
    then show ?thesis using assms(2) by blast
  qed
  show ?thesis using sub [OF assms(1)] sub [OF assms(1) [symmetric]] by (intro Collect_cong) fastforce
qed

lemma key_payload:
  assumes "ioc_payload e = ioc_payload e'"
  shows "hash_key e = hash_key e'" "ip_key e = ip_key e'" "domain_key e = domain_key e'"
  using assms by (simp_all add: hash_key_def ip_key_def domain_key_def ioc_payload_def)

lemma restored_keys:
  "{k. \<exists>e \<in> set (map restored (filter ioc_active es)). hash_key e = Some k} = {k. \<exists>e \<in> set es. hash_key e = Some k}"
  "{k. \<exists>e \<in> set (map restored (filter ioc_active es)). ip_key e = Some k} = {k. \<exists>e \<in> set es. ip_key e = Some k}"
  "{k. \<exists>e \<in> set (map restored (filter ioc_active es)). domain_key e = Some k} = {k. \<exists>e \<in> set es. domain_key e = Some k}"
  by (auto simp: hash_key_def ip_key_def domain_key_def restored_def IocEntry_default_def split: if_splits)

lemma same_payload_same_indices:
  assumes "indexed s" "indexed t" "map ioc_payload (ti_iocs t) = map (ioc_payload \<circ> restored) (filter ioc_active (ti_iocs s))"
  shows "ti_hash_index t = ti_hash_index s \<and> ti_ip_index t = ti_ip_index s \<and> ti_domain_index t = ti_domain_index s"
proof -
  have p: "ioc_payload ` set (ti_iocs t) = ioc_payload ` set (map restored (filter ioc_active (ti_iocs s)))"
    using arg_cong [OF assms(3), of set] by (simp add: image_comp)
  have "{k. \<exists>e \<in> set (ti_iocs t). hash_key e = Some k} = {k. \<exists>e \<in> set (ti_iocs s). hash_key e = Some k}"
    "{k. \<exists>e \<in> set (ti_iocs t). ip_key e = Some k} = {k. \<exists>e \<in> set (ti_iocs s). ip_key e = Some k}"
    "{k. \<exists>e \<in> set (ti_iocs t). domain_key e = Some k} = {k. \<exists>e \<in> set (ti_iocs s). domain_key e = Some k}"
    unfolding restored_keys [of "ti_iocs s", symmetric] by (rule keys_by_payload [OF p], erule key_payload)+
  then show ?thesis using assms(1,2) by (simp add: indexed_def)
qed

lemma key_matches:
  "hash_key e = Some (normalize_hash v) \<longleftrightarrow> ioc_active e \<and> ioc_matches v e \<and> (ioc_type e = SHA256_HASH \<or> ioc_type e = MD5_HASH)"
  "ip_key e = Some v \<longleftrightarrow> ioc_active e \<and> ioc_matches v e \<and> ioc_type e = IPV4_ADDRESS"
  "domain_key e = Some (normalize_domain v) \<longleftrightarrow> ioc_active e \<and> ioc_matches v e \<and> ioc_type e = DOMAIN"
  by (cases "ioc_type e"; simp add: hash_key_def ip_key_def domain_key_def ioc_matches_def)+

section \<open>Properties\<close>

text \<open>
  C25. The fast checks and the full lookup agree in every state the engine can reach: a hash, address or domain is
  flagged exactly when the lookup of the same text reports an active indicator of that kind.
\<close>

theorem ioc_checks_agree_with_lookup:
  "(let s = fold ti_exec ops ThreatIntelEngine_new; kinds = (\<lambda>v. (ioc_type \<circ> im_ioc) ` set (lookup_ioc now v s)) in
    (check_hash v s \<longleftrightarrow> SHA256_HASH \<in> kinds v \<or> MD5_HASH \<in> kinds v) \<and>
    (check_ip v s \<longleftrightarrow> IPV4_ADDRESS \<in> kinds v) \<and>
    (check_domain v s \<longleftrightarrow> DOMAIN \<in> kinds v))"
proof -
  define s where "s = fold ti_exec ops ThreatIntelEngine_new"
  have i: "indexed s" using ti_run_ok by (simp add: ti_ok_def s_def)
  have k: "t \<in> (ioc_type \<circ> im_ioc) ` set (lookup_ioc now v s) \<longleftrightarrow> (\<exists>e \<in> set (ti_iocs s). ioc_active e \<and> ioc_matches v e \<and> ioc_type e = t)" for t
    by (auto simp: lookup_ioc_def image_iff)
  have "check_hash v s \<longleftrightarrow> (\<exists>e \<in> set (ti_iocs s). ioc_active e \<and> ioc_matches v e \<and> (ioc_type e = SHA256_HASH \<or> ioc_type e = MD5_HASH))"
    using i by (simp add: indexed_def check_hash_def key_matches)
  moreover have "check_ip v s \<longleftrightarrow> (\<exists>e \<in> set (ti_iocs s). ioc_active e \<and> ioc_matches v e \<and> ioc_type e = IPV4_ADDRESS)"
    using i by (simp add: indexed_def check_ip_def key_matches)
  moreover have "check_domain v s \<longleftrightarrow> (\<exists>e \<in> set (ti_iocs s). ioc_active e \<and> ioc_matches v e \<and> ioc_type e = DOMAIN)"
    using i by (simp add: indexed_def check_domain_def key_matches)
  ultimately show ?thesis unfolding Let_def s_def [symmetric] k by blast
qed

text \<open>
  The indicator file round trip: saving a database whose active indicators contain no separator or newline and
  loading the file into an engine with an empty database restores the active indicators in their order, with the
  severity SAFE read back as HIGH, counts them, and answers every hash, address and domain check as before.
\<close>

theorem ioc_file_round_trip:
  assumes "s = fold ti_exec ops ThreatIntelEngine_new" "t = fold ti_exec ops' ThreatIntelEngine_new"
    "list_all printable (filter ioc_active (ti_iocs s))" "save_iocs True s = (n, Some body)"
    "load_iocs_from_file now (Some body) (clear_iocs t) = (m, u)"
  shows "m = n \<and>
    map ioc_payload (ti_iocs u) = map (\<lambda>e. (True, ioc_type e, ioc_value e, if ioc_severity e = SAFE then HIGH else ioc_severity e,
      ioc_source e, ioc_description e)) (filter ioc_active (ti_iocs s)) \<and>
    check_hash v u = check_hash v s \<and> check_ip v u = check_ip v s \<and> check_domain v u = check_domain v s"
proof -
  have ok: "ti_ok s" "ti_ok u" using ti_run_ok load_file_ok [OF clear_ok, of now "Some body" t] assms(1,5) by simp_all
  have l: "m = n \<and> map ioc_payload (ti_iocs u) = map (ioc_payload \<circ> restored) (filter ioc_active (ti_iocs s))"
    using load_saved [OF assms(4,3), of now t] ok(1) assms(5) by (simp add: ti_ok_def)
  moreover have "ti_hash_index u = ti_hash_index s \<and> ti_ip_index u = ti_ip_index s \<and> ti_domain_index u = ti_domain_index s"
    by (rule same_payload_same_indices) (use l ok in \<open>simp_all add: ti_ok_def\<close>)
  moreover have "(ioc_payload \<circ> restored) = (\<lambda>e. (True, ioc_type e, ioc_value e, if ioc_severity e = SAFE then HIGH else ioc_severity e,
      ioc_source e, ioc_description e))" by (simp add: fun_eq_iff ioc_payload_def restored_def IocEntry_default_def)
  ultimately show ?thesis by (simp add: check_hash_def check_ip_def check_domain_def)
qed

theorem ioc_file_round_trip_witness:
  "\<exists>u. load_iocs_from_file 7 (snd (save_iocs True (ti_exec (TStart 1) ThreatIntelEngine_new))) (clear_iocs ThreatIntelEngine_new) = (9, u) \<and>
     check_domain ''Malware-C2.example.com.'' u"
proof -
  define s where "s = fold ti_exec [TStart 1] ThreatIntelEngine_new"
  have p: "list_all printable (filter ioc_active (ti_iocs s))" unfolding s_def by code_simp
  have c: "check_domain ''Malware-C2.example.com.'' s" unfolding s_def by code_simp
  have n: "length (filter ioc_active (ti_iocs s)) = 9" unfolding s_def by code_simp
  obtain body where b: "save_iocs True s = (9, Some body)" by (simp add: save_iocs_def Let_def n)
  obtain m u where u: "load_iocs_from_file 7 (Some body) (clear_iocs (fold ti_exec [] ThreatIntelEngine_new)) = (m, u)" by fastforce
  have "m = 9 \<and> check_domain ''Malware-C2.example.com.'' u" using ioc_file_round_trip [OF s_def refl p b u] c by simp
  with u b show ?thesis by (auto simp: s_def)
qed

end
