(* ===== verification/Signature_DB.thy ===== *)
theory Signature_DB
  imports Engine_Base
begin

text \<open>
  \<^verbatim>\<open>scanner/signature_db.{hpp,cpp}\<close>: byte signatures with optional wildcards and fixed offsets, the built-in set, the
  signature file, and the two scans, the one that stops at the first match and the one that reports one match per
  signature. A match refers to its signature, here the signature itself. The level is kept as the byte of the enumeration
  value, since a file may name a value that is no enumerator. An exception of \<^verbatim>\<open>std::stoi\<close> or \<^verbatim>\<open>std::stoul\<close> leaves the
  loader; the signatures added before it stay.
\<close>

section \<open>Signatures\<close>

record Signature =
  sg_name :: string
  sg_level :: u8
  sg_category :: ThreatCategory
  sg_pattern :: bytes
  sg_mask :: bytes
  sg_offset :: int
  sg_description :: string

record MatchResult =
  mr_sig :: Signature
  mr_offset :: nat

type_synonym SignatureDB = "Signature list"

definition sig_add :: "Signature \<Rightarrow> SignatureDB \<Rightarrow> SignatureDB" where
  "sig_add sig db = db @ [sig]"

definition builtin_signature :: "string \<Rightarrow> ThreatLevel \<Rightarrow> ThreatCategory \<Rightarrow> bytes \<Rightarrow> int \<Rightarrow> string \<Rightarrow> Signature" where
  "builtin_signature n l c pat off d = \<lparr>sg_name = n, sg_level = of_nat (level_code l), sg_category = c, sg_pattern = pat, sg_mask = [],
     sg_offset = off, sg_description = d\<rparr>"

definition builtin_signatures :: "Signature list" where
  "builtin_signatures =
     [builtin_signature ''msfvenom_x86_shikata'' CRITICAL SHELLCODE ([0xd9, 0x74, 0x24, 0xf4]) (-1) (''Metasploit shikata_ga_nai encoder stub''),
      builtin_signature ''msfvenom_x64_shell'' CRITICAL SHELLCODE ([0x48, 0x31, 0xc9, 0x48, 0x81, 0xe9]) (-1) (''x64 shellcode: xor rcx, sub rcx pattern''),
      builtin_signature ''inject_VirtualAllocEx'' HIGH MEMORY_INJECTION (map byte_of ''VirtualAllocEx'') (-1) (''VirtualAllocEx import '' @ em_dash @ '' potential process injection''),
      builtin_signature ''inject_WriteProcessMemory'' HIGH MEMORY_INJECTION (map byte_of ''WriteProcessMemory'') (-1) (''WriteProcessMemory import '' @ em_dash @ '' memory injection''),
      builtin_signature ''inject_NtMapViewOfSection'' HIGH PROCESS_HOLLOW (map byte_of ''NtMapViewOfSection'') (-1) (''NtMapViewOfSection '' @ em_dash @ '' process hollowing indicator''),
      builtin_signature ''inject_QueueUserAPC'' HIGH APC_INJECTION (map byte_of ''QueueUserAPC'') (-1) (''QueueUserAPC import '' @ em_dash @ '' APC injection''),
      builtin_signature ''reflective_loader'' CRITICAL REFLECTIVE_LOAD ([0x4D, 0x5A, 0x52, 0x45]) 0 (''MZ header at non-standard offset (reflective load)''),
      builtin_signature ''mimikatz_str'' CRITICAL CREDENTIAL_DUMP (map byte_of ''sekurlsa::logonpasswords'') (-1) (''Mimikatz credential dump command string''),
      builtin_signature ''amsi_patch'' CRITICAL EVASION_AMSI (map byte_of ''AmsiScanBuffer'') (-1) (''AmsiScanBuffer reference '' @ em_dash @ '' possible AMSI bypass''),
      builtin_signature ''etw_patch'' HIGH EVASION_ETW (map byte_of ''EtwEventWrite'') (-1) (''EtwEventWrite reference '' @ em_dash @ '' possible ETW bypass''),
      builtin_signature ''syscall_stub_x64'' CRITICAL DIRECT_SYSCALL ([0x4C, 0x8B, 0xD1, 0xB8]) (-1) (''mov r10, rcx; mov eax '' @ em_dash @ '' direct syscall stub''),
      builtin_signature ''ransom_note_1'' CRITICAL RANSOMWARE (map byte_of ''Your files have been encrypted'') (-1) (''Ransomware note pattern''),
      builtin_signature ''arp_reply_spoof'' HIGH ARP_POISON ([0x00, 0x02]) 6 (''ARP reply opcode at L2 '' @ em_dash @ '' potential ARP poisoning''),
      builtin_signature ''cs_beacon_cfg'' CRITICAL FILELESS_EXEC ([0x00, 0x00, 0x00, 0x00, 0x00, 0x00, 0xBE, 0xEF]) (-1) (''Cobalt Strike beacon configuration marker''),
      builtin_signature ''ppid_spoof_api'' HIGH PPID_SPOOF (map byte_of ''UpdateProcThreadAttribute'') (-1) (''UpdateProcThreadAttribute '' @ em_dash @ '' possible PPID spoofing'')]"

definition SignatureDB_new :: SignatureDB where
  "SignatureDB_new = fold sig_add builtin_signatures []"

definition sig_size :: "SignatureDB \<Rightarrow> nat" where
  "sig_size db = length db"

section \<open>The signature file\<close>

text \<open>
  \<^verbatim>\<open>std::stoul(s, nullptr, 16)\<close> of at most two characters, cast to a byte: blanks and a sign are skipped, trailing characters
  ignored, a minus sign negates modulo the width; a \<^verbatim>\<open>0x\<close> prefix needs a third character. \<open>None\<close> is the exception.
\<close>

fun hex_prefix :: "string \<Rightarrow> nat list" where
  "hex_prefix [] = []"
| "hex_prefix (c # cs) = (case hex_val c of None \<Rightarrow> [] | Some d \<Rightarrow> d # hex_prefix cs)"

definition stoul_hex2 :: "string \<Rightarrow> u8 option" where
  "stoul_hex2 s =
     (let t = dropWhile is_space s;
          neg = (t \<noteq> [] \<and> hd t = CHR ''-'');
          u = (if t \<noteq> [] \<and> (hd t = CHR ''-'' \<or> hd t = CHR ''+'') then tl t else t);
          ds = hex_prefix u; v = (of_nat (foldl (\<lambda>n d. 16 * n + d) 0 ds) :: u8)
      in if ds = [] then None else Some (if neg then - v else v))"

fun hex_pairs :: "string \<Rightarrow> bytes option" where
  "hex_pairs (a # b # cs) = (case stoul_hex2 [a, b] of
     None \<Rightarrow> None | Some v \<Rightarrow> map_option ((#) v) (hex_pairs cs))"
| "hex_pairs [a] = Some []"
| "hex_pairs [] = Some []"

text \<open>The text before and after the first separator.\<close>

definition cut :: "string \<Rightarrow> (string \<times> string) option" where
  "cut s = map_option (\<lambda>i. (take i s, drop (i + 1) s)) (find_char CHR ''|'' s)"

datatype sig_line = Skipped | Thrown | Parsed Signature

definition parse_signature :: "string \<Rightarrow> sig_line" where
  "parse_signature line =
     (if line = [] \<or> hd line = CHR ''#'' then Skipped
      else case cut line of None \<Rightarrow> Skipped | Some (name, r1) \<Rightarrow>
        (case cut r1 of None \<Rightarrow> Skipped | Some (level, r2) \<Rightarrow>
          (case cut r2 of None \<Rightarrow> Skipped | Some (hex, desc) \<Rightarrow>
            (case (stoi level, hex_pairs hex) of
               (Some l, Some pat) \<Rightarrow> Parsed \<lparr>sg_name = name, sg_level = word_of_int l, sg_category = SUSPICIOUS_BINARY, sg_pattern = pat,
                 sg_mask = [], sg_offset = - 1, sg_description = desc\<rparr>
             | _ \<Rightarrow> Thrown))))"

text \<open>The loop over the lines; the first component tells whether it ran to the end.\<close>

fun load_signature_lines :: "string list \<Rightarrow> SignatureDB \<Rightarrow> bool \<times> SignatureDB" where
  "load_signature_lines [] db = (True, db)"
| "load_signature_lines (l # ls) db = (case parse_signature l of
     Skipped \<Rightarrow> load_signature_lines ls db
   | Thrown \<Rightarrow> (False, db)
   | Parsed sig \<Rightarrow> load_signature_lines ls (sig_add sig db))"

definition sig_load_from_file :: "string option \<Rightarrow> SignatureDB \<Rightarrow> bool \<times> SignatureDB" where
  "sig_load_from_file contents db = (case contents of None \<Rightarrow> (True, db) | Some s \<Rightarrow> load_signature_lines (getlines s) db)"

section \<open>The two scans\<close>

definition sig_match :: "bytes \<Rightarrow> Signature \<Rightarrow> nat \<Rightarrow> bool" where
  "sig_match data sig i = list_all (\<lambda>j. sg_mask sig \<noteq> [] \<and> j < length (sg_mask sig) \<and> sg_mask sig ! j = 0 \<or>
     data ! (i + j) = sg_pattern sig ! j) [0..<length (sg_pattern sig)]"

definition scan_signature :: "bytes \<Rightarrow> Signature \<Rightarrow> MatchResult option" where
  "scan_signature data sig =
     (if sg_pattern sig = [] \<or> length data < length (sg_pattern sig) then None
      else if 0 \<le> sg_offset sig then
        let off = nat (sg_offset sig) in
        if length data < off + length (sg_pattern sig) then None
        else if sub_bytes data off (length (sg_pattern sig)) = sg_pattern sig then Some \<lparr>mr_sig = sig, mr_offset = off\<rparr>
        else None
      else map_option (\<lambda>i. \<lparr>mr_sig = sig, mr_offset = i\<rparr>) (find (sig_match data sig) [0..<length data - length (sg_pattern sig) + 1]))"

fun sig_scan :: "SignatureDB \<Rightarrow> bytes \<Rightarrow> MatchResult option" where
  "sig_scan [] data = None"
| "sig_scan (sig # db) data = (case scan_signature data sig of Some m \<Rightarrow> Some m | None \<Rightarrow> sig_scan db data)"

definition scan_all_signature :: "bytes \<Rightarrow> Signature \<Rightarrow> MatchResult list" where
  "scan_all_signature data sig =
     (if sg_pattern sig = [] \<or> length data < length (sg_pattern sig) then []
      else let start = (if 0 \<le> sg_offset sig then nat (sg_offset sig) else 0);
               finish = (if 0 \<le> sg_offset sig then start + 1 else length data - length (sg_pattern sig) + 1)
        in case find (sig_match data sig) (takeWhile (\<lambda>i. i + length (sg_pattern sig) \<le> length data) [start..<finish]) of
          None \<Rightarrow> [] | Some i \<Rightarrow> [\<lparr>mr_sig = sig, mr_offset = i\<rparr>])"

definition sig_scan_all :: "SignatureDB \<Rightarrow> bytes \<Rightarrow> MatchResult list" where
  "sig_scan_all db data = concat (map (scan_all_signature data) db)"

section \<open>Lemmas\<close>

lemma takeWhile_range:
  "n \<le> l \<Longrightarrow> takeWhile (\<lambda>i. i + n \<le> l) [0..<Suc (l - n)] = [0..<Suc (l - n)]"
  by (auto simp: takeWhile_eq_all_conv simp del: upt_Suc)

lemma find_upt: "find P [0..<n] = Some i \<longleftrightarrow> i < n \<and> P i \<and> \<not> list_ex P [0..<i]"
  by (auto simp: find_Some_iff list_ex_iff)

lemma sig_match_exact:
  assumes "list_all (\<lambda>m. m \<noteq> 0) (sg_mask sig)" "off + length (sg_pattern sig) \<le> length data"
  shows "sig_match data sig off \<longleftrightarrow> sub_bytes data off (length (sg_pattern sig)) = sg_pattern sig"
proof -
  have "\<not> (j < length (sg_mask sig) \<and> sg_mask sig ! j = 0)" for j using assms(1) by (auto simp: list_all_iff dest: nth_mem)
  then have "(\<lambda>j. sg_mask sig \<noteq> [] \<and> j < length (sg_mask sig) \<and> sg_mask sig ! j = 0 \<or> data ! (off + j) = sg_pattern sig ! j) =
      (\<lambda>j. data ! (off + j) = sg_pattern sig ! j)" by blast
  then have "sig_match data sig off \<longleftrightarrow> (\<forall>j < length (sg_pattern sig). data ! (off + j) = sg_pattern sig ! j)"
    by (simp add: sig_match_def list_all_iff atLeast0LessThan Ball_def)
  also have "\<dots> \<longleftrightarrow> sub_bytes data off (length (sg_pattern sig)) = sg_pattern sig"
    using assms(2) by (auto simp: list_eq_iff_nth_eq sub_bytes_def)
  finally show ?thesis .
qed

lemma scan_all_signature_eq:
  assumes "sg_offset sig < 0 \<or> list_all (\<lambda>m. m \<noteq> 0) (sg_mask sig)"
  shows "scan_all_signature data sig = (case scan_signature data sig of None \<Rightarrow> [] | Some m \<Rightarrow> [m])"
proof (cases "0 \<le> sg_offset sig")
  case True
  then show ?thesis using assms sig_match_exact [of sig "nat (sg_offset sig)" data]
    by (simp add: scan_all_signature_def scan_signature_def Let_def)
next
  case False
  then show ?thesis
    by (cases "length data < length (sg_pattern sig)")
      (simp_all add: scan_all_signature_def scan_signature_def Let_def takeWhile_range del: upt_Suc split: option.split)
qed

lemma scan_is_hd:
  "list_all (\<lambda>sig. sg_offset sig < 0 \<or> list_all (\<lambda>m. m \<noteq> 0) (sg_mask sig)) db \<Longrightarrow>
    sig_scan db data = (case sig_scan_all db data of [] \<Rightarrow> None | m # ms \<Rightarrow> Some m)"
  by (induction db) (simp_all add: sig_scan_all_def scan_all_signature_eq split: option.split)

lemma scan_all_signature_iff:
  "\<lparr>mr_sig = sig', mr_offset = i\<rparr> \<in> set (scan_all_signature data sig) \<longleftrightarrow> sig' = sig \<and> sg_pattern sig \<noteq> [] \<and>
    i + length (sg_pattern sig) \<le> length data \<and> sig_match data sig i \<and>
    (if 0 \<le> sg_offset sig then i = nat (sg_offset sig) else \<not> list_ex (sig_match data sig) [0..<i])"
proof (cases "sg_pattern sig = [] \<or> length data < length (sg_pattern sig)")
  case True
  then show ?thesis by (auto simp: scan_all_signature_def)
next
  case False
  have f: "\<lparr>mr_sig = sig', mr_offset = i\<rparr> \<in> set (case find P xs of None \<Rightarrow> [] | Some i \<Rightarrow> [\<lparr>mr_sig = sig, mr_offset = i\<rparr>]) \<longleftrightarrow>
      sig' = sig \<and> find P xs = Some i" for P xs by (auto split: option.split)
  show ?thesis
  proof (cases "0 \<le> sg_offset sig")
    case True
    with False show ?thesis unfolding scan_all_signature_def Let_def by (auto simp: f simp del: option.case_eq_if)
  next
    case neg: False
    have "i < Suc (length data - length (sg_pattern sig)) \<longleftrightarrow> i + length (sg_pattern sig) \<le> length data" using False by linarith
    with neg False show ?thesis unfolding scan_all_signature_def Let_def
      by (simp add: f takeWhile_range find_upt eq_commute [of "Some i"] del: upt_Suc) blast
  qed
qed

lemma match_set_eq:
  assumes "\<And>sig i. \<lparr>mr_sig = sig, mr_offset = i\<rparr> \<in> S \<longleftrightarrow> P sig i"
  shows "S = {\<lparr>mr_sig = sig, mr_offset = i\<rparr> |sig i. P sig i}"
proof (intro set_eqI)
  fix m :: MatchResult
  show "m \<in> S \<longleftrightarrow> m \<in> {\<lparr>mr_sig = sig, mr_offset = i\<rparr> |sig i. P sig i}" using assms by (cases m) simp
qed

section \<open>Properties\<close>

text \<open>
  The full scan reports exactly one entry for every signature that occurs: at its fixed offset when it has one, and
  otherwise at the first position where every byte that is not masked out agrees and the pattern fits into the data.
\<close>

theorem sig_scan_all_exact:
  "set (sig_scan_all db data) = {\<lparr>mr_sig = sig, mr_offset = i\<rparr> |sig i. sig \<in> set db \<and>
     (let n = length (sg_pattern sig);
          occurs = (\<lambda>k. k + n \<le> length data \<and> list_all (\<lambda>j. j < length (sg_mask sig) \<and> sg_mask sig ! j = 0 \<or> data ! (k + j) = sg_pattern sig ! j) [0..<n])
      in 0 < n \<and> occurs i \<and> (if 0 \<le> sg_offset sig then int i = sg_offset sig else \<not> list_ex occurs [0..<i]))}"
proof -
  have m: "list_all (\<lambda>j. j < length (sg_mask sig) \<and> sg_mask sig ! j = 0 \<or> data ! (k + j) = sg_pattern sig ! j) [0..<length (sg_pattern sig)]
      \<longleftrightarrow> sig_match data sig k" for sig k by (auto simp: sig_match_def list_all_iff)
  have e: "list_ex (\<lambda>k. k + n \<le> length data \<and> P k) [0..<i] \<longleftrightarrow> list_ex P [0..<i]" if "i + n \<le> length data" for i n P
    using that by (auto simp: list_ex_iff)
  show ?thesis
  proof (rule match_set_eq, unfold Let_def m)
    fix sig :: Signature and i
    have "int i = sg_offset sig \<longleftrightarrow> i = nat (sg_offset sig)" if "0 \<le> sg_offset sig" using that by auto
    moreover have "\<lparr>mr_sig = sig, mr_offset = i\<rparr> \<in> set (sig_scan_all db data) \<longleftrightarrow>
        sig \<in> set db \<and> \<lparr>mr_sig = sig, mr_offset = i\<rparr> \<in> set (scan_all_signature data sig)"
      by (auto simp: sig_scan_all_def scan_all_signature_iff)
    ultimately show "\<lparr>mr_sig = sig, mr_offset = i\<rparr> \<in> set (sig_scan_all db data) \<longleftrightarrow> sig \<in> set db \<and> 0 < length (sg_pattern sig) \<and>
        (i + length (sg_pattern sig) \<le> length data \<and> sig_match data sig i) \<and>
        (if 0 \<le> sg_offset sig then int i = sg_offset sig
         else \<not> list_ex (\<lambda>k. k + length (sg_pattern sig) \<le> length data \<and> sig_match data sig k) [0..<i])"
      using e [of i "length (sg_pattern sig)" "sig_match data sig"] unfolding scan_all_signature_iff by auto
  qed
qed

text \<open>
  The quick scan returns the first entry of the full scan, and nothing exactly when the full scan is empty, as long as
  no signature with a fixed offset has wildcards.
\<close>

theorem sig_scan_is_first:
  assumes "list_all (\<lambda>sig. sg_offset sig < 0 \<or> list_all (\<lambda>m. m \<noteq> 0) (sg_mask sig)) db"
  shows "sig_scan db data = (case sig_scan_all db data of [] \<Rightarrow> None | m # ms \<Rightarrow> Some m)"
  using assms by (rule scan_is_hd)

theorem sig_scan_is_first_witness:
  "\<exists>m ms. sig_scan_all SignatureDB_new [0x00, 0x4C, 0x8B, 0xD1, 0xB8] = m # ms \<and>
     sig_scan SignatureDB_new [0x00, 0x4C, 0x8B, 0xD1, 0xB8] = Some m"
proof -
  have "list_all (\<lambda>sig. sg_offset sig < 0 \<or> list_all (\<lambda>m. m \<noteq> 0) (sg_mask sig)) SignatureDB_new"
    by (simp add: SignatureDB_new_def builtin_signatures_def sig_add_def builtin_signature_def)
  note f = sig_scan_is_first [OF this, of "[0x00, 0x4C, 0x8B, 0xD1, 0xB8]"]
  have "sig_scan_all SignatureDB_new [0x00, 0x4C, 0x8B, 0xD1, 0xB8] \<noteq> []" by code_simp
  with f show ?thesis by (auto simp: neq_Nil_conv)
qed

text \<open>Without that condition the scans differ: the quick scan compares the masked bytes of a signature with a fixed offset.\<close>

lemma quick_scan_ignores_mask:
  "let sig = \<lparr>sg_name = [], sg_level = 0, sg_category = NONE, sg_pattern = [1, 2], sg_mask = [0xFF, 0], sg_offset = 0, sg_description = []\<rparr> in
    sig_scan [sig] [1, 9] = None \<and> sig_scan_all [sig] [1, 9] = [\<lparr>mr_sig = sig, mr_offset = 0\<rparr>]"
  by code_simp

text \<open>A signature line with a level that is not a number ends the loading; the lines behind it are not read.\<close>

lemma bad_line_stops_loading:
  "load_signature_lines [''a|1|90|x'', ''b|high|90|x'', ''c|1|90|x''] [] =
    (False, [\<lparr>sg_name = ''a'', sg_level = 1, sg_category = SUSPICIOUS_BINARY, sg_pattern = [0x90], sg_mask = [], sg_offset = -1, sg_description = ''x''\<rparr>])"
  by code_simp

end
