(* ===== verification/Md5.thy ===== *)
theory Md5
  imports Pe_Authenticode
begin

text \<open>
  The class \<^verbatim>\<open>Md5Context\<close> of \<^verbatim>\<open>engines/pe_static_analysis_engine.cpp\<close>, from which the import hash is computed: buffered
  \<^verbatim>\<open>update\<close>, \<^verbatim>\<open>finalize\<close> and the unrolled block transformation. The buffering differs from that of the SHA-2 classes (whole
  blocks are transformed in place and the position in the buffer is read off the bit counter); it is proved to compute the
  same construction, over the loop form of the RFC 1321 compression function.
\<close>

section \<open>The block transformation\<close>

type_synonym md5_state = "u32 \<times> u32 \<times> u32 \<times> u32"
type_synonym md5_step = "nat \<times> nat \<times> u32"

definition md5_F :: "u32 \<Rightarrow> u32 \<Rightarrow> u32 \<Rightarrow> u32" where
  "md5_F x y z = (x AND y) OR (NOT x AND z)"

definition md5_G :: "u32 \<Rightarrow> u32 \<Rightarrow> u32 \<Rightarrow> u32" where
  "md5_G x y z = (x AND z) OR (y AND NOT z)"

definition md5_H :: "u32 \<Rightarrow> u32 \<Rightarrow> u32 \<Rightarrow> u32" where
  "md5_H x y z = x XOR y XOR z"

definition md5_I :: "u32 \<Rightarrow> u32 \<Rightarrow> u32 \<Rightarrow> u32" where
  "md5_I x y z = y XOR (x OR NOT z)"

definition rotl32 :: "u32 \<Rightarrow> nat \<Rightarrow> u32" where
  "rotl32 x n = push_bit n x OR drop_bit (32 - n) x"

text \<open>The new value a macro call assigns to its first register.\<close>

definition md5_op :: "(u32 \<Rightarrow> u32 \<Rightarrow> u32 \<Rightarrow> u32) \<Rightarrow> u32 list \<Rightarrow> u32 \<Rightarrow> u32 \<Rightarrow> u32 \<Rightarrow> u32 \<Rightarrow> md5_step \<Rightarrow> u32" where
  "md5_op f x a b c d p = (case p of (k, s, t) \<Rightarrow> b + rotl32 (a + f b c d + x ! k + t) s)"

text \<open>Four macro calls in the order \<^verbatim>\<open>(a,b,c,d)\<close>, \<^verbatim>\<open>(d,a,b,c)\<close>, \<^verbatim>\<open>(c,d,a,b)\<close>, \<^verbatim>\<open>(b,c,d,a)\<close>.\<close>

definition md5_row :: "(u32 \<Rightarrow> u32 \<Rightarrow> u32 \<Rightarrow> u32) \<Rightarrow> u32 list \<Rightarrow> md5_state \<Rightarrow> md5_step \<times> md5_step \<times> md5_step \<times> md5_step \<Rightarrow> md5_state" where
  "md5_row f x st ps = (case (st, ps) of ((a, b, c, d), (p0, p1, p2, p3)) \<Rightarrow>
     let a' = md5_op f x a b c d p0; d' = md5_op f x d a' b c p1; c' = md5_op f x c d' a' b p2; b' = md5_op f x b c' d' a' p3
     in (a', b', c', d'))"

definition md5_round1 :: "(md5_step \<times> md5_step \<times> md5_step \<times> md5_step) list" where
  "md5_round1 =
     [((0, 7, 0xd76aa478), (1, 12, 0xe8c7b756), (2, 17, 0x242070db), (3, 22, 0xc1bdceee)),
      ((4, 7, 0xf57c0faf), (5, 12, 0x4787c62a), (6, 17, 0xa8304613), (7, 22, 0xfd469501)),
      ((8, 7, 0x698098d8), (9, 12, 0x8b44f7af), (10, 17, 0xffff5bb1), (11, 22, 0x895cd7be)),
      ((12, 7, 0x6b901122), (13, 12, 0xfd987193), (14, 17, 0xa679438e), (15, 22, 0x49b40821))]"

definition md5_round2 :: "(md5_step \<times> md5_step \<times> md5_step \<times> md5_step) list" where
  "md5_round2 =
     [((1, 5, 0xf61e2562), (6, 9, 0xc040b340), (11, 14, 0x265e5a51), (0, 20, 0xe9b6c7aa)),
      ((5, 5, 0xd62f105d), (10, 9, 0x02441453), (15, 14, 0xd8a1e681), (4, 20, 0xe7d3fbc8)),
      ((9, 5, 0x21e1cde6), (14, 9, 0xc33707d6), (3, 14, 0xf4d50d87), (8, 20, 0x455a14ed)),
      ((13, 5, 0xa9e3e905), (2, 9, 0xfcefa3f8), (7, 14, 0x676f02d9), (12, 20, 0x8d2a4c8a))]"

definition md5_round3 :: "(md5_step \<times> md5_step \<times> md5_step \<times> md5_step) list" where
  "md5_round3 =
     [((5, 4, 0xfffa3942), (8, 11, 0x8771f681), (11, 16, 0x6d9d6122), (14, 23, 0xfde5380c)),
      ((1, 4, 0xa4beea44), (4, 11, 0x4bdecfa9), (7, 16, 0xf6bb4b60), (10, 23, 0xbebfbc70)),
      ((13, 4, 0x289b7ec6), (0, 11, 0xeaa127fa), (3, 16, 0xd4ef3085), (6, 23, 0x04881d05)),
      ((9, 4, 0xd9d4d039), (12, 11, 0xe6db99e5), (15, 16, 0x1fa27cf8), (2, 23, 0xc4ac5665))]"

definition md5_round4 :: "(md5_step \<times> md5_step \<times> md5_step \<times> md5_step) list" where
  "md5_round4 =
     [((0, 6, 0xf4292244), (7, 10, 0x432aff97), (14, 15, 0xab9423a7), (5, 21, 0xfc93a039)),
      ((12, 6, 0x655b59c3), (3, 10, 0x8f0ccc92), (10, 15, 0xffeff47d), (1, 21, 0x85845dd1)),
      ((8, 6, 0x6fa87e4f), (15, 10, 0xfe2ce6e0), (6, 15, 0xa3014314), (13, 21, 0x4e0811a1)),
      ((4, 6, 0xf7537e82), (11, 10, 0xbd3af235), (2, 15, 0x2ad7d2bb), (9, 21, 0xeb86d391))]"

definition md5_words :: "bytes \<Rightarrow> u32 list" where
  "md5_words block = map (\<lambda>i. read_u32 block (i * 4)) [0..<16]"

definition md5_transform :: "md5_state \<Rightarrow> bytes \<Rightarrow> md5_state" where
  "md5_transform st block =
     (let x = md5_words block;
          r1 = foldl (md5_row md5_F x) st md5_round1; r2 = foldl (md5_row md5_G x) r1 md5_round2;
          r3 = foldl (md5_row md5_H x) r2 md5_round3; r4 = foldl (md5_row md5_I x) r3 md5_round4
      in case (st, r4) of ((s0, s1, s2, s3), (a, b, c, d)) \<Rightarrow> (s0 + a, s1 + b, s2 + c, s3 + d))"

section \<open>The context\<close>

record Md5Context =
  m5_state :: md5_state
  m5_count :: u64
  m5_buffer :: bytes

definition md5_iv :: md5_state where
  "md5_iv = (0x67452301, 0xefcdab89, 0x98badcfe, 0x10325476)"

definition md5_reset :: Md5Context where
  "md5_reset = \<lparr>m5_state = md5_iv, m5_count = 0, m5_buffer = replicate 64 0\<rparr>"

text \<open>The loop over the whole blocks of the input; it returns the state and the position behind the last one.\<close>

function md5_blocks :: "md5_state \<Rightarrow> bytes \<Rightarrow> nat \<Rightarrow> md5_state \<times> nat" where
  "md5_blocks st input i = (if i + 63 < length input then md5_blocks (md5_transform st (sub_bytes input i 64)) input (i + 64) else (st, i))"
  by pat_completeness auto
termination
  by (relation "measure (\<lambda>(st, input, i). length input - i)") auto

declare md5_blocks.simps [simp del]

definition md5_index :: "Md5Context \<Rightarrow> nat" where
  "md5_index ctx = unat (drop_bit 3 (m5_count ctx) AND 0x3F)"

definition md5_update :: "Md5Context \<Rightarrow> bytes \<Rightarrow> Md5Context" where
  "md5_update ctx input =
     (let index = md5_index ctx; cnt = m5_count ctx + push_bit 3 (of_nat (length input)); part_len = 64 - index in
      if part_len \<le> length input then
        let buf = store_bytes (m5_buffer ctx) index (take part_len input);
            (st, i) = md5_blocks (md5_transform (m5_state ctx) buf) input part_len
        in \<lparr>m5_state = st, m5_count = cnt, m5_buffer = (if i < length input then store_bytes buf 0 (drop i input) else buf)\<rparr>
      else \<lparr>m5_state = m5_state ctx, m5_count = cnt,
        m5_buffer = (if 0 < length input then store_bytes (m5_buffer ctx) index input else m5_buffer ctx)\<rparr>)"

definition le64 :: "u64 \<Rightarrow> bytes" where
  "le64 n = map (\<lambda>i. ucast (drop_bit (i * 8) n AND 0xFF)) [0..<8]"

definition md5_padding :: "nat \<Rightarrow> bytes" where
  "md5_padding pad_len = take pad_len (0x80 # replicate 63 0)"

definition md5_out :: "md5_state \<Rightarrow> bytes" where
  "md5_out st = (case st of (a, b, c, d) \<Rightarrow>
     concat (map (\<lambda>w. [ucast (w AND 0xFF), ucast (drop_bit 8 w AND 0xFF), ucast (drop_bit 16 w AND 0xFF), ucast (drop_bit 24 w AND 0xFF)]) [a, b, c, d]))"

definition md5_finalize :: "Md5Context \<Rightarrow> bytes" where
  "md5_finalize ctx =
     (let bits = le64 (m5_count ctx); index = md5_index ctx; pad_len = (if index < 56 then 56 - index else 120 - index)
      in md5_out (m5_state (md5_update (md5_update ctx (md5_padding pad_len)) bits)))"

definition md5_to_hex :: "bytes \<Rightarrow> string" where
  "md5_to_hex digest = concat (map (\<lambda>b. [hex_digit (unat (drop_bit 4 b AND 0x0F)), hex_digit (unat (b AND 0x0F))]) digest)"

definition calculate_md5 :: "bytes \<Rightarrow> string" where
  "calculate_md5 data = md5_to_hex (md5_finalize (if data \<noteq> [] then md5_update md5_reset data else md5_reset))"

section \<open>The loop form of RFC 1321\<close>

text \<open>
  Step \<open>i\<close> of the 64 steps: the function, the message word and the rotation are given by the round \<open>i div 16\<close>, and the
  registers rotate.
\<close>

definition rfc_fun :: "nat \<Rightarrow> u32 \<Rightarrow> u32 \<Rightarrow> u32 \<Rightarrow> u32" where
  "rfc_fun i = [md5_F, md5_G, md5_H, md5_I] ! (i div 16)"

definition rfc_word :: "nat \<Rightarrow> nat" where
  "rfc_word i = [i, 5 * i + 1, 3 * i + 5, 7 * i] ! (i div 16) mod 16"

definition rfc_shift :: "nat \<Rightarrow> nat" where
  "rfc_shift i = [[7, 12, 17, 22], [5, 9, 14, 20], [4, 11, 16, 23], [6, 10, 15, 21]] ! (i div 16) ! (i mod 4)"

definition rfc_T :: "u32 list" where
  "rfc_T = [0xd76aa478, 0xe8c7b756, 0x242070db, 0xc1bdceee, 0xf57c0faf, 0x4787c62a, 0xa8304613, 0xfd469501,
      0x698098d8, 0x8b44f7af, 0xffff5bb1, 0x895cd7be, 0x6b901122, 0xfd987193, 0xa679438e, 0x49b40821,
      0xf61e2562, 0xc040b340, 0x265e5a51, 0xe9b6c7aa, 0xd62f105d, 0x02441453, 0xd8a1e681, 0xe7d3fbc8,
      0x21e1cde6, 0xc33707d6, 0xf4d50d87, 0x455a14ed, 0xa9e3e905, 0xfcefa3f8, 0x676f02d9, 0x8d2a4c8a,
      0xfffa3942, 0x8771f681, 0x6d9d6122, 0xfde5380c, 0xa4beea44, 0x4bdecfa9, 0xf6bb4b60, 0xbebfbc70,
      0x289b7ec6, 0xeaa127fa, 0xd4ef3085, 0x04881d05, 0xd9d4d039, 0xe6db99e5, 0x1fa27cf8, 0xc4ac5665,
      0xf4292244, 0x432aff97, 0xab9423a7, 0xfc93a039, 0x655b59c3, 0x8f0ccc92, 0xffeff47d, 0x85845dd1,
      0x6fa87e4f, 0xfe2ce6e0, 0xa3014314, 0x4e0811a1, 0xf7537e82, 0xbd3af235, 0x2ad7d2bb, 0xeb86d391]"

fun rfc_step :: "u32 list \<Rightarrow> md5_state \<Rightarrow> nat \<Rightarrow> md5_state" where
  "rfc_step x (a, b, c, d) i = (d, b + rotl32 (a + rfc_fun i b c d + x ! rfc_word i + rfc_T ! i) (rfc_shift i), b, c)"

definition rfc_compress :: "md5_state \<Rightarrow> bytes \<Rightarrow> md5_state" where
  "rfc_compress st block = (case (st, foldl (rfc_step (md5_words block)) st [0..<64]) of
     ((s0, s1, s2, s3), (a, b, c, d)) \<Rightarrow> (s0 + a, s1 + b, s2 + c, s3 + d))"

section \<open>The unrolled rounds are the loop\<close>

definition rfc_quad :: "nat \<Rightarrow> md5_step \<times> md5_step \<times> md5_step \<times> md5_step" where
  "rfc_quad j = (let p = (\<lambda>i. (rfc_word i, rfc_shift i, rfc_T ! i)) in (p (4 * j), p (4 * j + 1), p (4 * j + 2), p (4 * j + 3)))"

lemma rfc_row: "foldl (rfc_step x) st [4 * j, 4 * j + 1, 4 * j + 2, 4 * j + 3] = md5_row (rfc_fun (4 * j)) x st (rfc_quad j)"
proof -
  have "(4 * j + k) div 16 = j div 4" if "k < 4" for k using that by (simp add: div_mult2_eq [of _ 4 4, simplified])
  then have "rfc_fun (4 * j + k) = rfc_fun (4 * j)" if "k < 4" for k using that by (simp add: rfc_fun_def div_mult2_eq [of _ 4 4, simplified])
  from this [of 1] this [of 2] this [of 3] show ?thesis
    by (cases st) (simp add: md5_row_def rfc_quad_def md5_op_def Let_def)
qed

lemma rfc_rows: "foldl (rfc_step x) st [0..<4 * n] = foldl (\<lambda>st j. md5_row (rfc_fun (4 * j)) x st (rfc_quad j)) st [0..<n]"
proof (induction n)
  case (Suc n)
  have "[0..<4 * Suc n] = [0..<4 * n] @ [4 * n, 4 * n + 1, 4 * n + 2, 4 * n + 3]" by (simp add: numeral_eq_Suc)
  then show ?case using Suc rfc_row [of x _ n] by (simp only: foldl_append upt_Suc_append [OF le0] foldl_Cons foldl_Nil)
qed simp

lemma md5_rounds:
  "md5_round1 = map rfc_quad [0..<4]" "md5_round2 = map rfc_quad [4..<8]" "md5_round3 = map rfc_quad [8..<12]" "md5_round4 = map rfc_quad [12..<16]"
  by code_simp+

lemma md5_transform_rfc: "md5_transform = rfc_compress"
proof (intro ext)
  fix st block
  have f: "foldl (\<lambda>st j. md5_row (rfc_fun (4 * j)) x st (rfc_quad j)) st [m..<n] = foldl (md5_row f x) st (map rfc_quad [m..<n])"
    if "\<And>j. m \<le> j \<Longrightarrow> j < n \<Longrightarrow> rfc_fun (4 * j) = f" for m n f x st
    unfolding foldl_map by (rule foldl_cong) (use that in auto)
  have "[0..<16] = [0..<4] @ [4..<8] @ [8..<12] @ [12..<16 :: nat]" by (simp add: upt_rec)
  moreover have "rfc_fun (4 * j) = md5_F" if "0 \<le> j" "j < 4" for j using that by (simp add: rfc_fun_def)
  moreover have "rfc_fun (4 * j) = md5_G" if "4 \<le> j" "j < 8" for j
  proof -
    have "4 * j div 16 = 1" using that by simp
    then show ?thesis by (simp add: rfc_fun_def)
  qed
  moreover have "rfc_fun (4 * j) = md5_H" if "8 \<le> j" "j < 12" for j
  proof -
    have "4 * j div 16 = 2" using that by simp
    then show ?thesis by (simp add: rfc_fun_def)
  qed
  moreover have "rfc_fun (4 * j) = md5_I" if "12 \<le> j" "j < 16" for j
  proof -
    have "4 * j div 16 = 3" using that by simp
    then show ?thesis by (simp add: rfc_fun_def)
  qed
  ultimately have "foldl (rfc_step x) st [0..<4 * 16] = foldl (md5_row md5_I x) (foldl (md5_row md5_H x) (foldl (md5_row md5_G x)
      (foldl (md5_row md5_F x) st md5_round1) md5_round2) md5_round3) md5_round4" for x
    unfolding rfc_rows md5_rounds by (simp only: foldl_append f)
  then show "md5_transform st block = rfc_compress st block" by (simp add: md5_transform_def rfc_compress_def Let_def)
qed

section \<open>The buffered context computes the one-shot construction\<close>

definition m5_absorbed :: "bytes \<Rightarrow> Md5Context \<Rightarrow> bool" where
  "m5_absorbed data ctx \<longleftrightarrow> (\<exists>d r. data = d @ r \<and> length d mod 64 = 0 \<and> length r < 64 \<and>
     m5_state ctx = foldl md5_transform md5_iv (chunks 64 d) \<and> length (m5_buffer ctx) = 64 \<and> take (length r) (m5_buffer ctx) = r \<and>
     m5_count ctx = of_nat (8 * length data))"

lemma md5_index_eq:
  assumes "m5_count ctx = of_nat (8 * n)"
  shows "md5_index ctx = n mod 64"
proof -
  have "unat (of_nat (8 * n) :: u64) = 8 * (n mod 2 ^ 61)"
    using mult_mod_right [of 8 n "2 ^ 61"] unfolding unat_of_nat by simp
  then have "unat (drop_bit 3 (m5_count ctx)) = n mod 2 ^ 61" using assms by (simp add: unat_drop_bit_nat)
  moreover have m: "(0x3F :: u64) = mask 6" by (simp add: mask_eq_exp_minus_1)
  ultimately show ?thesis unfolding md5_index_def m unat_and_mask_nat by (simp add: mod_mod_cancel)
qed

lemma md5_blocks_eq:
  "i \<le> length input \<Longrightarrow> md5_blocks st input i =
    (foldl md5_transform st (chunks 64 (drop i input)), length input - (length input - i) mod 64)"
proof (induction st input i rule: md5_blocks.induct)
  case (1 st input i)
  show ?case
  proof (cases "i + 63 < length input")
    case True
    have "chunks 64 (drop i input) = sub_bytes input i 64 # chunks 64 (drop (i + 64) input)"
      using True by (subst chunks.simps) (simp add: sub_bytes_def add.commute)
    moreover have "(length input - i) mod 64 = (length input - (i + 64)) mod 64"
      using True le_mod_geq [of 64 "length input - i"] by simp
    ultimately show ?thesis using 1 True by (subst md5_blocks.simps) simp
  next
    case False
    then show ?thesis using "1.prems" by (subst md5_blocks.simps) (simp add: chunks_short)
  qed
qed

lemma m5_absorbed_reset: "m5_absorbed [] md5_reset"
  by (simp add: m5_absorbed_def md5_reset_def chunks_short)

lemma chunks_whole: "length xs mod 64 = 0 \<Longrightarrow> length ys < 64 \<Longrightarrow> chunks 64 (xs @ ys) = chunks 64 xs"
  by (simp add: chunks_append chunks_short)

lemma m5_absorbed_update:
  assumes "m5_absorbed data ctx"
  shows "m5_absorbed (data @ input) (md5_update ctx input)"
proof -
  obtain d r where a: "data = d @ r" "length d mod 64 = 0" "length r < 64" "m5_state ctx = foldl md5_transform md5_iv (chunks 64 d)"
    "length (m5_buffer ctx) = 64" "take (length r) (m5_buffer ctx) = r" "m5_count ctx = of_nat (8 * length data)"
    using assms by (auto simp: m5_absorbed_def)
  have idx: "md5_index ctx = length r" using md5_index_eq [OF a(7)] a(1,2,3) by (simp add: mod_add_eq [symmetric])
  have cnt: "m5_count ctx + push_bit 3 (of_nat (length input)) = of_nat (8 * length (data @ input))"
    using a(7) by (simp add: push_bit_eq_mult algebra_simps)
  show ?thesis
  proof (cases "64 - length r \<le> length input")
    case False
    then have "length r + length input < 64" by simp
    moreover have "take (length r + length input) (store_bytes (m5_buffer ctx) (length r) input) = r @ input"
      using a(5,6) \<open>length r + length input < 64\<close> by (simp add: store_bytes_eq)
    ultimately show ?thesis using a False cnt idx unfolding m5_absorbed_def
      by (intro exI [of _ d] exI [of _ "r @ input"]) (auto simp: md5_update_def Let_def)
  next
    case True
    let ?p = "64 - length r"
    let ?buf = "store_bytes (m5_buffer ctx) (length r) (take ?p input)"
    let ?rest = "drop ?p input"
    define n where "n = length ?rest - length ?rest mod 64"
    define w where "w = take n ?rest"
    define z where "z = drop n ?rest"
    have rest: "?rest = w @ z" by (simp only: w_def z_def append_take_drop_id)
    have lw: "length w mod 64 = 0" unfolding w_def n_def by (simp add: minus_mod_eq_mult_div)
    have lz: "length z < 64" unfolding z_def n_def by simp
    have i: "length input - (length input - ?p) mod 64 = ?p + n"
      unfolding n_def using True mod_less_eq_dividend [of "length ?rest" 64] by simp
    have dz: "drop (?p + n) input = z" by (simp add: z_def add.commute)
    have buf: "?buf = r @ take ?p input" using a(3,5,6) True by (simp add: store_bytes_eq)
    have lb: "length (r @ take ?p input) = 64" using a(3) True by simp
    have ch: "chunks 64 (d @ (r @ take ?p input) @ w) = chunks 64 d @ [r @ take ?p input] @ chunks 64 w"
      using chunks_append [OF _ a(2), of "(r @ take ?p input) @ w"] chunks_Cons [OF _ lb, of w] by simp
    let ?nb = "if ?p + n < length input then store_bytes (r @ take ?p input) 0 z else r @ take ?p input"
    have up: "md5_update ctx input = \<lparr>m5_state = foldl md5_transform (md5_transform (m5_state ctx) (r @ take ?p input)) (chunks 64 w),
        m5_count = of_nat (8 * length (data @ input)), m5_buffer = ?nb\<rparr>"
      unfolding md5_update_def idx Let_def cnt buf md5_blocks_eq [OF True] i rest chunks_whole [OF lw lz] using True by (simp add: dz)
    have nb: "take (length z) ?nb = z" "length ?nb = 64"
    proof -
      show "take (length z) ?nb = z"
      proof (cases "?p + n < length input")
        case True
        then show ?thesis using lz lb by (simp add: store_bytes_eq)
      next
        case False
        then have "z = []" using dz by simp
        then show ?thesis by simp
      qed
      show "length ?nb = 64" using lb by simp
    qed
    have dat: "data @ input = (d @ (r @ take ?p input) @ w) @ z" using a(1) rest by (metis append.assoc append_take_drop_id)
    have "length (d @ (r @ take ?p input) @ w) mod 64 = 0" using a(2) lb lw by (simp add: mod_eq_0_iff_dvd)
    then show ?thesis unfolding m5_absorbed_def up using dat lz nb ch a(4)
      by (intro exI [of _ "d @ (r @ take ?p input) @ w"] exI [of _ z]) simp
  qed
qed

lemma md5_finalize_absorbed:
  assumes "m5_absorbed data ctx"
  shows "md5_finalize ctx = md5_out (md_digest 64 56 md5_transform le64 md5_iv data)"
proof -
  have c: "m5_count ctx = of_nat (8 * length data)" using assms by (auto simp: m5_absorbed_def)
  let ?m = "length data mod 64"
  let ?pl = "if ?m < 56 then 56 - ?m else 120 - ?m"
  have m: "?m < 64" by simp
  have pad: "md5_padding ?pl = 0x80 # replicate (md_zeros 64 56 (length data)) 0"
    using m by (auto simp: md5_padding_def md_zeros_def Let_def take_Cons' Suc_diff_le)
  let ?msg = "data @ md5_padding ?pl @ le64 (m5_count ctx)"
  have msg: "?msg = md_pad 64 56 le64 data" unfolding md_pad_def pad c by simp
  have "m5_absorbed ?msg (md5_update (md5_update ctx (md5_padding ?pl)) (le64 (m5_count ctx)))"
    using m5_absorbed_update [OF m5_absorbed_update [OF assms]] by simp
  then obtain d r where d: "?msg = d @ r" "length d mod 64 = 0" "length r < 64"
    "m5_state (md5_update (md5_update ctx (md5_padding ?pl)) (le64 (m5_count ctx))) = foldl md5_transform md5_iv (chunks 64 d)"
    by (auto simp: m5_absorbed_def)
  have "length (md5_padding ?pl) = ?pl" using m by (auto simp: md5_padding_def)
  moreover have "length (le64 (m5_count ctx)) = 8" by (simp add: le64_def)
  ultimately have "length ?msg = length data + ?pl + 8" by simp
  moreover obtain q where "length data = 64 * q + ?m" by (metis mult_div_mod_eq)
  ultimately have "length ?msg = 64 * (q + (if ?m < 56 then 1 else 2))" using m by auto
  then have "64 dvd length ?msg" by simp
  then have "64 dvd length d + length r" using d(1) by (simp only: length_append)
  then have "64 dvd length r" using d(2) by (simp add: mod_eq_0_iff_dvd dvd_add_right_iff)
  then have "length r = 0" using d(3) by (meson nat_dvd_not_less neq0_conv)
  then have "r = []" by simp
  then have "chunks 64 d = chunks 64 (md_pad 64 56 le64 data)" using d(1) msg by simp
  then show ?thesis using d(4) by (simp add: md5_finalize_def md5_index_eq [OF c] md_digest_def Let_def)
qed

section \<open>Properties\<close>

text \<open>
  C26. The MD5 of the PE analyser is that of RFC 1321: the buffered context with its unrolled rounds, fed the data in any
  pieces, yields the loop form of the compression function folded over the 64-byte blocks of the data padded with 0x80,
  zeros and the little-endian bit length, and the digest is printed as 32 hexadecimal digits.
\<close>

theorem md5_is_rfc1321:
  "md5_finalize (foldl md5_update md5_reset pieces) = md5_out (md_digest 64 56 rfc_compress le64 md5_iv (concat pieces)) \<and>
   calculate_md5 data = md5_to_hex (md5_out (md_digest 64 56 rfc_compress le64 md5_iv data)) \<and> length (calculate_md5 data) = 32"
proof -
  have f: "m5_absorbed (pre @ concat ps) (foldl md5_update ctx ps)" if "m5_absorbed pre ctx" for pre ctx ps
    using that
  proof (induction ps arbitrary: pre ctx)
    case (Cons p ps)
    from Cons.IH [OF m5_absorbed_update [OF Cons.prems, of p]] show ?case by simp
  qed simp
  have c: "calculate_md5 data = md5_to_hex (md5_out (md_digest 64 56 rfc_compress le64 md5_iv data))"
    using md5_finalize_absorbed [OF f [OF m5_absorbed_reset, of "if data = [] then [] else [data]"]]
    by (simp add: calculate_md5_def md5_transform_rfc split: if_splits)
  have "length (md5_to_hex bs) = 2 * length bs" for bs by (induction bs) (simp_all add: md5_to_hex_def)
  moreover have "length (md5_out st) = 16" for st by (simp add: md5_out_def split: prod.split)
  ultimately have "length (calculate_md5 data) = 32" using c by simp
  with c md5_finalize_absorbed [OF f [OF m5_absorbed_reset, of pieces]] show ?thesis by (simp add: md5_transform_rfc)
qed

end
