(* ===== verification/Pe_Static.thy ===== *)
theory Pe_Static
  imports Md5 Engine_Base "HOL-Library.Monad_Syntax"
begin

text \<open>
  \<^verbatim>\<open>engines/pe_static_analysis_engine.{hpp,cpp}\<close>: the static analysis of PE images (headers, sections, packer names, entropy,
  imports and import hash, thread-local callbacks) and the risk score. Every access to the image is a checked read whose
  value is \<open>None\<close> outside the buffer, so that the totality of \<open>analyze_buffer\<close> states that no input makes the analysis read
  out of bounds. Sums of 32-bit fields wrap as in the code. \<open>lg\<close> stands for \<^verbatim>\<open>std::log2\<close>.
\<close>

section \<open>Reports\<close>

record PeSectionInfo =
  se_name :: string
  se_virtual_address :: u32
  se_virtual_size :: u32
  se_raw_data_offset :: u32
  se_raw_data_size :: u32
  se_characteristics :: u32
  se_entropy :: double
  se_is_executable :: bool
  se_is_writable :: bool
  se_is_wx :: bool

record PeAnalysisReport =
  pr_is_valid_pe :: bool
  pr_is_64bit :: bool
  pr_entry_point :: u32
  pr_entry_point_section :: string
  pr_entry_point_anomaly :: bool
  pr_overall_entropy :: double
  pr_is_packed :: bool
  pr_detected_packer :: string
  pr_sections :: "PeSectionInfo list"
  pr_imported_dlls :: "string list"
  pr_imported_functions :: "string list"
  pr_dangerous_apis :: "string list"
  pr_dangerous_api_score :: u32
  pr_imphash :: string
  pr_has_tls_callbacks :: bool
  pr_tls_callback_count :: u32
  pr_assessed_level :: ThreatLevel
  pr_threat_reasons :: "string list"

definition PeAnalysisReport_default :: PeAnalysisReport where
  "PeAnalysisReport_default = \<lparr>pr_is_valid_pe = False, pr_is_64bit = False, pr_entry_point = 0, pr_entry_point_section = [],
     pr_entry_point_anomaly = False, pr_overall_entropy = Fin 0, pr_is_packed = False, pr_detected_packer = [], pr_sections = [],
     pr_imported_dlls = [], pr_imported_functions = [], pr_dangerous_apis = [], pr_dangerous_api_score = 0, pr_imphash = [],
     pr_has_tls_callbacks = False, pr_tls_callback_count = 0, pr_assessed_level = SAFE, pr_threat_reasons = []\<rparr>"

section \<open>Reading the image\<close>

definition char_of_byte :: "u8 \<Rightarrow> char" where
  "char_of_byte b = char_of (unat b)"

definition get_u16 :: "bytes \<Rightarrow> nat \<Rightarrow> u16 option" where
  "get_u16 data off = (if off + 2 \<le> length data then Some (read_u16 data off) else None)"

definition get_u32 :: "bytes \<Rightarrow> nat \<Rightarrow> u32 option" where
  "get_u32 data off = (if off + 4 \<le> length data then Some (read_u32 data off) else None)"

definition get_u64 :: "bytes \<Rightarrow> nat \<Rightarrow> u64 option" where
  "get_u64 data off = do { lo \<leftarrow> get_u32 data off; hi \<leftarrow> get_u32 data (off + 4); Some (ucast lo OR push_bit 32 (ucast hi)) }"

definition get_bytes :: "bytes \<Rightarrow> nat \<Rightarrow> nat \<Rightarrow> bytes option" where
  "get_bytes data off n = (if off + n \<le> length data then Some (sub_bytes data off n) else None)"

text \<open>A chain of byte comparisons that stops at the first difference.\<close>

fun bytes_agree :: "bytes \<Rightarrow> (nat \<times> u8) list \<Rightarrow> bool option" where
  "bytes_agree data [] = Some True"
| "bytes_agree data ((off, b) # ps) =
     (if off < length data then if data ! off = b then bytes_agree data ps else Some False else None)"

definition to_lower_ascii :: "string \<Rightarrow> string" where
  "to_lower_ascii s = map tolower_c s"

definition strip_dll_ext :: "string \<Rightarrow> string" where
  "strip_dll_ext dll_name = (let s = to_lower_ascii dll_name in
     if 4 < length s \<and> drop (length s - 4) s = ''.dll'' then take (length s - 4) s else s)"

definition in_section :: "u32 \<Rightarrow> PeSectionInfo \<Rightarrow> bool" where
  "in_section rva sec \<longleftrightarrow> se_virtual_address sec \<le> rva \<and>
     rva < se_virtual_address sec + max (se_virtual_size sec) (se_raw_data_size sec)"

fun rva_to_offset :: "u32 \<Rightarrow> PeSectionInfo list \<Rightarrow> nat option" where
  "rva_to_offset rva [] = None"
| "rva_to_offset rva (sec # secs) =
     (if in_section rva sec \<and> rva - se_virtual_address sec < se_raw_data_size sec
      then Some (unat (se_raw_data_offset sec + (rva - se_virtual_address sec)))
      else rva_to_offset rva secs)"

text \<open>The loop tests the bounds before each access, stops at a byte that is not printable, and reads at most 256 bytes.\<close>

definition read_ascii_string :: "bytes \<Rightarrow> nat \<Rightarrow> string" where
  "read_ascii_string data off = map char_of_byte (takeWhile (\<lambda>b. 32 \<le> b \<and> b \<le> 126) (take 256 (drop off data)))"

section \<open>Entropy\<close>

fun dneg :: "double \<Rightarrow> double" where
  "dneg (Fin x) = Fin (- x)"
| "dneg PInf = NInf"
| "dneg NInf = PInf"
| "dneg NaN = NaN"

definition entropy_term :: "(double \<Rightarrow> double) \<Rightarrow> nat \<Rightarrow> double \<Rightarrow> nat \<Rightarrow> double" where
  "entropy_term lg tot e cnt =
     (if 0 < cnt then let p = fl (of_nat cnt / of_nat tot) in dadd e (dneg (dmul p (lg p))) else e)"

definition calculate_entropy :: "(double \<Rightarrow> double) \<Rightarrow> bytes \<Rightarrow> double" where
  "calculate_entropy lg data =
     (if data = [] then Fin 0
      else foldl (entropy_term lg (length data)) (Fin 0) (map (\<lambda>v. length (filter (\<lambda>b. unat b = v) data)) [0..<256]))"

section \<open>Sections\<close>

definition parse_section :: "(double \<Rightarrow> double) \<Rightarrow> bytes \<Rightarrow> nat \<Rightarrow> PeSectionInfo option" where
  "parse_section lg data sec_offset = do {
     name_buf \<leftarrow> get_bytes data sec_offset 8;
     virtual_size \<leftarrow> get_u32 data (sec_offset + 8);
     virtual_address \<leftarrow> get_u32 data (sec_offset + 12);
     raw_data_size \<leftarrow> get_u32 data (sec_offset + 16);
     raw_data_offset \<leftarrow> get_u32 data (sec_offset + 20);
     characteristics \<leftarrow> get_u32 data (sec_offset + 36);
     entropy \<leftarrow> (if 0 < raw_data_size \<and> fits (length data) (unat raw_data_offset) (unat raw_data_size)
                then map_option (calculate_entropy lg) (get_bytes data (unat raw_data_offset) (unat raw_data_size))
                else Some (Fin 0));
     let ex = (characteristics AND 0x20000000 \<noteq> 0);
     let wr = (characteristics AND 0x80000000 \<noteq> 0);
     Some \<lparr>se_name = map char_of_byte (takeWhile (\<lambda>b. b \<noteq> 0) name_buf), se_virtual_address = virtual_address, se_virtual_size = virtual_size,
       se_raw_data_offset = raw_data_offset, se_raw_data_size = raw_data_size, se_characteristics = characteristics,
       se_entropy = entropy, se_is_executable = ex, se_is_writable = wr, se_is_wx = (ex \<and> wr)\<rparr> }"

definition packer_of :: "string \<Rightarrow> string option" where
  "packer_of lower_sec =
     (if contains_text ''upx'' lower_sec then Some ''UPX''
      else if contains_text ''aspack'' lower_sec \<or> contains_text ''.adata'' lower_sec then Some ''ASPack''
      else if contains_text ''themida'' lower_sec then Some ''Themida''
      else if contains_text ''vmp'' lower_sec then Some ''VMProtect''
      else if contains_text ''mpress'' lower_sec then Some ''Mpress''
      else if contains_text ''enigma'' lower_sec then Some ''Enigma''
      else None)"

text \<open>What one section adds to the report; the flag records that the entry point was found.\<close>

definition add_section :: "nat \<Rightarrow> nat \<Rightarrow> PeSectionInfo \<Rightarrow> PeAnalysisReport \<times> bool \<Rightarrow> PeAnalysisReport \<times> bool" where
  "add_section num_sections i sec st = (case st of (r, ep_found) \<Rightarrow>
     let hit = in_section (pr_entry_point r) sec;
         r1 = (if hit then r\<lparr>pr_entry_point_section := se_name sec,
                 pr_entry_point_anomaly := (pr_entry_point_anomaly r \<or> i + 1 = num_sections \<and> 1 < num_sections)\<rparr> else r);
         r2 = (case packer_of (to_lower_ascii (se_name sec)) of None \<Rightarrow> r1 | Some p \<Rightarrow> r1\<lparr>pr_is_packed := True, pr_detected_packer := p\<rparr>)
     in (r2\<lparr>pr_sections := pr_sections r2 @ [sec]\<rparr>, ep_found \<or> hit))"

text \<open>The section loop, by the number of headers left.\<close>

fun section_loop :: "(double \<Rightarrow> double) \<Rightarrow> bytes \<Rightarrow> nat \<Rightarrow> nat \<Rightarrow> nat \<Rightarrow> PeAnalysisReport \<times> bool \<Rightarrow> (PeAnalysisReport \<times> bool) option" where
  "section_loop lg data table num_sections 0 st = Some st"
| "section_loop lg data table num_sections (Suc k) st =
     (let i = num_sections - Suc k; sec_offset = table + i * 40 in
      if \<not> fits (length data) sec_offset 40 then Some st
      else do { sec \<leftarrow> parse_section lg data sec_offset;
                section_loop lg data table num_sections k (add_section num_sections i sec st) })"

definition generic_packer :: "PeAnalysisReport \<Rightarrow> PeAnalysisReport" where
  "generic_packer r =
     (if \<not> pr_is_packed r \<and> dle (fl (72/10)) (pr_overall_entropy r) \<and>
         list_ex (\<lambda>sec. se_is_executable sec \<and> dle (fl (71/10)) (se_entropy sec) \<or> se_is_wx sec) (pr_sections r)
      then r\<lparr>pr_is_packed := True, pr_detected_packer := ''Generic High-Entropy Packer''\<rparr> else r)"

section \<open>Imports\<close>

datatype thunk = EndOfThunks | Ordinal nat | ByName u32

definition read_thunk :: "bytes \<Rightarrow> bool \<Rightarrow> nat \<Rightarrow> thunk option" where
  "read_thunk data is64 pos =
     (if is64 then do {
        val \<leftarrow> get_u64 data pos;
        Some (if val = 0 then EndOfThunks
              else if val AND 0x8000000000000000 \<noteq> 0 then Ordinal (unat (val AND 0xFFFF))
              else ByName (ucast (val AND 0xFFFFFFFF))) }
      else do {
        val \<leftarrow> get_u32 data pos;
        Some (if val = 0 then EndOfThunks
              else if val AND 0x80000000 \<noteq> 0 then Ordinal (unat (val AND 0xFFFF))
              else ByName val) })"

definition import_name :: "bytes \<Rightarrow> PeSectionInfo list \<Rightarrow> thunk \<Rightarrow> string" where
  "import_name data secs t = (case t of
     EndOfThunks \<Rightarrow> []
   | Ordinal n \<Rightarrow> ''ord'' @ to_string n
   | ByName func_rva \<Rightarrow>
       if func_rva \<noteq> 0 then
         (case rva_to_offset func_rva secs of
            None \<Rightarrow> []
          | Some func_off \<Rightarrow> if fits (length data) (func_off + 2) 2 then read_ascii_string data (func_off + 2) else [])
       else [])"

definition thunk_step :: "bool \<Rightarrow> nat" where
  "thunk_step is64 = (if is64 then 8 else 4)"

text \<open>The names of the functions a thunk table lists.\<close>

function thunk_loop :: "bytes \<Rightarrow> PeSectionInfo list \<Rightarrow> bool \<Rightarrow> nat \<Rightarrow> string list option" where
  "thunk_loop data secs is64 pos =
     (if fits (length data) pos (thunk_step is64) then do {
        t \<leftarrow> read_thunk data is64 pos;
        if t = EndOfThunks then Some []
        else do {
          names \<leftarrow> thunk_loop data secs is64 (pos + thunk_step is64);
          Some (if import_name data secs t \<noteq> [] then import_name data secs t # names else names) } }
      else Some [])"
  by pat_completeness auto
termination
  by (relation "measure (\<lambda>(data, secs, is64, pos). length data - pos)") (auto simp: fits_def thunk_step_def split: if_splits)

declare thunk_loop.simps [simp del]

text \<open>The libraries, the functions and the items of the import hash, from the descriptor at an offset on.\<close>

definition import_items :: "string \<Rightarrow> string list \<Rightarrow> string list" where
  "import_items dll_name names = map (\<lambda>n. strip_dll_ext dll_name @ ''.'' @ to_lower_ascii n) names"

function desc_loop :: "bytes \<Rightarrow> PeSectionInfo list \<Rightarrow> bool \<Rightarrow> nat \<Rightarrow> (string list \<times> string list \<times> string list) option" where
  "desc_loop data secs is64 desc =
     (if fits (length data) desc 20 then do {
        original_first_thunk \<leftarrow> get_u32 data desc;
        name_rva \<leftarrow> get_u32 data (desc + 12);
        first_thunk \<leftarrow> get_u32 data (desc + 16);
        if name_rva = 0 \<and> first_thunk = 0 then Some ([], [], [])
        else do {
          let dll_name = (case rva_to_offset name_rva secs of None \<Rightarrow> [] | Some off \<Rightarrow> read_ascii_string data off);
          names \<leftarrow> (case rva_to_offset (if original_first_thunk \<noteq> 0 then original_first_thunk else first_thunk) secs of
                     None \<Rightarrow> Some []
                   | Some thunk_off \<Rightarrow> if dll_name \<noteq> [] then thunk_loop data secs is64 thunk_off else Some []);
          (dlls, funcs, items) \<leftarrow> desc_loop data secs is64 (desc + 20);
          Some (if dll_name \<noteq> [] then dll_name # dlls else dlls, names @ funcs, import_items dll_name names @ items) } }
      else Some ([], [], []))"
  by pat_completeness auto
termination
  by (relation "measure (\<lambda>(data, secs, is64, desc). length data - desc)") (auto simp: fits_def)

declare desc_loop.simps [simp del]

fun join_items :: "string list \<Rightarrow> string" where
  "join_items [] = []"
| "join_items [x] = x"
| "join_items (x # xs) = x @ '','' @ join_items xs"

definition dangerous_list :: "string list" where
  "dangerous_list = [''virtualalloc'', ''virtualallocex'', ''virtualprotect'', ''virtualprotectex'',
     ''writeprocessmemory'', ''createremotethread'', ''ntcreatethreadex'', ''queueuserapc'', ''setthreadcontext'', ''resumethread'',
     ''ntunmapviewofsection'', ''zwunmapviewofsection'', ''minidumpwritedump'', ''openprocesstoken'', ''adjusttokenprivileges'',
     ''isdebuggerpresent'', ''checkremotedebuggerpresent'', ''ntqueryinformationprocess'', ''loadlibrarya'', ''loadlibraryw'',
     ''getprocaddress'', ''ldrloaddll'']"

definition analyze_imports :: "bytes \<Rightarrow> u32 \<Rightarrow> u32 \<Rightarrow> PeAnalysisReport \<Rightarrow> PeAnalysisReport option" where
  "analyze_imports data import_rva import_size r = do {
     (dlls, funcs, items) \<leftarrow>
       (if import_rva \<noteq> 0 \<and> 0 < import_size then
          (case rva_to_offset import_rva (pr_sections r) of
             None \<Rightarrow> Some ([], [], [])
           | Some import_off \<Rightarrow> if fits (length data) import_off 20 then desc_loop data (pr_sections r) (pr_is_64bit r) import_off else Some ([], [], []))
        else Some ([], [], []));
     let dangerous = filter (\<lambda>f. to_lower_ascii f \<in> set dangerous_list) funcs;
     Some (r\<lparr>pr_imported_dlls := dlls, pr_imported_functions := funcs,
       pr_imphash := (if items \<noteq> [] then calculate_md5 (map byte_of (join_items items)) else []),
       pr_dangerous_apis := dangerous, pr_dangerous_api_score := of_nat (10 * length dangerous)\<rparr>) }"

definition analyze_tls :: "bytes \<Rightarrow> u32 \<Rightarrow> PeAnalysisReport \<Rightarrow> PeAnalysisReport" where
  "analyze_tls data tls_rva r =
     (if tls_rva \<noteq> 0 then
        (case rva_to_offset tls_rva (pr_sections r) of
           None \<Rightarrow> r
         | Some tls_off \<Rightarrow> if fits (length data) (tls_off + (if pr_is_64bit r then 24 else 12)) (thunk_step (pr_is_64bit r))
             then r\<lparr>pr_has_tls_callbacks := True, pr_tls_callback_count := 1\<rparr> else r)
      else r)"

section \<open>The risk score\<close>

text \<open>\<^verbatim>\<open>std::fixed << std::setprecision(2)\<close> of a value that is not negative: the exact value rounded to two decimals.\<close>

fun fixed2 :: "double \<Rightarrow> string" where
  "fixed2 (Fin x) = (let n = nat (round_even (100 * x)) in
     to_string (n div 100) @ ''.'' @ [digit_char (n div 10 mod 10), digit_char (n mod 10)])"
| "fixed2 PInf = ''inf''"
| "fixed2 NInf = ''-inf''"
| "fixed2 NaN = ''nan''"

definition quote :: string where
  "quote = [CHR 0x27]"

definition risk_parts :: "PeAnalysisReport \<Rightarrow> (string list \<times> u32) list" where
  "risk_parts r =
     map (\<lambda>sec. ([''Section '' @ quote @ se_name sec @ quote @ '' is both Writable and Executable (W^X violation)''], 40))
       (filter se_is_wx (pr_sections r)) @
     [(if pr_is_packed r then ([''Packer detected: '' @ pr_detected_packer r], 35) else ([], 0)),
      (if pr_entry_point_anomaly r
       then ([''Entry point anomaly: EP located in unusual section ('' @ quote @ pr_entry_point_section r @ quote @ '')''], 25) else ([], 0)),
      (if dle (fl (72/10)) (pr_overall_entropy r) then ([''High overall Shannon entropy: '' @ fixed2 (pr_overall_entropy r)], 20) else ([], 0)),
      (if 30 \<le> pr_dangerous_api_score r
       then ([''Dangerous injection/evasion API cluster detected ('' @ to_string (length (pr_dangerous_apis r)) @ '' APIs)''], 30)
       else if 10 \<le> pr_dangerous_api_score r then ([], 10) else ([], 0)),
      (if pr_has_tls_callbacks r \<and> (pr_is_packed r \<or> dle (fl (68/10)) (pr_overall_entropy r))
       then ([''TLS callbacks detected with high-entropy/packed payload''], 15) else ([], 0))]"

definition risk_score :: "PeAnalysisReport \<Rightarrow> u32" where
  "risk_score r = sum_list (map snd (risk_parts r))"

definition level_of_score :: "u32 \<Rightarrow> ThreatLevel" where
  "level_of_score risk =
     (if 60 \<le> risk then CRITICAL else if 35 \<le> risk then HIGH else if 15 \<le> risk then MEDIUM else if 0 < risk then LOW else SAFE)"

definition assess_threat :: "PeAnalysisReport \<Rightarrow> PeAnalysisReport" where
  "assess_threat r = r\<lparr>pr_threat_reasons := pr_threat_reasons r @ concat (map fst (risk_parts r)), pr_assessed_level := level_of_score (risk_score r)\<rparr>"

section \<open>The analysis\<close>

text \<open>Behind the entry point field: directories, sections, imports, callbacks and the score.\<close>

definition analyze_body :: "(double \<Rightarrow> double) \<Rightarrow> bytes \<Rightarrow> nat \<Rightarrow> nat \<Rightarrow> nat \<Rightarrow> PeAnalysisReport \<Rightarrow> PeAnalysisReport option" where
  "analyze_body lg data num_sections opt_header_size opt_header_offset r = do {
     let data_dir_offset = opt_header_offset + (if pr_is_64bit r then 112 else 96);
     import_rva \<leftarrow> (if fits (length data) (data_dir_offset + 8) 8 then get_u32 data (data_dir_offset + 8) else Some 0);
     import_size \<leftarrow> (if fits (length data) (data_dir_offset + 8) 8 then get_u32 data (data_dir_offset + 12) else Some 0);
     tls_rva \<leftarrow> (if fits (length data) (data_dir_offset + 72) 8 then get_u32 data (data_dir_offset + 72) else Some 0);
     (r1, ep_found) \<leftarrow> section_loop lg data (opt_header_offset + opt_header_size) num_sections num_sections (r, False);
     let r2 = (if \<not> ep_found \<and> pr_entry_point r1 \<noteq> 0 then r1\<lparr>pr_entry_point_anomaly := True\<rparr> else r1);
     r3 \<leftarrow> analyze_imports data import_rva import_size (generic_packer r2);
     Some (assess_threat (analyze_tls data tls_rva r3)) }"

definition analyze_buffer :: "(double \<Rightarrow> double) \<Rightarrow> bytes \<Rightarrow> PeAnalysisReport option" where
  "analyze_buffer lg data =
     (let r0 = PeAnalysisReport_default; sz = length data in
      if sz < 64 then Some r0
      else do {
        mz \<leftarrow> bytes_agree data [(0, 0x4D), (1, 0x5A)];
        if \<not> mz then Some r0
        else do {
          pe_offset \<leftarrow> get_u32 data 0x3C;
          if \<not> fits sz (unat pe_offset) 4 then Some r0
          else do {
            pe \<leftarrow> bytes_agree data [(unat pe_offset, 0x50), (unat (pe_offset + 1), 0x45), (unat (pe_offset + 2), 0), (unat (pe_offset + 3), 0)];
            if \<not> pe then Some r0
            else do {
              let r1 = r0\<lparr>pr_is_valid_pe := True, pr_overall_entropy := calculate_entropy lg data\<rparr>;
              let file_header_offset = unat (pe_offset + 4);
              if \<not> fits sz file_header_offset 20 then Some r1
              else do {
                num_sections \<leftarrow> get_u16 data (file_header_offset + 2);
                opt_header_size \<leftarrow> get_u16 data (file_header_offset + 16);
                let opt_header_offset = file_header_offset + 20;
                if \<not> fits sz opt_header_offset (unat opt_header_size) \<or> opt_header_size < 2 then Some r1
                else do {
                  magic \<leftarrow> get_u16 data opt_header_offset;
                  if magic \<noteq> 0x10B \<and> magic \<noteq> 0x20B then Some r1
                  else let r2 = r1\<lparr>pr_is_64bit := (magic = 0x20B)\<rparr> in
                    if \<not> fits sz (opt_header_offset + 16) 4 then Some r2
                    else do {
                      entry_point \<leftarrow> get_u32 data (opt_header_offset + 16);
                      analyze_body lg data (unat num_sections) (unat opt_header_size) opt_header_offset (r2\<lparr>pr_entry_point := entry_point\<rparr>) } } } } } } })"

section \<open>The engine\<close>

record PeStaticAnalysisEngine =
  pe_running :: bool
  pe_scans_performed :: u64
  pe_threats_detected :: u64

definition PeStaticAnalysisEngine_new :: PeStaticAnalysisEngine where
  "PeStaticAnalysisEngine_new = \<lparr>pe_running = False, pe_scans_performed = 0, pe_threats_detected = 0\<rparr>"

definition pe_start :: "PeStaticAnalysisEngine \<Rightarrow> ErrorCode \<times> PeStaticAnalysisEngine" where
  "pe_start s = (OK, s\<lparr>pe_running := True\<rparr>)"

definition pe_stop :: "PeStaticAnalysisEngine \<Rightarrow> ErrorCode \<times> PeStaticAnalysisEngine" where
  "pe_stop s = (OK, s\<lparr>pe_running := False\<rparr>)"

fun join_reasons :: "string list \<Rightarrow> string" where
  "join_reasons [] = []"
| "join_reasons [x] = x"
| "join_reasons (x # xs) = x @ ''; '' @ join_reasons xs"

definition pe_emit_threat :: "time_point \<Rightarrow> string \<Rightarrow> PeAnalysisReport \<Rightarrow> PeStaticAnalysisEngine \<Rightarrow> PeStaticAnalysisEngine \<times> emission list" where
  "pe_emit_threat now target r s =
     (let s1 = s\<lparr>pe_threats_detected := pe_threats_detected s + 1\<rparr> in
      (s1, [Threat (ThreatEvent_default\<lparr>ev_id := pe_threats_detected s1, ev_timestamp := now, ev_level := pr_assessed_level r,
         ev_category := (if pr_is_packed r then ENTROPY_ANOMALY else SUSPICIOUS_BINARY), ev_file_path := target,
         ev_description := ''PE Static Analysis Threat: '' @ join_reasons (pr_threat_reasons r)\<rparr>)]))"

text \<open>\<open>contents\<close> is \<open>None\<close> for a file that cannot be opened; the callback is installed.\<close>

definition pe_analyze_file :: "(double \<Rightarrow> double) \<Rightarrow> time_point \<Rightarrow> string \<Rightarrow> bytes option \<Rightarrow> PeStaticAnalysisEngine \<Rightarrow>
    (PeAnalysisReport \<times> PeStaticAnalysisEngine \<times> emission list) option" where
  "pe_analyze_file lg now path contents s = (case contents of
     None \<Rightarrow> Some (PeAnalysisReport_default, s, [])
   | Some buffer \<Rightarrow>
       if length buffer = 0 \<or> 100 * 1024 * 1024 < length buffer then Some (PeAnalysisReport_default, s, [])
       else do {
         report \<leftarrow> analyze_buffer lg buffer;
         let s1 = s\<lparr>pe_scans_performed := pe_scans_performed s + 1\<rparr>;
         Some (if HIGH \<le> pr_assessed_level report \<and> pe_running s1
               then (report, pe_emit_threat now path report s1) else (report, s1, [])) })"

section \<open>Every read is in bounds\<close>

lemma get_some [simp]:
  "off + 2 \<le> length data \<Longrightarrow> get_u16 data off = Some (read_u16 data off)"
  "off + 4 \<le> length data \<Longrightarrow> get_u32 data off = Some (read_u32 data off)"
  "off + n \<le> length data \<Longrightarrow> get_bytes data off n = Some (sub_bytes data off n)"
  by (simp_all add: get_u16_def get_u32_def get_bytes_def)

lemma bind_defined: "m \<noteq> None \<Longrightarrow> (\<And>x. m = Some x \<Longrightarrow> f x \<noteq> None) \<Longrightarrow> Option.bind m f \<noteq> None"
  by (cases m) auto

lemma if_defined: "(c \<Longrightarrow> x \<noteq> None) \<Longrightarrow> (\<not> c \<Longrightarrow> y \<noteq> None) \<Longrightarrow> (if c then x else y) \<noteq> None"
  by simp

lemma prod_defined: "(\<And>a b. p = (a, b) \<Longrightarrow> f a b \<noteq> None) \<Longrightarrow> (case p of (a, b) \<Rightarrow> f a b) \<noteq> None"
  by (cases p) simp

lemmas defined_intros = bind_defined if_defined prod_defined

lemma parse_section_defined: "sec_offset + 40 \<le> length data \<Longrightarrow> parse_section lg data sec_offset \<noteq> None"
  by (simp add: parse_section_def fits_iff Let_def)

lemma section_loop_defined: "section_loop lg data table n k st \<noteq> None"
proof (induction k arbitrary: st)
  case (Suc k)
  show ?case unfolding section_loop.simps Let_def
    by (intro if_defined bind_defined Suc.IH parse_section_defined) (auto simp: fits_iff)
qed simp

lemma read_thunk_defined: "fits (length data) pos (thunk_step is64) \<Longrightarrow> read_thunk data is64 pos \<noteq> None"
  by (simp add: fits_iff thunk_step_def read_thunk_def get_u64_def split: if_splits)

lemma thunk_loop_defined: "thunk_loop data secs is64 pos \<noteq> None"
proof (induction data secs is64 pos rule: thunk_loop.induct)
  case (1 data secs is64 pos)
  show ?case
    by (subst thunk_loop.simps) (intro if_defined bind_defined read_thunk_defined 1; simp)
qed

lemma desc_loop_defined: "desc_loop data secs is64 desc \<noteq> None"
proof (induction "length data - desc" arbitrary: desc rule: less_induct)
  case less
  show ?case
  proof (cases "fits (length data) desc 20")
    case True
    then have b: "desc + 20 \<le> length data" by (simp add: fits_iff)
    then have rest: "desc_loop data secs is64 (desc + 20) \<noteq> None" by (intro less) simp
    have names: "(case x of None \<Rightarrow> Some [] | Some off \<Rightarrow> if c then thunk_loop data secs is64 off else Some []) \<noteq> None" for x c
      using thunk_loop_defined by (cases x) auto
    show ?thesis
      by (subst desc_loop.simps, unfold Let_def, intro defined_intros rest names) (use b in simp_all)
  next
    case False
    then show ?thesis by (subst desc_loop.simps) simp
  qed
qed

lemma analyze_imports_defined: "analyze_imports data rva sz r \<noteq> None"
proof -
  have "(case x of None \<Rightarrow> Some ([], [], []) | Some off \<Rightarrow> if d off then desc_loop data secs is64 off else Some ([], [], [])) \<noteq> None" for x d secs is64
    using desc_loop_defined by (cases x) auto
  then show ?thesis unfolding analyze_imports_def by (intro bind_defined if_defined) (auto simp: Let_def)
qed

lemma analyze_body_defined: "analyze_body lg data n osz off r \<noteq> None"
  unfolding analyze_body_def Let_def
  by (intro defined_intros section_loop_defined analyze_imports_defined) (simp_all add: fits_iff)

lemma unat_add_le: "unat (a + b :: u32) \<le> unat a + unat b"
  by (simp add: unat_word_ariths)

lemma bytes_agree_defined: "\<forall>(off, b) \<in> set ps. off < length data \<Longrightarrow> bytes_agree data ps \<noteq> None"
  by (induction data ps rule: bytes_agree.induct) auto

lemma analyze_buffer_defined: "analyze_buffer lg data \<noteq> None"
proof -
  have k: "unat (p + k) < length data" if "fits (length data) (unat p) 4" "k \<le> 3" for p k :: u32
  proof -
    have "unat k \<le> 3" using that(2) by (simp add: word_le_nat_alt)
    then show ?thesis using unat_add_le [of p k] that(1) unfolding fits_iff by linarith
  qed
  have pe: "bytes_agree data [(unat p, 0x50), (unat (p + 1), 0x45), (unat (p + 2), 0), (unat (p + 3), 0)] \<noteq> None"
    if "fits (length data) (unat p) 4" for p :: u32
    using k [OF that, of 0] k [OF that, of 1] k [OF that, of 2] k [OF that, of 3] by (intro bytes_agree_defined) simp
  show ?thesis unfolding analyze_buffer_def Let_def
    by (intro if_defined bind_defined pe analyze_body_defined bytes_agree_defined) (auto simp: fits_iff word_le_nat_alt word_less_nat_alt)
qed

section \<open>The score does not wrap\<close>

lemma section_loop_sections:
  "section_loop lg data table n k st = Some st' \<Longrightarrow> length (pr_sections (fst st')) \<le> length (pr_sections (fst st)) + k"
proof (induction k arbitrary: st)
  case (Suc k)
  show ?case
  proof (cases "fits (length data) (table + (n - Suc k) * 40) 40")
    case True
    with Suc.prems obtain sec where "section_loop lg data table n k (add_section n (n - Suc k) sec st) = Some st'"
      by (auto simp: Let_def bind_eq_Some_conv)
    from Suc.IH [OF this] show ?thesis
      by (cases st) (simp add: add_section_def Let_def split: option.splits if_splits)
  qed (use Suc.prems in \<open>simp add: Let_def\<close>)
qed simp

definition nat_score :: "PeAnalysisReport \<Rightarrow> nat" where
  "nat_score r = 40 * length (filter se_is_wx (pr_sections r)) + (if pr_is_packed r then 35 else 0) +
     (if pr_entry_point_anomaly r then 25 else 0) + (if dle (fl (72/10)) (pr_overall_entropy r) then 20 else 0) +
     (if 30 \<le> pr_dangerous_api_score r then 30 else if 10 \<le> pr_dangerous_api_score r then 10 else 0) +
     (if pr_has_tls_callbacks r \<and> (pr_is_packed r \<or> dle (fl (68/10)) (pr_overall_entropy r)) then 15 else 0)"

lemma risk_score_nat: "risk_score r = of_nat (nat_score r)"
proof -
  have "sum_list (map snd (map (\<lambda>sec. (f sec, 40 :: u32)) secs)) = of_nat (40 * length secs)" for f :: "PeSectionInfo \<Rightarrow> string list" and secs
    by (induction secs) (simp_all add: algebra_simps)
  then show ?thesis by (simp add: risk_score_def risk_parts_def nat_score_def)
qed

lemma nat_score_bound: "length (pr_sections r) \<le> 65535 \<Longrightarrow> nat_score r < 2 ^ 32"
proof -
  assume l: "length (pr_sections r) \<le> 65535"
  have "nat_score r \<le> 40 * 65535 + 35 + 25 + 20 + 30 + 15" unfolding nat_score_def
    by (intro add_mono mult_le_mono order_trans [OF length_filter_le l]) simp_all
  then show "nat_score r < 2 ^ 32" by simp
qed

lemma level_of_nat:
  assumes "n < 2 ^ 32"
  shows "level_of_score (of_nat n) = (if 60 \<le> n then CRITICAL else if 35 \<le> n then HIGH else if 15 \<le> n then MEDIUM else if 0 < n then LOW else SAFE)"
proof -
  have "unat (of_nat n :: u32) = n" using assms by (simp add: unat_of_nat)
  then show ?thesis by (simp add: level_of_score_def word_le_nat_alt word_less_nat_alt)
qed

lemma assess_level:
  assumes "length (pr_sections r) \<le> 65535"
  shows "pr_assessed_level (assess_threat r) = (let n = nat_score (assess_threat r) in
    if 60 \<le> n then CRITICAL else if 35 \<le> n then HIGH else if 15 \<le> n then MEDIUM else if 0 < n then LOW else SAFE)"
proof -
  have "nat_score (assess_threat r) = nat_score r" by (simp add: nat_score_def assess_threat_def)
  then show ?thesis using level_of_nat [OF nat_score_bound [OF assms]] by (simp add: assess_threat_def risk_score_nat Let_def)
qed

lemma analyze_body_result:
  assumes "analyze_body lg data n osz off r0 = Some r" "section_loop lg data (off + osz) n n (r0, False) = Some st"
  shows "(\<exists>r'. r = assess_threat r') \<and> pr_sections r = pr_sections (fst st) \<and> (pr_is_packed (fst st) \<longrightarrow> pr_is_packed r)"
proof -
  obtain ir sz tr r3 where
    r3: "analyze_imports data ir sz (generic_packer (if \<not> snd st \<and> pr_entry_point (fst st) \<noteq> 0 then (fst st)\<lparr>pr_entry_point_anomaly := True\<rparr> else fst st)) = Some r3"
    and r: "r = assess_threat (analyze_tls data tr r3)"
    using assms by (fastforce simp: analyze_body_def bind_eq_Some_conv Let_def case_prod_unfold)
  have "pr_sections r3 = pr_sections (fst st) \<and> (pr_is_packed (fst st) \<longrightarrow> pr_is_packed r3)"
    using r3 by (auto simp: analyze_imports_def bind_eq_Some_conv Let_def generic_packer_def case_prod_unfold split: if_splits)
  moreover have "pr_sections (analyze_tls data tr r3) = pr_sections r3" "pr_is_packed (analyze_tls data tr r3) = pr_is_packed r3"
    by (simp_all add: analyze_tls_def split: option.split)
  ultimately show ?thesis using r by (auto simp: assess_threat_def)
qed

definition scored :: "PeAnalysisReport \<Rightarrow> bool" where
  "scored r \<longleftrightarrow> pr_sections r = [] \<or> (\<exists>r'. r = assess_threat r' \<and> length (pr_sections r') \<le> 65535)"

lemma analyze_body_scored:
  assumes "n \<le> 65535" "pr_sections r0 = []"
  shows "pred_option scored (analyze_body lg data n osz off r0)"
proof -
  have "scored r" if "analyze_body lg data n osz off r0 = Some r" for r
  proof -
    obtain st where st: "section_loop lg data (off + osz) n n (r0, False) = Some st" using section_loop_defined by fastforce
    from analyze_body_result [OF that this] obtain r' where "r = assess_threat r'" "pr_sections r' = pr_sections (fst st)"
      by (auto simp: assess_threat_def)
    moreover have "length (pr_sections (fst st)) \<le> 65535" using section_loop_sections [OF st] assms by simp
    ultimately show ?thesis by (auto simp: scored_def)
  qed
  then show ?thesis by (simp add: option.pred_set elem_set)
qed

lemma pred_bind: "(\<And>x. pred_option Q (f x)) \<Longrightarrow> pred_option Q (Option.bind m f)"
  by (cases m) simp_all

lemma pred_if: "(c \<Longrightarrow> pred_option Q x) \<Longrightarrow> (\<not> c \<Longrightarrow> pred_option Q y) \<Longrightarrow> pred_option Q (if c then x else y)"
  by simp

lemma analyze_buffer_scored: "pred_option scored (analyze_buffer lg data)"
proof -
  have d: "pr_sections PeAnalysisReport_default = []" by (simp add: PeAnalysisReport_default_def)
  have n: "unat (n :: u16) \<le> 65535" for n using unsigned_less [of n, where ?'a = nat] by simp
  show ?thesis unfolding analyze_buffer_def Let_def
    by (intro pred_if pred_bind analyze_body_scored n) (simp_all add: d scored_def)
qed

lemma analyze_buffer_result:
  assumes "analyze_buffer lg data = Some r" "pr_sections r \<noteq> []"
  shows "\<exists>r'. r = assess_threat r' \<and> length (pr_sections r') \<le> 65535"
  using analyze_buffer_scored [of lg data] assms by (simp add: scored_def)

section \<open>Properties\<close>


text \<open>
  C20. The verdict of a completed analysis is given by the unbounded sum of the indicator weights, so the 32-bit score never
  wraps: 40 for each writable and executable section, 35 for a packer, 25 for the entry point, 20 for high entropy, 30 or 10
  for dangerous imports and 15 for callbacks, with the thresholds 60, 35 and 15.
\<close>

theorem pe_verdict:
  assumes "analyze_buffer lg data = Some r" "pr_sections r \<noteq> []"
  shows "pr_assessed_level r =
    (let n = 40 * length (filter se_is_wx (pr_sections r)) + (if pr_is_packed r then 35 else 0) +
       (if pr_entry_point_anomaly r then 25 else 0) + (if dle (fl (72/10)) (pr_overall_entropy r) then 20 else 0) +
       (if 30 \<le> pr_dangerous_api_score r then 30 else if 10 \<le> pr_dangerous_api_score r then 10 else 0) +
       (if pr_has_tls_callbacks r \<and> (pr_is_packed r \<or> dle (fl (68/10)) (pr_overall_entropy r)) then 15 else (0 :: nat))
     in if 60 \<le> n then CRITICAL else if 35 \<le> n then HIGH else if 15 \<le> n then MEDIUM else if 0 < n then LOW else SAFE)"
proof -
  obtain r' where "r = assess_threat r'" "length (pr_sections r') \<le> 65535" using analyze_buffer_result [OF assms] by blast
  then show ?thesis using assess_level [of r'] unfolding nat_score_def by simp
qed

text \<open>An image of 130 bytes with one section named UPX0 that is writable and executable.\<close>

definition sample_image :: bytes where
  "sample_image = [0x4D, 0x5A] @ replicate 58 0 @ [64, 0, 0, 0] @ [0x50, 0x45, 0, 0] @ [0, 0, 1, 0] @ replicate 12 0 @ [2, 0, 0, 0] @
     [0x0B, 0x01] @ [0x55, 0x50, 0x58, 0x30, 0, 0, 0, 0] @ replicate 28 0 @ [0, 0, 0, 0xA0]"

lemma sample_image_reads:
  "length sample_image = 130" "bytes_agree sample_image [(0, 0x4D), (1, 0x5A)] = Some True" "get_u32 sample_image 0x3C = Some 64"
  "bytes_agree sample_image [(64, 0x50), (65, 0x45), (66, 0), (67, 0)] = Some True"
  "get_u16 sample_image 70 = Some 1" "get_u16 sample_image 84 = Some 2" "get_u16 sample_image 88 = Some 0x10B"
  "get_u32 sample_image 104 = Some 0"
  by code_simp+

lemma sample_image_analysis:
  "analyze_buffer lg sample_image = analyze_body lg sample_image 1 2 88
     (PeAnalysisReport_default\<lparr>pr_is_valid_pe := True, pr_overall_entropy := calculate_entropy lg sample_image, pr_is_64bit := False, pr_entry_point := 0\<rparr>)"
proof -
  have w: "unat (64 :: u32) = 64" "unat (64 + 1 :: u32) = 65" "unat (64 + 2 :: u32) = 66" "unat (64 + 3 :: u32) = 67" "unat (64 + 4 :: u32) = 68"
    "unat (1 :: u16) = 1" "unat (2 :: u16) = 2" "\<not> (2 :: u16) < 2" "(0x10B :: u16) \<noteq> 0x20B" by simp_all
  have f: "fits 130 64 4" "fits 130 68 20" "fits 130 88 2" "fits 130 104 4" "\<not> (130 :: nat) < 64"
    "68 + 2 = (70 :: nat)" "68 + 16 = (84 :: nat)" "68 + 20 = (88 :: nat)" "88 + 16 = (104 :: nat)" by (simp_all add: fits_def)
  show ?thesis unfolding analyze_buffer_def sample_image_reads Let_def bind.bind_lunit if_False
    by (simp only: w f sample_image_reads bind.bind_lunit if_True if_False not_True_eq_False not_False_eq_True de_Morgan_conj simp_thms if_cancel)
qed

lemma sample_image_section:
  "\<exists>sec. parse_section (\<lambda>x. Fin 0) sample_image 90 = Some sec \<and> se_is_wx sec \<and> packer_of (to_lower_ascii (se_name sec)) = Some ''UPX''"
proof -
  have "case parse_section (\<lambda>x. Fin 0) sample_image 90 of None \<Rightarrow> False
    | Some sec \<Rightarrow> se_is_wx sec \<and> packer_of (to_lower_ascii (se_name sec)) = Some ''UPX''" by code_simp
  then show ?thesis by (simp split: option.splits)
qed

theorem pe_verdict_witness: "\<exists>r. analyze_buffer (\<lambda>x. Fin 0) sample_image = Some r \<and> pr_is_packed r \<and> pr_assessed_level r = CRITICAL"
proof -
  obtain sec where sec: "parse_section (\<lambda>x. Fin 0) sample_image 90 = Some sec" "se_is_wx sec" "packer_of (to_lower_ascii (se_name sec)) = Some ''UPX''"
    using sample_image_section by blast
  have d: "pr_sections PeAnalysisReport_default = []" by (simp add: PeAnalysisReport_default_def)
  obtain r where r: "analyze_buffer (\<lambda>x. Fin 0) sample_image = Some r" using analyze_buffer_defined by fastforce
  then obtain r0 where r0: "analyze_body (\<lambda>x. Fin 0) sample_image 1 2 88 r0 = Some r" "pr_sections r0 = []"
    unfolding sample_image_analysis using d by fastforce
  have "section_loop (\<lambda>x. Fin 0) sample_image (88 + 2) 1 1 (r0, False) = Some (add_section 1 0 sec (r0, False))"
    by (simp add: sample_image_reads fits_def sec Let_def)
  from analyze_body_result [OF r0(1) this] have f: "pr_is_packed r" "pr_sections r = [sec]"
    using sec r0(2) by (simp_all add: add_section_def Let_def)
  with pe_verdict [OF r] sec have "pr_assessed_level r = CRITICAL" by (simp add: Let_def)
  with r f show ?thesis by blast
qed

end
