(* ===== verification/Etw_Process.thy ===== *)
theory Etw_Process
  imports Engine_Base
begin

text \<open>
  \<^verbatim>\<open>security/etw_kernel_process_engine.{hpp,cpp}\<close>, the Windows build: decoding of the Kernel-Process event payloads
  from raw bytes, the UTF-16 to UTF-8 conversion of the image name, the table of creation times, the lineage and
  remote-thread observations, the validation counters, and the life cycle of the trace session. What the operating
  system answers (process queries, return codes of the trace functions) is an argument of the operations. The lemmas
  give the decoder as the inverse of the documented layout, the conversion as the encoding of the same code points,
  the table as a part of the live processes, and the session as released on every failing path.
\<close>

section \<open>Payloads\<close>

definition kProcessStartFixedPrefixSize :: nat where
  "kProcessStartFixedPrefixSize = 4 + 8 + 8 + 4 + 8 + 4 + 4"

definition read_u32le :: "bytes \<Rightarrow> u32" where
  "read_u32le data = ucast (data ! 0) OR push_bit 8 (ucast (data ! 1)) OR push_bit 16 (ucast (data ! 2)) OR push_bit 24 (ucast (data ! 3))"

definition read_u64le :: "bytes \<Rightarrow> u64" where
  "read_u64le data = ucast (data ! 0) OR push_bit 8 (ucast (data ! 1)) OR push_bit 16 (ucast (data ! 2)) OR push_bit 24 (ucast (data ! 3)) OR
     push_bit 32 (ucast (data ! 4)) OR push_bit 40 (ucast (data ! 5)) OR push_bit 48 (ucast (data ! 6)) OR push_bit 56 (ucast (data ! 7))"

definition utf16_unit :: "u8 \<Rightarrow> u8 \<Rightarrow> u16" where
  "utf16_unit lo hi = ucast lo OR push_bit 8 (ucast hi)"

text \<open>\<^verbatim>\<open>static_cast<char>\<close> of the low byte.\<close>

definition put_char :: "u32 \<Rightarrow> char" where
  "put_char w = char_of (unat w mod 256)"

definition put_utf8 :: "u32 \<Rightarrow> string" where
  "put_utf8 cp =
     (if cp \<le> 0x7F then [put_char cp]
      else if cp \<le> 0x7FF then [put_char (0xC0 OR drop_bit 6 cp), put_char (0x80 OR (cp AND 0x3F))]
      else if cp \<le> 0xFFFF then
        [put_char (0xE0 OR drop_bit 12 cp), put_char (0x80 OR (drop_bit 6 cp AND 0x3F)), put_char (0x80 OR (cp AND 0x3F))]
      else [put_char (0xF0 OR drop_bit 18 cp), put_char (0x80 OR (drop_bit 12 cp AND 0x3F)),
            put_char (0x80 OR (drop_bit 6 cp AND 0x3F)), put_char (0x80 OR (cp AND 0x3F))])"

text \<open>
  The loop over the byte pairs; a high surrogate that a low one follows consumes both. Fewer than two bytes end it.
\<close>

fun utf16le_to_utf8 :: "bytes \<Rightarrow> string" where
  "utf16le_to_utf8 (a # b # rest) =
     (let unit = utf16_unit a b in
      if unit = 0 then []
      else case rest of
        c # d # rest' \<Rightarrow>
          (let low = utf16_unit c d in
           if 0xD800 \<le> unit \<and> unit \<le> 0xDBFF \<and> 0xDC00 \<le> low \<and> low \<le> 0xDFFF
           then put_utf8 (0x10000 + push_bit 10 (ucast unit - 0xD800) + (ucast low - 0xDC00)) @ utf16le_to_utf8 rest'
           else put_utf8 (ucast unit) @ utf16le_to_utf8 rest)
      | _ \<Rightarrow> put_utf8 (ucast unit) @ utf16le_to_utf8 rest)"
| "utf16le_to_utf8 _ = []"

record DecodedProcessStart =
  dp_pid :: u32
  dp_parent_pid :: u32
  dp_create_time_filetime :: u64
  dp_image_name :: string

record DecodedThreadStart =
  dt_target_pid :: u32
  dt_thread_id :: u32

text \<open>The payload pointer may be null.\<close>

definition decode_process_start :: "bytes option \<Rightarrow> DecodedProcessStart option" where
  "decode_process_start payload =
     (case payload of
        None \<Rightarrow> None
      | Some data \<Rightarrow>
          if length data < kProcessStartFixedPrefixSize then None
          else let pid = read_u32le data; ct = read_u64le (drop 12 data); ppid = read_u32le (drop 20 data) in
            if pid = 0 then None
            else Some \<lparr>dp_pid = pid, dp_parent_pid = ppid, dp_create_time_filetime = ct,
              dp_image_name = (if kProcessStartFixedPrefixSize < length data
                then utf16le_to_utf8 (drop kProcessStartFixedPrefixSize data) else [])\<rparr>)"

definition decode_process_stop_pid :: "bytes option \<Rightarrow> u32 option" where
  "decode_process_stop_pid payload =
     (case payload of
        None \<Rightarrow> None
      | Some data \<Rightarrow> if length data < 4 then None else let pid = read_u32le data in if pid = 0 then None else Some pid)"

definition decode_thread_start :: "bytes option \<Rightarrow> DecodedThreadStart option" where
  "decode_thread_start payload =
     (case payload of
        None \<Rightarrow> None
      | Some data \<Rightarrow>
          if length data < 8 then None
          else let out = \<lparr>dt_target_pid = read_u32le data, dt_thread_id = read_u32le (drop 4 data)\<rparr> in
            if dt_target_pid out = 0 then None else Some out)"

section \<open>Decisions and observations\<close>

definition is_impossible_parent_order :: "u64 \<Rightarrow> u64 \<Rightarrow> bool" where
  "is_impossible_parent_order child_created parent_created \<longleftrightarrow>
     child_created \<noteq> 0 \<and> parent_created \<noteq> 0 \<and> child_created < parent_created"

definition is_remote_thread :: "u32 \<Rightarrow> u32 \<Rightarrow> bool" where
  "is_remote_thread creator_pid target_pid \<longleftrightarrow> creator_pid \<noteq> 0 \<and> target_pid \<noteq> 0 \<and> creator_pid \<noteq> target_pid"

definition make_lineage_observation :: "time_point \<Rightarrow> u32 \<Rightarrow> u32 \<Rightarrow> string \<Rightarrow> SecurityObservation" where
  "make_lineage_observation now pid parent_pid image_name =
     SecurityObservation_default\<lparr>obs_source_id := ''etw-kernel-process'', obs_kind := PROCESS_LINEAGE, obs_timestamp := now,
       obs_suggested_level := HIGH, obs_confidence := fl (90/100), obs_deterministic := True, obs_process_id := pid,
       obs_process_name := image_name, obs_file_path := image_name,
       obs_evidence := ''Kernel-Process ETW reported live parent PID '' @ to_string (unat parent_pid) @
         '' created after this process (CreateTime order violation)''\<rparr>"

definition make_remote_thread_observation :: "time_point \<Rightarrow> u32 \<Rightarrow> u32 \<Rightarrow> u32 \<Rightarrow> SecurityObservation" where
  "make_remote_thread_observation now creator_pid target_pid thread_id =
     SecurityObservation_default\<lparr>obs_source_id := ''etw-kernel-process'', obs_kind := PROCESS_MEMORY, obs_timestamp := now,
       obs_suggested_level := CRITICAL, obs_confidence := fl (95/100), obs_deterministic := True, obs_process_id := target_pid,
       obs_evidence := ''Kernel-Process ETW detected remote thread injection: Creator PID '' @ to_string (unat creator_pid) @
         '' injected thread ID '' @ to_string (unat thread_id) @ '' into Target PID '' @ to_string (unat target_pid)\<rparr>"

section \<open>The engine\<close>

type_synonym GUID = "u32 \<times> u16 \<times> u16 \<times> bytes"

definition kKernelProcessProviderGuid :: GUID where
  "kKernelProcessProviderGuid = (0x22fb2cd6, 0x0e7b, 0x422b, [0xa0, 0xc7, 0x2f, 0xad, 0x1f, 0xd0, 0xe7, 0x16])"

definition kEventProcessStart :: u16 where "kEventProcessStart = 1"
definition kEventProcessStop :: u16 where "kEventProcessStop = 2"
definition kEventThreadStart :: u16 where "kEventThreadStart = 3"
definition MAX_KNOWN_CREATE_TIMES :: nat where "MAX_KNOWN_CREATE_TIMES = 8192"
definition kValidationSampleCount :: u32 where "kValidationSampleCount = 5"

text \<open>What the engine and the operating system hold of the trace session.\<close>

record Session =
  se_session_started :: bool
  se_consumer_opened :: bool

record EtwEngine =
  et_running :: bool
  et_session :: "Session option"
  et_known_create_times :: "(u32 \<times> u64) list"
  et_validation_samples :: u32
  et_validation_failures :: u32
  et_os_session :: bool
  et_os_consumer :: bool

definition EtwEngine_new :: "bool \<Rightarrow> EtwEngine" where
  "EtwEngine_new stale = \<lparr>et_running = False, et_session = None, et_known_create_times = [], et_validation_samples = 0,
     et_validation_failures = 0, et_os_session = stale, et_os_consumer = False\<rparr>"

record EventRecord =
  rec_provider :: GUID
  rec_event_id :: u16
  rec_process_id :: u32
  rec_user_data :: "bytes option"

text \<open>
  Answers of the process queries: the creation time of a live process, and its image name, where the outer \<open>None\<close> is a
  process that cannot be opened and the inner one a failing query.
\<close>

record ProcessQueries =
  pq_created :: "u32 \<Rightarrow> u64 option"
  pq_image :: "u32 \<Rightarrow> string option option"

text \<open>The calls of the three callbacks.\<close>

datatype etw_call = ObservationCall SecurityObservation | ProcessStartCall u32 string | RemoteThreadCall u32 u32 u32

definition file_part :: "string \<Rightarrow> string" where
  "file_part s = rev (takeWhile (\<lambda>c. c \<noteq> CHR 0x5C \<and> c \<noteq> CHR ''/'') (rev s))"

definition image_names_agree :: "string \<Rightarrow> string \<Rightarrow> bool" where
  "image_names_agree decoded os =
     (let a = file_part decoded; b = file_part os in
      length a = length b \<and> list_all (\<lambda>i. ascii_lower (a ! i) = ascii_lower (b ! i)) [0..<length a])"

definition validate_decoded_event :: "ProcessQueries \<Rightarrow> DecodedProcessStart \<Rightarrow> EtwEngine \<Rightarrow> EtwEngine" where
  "validate_decoded_event os decoded s =
     (if kValidationSampleCount \<le> et_validation_samples s then s
      else let s1 = s\<lparr>et_validation_samples := et_validation_samples s + 1\<rparr> in
        case pq_image os (dp_pid decoded) of
          None \<Rightarrow> s1
        | Some img \<Rightarrow>
            let name_ok = (if dp_image_name decoded \<noteq> [] then
                 (case img of Some name \<Rightarrow> if name \<noteq> [] then image_names_agree (dp_image_name decoded) name else True | None \<Rightarrow> True)
               else True)
            in if \<not> name_ok then s1\<lparr>et_validation_failures := et_validation_failures s1 + 1\<rparr> else s1)"

definition known_created :: "(u32 \<times> u64) list \<Rightarrow> u32 \<Rightarrow> u64" where
  "known_created known pid = (case map_of known pid of None \<Rightarrow> 0 | Some t \<Rightarrow> t)"

definition handle_process_event ::
  "time_point \<Rightarrow> ProcessQueries \<Rightarrow> u16 \<Rightarrow> u32 \<Rightarrow> u32 \<Rightarrow> u64 \<Rightarrow> string \<Rightarrow> EtwEngine \<Rightarrow> EtwEngine \<times> etw_call list" where
  "handle_process_event now os event_id pid parent_pid create_time image_name s =
     (if event_id = kEventProcessStart then
        let known = (if MAX_KNOWN_CREATE_TIMES \<le> length (et_known_create_times s) then [] else et_known_create_times s);
            s1 = s\<lparr>et_known_create_times := AList.update pid create_time known\<rparr>;
            lineage =
              (if parent_pid \<noteq> 0 \<and> parent_pid \<noteq> pid then
                 let seen = known_created (et_known_create_times s1) parent_pid;
                     parent_created = (if seen = 0 then (case pq_created os parent_pid of Some t \<Rightarrow> t | None \<Rightarrow> seen) else seen)
                 in if is_impossible_parent_order create_time parent_created
                    then [ObservationCall (make_lineage_observation now pid parent_pid image_name)] else []
               else [])
        in (s1, lineage @ [ProcessStartCall pid image_name])
      else if event_id = kEventProcessStop then
        (s\<lparr>et_known_create_times := AList.delete pid (et_known_create_times s)\<rparr>, [])
      else (s, []))"

definition on_event_record :: "time_point \<Rightarrow> ProcessQueries \<Rightarrow> EventRecord \<Rightarrow> EtwEngine \<Rightarrow> EtwEngine \<times> etw_call list" where
  "on_event_record now os r s =
     (if rec_provider r \<noteq> kKernelProcessProviderGuid then (s, [])
      else if rec_event_id r = kEventProcessStart then
        (case decode_process_start (rec_user_data r) of
           None \<Rightarrow> (s, [])
         | Some d \<Rightarrow> handle_process_event now os (rec_event_id r) (dp_pid d) (dp_parent_pid d) (dp_create_time_filetime d)
             (dp_image_name d) (validate_decoded_event os d s))
      else if rec_event_id r = kEventProcessStop then
        (case decode_process_stop_pid (rec_user_data r) of
           None \<Rightarrow> (s, [])
         | Some pid \<Rightarrow> handle_process_event now os (rec_event_id r) pid 0 0 [] s)
      else if rec_event_id r = kEventThreadStart then
        (case decode_thread_start (rec_user_data r) of
           None \<Rightarrow> (s, [])
         | Some d \<Rightarrow>
             let creator_pid = rec_process_id r in
             if is_remote_thread creator_pid (dt_target_pid d)
             then (s, [ObservationCall (make_remote_thread_observation now creator_pid (dt_target_pid d) (dt_thread_id d)),
                       RemoteThreadCall creator_pid (dt_target_pid d) (dt_thread_id d)])
             else (s, []))
      else (s, []))"

section \<open>The trace session\<close>

definition ERROR_SUCCESS :: u32 where "ERROR_SUCCESS = 0"
definition ERROR_ALREADY_EXISTS :: u32 where "ERROR_ALREADY_EXISTS = 183"

text \<open>
  What the trace functions return: the two attempts of \<^verbatim>\<open>StartTraceW\<close>, \<^verbatim>\<open>EnableTraceEx2\<close>, whether \<^verbatim>\<open>OpenTraceW\<close>
  gives a handle and whether the consumer thread can be created. A session that was started exists in the system
  until it is stopped, also after the process that started it has ended.
\<close>

record TraceEnv =
  te_start_rc :: u32
  te_restart_rc :: u32
  te_enable_rc :: u32
  te_open_ok :: bool
  te_thread_ok :: bool

definition close_session :: "EtwEngine \<Rightarrow> EtwEngine" where
  "close_session s =
     (case et_session s of
        None \<Rightarrow> s
      | Some se \<Rightarrow>
          let s1 = (if se_consumer_opened se then s\<lparr>et_os_consumer := False\<rparr> else s);
              s2 = (if se_session_started se then s1\<lparr>et_os_session := False\<rparr> else s1)
          in s2\<lparr>et_session := None\<rparr>)"

definition start_trace :: "u32 \<Rightarrow> EtwEngine \<Rightarrow> EtwEngine" where
  "start_trace rc s = (if rc = ERROR_SUCCESS then s\<lparr>et_os_session := True\<rparr> else s)"

definition open_session :: "TraceEnv \<Rightarrow> EtwEngine \<Rightarrow> ErrorCode \<times> EtwEngine" where
  "open_session env s =
     (let s1 = start_trace (te_start_rc env) (s\<lparr>et_session := Some \<lparr>se_session_started = False, se_consumer_opened = False\<rparr>\<rparr>);
          (rc, s2) = (if te_start_rc env = ERROR_ALREADY_EXISTS
             then (te_restart_rc env, start_trace (te_restart_rc env) (s1\<lparr>et_os_session := False\<rparr>)) else (te_start_rc env, s1))
      in if rc \<noteq> ERROR_SUCCESS then (ERR_ENGINE_START, s2\<lparr>et_session := None\<rparr>)
         else let s3 = s2\<lparr>et_session := Some \<lparr>se_session_started = True, se_consumer_opened = False\<rparr>\<rparr> in
           if te_enable_rc env \<noteq> ERROR_SUCCESS then (ERR_ENGINE_START, close_session s3)
           else if \<not> te_open_ok env then (ERR_ENGINE_START, close_session s3)
           else (OK, s3\<lparr>et_session := Some \<lparr>se_session_started = True, se_consumer_opened = True\<rparr>, et_os_consumer := True\<rparr>))"

definition etw_start :: "TraceEnv \<Rightarrow> EtwEngine \<Rightarrow> ErrorCode \<times> EtwEngine" where
  "etw_start env s =
     (if et_running s then (OK, s)
      else case open_session env s of (rc, s1) \<Rightarrow>
        if rc \<noteq> OK then (rc, s1)
        else let s2 = s1\<lparr>et_running := True\<rparr> in
          if te_thread_ok env then (OK, s2)
          else (ERR_ENGINE_START, close_session (s2\<lparr>et_running := False\<rparr>)))"

definition etw_stop :: "EtwEngine \<Rightarrow> ErrorCode \<times> EtwEngine" where
  "etw_stop s = (if \<not> et_running s then (OK, s) else (OK, (close_session (s\<lparr>et_running := False\<rparr>))\<lparr>et_known_create_times := []\<rparr>))"

section \<open>The image name\<close>

text \<open>The encodings of a code point as numbers, and the code points a well-formed name consists of.\<close>

definition utf8_code :: "nat \<Rightarrow> nat list" where
  "utf8_code cp =
     (if cp < 0x80 then [cp]
      else if cp < 0x800 then [192 + cp div 64, 128 + cp mod 64]
      else if cp < 0x10000 then [224 + cp div 4096, 128 + cp div 64 mod 64, 128 + cp mod 64]
      else [240 + cp div 262144, 128 + cp div 4096 mod 64, 128 + cp div 64 mod 64, 128 + cp mod 64])"

definition utf16_code :: "nat \<Rightarrow> nat list" where
  "utf16_code cp = (if cp < 0x10000 then [cp] else [0xD800 + (cp - 0x10000) div 1024, 0xDC00 + (cp - 0x10000) mod 1024])"

definition scalar_value :: "nat \<Rightarrow> bool" where
  "scalar_value cp \<longleftrightarrow> 0 < cp \<and> cp < 0x110000 \<and> \<not> (0xD800 \<le> cp \<and> cp < 0xE000)"

definition utf8 :: "nat list \<Rightarrow> string" where
  "utf8 cps = concat (map (map char_of \<circ> utf8_code) cps)"

definition unit_bytes :: "nat \<Rightarrow> bytes" where
  "unit_bytes u = [of_nat (u mod 256), of_nat (u div 256)]"

definition utf16le :: "nat list \<Rightarrow> bytes" where
  "utf16le cps = concat (map unit_bytes (concat (map utf16_code cps)))"

lemma unat_tagged:
  fixes a b :: u32
  assumes "unat a < 2 ^ (32 - k)" "unat b < 2 ^ k" "k \<le> 32"
  shows "unat (push_bit k a OR b) = unat a * 2 ^ k + unat b"
  using unat_push_or [of a k b] assms by simp

lemma low_six: "unat ((w :: u32) AND 0x3F) = unat w mod 64"
  using unat_and_mask_nat [of w 6] by (simp add: mask_eq_exp_minus_1)

lemma continuation_byte: "unat (0x80 OR ((w :: u32) AND 0x3F)) = 128 + unat w mod 64"
  using unat_tagged [of 2 6 "w AND 0x3F"] by (simp add: low_six push_bit_eq_mult)

lemma lead_byte:
  "unat w < 64 \<Longrightarrow> unat (0xC0 OR (w :: u32)) = 192 + unat w"
  "unat w < 32 \<Longrightarrow> unat (0xE0 OR (w :: u32)) = 224 + unat w"
  "unat w < 16 \<Longrightarrow> unat (0xF0 OR (w :: u32)) = 240 + unat w"
  using unat_tagged [of 3 6 w] unat_tagged [of 7 5 w] unat_tagged [of 15 4 w] by (simp_all add: push_bit_eq_mult)

lemma put_utf8_code:
  assumes "unat cp < 0x110000"
  shows "put_utf8 cp = map char_of (utf8_code (unat cp))"
proof -
  have le: "cp \<le> 0x7F \<longleftrightarrow> unat cp < 0x80" "cp \<le> 0x7FF \<longleftrightarrow> unat cp < 0x800" "cp \<le> 0xFFFF \<longleftrightarrow> unat cp < 0x10000"
    by (auto simp: word_le_nat_alt)
  have d: "unat (drop_bit 6 cp) = unat cp div 64" "unat (drop_bit 12 cp) = unat cp div 4096" "unat (drop_bit 18 cp) = unat cp div 262144"
    by (simp_all add: unat_drop_bit_nat)
  have m: "unat cp div 64 mod 64 < 64" "unat cp div 4096 mod 64 < 64" "unat cp mod 64 < 64" by simp_all
  consider "unat cp < 0x80" | "0x80 \<le> unat cp" "unat cp < 0x800" | "0x800 \<le> unat cp" "unat cp < 0x10000" | "0x10000 \<le> unat cp" by linarith
  then show ?thesis
  proof cases
    case 1
    then show ?thesis by (simp add: put_utf8_def utf8_code_def put_char_def le)
  next
    case 2
    then have "unat cp div 64 < 32" by (simp add: less_mult_imp_div_less)
    with 2 m show ?thesis by (simp add: put_utf8_def utf8_code_def put_char_def le continuation_byte lead_byte d)
  next
    case 3
    then have "unat cp div 4096 < 16" by (simp add: less_mult_imp_div_less)
    with 3 m show ?thesis by (simp add: put_utf8_def utf8_code_def put_char_def le continuation_byte lead_byte d)
  next
    case 4
    have "unat cp div 262144 < 5" using assms by (simp add: less_mult_imp_div_less)
    with 4 m show ?thesis by (simp add: put_utf8_def utf8_code_def put_char_def le continuation_byte lead_byte d)
  qed
qed

lemma utf16_unit_bytes:
  assumes "u < 65536"
  shows "unat (utf16_unit (of_nat (u mod 256)) (of_nat (u div 256))) = u"
proof -
  have q: "u div 256 < 256" using assms by (simp add: less_mult_imp_div_less)
  have "unat (push_bit 8 (ucast (of_nat (u div 256) :: u8)) OR (ucast (of_nat (u mod 256) :: u8) :: u16)) = u div 256 * 2 ^ 8 + u mod 256"
    using unat_push_or [of "ucast (of_nat (u div 256) :: u8) :: u16" 8 "ucast (of_nat (u mod 256) :: u8)"] q
    by (simp add: unsigned_ucast_eq unsigned_of_nat take_bit_nat_eq_self)
  then show ?thesis by (simp add: utf16_unit_def or.commute)
qed

lemma unit_bytes_step:
  assumes u: "0 < u" "u < 65536" "\<not> (0xD800 \<le> u \<and> u < 0xDC00)"
  shows "utf16le_to_utf8 (unit_bytes u @ rest) = map char_of (utf8_code u) @ utf16le_to_utf8 rest"
proof -
  let ?w = "utf16_unit (of_nat (u mod 256)) (of_nat (u div 256))"
  have w: "unat ?w = u" using utf16_unit_bytes [OF u(2)] .
  have "?w \<noteq> 0" using w u(1) by auto
  moreover have "\<not> (0xD800 \<le> ?w \<and> ?w \<le> 0xDBFF)" using w u(3) by (auto simp: word_le_nat_alt)
  moreover have "put_utf8 (ucast ?w) = map char_of (utf8_code u)"
    using put_utf8_code [of "ucast ?w"] w u(2) by (simp add: unsigned_ucast_eq take_bit_nat_eq_self)
  ultimately show ?thesis
    unfolding unit_bytes_def append.simps by (subst utf16le_to_utf8.simps) (auto simp: Let_def simp del: utf16le_to_utf8.simps split: list.split)
qed

lemma pair_code_point:
  fixes hi lo :: u16
  assumes "unat hi = 0xD800 + a" "unat lo = 0xDC00 + b" "a < 1024" "b < 1024"
  shows "unat (0x10000 + push_bit 10 (ucast hi - 0xD800) + (ucast lo - 0xDC00) :: u32) = 0x10000 + a * 1024 + b"
proof -
  have sum: "unat (0x10000 + push_bit 10 x + y :: u32) = 0x10000 + unat x * 1024 + unat y" if "unat x < 1024" "unat y < 1024" for x y
    using that by (simp add: push_bit_eq_mult unat_word_ariths)
  have "unat (ucast hi - 0xD800 :: u32) = a"
    using assms(1,3) by (subst unat_sub) (simp_all add: word_le_nat_alt unsigned_ucast_eq take_bit_nat_eq_self)
  moreover have "unat (ucast lo - 0xDC00 :: u32) = b"
    using assms(2,4) by (subst unat_sub) (simp_all add: word_le_nat_alt unsigned_ucast_eq take_bit_nat_eq_self)
  ultimately show ?thesis using sum assms(3,4) by metis
qed

lemma surrogate_bytes_step:
  assumes "a < 1024" "b < 1024"
  shows "utf16le_to_utf8 (unit_bytes (0xD800 + a) @ unit_bytes (0xDC00 + b) @ rest) =
    map char_of (utf8_code (0x10000 + a * 1024 + b)) @ utf16le_to_utf8 rest"
proof -
  let ?h = "utf16_unit (of_nat ((0xD800 + a) mod 256)) (of_nat ((0xD800 + a) div 256))"
    and ?l = "utf16_unit (of_nat ((0xDC00 + b) mod 256)) (of_nat ((0xDC00 + b) div 256))"
  have h: "unat ?h = 0xD800 + a" and l: "unat ?l = 0xDC00 + b" using utf16_unit_bytes assms by simp_all
  have c: "?h \<noteq> 0" "0xD800 \<le> ?h" "?h \<le> 0xDBFF" "0xDC00 \<le> ?l" "?l \<le> 0xDFFF"
    using h l assms by (auto simp: word_le_nat_alt)
  have "put_utf8 (0x10000 + push_bit 10 (ucast ?h - 0xD800) + (ucast ?l - 0xDC00)) = map char_of (utf8_code (0x10000 + a * 1024 + b))"
    using put_utf8_code [of "0x10000 + push_bit 10 (ucast ?h - 0xD800) + (ucast ?l - 0xDC00)"] pair_code_point [OF h l] assms by simp
  then show ?thesis using c by (simp only: unit_bytes_def append.simps utf16le_to_utf8.simps Let_def list.case if_True if_False simp_thms)
qed

lemma code_point_step:
  assumes "scalar_value cp"
  shows "utf16le_to_utf8 (concat (map unit_bytes (utf16_code cp)) @ rest) = map char_of (utf8_code cp) @ utf16le_to_utf8 rest"
proof (cases "cp < 0x10000")
  case True
  then show ?thesis using unit_bytes_step [of cp rest] assms by (auto simp: utf16_code_def scalar_value_def)
next
  case False
  have "cp - 0x10000 < 1024 * 1024" using assms False by (auto simp: scalar_value_def)
  then have "(cp - 0x10000) div 1024 < 1024" by (rule less_mult_imp_div_less)
  moreover have "0x10000 + (cp - 0x10000) div 1024 * 1024 + (cp - 0x10000) mod 1024 = cp" using False by simp
  ultimately show ?thesis using surrogate_bytes_step [of "(cp - 0x10000) div 1024" "(cp - 0x10000) mod 1024" rest] False
    by (simp add: utf16_code_def)
qed

lemma utf16le_to_utf8_append:
  "\<forall>cp \<in> set cps. scalar_value cp \<Longrightarrow> utf16le_to_utf8 (utf16le cps @ rest) = utf8 cps @ utf16le_to_utf8 rest"
  by (induction cps) (simp_all add: utf16le_def utf8_def code_point_step)

section \<open>The documented layout\<close>

definition le_bytes :: "nat \<Rightarrow> 'a::len word \<Rightarrow> bytes" where
  "le_bytes n w = map (\<lambda>i. ucast (drop_bit (8 * i) w)) [0..<n]"

lemma length_le_bytes [simp]: "length (le_bytes n w) = n"
  by (simp add: le_bytes_def)

lemma read_u32le_bytes [simp]: "read_u32le (le_bytes 4 (w :: u32) @ rest) = w"
proof (rule bit_word_eqI)
  fix n
  assume "n < LENGTH(32)"
  then consider "n < 8" | "8 \<le> n" "n < 16" | "16 \<le> n" "n < 24" | "24 \<le> n" "n < 32" by fastforce
  then show "bit (read_u32le (le_bytes 4 w @ rest)) n = bit w n"
    by cases (auto simp: read_u32le_def le_bytes_def nth_append bit_simps)
qed

lemma read_u64le_bytes [simp]: "read_u64le (le_bytes 8 (w :: u64) @ rest) = w"
proof (rule bit_word_eqI)
  fix n
  assume "n < LENGTH(64)"
  then consider "n < 8" | "8 \<le> n" "n < 16" | "16 \<le> n" "n < 24" | "24 \<le> n" "n < 32"
    | "32 \<le> n" "n < 40" | "40 \<le> n" "n < 48" | "48 \<le> n" "n < 56" | "56 \<le> n" "n < 64" by fastforce
  then show "bit (read_u64le (le_bytes 8 w @ rest)) n = bit w n"
    by cases (auto simp: read_u64le_def le_bytes_def nth_append bit_simps)
qed

text \<open>A ProcessStart payload: the fields of the manifest in order, the name, its terminator, and what may follow it.\<close>

definition process_start_payload :: "u32 \<Rightarrow> u64 \<Rightarrow> u64 \<Rightarrow> u32 \<Rightarrow> u64 \<Rightarrow> u32 \<Rightarrow> u32 \<Rightarrow> nat list \<Rightarrow> bytes \<Rightarrow> bytes" where
  "process_start_payload pid seq created parent parent_seq session flags name extra =
     le_bytes 4 pid @ le_bytes 8 seq @ le_bytes 8 created @ le_bytes 4 parent @ le_bytes 8 parent_seq @ le_bytes 4 session @
     le_bytes 4 flags @ utf16le name @ [0, 0] @ extra"

text \<open>
  C27. Decoding inverts the documented layout: for a process id other than 0 and a name of Unicode scalar values, the
  decoded fields are those laid out, with the name in UTF-8; bytes after the terminator do not matter, and a
  payload shorter than the fixed prefix or with process id 0 is refused.
\<close>

theorem process_start_decoded:
  assumes "pid \<noteq> 0" "\<forall>cp \<in> set name. scalar_value cp" "length short < 40"
  shows "decode_process_start (Some (process_start_payload pid seq created parent parent_seq session flags name extra)) =
      Some \<lparr>dp_pid = pid, dp_parent_pid = parent, dp_create_time_filetime = created, dp_image_name = utf8 name\<rparr> \<and>
    decode_process_start (Some (process_start_payload 0 seq created parent parent_seq session flags name extra)) = None \<and>
    decode_process_start (Some short) = None"
proof -
  have "decode_process_start (Some (process_start_payload p seq created parent parent_seq session flags name extra)) =
     (if p = 0 then None else Some \<lparr>dp_pid = p, dp_parent_pid = parent, dp_create_time_filetime = created, dp_image_name = utf8 name\<rparr>)" for p
    using utf16le_to_utf8_append [OF assms(2), of "[0, 0] @ extra"]
    by (simp add: decode_process_start_def process_start_payload_def kProcessStartFixedPrefixSize_def Let_def utf16_unit_def)
  then show ?thesis using assms(1,3) by (simp add: decode_process_start_def kProcessStartFixedPrefixSize_def)
qed

theorem process_start_decoded_witness:
  "decode_process_start (Some (process_start_payload 7 1 99 4 2 0 0 [0x61, 0xE9, 0x20AC, 0x1F600] [9, 9])) =
     Some \<lparr>dp_pid = 7, dp_parent_pid = 4, dp_create_time_filetime = 99,
       dp_image_name = map char_of [0x61 :: nat, 0xC3, 0xA9, 0xE2, 0x82, 0xAC, 0xF0, 0x9F, 0x98, 0x80]\<rparr> \<and>
   decode_process_start (Some [7, 0, 0, 0]) = None"
  using process_start_decoded [of 7 "[0x61, 0xE9, 0x20AC, 0x1F600]" "[7, 0, 0, 0]" 1 99 4 2 0 0 "[9, 9]"]
  by (simp add: scalar_value_def utf8_def utf8_code_def)

section \<open>Creation times\<close>

text \<open>The live processes after a sequence of records: the creation time of the last start of each that has not ended since.\<close>

type_synonym etw_event = "time_point \<times> ProcessQueries \<times> EventRecord"

fun etw_events :: "etw_event list \<Rightarrow> EtwEngine \<Rightarrow> EtwEngine \<times> etw_call list" where
  "etw_events [] s = (s, [])"
| "etw_events ((now, os, r) # es) s =
     (case on_event_record now os r s of (s1, calls) \<Rightarrow> case etw_events es s1 of (s2, calls') \<Rightarrow> (s2, calls @ calls'))"

definition started :: "EventRecord \<Rightarrow> DecodedProcessStart option" where
  "started r = (if rec_provider r = kKernelProcessProviderGuid \<and> rec_event_id r = 1 then decode_process_start (rec_user_data r) else None)"

definition ended :: "EventRecord \<Rightarrow> u32 option" where
  "ended r = (if rec_provider r = kKernelProcessProviderGuid \<and> rec_event_id r = 2 then decode_process_stop_pid (rec_user_data r) else None)"

definition live_step :: "etw_event \<Rightarrow> (u32 \<rightharpoonup> u64) \<Rightarrow> u32 \<rightharpoonup> u64" where
  "live_step e m = (case e of (now, os, r) \<Rightarrow>
     case started r of
       Some d \<Rightarrow> m(dp_pid d \<mapsto> dp_create_time_filetime d)
     | None \<Rightarrow> (case ended r of Some pid \<Rightarrow> m(pid := None) | None \<Rightarrow> m))"

lemmas event_ids = kEventProcessStart_def kEventProcessStop_def kEventThreadStart_def

lemma validate_known [simp]: "et_known_create_times (validate_decoded_event os d s) = et_known_create_times s"
  by (simp add: validate_decoded_event_def Let_def split: option.split)

lemma on_event_known:
  "et_known_create_times (fst (on_event_record now os r s)) =
    (case started r of
       Some d \<Rightarrow> AList.update (dp_pid d) (dp_create_time_filetime d)
         (if MAX_KNOWN_CREATE_TIMES \<le> length (et_known_create_times s) then [] else et_known_create_times s)
     | None \<Rightarrow> (case ended r of Some pid \<Rightarrow> AList.delete pid (et_known_create_times s) | None \<Rightarrow> et_known_create_times s))"
  by (auto simp: on_event_record_def started_def ended_def event_ids handle_process_event_def Let_def split: option.split)

text \<open>The table has at most 8192 entries with distinct keys, and every entry is a live process with its creation time.\<close>

definition known_ok :: "(u32 \<rightharpoonup> u64) \<Rightarrow> EtwEngine \<Rightarrow> bool" where
  "known_ok m s \<longleftrightarrow> distinct (map fst (et_known_create_times s)) \<and> length (et_known_create_times s) \<le> MAX_KNOWN_CREATE_TIMES \<and>
     map_of (et_known_create_times s) \<subseteq>\<^sub>m m"

lemma known_ok_step:
  assumes "known_ok m s"
  shows "known_ok (live_step (now, os, r) m) (fst (on_event_record now os r s))"
proof (cases "started r")
  case None
  then show ?thesis using assms
    by (auto intro: order.trans [OF length_delete_le] simp: known_ok_def live_step_def on_event_known distinct_delete delete_conv map_le_def split: option.split)
next
  case (Some d)
  let ?k = "if MAX_KNOWN_CREATE_TIMES \<le> length (et_known_create_times s) then [] else et_known_create_times s"
  have "distinct (map fst k) \<Longrightarrow> length k < MAX_KNOWN_CREATE_TIMES \<Longrightarrow> map_of k \<subseteq>\<^sub>m m \<Longrightarrow>
      distinct (map fst (AList.update p c k)) \<and> length (AList.update p c k) \<le> MAX_KNOWN_CREATE_TIMES \<and>
      map_of (AList.update p c k) \<subseteq>\<^sub>m m(p \<mapsto> c)" for k p c
    by (simp add: distinct_update update_conv' length_AList_update map_le_upd)
  from this [of ?k "dp_pid d" "dp_create_time_filetime d"] show ?thesis using assms Some
    by (auto simp: known_ok_def live_step_def on_event_known MAX_KNOWN_CREATE_TIMES_def split: if_splits)
qed

lemma known_ok_run: "known_ok m s \<Longrightarrow> known_ok (fold live_step es m) (fst (etw_events es s))"
proof (induction es arbitrary: m s)
  case (Cons e es)
  obtain now os r where e: "e = (now, os, r)" by (cases e) auto
  show ?case using Cons.IH [OF known_ok_step [OF Cons.prems, of now os r]] by (simp add: e case_prod_beta)
qed simp

lemma known_ok_new: "known_ok Map.empty (EtwEngine_new stale)"
  by (simp add: known_ok_def EtwEngine_new_def)

lemma start_record_calls:
  assumes "started r = Some d"
  shows "snd (on_event_record now os r s) =
    (let seen = known_created (et_known_create_times (fst (on_event_record now os r s))) (dp_parent_pid d);
         created = (if seen = 0 then (case pq_created os (dp_parent_pid d) of Some t \<Rightarrow> t | None \<Rightarrow> 0) else seen) in
     (if dp_parent_pid d \<noteq> 0 \<and> dp_parent_pid d \<noteq> dp_pid d \<and> is_impossible_parent_order (dp_create_time_filetime d) created
      then [ObservationCall (make_lineage_observation now (dp_pid d) (dp_parent_pid d) (dp_image_name d))] else []) @
     [ProcessStartCall (dp_pid d) (dp_image_name d)])"
  using assms by (auto simp: started_def on_event_record_def event_ids handle_process_event_def Let_def split: if_splits option.split)

text \<open>
  C28. The order check is exact, also after the table of creation times was emptied because it was full: where the system
  reports the creation times of the live processes, the start record of a process leads to a lineage observation
  exactly when its parent is another process that the system knows to have been created after it; the start is
  passed on in any case.
\<close>

theorem lineage_reported_exactly:
  fixes pre :: "etw_event list"
  assumes "started r = Some d"
    and "\<And>p t. fold live_step pre Map.empty p = Some t \<Longrightarrow> pq_created os p = Some t"
    and s_def: "s = fst (etw_events pre (EtwEngine_new stale))"
  shows "snd (on_event_record now os r s) =
     (if dp_parent_pid d \<noteq> 0 \<and> dp_parent_pid d \<noteq> dp_pid d \<and> dp_create_time_filetime d \<noteq> 0 \<and>
         (\<exists>t. pq_created os (dp_parent_pid d) = Some t \<and> dp_create_time_filetime d < t)
      then [ObservationCall (make_lineage_observation now (dp_pid d) (dp_parent_pid d) (dp_image_name d))] else []) @
     [ProcessStartCall (dp_pid d) (dp_image_name d)]"
proof -
  let ?p = "dp_parent_pid d" and ?known = "et_known_create_times (fst (on_event_record now os r s))"
  have "known_ok (live_step (now, os, r) (fold live_step pre Map.empty)) (fst (on_event_record now os r s))"
    unfolding s_def by (intro known_ok_step known_ok_run known_ok_new)
  then have le: "map_of ?known \<subseteq>\<^sub>m live_step (now, os, r) (fold live_step pre Map.empty)" by (simp add: known_ok_def)
  have sub: "pq_created os ?p = Some t" if "map_of ?known ?p = Some t" "?p \<noteq> dp_pid d" for t
  proof -
    have "live_step (now, os, r) (fold live_step pre Map.empty) ?p = Some t"
      using bspec [OF le [unfolded map_le_def] domI [of "map_of ?known", OF that(1)]] that(1) by simp
    then show ?thesis using assms(1,2) that(2) by (simp add: live_step_def)
  qed
  show ?thesis
  proof (cases "?p = dp_pid d")
    case False
    then show ?thesis unfolding start_record_calls [OF assms(1)] using sub
      by (cases "map_of ?known ?p"; cases "pq_created os ?p") (auto simp: known_created_def is_impossible_parent_order_def Let_def)
  qed (simp add: start_record_calls [OF assms(1)] Let_def)
qed

definition sample_start_record :: "u32 \<Rightarrow> u32 \<Rightarrow> u64 \<Rightarrow> EventRecord" where
  "sample_start_record pid parent created = \<lparr>rec_provider = kKernelProcessProviderGuid, rec_event_id = 1, rec_process_id = parent,
     rec_user_data = Some (process_start_payload pid 0 created parent 0 0 0 [0x61] [])\<rparr>"

lemma etw_sample_started:
  "pid \<noteq> 0 \<Longrightarrow> started (sample_start_record pid parent created) =
     Some \<lparr>dp_pid = pid, dp_parent_pid = parent, dp_create_time_filetime = created, dp_image_name = utf8 [0x61]\<rparr>"
  using utf16le_to_utf8_append [of "[0x61]" "[0, 0]"]
  by (simp add: started_def sample_start_record_def decode_process_start_def process_start_payload_def kProcessStartFixedPrefixSize_def
    Let_def utf16_unit_def scalar_value_def)

definition sample_queries :: ProcessQueries where
  "sample_queries = \<lparr>pq_created = [8 \<mapsto> 500], pq_image = (\<lambda>p. None)\<rparr>"

theorem lineage_reported_exactly_witness:
  "snd (on_event_record 3 sample_queries (sample_start_record 9 8 400)
      (fst (etw_events [(1, sample_queries, sample_start_record 8 0 500)] (EtwEngine_new False)))) =
    [ObservationCall (make_lineage_observation 3 9 8 (utf8 [0x61])), ProcessStartCall 9 (utf8 [0x61])]"
proof -
  let ?pre = "[(1, sample_queries, sample_start_record 8 0 500)]"
  have h: "fold live_step ?pre Map.empty p = Some t \<Longrightarrow> pq_created sample_queries p = Some t" for p t
    by (simp add: live_step_def etw_sample_started sample_queries_def split: if_splits)
  have "pq_created sample_queries 8 = Some 500" by (simp add: sample_queries_def)
  with lineage_reported_exactly [where pre = ?pre and os = sample_queries and now = 3 and stale = False, OF etw_sample_started [of 9 8 400] h refl]
  show ?thesis by simp
qed

section \<open>Life cycle\<close>

text \<open>
  A running engine owns a started and opened session, which exist in the system; one that does not run holds none and
  has no consumer open.
\<close>

definition session_ok :: "EtwEngine \<Rightarrow> bool" where
  "session_ok s \<longleftrightarrow>
     (if et_running s then et_session s = Some \<lparr>se_session_started = True, se_consumer_opened = True\<rparr> \<and> et_os_session s \<and> et_os_consumer s
      else et_session s = None \<and> \<not> et_os_consumer s)"

datatype etw_op = EStart TraceEnv | EStop | EEvent etw_event

fun etw_exec :: "etw_op \<Rightarrow> EtwEngine \<Rightarrow> EtwEngine" where
  "etw_exec (EStart env) s = snd (etw_start env s)"
| "etw_exec EStop s = snd (etw_stop s)"
| "etw_exec (EEvent (now, os, r)) s = fst (on_event_record now os r s)"

lemma on_event_session [simp]:
  "et_running (fst (on_event_record now os r s)) = et_running s" "et_session (fst (on_event_record now os r s)) = et_session s"
  "et_os_session (fst (on_event_record now os r s)) = et_os_session s" "et_os_consumer (fst (on_event_record now os r s)) = et_os_consumer s"
  by (auto simp: on_event_record_def handle_process_event_def validate_decoded_event_def Let_def split: option.split)

lemmas session_defs = session_ok_def etw_start_def etw_stop_def open_session_def close_session_def start_trace_def Let_def

lemma etw_exec_session: "session_ok s \<Longrightarrow> session_ok (etw_exec op s)"
  by (induction op s rule: etw_exec.induct) (auto simp: session_defs split: if_splits)

lemma etw_run_session: "session_ok (fold etw_exec ops (EtwEngine_new stale))"
proof -
  have "session_ok s \<Longrightarrow> session_ok (fold etw_exec ops s)" for s
    by (induction ops arbitrary: s) (simp_all add: etw_exec_session)
  then show ?thesis by (simp add: EtwEngine_new_def session_ok_def)
qed

text \<open>
  Starting never leaves a session behind: after any calls, a start that fails reports an engine start error, leaves
  the engine not running, without consumer and, when the system answers that a session of this name already exists
  exactly when there is one, without session in the system; one that succeeds leaves it running with both open.
  A stop releases everything and forgets the creation times.
\<close>

theorem etw_session_released:
  fixes ops :: "etw_op list"
  assumes "s = fold etw_exec ops (EtwEngine_new stale)" "\<not> et_running s"
    "te_start_rc env = ERROR_ALREADY_EXISTS \<longleftrightarrow> et_os_session s" "etw_start env s = (rc, s')"
  shows "(rc = OK \<and> et_running s' \<and> et_os_session s' \<and> et_os_consumer s' \<or>
          rc = ERR_ENGINE_START \<and> \<not> et_running s' \<and> et_session s' = None \<and> \<not> et_os_consumer s' \<and> \<not> et_os_session s') \<and>
    (rc = OK \<longrightarrow> etw_stop s' = (OK, s'\<lparr>et_running := False, et_session := None, et_os_session := False, et_os_consumer := False,
       et_known_create_times := []\<rparr>))"
proof -
  have "session_ok s" using etw_run_session assms(1) by simp
  then show ?thesis using assms(2-4) by (auto simp: session_defs ERROR_SUCCESS_def ERROR_ALREADY_EXISTS_def split: if_splits)
qed

theorem etw_session_released_witness:
  "\<exists>s'. etw_start \<lparr>te_start_rc = 183, te_restart_rc = 0, te_enable_rc = 5, te_open_ok = True, te_thread_ok = True\<rparr> (EtwEngine_new True) =
     (ERR_ENGINE_START, s') \<and> \<not> et_os_session s'"
proof -
  let ?env = "\<lparr>te_start_rc = 183, te_restart_rc = 0, te_enable_rc = 5, te_open_ok = True, te_thread_ok = True\<rparr>"
  obtain rc s' where st: "etw_start ?env (EtwEngine_new True) = (rc, s')" by (cases "etw_start ?env (EtwEngine_new True)")
  have rc: "rc = ERR_ENGINE_START" using st by (simp add: session_defs EtwEngine_new_def ERROR_SUCCESS_def ERROR_ALREADY_EXISTS_def)
  have "\<not> et_os_session s'"
    using etw_session_released [of "EtwEngine_new True" "[]" True ?env rc s'] st rc by (simp add: EtwEngine_new_def ERROR_ALREADY_EXISTS_def)
  with st rc show ?thesis by blast
qed

section \<open>A source of observations\<close>

fun etw_emissions :: "etw_call list \<Rightarrow> emission list" where
  "etw_emissions [] = []"
| "etw_emissions (ObservationCall obs # cs) = Observation obs # etw_emissions cs"
| "etw_emissions (ProcessStartCall p n # cs) = etw_emissions cs"
| "etw_emissions (RemoteThreadCall c t i # cs) = etw_emissions cs"

lemma set_etw_emissions [simp]: "set (etw_emissions cs) = {Observation obs | obs. ObservationCall obs \<in> set cs}"
  by (induction cs rule: etw_emissions.induct) auto

lemma etw_observation_valid:
  "obs_valid (make_lineage_observation now pid parent name)" "obs_valid (make_remote_thread_observation now c t i)"
  using unit_double_valid [OF unit_double_fl, of "90/100"] unit_double_valid [OF unit_double_fl, of "95/100"]
  by (simp_all add: make_lineage_observation_def make_remote_thread_observation_def obs_valid_def SecurityObservation_default_def)

lemma on_event_observations:
  "ObservationCall obs \<in> set (snd (on_event_record now os r s)) \<Longrightarrow> obs_valid obs"
  by (auto simp: on_event_record_def handle_process_event_def Let_def etw_observation_valid split: option.splits if_splits)

interpretation etw_source: observation_source "\<lambda>((now, os, r), s). etw_emissions (snd (on_event_record now os r s))"
  by unfold_locales (auto dest: on_event_observations)

end
