(* ===== verification/Process_Behavior.thy ===== *)
theory Process_Behavior
  imports Engine_Base
begin

text \<open>
  \<^verbatim>\<open>security/process_behavior_engine.cpp\<close>, the Windows build: the inspection of one process, a walk over its memory
  regions for writable and executable pages and the comparison of its creation time with its parent's. What the
  operating system answers is the argument \<open>ProcessView\<close>. The lemmas show that the walk finds the first such region
  whenever the system reports at most 4096 adjacent regions, and how its two observations are marked.
\<close>

section \<open>Model\<close>

record MEMORY_BASIC_INFORMATION =
  mi_BaseAddress :: u64
  mi_RegionSize :: u64
  mi_State :: u32
  mi_Protect :: u32

definition MEM_COMMIT :: u32 where "MEM_COMMIT = 0x1000"
definition PAGE_NOACCESS :: u32 where "PAGE_NOACCESS = 0x01"
definition PAGE_EXECUTE_READWRITE :: u32 where "PAGE_EXECUTE_READWRITE = 0x40"
definition PAGE_EXECUTE_WRITECOPY :: u32 where "PAGE_EXECUTE_WRITECOPY = 0x80"
definition PAGE_GUARD :: u32 where "PAGE_GUARD = 0x100"

text \<open>
  The answers of the system about one process: whether it can be opened, its image name (empty when the query fails),
  the region at an address, the process snapshot as pairs of process and parent, and creation times.
\<close>

record ProcessView =
  pv_opens :: bool
  pv_image :: string
  pv_query :: "u64 \<Rightarrow> MEMORY_BASIC_INFORMATION option"
  pv_snapshot :: "(u32 \<times> u32) list option"
  pv_times :: "u32 \<Rightarrow> u64 option"

definition creation_time :: "ProcessView \<Rightarrow> u32 \<Rightarrow> u64" where
  "creation_time os pid = (case pv_times os pid of None \<Rightarrow> 0 | Some t \<Rightarrow> t)"

definition parent_pid :: "ProcessView \<Rightarrow> u32 \<Rightarrow> u32 option" where
  "parent_pid os pid = (case pv_snapshot os of None \<Rightarrow> None | Some entries \<Rightarrow> map_of entries pid)"

definition make_observation ::
  "time_point \<Rightarrow> ObservationKind \<Rightarrow> ThreatLevel \<Rightarrow> double \<Rightarrow> u32 \<Rightarrow> string \<Rightarrow> string \<Rightarrow> SecurityObservation" where
  "make_observation now kind level confidence pid img evidence =
     SecurityObservation_default\<lparr>obs_source_id := ''process-behavior'', obs_kind := kind, obs_timestamp := now,
       obs_suggested_level := level, obs_confidence := confidence, obs_deterministic := (kind = PROCESS_LINEAGE),
       obs_process_id := pid, obs_process_name := img, obs_file_path := img, obs_evidence := evidence\<rparr>"

definition hex_digit :: "nat \<Rightarrow> char" where
  "hex_digit d = ''0123456789abcdef'' ! d"

fun hex_string :: "nat \<Rightarrow> string" where
  "hex_string n = (if n < 16 then [hex_digit n] else hex_string (n div 16) @ [hex_digit (n mod 16)])"

declare hex_string.simps [simp del]

definition max_regions :: nat where "max_regions = 4096"

definition writable_executable :: "MEMORY_BASIC_INFORMATION \<Rightarrow> bool" where
  "writable_executable m \<longleftrightarrow> mi_State m = MEM_COMMIT \<and>
     mi_Protect m AND (PAGE_EXECUTE_READWRITE OR PAGE_EXECUTE_WRITECOPY) \<noteq> 0 \<and> mi_Protect m AND (PAGE_GUARD OR PAGE_NOACCESS) = 0"

text \<open>The loop; its first argument is the number of regions that may still be inspected. The result is a base address.\<close>

fun region_walk :: "nat \<Rightarrow> (u64 \<Rightarrow> MEMORY_BASIC_INFORMATION option) \<Rightarrow> u64 \<Rightarrow> u64 option" where
  "region_walk 0 query address = None"
| "region_walk (Suc n) query address =
     (case query address of
        None \<Rightarrow> None
      | Some m \<Rightarrow>
          let next = mi_BaseAddress m + mi_RegionSize m in
          if next \<le> address then None
          else if writable_executable m then Some (mi_BaseAddress m)
          else region_walk n query next)"

definition memory_observations :: "time_point \<Rightarrow> ProcessView \<Rightarrow> u32 \<Rightarrow> SecurityObservation list" where
  "memory_observations now os pid =
     (case region_walk max_regions (pv_query os) 0 of
        None \<Rightarrow> []
      | Some base \<Rightarrow> [make_observation now PROCESS_MEMORY HIGH (fl (65/100)) pid (pv_image os)
          (''Committed executable-writable memory region observed at 0x'' @ hex_string (unat base))])"

definition lineage_observations :: "time_point \<Rightarrow> ProcessView \<Rightarrow> u32 \<Rightarrow> SecurityObservation list" where
  "lineage_observations now os pid =
     (case parent_pid os pid of
        None \<Rightarrow> []
      | Some parent \<Rightarrow>
          if parent \<noteq> 0 \<and> parent \<noteq> pid then
            let child_created = creation_time os pid; parent_created = creation_time os parent in
            if child_created \<noteq> 0 \<and> parent_created \<noteq> 0 \<and> child_created < parent_created
            then [make_observation now PROCESS_LINEAGE LOW (fl (30/100)) pid (pv_image os)
              (''Process parent PID '' @ to_string (unat parent) @ '' was recycled after original parent exited'')]
            else []
          else [])"

definition inspect_pid :: "time_point \<Rightarrow> ProcessView \<Rightarrow> u32 \<Rightarrow> SecurityObservation list" where
  "inspect_pid now os pid = (if \<not> pv_opens os then [] else memory_observations now os pid @ lineage_observations now os pid)"

section \<open>The walk\<close>

text \<open>The regions the system reports from an address on: adjacent, not empty, and nothing behind the last.\<close>

fun os_regions :: "(u64 \<Rightarrow> MEMORY_BASIC_INFORMATION option) \<Rightarrow> u64 \<Rightarrow> MEMORY_BASIC_INFORMATION list \<Rightarrow> bool" where
  "os_regions query a [] \<longleftrightarrow> query a = None"
| "os_regions query a (m # ms) \<longleftrightarrow>
     query a = Some m \<and> mi_BaseAddress m = a \<and> a < a + mi_RegionSize m \<and> os_regions query (a + mi_RegionSize m) ms"

lemma region_walk_find:
  "os_regions query a ms \<Longrightarrow> region_walk n query a = map_option mi_BaseAddress (find writable_executable (take n ms))"
proof (induction ms arbitrary: a n)
  case Nil
  then show ?case by (cases n) simp_all
next
  case (Cons m ms)
  then show ?case by (cases n) (auto simp: Let_def)
qed

text \<open>
  What an inspection of a process that opens reports. Where the system reports at most 4096 adjacent regions, there
  is a memory observation exactly when one of them is committed, accessible, writable and executable, and it names the
  first of these; there is a lineage observation exactly when the parent is another process created later. No other
  observation is made, and all name the process.
\<close>

theorem process_inspection_exact:
  assumes "pv_opens os" "os_regions (pv_query os) 0 ms" "length ms \<le> 4096"
  shows "inspect_pid now os pid =
     (case find writable_executable ms of
        None \<Rightarrow> []
      | Some m \<Rightarrow> [make_observation now PROCESS_MEMORY HIGH (fl (65/100)) pid (pv_image os)
          (''Committed executable-writable memory region observed at 0x'' @ hex_string (unat (mi_BaseAddress m)))]) @
     (if \<exists>parent tc tp. parent_pid os pid = Some parent \<and> parent \<noteq> 0 \<and> parent \<noteq> pid \<and> pv_times os pid = Some tc \<and>
           pv_times os parent = Some tp \<and> 0 < tc \<and> tc < tp
      then [make_observation now PROCESS_LINEAGE LOW (fl (30/100)) pid (pv_image os)
          (''Process parent PID '' @ to_string (unat (the (parent_pid os pid))) @ '' was recycled after original parent exited'')]
      else [])"
proof -
  have "region_walk max_regions (pv_query os) 0 = map_option mi_BaseAddress (find writable_executable ms)"
    using region_walk_find [OF assms(2), of max_regions] assms(3) by (simp add: max_regions_def)
  then have "memory_observations now os pid = (case find writable_executable ms of
        None \<Rightarrow> []
      | Some m \<Rightarrow> [make_observation now PROCESS_MEMORY HIGH (fl (65/100)) pid (pv_image os)
          (''Committed executable-writable memory region observed at 0x'' @ hex_string (unat (mi_BaseAddress m)))])"
    by (simp add: memory_observations_def split: option.split)
  moreover have "lineage_observations now os pid = (if \<exists>parent tc tp. parent_pid os pid = Some parent \<and> parent \<noteq> 0 \<and> parent \<noteq> pid \<and>
        pv_times os pid = Some tc \<and> pv_times os parent = Some tp \<and> 0 < tc \<and> tc < tp
      then [make_observation now PROCESS_LINEAGE LOW (fl (30/100)) pid (pv_image os)
          (''Process parent PID '' @ to_string (unat (the (parent_pid os pid))) @ '' was recycled after original parent exited'')]
      else [])"
    by (auto simp: lineage_observations_def creation_time_def Let_def word_gt_0 split: option.splits)
  ultimately show ?thesis using assms(1) by (simp add: inspect_pid_def)
qed

definition sample_view :: ProcessView where
  "sample_view = \<lparr>pv_opens = True, pv_image = ''a.exe'',
     pv_query = [0 \<mapsto> \<lparr>mi_BaseAddress = 0, mi_RegionSize = 0x1000, mi_State = 0x10000, mi_Protect = 1\<rparr>,
       0x1000 \<mapsto> \<lparr>mi_BaseAddress = 0x1000, mi_RegionSize = 0x2000, mi_State = 0x1000, mi_Protect = 0x40\<rparr>],
     pv_snapshot = Some [(4, 0), (9, 4)], pv_times = [9 \<mapsto> 10, 4 \<mapsto> 20]\<rparr>"

theorem process_inspection_exact_witness:
  "map obs_kind (inspect_pid 5 sample_view 9) = [PROCESS_MEMORY, PROCESS_LINEAGE]"
proof -
  let ?ms = "[\<lparr>mi_BaseAddress = 0, mi_RegionSize = 0x1000, mi_State = 0x10000, mi_Protect = 1\<rparr>,
     \<lparr>mi_BaseAddress = 0x1000, mi_RegionSize = 0x2000, mi_State = 0x1000, mi_Protect = 0x40\<rparr>]"
  have "os_regions (pv_query sample_view) 0 ?ms" by (simp add: sample_view_def)
  from process_inspection_exact [OF _ this, of 5 9] show ?thesis
    by (simp add: sample_view_def parent_pid_def writable_executable_def MEM_COMMIT_def PAGE_NOACCESS_def PAGE_EXECUTE_READWRITE_def
      PAGE_EXECUTE_WRITECOPY_def PAGE_GUARD_def make_observation_def)
qed

text \<open>
  A recycled parent process id, the harmless explanation the observation itself gives, is marked as deterministic
  evidence, and executable memory is not: every observation of an inspection is deterministic exactly when it is about the parent.
\<close>

theorem recycled_parent_is_deterministic:
  "obs \<in> set (inspect_pid now os pid) \<Longrightarrow>
     (obs_kind obs = PROCESS_LINEAGE \<longrightarrow> obs_suggested_level obs = LOW \<and> obs_deterministic obs) \<and>
     (obs_kind obs \<noteq> PROCESS_LINEAGE \<longrightarrow> obs_kind obs = PROCESS_MEMORY \<and> \<not> obs_deterministic obs)"
  by (auto simp: inspect_pid_def memory_observations_def lineage_observations_def make_observation_def Let_def split: option.splits if_splits)

theorem recycled_parent_is_deterministic_witness:
  "\<exists>obs \<in> set (inspect_pid 5 sample_view 9). obs_suggested_level obs = LOW \<and> obs_deterministic obs"
proof -
  let ?obs = "make_observation 5 PROCESS_LINEAGE LOW (fl (30/100)) 9 ''a.exe'' (''Process parent PID '' @ to_string 4 @ '' was recycled after original parent exited'')"
  have "?obs \<in> set (inspect_pid 5 sample_view 9)"
    by (simp add: inspect_pid_def lineage_observations_def sample_view_def parent_pid_def creation_time_def Let_def)
  moreover have "obs_kind ?obs = PROCESS_LINEAGE" by (simp add: make_observation_def)
  ultimately show ?thesis using recycled_parent_is_deterministic by blast
qed

section \<open>A source of observations\<close>

interpretation behavior_source: observation_source "\<lambda>(now, os, pid). map Observation (inspect_pid now os pid)"
  using unit_double_valid [OF unit_double_fl, of "65/100"] unit_double_valid [OF unit_double_fl, of "30/100"]
  by unfold_locales (auto simp: inspect_pid_def memory_observations_def lineage_observations_def make_observation_def
    SecurityObservation_default_def obs_valid_def Let_def split: option.splits if_splits)

end
