(* ===== verification/Artifact_Trust.thy ===== *)
theory Artifact_Trust
  imports Authenticode Pe_Static Engine_Base
begin

text \<open>
  \<^verbatim>\<open>security/artifact_trust_engine.{hpp,cpp}\<close>, the Windows build: the inspection of one file. A broken PE header, high
  entropy of an executable, and an executable in a risky place without a signature that verifies up to a compiled-in
  trust anchor each give an observation. The file is an argument: whether it is regular, its size and its contents. The
  lemmas tie the signature part to the verdict of \<^verbatim>\<open>verify_authenticode\<close> and the header check of the inspected
  prefix to that of the whole file.
\<close>

section \<open>Model\<close>

definition MAX_INSPECTION_BYTES :: nat where "MAX_INSPECTION_BYTES = 4 * 1024 * 1024"
definition MAX_SIGNATURE_CHECK_BYTES :: nat where "MAX_SIGNATURE_CHECK_BYTES = 512 * 1024 * 1024"

definition normalized_path :: "string \<Rightarrow> string" where
  "normalized_path path = map tolower_c (generic_string path)"

text \<open>The file: the answers of \<^verbatim>\<open>is_regular_file\<close> and \<^verbatim>\<open>file_size\<close>, and what opening it gives to read.\<close>

record FileView =
  fv_regular :: bool
  fv_size :: "nat option"
  fv_contents :: "bytes option"

definition shannon_entropy :: "(double \<Rightarrow> double) \<Rightarrow> bytes \<Rightarrow> double" where
  "shannon_entropy lg data =
     (if data = [] then Fin 0
      else foldl (entropy_term lg (length data)) (Fin 0) (map (\<lambda>v. length (filter (\<lambda>b. unat b = v) data)) [0..<256]))"

definition has_valid_offline_signature :: "FileView \<Rightarrow> bool" where
  "has_valid_offline_signature f =
     (case fv_size f of
        None \<Rightarrow> False
      | Some n \<Rightarrow>
          if n = 0 \<or> MAX_SIGNATURE_CHECK_BYTES < n then False
          else (case fv_contents f of
             None \<Rightarrow> False
           | Some c \<Rightarrow>
               let bytes = take n c in
               if length bytes \<noteq> n then False
               else (case extract_authenticode_signature bytes of
                  None \<Rightarrow> False
                | Some pkcs7 \<Rightarrow> ar_verdict (verify_authenticode bytes pkcs7) = TRUSTED)))"

definition looks_like_invalid_pe :: "bytes \<Rightarrow> bool" where
  "looks_like_invalid_pe bytes =
     (if length bytes < 2 \<or> bytes ! 0 \<noteq> 0x4D \<or> bytes ! 1 \<noteq> 0x5A then False
      else if length bytes < 64 then True
      else let pe_offset = unat (read_u32 bytes 60) in
        if length bytes < pe_offset \<or> length bytes - pe_offset < 4 then True
        else bytes ! pe_offset \<noteq> 0x50 \<or> bytes ! (pe_offset + 1) \<noteq> 0x45 \<or> bytes ! (pe_offset + 2) \<noteq> 0 \<or> bytes ! (pe_offset + 3) \<noteq> 0)"

definition is_risky_location :: "string \<Rightarrow> bool" where
  "is_risky_location path =
     (let value = normalized_path path in
      contains_text ''/appdata/local/temp/'' value \<or> contains_text ''/downloads/'' value \<or> starts_with value ''c:/temp/'')"

definition observation_for ::
  "time_point \<Rightarrow> ObservationKind \<Rightarrow> ThreatLevel \<Rightarrow> double \<Rightarrow> string \<Rightarrow> string \<Rightarrow> string \<Rightarrow> SecurityObservation" where
  "observation_for now kind level confidence path hash evidence =
     SecurityObservation_default\<lparr>obs_source_id := ''artifact-trust'', obs_kind := kind, obs_timestamp := now,
       obs_suggested_level := level, obs_confidence := confidence, obs_deterministic := (kind = INVALID_PE),
       obs_file_path := generic_string path, obs_sha256 := hash, obs_evidence := evidence\<rparr>"

definition executable_extensions :: "string list" where
  "executable_extensions = [''.exe'', ''.dll'', ''.sys'']"

definition artifact_inspect :: "(double \<Rightarrow> double) \<Rightarrow> time_point \<Rightarrow> string \<Rightarrow> FileView \<Rightarrow> SecurityObservation list" where
  "artifact_inspect lg now path f =
     (if \<not> fv_regular f then []
      else case fv_size f of
        None \<Rightarrow> []
      | Some file_size \<Rightarrow>
          (case fv_contents f of
             None \<Rightarrow> []
           | Some c \<Rightarrow>
               let bytes = take (min file_size MAX_INSPECTION_BYTES) c; hash = sha256_hash_file (Some c) in
               if looks_like_invalid_pe bytes then
                 [observation_for now INVALID_PE HIGH (fl (95/100)) path hash ''MZ executable has an invalid PE header'']
               else if normalized_path (extension path) \<notin> set executable_extensions then []
               else
                 (if 4096 < length bytes \<and> dlt (fl (78/10)) (shannon_entropy lg bytes) then
                    [observation_for now HIGH_ENTROPY MEDIUM (fl (60/100)) path hash ''Executable inspection bytes have high entropy'']
                  else []) @
                 (if \<not> has_valid_offline_signature f \<and> is_risky_location path then
                    [observation_for now UNSIGNED_RISKY_LOCATION MEDIUM (fl (55/100)) path hash
                       ''Unsigned executable in a risky user-writable location'']
                  else [])))"

section \<open>Properties\<close>

text \<open>A readable regular file of which the size is known.\<close>

definition plain_file :: "bytes \<Rightarrow> FileView" where
  "plain_file c = \<lparr>fv_regular = True, fv_size = Some (length c), fv_contents = Some c\<rparr>"

lemma signature_of_plain_file:
  "has_valid_offline_signature (plain_file c) \<longleftrightarrow> c \<noteq> [] \<and> length c \<le> MAX_SIGNATURE_CHECK_BYTES \<and>
     (\<exists>p7. extract_authenticode_signature c = Some p7 \<and> ar_verdict (verify_authenticode c p7) = TRUSTED)"
  by (auto simp: has_valid_offline_signature_def plain_file_def Let_def split: option.split)

lemma observation_for_fields [simp]:
  "obs_kind (observation_for now k l c p h e) = k" "obs_deterministic (observation_for now k l c p h e) = (k = INVALID_PE)"
  "obs_sha256 (observation_for now k l c p h e) = h" "obs_file_path (observation_for now k l c p h e) = generic_string p"
  by (simp_all add: observation_for_def)

lemma inspect_plain_file:
  "artifact_inspect lg now path (plain_file c) =
    (let bytes = take MAX_INSPECTION_BYTES c; hash = sha256_hash_file (Some c) in
     if looks_like_invalid_pe bytes then
       [observation_for now INVALID_PE HIGH (fl (95/100)) path hash ''MZ executable has an invalid PE header'']
     else if normalized_path (extension path) \<notin> set executable_extensions then []
     else (if 4096 < length bytes \<and> dlt (fl (78/10)) (shannon_entropy lg bytes) then
             [observation_for now HIGH_ENTROPY MEDIUM (fl (60/100)) path hash ''Executable inspection bytes have high entropy''] else []) @
          (if \<not> has_valid_offline_signature (plain_file c) \<and> is_risky_location path then
             [observation_for now UNSIGNED_RISKY_LOCATION MEDIUM (fl (55/100)) path hash
                ''Unsigned executable in a risky user-writable location''] else []))"
  by (simp add: artifact_inspect_def plain_file_def Let_def min.commute take_all_iff [THEN iffD2] flip: take_take)

text \<open>
  What an inspection of a readable file says: an invalid header is reported exactly when the check fails on the inspected
  prefix, and then nothing else is; a missing signature exactly for an executable in a risky place that has no
  certificate table whose signature makes this very image TRUSTED. Every observation carries the path and
  the SHA-256 of the whole file, and only the invalid header counts as deterministic.
\<close>

theorem artifact_inspection:
  "((\<exists>obs \<in> set (artifact_inspect lg now path (plain_file c)). obs_kind obs = INVALID_PE) \<longleftrightarrow>
     looks_like_invalid_pe (take MAX_INSPECTION_BYTES c)) \<and>
   ((\<exists>obs \<in> set (artifact_inspect lg now path (plain_file c)). obs_kind obs = UNSIGNED_RISKY_LOCATION) \<longleftrightarrow>
     \<not> looks_like_invalid_pe (take MAX_INSPECTION_BYTES c) \<and> normalized_path (extension path) \<in> {''.exe'', ''.dll'', ''.sys''} \<and>
     is_risky_location path \<and>
     \<not> (c \<noteq> [] \<and> length c \<le> 512 * 1024 * 1024 \<and>
        (\<exists>p7. extract_authenticode_signature c = Some p7 \<and> ar_verdict (verify_authenticode c p7) = TRUSTED))) \<and>
   (\<forall>obs \<in> set (artifact_inspect lg now path (plain_file c)).
     obs_sha256 obs = sha256_hash_bytes c \<and> obs_file_path obs = generic_string path \<and> (obs_deterministic obs \<longleftrightarrow> obs_kind obs = INVALID_PE))"
proof -
  have sig: "has_valid_offline_signature (plain_file c) \<longleftrightarrow> c \<noteq> [] \<and> length c \<le> 512 * 1024 * 1024 \<and>
      (\<exists>p7. extract_authenticode_signature c = Some p7 \<and> ar_verdict (verify_authenticode c p7) = TRUSTED)"
    by (simp add: signature_of_plain_file MAX_SIGNATURE_CHECK_BYTES_def)
  have hash: "sha256_hash_file (Some c) = sha256_hash_bytes c" by (simp add: sha256_hash_file_def sha256_hash_bytes_def hash_chunks_eq)
  show ?thesis unfolding inspect_plain_file sig [symmetric] hash Let_def executable_extensions_def by auto
qed

theorem artifact_inspection_witness:
  "\<exists>obs \<in> set (artifact_inspect (\<lambda>x. x) 0 ''C:/temp/a.EXE'' (plain_file [1, 2])). obs_kind obs = UNSIGNED_RISKY_LOCATION \<and> \<not> obs_deterministic obs"
proof -
  let ?obs = "set (artifact_inspect (\<lambda>x. x) 0 ''C:/temp/a.EXE'' (plain_file [1, 2]))"
  have "normalized_path (extension ''C:/temp/a.EXE'') = ''.exe''" "is_risky_location ''C:/temp/a.EXE''" by code_simp+
  moreover have "\<not> looks_like_invalid_pe (take MAX_INSPECTION_BYTES [1, 2])" by (simp add: looks_like_invalid_pe_def MAX_INSPECTION_BYTES_def)
  moreover have "extract_authenticode_signature [1, 2] = None" by (simp add: extract_authenticode_signature_def pe_opt_header_def)
  ultimately show ?thesis
    using artifact_inspection [of "\<lambda>x. x" 0 "''C:/temp/a.EXE''" "[1, 2]"] by (metis ObservationKind.distinct(1) insertI1 option.distinct(1))
qed

section \<open>The inspected prefix\<close>

text \<open>
  The header check looks at the first four MiB only: its answer is that for the whole file, except that an image whose
  header lies behind the inspected prefix is reported as invalid whatever the header says.
\<close>

theorem invalid_pe_prefix:
  "looks_like_invalid_pe (take MAX_INSPECTION_BYTES c) \<longleftrightarrow>
     looks_like_invalid_pe c \<or>
     64 \<le> length c \<and> c ! 0 = 0x4D \<and> c ! 1 = 0x5A \<and> MAX_INSPECTION_BYTES < length c \<and> MAX_INSPECTION_BYTES < unat (read_u32 c 60) + 4"
proof (cases "length c \<le> MAX_INSPECTION_BYTES")
  case True
  then show ?thesis by simp
next
  case False
  have "read_u32 (take MAX_INSPECTION_BYTES c) 60 = read_u32 c 60" by (simp add: read_u32_def MAX_INSPECTION_BYTES_def)
  then show ?thesis using False by (auto simp: looks_like_invalid_pe_def MAX_INSPECTION_BYTES_def Let_def)
qed

text \<open>
  The signature check and the header check agree: an image of at most 512 MiB with a TRUSTED signature and its header in
  the first four MiB gives no observation but possibly that of its entropy, wherever it lies.
\<close>

lemma hashed_header_valid:
  assumes "pe_opt_header data = Some h" "length data \<le> MAX_SIGNATURE_CHECK_BYTES"
  shows "\<not> looks_like_invalid_pe data"
proof -
  obtain fh opt soh base where h: "h = (fh, opt, soh, base)" by (cases h) auto
  let ?o = "read_u32 data 0x3C"
  note d = pe_opt_headerD [OF assms(1) [unfolded h]]
  have o: "unat ?o + 4 \<le> length data" using d(3) by (simp add: fits_iff)
  then have "unat (?o + 1) = unat ?o + 1" "unat (?o + 2) = unat ?o + 2" "unat (?o + 3) = unat ?o + 3"
    using assms(2) by (simp_all add: unat_word_ariths MAX_SIGNATURE_CHECK_BYTES_def)
  then show ?thesis using d(1,2,4) o by (simp add: looks_like_invalid_pe_def Let_def)
qed

lemma trusted_image_quiet:
  assumes "has_valid_offline_signature (plain_file c)" "unat (read_u32 c 60) + 4 \<le> MAX_INSPECTION_BYTES"
    "obs \<in> set (artifact_inspect lg now path (plain_file c))"
  shows "obs_kind obs = HIGH_ENTROPY"
proof -
  obtain p7 where p7: "extract_authenticode_signature c = Some p7" and len: "length c \<le> MAX_SIGNATURE_CHECK_BYTES"
    using assms(1) by (auto simp: signature_of_plain_file)
  from p7 obtain h where "pe_opt_header c = Some h" by (auto simp: extract_authenticode_signature_def bind_eq_Some_conv)
  then have "\<not> looks_like_invalid_pe (take MAX_INSPECTION_BYTES c)"
    using hashed_header_valid [OF _ len] assms(2) by (simp add: invalid_pe_prefix)
  then show ?thesis using assms(1,3) by (auto simp: inspect_plain_file Let_def split: if_splits)
qed

section \<open>A source of observations\<close>

lemma artifact_valid: "obs \<in> set (artifact_inspect lg now path f) \<Longrightarrow> obs_valid obs"
  using unit_double_valid [OF unit_double_fl, of "95/100"] unit_double_valid [OF unit_double_fl, of "60/100"]
    unit_double_valid [OF unit_double_fl, of "55/100"]
  by (auto simp: artifact_inspect_def observation_for_def SecurityObservation_default_def obs_valid_def Let_def split: option.splits if_splits)

interpretation artifact_source: observation_source "\<lambda>(lg, now, path, f). map Observation (artifact_inspect lg now path f)"
  by unfold_locales (auto dest: artifact_valid)

end
