(* ===== verification/Device_Control.thy ===== *)
theory Device_Control
  imports Engine_Base
begin

text \<open>
  \<^verbatim>\<open>engines/device_control_engine.{hpp,cpp}\<close>: rules and serial number lists for removable devices, the policy of a
  device, the event log with its violations, and the scan of the drives. The two serial number sets are sets; the map of
  connected devices is an association list. The lemmas give the policy in terms of the calls made so far, what is
  reported for which action, and which devices are connected after a scan.
\<close>

section \<open>Model\<close>

datatype DeviceType = DEV_USB_STORAGE | DEV_USB_HID | DEV_USB_NETWORK | DEV_USB_OTHER | DEV_CDROM | DEV_FLOPPY | DEV_MTP | DEV_BLUETOOTH
datatype DeviceAction = ACT_CONNECTED | ACT_DISCONNECTED | ACT_READ | ACT_WRITE | ACT_EXECUTE | ACT_BLOCKED
datatype DevicePolicy = POL_ALLOW | POL_READ_ONLY | POL_BLOCK | POL_AUDIT

record DeviceInfo =
  dv_device_id :: string
  dv_friendly_name :: string
  dv_vendor_id :: string
  dv_product_id :: string
  dv_serial_number :: string
  dv_type :: DeviceType
  dv_drive_letter :: string

record DeviceEvent =
  de_id :: u64
  de_timestamp :: time_point
  de_device :: DeviceInfo
  de_action :: DeviceAction
  de_file_path :: string
  de_detail :: string
  de_policy_violation :: bool

record DeviceRule =
  dr_rule_id :: string
  dr_vendor_id :: string
  dr_product_id :: string
  dr_serial_number :: string
  dr_device_type :: DeviceType
  dr_policy :: DevicePolicy
  dr_description :: string

definition MAX_DEVICE_EVENTS :: nat where "MAX_DEVICE_EVENTS = 5000"
definition MAX_RULES :: nat where "MAX_RULES = 1000"

record DeviceControlEngine =
  dc_running :: bool
  dc_events_processed :: u64
  dc_threats_detected :: u64
  dc_next_id :: u64
  dc_default_policy :: DevicePolicy
  dc_events :: "DeviceEvent list"
  dc_rules :: "DeviceRule list"
  dc_whitelist :: "string set"
  dc_blacklist :: "string set"
  dc_connected :: "(string \<times> DeviceInfo) list"

definition DeviceControlEngine_new :: DeviceControlEngine where
  "DeviceControlEngine_new = \<lparr>dc_running = False, dc_events_processed = 0, dc_threats_detected = 0, dc_next_id = 1,
     dc_default_policy = POL_AUDIT, dc_events = [], dc_rules = [], dc_whitelist = {}, dc_blacklist = {}, dc_connected = []\<rparr>"

fun device_type_name :: "DeviceType \<Rightarrow> string" where
  "device_type_name DEV_USB_STORAGE = ''USB Storage''"
| "device_type_name DEV_USB_HID = ''USB HID''"
| "device_type_name DEV_USB_NETWORK = ''USB Network''"
| "device_type_name DEV_USB_OTHER = ''USB Other''"
| "device_type_name DEV_CDROM = ''CD-ROM''"
| "device_type_name DEV_FLOPPY = ''Floppy''"
| "device_type_name DEV_MTP = ''MTP''"
| "device_type_name DEV_BLUETOOTH = ''Bluetooth''"

fun device_action_name :: "DeviceAction \<Rightarrow> string" where
  "device_action_name ACT_CONNECTED = ''Connected''"
| "device_action_name ACT_DISCONNECTED = ''Disconnected''"
| "device_action_name ACT_READ = ''Read''"
| "device_action_name ACT_WRITE = ''Write''"
| "device_action_name ACT_EXECUTE = ''Execute''"
| "device_action_name ACT_BLOCKED = ''Blocked''"

fun device_policy_name :: "DevicePolicy \<Rightarrow> string" where
  "device_policy_name POL_ALLOW = ''Allow''"
| "device_policy_name POL_READ_ONLY = ''Read-Only''"
| "device_policy_name POL_BLOCK = ''Block''"
| "device_policy_name POL_AUDIT = ''Audit''"

definition toupper_c :: "char \<Rightarrow> char" where
  "toupper_c c = (if 97 \<le> (of_char c :: nat) \<and> (of_char c :: nat) \<le> 122 then char_of ((of_char c :: nat) - 32) else c)"

definition classify_device :: "string \<Rightarrow> string \<Rightarrow> DeviceType" where
  "classify_device vendor_id product_id =
     (if vendor_id = [] then DEV_USB_OTHER
      else let upper = map toupper_c vendor_id in
        if upper \<in> {''046D'', ''045E'', ''04F2'', ''1532''} then DEV_USB_HID
        else if upper \<in> {''0BDA'', ''148F'', ''0CF3'', ''2357''} then DEV_USB_NETWORK
        else DEV_USB_STORAGE)"

definition device_rule_matches :: "DeviceInfo \<Rightarrow> DeviceRule \<Rightarrow> bool" where
  "device_rule_matches device rule \<longleftrightarrow> dr_device_type rule = dv_type device \<and>
     (dr_vendor_id rule = [] \<or> dr_vendor_id rule = dv_vendor_id device) \<and>
     (dr_product_id rule = [] \<or> dr_product_id rule = dv_product_id device) \<and>
     (dr_serial_number rule = [] \<or> dr_serial_number rule = dv_serial_number device)"

definition evaluate_policy :: "DeviceInfo \<Rightarrow> DeviceControlEngine \<Rightarrow> DevicePolicy" where
  "evaluate_policy device s =
     (if dv_serial_number device \<noteq> [] \<and> dv_serial_number device \<in> dc_blacklist s then POL_BLOCK
      else if dv_serial_number device \<noteq> [] \<and> dv_serial_number device \<in> dc_whitelist s then POL_ALLOW
      else case find (device_rule_matches device) (dc_rules s) of Some rule \<Rightarrow> dr_policy rule | None \<Rightarrow> dc_default_policy s)"

definition device_violation :: "DevicePolicy \<Rightarrow> DeviceAction \<Rightarrow> bool" where
  "device_violation policy action =
     (if policy = POL_BLOCK \<and> action \<noteq> ACT_DISCONNECTED then True
      else if policy = POL_READ_ONLY \<and> (action = ACT_WRITE \<or> action = ACT_EXECUTE) then True else False)"

definition device_threat :: "time_point \<Rightarrow> DeviceInfo \<Rightarrow> DeviceAction \<Rightarrow> DevicePolicy \<Rightarrow> string \<Rightarrow> ThreatEvent" where
  "device_threat now device action policy file_path = ThreatEvent_default\<lparr>
     ev_level := (if policy = POL_BLOCK then HIGH else MEDIUM), ev_category := DEVICE_POLICY,
     ev_description := ''Device policy violation: '' @ device_type_name (dv_type device) @ '' '' @ [CHR 0x27] @ dv_friendly_name device @
       [CHR 0x27] @ '' '' @ device_action_name action @ '' blocked (policy: '' @ device_policy_name policy @ '')'',
     ev_file_path := file_path, ev_timestamp := now\<rparr>"

definition device_observation :: "time_point \<Rightarrow> DeviceInfo \<Rightarrow> DeviceAction \<Rightarrow> string \<Rightarrow> SecurityObservation" where
  "device_observation now device action file_path = SecurityObservation_default\<lparr>
     obs_kind := FILE_INTEGRITY, obs_suggested_level := LOW, obs_confidence := fl (3/10), obs_source_id := ''DeviceControl'',
     obs_evidence := ''Device activity: '' @ device_type_name (dv_type device) @ '' '' @ [CHR 0x27] @ dv_friendly_name device @
       [CHR 0x27] @ '' '' @ device_action_name action,
     obs_file_path := file_path, obs_timestamp := now\<rparr>"

text \<open>Both callbacks are installed by the manager.\<close>

definition report_device_event ::
  "time_point \<Rightarrow> DeviceInfo \<Rightarrow> DeviceAction \<Rightarrow> string \<Rightarrow> DeviceControlEngine \<Rightarrow> DeviceControlEngine \<times> emission list" where
  "report_device_event now device action file_path s =
     (let s1 = s\<lparr>dc_events_processed := dc_events_processed s + 1\<rparr>;
          policy = evaluate_policy device s1;
          violation = device_violation policy action;
          ev = \<lparr>de_id = dc_next_id s1, de_timestamp = now, de_device = device,
            de_action = (if violation then ACT_BLOCKED else action), de_file_path = file_path,
            de_detail = device_type_name (dv_type device) @ '' '' @ device_action_name action @ '' '' @ em_dash @ '' policy: '' @
              device_policy_name policy,
            de_policy_violation = violation\<rparr>;
          s2 = s1\<lparr>dc_next_id := dc_next_id s1 + 1, dc_events := pop_front_to MAX_DEVICE_EVENTS (dc_events s1 @ [ev])\<rparr>;
          s3 = (if action = ACT_CONNECTED then s2\<lparr>dc_connected := AList.update (dv_device_id device) device (dc_connected s2)\<rparr>
                else if action = ACT_DISCONNECTED then s2\<lparr>dc_connected := AList.delete (dv_device_id device) (dc_connected s2)\<rparr>
                else s2)
      in if violation then (s3\<lparr>dc_threats_detected := dc_threats_detected s3 + 1\<rparr>, [Threat (device_threat now device action policy file_path)])
         else if policy = POL_AUDIT then (s3, [Observation (device_observation now device action file_path)])
         else (s3, []))"

definition dc_add_rule :: "DeviceRule \<Rightarrow> DeviceControlEngine \<Rightarrow> DeviceControlEngine" where
  "dc_add_rule rule s = s\<lparr>dc_rules := pop_front_to MAX_RULES (dc_rules s @ [rule])\<rparr>"

definition dc_remove_rule :: "string \<Rightarrow> DeviceControlEngine \<Rightarrow> DeviceControlEngine" where
  "dc_remove_rule rule_id s = s\<lparr>dc_rules := filter (\<lambda>r. dr_rule_id r \<noteq> rule_id) (dc_rules s)\<rparr>"

definition whitelist_device :: "string \<Rightarrow> DeviceControlEngine \<Rightarrow> DeviceControlEngine" where
  "whitelist_device serial s = s\<lparr>dc_blacklist := dc_blacklist s - {serial}, dc_whitelist := insert serial (dc_whitelist s)\<rparr>"

definition blacklist_device :: "string \<Rightarrow> DeviceControlEngine \<Rightarrow> DeviceControlEngine" where
  "blacklist_device serial s = s\<lparr>dc_whitelist := dc_whitelist s - {serial}, dc_blacklist := insert serial (dc_blacklist s)\<rparr>"

definition set_default_policy :: "DevicePolicy \<Rightarrow> DeviceControlEngine \<Rightarrow> DeviceControlEngine" where
  "set_default_policy policy s = s\<lparr>dc_default_policy := policy\<rparr>"

definition dc_recent_events :: "DeviceControlEngine \<Rightarrow> nat \<Rightarrow> DeviceEvent list" where
  "dc_recent_events s n = (let c = min n (length (dc_events s)) in drop (length (dc_events s) - c) (dc_events s))"

definition connected_devices :: "DeviceControlEngine \<Rightarrow> DeviceInfo list" where
  "connected_devices s = map snd (dc_connected s)"

definition dc_start :: "DeviceControlEngine \<Rightarrow> ErrorCode \<times> DeviceControlEngine" where
  "dc_start s = (if dc_running s then (OK, s) else (OK, s\<lparr>dc_running := True\<rparr>))"

definition dc_stop :: "DeviceControlEngine \<Rightarrow> ErrorCode \<times> DeviceControlEngine" where
  "dc_stop s = (if \<not> dc_running s then (OK, s) else (OK, s\<lparr>dc_running := False\<rparr>))"

section \<open>The scan\<close>

text \<open>The drive strings with their types, \<open>None\<close> when the system call fails or the buffer is too small.\<close>

datatype DriveType = DRIVE_REMOVABLE | DRIVE_CDROM | DRIVE_OTHER

definition drive_device :: "string \<Rightarrow> DriveType \<Rightarrow> DeviceInfo" where
  "drive_device p t = \<lparr>dv_device_id = p, dv_friendly_name = (if t = DRIVE_REMOVABLE then ''Removable '' else ''CD-ROM '') @ p,
     dv_vendor_id = [], dv_product_id = [], dv_serial_number = [],
     dv_type = (if t = DRIVE_REMOVABLE then DEV_USB_STORAGE else DEV_CDROM), dv_drive_letter = p\<rparr>"

definition drive_step ::
  "string \<times> DriveType \<Rightarrow> (string set \<times> DeviceInfo list \<times> DeviceControlEngine) \<Rightarrow> string set \<times> DeviceInfo list \<times> DeviceControlEngine" where
  "drive_step d acc = (case d of (p, t) \<Rightarrow> case acc of (ids, fresh, s) \<Rightarrow>
     if t = DRIVE_REMOVABLE \<or> t = DRIVE_CDROM then
       let info = drive_device p t in
       if map_of (dc_connected s) p = None
       then (insert p ids, fresh @ [info], s\<lparr>dc_connected := AList.update p info (dc_connected s)\<rparr>)
       else (insert p ids, fresh, s)
     else acc)"

fun report_all ::
  "time_point \<Rightarrow> DeviceAction \<Rightarrow> DeviceInfo list \<Rightarrow> DeviceControlEngine \<Rightarrow> DeviceControlEngine \<times> emission list" where
  "report_all now action [] s = (s, [])"
| "report_all now action (d # ds) s =
     (case report_device_event now d action [] s of (s1, es) \<Rightarrow> case report_all now action ds s1 of (s2, es') \<Rightarrow> (s2, es @ es'))"

definition scan_connected_devices ::
  "time_point \<Rightarrow> (string \<times> DriveType) list option \<Rightarrow> DeviceControlEngine \<Rightarrow> DeviceControlEngine \<times> emission list" where
  "scan_connected_devices now drives s =
     (case drives of
        None \<Rightarrow> (s, [])
      | Some ds \<Rightarrow>
          (case fold drive_step ds ({}, [], s) of (ids, fresh, s1) \<Rightarrow>
             let gone = map snd (filter (\<lambda>e. fst e \<notin> ids) (dc_connected s1));
                 s2 = s1\<lparr>dc_connected := filter (\<lambda>e. fst e \<in> ids) (dc_connected s1)\<rparr>
             in case report_all now ACT_CONNECTED fresh s2 of (s3, es) \<Rightarrow>
                case report_all now ACT_DISCONNECTED gone s3 of (s4, es') \<Rightarrow> (s4, es @ es')))"

text \<open>One turn of the monitor loop after its sleep.\<close>

definition dc_monitor_round :: "time_point \<Rightarrow> (string \<times> DriveType) list option \<Rightarrow> DeviceControlEngine \<Rightarrow> DeviceControlEngine \<times> emission list" where
  "dc_monitor_round now drives s = (if \<not> dc_running s then (s, []) else scan_connected_devices now drives s)"

section \<open>Runs\<close>

datatype dc_op = DAdd DeviceRule | DRemove string | DWhitelist string | DBlacklist string | DDefault DevicePolicy
  | DReport time_point DeviceInfo DeviceAction string | DMonitor time_point "(string \<times> DriveType) list option" | DStart | DStop

fun dc_exec :: "dc_op \<Rightarrow> DeviceControlEngine \<Rightarrow> DeviceControlEngine" where
  "dc_exec (DAdd r) s = dc_add_rule r s"
| "dc_exec (DRemove i) s = dc_remove_rule i s"
| "dc_exec (DWhitelist n) s = whitelist_device n s"
| "dc_exec (DBlacklist n) s = blacklist_device n s"
| "dc_exec (DDefault p) s = set_default_policy p s"
| "dc_exec (DReport now d a f) s = fst (report_device_event now d a f s)"
| "dc_exec (DMonitor now drives) s = fst (dc_monitor_round now drives s)"
| "dc_exec DStart s = snd (dc_start s)"
| "dc_exec DStop s = snd (dc_stop s)"

text \<open>The last listing of a serial number among the calls: \<open>True\<close> for allowed, \<open>False\<close> for blocked.\<close>

fun listing_step :: "dc_op \<Rightarrow> (string \<rightharpoonup> bool) \<Rightarrow> string \<rightharpoonup> bool" where
  "listing_step (DWhitelist n) m = m(n \<mapsto> True)"
| "listing_step (DBlacklist n) m = m(n \<mapsto> False)"
| "listing_step _ m = m"

definition last_listing :: "dc_op list \<Rightarrow> string \<rightharpoonup> bool" where
  "last_listing ops = fold listing_step ops Map.empty"

lemma report_fields [simp]:
  "dc_whitelist (fst (report_device_event now d a f s)) = dc_whitelist s" "dc_blacklist (fst (report_device_event now d a f s)) = dc_blacklist s"
  "dc_rules (fst (report_device_event now d a f s)) = dc_rules s" "dc_default_policy (fst (report_device_event now d a f s)) = dc_default_policy s"
  "dc_running (fst (report_device_event now d a f s)) = dc_running s"
  by (simp_all add: report_device_event_def Let_def)

lemma report_connected:
  "dc_connected (fst (report_device_event now d a f s)) =
     (if a = ACT_CONNECTED then AList.update (dv_device_id d) d (dc_connected s)
      else if a = ACT_DISCONNECTED then AList.delete (dv_device_id d) (dc_connected s) else dc_connected s)"
  by (simp add: report_device_event_def Let_def)

lemma report_all_fields [simp]:
  "dc_whitelist (fst (report_all now a ds s)) = dc_whitelist s" "dc_blacklist (fst (report_all now a ds s)) = dc_blacklist s"
  "dc_rules (fst (report_all now a ds s)) = dc_rules s" "dc_default_policy (fst (report_all now a ds s)) = dc_default_policy s"
  by (induction ds arbitrary: s) (simp_all add: case_prod_beta)

lemma drive_steps_fields:
  "fold drive_step ds (ids, fresh, s) = (ids', fresh', s') \<Longrightarrow> s' = s\<lparr>dc_connected := dc_connected s'\<rparr>"
proof (induction ds arbitrary: ids fresh s)
  case (Cons d ds)
  obtain i f s1 where 1: "drive_step d (ids, fresh, s) = (i, f, s1)" by (cases "drive_step d (ids, fresh, s)") auto
  have "s1 = s\<lparr>dc_connected := dc_connected s1\<rparr>" using 1 by (auto simp: drive_step_def Let_def split: prod.splits if_splits)
  moreover have "s' = s1\<lparr>dc_connected := dc_connected s'\<rparr>" using Cons.IH Cons.prems 1 by simp
  ultimately show ?case by (metis DeviceControlEngine.surjective DeviceControlEngine.update_convs(10))
qed simp

lemma scan_fields [simp]:
  "dc_whitelist (fst (scan_connected_devices now drives s)) = dc_whitelist s" "dc_blacklist (fst (scan_connected_devices now drives s)) = dc_blacklist s"
proof -
  have "dc_whitelist (fst (scan_connected_devices now drives s)) = dc_whitelist s \<and> dc_blacklist (fst (scan_connected_devices now drives s)) = dc_blacklist s"
  proof (cases drives)
    case (Some ds)
    obtain ids fresh s1 where 1: "fold drive_step ds ({}, [], s) = (ids, fresh, s1)" by (cases "fold drive_step ds ({}, [], s)") auto
    have "dc_whitelist s1 = dc_whitelist s" "dc_blacklist s1 = dc_blacklist s"
      by (metis drive_steps_fields [OF 1] DeviceControlEngine.select_convs DeviceControlEngine.surjective DeviceControlEngine.update_convs(10))+
    then show ?thesis using Some 1 by (simp add: scan_connected_devices_def case_prod_beta Let_def)
  qed (simp add: scan_connected_devices_def)
  then show "dc_whitelist (fst (scan_connected_devices now drives s)) = dc_whitelist s"
    "dc_blacklist (fst (scan_connected_devices now drives s)) = dc_blacklist s" by simp_all
qed

lemma lists_step:
  assumes "dc_whitelist s = {n. m n = Some True}" "dc_blacklist s = {n. m n = Some False}"
  shows "dc_whitelist (dc_exec op s) = {n. listing_step op m n = Some True} \<and> dc_blacklist (dc_exec op s) = {n. listing_step op m n = Some False}"
  using assms by (cases op) (auto simp: dc_add_rule_def dc_remove_rule_def whitelist_device_def blacklist_device_def set_default_policy_def
    dc_monitor_round_def dc_start_def dc_stop_def)

lemma lists_are_last_listing:
  "dc_whitelist (fold dc_exec ops DeviceControlEngine_new) = {n. last_listing ops n = Some True} \<and>
   dc_blacklist (fold dc_exec ops DeviceControlEngine_new) = {n. last_listing ops n = Some False}"
proof -
  have "dc_whitelist s = {n. m n = Some True} \<Longrightarrow> dc_blacklist s = {n. m n = Some False} \<Longrightarrow>
     dc_whitelist (fold dc_exec ops s) = {n. fold listing_step ops m n = Some True} \<and>
     dc_blacklist (fold dc_exec ops s) = {n. fold listing_step ops m n = Some False}" for s m
    by (induction ops arbitrary: s m) (simp_all add: lists_step del: dc_exec.simps)
  then show ?thesis by (simp add: last_listing_def DeviceControlEngine_new_def)
qed

text \<open>
  C31. The policy of a device after any calls, and what reporting an action on it does. A serial number that was listed
  decides by its last listing, blocked or allowed, before any rule; otherwise the first rule that fits decides, or the default
  policy. Reporting raises a threat exactly when a blocked device does anything but disconnect, or a read-only
  one is written or executed from; the log entry then says blocked; an audited device gives an observation.
\<close>

theorem device_decision:
  fixes ops :: "dc_op list"
  assumes "s = fold dc_exec ops DeviceControlEngine_new" "policy = evaluate_policy d s"
    "bad \<longleftrightarrow> policy = POL_BLOCK \<and> a \<noteq> ACT_DISCONNECTED \<or> policy = POL_READ_ONLY \<and> a \<in> {ACT_WRITE, ACT_EXECUTE}"
  shows "policy = (case (if dv_serial_number d = [] then None else last_listing ops (dv_serial_number d)) of
       Some True \<Rightarrow> POL_ALLOW
     | Some False \<Rightarrow> POL_BLOCK
     | None \<Rightarrow> (case find (device_rule_matches d) (dc_rules s) of Some rule \<Rightarrow> dr_policy rule | None \<Rightarrow> dc_default_policy s)) \<and>
    snd (report_device_event now d a f s) =
      (if bad then [Threat (device_threat now d a policy f)]
       else if policy = POL_AUDIT then [Observation (device_observation now d a f)] else []) \<and>
    (\<exists>ev. last (dc_events (fst (report_device_event now d a f s))) = ev \<and> de_device ev = d \<and> de_policy_violation ev = bad \<and>
       de_action ev = (if bad then ACT_BLOCKED else a))"
proof -
  have pol: "evaluate_policy d (s\<lparr>dc_events_processed := n\<rparr>) = policy" for n by (simp add: assms(2) evaluate_policy_def split: option.split)
  have bad: "device_violation policy a = bad" using assms(3) by (auto simp: device_violation_def)
  have "policy = (case (if dv_serial_number d = [] then None else last_listing ops (dv_serial_number d)) of
       Some True \<Rightarrow> POL_ALLOW
     | Some False \<Rightarrow> POL_BLOCK
     | None \<Rightarrow> (case find (device_rule_matches d) (dc_rules s) of Some rule \<Rightarrow> dr_policy rule | None \<Rightarrow> dc_default_policy s))"
    using lists_are_last_listing [of ops] unfolding assms(2) evaluate_policy_def by (auto simp: assms(1) split: option.split bool.split)
  moreover have "last (pop_front_to MAX_DEVICE_EVENTS (es @ [e])) = e" for es and e :: DeviceEvent
    by (simp add: pop_front_to_drop MAX_DEVICE_EVENTS_def)
  then have "snd (report_device_event now d a f s) = (if bad then [Threat (device_threat now d a policy f)]
       else if policy = POL_AUDIT then [Observation (device_observation now d a f)] else []) \<and>
    (\<exists>ev. last (dc_events (fst (report_device_event now d a f s))) = ev \<and> de_device ev = d \<and> de_policy_violation ev = bad \<and>
       de_action ev = (if bad then ACT_BLOCKED else a))"
    using bad by (auto simp: report_device_event_def Let_def pol)
  ultimately show ?thesis by blast
qed

definition sample_usb :: DeviceInfo where
  "sample_usb = \<lparr>dv_device_id = ''d'', dv_friendly_name = ''stick'', dv_vendor_id = [], dv_product_id = [], dv_serial_number = ''77'',
     dv_type = DEV_USB_STORAGE, dv_drive_letter = []\<rparr>"

theorem device_decision_witness:
  "evaluate_policy sample_usb (fold dc_exec [DBlacklist ''77'', DWhitelist ''77'', DBlacklist ''77''] DeviceControlEngine_new) = POL_BLOCK"
proof -
  let ?ops = "[DBlacklist ''77'', DWhitelist ''77'', DBlacklist ''77'']"
  have "last_listing ?ops (dv_serial_number sample_usb) = Some False" by (simp add: last_listing_def sample_usb_def)
  then show ?thesis using conjunct1 [OF device_decision [OF refl refl refl, of sample_usb ?ops]] by (simp add: sample_usb_def)
qed

section \<open>Connected devices\<close>

text \<open>The drives of a scan that are removable or optical.\<close>

definition drive_ids :: "(string \<times> DriveType) list \<Rightarrow> string set" where
  "drive_ids ds = {p. (p, DRIVE_REMOVABLE) \<in> set ds \<or> (p, DRIVE_CDROM) \<in> set ds}"

text \<open>The keys of the map are distinct and are the ids of their devices.\<close>

definition connected_ok :: "(string \<times> DeviceInfo) list \<Rightarrow> bool" where
  "connected_ok m \<longleftrightarrow> distinct (map fst m) \<and> (\<forall>(k, d) \<in> set m. dv_device_id d = k)"

lemma connected_ok_update: "connected_ok m \<Longrightarrow> connected_ok (AList.update (dv_device_id d) d m)"
  using set_AList_update [of "dv_device_id d" d m] by (fastforce simp: connected_ok_def distinct_update)

lemma connected_ok_delete: "connected_ok m \<Longrightarrow> connected_ok (AList.delete k m)"
  using set_AList_delete [of k m] by (fastforce simp: connected_ok_def distinct_delete)

lemma report_all_connected:
  "dc_connected (fst (report_all now ACT_CONNECTED ds s)) = fold (\<lambda>d. AList.update (dv_device_id d) d) ds (dc_connected s)"
  "dc_connected (fst (report_all now ACT_DISCONNECTED ds s)) = fold (\<lambda>d. AList.delete (dv_device_id d)) ds (dc_connected s)"
  by (induction ds arbitrary: s) (simp_all add: case_prod_beta report_connected)

lemma keys_updates: "fst ` set (fold (\<lambda>d. AList.update (dv_device_id d) d) ds m) = fst ` set m \<union> dv_device_id ` set ds"
  by (induction ds arbitrary: m) (auto simp: dom_update)

lemma keys_deletes: "fst ` set (fold (\<lambda>d. AList.delete (dv_device_id d)) ds m) = fst ` set m - dv_device_id ` set ds"
proof (induction ds arbitrary: m)
  case (Cons d ds)
  have "fst ` set (AList.delete k m) = fst ` set m - {k}" for k using delete_keys [of k m] by (metis list.set_map set_removeAll)
  then show ?case using Cons.IH by auto
qed simp

lemma drive_device_id [simp]: "dv_device_id (drive_device p t) = p"
  by (simp add: drive_device_def)

lemma drive_steps:
  assumes "fold drive_step ds (ids, fresh, s) = (ids', fresh', s')" "connected_ok (dc_connected s)" "ids \<subseteq> fst ` set (dc_connected s)"
    "dv_device_id ` set fresh \<subseteq> ids"
  shows "ids' = ids \<union> drive_ids ds \<and> fst ` set (dc_connected s') = fst ` set (dc_connected s) \<union> drive_ids ds \<and> connected_ok (dc_connected s') \<and>
    dv_device_id ` set fresh' \<subseteq> ids'"
  using assms
proof (induction ds arbitrary: ids fresh s)
  case (Cons d ds)
  obtain p t where d: "d = (p, t)" by (cases d)
  have ids: "drive_ids (d # ds) = (if t = DRIVE_REMOVABLE \<or> t = DRIVE_CDROM then insert p (drive_ids ds) else drive_ids ds)"
    by (auto simp: drive_ids_def d)
  obtain i f s1 where 1: "drive_step d (ids, fresh, s) = (i, f, s1)" by (cases "drive_step d (ids, fresh, s)") auto
  have ok: "connected_ok (AList.update p (drive_device p t) (dc_connected s))"
    using connected_ok_update [OF Cons.prems(2), of "drive_device p t"] by simp
  have key: "map_of (dc_connected s) p \<noteq> None \<Longrightarrow> p \<in> fst ` set (dc_connected s)" by (simp add: map_of_eq_None_iff)
  have step: "i = (if t = DRIVE_REMOVABLE \<or> t = DRIVE_CDROM then insert p ids else ids) \<and>
      fst ` set (dc_connected s1) = (if t = DRIVE_REMOVABLE \<or> t = DRIVE_CDROM then insert p (fst ` set (dc_connected s)) else fst ` set (dc_connected s)) \<and>
      connected_ok (dc_connected s1) \<and> dv_device_id ` set f \<subseteq> i"
  proof (cases "(t = DRIVE_REMOVABLE \<or> t = DRIVE_CDROM) \<and> map_of (dc_connected s) p = None")
    case True
    then have "i = insert p ids" "f = fresh @ [drive_device p t]" "dc_connected s1 = AList.update p (drive_device p t) (dc_connected s)"
      using 1 by (auto simp: drive_step_def d Let_def)
    then show ?thesis using True ok Cons.prems(4) dom_update [of p "drive_device p t" "dc_connected s"] by simp blast
  next
    case False
    then have "i = (if t = DRIVE_REMOVABLE \<or> t = DRIVE_CDROM then insert p ids else ids)" "f = fresh" "s1 = s"
      using 1 by (auto simp: drive_step_def d Let_def split: if_splits)
    moreover have "t = DRIVE_REMOVABLE \<or> t = DRIVE_CDROM \<Longrightarrow> insert p (fst ` set (dc_connected s)) = fst ` set (dc_connected s)"
      using False key by (auto simp: insert_absorb)
    ultimately show ?thesis using Cons.prems(2,4) by (auto intro: subset_insertI2)
  qed
  have "i \<subseteq> fst ` set (dc_connected s1)" using step Cons.prems(3) by auto
  then show ?case using step Cons.IH [of i f s1] Cons.prems 1 ids by (auto split: if_splits)
qed (auto simp: drive_ids_def)

lemma connected_ok_folds:
  "connected_ok m \<Longrightarrow> connected_ok (fold (\<lambda>d. AList.update (dv_device_id d) d) ds m)"
  "connected_ok m \<Longrightarrow> connected_ok (fold (\<lambda>d. AList.delete (dv_device_id d)) ds m)"
  by (induction ds arbitrary: m) (simp_all add: connected_ok_update connected_ok_delete)

text \<open>The log after several reports: the new entries behind the old ones, cut to the newest 5000.\<close>

lemma pop_front_again: "pop_front_to n (pop_front_to n xs @ ys) = pop_front_to n (xs @ ys)"
proof (cases "n \<le> length xs")
  case True
  then show ?thesis by (simp add: pop_front_to_drop drop_append add.commute)
qed (simp add: pop_front_to_drop)

lemma report_event:
  "\<exists>ev. dc_events (fst (report_device_event now d a f s)) = pop_front_to MAX_DEVICE_EVENTS (dc_events s @ [ev]) \<and> de_device ev = d \<and>
     (a = ACT_DISCONNECTED \<longrightarrow> de_action ev = ACT_DISCONNECTED)"
proof -
  let ?p = "evaluate_policy d (s\<lparr>dc_events_processed := dc_events_processed s + 1\<rparr>)"
  let ?ev = "\<lparr>de_id = dc_next_id s, de_timestamp = now, de_device = d, de_action = (if device_violation ?p a then ACT_BLOCKED else a),
    de_file_path = f, de_detail = device_type_name (dv_type d) @ '' '' @ device_action_name a @ '' '' @ em_dash @ '' policy: '' @ device_policy_name ?p,
    de_policy_violation = device_violation ?p a\<rparr>"
  have "dc_events (fst (report_device_event now d a f s)) = pop_front_to MAX_DEVICE_EVENTS (dc_events s @ [?ev])"
    by (simp add: report_device_event_def Let_def)
  moreover have "\<not> device_violation ?p ACT_DISCONNECTED" by (simp add: device_violation_def)
  ultimately show ?thesis by (intro exI [of _ ?ev]) auto
qed

lemma report_all_events:
  "\<exists>evs. dc_events (fst (report_all now a ds s)) = (if ds = [] then dc_events s else pop_front_to MAX_DEVICE_EVENTS (dc_events s @ evs)) \<and>
     map de_device evs = ds \<and> (a = ACT_DISCONNECTED \<longrightarrow> (\<forall>ev \<in> set evs. de_action ev = ACT_DISCONNECTED))"
proof (induction ds arbitrary: s)
  case (Cons d ds)
  let ?s1 = "fst (report_device_event now d a [] s)"
  obtain ev where ev: "dc_events ?s1 = pop_front_to MAX_DEVICE_EVENTS (dc_events s @ [ev])" "de_device ev = d"
    "a = ACT_DISCONNECTED \<longrightarrow> de_action ev = ACT_DISCONNECTED"
    using report_event by blast
  obtain evs where evs: "dc_events (fst (report_all now a ds ?s1)) =
      (if ds = [] then dc_events ?s1 else pop_front_to MAX_DEVICE_EVENTS (dc_events ?s1 @ evs))" "map de_device evs = ds"
    "a = ACT_DISCONNECTED \<longrightarrow> (\<forall>ev \<in> set evs. de_action ev = ACT_DISCONNECTED)" using Cons.IH by blast
  then show ?case using ev by (intro exI [of _ "ev # evs"]) (auto simp: case_prod_beta pop_front_again)
qed simp

lemma scan_outcome:
  assumes "connected_ok (dc_connected s)"
  shows "fst ` set (dc_connected (fst (scan_connected_devices now (Some ds) s))) = drive_ids ds"
    "connected_ok (dc_connected (fst (scan_connected_devices now (Some ds) s)))"
proof -
  obtain ids fresh s1 where 1: "fold drive_step ds ({}, [], s) = (ids, fresh, s1)" by (cases "fold drive_step ds ({}, [], s)") auto
  have st: "ids = drive_ids ds" "fst ` set (dc_connected s1) = fst ` set (dc_connected s) \<union> ids" "connected_ok (dc_connected s1)"
    "dv_device_id ` set fresh \<subseteq> ids" using drive_steps [OF 1] assms by auto
  let ?gone = "map snd (filter (\<lambda>e. fst e \<notin> ids) (dc_connected s1))" and ?kept = "filter (\<lambda>e. fst e \<in> ids) (dc_connected s1)"
  let ?m = "fold (\<lambda>d. AList.delete (dv_device_id d)) ?gone (fold (\<lambda>d. AList.update (dv_device_id d) d) fresh ?kept)"
  have m: "dc_connected (fst (scan_connected_devices now (Some ds) s)) = ?m"
    by (simp add: scan_connected_devices_def 1 case_prod_beta Let_def report_all_connected)
  have "dv_device_id ` set ?gone \<inter> ids = {}" using st(3) by (fastforce simp: connected_ok_def)
  moreover have "fst ` set ?kept = ids" using st(2) by force
  ultimately have "fst ` set ?m = ids" unfolding keys_deletes keys_updates using st(4) by blast
  moreover have "connected_ok ?kept" using st(3) by (auto simp: connected_ok_def distinct_map_filter)
  ultimately show "fst ` set (dc_connected (fst (scan_connected_devices now (Some ds) s))) = drive_ids ds"
    "connected_ok (dc_connected (fst (scan_connected_devices now (Some ds) s)))"
    unfolding m using st(1) connected_ok_folds by blast+
qed

lemma connected_ok_exec: "connected_ok (dc_connected s) \<Longrightarrow> connected_ok (dc_connected (dc_exec op s))"
proof (cases op)
  case (DMonitor now drives)
  then show "connected_ok (dc_connected s) \<Longrightarrow> ?thesis"
    using scan_outcome(2) by (cases drives) (auto simp: dc_monitor_round_def scan_connected_devices_def)
qed (auto simp: dc_add_rule_def dc_remove_rule_def whitelist_device_def blacklist_device_def set_default_policy_def
  dc_start_def dc_stop_def report_connected connected_ok_update connected_ok_delete)

lemma connected_ok_run: "connected_ok (dc_connected (fold dc_exec ops DeviceControlEngine_new))"
proof -
  have "connected_ok (dc_connected s) \<Longrightarrow> connected_ok (dc_connected (fold dc_exec ops s))" for s
    by (induction ops arbitrary: s) (simp_all add: connected_ok_exec del: dc_exec.simps)
  moreover have "connected_ok (dc_connected DeviceControlEngine_new)" by (simp add: connected_ok_def DeviceControlEngine_new_def)
  ultimately show ?thesis .
qed

lemma drive_steps_keep:
  "fold drive_step ds (ids, fresh, s) = (ids', fresh', s') \<Longrightarrow>
    (i \<notin> drive_ids ds \<longrightarrow> map_of (dc_connected s') i = map_of (dc_connected s) i) \<and> length (dc_connected s') \<le> length (dc_connected s) + length ds"
proof (induction ds arbitrary: ids fresh s)
  case (Cons d ds)
  obtain p t where d: "d = (p, t)" by (cases d)
  obtain j f s1 where 1: "drive_step d (ids, fresh, s) = (j, f, s1)" by (cases "drive_step d (ids, fresh, s)") auto
  have "(i \<notin> drive_ids (d # ds) \<longrightarrow> map_of (dc_connected s1) i = map_of (dc_connected s) i) \<and> length (dc_connected s1) \<le> length (dc_connected s) + 1"
    using 1 by (auto simp: drive_step_def d drive_ids_def Let_def update_conv' length_AList_update split: if_splits)
  moreover have "i \<notin> drive_ids (d # ds) \<Longrightarrow> i \<notin> drive_ids ds" by (auto simp: drive_ids_def)
  ultimately show ?case using Cons.IH [of j f s1] Cons.prems 1 by auto
qed simp

lemma scan_logs_gone:
  assumes "map_of (dc_connected s) i = Some d" "i \<notin> drive_ids ds" "connected_ok (dc_connected s)"
    "length (dc_connected s) + length ds \<le> MAX_DEVICE_EVENTS"
  shows "\<exists>ev \<in> set (dc_events (fst (scan_connected_devices now (Some ds) s))). de_device ev = d \<and> de_action ev = ACT_DISCONNECTED"
proof -
  obtain ids fresh s1 where 1: "fold drive_step ds ({}, [], s) = (ids, fresh, s1)" by (cases "fold drive_step ds ({}, [], s)") auto
  have ids: "ids = drive_ids ds" using drive_steps [OF 1] assms(3) by simp
  let ?gone = "map snd (filter (\<lambda>e. fst e \<notin> ids) (dc_connected s1))" and ?kept = "filter (\<lambda>e. fst e \<in> ids) (dc_connected s1)"
  let ?s3 = "fst (report_all now ACT_CONNECTED fresh (s1\<lparr>dc_connected := ?kept\<rparr>))"
  have k: "map_of (dc_connected s1) i = Some d" "length (dc_connected s1) \<le> MAX_DEVICE_EVENTS"
    using drive_steps_keep [OF 1, of i] assms by auto
  have d: "d \<in> set ?gone" using map_of_SomeD [OF k(1)] assms(2) ids by force
  have len: "length ?gone \<le> MAX_DEVICE_EVENTS" using k(2) length_filter_le by (simp, meson order.trans)
  obtain evs where evs: "dc_events (fst (report_all now ACT_DISCONNECTED ?gone ?s3)) =
      (if ?gone = [] then dc_events ?s3 else pop_front_to MAX_DEVICE_EVENTS (dc_events ?s3 @ evs))" "map de_device evs = ?gone"
    "\<forall>ev \<in> set evs. de_action ev = ACT_DISCONNECTED" using report_all_events [of now ACT_DISCONNECTED ?gone ?s3] by blast
  have "length evs = length ?gone" using evs(2) by (metis length_map)
  then have "set evs \<subseteq> set (pop_front_to MAX_DEVICE_EVENTS (dc_events ?s3 @ evs))" using len by (simp add: pop_front_to_drop)
  moreover have "d \<in> de_device ` set evs" using d evs(2) by (metis list.set_map)
  moreover have "?gone \<noteq> []" using d by (metis empty_iff empty_set)
  ultimately show ?thesis using evs(1,3) by (auto simp: scan_connected_devices_def 1 case_prod_beta Let_def)
qed

text \<open>
  After any calls, a scan that gets the drives makes the connected devices exactly the removable and optical drives the
  system lists, each once and under its own id. So every device that was reported as connected under an id that is no such
  drive, an input device or a network adapter, is dropped by the next scan, and the log says that it was disconnected.
\<close>

theorem scan_keeps_only_drives:
  assumes "s = fold dc_exec ops DeviceControlEngine_new" "s' = fst (scan_connected_devices now (Some ds) s)"
    "length (dc_connected s) + length ds \<le> 5000"
  shows "fst ` set (dc_connected s') = drive_ids ds \<and> connected_ok (dc_connected s') \<and>
    (map_of (dc_connected s) i = Some d \<and> i \<notin> drive_ids ds \<longrightarrow>
      map_of (dc_connected s') i = None \<and> (\<exists>ev \<in> set (dc_events s'). de_device ev = d \<and> de_action ev = ACT_DISCONNECTED))"
proof -
  have ok: "connected_ok (dc_connected s)" using connected_ok_run assms(1) by simp
  show ?thesis using scan_outcome [OF ok, of now ds] scan_logs_gone [OF _ _ ok] assms(2,3) by (auto simp: map_of_eq_None_iff MAX_DEVICE_EVENTS_def)
qed

definition sample_mouse :: DeviceInfo where
  "sample_mouse = sample_usb\<lparr>dv_device_id := ''mouse'', dv_type := DEV_USB_HID\<rparr>"

theorem scan_keeps_only_drives_witness:
  "map_of (dc_connected (fst (scan_connected_devices 9 (Some [(''E:'', DRIVE_REMOVABLE)])
      (fold dc_exec [DReport 1 sample_mouse ACT_CONNECTED []] DeviceControlEngine_new)))) ''mouse'' = None"
proof -
  let ?s = "fold dc_exec [DReport 1 sample_mouse ACT_CONNECTED []] DeviceControlEngine_new"
  have "dc_connected ?s = [(''mouse'', sample_mouse)]" by (simp add: report_connected DeviceControlEngine_new_def sample_mouse_def)
  then show ?thesis
    using scan_keeps_only_drives [where ops = "[DReport 1 sample_mouse ACT_CONNECTED []]" and s = ?s and now = 9 and
      ds = "[(''E:'', DRIVE_REMOVABLE)]" and i = "''mouse''" and d = sample_mouse, OF refl refl]
    by (simp add: drive_ids_def del: fold_simps)
qed

section \<open>A source of observations\<close>

lemma report_valid: "Observation obs \<in> set (snd (report_device_event now d a f s)) \<Longrightarrow> obs_valid obs"
  using unit_double_valid [OF unit_double_fl, of "3/10"]
  by (auto simp: report_device_event_def device_observation_def SecurityObservation_default_def obs_valid_def Let_def split: if_splits)

lemma report_all_valid: "Observation obs \<in> set (snd (report_all now a ds s)) \<Longrightarrow> obs_valid obs"
  by (induction ds arbitrary: s) (auto simp: case_prod_beta dest: report_valid)

interpretation device_source: observation_source "\<lambda>(now, drives, s). snd (dc_monitor_round now drives s)"
  by unfold_locales (auto simp: dc_monitor_round_def scan_connected_devices_def case_prod_beta Let_def dest: report_all_valid split: if_splits option.splits)

end
