(* ===== verification/Ransomware_Shield.thy ===== *)
theory Ransomware_Shield
  imports Engine_Base Sha2
begin

text \<open>
  \<^verbatim>\<open>engines/ransomware_shield_engine.{hpp,cpp}\<close>: per-process indicators from file operations, the risk score in
  double arithmetic, shadow copy deletions, honeyfiles, and the burst analysis of the monitor loop. The indicator map and
  the burst counts are association lists; the file system is an argument of the honeyfile operations. The lemmas bound
  the score, say which activity is needed for a ransomware verdict, and when a honeyfile is triggered.
\<close>

section \<open>Model\<close>

datatype FileIOType = IO_WRITE | IO_RENAME | IO_DELETE | IO_CREATE

record FileIOEvent =
  io_id :: u64
  io_timestamp :: time_point
  io_type :: FileIOType
  io_process_id :: u32
  io_process_name :: string
  io_file_path :: string
  io_new_path :: string
  io_bytes_written :: u64
  io_entropy :: double

record RansomwareIndicator =
  ri_id :: u64
  ri_process_name :: string
  ri_process_id :: u32
  ri_files_modified :: nat
  ri_files_renamed :: nat
  ri_ransomware_ext_renames :: nat
  ri_files_deleted :: nat
  ri_avg_entropy :: double
  ri_shadow_copy_delete :: bool
  ri_honeyfile_triggered :: bool
  ri_risk_score :: double
  ri_first_seen :: time_point
  ri_last_seen :: time_point

record HoneyFile =
  hf_path :: string
  hf_sha256 :: string
  hf_triggered :: bool

definition BURST_THRESHOLD :: nat where "BURST_THRESHOLD = 10"
definition BURST_WINDOW_SECONDS :: int where "BURST_WINDOW_SECONDS = 5"
definition HIGH_ENTROPY_THRESHOLD :: double where "HIGH_ENTROPY_THRESHOLD = fl 7"
definition RISK_THRESHOLD_SUSPICIOUS :: double where "RISK_THRESHOLD_SUSPICIOUS = fl (40/100)"
definition RISK_THRESHOLD_MALICIOUS :: double where "RISK_THRESHOLD_MALICIOUS = fl (75/100)"
definition MAX_IO_EVENTS :: nat where "MAX_IO_EVENTS = 5000"

record RansomwareShield =
  rs_running :: bool
  rs_events_processed :: u64
  rs_threats_detected :: u64
  rs_next_id :: u64
  rs_next_indicator_id :: u64
  rs_io_events :: "FileIOEvent list"
  rs_indicators :: "(u32 \<times> RansomwareIndicator) list"
  rs_honeyfiles :: "HoneyFile list"

definition RansomwareShield_new :: RansomwareShield where
  "RansomwareShield_new = \<lparr>rs_running = False, rs_events_processed = 0, rs_threats_detected = 0, rs_next_id = 1,
     rs_next_indicator_id = 1, rs_io_events = [], rs_indicators = [], rs_honeyfiles = []\<rparr>"

definition RansomwareIndicator_default :: RansomwareIndicator where
  "RansomwareIndicator_default = \<lparr>ri_id = 0, ri_process_name = [], ri_process_id = 0, ri_files_modified = 0, ri_files_renamed = 0,
     ri_ransomware_ext_renames = 0, ri_files_deleted = 0, ri_avg_entropy = Fin (- 1), ri_shadow_copy_delete = False,
     ri_honeyfile_triggered = False, ri_risk_score = Fin 0, ri_first_seen = 0, ri_last_seen = 0\<rparr>"

definition known_ransomware_extensions :: "string list" where
  "known_ransomware_extensions = [''.encrypted'', ''.locked'', ''.crypt'', ''.crypto'', ''.enc'', ''.locky'', ''.zepto'', ''.cerber'',
     ''.cerber3'', ''.wallet'', ''.onion'', ''.zzzzz'', ''.micro'', ''.xxx'', ''.ttt'', ''.aaa'', ''.abc'', ''.xyz'', ''.ecc'', ''.ezz'',
     ''.vvv'', ''.exx'', ''.wncry'', ''.wncryt'', ''.wcry'', ''.crinf'', ''.r5a'', ''.xrnt'', ''.xtbl'', ''.crypt1'', ''.da_vinci_code'',
     ''.no_more_ransom'', ''.cryptolocker'', ''.petya'', ''.gandcrab'', ''.hermes'', ''.ryuk'']"

definition is_ransomware_extension :: "string \<Rightarrow> bool" where
  "is_ransomware_extension ext = (if ext = [] then False else map tolower_c ext \<in> set known_ransomware_extensions)"

definition add_tier :: "(bool \<times> rat) list \<Rightarrow> double \<Rightarrow> double" where
  "add_tier tiers score = (case find fst tiers of Some (b, w) \<Rightarrow> dadd score (fl w) | None \<Rightarrow> score)"

text \<open>\<^verbatim>\<open>std::clamp\<close>; each \<^verbatim>\<open>if\<close>/\<^verbatim>\<open>else if\<close> chain adds the weight of its first condition that holds.\<close>

definition dclamp :: "double \<Rightarrow> double \<Rightarrow> double \<Rightarrow> double" where
  "dclamp v lo hi = (if dlt v lo then lo else if dlt hi v then hi else v)"

definition raw_score :: "RansomwareIndicator \<Rightarrow> double" where
  "raw_score ind =
     (let s0 = add_tier [(ri_shadow_copy_delete ind, 35/100)] (Fin 0);
          s1 = add_tier [(ri_honeyfile_triggered ind, 30/100)] s0;
          s2 = add_tier [(50 \<le> ri_files_modified ind, 20/100), (20 \<le> ri_files_modified ind, 12/100), (5 \<le> ri_files_modified ind, 5/100)] s1;
          s3 = add_tier [(20 \<le> ri_files_renamed ind, 15/100), (5 \<le> ri_files_renamed ind, 8/100)] s2;
          s4 = add_tier [(3 \<le> ri_ransomware_ext_renames ind, 15/100), (1 \<le> ri_ransomware_ext_renames ind, 10/100)] s3;
          s5 = add_tier [(10 \<le> ri_files_deleted ind, 10/100), (3 \<le> ri_files_deleted ind, 5/100)] s4
      in add_tier [(dle HIGH_ENTROPY_THRESHOLD (ri_avg_entropy ind), 15/100), (dle (fl (65/10)) (ri_avg_entropy ind), 8/100)] s5)"

definition score_indicator :: "RansomwareIndicator \<Rightarrow> double" where
  "score_indicator ind = dclamp (raw_score ind) (Fin 0) (Fin 1)"

text \<open>The entry of the process, created on its first event; an entry with id 0 is initialised.\<close>

definition indicator_of :: "u32 \<Rightarrow> string \<Rightarrow> time_point \<Rightarrow> RansomwareShield \<Rightarrow> RansomwareIndicator \<times> RansomwareShield" where
  "indicator_of pid name first s =
     (let ind = (case map_of (rs_indicators s) pid of Some i \<Rightarrow> i | None \<Rightarrow> RansomwareIndicator_default) in
      if ri_id ind = 0 then
        (ind\<lparr>ri_id := rs_next_indicator_id s, ri_process_id := pid, ri_process_name := name, ri_first_seen := first\<rparr>,
         s\<lparr>rs_next_indicator_id := rs_next_indicator_id s + 1\<rparr>)
      else (ind, s))"

definition count_io :: "FileIOEvent \<Rightarrow> RansomwareIndicator \<Rightarrow> RansomwareIndicator" where
  "count_io ev ind =
     (case io_type ev of
        IO_RENAME \<Rightarrow>
          let ind1 = ind\<lparr>ri_files_renamed := ri_files_renamed ind + 1\<rparr> in
          if is_ransomware_extension (extension (io_new_path ev))
          then ind1\<lparr>ri_ransomware_ext_renames := ri_ransomware_ext_renames ind1 + 1\<rparr> else ind1
      | IO_DELETE \<Rightarrow> ind\<lparr>ri_files_deleted := ri_files_deleted ind + 1\<rparr>
      | _ \<Rightarrow>
          let ind1 = ind\<lparr>ri_files_modified := ri_files_modified ind + 1\<rparr> in
          if dlt (ri_avg_entropy ind1) (Fin 0) then ind1\<lparr>ri_avg_entropy := io_entropy ev\<rparr>
          else ind1\<lparr>ri_avg_entropy := dadd (dmul (ri_avg_entropy ind1) (fl (9/10))) (dmul (io_entropy ev) (fl (1/10)))\<rparr>)"

text \<open>\<^verbatim>\<open>static_cast<int>\<close> of a score times 100 truncates.\<close>

fun truncated :: "double \<Rightarrow> int" where
  "truncated (Fin x) = (if 0 \<le> x then \<lfloor>x\<rfloor> else \<lceil>x\<rceil>)"
| "truncated _ = 0"

definition ransomware_threat :: "time_point \<Rightarrow> FileIOEvent \<Rightarrow> RansomwareIndicator \<Rightarrow> ThreatEvent" where
  "ransomware_threat now ev ind = ThreatEvent_default\<lparr>ev_level := CRITICAL, ev_category := RANSOMWARE, ev_process_id := io_process_id ev,
     ev_process_name := io_process_name ev, ev_file_path := io_file_path ev,
     ev_description := ''Ransomware behavior detected: '' @ io_process_name ev @ '' (PID '' @ to_string (unat (io_process_id ev)) @ '') '' @ em_dash @
       '' '' @ to_string (ri_files_modified ind) @ '' files modified, '' @ to_string (ri_files_renamed ind) @ '' renamed, risk='' @
       to_string (nat (truncated (dmul (ri_risk_score ind) (fl 100)))) @ ''%'',
     ev_timestamp := now\<rparr>"

definition ransomware_observation :: "time_point \<Rightarrow> FileIOEvent \<Rightarrow> RansomwareIndicator \<Rightarrow> SecurityObservation" where
  "ransomware_observation now ev ind = SecurityObservation_default\<lparr>obs_kind := FILE_INTEGRITY, obs_suggested_level := MEDIUM,
     obs_confidence := ri_risk_score ind, obs_source_id := ''RansomwareShield'', obs_process_id := io_process_id ev,
     obs_process_name := io_process_name ev, obs_file_path := io_file_path ev,
     obs_evidence := ''Suspicious file activity: '' @ io_process_name ev @ '' '' @ em_dash @ '' '' @ to_string (ri_files_modified ind) @ '' modifications'',
     obs_timestamp := now\<rparr>"

definition ingest_file_io :: "time_point \<Rightarrow> FileIOEvent \<Rightarrow> RansomwareShield \<Rightarrow> RansomwareShield \<times> emission list" where
  "ingest_file_io now ev s =
     (let s1 = s\<lparr>rs_events_processed := rs_events_processed s + 1, rs_next_id := rs_next_id s + 1,
            rs_io_events := pop_front_to MAX_IO_EVENTS (rs_io_events s @ [ev\<lparr>io_id := rs_next_id s\<rparr>])\<rparr>;
          (ind0, s2) = indicator_of (io_process_id ev) (io_process_name ev) (io_timestamp ev) s1;
          ind1 = count_io ev (ind0\<lparr>ri_last_seen := io_timestamp ev\<rparr>);
          ind = ind1\<lparr>ri_risk_score := score_indicator ind1\<rparr>;
          s3 = s2\<lparr>rs_indicators := AList.update (io_process_id ev) ind (rs_indicators s2)\<rparr>
      in if dle RISK_THRESHOLD_MALICIOUS (ri_risk_score ind)
         then (s3\<lparr>rs_threats_detected := rs_threats_detected s3 + 1\<rparr>, [Threat (ransomware_threat now ev ind)])
         else if dle RISK_THRESHOLD_SUSPICIOUS (ri_risk_score ind) then (s3, [Observation (ransomware_observation now ev ind)])
         else (s3, []))"

definition report_shadow_copy_delete :: "time_point \<Rightarrow> u32 \<Rightarrow> string \<Rightarrow> RansomwareShield \<Rightarrow> RansomwareShield \<times> emission list" where
  "report_shadow_copy_delete now pid name s =
     (let s1 = s\<lparr>rs_events_processed := rs_events_processed s + 1, rs_threats_detected := rs_threats_detected s + 1\<rparr>;
          (ind0, s2) = indicator_of pid name now s1;
          ind1 = ind0\<lparr>ri_shadow_copy_delete := True, ri_last_seen := now\<rparr>;
          ind = ind1\<lparr>ri_risk_score := score_indicator ind1\<rparr>
      in (s2\<lparr>rs_indicators := AList.update pid ind (rs_indicators s2)\<rparr>,
          [Threat (ThreatEvent_default\<lparr>ev_level := CRITICAL, ev_category := RANSOMWARE, ev_process_id := pid, ev_process_name := name,
             ev_description := ''Shadow copy deletion detected by '' @ name @ '' (PID '' @ to_string (unat pid) @ '')'', ev_timestamp := now\<rparr>)]))"

section \<open>Honeyfiles\<close>

text \<open>A file that is not there, is there but cannot be read, or has contents.\<close>

datatype file_state = Missing | Unreadable | Content bytes

definition file_sha256 :: "bytes \<Rightarrow> string" where
  "file_sha256 buf = sha_hex (sha256_finalize (sha256_update sha256_reset buf))"

definition add_honeyfile :: "(string \<Rightarrow> file_state) \<Rightarrow> string \<Rightarrow> RansomwareShield \<Rightarrow> RansomwareShield" where
  "add_honeyfile fs path s =
     s\<lparr>rs_honeyfiles := rs_honeyfiles s @ [\<lparr>hf_path = path,
       hf_sha256 = (case fs path of Content buf \<Rightarrow> file_sha256 buf | _ \<Rightarrow> []), hf_triggered = False\<rparr>]\<rparr>"

definition honeyfile_threat :: "time_point \<Rightarrow> string \<Rightarrow> string \<Rightarrow> ThreatEvent" where
  "honeyfile_threat now what path = ThreatEvent_default\<lparr>ev_level := CRITICAL, ev_category := RANSOMWARE, ev_file_path := path,
     ev_description := what @ path, ev_timestamp := now\<rparr>"

definition check_honeyfile :: "(string \<Rightarrow> file_state) \<Rightarrow> time_point \<Rightarrow> HoneyFile \<Rightarrow> HoneyFile \<times> emission list" where
  "check_honeyfile fs now hf =
     (if hf_triggered hf then (hf, [])
      else case fs (hf_path hf) of
        Missing \<Rightarrow> (hf\<lparr>hf_triggered := True\<rparr>, [Threat (honeyfile_threat now ''Honeyfile deleted: '' (hf_path hf))])
      | Unreadable \<Rightarrow> (hf, [])
      | Content buf \<Rightarrow>
          if hf_sha256 hf = [] then (hf, [])
          else if file_sha256 buf \<noteq> hf_sha256 hf
          then (hf\<lparr>hf_triggered := True\<rparr>, [Threat (honeyfile_threat now ''Honeyfile tampered: '' (hf_path hf))])
          else (hf, []))"

definition check_honeyfiles :: "(string \<Rightarrow> file_state) \<Rightarrow> time_point \<Rightarrow> RansomwareShield \<Rightarrow> RansomwareShield \<times> emission list" where
  "check_honeyfiles fs now s =
     (let rs = map (check_honeyfile fs now) (rs_honeyfiles s); es = concat (map snd rs) in
      (s\<lparr>rs_events_processed := rs_events_processed s + 1, rs_honeyfiles := map fst rs,
         rs_threats_detected := rs_threats_detected s + of_nat (length es)\<rparr>, es))"

section \<open>Bursts\<close>

definition bump_pid :: "u32 \<Rightarrow> (u32 \<times> nat) list \<Rightarrow> (u32 \<times> nat) list" where
  "bump_pid pid m = AList.update pid ((case map_of m pid of None \<Rightarrow> 0 | Some n \<Rightarrow> n) + 1) m"

definition burst_counts :: "time_point \<Rightarrow> FileIOEvent list \<Rightarrow> (u32 \<times> nat) list" where
  "burst_counts now evs = fold (\<lambda>ev. bump_pid (io_process_id ev))
     (takeWhile (\<lambda>ev. \<not> io_timestamp ev < now - seconds BURST_WINDOW_SECONDS) (rev evs)) []"

definition burst_threat :: "time_point \<Rightarrow> RansomwareShield \<Rightarrow> u32 \<times> nat \<Rightarrow> ThreatEvent option" where
  "burst_threat now s pc = (case pc of (pid, c) \<Rightarrow>
     if c < BURST_THRESHOLD then None
     else case map_of (rs_indicators s) pid of
       None \<Rightarrow> None
     | Some ind \<Rightarrow>
         if dlt (ri_risk_score ind) RISK_THRESHOLD_SUSPICIOUS then None
         else Some (ThreatEvent_default\<lparr>ev_level := HIGH, ev_category := FILE_ENCRYPT, ev_process_id := pid,
           ev_process_name := ri_process_name ind,
           ev_description := ''File I/O burst: '' @ ri_process_name ind @ '' '' @ em_dash @ '' '' @ to_string c @ '' operations in '' @
             to_string (nat BURST_WINDOW_SECONDS) @ ''s window'',
           ev_timestamp := now\<rparr>))"

definition analyze_burst_patterns :: "time_point \<Rightarrow> RansomwareShield \<Rightarrow> RansomwareShield \<times> emission list" where
  "analyze_burst_patterns now s =
     (if rs_io_events s = [] then (s, [])
      else let evs = List.map_filter (burst_threat now s) (burst_counts now (rs_io_events s)) in
        (s\<lparr>rs_threats_detected := rs_threats_detected s + of_nat (length evs)\<rparr>, map Threat evs))"

definition active_indicators :: "RansomwareShield \<Rightarrow> nat \<Rightarrow> RansomwareIndicator list" where
  "active_indicators s n =
     take n (sort_key (\<lambda>i. - (case ri_risk_score i of Fin x \<Rightarrow> x | _ \<Rightarrow> 0)) (map snd (rs_indicators s)))"

definition rs_start :: "RansomwareShield \<Rightarrow> ErrorCode \<times> RansomwareShield" where
  "rs_start s = (if rs_running s then (OK, s) else (OK, s\<lparr>rs_running := True\<rparr>))"

definition rs_stop :: "RansomwareShield \<Rightarrow> ErrorCode \<times> RansomwareShield" where
  "rs_stop s = (if \<not> rs_running s then (OK, s) else (OK, s\<lparr>rs_running := False\<rparr>))"

text \<open>One turn of the monitor loop after its sleep.\<close>

definition rs_monitor_round :: "(string \<Rightarrow> file_state) \<Rightarrow> time_point \<Rightarrow> RansomwareShield \<Rightarrow> RansomwareShield \<times> emission list" where
  "rs_monitor_round fs now s =
     (if \<not> rs_running s then (s, [])
      else case check_honeyfiles fs now s of (s1, es) \<Rightarrow> case analyze_burst_patterns now s1 of (s2, es') \<Rightarrow> (s2, es @ es'))"

section \<open>The score and the sum of the weights\<close>

lemma rnd_error:
  assumes "0 \<le> x" "x < 2"
  shows "\<bar>rnd x - x\<bar> \<le> 1 / 2 ^ 53"
proof (cases "x = 0")
  case False
  with assms have x: "0 < x" by simp
  have "ilog2 x < 1"
  proof (rule ccontr)
    assume "\<not> ilog2 x < 1"
    then have "(2 powi 1 :: rat) \<le> 2 powi ilog2 x" by (intro power_int_increasing) auto
    with ilog2_bounds(1) [OF x] assms(2) show False by simp
  qed
  then have "(2 powi max (ilog2 x - 52) (- 1074) :: rat) \<le> 2 powi (- 52)" by (intro power_int_increasing) auto
  moreover have "(2 powi (- 52) :: rat) = 1 / 2 ^ 52" by (simp only: power_int_minus power_int_numeral inverse_eq_divide)
  ultimately have u: "ulp x \<le> 1 / 2 ^ 52" using x by (simp only: ulp_def abs_of_pos)
  have r: "\<bar>of_int (round_even y) - y\<bar> \<le> 1 / 2" for y :: rat
  proof -
    have "of_int (round_even y) = (of_int \<lfloor>y\<rfloor> :: rat) \<and> y - of_int \<lfloor>y\<rfloor> \<le> 1 / 2 \<or>
        of_int (round_even y) = (of_int \<lfloor>y\<rfloor> + 1 :: rat) \<and> 1 / 2 \<le> y - of_int \<lfloor>y\<rfloor>"
      by (simp add: round_even_def Let_def)
    moreover have "of_int \<lfloor>y\<rfloor> \<le> y" "y < of_int \<lfloor>y\<rfloor> + 1" by linarith+
    ultimately show ?thesis unfolding abs_le_iff by linarith
  qed
  have "rnd x - x = (of_int (round_even (x / ulp x)) - x / ulp x) * ulp x"
    using x less_imp_neq [OF ulp_pos [of x]] by (simp add: rnd_def left_diff_distrib)
  then have "\<bar>rnd x - x\<bar> = \<bar>of_int (round_even (x / ulp x)) - x / ulp x\<bar> * ulp x" using abs_of_pos [OF ulp_pos [of x]] by (simp add: abs_mult)
  also have "\<dots> \<le> 1 / 2 * ulp x" by (intro mult_right_mono r less_imp_le [OF ulp_pos])
  also have "\<dots> \<le> 1 / 2 ^ 53" using u by simp
  finally show ?thesis .
qed (simp add: rnd_def)

text \<open>A double that differs from a number by at most an error.\<close>

definition near :: "rat \<Rightarrow> double \<Rightarrow> rat \<Rightarrow> bool" where
  "near e d x \<longleftrightarrow> (\<exists>v. d = Fin v \<and> 0 \<le> v \<and> \<bar>v - x\<bar> \<le> e)"

definition tier_weight :: "(bool \<times> rat) list \<Rightarrow> rat" where
  "tier_weight tiers = (case find fst tiers of Some (b, w) \<Rightarrow> w | None \<Rightarrow> 0)"

lemma near_add:
  assumes "near e d x" "0 \<le> w" "w < 1" "x + w + e \<le> 19 / 10" "0 \<le> x"
  shows "near (e + 1 / 2 ^ 52) (dadd d (fl w)) (x + w)"
proof -
  obtain v where v: "d = Fin v" "0 \<le> v" "\<bar>v - x\<bar> \<le> e" using assms(1) by (auto simp: near_def)
  have w: "fl w = Fin (rnd w)" "0 \<le> rnd w" "\<bar>rnd w - w\<bar> \<le> 1 / 2 ^ 53"
    using fl_range [of w 1] rnd_range [of w 1] rnd_error [of w] assms(2,3) by auto
  have "1 / 2 ^ 53 \<le> (1 / 100 :: rat)" by simp
  then have "rnd w \<le> w + 1 / 100" "v \<le> x + e" using v(3) w(3) unfolding abs_le_iff by linarith+
  then have s: "0 \<le> v + rnd w" "v + rnd w < 2" using v(2) w(2) assms(4) by linarith+
  have f: "fl (v + rnd w) = Fin (rnd (v + rnd w))" "0 \<le> rnd (v + rnd w)" using fl_range [of "v + rnd w" 2] rnd_range [of "v + rnd w" 2] s by auto
  moreover have "\<bar>rnd (v + rnd w) - (x + w)\<bar> \<le> e + 1 / 2 ^ 52"
  proof -
    have "(1 / 2 ^ 52 :: rat) = 1 / 2 ^ 53 + 1 / 2 ^ 53" by simp
    then show ?thesis using rnd_error [OF s] w(3) v(3) unfolding abs_le_iff by linarith
  qed
  ultimately show ?thesis using v(1) w(1) by (simp add: near_def)
qed

lemma near_tier:
  assumes "near e d x" "0 \<le> x" "0 \<le> tier_weight tiers" "tier_weight tiers < 1" "x + tier_weight tiers + e \<le> 19 / 10"
  shows "near (e + 1 / 2 ^ 52) (add_tier tiers d) (x + tier_weight tiers)"
proof (cases "find fst tiers")
  case None
  then show ?thesis using assms(1) by (force simp: near_def add_tier_def tier_weight_def)
next
  case (Some p)
  then show ?thesis using near_add [OF assms(1) assms(3-5) assms(2)] by (simp add: add_tier_def tier_weight_def split: prod.splits)
qed

text \<open>The weights in order, and their sum: what the score is without rounding and bounds.\<close>

definition weight_sum :: "RansomwareIndicator \<Rightarrow> rat" where
  "weight_sum ind =
     (if ri_shadow_copy_delete ind then 35/100 else 0) + (if ri_honeyfile_triggered ind then 30/100 else 0) +
     (if 50 \<le> ri_files_modified ind then 20/100 else if 20 \<le> ri_files_modified ind then 12/100 else if 5 \<le> ri_files_modified ind then 5/100 else 0) +
     (if 20 \<le> ri_files_renamed ind then 15/100 else if 5 \<le> ri_files_renamed ind then 8/100 else 0) +
     (if 3 \<le> ri_ransomware_ext_renames ind then 15/100 else if 1 \<le> ri_ransomware_ext_renames ind then 10/100 else 0) +
     (if 10 \<le> ri_files_deleted ind then 10/100 else if 3 \<le> ri_files_deleted ind then 5/100 else 0) +
     (if dle (fl 7) (ri_avg_entropy ind) then 15/100 else if dle (fl (65/10)) (ri_avg_entropy ind) then 8/100 else 0)"

lemma tier_weight_simps [simp]:
  "tier_weight [] = 0" "tier_weight ((b, w) # ts) = (if b then w else tier_weight ts)"
  by (simp_all add: tier_weight_def)

lemma near_tiers:
  "near (of_nat n / 2 ^ 52) d x \<Longrightarrow> 0 \<le> x \<Longrightarrow> \<forall>ts \<in> set tss. 0 \<le> tier_weight ts \<and> tier_weight ts < 1 \<Longrightarrow>
   x + sum_list (map tier_weight tss) \<le> 18 / 10 \<Longrightarrow> n + length tss \<le> 100 \<Longrightarrow>
   near (of_nat (n + length tss) / 2 ^ 52) (fold add_tier tss d) (x + sum_list (map tier_weight tss))"
proof (induction tss arbitrary: n d x)
  case (Cons ts tss)
  have sum: "0 \<le> sum_list (map tier_weight tss)" using Cons.prems(3) by (intro sum_list_nonneg) auto
  have "of_nat n / 2 ^ 52 \<le> (1 / 10 :: rat)" using Cons.prems(5) by (simp add: divide_le_eq)
  then have "near (of_nat n / 2 ^ 52 + 1 / 2 ^ 52) (add_tier ts d) (x + tier_weight ts)"
    using Cons.prems sum by (intro near_tier) auto
  then have "near (of_nat (n + 1) / 2 ^ 52) (add_tier ts d) (x + tier_weight ts)" by (simp add: add_divide_distrib add.commute)
  from Cons.IH [OF this] Cons.prems show ?case by (simp add: add.assoc)
qed simp

lemma raw_score_near: "near (7 / 2 ^ 52) (raw_score ind) (weight_sum ind)"
proof -
  let ?tss = "[[(ri_shadow_copy_delete ind, 35/100)], [(ri_honeyfile_triggered ind, 30/100)],
    [(50 \<le> ri_files_modified ind, 20/100), (20 \<le> ri_files_modified ind, 12/100), (5 \<le> ri_files_modified ind, 5/100)],
    [(20 \<le> ri_files_renamed ind, 15/100), (5 \<le> ri_files_renamed ind, 8/100)],
    [(3 \<le> ri_ransomware_ext_renames ind, 15/100), (1 \<le> ri_ransomware_ext_renames ind, 10/100)],
    [(10 \<le> ri_files_deleted ind, 10/100), (3 \<le> ri_files_deleted ind, 5/100)],
    [(dle HIGH_ENTROPY_THRESHOLD (ri_avg_entropy ind), 15/100), (dle (fl (65/10)) (ri_avg_entropy ind), 8/100 :: rat)]]"
  have raw: "raw_score ind = fold add_tier ?tss (Fin 0)" by (simp add: raw_score_def Let_def)
  have ws: "weight_sum ind = 0 + sum_list (map tier_weight ?tss)"
    by (simp only: weight_sum_def tier_weight_simps list.map sum_list.Cons sum_list.Nil HIGH_ENTROPY_THRESHOLD_def add.assoc add_0_left add_0_right)
  have "near (of_nat (0 + length ?tss) / 2 ^ 52) (fold add_tier ?tss (Fin 0)) (0 + sum_list (map tier_weight ?tss))"
  proof (rule near_tiers)
    show "0 + sum_list (map tier_weight ?tss) \<le> 18 / 10" unfolding ws [symmetric] by (simp add: weight_sum_def)
    show "\<forall>ts \<in> set ?tss. 0 \<le> tier_weight ts \<and> tier_weight ts < 1" by simp
  qed (simp_all add: near_def)
  then show ?thesis unfolding raw ws by simp
qed

lemma score_near:
  "\<exists>v. score_indicator ind = Fin v \<and> 0 \<le> v \<and> v \<le> 1 \<and> \<bar>v - min 1 (weight_sum ind)\<bar> \<le> 7 / 2 ^ 52"
proof -
  obtain v where v: "raw_score ind = Fin v" "0 \<le> v" "\<bar>v - weight_sum ind\<bar> \<le> 7 / 2 ^ 52" using raw_score_near [of ind] by (auto simp: near_def)
  have "score_indicator ind = Fin (min 1 v)" using v(1,2) by (auto simp: score_indicator_def dclamp_def dlt_def)
  moreover have "\<bar>min 1 v - min 1 (weight_sum ind)\<bar> \<le> \<bar>v - weight_sum ind\<bar>" by linarith
  ultimately show ?thesis using v(2,3) by (intro exI [of _ "min 1 v"]) linarith
qed

text \<open>
  The computed score is the sum of the weights, cut to at most 1, up to a rounding error below \<open>2\<^sup>-\<^sup>4\<^sup>9\<close>; so it lies
  between 0 and 1 and is admissible as a confidence.
\<close>

theorem score_is_weight_sum:
  "\<exists>v. score_indicator ind = Fin v \<and> 0 \<le> v \<and> v \<le> 1 \<and> \<bar>v - min 1 (weight_sum ind)\<bar> \<le> 7 / 2 ^ 52"
  by (rule score_near)

text \<open>Without a shadow copy deletion and a honeyfile, only the top tier of every other sign reaches the ransomware threshold.\<close>

lemma malicious_needs:
  assumes "dle RISK_THRESHOLD_MALICIOUS (score_indicator ind)" "\<not> ri_shadow_copy_delete ind" "\<not> ri_honeyfile_triggered ind"
  shows "50 \<le> ri_files_modified ind \<and> 20 \<le> ri_files_renamed ind \<and> 3 \<le> ri_ransomware_ext_renames ind \<and> 10 \<le> ri_files_deleted ind \<and>
    dle (fl 7) (ri_avg_entropy ind)"
proof (rule ccontr)
  assume "\<not> ?thesis"
  then have ws: "weight_sum ind \<le> 70/100" using assms(2,3) by (auto simp: weight_sum_def)
  obtain v where v: "score_indicator ind = Fin v" "\<bar>v - min 1 (weight_sum ind)\<bar> \<le> 7 / 2 ^ 52" using score_near by blast
  have "(7 / 2 ^ 52 :: rat) \<le> 1 / 100" by simp
  then have "v \<le> 71/100" using v(2) ws by linarith
  moreover have "\<bar>rnd (75/100) - 75/100\<bar> \<le> 1 / 2 ^ 53" using rnd_error [of "75/100"] by simp
  then have "74/100 \<le> rnd (75/100)"
  proof -
    have "\<bar>y - 75/100\<bar> \<le> 1 / 2 ^ 53 \<Longrightarrow> 74/100 \<le> y" for y :: rat
    proof -
      assume "\<bar>y - 75/100\<bar> \<le> 1 / 2 ^ 53"
      moreover have "1 / 2 ^ 53 \<le> (1 / 100 :: rat)" by simp
      ultimately show "74/100 \<le> y" unfolding abs_le_iff by linarith
    qed
    then show ?thesis using \<open>\<bar>rnd (75/100) - 75/100\<bar> \<le> 1 / 2 ^ 53\<close> .
  qed
  moreover have thr: "RISK_THRESHOLD_MALICIOUS = Fin (rnd (75/100))" using fl_range [of "75/100" 1] by (simp add: RISK_THRESHOLD_MALICIOUS_def)
  have "rnd (75/100) \<le> v" using assms(1) unfolding thr v(1) dle.simps .
  ultimately show False by linarith
qed

section \<open>Indicators and the calls\<close>

datatype rs_op = RIngest time_point FileIOEvent | RShadow time_point u32 string | RHoney "string \<Rightarrow> file_state" string
  | RMonitor "string \<Rightarrow> file_state" time_point | RStart | RStop

fun rs_exec :: "rs_op \<Rightarrow> RansomwareShield \<Rightarrow> RansomwareShield \<times> emission list" where
  "rs_exec (RIngest now ev) s = ingest_file_io now ev s"
| "rs_exec (RShadow now pid name) s = report_shadow_copy_delete now pid name s"
| "rs_exec (RHoney fs p) s = (add_honeyfile fs p s, [])"
| "rs_exec (RMonitor fs now) s = rs_monitor_round fs now s"
| "rs_exec RStart s = (snd (rs_start s), [])"
| "rs_exec RStop s = (snd (rs_stop s), [])"

text \<open>How many file operations of a kind the calls reported for a process.\<close>

definition io_count :: "(FileIOEvent \<Rightarrow> bool) \<Rightarrow> u32 \<Rightarrow> rs_op list \<Rightarrow> nat" where
  "io_count P pid ops = length (filter (\<lambda>op. case op of RIngest now ev \<Rightarrow> io_process_id ev = pid \<and> P ev | _ \<Rightarrow> False) ops)"

lemma io_count_append [simp]: "io_count P pid (xs @ ys) = io_count P pid xs + io_count P pid ys"
  by (simp add: io_count_def)

definition writes :: "FileIOEvent \<Rightarrow> bool" where "writes ev \<longleftrightarrow> io_type ev \<in> {IO_WRITE, IO_CREATE}"
definition renames :: "FileIOEvent \<Rightarrow> bool" where "renames ev \<longleftrightarrow> io_type ev = IO_RENAME"
definition deletes :: "FileIOEvent \<Rightarrow> bool" where "deletes ev \<longleftrightarrow> io_type ev = IO_DELETE"
definition ext_renames :: "FileIOEvent \<Rightarrow> bool" where
  "ext_renames ev \<longleftrightarrow> io_type ev = IO_RENAME \<and> is_ransomware_extension (extension (io_new_path ev))"

lemmas io_kinds = writes_def renames_def deletes_def ext_renames_def

text \<open>Every indicator counts the operations of its process, knows of its shadow copy deletions, and has no honeyfile flag.\<close>

definition indicator_ok :: "rs_op list \<Rightarrow> u32 \<Rightarrow> RansomwareIndicator \<Rightarrow> bool" where
  "indicator_ok ops pid ind \<longleftrightarrow> ri_files_modified ind = io_count writes pid ops \<and> ri_files_renamed ind = io_count renames pid ops \<and>
     ri_ransomware_ext_renames ind = io_count ext_renames pid ops \<and> ri_files_deleted ind = io_count deletes pid ops \<and>
     ri_shadow_copy_delete ind = (\<exists>now name. RShadow now pid name \<in> set ops) \<and> \<not> ri_honeyfile_triggered ind"

definition shield_ok :: "rs_op list \<Rightarrow> RansomwareShield \<Rightarrow> bool" where
  "shield_ok ops s \<longleftrightarrow> (\<forall>pid. indicator_ok ops pid
     (case map_of (rs_indicators s) pid of Some ind \<Rightarrow> ind | None \<Rightarrow> RansomwareIndicator_default))"

lemma count_io_ok:
  assumes "indicator_ok ops pid ind" "io_process_id ev = pid"
  shows "indicator_ok (ops @ [RIngest now ev]) pid (count_io ev ind)"
  using assms by (cases "io_type ev") (auto simp: indicator_ok_def count_io_def io_count_def io_kinds Let_def)

lemma other_pid_ok:
  assumes "indicator_ok ops pid ind" "io_process_id ev \<noteq> pid"
  shows "indicator_ok (ops @ [RIngest now ev]) pid ind"
  using assms by (auto simp: indicator_ok_def io_count_def)

lemma indicator_of_ok:
  assumes "shield_ok ops s" "indicator_of pid name first s = (ind, s')"
  shows "indicator_ok ops pid ind \<and> rs_indicators s' = rs_indicators s"
proof -
  have "indicator_ok ops pid (case map_of (rs_indicators s) pid of Some ind \<Rightarrow> ind | None \<Rightarrow> RansomwareIndicator_default)"
    using assms(1) by (simp add: shield_ok_def)
  then show ?thesis using assms(2) by (auto simp: indicator_of_def Let_def indicator_ok_def split: if_splits)
qed

text \<open>The indicator a call has scored, for the two operations that score one.\<close>

definition scored_indicator :: "FileIOEvent \<Rightarrow> RansomwareShield \<Rightarrow> RansomwareIndicator" where
  "scored_indicator ev s = count_io ev ((fst (indicator_of (io_process_id ev) (io_process_name ev) (io_timestamp ev) s))\<lparr>ri_last_seen := io_timestamp ev\<rparr>)"

lemma indicator_of_cong: "rs_indicators s1 = rs_indicators s \<Longrightarrow> rs_next_indicator_id s1 = rs_next_indicator_id s \<Longrightarrow>
  fst (indicator_of pid name first s1) = fst (indicator_of pid name first s) \<and> rs_indicators (snd (indicator_of pid name first s1)) = rs_indicators s"
  by (simp add: indicator_of_def Let_def)

lemma ingest_outcome:
  "rs_indicators (fst (ingest_file_io now ev s)) =
     AList.update (io_process_id ev) ((scored_indicator ev s)\<lparr>ri_risk_score := score_indicator (scored_indicator ev s)\<rparr>) (rs_indicators s)"
  "snd (ingest_file_io now ev s) =
     (let ind = (scored_indicator ev s)\<lparr>ri_risk_score := score_indicator (scored_indicator ev s)\<rparr> in
      if dle RISK_THRESHOLD_MALICIOUS (ri_risk_score ind) then [Threat (ransomware_threat now ev ind)]
      else if dle RISK_THRESHOLD_SUSPICIOUS (ri_risk_score ind) then [Observation (ransomware_observation now ev ind)] else [])"
  using indicator_of_cong [of "s\<lparr>rs_events_processed := rs_events_processed s + 1, rs_next_id := rs_next_id s + 1,
    rs_io_events := pop_front_to MAX_IO_EVENTS (rs_io_events s @ [ev\<lparr>io_id := rs_next_id s\<rparr>])\<rparr>" s
    "io_process_id ev" "io_process_name ev" "io_timestamp ev"]
  by (simp_all add: ingest_file_io_def scored_indicator_def case_prod_beta Let_def)

lemma scored_ok:
  assumes "shield_ok ops s"
  shows "indicator_ok (ops @ [RIngest now ev]) (io_process_id ev) (scored_indicator ev s)"
proof -
  obtain ind s' where i: "indicator_of (io_process_id ev) (io_process_name ev) (io_timestamp ev) s = (ind, s')" by fastforce
  have "indicator_ok ops (io_process_id ev) (ind\<lparr>ri_last_seen := io_timestamp ev\<rparr>)"
    using indicator_of_ok [OF assms i] by (simp add: indicator_ok_def)
  then show ?thesis unfolding scored_indicator_def i fst_conv by (rule count_io_ok) simp
qed

lemma shield_ok_step:
  assumes ok: "shield_ok ops s"
  shows "shield_ok (ops @ [op]) (fst (rs_exec op s))"
proof (cases op)
  case (RIngest now ev)
  have "indicator_ok (ops @ [op]) (io_process_id ev) ((scored_indicator ev s)\<lparr>ri_risk_score := sc\<rparr>)" for sc
    using scored_ok [OF ok, of now ev] RIngest by (simp add: indicator_ok_def)
  then show ?thesis using ok other_pid_ok RIngest by (simp add: shield_ok_def ingest_outcome update_conv')
next
  case (RShadow now pid name)
  obtain ind s' where i: "indicator_of pid name now (s\<lparr>rs_events_processed := rs_events_processed s + 1, rs_threats_detected := rs_threats_detected s + 1\<rparr>) = (ind, s')"
    by fastforce
  have "indicator_ok ops pid ind \<and> rs_indicators s' = rs_indicators s" using indicator_of_ok [OF _ i, of ops] ok by (simp add: shield_ok_def)
  then show ?thesis using ok i RShadow
    by (auto simp: shield_ok_def report_shadow_copy_delete_def update_conv' indicator_ok_def io_count_def Let_def)
next
  case (RMonitor fs now)
  have "rs_indicators (fst (rs_exec op s)) = rs_indicators s"
    using RMonitor by (simp add: rs_monitor_round_def check_honeyfiles_def analyze_burst_patterns_def case_prod_beta Let_def)
  then show ?thesis using ok RMonitor by (auto simp: shield_ok_def indicator_ok_def io_count_def)
qed (use ok in \<open>auto simp: shield_ok_def indicator_ok_def io_count_def add_honeyfile_def rs_start_def rs_stop_def\<close>)

lemma shield_ok_run: "shield_ok ops (fold (\<lambda>op s. fst (rs_exec op s)) ops RansomwareShield_new)"
proof (induction ops rule: rev_induct)
  case Nil
  then show ?case by (simp add: shield_ok_def indicator_ok_def io_count_def RansomwareShield_new_def RansomwareIndicator_default_def)
qed (simp add: shield_ok_step)



section \<open>Honeyfiles\<close>

text \<open>The threats a honeyfile raises over several checks, each with its own state of the files.\<close>

fun honey_rounds :: "((string \<Rightarrow> file_state) \<times> time_point) list \<Rightarrow> HoneyFile \<Rightarrow> emission list" where
  "honey_rounds [] hf = []"
| "honey_rounds ((fs, now) # rounds) hf = (case check_honeyfile fs now hf of (hf', es) \<Rightarrow> es @ honey_rounds rounds hf')"

definition honeyfile_alarm :: "HoneyFile \<Rightarrow> (string \<Rightarrow> file_state) \<Rightarrow> bool" where
  "honeyfile_alarm hf fs \<longleftrightarrow> (case fs (hf_path hf) of
     Missing \<Rightarrow> True | Unreadable \<Rightarrow> False | Content buf \<Rightarrow> hf_sha256 hf \<noteq> [] \<and> file_sha256 buf \<noteq> hf_sha256 hf)"

lemma check_honeyfile_alarm:
  assumes "\<not> hf_triggered hf"
  shows "fst (check_honeyfile fs now hf) = hf\<lparr>hf_triggered := honeyfile_alarm hf fs\<rparr>"
    "length (snd (check_honeyfile fs now hf)) = (if honeyfile_alarm hf fs then 1 else 0)"
  using assms by (auto simp: check_honeyfile_def honeyfile_alarm_def split: file_state.split)

lemma triggered_quiet: "hf_triggered hf \<Longrightarrow> honey_rounds rounds hf = []"
  by (induction rounds) (auto simp: check_honeyfile_def)

lemma honey_rounds_alarm:
  "\<not> hf_triggered hf \<Longrightarrow> length (honey_rounds rounds hf) = (if \<exists>(fs, now) \<in> set rounds. honeyfile_alarm hf fs then 1 else 0)"
proof (induction rounds)
  case (Cons r rounds)
  obtain fs now where r: "r = (fs, now)" by (cases r)
  show ?case
  proof (cases "honeyfile_alarm hf fs")
    case True
    then show ?thesis using check_honeyfile_alarm [OF Cons.prems, of fs now] triggered_quiet [of "hf\<lparr>hf_triggered := True\<rparr>" rounds]
      by (simp add: r case_prod_beta)
  next
    case False
    have "hf\<lparr>hf_triggered := False\<rparr> = hf" using Cons.prems by simp
    then show ?thesis using check_honeyfile_alarm [OF Cons.prems, of fs now] False Cons.IH [OF Cons.prems] by (simp add: r case_prod_beta)
  qed
qed simp

lemma file_sha256_nonempty [simp]: "file_sha256 buf \<noteq> []"
proof -
  have "length (file_sha256 buf) = 64" by (simp add: file_sha256_def)
  then show ?thesis by auto
qed

text \<open>
  A honeyfile raises one threat over all checks, and exactly when in one of them the file is missing or has contents
  with another SHA-256 than when it was added; a file that could not be read when it was added is watched for deletion only.
\<close>

theorem honeyfile_raises_once:
  assumes "hf = last (rs_honeyfiles (add_honeyfile fs0 path s))"
  shows "length (honey_rounds rounds hf) =
    (if \<exists>(fs, now) \<in> set rounds. fs path = Missing \<or>
          (\<exists>buf buf0. fs0 path = Content buf0 \<and> fs path = Content buf \<and> file_sha256 buf \<noteq> file_sha256 buf0) then 1 else 0)"
proof -
  have hf: "hf = \<lparr>hf_path = path, hf_sha256 = (case fs0 path of Content buf \<Rightarrow> file_sha256 buf | _ \<Rightarrow> []), hf_triggered = False\<rparr>"
    using assms by (simp add: add_honeyfile_def)
  have "honeyfile_alarm hf fs \<longleftrightarrow> fs path = Missing \<or>
      (\<exists>buf buf0. fs0 path = Content buf0 \<and> fs path = Content buf \<and> file_sha256 buf \<noteq> file_sha256 buf0)" for fs
    by (auto simp: honeyfile_alarm_def hf split: file_state.split)
  then show ?thesis using honey_rounds_alarm [of hf rounds] by (simp add: hf)
qed

theorem honeyfile_raises_once_witness:
  "length (honey_rounds [(\<lambda>p. Content [1], 1), (\<lambda>p. Missing, 2), (\<lambda>p. Missing, 3)]
     (last (rs_honeyfiles (add_honeyfile (\<lambda>p. Content [1]) ''h'' RansomwareShield_new)))) = 1"
  using honeyfile_raises_once [OF refl, of "[(\<lambda>p. Content [1], 1), (\<lambda>p. Missing, 2), (\<lambda>p. Missing, 3)]" "\<lambda>p. Content [1]" "''h''" RansomwareShield_new]
  by auto

section \<open>A source of observations\<close>

lemma ransomware_valid: "Observation obs \<in> set (snd (ingest_file_io now ev s)) \<Longrightarrow> obs_valid obs"
proof -
  obtain v where v: "score_indicator (scored_indicator ev s) = Fin v" "0 \<le> v" "v \<le> 1" using score_near by blast
  then show "Observation obs \<in> set (snd (ingest_file_io now ev s)) \<Longrightarrow> obs_valid obs"
    by (auto simp: ingest_outcome ransomware_observation_def SecurityObservation_default_def obs_valid_def Let_def split: if_splits)
qed

interpretation ransomware_source: observation_source "\<lambda>(now, ev, s). snd (ingest_file_io now ev s)"
  by unfold_locales (auto dest: ransomware_valid)

end
