(* ===== verification/Alert_Manager.thy ===== *)
theory Alert_Manager
  imports GCAD_Common
begin

text \<open>
  \<^verbatim>\<open>alert/alert_manager.{hpp,cpp}\<close>, the Windows build: the bounded history of alerts with its acknowledgements, the level
  filter, and what is shown and sounded for an alert. The answers of the window system and the clock are
  arguments. The lemmas show that the history is the end of an unbounded log of the accepted alerts, that only a
  working tray icon shows balloons, and that sounds keep their distance.
\<close>

section \<open>Model\<close>

record AlertRecord =
  al_id :: u64
  al_timestamp :: time_point
  al_level :: ThreatLevel
  al_category :: ThreatCategory
  al_source :: string
  al_description :: string
  al_process_name :: string
  al_process_id :: u32
  al_acknowledged :: bool

record TrayState =
  tr_hwnd :: bool
  tr_initialized :: bool
  tr_wc_atom :: bool

record AlertManager =
  am_history :: "AlertRecord list"
  am_next_id :: u64
  am_min_level :: ThreatLevel
  am_sound_enabled :: bool
  am_toast_enabled :: bool
  am_last_sound_time_ms :: int
  am_notification_cb :: bool
  am_tray :: TrayState

definition SOUND_COOLDOWN_MS :: int where "SOUND_COOLDOWN_MS = 3000"
definition MAX_HISTORY :: nat where "MAX_HISTORY = 500"

fun map_category_source :: "ThreatCategory \<Rightarrow> string" where
  "map_category_source MEMORY_INJECTION = ''PMSR''"
| "map_category_source PROCESS_HOLLOW = ''PMSR''"
| "map_category_source DLL_INJECTION = ''PMSR''"
| "map_category_source APC_INJECTION = ''PMSR''"
| "map_category_source REFLECTIVE_LOAD = ''PMSR''"
| "map_category_source SHELLCODE = ''PMSR''"
| "map_category_source FILELESS_EXEC = ''PMSR''"
| "map_category_source DNS_TUNNEL = ''DnsMon''"
| "map_category_source DGA_DOMAIN = ''DnsMon''"
| "map_category_source RANSOMWARE = ''ARHS''"
| "map_category_source FILE_ENCRYPT = ''ARHS''"
| "map_category_source BACKDOOR_ACCOUNT = ''ARHS''"
| "map_category_source NETWORK_SCAN = ''ZRGP''"
| "map_category_source SYN_FLOOD = ''ZRGP''"
| "map_category_source UDP_FLOOD = ''ZRGP''"
| "map_category_source ARP_POISON = ''ZRGP''"
| "map_category_source ICMP_COVERT = ''ZRGP''"
| "map_category_source RAW_SOCKET_PROBE = ''ZRGP''"
| "map_category_source REGISTRY_TAMPER = ''RegMon''"
| "map_category_source EVASION_AMSI = ''SyscallGuard''"
| "map_category_source EVASION_ETW = ''SyscallGuard''"
| "map_category_source EVASION_UNHOOK = ''SyscallGuard''"
| "map_category_source DIRECT_SYSCALL = ''SyscallGuard''"
| "map_category_source PPID_SPOOF = ''KernelMon''"
| "map_category_source KERBEROS_ATTACK = ''KernelMon''"
| "map_category_source NTLM_COERCE = ''KernelMon''"
| "map_category_source CREDENTIAL_DUMP = ''KernelMon''"
| "map_category_source ENTROPY_ANOMALY = ''DeepScan''"
| "map_category_source SUSPICIOUS_BINARY = ''DeepScan''"
| "map_category_source ANTI_FORENSIC = ''SelfDefense''"
| "map_category_source FILE_INTEGRITY_VIOLATION = ''FIM''"
| "map_category_source YARA_RULE_MATCH = ''YARA''"
| "map_category_source _ = ''GCAD''"

text \<open>The tray icon. The arguments say which of the three system calls succeed.\<close>

definition init_tray :: "bool \<Rightarrow> bool \<Rightarrow> bool \<Rightarrow> TrayState \<Rightarrow> TrayState" where
  "init_tray class_ok window_ok icon_ok t =
     (let t1 = t\<lparr>tr_wc_atom := class_ok\<rparr> in
      if \<not> class_ok then t1
      else let t2 = t1\<lparr>tr_hwnd := window_ok\<rparr> in
        if \<not> window_ok then t2 else if icon_ok then t2\<lparr>tr_initialized := True\<rparr> else t2)"

definition cleanup_tray :: "TrayState \<Rightarrow> TrayState" where
  "cleanup_tray t =
     (let t1 = (if tr_initialized t then t\<lparr>tr_initialized := False\<rparr> else t);
          t2 = (if tr_hwnd t1 then t1\<lparr>tr_hwnd := False\<rparr> else t1)
      in if tr_wc_atom t2 then t2\<lparr>tr_wc_atom := False\<rparr> else t2)"

definition AlertManager_new :: "bool \<Rightarrow> bool \<Rightarrow> bool \<Rightarrow> AlertManager" where
  "AlertManager_new class_ok window_ok icon_ok =
     \<lparr>am_history = [], am_next_id = 1, am_min_level = LOW, am_sound_enabled = False, am_toast_enabled = True,
       am_last_sound_time_ms = 0, am_notification_cb = False,
       am_tray = init_tray class_ok window_ok icon_ok \<lparr>tr_hwnd = False, tr_initialized = False, tr_wc_atom = False\<rparr>\<rparr>"

text \<open>What the user sees and hears.\<close>

datatype BalloonIcon = NIIF_INFO | NIIF_WARNING | NIIF_ERROR
datatype BeepType = MB_ICONEXCLAMATION | MB_ICONHAND
datatype alert_effect = Notify AlertRecord | Balloon BalloonIcon string string | Beep BeepType

definition balloon_icon :: "ThreatLevel \<Rightarrow> BalloonIcon" where
  "balloon_icon level = (if HIGH \<le> level then NIIF_ERROR else if MEDIUM \<le> level then NIIF_WARNING else NIIF_INFO)"

definition balloon_titles :: "string list" where
  "balloon_titles = map (\<lambda>t. ''GCAD '' @ em_dash @ '' '' @ t) [''Safe'', ''Low'', ''Medium'', ''High'', ''Critical'']"

text \<open>\<open>wide_len\<close> is the length \<^verbatim>\<open>MultiByteToWideChar\<close> answers.\<close>

definition show_balloon :: "(string \<Rightarrow> int) \<Rightarrow> AlertRecord \<Rightarrow> AlertManager \<Rightarrow> alert_effect list" where
  "show_balloon wide_len r s =
     (if \<not> tr_initialized (am_tray s) then []
      else [Balloon (balloon_icon (al_level r)) (balloon_titles ! min (level_code (al_level r)) 4)
        (if 0 < wide_len (al_description r) \<and> wide_len (al_description r) < 256 then al_description r else ''Threat detected'')])"

definition play_sound :: "int \<Rightarrow> ThreatLevel \<Rightarrow> AlertManager \<Rightarrow> AlertManager \<times> alert_effect list" where
  "play_sound now_ms level s =
     (if level < HIGH then (s, [])
      else if now_ms - am_last_sound_time_ms s < SOUND_COOLDOWN_MS then (s, [])
      else (s\<lparr>am_last_sound_time_ms := now_ms\<rparr>, [Beep (if CRITICAL \<le> level then MB_ICONHAND else MB_ICONEXCLAMATION)]))"

definition alert_record :: "u64 \<Rightarrow> time_point \<Rightarrow> ThreatEvent \<Rightarrow> AlertRecord" where
  "alert_record i now ev = \<lparr>al_id = i, al_timestamp = (if ev_timestamp ev \<noteq> 0 then ev_timestamp ev else now), al_level = ev_level ev,
     al_category = ev_category ev, al_source = map_category_source (ev_category ev), al_description = ev_description ev,
     al_process_name = ev_process_name ev, al_process_id = ev_process_id ev, al_acknowledged = False\<rparr>"

definition alert_push :: "(string \<Rightarrow> int) \<Rightarrow> time_point \<Rightarrow> int \<Rightarrow> ThreatEvent \<Rightarrow> AlertManager \<Rightarrow> AlertManager \<times> alert_effect list" where
  "alert_push wide_len now now_ms ev s =
     (if ev_level ev < am_min_level s then (s, [])
      else let r = alert_record (am_next_id s) now ev;
               s1 = s\<lparr>am_next_id := am_next_id s + 1, am_history := pop_front_to MAX_HISTORY (am_history s @ [r])\<rparr>;
               shown = (if am_notification_cb s1 then [Notify r] else if am_toast_enabled s1 then show_balloon wide_len r s1 else [])
           in if am_sound_enabled s1 then (case play_sound now_ms (al_level r) s1 of (s2, sounds) \<Rightarrow> (s2, shown @ sounds))
              else (s1, shown))"

definition alert_recent :: "AlertManager \<Rightarrow> nat \<Rightarrow> AlertRecord list" where
  "alert_recent s n = drop (if n < length (am_history s) then length (am_history s) - n else 0) (am_history s)"

definition unacknowledged_count :: "AlertManager \<Rightarrow> nat" where
  "unacknowledged_count s = foldl (\<lambda>c r. if \<not> al_acknowledged r then c + 1 else c) 0 (am_history s)"

fun acknowledge_in :: "u64 \<Rightarrow> AlertRecord list \<Rightarrow> AlertRecord list" where
  "acknowledge_in i [] = []"
| "acknowledge_in i (r # rs) = (if al_id r = i then r\<lparr>al_acknowledged := True\<rparr> # rs else r # acknowledge_in i rs)"

definition alert_acknowledge :: "u64 \<Rightarrow> AlertManager \<Rightarrow> AlertManager" where
  "alert_acknowledge i s = s\<lparr>am_history := acknowledge_in i (am_history s)\<rparr>"

definition acknowledge_all :: "AlertManager \<Rightarrow> AlertManager" where
  "acknowledge_all s = s\<lparr>am_history := map (\<lambda>r. r\<lparr>al_acknowledged := True\<rparr>) (am_history s)\<rparr>"

definition alert_clear :: "AlertManager \<Rightarrow> AlertManager" where
  "alert_clear s = s\<lparr>am_history := []\<rparr>"

definition set_min_level :: "ThreatLevel \<Rightarrow> AlertManager \<Rightarrow> AlertManager" where
  "set_min_level level s = s\<lparr>am_min_level := level\<rparr>"

definition set_sound_enabled :: "bool \<Rightarrow> AlertManager \<Rightarrow> AlertManager" where
  "set_sound_enabled on s = s\<lparr>am_sound_enabled := on\<rparr>"

definition set_toast_enabled :: "bool \<Rightarrow> AlertManager \<Rightarrow> AlertManager" where
  "set_toast_enabled on s = s\<lparr>am_toast_enabled := on\<rparr>"

definition set_notification_callback :: "bool \<Rightarrow> AlertManager \<Rightarrow> AlertManager" where
  "set_notification_callback installed s = s\<lparr>am_notification_cb := installed\<rparr>"

definition disable_tray :: "AlertManager \<Rightarrow> AlertManager" where
  "disable_tray s = s\<lparr>am_tray := cleanup_tray (am_tray s)\<rparr>"

section \<open>The log behind the history\<close>

datatype al_op = LPush time_point int ThreatEvent | LAcknowledge u64 | LAcknowledgeAll | LClear | LMinLevel ThreatLevel
  | LSound bool | LToast bool | LCallback bool | LNoTray

fun al_exec :: "(string \<Rightarrow> int) \<Rightarrow> al_op \<Rightarrow> AlertManager \<Rightarrow> AlertManager \<times> alert_effect list" where
  "al_exec wl (LPush now now_ms ev) s = alert_push wl now now_ms ev s"
| "al_exec wl (LAcknowledge i) s = (alert_acknowledge i s, [])"
| "al_exec wl LAcknowledgeAll s = (acknowledge_all s, [])"
| "al_exec wl LClear s = (alert_clear s, [])"
| "al_exec wl (LMinLevel l) s = (set_min_level l s, [])"
| "al_exec wl (LSound b) s = (set_sound_enabled b s, [])"
| "al_exec wl (LToast b) s = (set_toast_enabled b s, [])"
| "al_exec wl (LCallback b) s = (set_notification_callback b s, [])"
| "al_exec wl LNoTray s = (disable_tray s, [])"

text \<open>
  The specification: a level, the number of accepted alerts so far, and the list of all alerts since the last clear,
  in which acknowledging marks the alert of that number.
\<close>

record alert_log =
  lg_min :: ThreatLevel
  lg_accepted :: nat
  lg_alerts :: "AlertRecord list"

definition mark :: "(AlertRecord \<Rightarrow> bool) \<Rightarrow> AlertRecord \<Rightarrow> AlertRecord" where
  "mark P r = (if P r then r\<lparr>al_acknowledged := True\<rparr> else r)"

fun log_step :: "al_op \<Rightarrow> alert_log \<Rightarrow> alert_log" where
  "log_step (LPush now now_ms ev) l =
     (if ev_level ev < lg_min l then l
      else l\<lparr>lg_accepted := lg_accepted l + 1, lg_alerts := lg_alerts l @ [alert_record (of_nat (lg_accepted l + 1)) now ev]\<rparr>)"
| "log_step (LAcknowledge i) l = l\<lparr>lg_alerts := map (mark (\<lambda>r. al_id r = i)) (lg_alerts l)\<rparr>"
| "log_step LAcknowledgeAll l = l\<lparr>lg_alerts := map (mark (\<lambda>r. True)) (lg_alerts l)\<rparr>"
| "log_step LClear l = l\<lparr>lg_alerts := []\<rparr>"
| "log_step (LMinLevel lv) l = l\<lparr>lg_min := lv\<rparr>"
| "log_step _ l = l"

definition empty_log :: alert_log where
  "empty_log = \<lparr>lg_min = LOW, lg_accepted = 0, lg_alerts = []\<rparr>"

definition alert_sim :: "AlertManager \<Rightarrow> alert_log \<Rightarrow> bool" where
  "alert_sim s l \<longleftrightarrow> am_min_level s = lg_min l \<and> am_next_id s = of_nat (lg_accepted l + 1) \<and>
     am_history s = last_n MAX_HISTORY (lg_alerts l) \<and> length (lg_alerts l) \<le> lg_accepted l \<and>
     sorted_wrt (<) (map (unat \<circ> al_id) (lg_alerts l)) \<and> (\<forall>r \<in> set (lg_alerts l). unat (al_id r) \<le> lg_accepted l)"

lemma acknowledge_in_mark: "distinct (map al_id rs) \<Longrightarrow> acknowledge_in i rs = map (mark (\<lambda>r. al_id r = i)) rs"
  by (induction rs) (auto simp: mark_def image_iff intro!: map_idI [symmetric])

lemma al_id_mark [simp]: "al_id (mark P r) = al_id r"
  by (simp add: mark_def)

lemma sorted_ids_distinct: "sorted_wrt (<) (map (unat \<circ> al_id) rs) \<Longrightarrow> distinct (map al_id rs)"
proof -
  assume "sorted_wrt (<) (map (unat \<circ> al_id) rs)"
  then have "distinct (map unat (map al_id rs))" using strict_sorted_iff by (metis map_map)
  then show ?thesis by (simp only: distinct_map)
qed

lemma distinct_last_n: "distinct (map f xs) \<Longrightarrow> distinct (map f (last_n n xs))"
  by (simp add: last_n_def drop_map [symmetric])

lemma push_last_n: "pop_front_to n (last_n n xs @ [x]) = last_n n (xs @ [x])"
  by (cases "length xs" n rule: linorder_cases) (auto simp: last_n_def pop_front_to_drop Suc_diff_le)

lemma map_last_n: "map f (last_n n xs) = last_n n (map f xs)"
  by (simp add: last_n_def drop_map)

lemma alert_push_fields:
  "am_min_level (fst (alert_push wl now ms ev s)) = am_min_level s"
  "am_next_id (fst (alert_push wl now ms ev s)) = (if ev_level ev < am_min_level s then am_next_id s else am_next_id s + 1)"
  "am_history (fst (alert_push wl now ms ev s)) = (if ev_level ev < am_min_level s then am_history s
     else pop_front_to MAX_HISTORY (am_history s @ [alert_record (am_next_id s) now ev]))"
  by (simp_all add: alert_push_def play_sound_def Let_def)

lemma alert_sim_step:
  assumes sim: "alert_sim s l" and n: "lg_accepted l + 1 < 2 ^ 64"
  shows "alert_sim (fst (al_exec wl op s)) (log_step op l)"
proof (cases op)
  case (LPush now ms ev)
  have "unat (of_nat (lg_accepted l + 1) :: u64) = lg_accepted l + 1" using n by (simp only: unsigned_of_nat take_bit_nat_eq_self) (simp add: take_bit_nat_eq_self)
  then show ?thesis using sim LPush
    by (auto simp: alert_sim_def alert_push_fields push_last_n alert_record_def sorted_wrt_append le_imp_less_Suc intro: le_SucI)
next
  case (LAcknowledge i)
  have "distinct (map al_id (last_n MAX_HISTORY (lg_alerts l)))"
    using sim by (intro distinct_last_n sorted_ids_distinct) (simp add: alert_sim_def)
  then show ?thesis using sim LAcknowledge
    by (auto simp: alert_sim_def alert_acknowledge_def acknowledge_in_mark map_last_n comp_def)
next
  case LAcknowledgeAll
  have "mark (\<lambda>r. True) = (\<lambda>r. r\<lparr>al_acknowledged := True\<rparr>)" by (simp add: fun_eq_iff mark_def)
  then show ?thesis using sim LAcknowledgeAll by (auto simp: alert_sim_def acknowledge_all_def map_last_n comp_def)
qed (use sim in \<open>auto simp: alert_sim_def alert_clear_def set_min_level_def set_sound_enabled_def set_toast_enabled_def
  set_notification_callback_def disable_tray_def last_n_def\<close>)

text \<open>
  C33. The history refines the log: for fewer than \<open>2\<^sup>6\<^sup>4\<close> calls, whatever they are, it is the last 500 entries of the list of
  all alerts at or above the minimum level of their time since the last clear, numbered in order, and exactly
  those are acknowledged that were acknowledged by number or together, even though an
  acknowledgement searches only the history.
\<close>

theorem alert_history_refines_log:
  assumes "length ops + 1 < 2 ^ 64"
  shows "am_history (fold (\<lambda>op s. fst (al_exec wl op s)) ops (AlertManager_new a b c)) =
    last_n 500 (lg_alerts (fold log_step ops empty_log)) \<and>
    unacknowledged_count (fold (\<lambda>op s. fst (al_exec wl op s)) ops (AlertManager_new a b c)) =
    length (filter (\<lambda>r. \<not> al_acknowledged r) (last_n 500 (lg_alerts (fold log_step ops empty_log))))"
proof -
  have run: "alert_sim s l \<Longrightarrow> lg_accepted l + length ops + 1 < 2 ^ 64 \<Longrightarrow>
    alert_sim (fold (\<lambda>op s. fst (al_exec wl op s)) ops s) (fold log_step ops l)" for s l
  proof (induction ops arbitrary: s l)
    case (Cons op ops)
    have "lg_accepted (log_step op l) \<le> lg_accepted l + 1" by (cases op) simp_all
    then show ?case using Cons.IH [OF alert_sim_step [OF Cons.prems(1)]] Cons.prems(2) by simp
  qed simp
  have cnt: "foldl (\<lambda>n r. if \<not> al_acknowledged r then n + 1 else n) k rs = k + length (filter (\<lambda>r. \<not> al_acknowledged r) rs)" for k rs
    by (induction rs arbitrary: k) simp_all
  have "alert_sim (AlertManager_new a b c) empty_log" by (simp add: alert_sim_def AlertManager_new_def empty_log_def last_n_def)
  from run [OF this] assms show ?thesis
    by (simp add: alert_sim_def empty_log_def MAX_HISTORY_def unacknowledged_count_def cnt)
qed

definition sample_threat :: "ThreatLevel \<Rightarrow> ThreatEvent" where
  "sample_threat l = \<lparr>ev_id = 0, ev_timestamp = 5, ev_level = l, ev_category = RANSOMWARE, ev_process_id = 0, ev_process_name = [],
     ev_file_path = [], ev_description = [], ev_source_ip = [], ev_source_port = 0, ev_quarantined = False, ev_rolled_back = False\<rparr>"

theorem alert_history_refines_log_witness:
  "map al_acknowledged (am_history (fold (\<lambda>op s. fst (al_exec (\<lambda>x. 0) op s))
      [LPush 1 1 (sample_threat SAFE), LPush 2 2 (sample_threat HIGH), LPush 3 3 (sample_threat LOW), LAcknowledge 2]
      (AlertManager_new True True True))) = [False, True]"
proof -
  let ?ops = "[LPush 1 1 (sample_threat SAFE), LPush 2 2 (sample_threat HIGH), LPush 3 3 (sample_threat LOW), LAcknowledge 2]"
  have "map al_acknowledged (lg_alerts (fold log_step ?ops empty_log)) = [False, True]"
    by code_simp
  then have "map al_acknowledged (last_n 500 (lg_alerts (fold log_step ?ops empty_log))) = [False, True]"
    by (simp only: map_last_n) (simp add: last_n_def)
  moreover have "length ?ops + 1 < 2 ^ 64" by simp
  ultimately show ?thesis by (simp only: conjunct1 [OF alert_history_refines_log])
qed

section \<open>Balloons and sounds\<close>

text \<open>A tray icon in use has its window and its window class; switching the tray off gives everything back.\<close>

definition tray_ok :: "TrayState \<Rightarrow> bool" where
  "tray_ok t \<longleftrightarrow> (tr_initialized t \<longrightarrow> tr_hwnd t) \<and> (tr_hwnd t \<longrightarrow> tr_wc_atom t)"

fun al_run :: "(string \<Rightarrow> int) \<Rightarrow> al_op list \<Rightarrow> AlertManager \<Rightarrow> AlertManager \<times> (int \<times> alert_effect) list" where
  "al_run wl [] s = (s, [])"
| "al_run wl (op # ops) s =
     (case al_exec wl op s of (s1, es) \<Rightarrow> case al_run wl ops s1 of (s2, es') \<Rightarrow>
        (s2, map (Pair (case op of LPush now ms ev \<Rightarrow> ms | _ \<Rightarrow> 0)) es @ es'))"

definition beeps :: "(int \<times> alert_effect) list \<Rightarrow> int list" where
  "beeps es = [t. (t, Beep b) \<leftarrow> es]"

lemma beeps_append [simp]: "beeps (xs @ ys) = beeps xs @ beeps ys"
  by (simp add: beeps_def)

lemma push_beeps:
  "beeps (map (Pair ms) (snd (alert_push wl now ms ev s))) =
     (if am_min_level s \<le> ev_level ev \<and> am_sound_enabled s \<and> HIGH \<le> ev_level ev \<and> am_last_sound_time_ms s + 3000 \<le> ms then [ms] else [])"
  "am_last_sound_time_ms (fst (alert_push wl now ms ev s)) =
     (if am_min_level s \<le> ev_level ev \<and> am_sound_enabled s \<and> HIGH \<le> ev_level ev \<and> am_last_sound_time_ms s + 3000 \<le> ms then ms else am_last_sound_time_ms s)"
  by (auto simp: alert_push_def play_sound_def show_balloon_def beeps_def alert_record_def SOUND_COOLDOWN_MS_def Let_def)

lemma sounds_after:
  "sorted_wrt (\<lambda>a b. a + 3000 \<le> b) (beeps (snd (al_run wl ops s))) \<and> (\<forall>t \<in> set (beeps (snd (al_run wl ops s))). am_last_sound_time_ms s + 3000 \<le> t)"
proof (induction ops arbitrary: s)
  case (Cons op ops)
  let ?s1 = "fst (al_exec wl op s)"
  have same: "beeps (map (Pair k) (snd (al_exec wl op s))) = [] \<and> am_last_sound_time_ms ?s1 = am_last_sound_time_ms s" if "\<And>now ms ev. op \<noteq> LPush now ms ev" for k
    using that by (cases op) (auto simp: beeps_def alert_acknowledge_def acknowledge_all_def alert_clear_def set_min_level_def set_sound_enabled_def
      set_toast_enabled_def set_notification_callback_def disable_tray_def)
  show ?case
  proof (cases "\<exists>now ms ev. op = LPush now ms ev")
    case True
    then obtain now ms ev where op: "op = LPush now ms ev" by blast
    show ?thesis using Cons.IH [of ?s1] push_beeps [where ms = ms and wl = wl and now = now and ev = ev and s = s]
      by (fastforce simp: op case_prod_beta split: if_splits)
  next
    case False
    then show ?thesis using Cons.IH [of ?s1] same by (simp add: case_prod_beta)
  qed
qed (simp add: beeps_def)

lemma tray_ok_exec: "tray_ok (am_tray s) \<Longrightarrow> tray_ok (am_tray (fst (al_exec wl op s)))"
  by (cases op) (auto simp: tray_ok_def alert_push_def play_sound_def cleanup_tray_def Let_def alert_acknowledge_def acknowledge_all_def alert_clear_def
    set_min_level_def set_sound_enabled_def set_toast_enabled_def set_notification_callback_def disable_tray_def)

lemma tray_ok_run: "tray_ok (am_tray s) \<Longrightarrow> tray_ok (am_tray (fst (al_run wl ops s)))"
proof (induction ops arbitrary: s)
  case (Cons op ops)
  show ?case using Cons.IH [OF tray_ok_exec [OF Cons.prems, of wl op]] by (simp add: case_prod_beta)
qed simp

text \<open>
  Whatever calls are made, two sounds are at least three seconds apart, and a tray icon that is in use has its window and
  window class; with the tray disabled no call but a later construction brings a balloon back.
\<close>

theorem alert_effects_bounded:
  "sorted_wrt (\<lambda>t u. t + 3000 \<le> u) (beeps (snd (al_run wl ops (AlertManager_new a b c)))) \<and>
   tray_ok (am_tray (fst (al_run wl ops (AlertManager_new a b c)))) \<and>
   (t, Balloon i title info) \<notin> set (snd (al_run wl ops (disable_tray s)))"
proof -
  have off: "\<not> tr_initialized (am_tray s) \<Longrightarrow> (t, Balloon i title info) \<notin> set (snd (al_run wl ops s))" for s
  proof (induction ops arbitrary: s)
    case (Cons op ops)
    have "\<not> tr_initialized (am_tray (fst (al_exec wl op s)))" "Balloon i title info \<notin> set (snd (al_exec wl op s))"
      using Cons.prems by (cases op; auto simp: alert_push_def play_sound_def show_balloon_def cleanup_tray_def Let_def alert_acknowledge_def
        acknowledge_all_def alert_clear_def set_min_level_def set_sound_enabled_def set_toast_enabled_def set_notification_callback_def disable_tray_def)+
    then show ?case using Cons.IH by (auto simp: case_prod_beta)
  qed simp
  have "tray_ok (am_tray (AlertManager_new a b c))" by (simp add: tray_ok_def AlertManager_new_def init_tray_def Let_def)
  moreover have "\<not> tr_initialized (am_tray (disable_tray s))" by (simp add: disable_tray_def cleanup_tray_def Let_def)
  ultimately show ?thesis using sounds_after tray_ok_run off by blast
qed

end
