(* ===== verification/Network_Dpi.thy ===== *)
theory Network_Dpi
  imports Engine_Base
begin

text \<open>
  \<^verbatim>\<open>engines/network_dpi_engine.{hpp,cpp}\<close>: the checks on the metadata of a packet, the alert log, and the detection of
  beacons from the times of the connections to one destination. The timelines are an association list in
  insertion order; the square root is a parameter. The lemmas say which alerts a packet gives, what is kept of the
  timelines, and that a beacon is reported once as long as it goes on.
\<close>

section \<open>Model\<close>

datatype DpiProtocol = PROTO_UNKNOWN | PROTO_HTTP | PROTO_HTTPS | PROTO_DNS | PROTO_SMTP | PROTO_FTP | PROTO_SSH | PROTO_RDP
  | PROTO_SMB | PROTO_IRC | PROTO_RAW
datatype DpiVerdict = CLEAN | SUSPICIOUS | MALICIOUS | BLOCKED

record PacketMeta =
  pk_id :: u64
  pk_timestamp :: time_point
  pk_protocol :: DpiProtocol
  pk_src_ip :: string
  pk_src_port :: u16
  pk_dst_ip :: string
  pk_dst_port :: u16
  pk_payload_size :: u32
  pk_payload_entropy :: double
  pk_hostname :: string
  pk_user_agent :: string
  pk_tls_issuer :: string
  pk_tls_subject :: string
  pk_tls_self_signed :: bool
  pk_tls_expired :: bool
  pk_http_status :: int
  pk_http_method :: string
  pk_uri :: string

record BeaconPattern =
  bp_dst_ip :: string
  bp_dst_port :: u16
  bp_connection_count :: nat
  bp_interval_mean_ms :: double
  bp_interval_stddev_ms :: double
  bp_jitter_ratio :: double
  bp_beacon_score :: double

record DpiAlert =
  da_id :: u64
  da_verdict :: DpiVerdict
  da_level :: ThreatLevel
  da_rule_name :: string
  da_description :: string
  da_src_ip :: string
  da_dst_ip :: string
  da_dst_port :: u16
  da_protocol :: DpiProtocol
  da_timestamp :: time_point

record ConnectionTimeline =
  ct_timestamps :: "time_point list"
  ct_dst_ip :: string
  ct_dst_port :: u16

definition BEACON_MIN_CONNECTIONS :: nat where "BEACON_MIN_CONNECTIONS = 5"
definition BEACON_SCORE_THRESHOLD :: double where "BEACON_SCORE_THRESHOLD = fl (70/100)"
definition DPI_HIGH_ENTROPY :: double where "DPI_HIGH_ENTROPY = fl (72/10)"
definition MAX_ALERTS :: nat where "MAX_ALERTS = 2000"
definition MAX_PACKETS :: nat where "MAX_PACKETS = 10000"

record NetworkDpiEngine =
  nd_running :: bool
  nd_events_processed :: u64
  nd_threats_detected :: u64
  nd_next_id :: u64
  nd_next_alert_id :: u64
  nd_packets :: "PacketMeta list"
  nd_alerts :: "DpiAlert list"
  nd_conn_timelines :: "(string \<times> ConnectionTimeline) list"
  nd_reported_beacons :: "string set"

definition NetworkDpiEngine_new :: NetworkDpiEngine where
  "NetworkDpiEngine_new = \<lparr>nd_running = False, nd_events_processed = 0, nd_threats_detected = 0, nd_next_id = 1, nd_next_alert_id = 1,
     nd_packets = [], nd_alerts = [], nd_conn_timelines = [], nd_reported_beacons = {}\<rparr>"

definition suspicious_agents :: "string list" where
  "suspicious_agents = [''python-requests'', ''go-http-client'', ''wget'', ''curl'', ''powershell'', ''certutil'', ''bitsadmin'', ''cobalt'',
     ''beacon'', ''meterpreter'', ''empire'', ''covenant'', ''sliver'']"

definition suspicious_uri_patterns :: "string list" where
  "suspicious_uri_patterns = [''/admin/upload'', ''/shell'', ''/cmd'', ''/exec'', ''/c2/'', ''/beacon/'', ''/implant/'', ''..%2f'', ''..%5c'',
     ''%00'', ''/wp-admin/admin-ajax.php?action='', ''.php?cmd='', ''.asp?exec='', ''.jsp?cmd='', ''/cgi-bin/'', ''eval('', ''base64,'']"

definition known_c2_ports :: "u16 list" where
  "known_c2_ports = [4444, 5555, 8443, 8888, 9999, 1337, 31337, 6666, 6667, 6668, 6669, 4443, 2222, 3333, 7777, 50050, 50051]"

definition classify_port :: "u16 \<Rightarrow> DpiProtocol" where
  "classify_port port =
     (if port = 80 then PROTO_HTTP
      else if port \<in> {443, 8443} then PROTO_HTTPS
      else if port = 53 then PROTO_DNS
      else if port \<in> {25, 587, 465} then PROTO_SMTP
      else if port = 21 then PROTO_FTP
      else if port = 22 then PROTO_SSH
      else if port = 3389 then PROTO_RDP
      else if port \<in> {445, 139} then PROTO_SMB
      else if port \<in> {6667, 6668, 6669} then PROTO_IRC
      else PROTO_UNKNOWN)"

definition is_suspicious_user_agent :: "string \<Rightarrow> bool" where
  "is_suspicious_user_agent ua =
     (if ua = [] then False else let lower = map tolower_c ua in list_ex (\<lambda>s. contains_text s lower) suspicious_agents)"

definition is_suspicious_uri :: "string \<Rightarrow> bool" where
  "is_suspicious_uri uri =
     (if uri = [] then False else let lower = map tolower_c uri in list_ex (\<lambda>p. contains_text p lower) suspicious_uri_patterns)"

definition is_known_c2_port :: "u16 \<Rightarrow> bool" where
  "is_known_c2_port port \<longleftrightarrow> port \<in> set known_c2_ports"

section \<open>Alerts\<close>

definition dpi_threat :: "time_point \<Rightarrow> ThreatLevel \<Rightarrow> string \<Rightarrow> string \<Rightarrow> PacketMeta \<Rightarrow> ThreatEvent" where
  "dpi_threat now level rule desc pkt = ThreatEvent_default\<lparr>ev_level := level, ev_category := NETWORK_SCAN, ev_source_ip := pk_src_ip pkt,
     ev_source_port := pk_src_port pkt, ev_description := ''['' @ rule @ ''] '' @ desc, ev_timestamp := now\<rparr>"

definition dpi_observation :: "time_point \<Rightarrow> DpiVerdict \<Rightarrow> ThreatLevel \<Rightarrow> string \<Rightarrow> string \<Rightarrow> SecurityObservation" where
  "dpi_observation now verdict level rule desc = SecurityObservation_default\<lparr>obs_kind := NETWORK_CONNECTION, obs_suggested_level := level,
     obs_confidence := (if verdict = MALICIOUS then fl (9/10) else fl (6/10)), obs_evidence := ''['' @ rule @ ''] '' @ desc,
     obs_source_id := ''NetworkDPI'', obs_timestamp := now\<rparr>"

text \<open>Both callbacks are installed by the manager.\<close>

definition add_alert ::
  "time_point \<Rightarrow> DpiVerdict \<Rightarrow> ThreatLevel \<Rightarrow> string \<Rightarrow> string \<Rightarrow> PacketMeta \<Rightarrow> NetworkDpiEngine \<Rightarrow> NetworkDpiEngine \<times> emission list" where
  "add_alert now verdict level rule desc pkt s =
     (let alert = \<lparr>da_id = nd_next_alert_id s, da_verdict = verdict, da_level = level, da_rule_name = rule, da_description = desc,
            da_src_ip = pk_src_ip pkt, da_dst_ip = pk_dst_ip pkt, da_dst_port = pk_dst_port pkt, da_protocol = pk_protocol pkt, da_timestamp = now\<rparr>;
          s1 = s\<lparr>nd_next_alert_id := nd_next_alert_id s + 1, nd_alerts := pop_front_to MAX_ALERTS (nd_alerts s @ [alert])\<rparr>
      in if HIGH \<le> level then (s1\<lparr>nd_threats_detected := nd_threats_detected s1 + 1\<rparr>, [Threat (dpi_threat now level rule desc pkt)])
         else (s1, [Observation (dpi_observation now verdict level rule desc)]))"

text \<open>A check: when it holds, the alert it adds.\<close>

type_synonym dpi_check = "bool \<times> DpiVerdict \<times> ThreatLevel \<times> string \<times> string"

definition protocol_checks :: "PacketMeta \<Rightarrow> dpi_check list" where
  "protocol_checks pkt =
     [(pk_user_agent pkt \<noteq> [] \<and> is_suspicious_user_agent (pk_user_agent pkt), SUSPICIOUS, MEDIUM, ''SUSPICIOUS_USER_AGENT'',
        ''Suspicious User-Agent: '' @ pk_user_agent pkt @ '' connecting to '' @ pk_dst_ip pkt),
      (pk_uri pkt \<noteq> [] \<and> is_suspicious_uri (pk_uri pkt), MALICIOUS, HIGH, ''SUSPICIOUS_URI'',
        ''Suspicious URI pattern: '' @ pk_uri pkt @ '' to '' @ pk_dst_ip pkt),
      (pk_protocol pkt = PROTO_DNS \<and> 512 < pk_payload_size pkt, SUSPICIOUS, MEDIUM, ''DNS_LARGE_PAYLOAD'',
        ''Oversized DNS payload ('' @ to_string (unat (pk_payload_size pkt)) @ '' bytes) to '' @ pk_dst_ip pkt),
      (pk_protocol pkt = PROTO_IRC, SUSPICIOUS, MEDIUM, ''IRC_CONNECTION'',
        ''IRC connection to '' @ pk_dst_ip pkt @ '':'' @ to_string (unat (pk_dst_port pkt)) @ '' (common C2 channel)'')]"

definition tls_checks :: "PacketMeta \<Rightarrow> dpi_check list" where
  "tls_checks pkt =
     [(pk_tls_self_signed pkt, SUSPICIOUS, MEDIUM, ''TLS_SELF_SIGNED'',
        ''Self-signed TLS certificate from '' @ pk_dst_ip pkt @ '' (subject: '' @ pk_tls_subject pkt @ '')''),
      (pk_tls_expired pkt, SUSPICIOUS, LOW, ''TLS_EXPIRED'',
        ''Expired TLS certificate from '' @ pk_dst_ip pkt @ '' (issuer: '' @ pk_tls_issuer pkt @ '')'')]"

text \<open>
  \<^verbatim>\<open>static_cast<int>(entropy * 100) / 100\<close>. The cast of a value that \<^verbatim>\<open>int\<close> cannot hold is undefined in C++; entropies are at
  most 8.
\<close>

fun whole_bits :: "double \<Rightarrow> int" where
  "whole_bits (Fin x) = (let y = (if 0 \<le> x then \<lfloor>x\<rfloor> else \<lceil>x\<rceil>) in if 0 \<le> y then y div 100 else - ((- y) div 100))"
| "whole_bits _ = 0"

definition payload_checks :: "PacketMeta \<Rightarrow> dpi_check list" where
  "payload_checks pkt =
     [(dle DPI_HIGH_ENTROPY (pk_payload_entropy pkt) \<and> 256 < pk_payload_size pkt, SUSPICIOUS, MEDIUM, ''HIGH_ENTROPY_PAYLOAD'',
        ''High entropy payload ('' @ to_string (nat (whole_bits (dmul (pk_payload_entropy pkt) (fl 100)))) @ '' bits) to '' @ pk_dst_ip pkt @ '':'' @
          to_string (unat (pk_dst_port pkt))),
      (is_known_c2_port (pk_dst_port pkt), SUSPICIOUS, MEDIUM, ''KNOWN_C2_PORT'',
        ''Connection to known C2 port '' @ pk_dst_ip pkt @ '':'' @ to_string (unat (pk_dst_port pkt)))]"

fun run_checks :: "time_point \<Rightarrow> PacketMeta \<Rightarrow> dpi_check list \<Rightarrow> NetworkDpiEngine \<Rightarrow> NetworkDpiEngine \<times> emission list" where
  "run_checks now pkt [] s = (s, [])"
| "run_checks now pkt ((holds, verdict, level, rule, desc) # cs) s =
     (if holds then (case add_alert now verdict level rule desc pkt s of (s1, es) \<Rightarrow> case run_checks now pkt cs s1 of (s2, es') \<Rightarrow> (s2, es @ es'))
      else run_checks now pkt cs s)"

definition conn_key :: "string \<Rightarrow> u16 \<Rightarrow> string" where
  "conn_key dst_ip dst_port = dst_ip @ '':'' @ to_string (unat dst_port)"

definition record_packet :: "PacketMeta \<Rightarrow> NetworkDpiEngine \<Rightarrow> NetworkDpiEngine" where
  "record_packet pkt s =
     (let key = conn_key (pk_dst_ip pkt) (pk_dst_port pkt);
          old = (case map_of (nd_conn_timelines s) key of Some t \<Rightarrow> t | None \<Rightarrow> \<lparr>ct_timestamps = [], ct_dst_ip = [], ct_dst_port = 0\<rparr>);
          tml = \<lparr>ct_timestamps = pop_front_to 200 (ct_timestamps old @ [pk_timestamp pkt]), ct_dst_ip = pk_dst_ip pkt, ct_dst_port = pk_dst_port pkt\<rparr>
      in s\<lparr>nd_next_id := nd_next_id s + 1, nd_packets := pop_front_to MAX_PACKETS (nd_packets s @ [pkt\<lparr>pk_id := nd_next_id s\<rparr>]),
           nd_conn_timelines := AList.update key tml (nd_conn_timelines s)\<rparr>)"

definition dpi_checks :: "PacketMeta \<Rightarrow> dpi_check list" where
  "dpi_checks pkt = protocol_checks pkt @ tls_checks pkt @ payload_checks pkt"

definition inspect_packet :: "time_point \<Rightarrow> PacketMeta \<Rightarrow> NetworkDpiEngine \<Rightarrow> NetworkDpiEngine \<times> emission list" where
  "inspect_packet now pkt s =
     run_checks now pkt (dpi_checks pkt)
       (record_packet pkt (s\<lparr>nd_events_processed := nd_events_processed s + 1\<rparr>))"

definition recent_alerts :: "NetworkDpiEngine \<Rightarrow> nat \<Rightarrow> DpiAlert list" where
  "recent_alerts s n = (let c = min n (length (nd_alerts s)) in drop (length (nd_alerts s) - c) (nd_alerts s))"

section \<open>Beacons\<close>

text \<open>
  Double division and maximum and minimum as in \<^verbatim>\<open>std::max\<close> and \<^verbatim>\<open>std::min\<close>; the square root \<open>sq\<close> is a parameter. Differences of
  the nanosecond clock become whole milliseconds by truncation.
\<close>

fun ddiv :: "double \<Rightarrow> double \<Rightarrow> double" where
  "ddiv (Fin a) (Fin b) = (if b = 0 then (if a = 0 then NaN else if 0 < a then PInf else NInf) else fl (a / b))"
| "ddiv NaN _ = NaN"
| "ddiv _ NaN = NaN"
| "ddiv (Fin a) _ = Fin 0"
| "ddiv PInf (Fin b) = (if 0 \<le> b then PInf else NInf)"
| "ddiv NInf (Fin b) = (if 0 \<le> b then NInf else PInf)"
| "ddiv _ _ = NaN"

fun dnegate :: "double \<Rightarrow> double" where
  "dnegate (Fin x) = Fin (- x)"
| "dnegate PInf = NInf"
| "dnegate NInf = PInf"
| "dnegate NaN = NaN"

definition dsub :: "double \<Rightarrow> double \<Rightarrow> double" where
  "dsub a b = dadd a (dnegate b)"

definition dmax :: "double \<Rightarrow> double \<Rightarrow> double" where
  "dmax a b = (if dlt a b then b else a)"

definition dmin :: "double \<Rightarrow> double \<Rightarrow> double" where
  "dmin a b = (if dlt b a then b else a)"

definition compute_beacon_score :: "double \<Rightarrow> double \<Rightarrow> nat \<Rightarrow> double" where
  "compute_beacon_score mean stddev n =
     (if n < BEACON_MIN_CONNECTIONS \<or> dle mean (Fin 0) then Fin 0
      else let jitter = (if dlt (Fin 0) mean then ddiv stddev mean else Fin 1);
               regularity = dmax (Fin 0) (dsub (Fin 1) jitter);
               count_factor = dmin (Fin 1) (ddiv (fl (of_nat n)) (fl 20));
               v = dadd (dmul regularity (fl (7/10))) (dmul count_factor (fl (3/10)))
           in if dlt v (Fin 0) then Fin 0 else if dlt (Fin 1) v then Fin 1 else v)"

definition to_millis :: "int \<Rightarrow> int" where
  "to_millis ns = (if 0 \<le> ns then ns div 1000000 else - ((- ns) div 1000000))"

definition intervals :: "time_point list \<Rightarrow> double list" where
  "intervals ts = map (\<lambda>i. fl (of_int (to_millis (ts ! i - ts ! (i - 1))))) [1..<length ts]"

definition interval_stats :: "(double \<Rightarrow> double) \<Rightarrow> time_point list \<Rightarrow> double \<times> double" where
  "interval_stats sq ts =
     (let ivs = intervals ts; n = fl (of_nat (length ivs)); mean = ddiv (foldl dadd (Fin 0) ivs) n;
          sq_sum = foldl (\<lambda>a v. dadd a (dmul (dsub v mean) (dsub v mean))) (Fin 0) ivs
      in (mean, sq (ddiv sq_sum n)))"

definition beacon_score :: "(double \<Rightarrow> double) \<Rightarrow> ConnectionTimeline \<Rightarrow> double option" where
  "beacon_score sq tml =
     (if length (ct_timestamps tml) < BEACON_MIN_CONNECTIONS then None
      else if intervals (ct_timestamps tml) = [] then None
      else case interval_stats sq (ct_timestamps tml) of (mean, stddev) \<Rightarrow> Some (compute_beacon_score mean stddev (length (ct_timestamps tml))))"

definition beacon_pattern :: "(double \<Rightarrow> double) \<Rightarrow> ConnectionTimeline \<Rightarrow> double \<Rightarrow> BeaconPattern" where
  "beacon_pattern sq tml score =
     (case interval_stats sq (ct_timestamps tml) of (mean, stddev) \<Rightarrow>
        \<lparr>bp_dst_ip = ct_dst_ip tml, bp_dst_port = ct_dst_port tml, bp_connection_count = length (ct_timestamps tml), bp_interval_mean_ms = mean,
          bp_interval_stddev_ms = stddev, bp_jitter_ratio = (if dlt (Fin 0) mean then ddiv stddev mean else Fin 0), bp_beacon_score = score\<rparr>)"

definition is_beacon :: "(double \<Rightarrow> double) \<Rightarrow> ConnectionTimeline \<Rightarrow> bool" where
  "is_beacon sq tml \<longleftrightarrow> (case beacon_score sq tml of Some score \<Rightarrow> dle BEACON_SCORE_THRESHOLD score | None \<Rightarrow> False)"

text \<open>The loop stops after \<open>n\<close> results, but at least one; then the results are sorted by falling score.\<close>

definition detected_beacons :: "(double \<Rightarrow> double) \<Rightarrow> NetworkDpiEngine \<Rightarrow> nat \<Rightarrow> BeaconPattern list" where
  "detected_beacons sq s n =
     sort_key (\<lambda>b. - (case bp_beacon_score b of Fin x \<Rightarrow> x | _ \<Rightarrow> 0))
       (take (max 1 n) (map (\<lambda>(k, tml). beacon_pattern sq tml (the (beacon_score sq tml))) (filter (\<lambda>(k, tml). is_beacon sq tml) (nd_conn_timelines s))))"

fun truncate_int :: "double \<Rightarrow> int" where
  "truncate_int (Fin x) = (if 0 \<le> x then \<lfloor>x\<rfloor> else \<lceil>x\<rceil>)"
| "truncate_int _ = 0"

definition beacon_threat :: "(double \<Rightarrow> double) \<Rightarrow> time_point \<Rightarrow> ConnectionTimeline \<Rightarrow> double \<Rightarrow> ThreatEvent" where
  "beacon_threat sq now tml score = ThreatEvent_default\<lparr>ev_level := HIGH, ev_category := C2_BEACON, ev_source_ip := ct_dst_ip tml,
     ev_source_port := ct_dst_port tml,
     ev_description := ''Beaconing detected to '' @ ct_dst_ip tml @ '':'' @ to_string (unat (ct_dst_port tml)) @ '' '' @ em_dash @ '' '' @
       to_string (length (ct_timestamps tml)) @ '' connections, interval='' @
       to_string (nat (truncate_int (fst (interval_stats sq (ct_timestamps tml))))) @ ''ms, score='' @
       to_string (nat (truncate_int (dmul score (fl 100)))) @ ''%'',
     ev_timestamp := now\<rparr>"

text \<open>One timeline: too few connections change nothing; a beacon is reported unless it already was; otherwise the report is forgotten.\<close>

definition beacon_step ::
  "(double \<Rightarrow> double) \<Rightarrow> time_point \<Rightarrow> string \<times> ConnectionTimeline \<Rightarrow> string set \<times> ThreatEvent list \<Rightarrow> string set \<times> ThreatEvent list" where
  "beacon_step sq now e acc = (case e of (key, tml) \<Rightarrow> case acc of (reported, evs) \<Rightarrow>
     case beacon_score sq tml of
       None \<Rightarrow> acc
     | Some score \<Rightarrow>
         if dle BEACON_SCORE_THRESHOLD score then
           if key \<in> reported then acc else (insert key reported, evs @ [beacon_threat sq now tml score])
         else (reported - {key}, evs))"

definition analyze_beacons :: "(double \<Rightarrow> double) \<Rightarrow> time_point \<Rightarrow> NetworkDpiEngine \<Rightarrow> NetworkDpiEngine \<times> emission list" where
  "analyze_beacons sq now s =
     (case fold (beacon_step sq now) (nd_conn_timelines s) (nd_reported_beacons s, []) of (reported, evs) \<Rightarrow>
        (s\<lparr>nd_reported_beacons := reported, nd_threats_detected := nd_threats_detected s + of_nat (length evs)\<rparr>, map Threat evs))"

definition nd_start :: "NetworkDpiEngine \<Rightarrow> ErrorCode \<times> NetworkDpiEngine" where
  "nd_start s = (if nd_running s then (OK, s) else (OK, s\<lparr>nd_running := True\<rparr>))"

definition nd_stop :: "NetworkDpiEngine \<Rightarrow> ErrorCode \<times> NetworkDpiEngine" where
  "nd_stop s = (if \<not> nd_running s then (OK, s) else (OK, s\<lparr>nd_running := False\<rparr>))"

definition nd_monitor_round :: "(double \<Rightarrow> double) \<Rightarrow> time_point \<Rightarrow> NetworkDpiEngine \<Rightarrow> NetworkDpiEngine \<times> emission list" where
  "nd_monitor_round sq now s = (if \<not> nd_running s then (s, []) else analyze_beacons sq now s)"

section \<open>The alerts of a packet\<close>

definition check_emission :: "time_point \<Rightarrow> PacketMeta \<Rightarrow> dpi_check \<Rightarrow> emission" where
  "check_emission now pkt c = (case c of (holds, verdict, level, rule, desc) \<Rightarrow>
     if HIGH \<le> level then Threat (dpi_threat now level rule desc pkt) else Observation (dpi_observation now verdict level rule desc))"

lemma run_checks_emissions: "snd (run_checks now pkt cs s) = map (check_emission now pkt) (filter fst cs)"
  by (induction now pkt cs s rule: run_checks.induct)
    (auto simp: add_alert_def Let_def check_emission_def split: prod.split if_splits)

lemma run_checks_frame:
  "nd_packets (fst (run_checks now pkt cs s)) = nd_packets s \<and>
   nd_conn_timelines (fst (run_checks now pkt cs s)) = nd_conn_timelines s \<and>
   nd_reported_beacons (fst (run_checks now pkt cs s)) = nd_reported_beacons s \<and>
   nd_next_alert_id (fst (run_checks now pkt cs s)) = nd_next_alert_id s + of_nat (length (filter fst cs)) \<and>
   nd_threats_detected (fst (run_checks now pkt cs s)) = nd_threats_detected s + of_nat (length (threats (snd (run_checks now pkt cs s))))"
  by (induction now pkt cs s rule: run_checks.induct) (auto simp: add_alert_def Let_def split: prod.split if_splits)

lemma run_checks_alerts:
  "length (nd_alerts s) \<le> MAX_ALERTS \<Longrightarrow> length (nd_alerts (fst (run_checks now pkt cs s))) \<le> MAX_ALERTS"
  by (induction now pkt cs s rule: run_checks.induct)
    (auto simp: add_alert_def Let_def pop_front_to_drop split: prod.split if_splits)

lemma threats_of_checks:
  "threats (map (check_emission now pkt) cs) = map (\<lambda>(h, v, l, r, d). dpi_threat now l r d pkt) (filter (\<lambda>(h, v, l, r, d). HIGH \<le> l) cs)"
  by (induction cs) (auto simp: check_emission_def)

lemma inspect_emissions: "snd (inspect_packet now pkt s) = map (check_emission now pkt) (filter fst (dpi_checks pkt))"
  by (simp add: inspect_packet_def run_checks_emissions)

text \<open>
  A packet leads to one call of a callback for each check that holds, in the order of the checks. Only a suspicious URI is
  a threat, whatever else is wrong with the packet; every other finding is an observation.
\<close>

theorem packet_emissions:
  "snd (inspect_packet now pkt s) = map (check_emission now pkt) (filter fst (dpi_checks pkt)) \<and>
   threats (snd (inspect_packet now pkt s)) =
     (if is_suspicious_uri (pk_uri pkt)
      then [dpi_threat now HIGH ''SUSPICIOUS_URI'' (''Suspicious URI pattern: '' @ pk_uri pkt @ '' to '' @ pk_dst_ip pkt) pkt] else []) \<and>
   length (observations (snd (inspect_packet now pkt s))) + length (threats (snd (inspect_packet now pkt s))) = length (filter fst (dpi_checks pkt))"
proof -
  have hi: "filter (\<lambda>(h, v, l, r, d). HIGH \<le> l) (filter fst (dpi_checks pkt)) =
      filter (\<lambda>(h, v, l, r, d). h \<and> HIGH \<le> l) (dpi_checks pkt)"
    unfolding filter_filter by (rule arg_cong2 [where f = filter]) auto
  have thr: "threats (snd (inspect_packet now pkt s)) =
     (if is_suspicious_uri (pk_uri pkt)
      then [dpi_threat now HIGH ''SUSPICIOUS_URI'' (''Suspicious URI pattern: '' @ pk_uri pkt @ '' to '' @ pk_dst_ip pkt) pkt] else [])"
    unfolding inspect_emissions threats_of_checks hi
    by (simp add: dpi_checks_def protocol_checks_def tls_checks_def payload_checks_def less_eq_ThreatLevel_def is_suspicious_uri_def)
  have "length (observations es) + length (threats es) = length es" for es
    by (induction es rule: observations.induct) auto
  then show ?thesis using thr inspect_emissions [of now pkt s] by (metis length_map)
qed

text \<open>The confidence 0.9 of a malicious finding is never sent: the only malicious verdict is raised at the level of a threat.\<close>

lemma malicious_is_threat: "(h, v, l, r, d) \<in> set (dpi_checks pkt) \<Longrightarrow> l \<noteq> SAFE \<and> (HIGH \<le> l \<or> v = SUSPICIOUS)"
  unfolding dpi_checks_def protocol_checks_def tls_checks_def payload_checks_def set_append Un_iff list.set
  by (elim disjE insertE) (simp_all add: less_eq_ThreatLevel_def)

lemma observation_confidence:
  assumes "Observation obs \<in> set (snd (inspect_packet now pkt s))"
  shows "obs_confidence obs = fl (6/10)" "obs_source_id obs = ''NetworkDPI''" "obs_evidence obs \<noteq> []" "obs_suggested_level obs \<noteq> SAFE"
proof -
  from assms obtain c where c: "c \<in> set (dpi_checks pkt)" "Observation obs = check_emission now pkt c"
    unfolding inspect_emissions set_map by fastforce
  obtain h v l r d where e: "c = (h, v, l, r, d)" by (cases c)
  then have o1: "obs = dpi_observation now v l r d" and l: "\<not> HIGH \<le> l" using c(2) by (auto simp: check_emission_def split: if_splits)
  with malicious_is_threat [of h v l r d pkt] c(1) e have v: "v = SUSPICIOUS" and "l \<noteq> SAFE" by auto
  show "obs_confidence obs = fl (6/10)" "obs_source_id obs = ''NetworkDPI''" "obs_evidence obs \<noteq> []" "obs_suggested_level obs \<noteq> SAFE"
    unfolding o1 v dpi_observation_def using \<open>l \<noteq> SAFE\<close> by (simp_all add: SecurityObservation_default_def)
qed

section \<open>The state of the engine\<close>

definition timeline_ok :: "string \<Rightarrow> ConnectionTimeline \<Rightarrow> bool" where
  "timeline_ok k tml \<longleftrightarrow> k = conn_key (ct_dst_ip tml) (ct_dst_port tml) \<and> 0 < length (ct_timestamps tml) \<and> length (ct_timestamps tml) \<le> 200"

definition dpi_ok :: "NetworkDpiEngine \<Rightarrow> bool" where
  "dpi_ok s \<longleftrightarrow> distinct (map fst (nd_conn_timelines s)) \<and> length (nd_alerts s) \<le> MAX_ALERTS \<and> length (nd_packets s) \<le> MAX_PACKETS \<and>
     (\<forall>(k, tml) \<in> set (nd_conn_timelines s). timeline_ok k tml)"

lemma dpi_ok_new: "dpi_ok NetworkDpiEngine_new"
  by (simp add: dpi_ok_def NetworkDpiEngine_new_def)

lemma set_alist_update: "\<forall>(k, v) \<in> set al. P k v \<Longrightarrow> P key v' \<Longrightarrow> \<forall>(k, v) \<in> set (AList.update key v' al). P k v"
  by (induction al) auto

lemma record_packet_ok:
  assumes "dpi_ok s"
  shows "dpi_ok (record_packet pkt s)"
proof -
  have "timeline_ok (conn_key (pk_dst_ip pkt) (pk_dst_port pkt))
      \<lparr>ct_timestamps = pop_front_to 200 (ts @ [pk_timestamp pkt]), ct_dst_ip = pk_dst_ip pkt, ct_dst_port = pk_dst_port pkt\<rparr>" for ts
    by (simp add: timeline_ok_def pop_front_to_drop)
  note tml_ok = this
  have "length (pop_front_to MAX_PACKETS xs) \<le> MAX_PACKETS" for xs :: "PacketMeta list" by (simp add: pop_front_to_drop)
  moreover have "\<forall>(k, tml) \<in> set (AList.update (conn_key (pk_dst_ip pkt) (pk_dst_port pkt))
      \<lparr>ct_timestamps = pop_front_to 200 (ts @ [pk_timestamp pkt]), ct_dst_ip = pk_dst_ip pkt, ct_dst_port = pk_dst_port pkt\<rparr>
      (nd_conn_timelines s)). timeline_ok k tml" for ts
    using assms tml_ok by (intro set_alist_update) (simp_all add: dpi_ok_def)
  ultimately show ?thesis using assms unfolding dpi_ok_def record_packet_def Let_def by (simp add: distinct_update)
qed

lemma inspect_packet_ok: "dpi_ok s \<Longrightarrow> dpi_ok (fst (inspect_packet now pkt s))"
proof -
  assume "dpi_ok s"
  then have "dpi_ok (record_packet pkt (s\<lparr>nd_events_processed := nd_events_processed s + 1\<rparr>))"
    by (intro record_packet_ok) (simp add: dpi_ok_def)
  then show ?thesis by (simp add: inspect_packet_def dpi_ok_def run_checks_frame run_checks_alerts)
qed

section \<open>Beacons are reported once\<close>

text \<open>A round of the analysis reports, in the order of the timelines, the beacons that are not yet reported.\<close>

lemma beacon_step_eq:
  "beacon_step sq now (key, tml) (reported, evs) =
    (if is_beacon sq tml then insert key reported else if beacon_score sq tml = None then reported else reported - {key},
     evs @ (if is_beacon sq tml \<and> key \<notin> reported then [beacon_threat sq now tml (the (beacon_score sq tml))] else []))"
  by (auto simp: beacon_step_def is_beacon_def split: option.split)

lemma fold_beacon_step:
  assumes "distinct (map fst al)"
  shows "fold (beacon_step sq now) al (reported, evs) =
    ({k. case map_of al k of Some tml \<Rightarrow> is_beacon sq tml \<or> beacon_score sq tml = None \<and> k \<in> reported | None \<Rightarrow> k \<in> reported},
     evs @ map (\<lambda>(k, tml). beacon_threat sq now tml (the (beacon_score sq tml))) (filter (\<lambda>(k, tml). is_beacon sq tml \<and> k \<notin> reported) al))"
  using assms
proof (induction al arbitrary: reported evs)
  case (Cons e al)
  obtain key tml where e: "e = (key, tml)" by (cases e)
  define reported' where
    "reported' = (if is_beacon sq tml then insert key reported else if beacon_score sq tml = None then reported else reported - {key})"
  have key: "key \<notin> fst ` set al" "map_of al key = None" and d: "distinct (map fst al)"
    using Cons.prems by (auto simp: e map_of_eq_None_iff)
  have others: "k \<in> reported' \<longleftrightarrow> k \<in> reported" if "k \<noteq> key" for k using that by (simp add: reported'_def)
  have same: "filter (\<lambda>(k, tml). is_beacon sq tml \<and> k \<notin> reported') al = filter (\<lambda>(k, tml). is_beacon sq tml \<and> k \<notin> reported) al"
    using key(1) others by (intro filter_cong) (force simp: image_iff)+
  have sets: "{k. case map_of al k of Some tml \<Rightarrow> is_beacon sq tml \<or> beacon_score sq tml = None \<and> k \<in> reported' | None \<Rightarrow> k \<in> reported'} =
      {k. case map_of (e # al) k of Some tml \<Rightarrow> is_beacon sq tml \<or> beacon_score sq tml = None \<and> k \<in> reported | None \<Rightarrow> k \<in> reported}"
  proof (intro Collect_cong)
    fix k
    show "(case map_of al k of Some tml \<Rightarrow> is_beacon sq tml \<or> beacon_score sq tml = None \<and> k \<in> reported' | None \<Rightarrow> k \<in> reported') =
      (case map_of (e # al) k of Some tml \<Rightarrow> is_beacon sq tml \<or> beacon_score sq tml = None \<and> k \<in> reported | None \<Rightarrow> k \<in> reported)"
    proof (cases "k = key")
      case True
      then show ?thesis using key(2) by (simp add: e reported'_def is_beacon_def)
    next
      case False
      then show ?thesis using others [OF False] by (simp add: e split: option.split)
    qed
  qed
  show ?case unfolding fold_Cons comp_apply e beacon_step_eq reported'_def [symmetric] Cons.IH [OF d] same
    using sets by (simp add: e)
qed simp

theorem beacons_reported_once:
  assumes "dpi_ok s" "analyze_beacons sq now s = (s1, es)"
  shows "es = map (\<lambda>(k, tml). Threat (beacon_threat sq now tml (the (beacon_score sq tml))))
      (filter (\<lambda>(k, tml). is_beacon sq tml \<and> k \<notin> nd_reported_beacons s) (nd_conn_timelines s)) \<and>
    (\<forall>(k, tml) \<in> set (nd_conn_timelines s). is_beacon sq tml \<longrightarrow> k \<in> nd_reported_beacons s1) \<and>
    (\<forall>(k, tml) \<in> set (nd_conn_timelines s). \<not> is_beacon sq tml \<and> beacon_score sq tml \<noteq> None \<longrightarrow> k \<notin> nd_reported_beacons s1) \<and>
    snd (analyze_beacons sq later s1) = []"
proof -
  have d: "distinct (map fst (nd_conn_timelines s))" using assms(1) by (simp add: dpi_ok_def)
  note f = fold_beacon_step [OF d]
  have s1: "nd_conn_timelines s1 = nd_conn_timelines s"
    "nd_reported_beacons s1 = {k. case map_of (nd_conn_timelines s) k of
       Some tml \<Rightarrow> is_beacon sq tml \<or> beacon_score sq tml = None \<and> k \<in> nd_reported_beacons s | None \<Rightarrow> k \<in> nd_reported_beacons s}"
    using assms(2) by (auto simp: analyze_beacons_def f)
  have m: "map_of (nd_conn_timelines s) k = Some tml" if "(k, tml) \<in> set (nd_conn_timelines s)" for k tml
    using that d by simp
  have es: "es = map (\<lambda>(k, tml). Threat (beacon_threat sq now tml (the (beacon_score sq tml))))
      (filter (\<lambda>(k, tml). is_beacon sq tml \<and> k \<notin> nd_reported_beacons s) (nd_conn_timelines s))"
    using assms(2) by (auto simp: analyze_beacons_def f)
  have "filter (\<lambda>(k, tml). is_beacon sq tml \<and> k \<notin> nd_reported_beacons s1) (nd_conn_timelines s1) = []"
    by (auto simp: filter_empty_conv s1 m)
  then have "snd (analyze_beacons sq later s1) = []" using d by (simp add: analyze_beacons_def f s1(1) case_prod_beta)
  then show ?thesis using es by (auto simp: s1 m)
qed

lemma foldl_dadd_replicate:
  "(k + m) * d < 2 ^ 53 \<Longrightarrow> foldl dadd (Fin (of_nat (m * d))) (replicate k (Fin (of_nat d))) = Fin (of_nat ((k + m) * d))"
proof (induction k arbitrary: m)
  case (Suc k)
  have "dadd (Fin (of_nat (m * d))) (Fin (of_nat d)) = Fin (of_nat (Suc m * d))"
  proof -
    have "Suc m * d \<le> (Suc k + m) * d" by (intro mult_right_mono) auto
    then have "Suc m * d < 2 ^ 53" using Suc.prems by (rule le_less_trans)
    from fl_of_nat [OF this] show ?thesis by (simp add: add.commute)
  qed
  then show ?case using Suc.IH [of "Suc m"] Suc.prems by simp
qed simp

lemma fl_0 [simp]: "fl 0 = Fin 0"
  using fl_of_nat [of 0] by simp

lemma fl_1 [simp]: "fl 1 = Fin 1"
  using fl_of_nat [of 1] by simp

lemma foldl_zeros: "foldl (\<lambda>a v. dadd a (dmul (dsub v x) (dsub v x))) (Fin 0) (replicate k x) = Fin 0" if "x = Fin r" for x
  by (induction k) (simp_all add: that dsub_def)

text \<open>Connections at equal distances have no deviation, and the score of such a timeline reaches the threshold.\<close>

lemma regular_stats:
  assumes "sq (Fin 0) = Fin 0" "2 \<le> length ts" "\<forall>i < length ts - 1. to_millis (ts ! Suc i - ts ! i) = int d"
    "length ts * d < 2 ^ 53" "length ts < 2 ^ 53"
  shows "interval_stats sq ts = (Fin (of_nat d), Fin 0)"
proof -
  let ?k = "length ts - 1"
  have kd: "?k * d \<le> length ts * d" by (intro mult_right_mono) auto
  have d: "d < 2 ^ 53" using assms(2,4) le_less_trans [of d "length ts * d"] by (cases "length ts") auto
  have ivs: "intervals ts = replicate ?k (Fin (of_nat d))"
  proof (rule nth_equalityI)
    fix i assume "i < length (intervals ts)"
    then have i: "i < ?k" by (simp add: intervals_def)
    then have "to_millis (ts ! Suc i - ts ! i) = int d" using assms(3) by simp
    then show "intervals ts ! i = replicate ?k (Fin (of_nat d)) ! i" using i fl_of_nat [OF d] by (simp add: intervals_def)
  qed (simp add: intervals_def)
  have n: "fl (of_nat (length (intervals ts))) = Fin (of_nat ?k)" using assms(5) by (simp add: ivs fl_of_nat)
  have "foldl dadd (Fin 0) (intervals ts) = Fin (of_nat (?k * d))"
    using foldl_dadd_replicate [of ?k 0 d] le_less_trans [OF kd assms(4)] by (simp add: ivs)
  then have mean: "ddiv (foldl dadd (Fin 0) (intervals ts)) (fl (of_nat (length (intervals ts)))) = Fin (of_nat d)"
    using assms(2) fl_of_nat [OF d] by (simp add: n)
  have "foldl (\<lambda>a v. dadd a (dmul (dsub v (Fin (of_nat d))) (dsub v (Fin (of_nat d))))) (Fin 0) (intervals ts) = Fin 0"
    unfolding ivs by (rule foldl_zeros) simp
  then show ?thesis using assms(1,2) by (simp add: interval_stats_def Let_def mean) (simp add: n)
qed

lemma regular_score:
  assumes "5 \<le> n" "n < 2 ^ 53" "0 < d"
  shows "dle BEACON_SCORE_THRESHOLD (compute_beacon_score (Fin (of_nat d)) (Fin 0) n)"
proof -
  define r where "r = rnd (7/10 :: rat)"
  have il: "ilog2 (7/10) = - 1" by (rule ilog2_unique) (simp_all add: power_int_minus)
  have r: "fl (7/10) = Fin r" "0 \<le> r" "r \<le> 1" "rnd r = r" "0 < r"
    using fl_range [of "7/10" 1] rnd_range [of "7/10" 1] rnd_idem [of "7/10"] rnd_ge_binade [of "7/10"] il
    by (simp_all add: r_def power_int_minus)
  have q: "ddiv (fl (of_nat n)) (fl 20) = Fin (rnd (of_nat n / 20))" "0 \<le> rnd (of_nat n / 20 :: rat)"
    using fl_of_nat [OF assms(2)] fl_numeral [of "num.Bit0 (num.Bit0 (num.Bit1 (num.Bit0 num.One)))"] fl_range [of "of_nat n / 20" n] assms(2) rnd_nonneg
    by simp_all
  obtain c where c: "dmin (Fin 1) (ddiv (fl (of_nat n)) (fl 20)) = Fin c" "0 \<le> c" "c \<le> 1"
    using q by (intro that [of "min 1 (rnd (of_nat n / 20))"]) (auto simp: dmin_def dlt_def)
  define p where "p = rnd (c * rnd (3/10))"
  have b: "fl (3/10) = Fin (rnd (3/10))" "0 \<le> c * rnd (3/10)" "c * rnd (3/10) \<le> of_nat 1"
    using fl_range [of "3/10" 1] rnd_range [of "3/10" 1] c by (simp_all add: mult_le_one)
  have p: "dmul (Fin c) (fl (3/10)) = Fin p" "0 \<le> p" "p \<le> 1"
    using fl_range [OF b(2,3)] rnd_range [OF b(2,3)] by (simp_all add: b p_def)
  have one: "dmul (Fin 1) (fl (7/10)) = Fin r" using r fl_range [of r 1] by simp
  have s: "dadd (Fin r) (Fin p) = Fin (rnd (r + p))" "r \<le> rnd (r + p)"
    using r p fl_range [of "r + p" 2] rnd_mono_pos [of r "r + p"] by simp_all
  have reg: "dmax (Fin 0) (dsub (Fin 1) (if dlt (Fin 0) (Fin (of_nat d)) then ddiv (Fin 0) (Fin (of_nat d)) else Fin 1)) = Fin 1"
    using assms(3) by (simp add: dlt_def dsub_def dmax_def)
  have "compute_beacon_score (Fin (of_nat d)) (Fin 0) n = (if rnd (r + p) < 0 then Fin 0 else if 1 < rnd (r + p) then Fin 1 else Fin (rnd (r + p)))"
    using assms unfolding compute_beacon_score_def Let_def reg c(1) one p(1) s(1) by (simp add: BEACON_MIN_CONNECTIONS_def dlt_def)
  then show ?thesis using r s(2) by (simp add: BEACON_SCORE_THRESHOLD_def)
qed

lemma regular_is_beacon:
  assumes "sq (Fin 0) = Fin 0" "5 \<le> length (ct_timestamps tml)" "0 < d"
    "\<forall>i < length (ct_timestamps tml) - 1. to_millis (ct_timestamps tml ! Suc i - ct_timestamps tml ! i) = int d"
    "length (ct_timestamps tml) * d < 2 ^ 53"
  shows "is_beacon sq tml"
proof -
  let ?n = "length (ct_timestamps tml)"
  have "?n \<le> ?n * d" using assms(3) by simp
  then have n: "?n < 2 ^ 53" using assms(5) by linarith
  have "intervals (ct_timestamps tml) \<noteq> []" using assms(2) by (auto simp: intervals_def)
  moreover have "interval_stats sq (ct_timestamps tml) = (Fin (of_nat d), Fin 0)"
    using assms(2) by (intro regular_stats [where d = d] assms(1,4,5) n) simp
  ultimately show ?thesis
    using regular_score [OF assms(2) n assms(3)] assms(2)
    by (simp add: is_beacon_def beacon_score_def BEACON_MIN_CONNECTIONS_def)
qed

definition sample_timeline :: ConnectionTimeline where
  "sample_timeline = \<lparr>ct_timestamps = [0, 1000000000, 2000000000, 3000000000, 4000000000], ct_dst_ip = ''10.0.0.1'', ct_dst_port = 443\<rparr>"

definition sample_dpi :: NetworkDpiEngine where
  "sample_dpi = NetworkDpiEngine_new\<lparr>nd_conn_timelines := [(''10.0.0.1:443'', sample_timeline)]\<rparr>"

lemma all_below_4: "(\<forall>i < (4 :: nat). P i) \<longleftrightarrow> P 0 \<and> P 1 \<and> P 2 \<and> P 3"
  by (auto simp: less_Suc_eq numeral_eq_Suc)

lemma sample_timeline_beacon: "is_beacon (\<lambda>d. d) sample_timeline"
proof (rule regular_is_beacon)
  show "\<forall>i < length (ct_timestamps sample_timeline) - 1.
      to_millis (ct_timestamps sample_timeline ! Suc i - ct_timestamps sample_timeline ! i) = int 1000"
  proof -
    have "length (ct_timestamps sample_timeline) - 1 = 4" by (simp add: sample_timeline_def)
    then show ?thesis by (simp only: all_below_4) (simp add: sample_timeline_def to_millis_def)
  qed
qed (simp_all add: sample_timeline_def)

lemma sample_key: "conn_key ''10.0.0.1'' 443 = ''10.0.0.1:443''"
  by code_simp

text \<open>Five connections at even distances are a beacon; on equal distances the deviation is 0, which is its own root.\<close>

theorem beacons_reported_once_witness:
  "length (snd (analyze_beacons (\<lambda>d. d) 7 sample_dpi)) = 1 \<and>
   snd (analyze_beacons (\<lambda>d. d) 8 (fst (analyze_beacons (\<lambda>d. d) 7 sample_dpi))) = []"
proof -
  have "dpi_ok sample_dpi"
    by (simp add: dpi_ok_def sample_dpi_def NetworkDpiEngine_new_def timeline_ok_def sample_timeline_def sample_key)
  from beacons_reported_once [OF this prod.collapse [symmetric], of "\<lambda>d. d" 7 8] show ?thesis
    by (simp add: sample_dpi_def NetworkDpiEngine_new_def sample_timeline_beacon)
qed

text \<open>The score is clamped, so a beacon's score is a number between 0.7 and 1.\<close>

lemma clamped_score: "dle BEACON_SCORE_THRESHOLD (compute_beacon_score mean stddev n) \<Longrightarrow>
  \<exists>v. compute_beacon_score mean stddev n = Fin v \<and> 0 \<le> v \<and> v \<le> 1"
proof -
  have clamp: "\<exists>x. (if dlt v (Fin 0) then Fin 0 else if dlt (Fin 1) v then Fin 1 else v) = Fin x \<and> 0 \<le> x \<and> x \<le> 1" if "v \<noteq> NaN" for v
    using that by (cases v) (auto simp: dlt_def)
  show ?thesis if "dle BEACON_SCORE_THRESHOLD (compute_beacon_score mean stddev n)"
  proof (cases "n < BEACON_MIN_CONNECTIONS \<or> dle mean (Fin 0)")
    case False
    define v where "v = dadd (dmul (dmax (Fin 0) (dsub (Fin 1) (if dlt (Fin 0) mean then ddiv stddev mean else Fin 1))) (fl (7/10)))
        (dmul (dmin (Fin 1) (ddiv (fl (of_nat n)) (fl 20))) (fl (3/10)))"
    have e: "compute_beacon_score mean stddev n = (if dlt v (Fin 0) then Fin 0 else if dlt (Fin 1) v then Fin 1 else v)"
      using False by (simp add: compute_beacon_score_def v_def Let_def)
    have "v \<noteq> NaN"
    proof
      assume "v = NaN"
      then have "compute_beacon_score mean stddev n = NaN" by (simp add: e dlt_def)
      moreover have "\<not> dle d NaN" for d by (cases d) simp_all
      ultimately show False using that by simp
    qed
    then show ?thesis using clamp e by simp
  qed (simp add: compute_beacon_score_def)
qed

section \<open>A source of observations\<close>

lemma dpi_valid: "Observation obs \<in> set (snd (inspect_packet now pkt s)) \<Longrightarrow> obs_valid obs"
  using unit_double_valid [OF unit_double_fl, of "6/10"] observation_confidence [of obs now pkt s]
  by (simp add: obs_valid_def)

interpretation dpi_source: observation_source "\<lambda>(now, pkt, s). snd (inspect_packet now pkt s)"
  by unfold_locales (auto dest: dpi_valid)

end
