(* ===== verification/Lolbins_Engine.thy ===== *)
theory Lolbins_Engine
  imports Engine_Base
begin

unbundle bit_operations_syntax

text \<open>
  \<^verbatim>\<open>engines/lolbins_engine.{hpp,cpp}\<close>: command lines of system programs. A command line is normalised, judged by the rules of the
  program that is run, and for PowerShell the Base64 argument is decoded and its text judged instead; shortcut files are
  searched for such command lines. The lemmas show that the decoder inverts the encoding of RFC 4648 and recovers UTF-16
  text, what an encoded command is judged by, and which forms of a command the rules do not see.
\<close>

section \<open>Model\<close>

record LolbinExecution =
  le_pid :: u32
  le_binary_name :: string
  le_command_line :: string
  le_normalized_command_line :: string
  le_decoded_payload :: string
  le_is_malicious :: bool
  le_mitre_technique :: string
  le_reason :: string
  le_severity :: ThreatLevel

record LolbinsEngine =
  lb_running :: bool
  lb_evaluations_count :: u64
  lb_threats_detected :: u64

definition LolbinsEngine_new :: LolbinsEngine where
  "LolbinsEngine_new = \<lparr>lb_running = False, lb_evaluations_count = 0, lb_threats_detected = 0\<rparr>"

definition lb_start :: "LolbinsEngine \<Rightarrow> ErrorCode \<times> LolbinsEngine" where
  "lb_start s = (OK, s\<lparr>lb_running := True\<rparr>)"

definition lb_stop :: "LolbinsEngine \<Rightarrow> ErrorCode \<times> LolbinsEngine" where
  "lb_stop s = (OK, s\<lparr>lb_running := False\<rparr>)"

definition lb_to_lower_ascii :: "string \<Rightarrow> string" where
  "lb_to_lower_ascii s = map tolower_c s"

definition get_filename_only :: "string \<Rightarrow> string" where
  "get_filename_only path = rev (takeWhile (\<lambda>c. c \<noteq> CHR ''/'' \<and> c \<noteq> CHR 0x5C) (rev path))"

definition is_alnum :: "char \<Rightarrow> bool" where
  "is_alnum c \<longleftrightarrow> is_digit c \<or> (65 \<le> (of_char c :: nat) \<and> (of_char c :: nat) \<le> 90) \<or> (97 \<le> (of_char c :: nat) \<and> (of_char c :: nat) \<le> 122)"

text \<open>
  The first loop drops carets, and double quotes between two alphanumeric characters of the raw text; \<open>prev\<close> is the raw
  character before the current one. The second loop turns every run of white space into one space.
\<close>

fun strip_marks :: "char option \<Rightarrow> string \<Rightarrow> string" where
  "strip_marks prev [] = []"
| "strip_marks prev (c # cs) =
     (if c = CHR ''^'' then strip_marks (Some c) cs
      else if c = CHR 0x22 \<and> (case prev of Some p \<Rightarrow> is_alnum p | None \<Rightarrow> False) \<and> cs \<noteq> [] \<and> is_alnum (hd cs) then strip_marks (Some c) cs
      else c # strip_marks (Some c) cs)"

fun collapse_spaces :: "bool \<Rightarrow> string \<Rightarrow> string" where
  "collapse_spaces last_space [] = []"
| "collapse_spaces last_space (c # cs) =
     (if is_space c then (if last_space then collapse_spaces True cs else CHR '' '' # collapse_spaces True cs)
      else c # collapse_spaces False cs)"

definition normalize_command_line :: "string \<Rightarrow> string" where
  "normalize_command_line raw = collapse_spaces False (strip_marks None raw)"

section \<open>Base64\<close>

definition b64_table :: "int list" where
  "b64_table = replicate 43 (- 1) @ [62, - 1, - 1, - 1, 63] @ map int [52..<62] @ [- 1, - 1, - 1, 0, - 1, - 1] @
     [- 1] @ map int [0..<26] @ replicate 5 (- 1) @ [- 1] @ map int [26..<52] @ replicate 5 (- 1) @ replicate 128 (- 1)"

fun b64_loop :: "u32 \<Rightarrow> int \<Rightarrow> bytes \<Rightarrow> string \<Rightarrow> bytes" where
  "b64_loop val bits raw [] = raw"
| "b64_loop val bits raw (c # cs) =
     (if c = CHR ''='' then raw
      else let d = b64_table ! of_char c in
        if d = - 1 then b64_loop val bits raw cs
        else let val1 = push_bit 6 val OR word_of_int d; bits1 = bits + 6 in
          if 0 \<le> bits1 then b64_loop val1 (bits1 - 8) (raw @ [ucast (drop_bit (nat bits1) val1 AND 0xFF)]) cs
          else b64_loop val1 bits1 raw cs)"

definition text_byte :: "u8 \<Rightarrow> char" where
  "text_byte b = char_of (unat b)"

text \<open>The printable characters, line ends and tabs of UTF-16 text; other code units are dropped.\<close>

fun utf16_text :: "bytes \<Rightarrow> string" where
  "utf16_text (lo # hi # bs) =
     (let w = unat lo + 256 * unat hi in
      (if (32 \<le> w \<and> w \<le> 126) \<or> w \<in> {10, 13, 9} then [char_of w] else []) @ utf16_text bs)"
| "utf16_text _ = []"

definition decode_base64 :: "string \<Rightarrow> string option" where
  "decode_base64 b64 =
     (if b64 = [] then None
      else let raw = b64_loop 0 (- 8) [] b64 in
        if raw = [] then None
        else if 4 \<le> length raw \<and> raw ! 1 = 0 \<and> raw ! 3 = 0 then Some (utf16_text raw)
        else Some (map text_byte raw))"

fun find_text :: "string \<Rightarrow> string \<Rightarrow> nat option" where
  "find_text needle [] = (if needle = [] then Some 0 else None)"
| "find_text needle (c # cs) = (if take (length needle) (c # cs) = needle then Some 0 else map_option Suc (find_text needle cs))"

definition enc_flags :: "string list" where
  "enc_flags = [''-encodedcommand '', ''/encodedcommand '', ''-encoded '', ''/encoded '', ''-enc '', ''/enc '', ''-e '']"

fun decode_after_flags :: "string \<Rightarrow> string list \<Rightarrow> string option" where
  "decode_after_flags cmdline [] = None"
| "decode_after_flags cmdline (flag # flags) =
     (case find_text flag (lb_to_lower_ascii cmdline) of
        None \<Rightarrow> decode_after_flags cmdline flags
      | Some pos \<Rightarrow>
          let token = takeWhile (\<lambda>c. \<not> is_space c \<and> c \<noteq> CHR 0x22) (dropWhile is_space (drop (pos + length flag) cmdline))
          in if token \<noteq> [] then decode_base64 token else decode_after_flags cmdline flags)"

definition extract_and_decode_encoded_command :: "string \<Rightarrow> string option" where
  "extract_and_decode_encoded_command cmdline = decode_after_flags cmdline enc_flags"

section \<open>The rules\<close>

definition finds :: "string \<Rightarrow> string list \<Rightarrow> bool" where
  "finds s needles \<longleftrightarrow> list_ex (\<lambda>n. contains_text n s) needles"

definition mark_execution :: "string \<Rightarrow> ThreatLevel \<Rightarrow> string \<Rightarrow> LolbinExecution \<Rightarrow> LolbinExecution" where
  "mark_execution technique severity reason e =
     e\<lparr>le_is_malicious := True, le_mitre_technique := technique, le_severity := severity, le_reason := reason\<rparr>"

definition payload_words :: "string list" where
  "payload_words = [''iex'', ''invoke-expression'', ''downloadstring'', ''downloadfile'', ''webclient'', ''start-process'', ''reflection.assembly'']"

definition judge_powershell :: "string \<Rightarrow> LolbinExecution \<Rightarrow> LolbinExecution" where
  "judge_powershell cmd_lower e =
     (case extract_and_decode_encoded_command (le_normalized_command_line e) of
        Some decoded \<Rightarrow>
          let e1 = e\<lparr>le_decoded_payload := decoded\<rparr> in
          if finds (lb_to_lower_ascii decoded) payload_words
          then mark_execution ''T1059.001'' CRITICAL ''PowerShell encoded download cradle / reflective loader execution'' e1 else e1
      | None \<Rightarrow>
          if finds cmd_lower [''downloadstring'', ''downloadfile'', ''invoke-webrequest''] \<and> finds cmd_lower [''iex'', ''invoke-expression'']
          then mark_execution ''T1059.001'' CRITICAL ''PowerShell direct WebClient download cradle'' e else e)"

definition judge :: "string \<Rightarrow> string \<Rightarrow> LolbinExecution \<Rightarrow> LolbinExecution" where
  "judge bin_lower cmd_lower e =
     (if contains_text ''certutil'' bin_lower then
        if finds cmd_lower [''-urlcache'', ''/urlcache''] then mark_execution ''T1105'' HIGH ''certutil.exe -urlcache file download abuse'' e
        else if finds cmd_lower [''-decode'', ''/decode'', ''-decodehex''] then mark_execution ''T1140'' HIGH ''certutil.exe payload deobfuscation/decoding abuse'' e
        else e
      else if contains_text ''mshta'' bin_lower then
        if finds cmd_lower [''javascript:'', ''vbscript:'', ''about:'', ''http://'', ''https://'']
        then mark_execution ''T1218.005'' CRITICAL ''mshta.exe inline or remote script execution'' e else e
      else if contains_text ''regsvr32'' bin_lower then
        if finds cmd_lower [''/i:http:'', ''/i:https:'', ''scrobj.dll''] \<and> finds cmd_lower [''/s'', ''-s'']
        then mark_execution ''T1218.010'' CRITICAL ''regsvr32.exe Squiblydoo remote scriptlet execution'' e else e
      else if contains_text ''rundll32'' bin_lower then
        if finds cmd_lower [''javascript:'', ''shell32.dll,control_rundll'', CHR 0x5C # ''temp'' @ [CHR 0x5C], CHR 0x5C # ''appdata'' @ [CHR 0x5C]]
        then mark_execution ''T1218.011'' HIGH ''rundll32.exe suspicious DLL path or inline script execution'' e else e
      else if contains_text ''wmic'' bin_lower then
        if finds cmd_lower [''process call create'', ''/node:'']
        then mark_execution ''T1047'' HIGH ''wmic.exe process call create or remote node execution'' e else e
      else if contains_text ''bitsadmin'' bin_lower then
        if finds cmd_lower [''/transfer'', ''/create''] \<and> finds cmd_lower [''http://'', ''https://'']
        then mark_execution ''T1197'' HIGH ''bitsadmin.exe remote file transfer abuse'' e else e
      else if finds bin_lower [''powershell'', ''pwsh''] then judge_powershell cmd_lower e
      else e)"

definition lolbin_threat :: "time_point \<Rightarrow> u64 \<Rightarrow> LolbinExecution \<Rightarrow> ThreatEvent" where
  "lolbin_threat now n e = ThreatEvent_default\<lparr>ev_id := n, ev_timestamp := now, ev_level := le_severity e, ev_category := SUSPICIOUS_BINARY,
     ev_process_id := le_pid e, ev_process_name := le_binary_name e,
     ev_description := ''LOLBin Execution ['' @ le_mitre_technique e @ '']: '' @ le_reason e @ '' (Cmd: '' @ le_normalized_command_line e @ '')''\<rparr>"

text \<open>The threat callback is installed by the manager.\<close>

definition lb_dispatch_threat :: "time_point \<Rightarrow> LolbinExecution \<Rightarrow> LolbinsEngine \<Rightarrow> LolbinsEngine \<times> emission list" where
  "lb_dispatch_threat now e s =
     (let n = lb_threats_detected s + 1 in (s\<lparr>lb_threats_detected := n\<rparr>, [Threat (lolbin_threat now n e)]))"

definition judged_execution :: "u32 \<Rightarrow> string \<Rightarrow> string \<Rightarrow> LolbinExecution" where
  "judged_execution pid binary_name cmdline =
     (let e = \<lparr>le_pid = pid, le_binary_name = get_filename_only binary_name, le_command_line = cmdline,
            le_normalized_command_line = normalize_command_line cmdline, le_decoded_payload = [], le_is_malicious = False,
            le_mitre_technique = [], le_reason = [], le_severity = SAFE\<rparr>
      in judge (lb_to_lower_ascii (le_binary_name e)) (lb_to_lower_ascii (le_normalized_command_line e)) e)"

definition evaluate_command_line ::
  "time_point \<Rightarrow> u32 \<Rightarrow> string \<Rightarrow> string \<Rightarrow> LolbinsEngine \<Rightarrow> LolbinExecution \<times> LolbinsEngine \<times> emission list" where
  "evaluate_command_line now pid binary_name cmdline s =
     (let s1 = s\<lparr>lb_evaluations_count := lb_evaluations_count s + 1\<rparr>; e = judged_execution pid binary_name cmdline
      in if le_is_malicious e \<and> lb_running s then (e, lb_dispatch_threat now e s1) else (e, s1, []))"

section \<open>Shortcut files\<close>

fun lnk_text :: "bytes \<Rightarrow> string" where
  "lnk_text [] = []"
| "lnk_text (b # bs) =
     (if 32 \<le> unat b \<and> unat b \<le> 126 then text_byte b # lnk_text bs
      else if b = 0 then lnk_text bs
      else CHR '' '' # lnk_text bs)"

definition suspicious_bins :: "(string \<times> string) list" where
  "suspicious_bins = [(''powershell'', ''powershell.exe''), (''cmd.exe'', ''cmd.exe''), (''mshta'', ''mshta.exe''), (''certutil'', ''certutil.exe''),
     (''cscript'', ''cscript.exe''), (''wscript'', ''wscript.exe'')]"

text \<open>
  The loop over the program names; the second component of the result is what the caller's \<^verbatim>\<open>out_exec\<close> holds
  afterwards.
\<close>

fun lnk_loop ::
  "time_point \<Rightarrow> string \<Rightarrow> (string \<times> string) list \<Rightarrow> LolbinExecution \<Rightarrow> LolbinsEngine \<Rightarrow> bool \<times> LolbinExecution \<times> LolbinsEngine \<times> emission list" where
  "lnk_loop now extracted [] out s = (False, out, s, [])"
| "lnk_loop now extracted ((needle, bin_name) # bins) out s =
     (case find_text needle (lb_to_lower_ascii extracted) of
        None \<Rightarrow> lnk_loop now extracted bins out s
      | Some pos \<Rightarrow>
          (case evaluate_command_line now 0 bin_name (take 512 (drop pos extracted)) s of (e, s1, es) \<Rightarrow>
             if le_is_malicious e then (True, e\<lparr>le_reason := ''Weaponized LNK shortcut: '' @ le_reason e\<rparr>, s1, es)
             else (case lnk_loop now extracted bins e s1 of (r, out', s2, es') \<Rightarrow> (r, out', s2, es @ es'))))"

text \<open>The file is its contents, or \<open>None\<close> when it cannot be opened.\<close>

definition inspect_lnk_file ::
  "time_point \<Rightarrow> bytes option \<Rightarrow> LolbinExecution \<Rightarrow> LolbinsEngine \<Rightarrow> bool \<times> LolbinExecution \<times> LolbinsEngine \<times> emission list" where
  "inspect_lnk_file now file out s =
     (case file of
        None \<Rightarrow> (False, out, s, [])
      | Some buf \<Rightarrow>
          if length buf < 76 \<or> 10 * 1024 * 1024 < length buf then (False, out, s, [])
          else lnk_loop now (lnk_text buf) suspicious_bins out s)"

section \<open>The decoder inverts the encoding\<close>

text \<open>The encoding of RFC 4648, section 4.\<close>

definition b64_alphabet :: string where
  "b64_alphabet = ''ABCDEFGHIJKLMNOPQRSTUVWXYZabcdefghijklmnopqrstuvwxyz0123456789+/''"

definition sextet :: "u8 \<Rightarrow> char" where
  "sextet s = b64_alphabet ! unat s"

fun b64_encode :: "bytes \<Rightarrow> string" where
  "b64_encode [] = []"
| "b64_encode [a] = [sextet (drop_bit 2 a), sextet (push_bit 4 (a AND 3)), CHR ''='', CHR ''='']"
| "b64_encode [a, b] = [sextet (drop_bit 2 a), sextet (push_bit 4 (a AND 3) OR drop_bit 4 b), sextet (push_bit 2 (b AND 15)), CHR ''='']"
| "b64_encode (a # b # c # bs) =
     sextet (drop_bit 2 a) # sextet (push_bit 4 (a AND 3) OR drop_bit 4 b) # sextet (push_bit 2 (b AND 15) OR drop_bit 6 c) # sextet (c AND 63) #
     b64_encode bs"

lemma alphabet_table:
  assumes "k < 64"
  shows "b64_table ! of_char (b64_alphabet ! k) = int k" "b64_alphabet ! k \<noteq> CHR ''=''"
proof -
  have m: "map (\<lambda>c. b64_table ! of_char c) b64_alphabet = map int [0..<64]" by code_simp
  have l: "length b64_alphabet = 64" by (simp add: b64_alphabet_def)
  show "b64_table ! of_char (b64_alphabet ! k) = int k" using arg_cong [OF m, of "\<lambda>xs. xs ! k"] assms l by simp
  have "CHR ''='' \<notin> set b64_alphabet" by (simp add: b64_alphabet_def)
  then show "b64_alphabet ! k \<noteq> CHR ''=''" using assms l nth_mem by metis
qed

lemma sextet_step:
  assumes "unat s < 64"
  shows "b64_loop val bits raw (sextet s # cs) =
    (if 0 \<le> bits + 6 then b64_loop (push_bit 6 val OR ucast s) (bits - 2)
        (raw @ [ucast (drop_bit (nat (bits + 6)) (push_bit 6 val OR ucast s) AND 0xFF)]) cs
     else b64_loop (push_bit 6 val OR ucast s) (bits + 6) raw cs)"
proof -
  have "uint s \<noteq> - 1" using uint_ge_0 [of s] by linarith
  then show ?thesis using alphabet_table [OF assms] by (simp add: sextet_def Let_def)
qed

lemma below_8: "(\<forall>n < (8 :: nat). P n) \<longleftrightarrow> P 0 \<and> P 1 \<and> P 2 \<and> P 3 \<and> P 4 \<and> P 5 \<and> P 6 \<and> P 7"
proof safe
  fix n :: nat
  assume "n < 8" "P 0" "P 1" "P 2" "P 3" "P 4" "P 5" "P 6" "P 7"
  moreover from this(1) have "n = 0 \<or> n = 1 \<or> n = 2 \<or> n = 3 \<or> n = 4 \<or> n = 5 \<or> n = 6 \<or> n = 7" by linarith
  ultimately show "P n" by auto
qed simp_all

lemma high_bit: "8 \<le> n \<Longrightarrow> \<not> bit (b :: u8) n"
  using bit_imp_le_length [of b n] by auto

lemma masks: "(0xFF :: u32) = mask 8" "(3 :: u8) = mask 2" "(15 :: u8) = mask 4" "(63 :: u8) = mask 6"
  by (simp_all add: mask_eq_exp_minus_1)

lemma u8_eqI: "(\<forall>n < 8. bit (x :: u8) n = bit y n) \<Longrightarrow> x = y"
  by (rule bit_word_eqI) simp

lemma below_64: "take_bit 6 s = s \<Longrightarrow> unat (s :: u8) < 64"
proof -
  have "unat (take_bit 6 s) < 2 ^ 6" unfolding unsigned_take_bit_eq by (rule take_bit_nat_less_exp)
  then show "take_bit 6 s = s \<Longrightarrow> unat s < 64" by simp
qed

lemma sextets_small:
  fixes a b c :: u8
  shows "unat (drop_bit 2 a) < 64" "unat (push_bit 4 (a AND 3)) < 64" "unat (push_bit 4 (a AND 3) OR drop_bit 4 b) < 64"
    "unat (push_bit 2 (b AND 15)) < 64" "unat (push_bit 2 (b AND 15) OR drop_bit 6 c) < 64" "unat (c AND 63) < 64"
  by (rule below_64, rule u8_eqI, unfold below_8 masks, simp add: bit_simps high_bit)+

text \<open>Eight bits of the accumulator are the next byte; what is left of earlier groups has been shifted above them.\<close>

lemma bytes_of_sextets:
  fixes a b c :: u8 and v :: u32
  shows "ucast (drop_bit 4 (push_bit 6 (push_bit 6 v OR ucast (drop_bit 2 a)) OR ucast (push_bit 4 (a AND 3) OR drop_bit 4 b)) AND 0xFF) = a"
    "ucast (drop_bit 4 (push_bit 6 (push_bit 6 v OR ucast (drop_bit 2 a)) OR ucast (push_bit 4 (a AND 3))) AND 0xFF) = a"
    "ucast (drop_bit 2 (push_bit 6 (push_bit 6 v OR ucast (push_bit 4 (a AND 3) OR drop_bit 4 b)) OR ucast (push_bit 2 (b AND 15) OR drop_bit 6 c)) AND 0xFF) = b"
    "ucast (drop_bit 2 (push_bit 6 (push_bit 6 v OR ucast (push_bit 4 (a AND 3) OR drop_bit 4 b)) OR ucast (push_bit 2 (b AND 15))) AND 0xFF) = b"
    "ucast ((push_bit 6 (push_bit 6 v OR ucast (push_bit 2 (b AND 15) OR drop_bit 6 c)) OR ucast (c AND 63)) AND 0xFF) = c"
  by (rule u8_eqI; unfold below_8 masks; simp add: bit_simps high_bit)+

text \<open>The four positions of a sextet in its group.\<close>

lemma sextet_steps:
  assumes "unat s < 64"
  shows "b64_loop v (- 8) raw (sextet s # cs) = b64_loop (push_bit 6 v OR ucast s) (- 2) raw cs"
    "b64_loop v (- 2) raw (sextet s # cs) =
      b64_loop (push_bit 6 v OR ucast s) (- 4) (raw @ [ucast (drop_bit 4 (push_bit 6 v OR ucast s) AND 0xFF)]) cs"
    "b64_loop v (- 4) raw (sextet s # cs) =
      b64_loop (push_bit 6 v OR ucast s) (- 6) (raw @ [ucast (drop_bit 2 (push_bit 6 v OR ucast s) AND 0xFF)]) cs"
    "b64_loop v (- 6) raw (sextet s # cs) =
      b64_loop (push_bit 6 v OR ucast s) (- 8) (raw @ [ucast ((push_bit 6 v OR ucast s) AND 0xFF)]) cs"
  by (simp_all add: sextet_step [OF assms] del: b64_loop.simps)

lemma b64_loop_encode: "b64_loop v (- 8) raw (b64_encode bs) = raw @ bs"
proof (induction bs arbitrary: v raw rule: b64_encode.induct)
  case (4 a b c bs)
  show ?case by (simp only: b64_encode.simps sextet_steps sextets_small bytes_of_sextets 4) simp
next
  case (2 a)
  show ?case by (simp only: b64_encode.simps sextet_steps sextets_small bytes_of_sextets) simp
next
  case (3 a b)
  show ?case by (simp only: b64_encode.simps sextet_steps sextets_small bytes_of_sextets) simp
qed simp

text \<open>
  The decoder inverts the encoding: bytes that do not look like UTF-16 are returned as they are, and UTF-16 text of at least
  two printable characters as that text.
\<close>

definition text_char :: "char \<Rightarrow> bool" where
  "text_char c \<longleftrightarrow> (32 \<le> (of_char c :: nat) \<and> (of_char c :: nat) \<le> 126) \<or> (of_char c :: nat) \<in> {10, 13, 9}"

definition powershell_bytes :: "string \<Rightarrow> bytes" where
  "powershell_bytes s = concat (map (\<lambda>c. [byte_of c, 0]) s)"

lemma utf16_text_bytes: "\<forall>c \<in> set s. text_char c \<Longrightarrow> utf16_text (powershell_bytes s) = s"
proof (induction s)
  case (Cons c s)
  have "unat (byte_of c) = of_char c" by (simp add: byte_of_def unat_of_nat)
  then show ?case using Cons by (auto simp: powershell_bytes_def text_char_def Let_def)
qed (simp add: powershell_bytes_def)

lemma b64_encode_empty [simp]: "b64_encode bs = [] \<longleftrightarrow> bs = []"
  by (cases bs rule: b64_encode.cases) auto

lemma decode_utf16:
  assumes "\<forall>c \<in> set s. text_char c" "2 \<le> length s"
  shows "decode_base64 (b64_encode (powershell_bytes s)) = Some s"
proof -
  obtain c d r where s: "s = c # d # r" using assms(2) by (metis Suc_le_length_iff numeral_2_eq_2)
  then have u: "powershell_bytes s = byte_of c # 0 # byte_of d # 0 # powershell_bytes r" by (simp add: powershell_bytes_def)
  have "decode_base64 (b64_encode (powershell_bytes s)) = Some (utf16_text (powershell_bytes s))"
    unfolding decode_base64_def b64_loop_encode Let_def by (simp add: u del: b64_encode.simps)
  then show ?thesis using utf16_text_bytes [OF assms(1)] by simp
qed

theorem decode_inverts_encode:
  "decode_base64 (b64_encode bs) =
    (if bs = [] then None else if 4 \<le> length bs \<and> bs ! 1 = 0 \<and> bs ! 3 = 0 then Some (utf16_text bs) else Some (map text_byte bs))"
  by (simp add: decode_base64_def b64_loop_encode Let_def)

section \<open>Encoded commands\<close>

text \<open>A text that ends in a character a suffix does not have is found in front of the suffix or not at all.\<close>

lemma find_text_None: "needle \<noteq> [] \<Longrightarrow> last needle \<notin> set s \<Longrightarrow> find_text needle s = None"
proof (induction s)
  case (Cons c s)
  have "take (length needle) (c # s) \<noteq> needle"
  proof
    assume h: "take (length needle) (c # s) = needle"
    have "last needle \<in> set needle" using Cons.prems(1) by simp
    also have "set needle \<subseteq> set (c # s)" using h set_take_subset by metis
    finally show False using Cons.prems(2) by simp
  qed
  with Cons show ?case by simp
qed simp

lemma find_text_append:
  assumes "needle \<noteq> []" "last needle \<notin> set b"
  shows "find_text needle (a @ b) = find_text needle a"
proof (induction a)
  case Nil
  then show ?case using find_text_None [OF assms] assms(1) by simp
next
  case (Cons c a)
  have "take (length needle) (c # a @ b) = needle \<longleftrightarrow> take (length needle) (c # a) = needle"
  proof (cases "length needle \<le> length (c # a)")
    case True
    then have "take (length needle) ((c # a) @ b) = take (length needle) (c # a)" by (subst take_append) simp
    then show ?thesis by simp
  next
    case False
    then have "length needle \<noteq> length (take (length needle) (c # a))" by simp
    moreover have "take (length needle) (c # a @ b) \<noteq> needle"
    proof
      assume h: "take (length needle) (c # a @ b) = needle"
      then have n: "needle = (c # a) @ take (length needle - length (c # a)) b" using False by (cases needle) auto
      moreover have "take (length needle - length (c # a)) b \<noteq> []" using False n by (metis append_Nil2 le_refl)
      ultimately have "last needle \<in> set (take (length needle - length (c # a)) b)" by (metis last_appendR last_in_set)
      then show False using assms(2) in_set_takeD by metis
    qed
    ultimately show ?thesis by metis
  qed
  then show ?case using Cons by simp
qed

text \<open>A command line of PowerShell with an encoded argument.\<close>

definition encoded_command :: "bytes \<Rightarrow> string" where
  "encoded_command bs = ''powershell -nop -w hidden -enc '' @ b64_encode bs"

lemma sextet_in: "unat s < 64 \<Longrightarrow> sextet s \<in> set b64_alphabet"
proof -
  have "length b64_alphabet = 64" by (simp add: b64_alphabet_def)
  then show "unat s < 64 \<Longrightarrow> sextet s \<in> set b64_alphabet" unfolding sextet_def by (metis nth_mem)
qed

lemma b64_encode_chars: "set (b64_encode bs) \<subseteq> insert (CHR ''='') (set b64_alphabet)"
  by (induction bs rule: b64_encode.induct)
    (simp_all only: b64_encode.simps list.set insert_subset insert_iff sextet_in sextets_small simp_thms empty_subsetI)

lemma b64_char_plain:
  assumes "c \<in> set (b64_encode bs)"
  shows "\<not> is_space c" "c \<noteq> CHR ''^''" "c \<noteq> CHR 0x22" "tolower_c c \<noteq> CHR '' ''"
proof -
  have "list_all (\<lambda>c. \<not> is_space c \<and> c \<noteq> CHR ''^'' \<and> c \<noteq> CHR 0x22 \<and> tolower_c c \<noteq> CHR '' '') (CHR ''='' # b64_alphabet)" by code_simp
  then show "\<not> is_space c" "c \<noteq> CHR ''^''" "c \<noteq> CHR 0x22" "tolower_c c \<noteq> CHR '' ''"
    using assms b64_encode_chars [of bs] by (auto simp: list_all_iff)
qed

lemma strip_marks_plain: "CHR ''^'' \<notin> set s \<Longrightarrow> CHR 0x22 \<notin> set s \<Longrightarrow> strip_marks prev s = s"
  by (induction s arbitrary: prev) auto

lemma collapse_plain: "\<forall>c \<in> set s. \<not> is_space c \<Longrightarrow> collapse_spaces ls s = s"
  by (induction s arbitrary: ls) auto

lemma collapse_append: "\<forall>c \<in> set b. \<not> is_space c \<Longrightarrow> collapse_spaces ls (a @ b) = collapse_spaces ls a @ b"
  by (induction a arbitrary: ls) (auto simp: collapse_plain)

lemma normalize_encoded: "normalize_command_line (encoded_command bs) = encoded_command bs"
proof -
  have "strip_marks None (encoded_command bs) = encoded_command bs"
    using b64_char_plain [of _ bs] by (intro strip_marks_plain) (auto simp: encoded_command_def)
  moreover have "collapse_spaces False ''powershell -nop -w hidden -enc '' = ''powershell -nop -w hidden -enc ''" by code_simp
  moreover have "\<forall>c \<in> set (b64_encode bs). \<not> is_space c" using b64_char_plain(1) by blast
  ultimately show ?thesis by (simp only: normalize_command_line_def) (simp only: encoded_command_def collapse_append)
qed

lemma extract_encoded:
  assumes "bs \<noteq> []"
  shows "extract_and_decode_encoded_command (encoded_command bs) = decode_base64 (b64_encode bs)"
proof -
  let ?p = "''powershell -nop -w hidden -enc ''"
  have low: "lb_to_lower_ascii (encoded_command bs) = ?p @ map tolower_c (b64_encode bs)"
  proof -
    have "map tolower_c ?p = ?p" by code_simp
    then show ?thesis by (simp only: lb_to_lower_ascii_def encoded_command_def map_append)
  qed
  have find: "find_text flag (lb_to_lower_ascii (encoded_command bs)) = find_text flag ?p" if "flag \<noteq> []" "last flag = CHR '' ''" for flag
    unfolding low using that b64_char_plain(4) [of _ bs] by (intro find_text_append) (simp, force)
  have flags: "find_text ''-encodedcommand '' ?p = None" "find_text ''/encodedcommand '' ?p = None" "find_text ''-encoded '' ?p = None"
    "find_text ''/encoded '' ?p = None" "find_text ''-enc '' ?p = Some 26"
    by code_simp+
  have found: "find_text ''-encodedcommand '' (lb_to_lower_ascii (encoded_command bs)) = None"
    "find_text ''/encodedcommand '' (lb_to_lower_ascii (encoded_command bs)) = None" "find_text ''-encoded '' (lb_to_lower_ascii (encoded_command bs)) = None"
    "find_text ''/encoded '' (lb_to_lower_ascii (encoded_command bs)) = None" "find_text ''-enc '' (lb_to_lower_ascii (encoded_command bs)) = Some 26"
    by (subst find; simp add: flags del: find_text.simps)+
  have "dropWhile is_space (b64_encode bs) = b64_encode bs"
    using b64_char_plain(1) [of _ bs] by (cases "b64_encode bs") auto
  moreover have "drop (26 + length ''-enc '') (encoded_command bs) = b64_encode bs" by (simp add: encoded_command_def)
  moreover have "takeWhile (\<lambda>c. \<not> is_space c \<and> c \<noteq> CHR 0x22) (b64_encode bs) = b64_encode bs"
    using b64_char_plain [of _ bs] by (simp add: takeWhile_eq_all_conv)
  ultimately show ?thesis using assms
    by (simp only: extract_and_decode_encoded_command_def enc_flags_def decode_after_flags.simps found option.case Let_def if_True simp_thms b64_encode_empty)
qed

lemma judge_powershell_exe:
  "judge ''powershell.exe'' cmd_lower e = judge_powershell cmd_lower e"
  by (simp add: judge_def finds_def)



section \<open>What the rules do not see\<close>

text \<open>
  After a decoded argument the command line itself is not judged: any harmless token behind something that looks like the flag
  hides a download from the rule that would report it.
\<close>

lemma decoded_token_hides_command:
  assumes "extract_and_decode_encoded_command (normalize_command_line cmdline) = Some decoded" "\<not> finds (lb_to_lower_ascii decoded) payload_words"
  shows "\<not> le_is_malicious (judged_execution pid ''powershell.exe'' cmdline)"
proof -
  have bin: "lb_to_lower_ascii (get_filename_only ''powershell.exe'') = ''powershell.exe''" by code_simp
  show ?thesis using assms by (simp add: judged_execution_def Let_def bin judge_powershell_exe judge_powershell_def)
qed

definition sample_cradle :: string where
  "sample_cradle = ''iex (new-object net.webclient).downloadstring(1)''"

lemma cradle_hidden:
  "le_is_malicious (judged_execution 1 ''powershell.exe'' (''powershell '' @ sample_cradle)) \<and>
   \<not> le_is_malicious (judged_execution 1 ''powershell.exe'' (''powershell -e aGk= ; '' @ sample_cradle))"
  by code_simp

text \<open>A quote next to a caret is no quote inside a word of the raw text, so it stays and the word is not recognised; the command
  interpreter drops both.\<close>

lemma caret_keeps_quote:
  "normalize_command_line (''-url^'' @ CHR 0x22 # ''cache x'') = ''-url'' @ CHR 0x22 # ''cache x'' \<and>
   \<not> le_is_malicious (judged_execution 1 ''certutil.exe'' (''certutil -url^'' @ CHR 0x22 # ''cache x'')) \<and>
   le_is_malicious (judged_execution 1 ''certutil.exe'' (''certutil -url'' @ CHR 0x22 # ''cache x''))"
  by code_simp

text \<open>Normalisation leaves no caret, and no white space but single spaces.\<close>

lemma strip_marks_no_caret: "CHR ''^'' \<notin> set (strip_marks prev s)"
  by (induction prev s rule: strip_marks.induct) auto

fun single_spaced :: "string \<Rightarrow> bool" where
  "single_spaced (c # d # cs) \<longleftrightarrow> (is_space c \<longrightarrow> c = CHR '' '' \<and> \<not> is_space d) \<and> single_spaced (d # cs)"
| "single_spaced [c] \<longleftrightarrow> (is_space c \<longrightarrow> c = CHR '' '')"
| "single_spaced [] \<longleftrightarrow> True"

lemma collapse_single_spaced:
  "single_spaced (collapse_spaces ls s) \<and> (ls \<longrightarrow> collapse_spaces ls s = [] \<or> \<not> is_space (hd (collapse_spaces ls s)))"
proof (induction ls s rule: collapse_spaces.induct)
  case (2 ls c cs)
  have sp: "is_space (CHR '' '')" by (simp add: is_space_def)
  have cons: "single_spaced (x # xs) \<longleftrightarrow> (is_space x \<longrightarrow> x = CHR '' '' \<and> (xs = [] \<or> \<not> is_space (hd xs))) \<and> single_spaced xs" for x xs
    by (cases xs) auto
  show ?case using 2 by (auto simp: cons sp)
qed simp

lemma collapse_set: "set (collapse_spaces ls s) \<subseteq> insert (CHR '' '') (set s)"
  by (induction ls s rule: collapse_spaces.induct) auto

lemma normalized_form:
  "CHR ''^'' \<notin> set (normalize_command_line raw) \<and> single_spaced (normalize_command_line raw)"
  using strip_marks_no_caret [of None raw] collapse_set [of False "strip_marks None raw"] collapse_single_spaced [of False "strip_marks None raw"]
  by (auto simp: normalize_command_line_def)

section \<open>Shortcut files\<close>

lemma evaluated_emissions:
  "evaluate_command_line now pid bin cmdline s = (e, s1, es) \<Longrightarrow>
    e = judged_execution pid bin cmdline \<and> lb_running s1 = lb_running s \<and>
    length es = (if le_is_malicious e \<and> lb_running s then 1 else 0)"
  by (auto simp: evaluate_command_line_def lb_dispatch_threat_def Let_def split: if_splits)

text \<open>
  A shortcut is reported at most once, and exactly when it is called dangerous and the engine runs. Three of the six programs
  it looks for have no rule: a shortcut that starts \<^verbatim>\<open>cmd.exe\<close>, \<^verbatim>\<open>cscript\<close> or \<^verbatim>\<open>wscript\<close> is never reported for it.
\<close>

lemma no_rule_for:
  assumes "bin \<in> {''cmd.exe'', ''cscript.exe'', ''wscript.exe''}"
  shows "\<not> le_is_malicious (judged_execution pid bin cmdline)"
proof -
  have "map (\<lambda>b. lb_to_lower_ascii (get_filename_only b)) [''cmd.exe'', ''cscript.exe'', ''wscript.exe''] = [''cmd.exe'', ''cscript.exe'', ''wscript.exe'']"
    by code_simp
  then have "lb_to_lower_ascii (get_filename_only bin) = bin" using assms by auto
  moreover have "\<not> finds bin [''certutil'', ''mshta'', ''regsvr32'', ''rundll32'', ''wmic'', ''bitsadmin'', ''powershell'', ''pwsh'']"
    using assms by (auto simp: finds_def)
  ultimately show ?thesis by (simp add: judged_execution_def Let_def judge_def finds_def)
qed

lemma judged_name: "le_binary_name (judged_execution pid bin cmdline) = get_filename_only bin"
  by (simp add: judged_execution_def judge_def judge_powershell_def mark_execution_def Let_def split: option.split)

lemma lnk_loop_report:
  "lnk_loop now extracted bins out s = (r, out', s', es) \<Longrightarrow> \<forall>(n, b) \<in> set bins. get_filename_only b = b \<Longrightarrow>
    length es = (if r \<and> lb_running s then 1 else 0) \<and>
    (r \<longrightarrow> le_binary_name out' \<in> snd ` set bins - {''cmd.exe'', ''cscript.exe'', ''wscript.exe''})"
proof (induction now extracted bins out s arbitrary: r out' s' es rule: lnk_loop.induct)
  case (2 now extracted needle bin_name bins out s)
  show ?case
  proof (cases "find_text needle (lb_to_lower_ascii extracted)")
    case None
    then show ?thesis using 2 by auto
  next
    case (Some pos)
    let ?cmd = "take 512 (drop pos extracted)"
    obtain e s1 es1 where ev: "evaluate_command_line now 0 bin_name ?cmd s = (e, s1, es1)" by (metis prod_cases3)
    note e = evaluated_emissions [OF ev]
    show ?thesis
    proof (cases "le_is_malicious e")
      case True
      then have "bin_name \<notin> {''cmd.exe'', ''cscript.exe'', ''wscript.exe''}" using no_rule_for e by blast
      then show ?thesis using 2(3,4) True Some ev e by (auto simp: judged_name)
    next
      case False
      obtain r2 out2 s2 es2 where l: "lnk_loop now extracted bins e s1 = (r2, out2, s2, es2)" by (metis prod_cases4)
      have "length es2 = (if r2 \<and> lb_running s1 then 1 else 0) \<and>
        (r2 \<longrightarrow> le_binary_name out2 \<in> snd ` set bins - {''cmd.exe'', ''cscript.exe'', ''wscript.exe''})"
        using 2(2) [OF Some ev [symmetric] refl False l] 2(4) by simp
      then show ?thesis using 2(3) False Some ev e l by auto
    qed
  qed
qed simp

theorem lnk_reported_once:
  assumes "inspect_lnk_file now file out s = (r, out', s', es)"
  shows "length es = (if r \<and> lb_running s then 1 else 0) \<and>
    (r \<longrightarrow> le_binary_name out' \<in> {''powershell.exe'', ''mshta.exe'', ''certutil.exe''})"
proof (cases "\<exists>buf. file = Some buf \<and> \<not> (length buf < 76 \<or> 10 * 1024 * 1024 < length buf)")
  case True
  then obtain buf where l: "lnk_loop now (lnk_text buf) suspicious_bins out s = (r, out', s', es)"
    using assms by (auto simp: inspect_lnk_file_def)
  have n: "\<forall>(n, b) \<in> set suspicious_bins. get_filename_only b = b" by code_simp
  have "snd ` set suspicious_bins - {''cmd.exe'', ''cscript.exe'', ''wscript.exe''} \<subseteq> {''powershell.exe'', ''mshta.exe'', ''certutil.exe''}"
    by (auto simp: suspicious_bins_def)
  then show ?thesis using lnk_loop_report [OF l n] by blast
next
  case False
  then show ?thesis using assms by (auto simp: inspect_lnk_file_def split: option.splits)
qed

end
