(* ===== verification/Fileless_Ast.thy ===== *)
theory Fileless_Ast
  imports Lolbins_Engine
begin

text \<open>
  \<^verbatim>\<open>engines/fileless_ast_engine.{hpp,cpp}\<close>: scripts are undone of a few obfuscations, backticks, character casts, split strings
  and reversed words, and the result is judged by five rules; the registry scan looks for redirected COM servers. The
  lemmas say what the passes over split strings join, hence which split words are recognised and which are not.
\<close>

section \<open>Undoing obfuscation\<close>

record FilelessEvaluation =
  fe_original_script :: string
  fe_deobfuscated_script :: string
  fe_is_malicious :: bool
  fe_mitre_technique :: string
  fe_reason :: string
  fe_severity :: ThreatLevel
  fe_indicators :: "string list"

record FilelessAstEngine =
  fa_running :: bool
  fa_scripts_scanned :: u64
  fa_threats_detected :: u64

definition FilelessAstEngine_new :: FilelessAstEngine where
  "FilelessAstEngine_new = \<lparr>fa_running = False, fa_scripts_scanned = 0, fa_threats_detected = 0\<rparr>"

definition fa_start :: "FilelessAstEngine \<Rightarrow> ErrorCode \<times> FilelessAstEngine" where
  "fa_start s = (OK, s\<lparr>fa_running := True\<rparr>)"

definition fa_stop :: "FilelessAstEngine \<Rightarrow> ErrorCode \<times> FilelessAstEngine" where
  "fa_stop s = (OK, s\<lparr>fa_running := False\<rparr>)"

fun strip_backticks :: "string \<Rightarrow> string" where
  "strip_backticks [] = []"
| "strip_backticks (c # cs) =
     (if c = CHR 0x60 \<and> cs \<noteq> [] \<and> is_alnum (hd cs) then strip_backticks cs else c # strip_backticks cs)"

text \<open>
  The number behind \<^verbatim>\<open>[char]\<close>: the code it stands for and the text behind it. \<^verbatim>\<open>std::stoi\<close> reads the whole token, a prefix
  \<^verbatim>\<open>0x\<close> with no digit behind it as 0; where it throws, the value would be out of the printable range too.
\<close>

definition xdigit_char :: "char \<Rightarrow> bool" where
  "xdigit_char c \<longleftrightarrow> hex_val c \<noteq> None"

definition cast_number :: "string \<Rightarrow> (nat \<times> string) option" where
  "cast_number rest =
     (if 2 < length rest \<and> rest ! 0 = CHR ''0'' \<and> (rest ! 1 = CHR ''x'' \<or> rest ! 1 = CHR ''X'') then
        let ds = takeWhile xdigit_char (drop 2 rest)
        in Some (foldl (\<lambda>n c. 16 * n + the (hex_val c)) 0 ds, drop (2 + length ds) rest)
      else let ds = takeWhile is_digit rest in if ds = [] then None else Some (digits_val ds, drop (length ds) rest))"

text \<open>A cast at the start of the text: its character and the text behind it, a closing parenthesis skipped.\<close>

definition char_cast :: "string \<Rightarrow> (char \<times> string) option" where
  "char_cast s =
     (if 6 < length s \<and> lb_to_lower_ascii (take 6 s) = ''[char]'' then
        case cast_number (dropWhile (\<lambda>c. c = CHR '' '' \<or> c = CHR ''('') (drop 6 s)) of
          Some (v, rest) \<Rightarrow>
            if 32 \<le> v \<and> v \<le> 126 then Some (char_of v, if rest \<noteq> [] \<and> hd rest = CHR '')'' then tl rest else rest) else None
        | None \<Rightarrow> None
      else None)"

lemma cast_number_length: "cast_number rest = Some (v, rest') \<Longrightarrow> length rest' \<le> length rest"
  by (auto simp: cast_number_def Let_def split: if_splits)

lemma char_cast_length: "char_cast s = Some (c, rest) \<Longrightarrow> length rest < length s"
proof -
  assume h: "char_cast s = Some (c, rest)"
  let ?d = "dropWhile (\<lambda>c. c = CHR '' '' \<or> c = CHR ''('') (drop 6 s)"
  from h have s: "6 < length s" by (auto simp: char_cast_def split: if_splits)
  from h obtain v r where n: "cast_number ?d = Some (v, r)" and "length rest \<le> length r"
    by (auto simp: char_cast_def split: if_splits option.splits)
  moreover have "length ?d \<le> length s - 6" using length_dropWhile_le [of _ "drop 6 s"] by simp
  ultimately show ?thesis using cast_number_length [OF n] s by linarith
qed

function deobfuscate_char_casts :: "string \<Rightarrow> string" where
  "deobfuscate_char_casts [] = []"
| "deobfuscate_char_casts (c # cs) =
     (case char_cast (c # cs) of
        Some (d, rest) \<Rightarrow> d # deobfuscate_char_casts rest
      | None \<Rightarrow> c # deobfuscate_char_casts cs)"
  by pat_completeness auto
termination by (relation "measure length") (auto dest: char_cast_length)

definition quote_mark :: "char \<Rightarrow> bool" where
  "quote_mark c \<longleftrightarrow> c = CHR 0x27 \<or> c = CHR 0x22"

text \<open>Two quoted strings with a plus sign between them: their joined contents and the text behind them.\<close>

definition joined_pair :: "string \<Rightarrow> (string \<times> string) option" where
  "joined_pair s =
     (if s = [] \<or> \<not> quote_mark (hd s) then None
      else case find_char (hd s) (tl s) of None \<Rightarrow> None | Some n \<Rightarrow>
        let rest = dropWhile is_space (drop (Suc n) (tl s)) in
        if rest = [] \<or> hd rest \<noteq> CHR ''+'' then None
        else let rest2 = dropWhile is_space (tl rest) in
          if rest2 = [] \<or> \<not> quote_mark (hd rest2) then None
          else case find_char (hd rest2) (tl rest2) of None \<Rightarrow> None
            | Some m \<Rightarrow> Some (take n (tl s) @ take m (tl rest2), drop (Suc m) (tl rest2)))"

lemma joined_pair_length: "joined_pair s = Some (t, rest) \<Longrightarrow> length rest < length s"
proof -
  assume h: "joined_pair s = Some (t, rest)"
  then obtain n m where n: "s \<noteq> []"
    "rest = drop (Suc m) (tl (dropWhile is_space (tl (dropWhile is_space (drop (Suc n) (tl s))))))"
    by (auto simp: joined_pair_def Let_def split: if_splits option.splits)
  have "length rest \<le> length (dropWhile is_space (tl (dropWhile is_space (drop (Suc n) (tl s)))))" by (simp add: n)
  also have "\<dots> \<le> length (tl (dropWhile is_space (drop (Suc n) (tl s))))" by (rule length_dropWhile_le)
  also have "\<dots> \<le> length (dropWhile is_space (drop (Suc n) (tl s)))" by simp
  also have "\<dots> \<le> length (drop (Suc n) (tl s))" by (rule length_dropWhile_le)
  also have "\<dots> < length s" using n(1) by (cases s) auto
  finally show ?thesis .
qed

function deobfuscate_string_concat :: "string \<Rightarrow> string" where
  "deobfuscate_string_concat [] = []"
| "deobfuscate_string_concat (c # cs) =
     (case joined_pair (c # cs) of
        Some (t, rest) \<Rightarrow> CHR 0x27 # t @ CHR 0x27 # deobfuscate_string_concat rest
      | None \<Rightarrow> c # deobfuscate_string_concat cs)"
  by pat_completeness auto
termination by (relation "measure length") (auto dest: joined_pair_length)

text \<open>
  Every occurrence of a reversed word is replaced, in the text and in its lower-case copy in step; the words are as long as
  their replacements.
\<close>

definition known_reversals :: "(string \<times> string) list" where
  "known_reversals = [(''gnirtsdaolnwod'', ''downloadstring''), (''elifdaolnwod'', ''downloadfile''), (''ataddaolnwod'', ''downloaddata''),
     (''noisserpxe-ekovni'', ''invoke-expression''), (''tpeccatrap'', ''partaccept''), (''xei'', ''iex'')]"

function replace_word :: "string \<Rightarrow> string \<Rightarrow> string \<Rightarrow> string \<Rightarrow> string \<times> string" where
  "replace_word word orig out lower =
     (if word = [] \<or> out = [] \<or> lower = [] then (out, lower)
      else if take (length word) lower = word then
        (case replace_word word orig (drop (length word) out) (drop (length word) lower) of (o', l') \<Rightarrow> (orig @ o', orig @ l'))
      else (case replace_word word orig (tl out) (tl lower) of (o', l') \<Rightarrow> (hd out # o', hd lower # l')))"
  by pat_completeness auto
termination by (relation "measure (\<lambda>(w, r, out, lower). length lower)") auto

declare replace_word.simps [simp del]

definition deobfuscate_reverse_patterns :: "string \<Rightarrow> string" where
  "deobfuscate_reverse_patterns s =
     fst (fold (\<lambda>(word, orig) (out, lower). replace_word word orig out lower) known_reversals (s, lb_to_lower_ascii s))"

definition deobfuscate_powershell :: "string \<Rightarrow> string" where
  "deobfuscate_powershell script =
     deobfuscate_reverse_patterns (deobfuscate_string_concat (deobfuscate_string_concat (deobfuscate_char_casts (strip_backticks script))))"

section \<open>The rules\<close>

definition script_alarm :: "string \<Rightarrow> string \<Rightarrow> string \<Rightarrow> FilelessEvaluation \<Rightarrow> FilelessEvaluation" where
  "script_alarm technique reason indicator e =
     e\<lparr>fe_is_malicious := True, fe_mitre_technique := technique, fe_severity := CRITICAL, fe_reason := reason, fe_indicators := fe_indicators e @ [indicator]\<rparr>"

definition rule_reflection :: "string \<Rightarrow> FilelessEvaluation \<Rightarrow> FilelessEvaluation" where
  "rule_reflection lower e =
     (if finds lower [''reflection.assembly'', ''system.reflection''] \<and> contains_text ''load'' lower
      then script_alarm ''T1059.001'' ''In-memory reflection assembly loading (Assembly::Load)'' ''Reflection.Assembly::Load'' e else e)"

definition rule_amsi :: "string \<Rightarrow> FilelessEvaluation \<Rightarrow> FilelessEvaluation" where
  "rule_amsi lower e =
     (if finds lower [''amsiutils'', ''amsiinitfailed'', ''amsiscanbuffer'']
      then script_alarm ''T1562.001'' ''In-memory AMSI patch bypass tampering'' ''AmsiUtils tampering'' e else e)"

definition rule_cradle :: "string \<Rightarrow> FilelessEvaluation \<Rightarrow> FilelessEvaluation" where
  "rule_cradle lower e =
     (if finds lower [''downloadstring'', ''downloadfile'', ''downloaddata''] \<and> finds lower [''iex'', ''invoke-expression'']
      then script_alarm ''T1059.001'' ''Deobfuscated remote download & execute cradle (IEX + DownloadString)'' ''IEX + WebClient.DownloadString'' e else e)"

definition rule_deflate :: "string \<Rightarrow> FilelessEvaluation \<Rightarrow> FilelessEvaluation" where
  "rule_deflate lower e =
     (if finds lower [''deflatestream'', ''gzipstream''] \<and> finds lower [''memorystream'', ''frombase64string'']
      then e\<lparr>fe_is_malicious := True,
             fe_mitre_technique := (if fe_mitre_technique e = [] then ''T1027'' else fe_mitre_technique e),
             fe_severity := (if fe_severity e < HIGH then HIGH else fe_severity e),
             fe_reason := (if fe_reason e = [] then ''Compressed in-memory payload stream decompression'' else fe_reason e),
             fe_indicators := fe_indicators e @ [''DeflateStream/GzipStream decompression'']\<rparr>
      else e)"

definition rule_policy :: "string \<Rightarrow> FilelessEvaluation \<Rightarrow> FilelessEvaluation" where
  "rule_policy lower e =
     (if contains_text ''set-executionpolicy'' lower \<and> finds lower [''bypass'', ''unrestricted'']
      then let e1 = e\<lparr>fe_indicators := fe_indicators e @ [''Set-ExecutionPolicy Bypass'']\<rparr> in
        if fe_severity e1 < MEDIUM then e1\<lparr>fe_severity := MEDIUM, fe_reason := ''PowerShell execution policy bypass attempt''\<rparr> else e1
      else e)"

definition judged_script :: "string \<Rightarrow> FilelessEvaluation" where
  "judged_script script =
     (let e = \<lparr>fe_original_script = script, fe_deobfuscated_script = deobfuscate_powershell script, fe_is_malicious = False,
            fe_mitre_technique = [], fe_reason = [], fe_severity = SAFE, fe_indicators = []\<rparr>;
          lower = lb_to_lower_ascii (fe_deobfuscated_script e)
      in rule_policy lower (rule_deflate lower (rule_cradle lower (rule_amsi lower (rule_reflection lower e)))))"

definition fa_dispatch_threat :: "time_point \<Rightarrow> FilelessEvaluation \<Rightarrow> FilelessAstEngine \<Rightarrow> FilelessAstEngine \<times> emission list" where
  "fa_dispatch_threat now e s =
     (let n = fa_threats_detected s + 1 in
      (s\<lparr>fa_threats_detected := n\<rparr>,
       [Threat (ThreatEvent_default\<lparr>ev_id := n, ev_timestamp := now, ev_level := fe_severity e, ev_category := FILELESS_EXEC,
          ev_process_name := ''powershell.exe'', ev_description := ''Fileless Threat ['' @ fe_mitre_technique e @ '']: '' @ fe_reason e\<rparr>)]))"

definition evaluate_script :: "time_point \<Rightarrow> string \<Rightarrow> FilelessAstEngine \<Rightarrow> FilelessEvaluation \<times> FilelessAstEngine \<times> emission list" where
  "evaluate_script now script s =
     (let s1 = s\<lparr>fa_scripts_scanned := fa_scripts_scanned s + 1\<rparr>; e = judged_script script
      in if fe_is_malicious e \<and> fa_running s then (e, fa_dispatch_threat now e s1) else (e, s1, []))"

section \<open>COM servers\<close>

record ComHijackRecord =
  ch_clsid :: string
  ch_inproc_server_path :: string
  ch_is_hijacked :: bool
  ch_reason :: string

definition com_reason :: "string \<Rightarrow> string option" where
  "com_reason dll_path =
     (let bs = CHR 0x5C; p = lb_to_lower_ascii dll_path in
      if finds p [bs # ''temp'' @ [bs], bs # ''appdata'' @ bs # ''local'' @ bs # ''temp'' @ [bs]] then Some ''InprocServer32 points to temporary directory''
      else if contains_text (bs # ''users'' @ [bs]) p \<and> \<not> contains_text (bs # ''system32'' @ [bs]) p then Some ''User-writable path InprocServer32 COM hijack''
      else None)"

text \<open>The registry is the list of the class keys of the user with the server value of each, where it could be read.\<close>

definition scan_com_hijacking :: "(string \<times> string option) list \<Rightarrow> ComHijackRecord list" where
  "scan_com_hijacking keys =
     concat (map (\<lambda>(clsid, v). case v of None \<Rightarrow> []
       | Some dll_path \<Rightarrow> (case com_reason dll_path of None \<Rightarrow> []
           | Some reason \<Rightarrow> [\<lparr>ch_clsid = clsid, ch_inproc_server_path = dll_path, ch_is_hijacked = True, ch_reason = reason\<rparr>])) keys)"

section \<open>Split strings\<close>

definition quoted :: "string \<Rightarrow> string" where
  "quoted p = CHR 0x27 # p @ [CHR 0x27]"

fun split_text :: "string list \<Rightarrow> string" where
  "split_text [] = []"
| "split_text [p] = quoted p"
| "split_text (p # ps) = quoted p @ CHR ''+'' # split_text ps"

fun join_pairs :: "string list \<Rightarrow> string list" where
  "join_pairs (p # q # ps) = (p @ q) # join_pairs ps"
| "join_pairs ps = ps"

lemma joined_two:
  assumes "CHR 0x27 \<notin> set p" "CHR 0x27 \<notin> set q"
  shows "joined_pair (quoted p @ CHR ''+'' # quoted q @ r) = Some (p @ q, r)"
proof -
  have sp: "\<not> is_space (CHR ''+'')" "\<not> is_space (CHR 0x27)" by (simp_all add: is_space_def)
  show ?thesis using find_char_append [OF assms(1)] find_char_append [OF assms(2)]
    by (simp add: joined_pair_def quoted_def quote_mark_def sp Let_def)
qed

lemma concat_plain: "\<forall>c \<in> set a. \<not> quote_mark c \<Longrightarrow> deobfuscate_string_concat (a @ b) = a @ deobfuscate_string_concat b"
  by (induction a) (simp_all add: joined_pair_def)

definition no_quotes :: "string \<Rightarrow> bool" where
  "no_quotes s \<longleftrightarrow> (\<forall>c \<in> set s. \<not> quote_mark c)"

lemma no_quotes_find: "no_quotes s \<Longrightarrow> quote_mark q \<Longrightarrow> find_char q s = None"
  by (induction s) (auto simp: no_quotes_def)

text \<open>Text behind the pieces that does not go on with a plus sign and has no quotes.\<close>

definition ends_split :: "string \<Rightarrow> bool" where
  "ends_split r \<longleftrightarrow> no_quotes r \<and> (dropWhile is_space r = [] \<or> hd (dropWhile is_space r) \<noteq> CHR ''+'')"

lemma ends_split_no_quotes: "ends_split r \<Longrightarrow> no_quotes r"
  by (simp add: ends_split_def)

lemma concat_no_quotes: "no_quotes r \<Longrightarrow> deobfuscate_string_concat r = r"
  using concat_plain [of r "[]"] by (simp add: no_quotes_def)

lemma concat_one:
  assumes "no_quotes p" "ends_split r"
  shows "deobfuscate_string_concat (quoted p @ r) = quoted p @ r"
proof -
  have q: "CHR 0x27 \<notin> set p" using assms(1) by (auto simp: no_quotes_def quote_mark_def)
  have "joined_pair (CHR 0x27 # p @ CHR 0x27 # r) = None"
    using assms(2) find_char_append [OF q] by (auto simp: joined_pair_def ends_split_def quote_mark_def)
  moreover have "joined_pair (CHR 0x27 # r) = None"
  proof -
    have f: "find_char (CHR 0x27) r = None" using assms(2) by (intro no_quotes_find) (simp_all add: ends_split_def quote_mark_def)
    show ?thesis by (simp add: joined_pair_def f)
  qed
  moreover have "deobfuscate_string_concat r = r" using assms(2) by (simp add: concat_no_quotes ends_split_def)
  ultimately show ?thesis using concat_plain [of p "CHR 0x27 # r"] assms(1) by (simp add: quoted_def no_quotes_def)
qed

text \<open>One pass joins neighbouring pieces two by two.\<close>

lemma concat_split_text:
  assumes "\<forall>p \<in> set ps. no_quotes p" "ends_split r"
  shows "deobfuscate_string_concat (split_text ps @ r) = split_text (join_pairs ps) @ r"
  using assms(1)
proof (induction ps rule: join_pairs.induct)
  case (1 p q ps)
  have pq: "CHR 0x27 \<notin> set p" "CHR 0x27 \<notin> set q" using 1(2) by (auto simp: no_quotes_def quote_mark_def)
  have step: "deobfuscate_string_concat (quoted p @ CHR ''+'' # quoted q @ x) = quoted (p @ q) @ deobfuscate_string_concat x" for x
    using joined_two [OF pq, of x] by (simp add: quoted_def)
  show ?case
  proof (cases ps)
    case Nil
    then show ?thesis using step [of r] assms(2) by (simp add: ends_split_def concat_no_quotes)
  next
    case (Cons p3 ps3)
    have "deobfuscate_string_concat (CHR ''+'' # split_text ps @ r) = CHR ''+'' # deobfuscate_string_concat (split_text ps @ r)"
      by (simp add: joined_pair_def quote_mark_def)
    moreover have "join_pairs ps \<noteq> []" using Cons by (cases ps3) auto
    ultimately show ?thesis using 1 Cons step [of "CHR ''+'' # split_text ps @ r"]
      by (cases "join_pairs ps") simp_all
  qed
qed (use assms(2) in \<open>simp_all add: concat_no_quotes concat_one ends_split_no_quotes\<close>)

lemma join_pairs_quotes: "\<forall>p \<in> set ps. no_quotes p \<Longrightarrow> \<forall>p \<in> set (join_pairs ps). no_quotes p"
  by (induction ps rule: join_pairs.induct) (auto simp: no_quotes_def)

lemma strip_plain: "CHR 0x60 \<notin> set s \<Longrightarrow> strip_backticks s = s"
  by (induction s) auto

lemma casts_plain: "CHR ''['' \<notin> set s \<Longrightarrow> deobfuscate_char_casts s = s"
proof (induction s)
  case (Cons c s)
  have "tolower_c c \<noteq> CHR ''[''"
  proof
    assume h: "tolower_c c = CHR ''[''"
    have "(of_char (tolower_c c) :: nat) \<noteq> 91" if "65 \<le> (of_char c :: nat)" "(of_char c :: nat) \<le> 90"
      using that by (simp add: tolower_c_def)
    moreover have "(of_char (tolower_c c) :: nat) = 91" by (simp add: h)
    ultimately have "tolower_c c = c" by (auto simp: tolower_c_def)
    with h Cons.prems show False by simp
  qed
  then have "char_cast (c # s) = None" by (simp add: char_cast_def lb_to_lower_ascii_def)
  then show ?case using Cons by simp
qed simp

lemma two_passes:
  assumes "no_quotes pre" "\<forall>p \<in> set ps. no_quotes p" "ends_split r"
  shows "deobfuscate_string_concat (deobfuscate_string_concat (pre @ split_text ps @ r)) = pre @ split_text (join_pairs (join_pairs ps)) @ r"
  using assms join_pairs_quotes [OF assms(2)] by (simp add: concat_plain no_quotes_def [of pre] concat_split_text)

lemma join_four: "ps \<noteq> [] \<Longrightarrow> length ps \<le> 4 \<Longrightarrow> join_pairs (join_pairs ps) = [concat ps]"
  by (cases ps rule: join_pairs.cases; simp; cases "tl (tl ps)" rule: join_pairs.cases; auto)

text \<open>
  A script that fetches and runs code with the name of the download method split into up to four quoted pieces is recognised,
  however it is split: the pieces are joined and the rule for download cradles applies.
\<close>

definition split_cradle :: "string list \<Rightarrow> string" where
  "split_cradle ps = ''iex $w.'' @ split_text ps @ ''(1)''"

theorem split_download_found:
  assumes "concat ps = ''downloadstring''" "length ps \<le> 4" "evaluate_script now (split_cradle ps) s = (e, s1, es)"
  shows "fe_is_malicious e \<and> fe_severity e = CRITICAL \<and> fe_mitre_technique e = ''T1059.001'' \<and>
    fe_deobfuscated_script e = ''iex $w.'' @ quoted ''downloadstring'' @ ''(1)'' \<and> length es = (if fa_running s then 1 else 0)"
proof -
  have chars: "set (split_text qs) \<subseteq> insert (CHR 0x27) (insert (CHR ''+'') (\<Union>p \<in> set qs. set p))" for qs
    by (induction qs rule: split_text.induct) (auto simp: quoted_def)
  have word: "(\<Union>p \<in> set ps. set p) = set ''downloadstring''" using assms(1) set_concat [of ps] by metis
  have "CHR 0x60 \<notin> set (split_cradle ps)" "CHR ''['' \<notin> set (split_cradle ps)"
    using chars [of ps] unfolding word by (auto simp: split_cradle_def)
  then have plain: "deobfuscate_char_casts (strip_backticks (split_cradle ps)) = split_cradle ps"
    by (simp add: strip_plain casts_plain)
  have nq: "\<forall>p \<in> set ps. no_quotes p"
  proof
    fix p assume "p \<in> set ps"
    then have "set p \<subseteq> set ''downloadstring''" using word by blast
    then show "no_quotes p" by (auto simp: no_quotes_def quote_mark_def)
  qed
  have ne: "ps \<noteq> []" using assms(1) by auto
  have "no_quotes ''iex $w.''" "ends_split ''(1)''" by code_simp+
  then have deob: "deobfuscate_powershell (split_cradle ps) = deobfuscate_reverse_patterns (''iex $w.'' @ quoted ''downloadstring'' @ ''(1)'')"
    unfolding deobfuscate_powershell_def plain using two_passes [of "''iex $w.''" ps "''(1)''"] nq join_four [OF ne assms(2)] assms(1)
    by (simp add: split_cradle_def)
  have rev: "deobfuscate_reverse_patterns (''iex $w.'' @ quoted ''downloadstring'' @ ''(1)'') = ''iex $w.'' @ quoted ''downloadstring'' @ ''(1)''"
    by code_simp
  have rules: "\<not> finds (lb_to_lower_ascii (''iex $w.'' @ quoted ''downloadstring'' @ ''(1)'')) [''reflection.assembly'', ''system.reflection'']"
    "\<not> finds (lb_to_lower_ascii (''iex $w.'' @ quoted ''downloadstring'' @ ''(1)'')) [''amsiutils'', ''amsiinitfailed'', ''amsiscanbuffer'']"
    "finds (lb_to_lower_ascii (''iex $w.'' @ quoted ''downloadstring'' @ ''(1)'')) [''downloadstring'', ''downloadfile'', ''downloaddata'']"
    "finds (lb_to_lower_ascii (''iex $w.'' @ quoted ''downloadstring'' @ ''(1)'')) [''iex'', ''invoke-expression'']"
    "\<not> finds (lb_to_lower_ascii (''iex $w.'' @ quoted ''downloadstring'' @ ''(1)'')) [''deflatestream'', ''gzipstream'']"
    "\<not> contains_text ''set-executionpolicy'' (lb_to_lower_ascii (''iex $w.'' @ quoted ''downloadstring'' @ ''(1)''))"
    by code_simp+
  have j: "judged_script (split_cradle ps) = script_alarm ''T1059.001'' ''Deobfuscated remote download & execute cradle (IEX + DownloadString)''
      ''IEX + WebClient.DownloadString'' \<lparr>fe_original_script = split_cradle ps, fe_deobfuscated_script = ''iex $w.'' @ quoted ''downloadstring'' @ ''(1)'',
        fe_is_malicious = False, fe_mitre_technique = [], fe_reason = [], fe_severity = SAFE, fe_indicators = []\<rparr>"
    unfolding judged_script_def Let_def deob rev
    by (simp only: FilelessEvaluation.simps rule_reflection_def rule_amsi_def rule_cradle_def rule_deflate_def rule_policy_def rules simp_thms if_True if_False)
  show ?thesis using assms(3) [unfolded evaluate_script_def Let_def j]
    by (auto simp: fa_dispatch_threat_def script_alarm_def Let_def split: if_splits)
qed

theorem split_download_found_witness:
  "fe_is_malicious (fst (evaluate_script 3 (split_cradle [''down'', ''load'', ''str'', ''ing'']) FilelessAstEngine_new))"
proof -
  obtain e s1 es where r: "evaluate_script 3 (split_cradle [''down'', ''load'', ''str'', ''ing'']) FilelessAstEngine_new = (e, s1, es)"
    by (metis prod_cases3)
  from split_download_found [OF _ _ r] show ?thesis by (simp add: r)
qed

text \<open>A fifth piece is not joined, and characters written as casts stay apart: both scripts pass.\<close>

lemma five_pieces_pass:
  "\<not> fe_is_malicious (judged_script (split_cradle [''dow'', ''nlo'', ''ads'', ''tri'', ''ng'']))"
  by code_simp

lemma casts_stay_apart:
  "deobfuscate_powershell ''[char]105+[char]101+[char]120'' = ''i+e+x''"
  by code_simp

end
