(* ===== verification/Heuristic_Rules.thy ===== *)
theory Heuristic_Rules
  imports Artifact_Trust
begin

text \<open>
  \<^verbatim>\<open>scanner/heuristic_rules.{hpp,cpp}\<close>: the six checks on the bytes of a binary, the checks on the path of a running process and
  on network figures. Each check is an optional result. The lemmas say which names lead to which result, that the longest
  run of zeros is found, and which readable strings the check for obfuscation counts.
\<close>

section \<open>Model\<close>

record HeuristicResult =
  hr_rule_name :: string
  hr_level :: ThreatLevel
  hr_category :: ThreatCategory
  hr_confidence :: double
  hr_description :: string

text \<open>
  \<^verbatim>\<open>std::format\<close> with a fixed number of decimals: the exact value rounded to the nearest multiple, ties to even.
\<close>

definition pad_left :: "nat \<Rightarrow> string \<Rightarrow> string" where
  "pad_left n s = replicate (n - length s) (CHR ''0'') @ s"

fun format_fixed :: "nat \<Rightarrow> double \<Rightarrow> string" where
  "format_fixed prec (Fin x) =
     (let k = nat (round_even (\<bar>x\<bar> * 10 ^ prec)) in
      (if x < 0 then ''-'' else []) @ to_string (k div 10 ^ prec) @ (if prec = 0 then [] else ''.'' @ pad_left prec (to_string (k mod 10 ^ prec))))"
| "format_fixed prec PInf = ''inf''"
| "format_fixed prec NInf = ''-inf''"
| "format_fixed prec NaN = ''nan''"

fun dquot :: "double \<Rightarrow> nat \<Rightarrow> double" where
  "dquot (Fin x) n = fl (x / of_nat n)"
| "dquot d n = d"

text \<open>The entropies of the whole chunks of 4096 bytes, added up in order.\<close>

function chunk_entropies :: "(double \<Rightarrow> double) \<Rightarrow> bytes \<Rightarrow> double list" where
  "chunk_entropies lg data = (if length data < 4096 then [] else shannon_entropy lg (take 4096 data) # chunk_entropies lg (drop 4096 data))"
  by pat_completeness auto
termination by (relation "measure (\<lambda>(lg, data). length data)") auto

declare chunk_entropies.simps [simp del]

definition check_packed_binary :: "(double \<Rightarrow> double) \<Rightarrow> bytes \<Rightarrow> HeuristicResult option" where
  "check_packed_binary lg data =
     (if length data < 1024 then None
      else let es = chunk_entropies lg data in
        if es = [] then None
        else let avg = dquot (foldl dadd (Fin 0) es) (length es) in
          if dlt (fl (72/10)) avg
          then Some \<lparr>hr_rule_name = ''packed_binary'', hr_level = MEDIUM, hr_category = SUSPICIOUS_BINARY, hr_confidence = dquot avg 8,
            hr_description = ''Binary appears packed/encrypted (avg entropy '' @ format_fixed 2 avg @ '')''\<rparr>
          else None)"

text \<open>The inner loop of the name searches: does some position hold the name?\<close>

fun has_name :: "bytes \<Rightarrow> bytes \<Rightarrow> bool" where
  "has_name api [] \<longleftrightarrow> api = []"
| "has_name api (b # bs) \<longleftrightarrow> take (length api) (b # bs) = api \<or> has_name api bs"

definition find_str :: "bytes \<Rightarrow> string \<Rightarrow> bool" where
  "find_str data s = has_name (map byte_of s) data"

definition count_names :: "bytes \<Rightarrow> string list \<Rightarrow> nat" where
  "count_names data names = length (filter (find_str data) names)"

definition dangerous_apis :: "string list" where
  "dangerous_apis = [''CreateRemoteThread'', ''NtCreateThreadEx'', ''RtlCreateUserThread'', ''SetWindowsHookEx'', ''VirtualProtectEx'',
     ''NtWriteVirtualMemory'', ''NtAllocateVirtualMemory'', ''ZwMapViewOfSection'']"

definition check_suspicious_imports :: "bytes \<Rightarrow> HeuristicResult option" where
  "check_suspicious_imports data =
     (let n = count_names data dangerous_apis in
      if 3 \<le> n
      then Some \<lparr>hr_rule_name = ''suspicious_import_combo'', hr_level = HIGH, hr_category = MEMORY_INJECTION,
        hr_confidence = fl (of_nat n / of_nat (length dangerous_apis)),
        hr_description = ''Multiple dangerous API imports detected ('' @ to_string n @ '')''\<rparr>
      else None)"

fun zero_runs :: "bytes \<Rightarrow> nat \<Rightarrow> nat \<Rightarrow> nat" where
  "zero_runs [] zero_run max_zero = max_zero"
| "zero_runs (b # bs) zero_run max_zero =
     (if b = 0 then zero_runs bs (zero_run + 1) (if max_zero < zero_run + 1 then zero_run + 1 else max_zero) else zero_runs bs 0 max_zero)"

definition check_code_cave :: "bytes \<Rightarrow> HeuristicResult option" where
  "check_code_cave data =
     (if length data < 512 then None
      else let max_zero = zero_runs data 0 0 in
        if 4096 < max_zero \<and> max_zero < length data div 2
        then Some \<lparr>hr_rule_name = ''code_cave'', hr_level = LOW, hr_category = SUSPICIOUS_BINARY, hr_confidence = fl (1/2),
          hr_description = ''Large zero-filled code cave ('' @ to_string max_zero @ '' bytes)''\<rparr>
        else None)"

definition anti_dbg :: "string list" where
  "anti_dbg = [''IsDebuggerPresent'', ''CheckRemoteDebuggerPresent'', ''NtQueryInformationProcess'', ''OutputDebugString'', ''GetTickCount'',
     ''QueryPerformanceCounter'']"

definition check_anti_debug :: "bytes \<Rightarrow> HeuristicResult option" where
  "check_anti_debug data =
     (let n = count_names data anti_dbg in
      if 3 \<le> n
      then Some \<lparr>hr_rule_name = ''anti_debug_techniques'', hr_level = MEDIUM, hr_category = EVASION_AMSI,
        hr_confidence = fl (of_nat n / of_nat (length anti_dbg)),
        hr_description = ''Multiple anti-debugging technique imports ('' @ to_string n @ '')''\<rparr>
      else None)"

definition printable_byte :: "u8 \<Rightarrow> bool" where
  "printable_byte b \<longleftrightarrow> 0x20 \<le> unat b \<and> unat b < 0x7F"

text \<open>The numbers of readable and of all runs; a run counts when the byte behind it is read.\<close>

fun string_runs :: "bytes \<Rightarrow> nat \<Rightarrow> nat \<Rightarrow> nat \<Rightarrow> nat \<times> nat" where
  "string_runs [] current printable_runs total_runs = (printable_runs, total_runs)"
| "string_runs (b # bs) current printable_runs total_runs =
     (if printable_byte b then string_runs bs (current + 1) printable_runs total_runs
      else string_runs bs 0 (if 4 \<le> current then printable_runs + 1 else printable_runs) (total_runs + (if 0 < current then 1 else 0)))"

definition check_obfuscated_strings :: "bytes \<Rightarrow> HeuristicResult option" where
  "check_obfuscated_strings data =
     (if length data < 256 then None
      else case string_runs data 0 0 0 of (printable_runs, total_runs) \<Rightarrow>
        if 0 < total_runs \<and> printable_runs = 0 \<and> 4096 < length data
        then Some \<lparr>hr_rule_name = ''obfuscated_strings'', hr_level = MEDIUM, hr_category = SUSPICIOUS_BINARY, hr_confidence = fl (6/10),
          hr_description = ''No readable strings in binary '' @ em_dash @ '' likely obfuscated''\<rparr>
        else None)"

definition check_process_injection_api :: "bytes \<Rightarrow> HeuristicResult option" where
  "check_process_injection_api data =
     (let has_alloc = find_str data ''VirtualAllocEx'' \<or> find_str data ''NtAllocateVirtualMemory'';
          has_write = find_str data ''WriteProcessMemory'' \<or> find_str data ''NtWriteVirtualMemory'';
          has_exec = find_str data ''CreateRemoteThread'' \<or> find_str data ''NtCreateThreadEx'' \<or> find_str data ''QueueUserAPC''
      in if has_alloc \<and> has_write \<and> has_exec
         then Some \<lparr>hr_rule_name = ''classic_injection_triad'', hr_level = CRITICAL, hr_category = MEMORY_INJECTION, hr_confidence = fl (95/100),
           hr_description = ''Classic injection API triad: alloc+write+execute''\<rparr>
         else None)"

definition analyze_binary :: "(double \<Rightarrow> double) \<Rightarrow> bytes \<Rightarrow> HeuristicResult list" where
  "analyze_binary lg data =
     List.map_filter id [check_packed_binary lg data, check_suspicious_imports data, check_code_cave data, check_anti_debug data,
       check_obfuscated_strings data, check_process_injection_api data]"

text \<open>\<open>image_path\<close> is the answer of \<^verbatim>\<open>QueryFullProcessImageNameA\<close>, where the process could be opened.\<close>

definition analyze_process :: "u32 \<Rightarrow> string option \<Rightarrow> HeuristicResult list" where
  "analyze_process pid image_path =
     (if pid = 0 then []
      else case image_path of None \<Rightarrow> []
        | Some p \<Rightarrow>
          let bs = CHR 0x5C; lower = map tolower_c p in
          (if contains_text (bs # ''temp'' @ [bs]) lower \<or> contains_text (bs # ''appdata'' @ bs # ''local'' @ bs # ''temp'') lower
           then [\<lparr>hr_rule_name = ''temp_directory_execution'', hr_level = MEDIUM, hr_category = SUSPICIOUS_BINARY, hr_confidence = fl (70/100),
                  hr_description = ''Process executed from temporary directory: '' @ p\<rparr>] else []) @
          (if contains_text ''svchost.exe'' lower \<and> \<not> contains_text (''c:'' @ bs # ''windows'' @ bs # ''system32'') lower
           then [\<lparr>hr_rule_name = ''masquerading_system_binary'', hr_level = HIGH, hr_category = SUSPICIOUS_BINARY, hr_confidence = fl (90/100),
                  hr_description = ''Non-system path masquerading as svchost: '' @ p\<rparr>] else []))"

definition analyze_network_behavior :: "u32 \<Rightarrow> u16 \<Rightarrow> nat \<Rightarrow> double \<Rightarrow> HeuristicResult list" where
  "analyze_network_behavior src_ip dst_port packet_count avg_entropy =
     (if 1000 < packet_count \<and> dst_port < 1024
      then [\<lparr>hr_rule_name = ''high_rate_to_privileged_port'', hr_level = HIGH, hr_category = SYN_FLOOD, hr_confidence = fl (85/100),
             hr_description = ''High packet rate to privileged port '' @ to_string (unat dst_port)\<rparr>] else []) @
     (if dlt (fl (75/10)) avg_entropy
      then [\<lparr>hr_rule_name = ''encrypted_exfil'', hr_level = HIGH, hr_category = DNS_TUNNEL, hr_confidence = fl (75/100),
             hr_description = ''High average entropy suggests encrypted C2/exfil channel''\<rparr>] else [])"

section \<open>Names\<close>

lemma has_name_iff: "has_name api data \<longleftrightarrow> (\<exists>xs ys. data = xs @ api @ ys)"
proof (induction data)
  case (Cons b bs)
  have "(\<exists>xs ys. b # bs = xs @ api @ ys) \<longleftrightarrow> (\<exists>ys. b # bs = api @ ys) \<or> (\<exists>xs ys. bs = xs @ api @ ys)"
    by (metis (no_types, opaque_lifting) append_Cons append_Nil list.exhaust list.inject)
  also have "(\<exists>ys. b # bs = api @ ys) \<longleftrightarrow> take (length api) (b # bs) = api"
    by (metis append_eq_conv_conj append_take_drop_id)
  finally show ?case using Cons by simp
qed auto

text \<open>
  The names of a triad are found wherever they stand, so a binary with one name of each group is reported as critical whatever
  else it holds.
\<close>

lemma injection_triad:
  "check_process_injection_api data \<noteq> None \<longleftrightarrow>
    (\<exists>a \<in> {''VirtualAllocEx'', ''NtAllocateVirtualMemory''}. \<exists>w \<in> {''WriteProcessMemory'', ''NtWriteVirtualMemory''}.
     \<exists>x \<in> {''CreateRemoteThread'', ''NtCreateThreadEx'', ''QueueUserAPC''}.
       \<forall>name \<in> {a, w, x}. \<exists>xs ys. data = xs @ map byte_of name @ ys)"
  by (auto simp: check_process_injection_api_def Let_def find_str_def has_name_iff)

section \<open>Runs\<close>

lemma take_zeros: "b \<noteq> 0 \<Longrightarrow> take k (replicate n 0 @ b # bs) = replicate k (0 :: u8) \<longleftrightarrow> k \<le> n"
proof (induction n arbitrary: k)
  case 0
  then show ?case by (cases k) auto
next
  case (Suc n)
  then show ?case by (cases k) auto
qed

lemma zeros_before: "b \<noteq> 0 \<Longrightarrow> has_name (replicate k 0) (replicate n 0 @ b # bs) \<longleftrightarrow> k \<le> n \<or> has_name (replicate k 0) bs"
proof (induction n)
  case 0
  then show ?case using take_zeros [of b k 0 bs] by simp
next
  case (Suc n)
  then show ?case using take_zeros [of b k "Suc n" bs] by auto
qed

lemma zeros_only: "has_name (replicate k 0) (replicate n (0 :: u8)) \<longleftrightarrow> k \<le> n"
proof
  assume "has_name (replicate k 0) (replicate n (0 :: u8))"
  then obtain xs ys where "replicate n (0 :: u8) = xs @ replicate k 0 @ ys" by (auto simp: has_name_iff)
  from arg_cong [OF this, of length] show "k \<le> n" by simp
next
  assume "k \<le> n"
  then have "replicate n (0 :: u8) = [] @ replicate k 0 @ replicate (n - k) 0" by (simp flip: replicate_add)
  then show "has_name (replicate k 0) (replicate n (0 :: u8))" unfolding has_name_iff by blast
qed

lemma zeros_prefix: "k \<le> n \<Longrightarrow> has_name (replicate k 0) (replicate n (0 :: u8) @ bs)"
proof -
  assume "k \<le> n"
  then have "replicate n (0 :: u8) @ bs = [] @ replicate k 0 @ replicate (n - k) 0 @ bs" by (simp add: append_assoc [symmetric] flip: replicate_add)
  then show ?thesis unfolding has_name_iff by blast
qed

lemma zero_runs_le:
  "z \<le> m \<Longrightarrow> k \<le> zero_runs bs z m \<longleftrightarrow> k \<le> m \<or> has_name (replicate k 0) (replicate z 0 @ bs)"
proof (induction bs z m rule: zero_runs.induct)
  case (1 z m)
  then show ?case by (auto simp: zeros_only)
next
  case (2 b bs z m)
  show ?case
  proof (cases "b = 0")
    case True
    have e: "replicate z 0 @ b # bs = replicate (Suc z) 0 @ bs" using True by (simp add: replicate_app_Cons_same)
    define m' where "m' = (if m < z + 1 then z + 1 else m)"
    have m': "z + 1 \<le> m'" "k \<le> m' \<longleftrightarrow> k \<le> m \<or> k \<le> Suc z" using 2(3) by (auto simp: m'_def)
    have "k \<le> zero_runs bs (z + 1) m' \<longleftrightarrow> k \<le> m' \<or> has_name (replicate k 0) (replicate (z + 1) 0 @ bs)"
      using 2(1) [OF True] m'(1) unfolding m'_def by blast
    moreover have "zero_runs (b # bs) z m = zero_runs bs (z + 1) m'" using True by (simp add: m'_def)
    ultimately show ?thesis unfolding e using m'(2) zeros_prefix [of k "Suc z" bs] by (metis Suc_eq_plus1)
  next
    case False
    then show ?thesis using 2 zeros_before [OF False, of k z bs] by auto
  qed
qed

text \<open>The longest run of zeros is found: \<open>k\<close> zeros in a row occur exactly for the \<open>k\<close> up to the result.\<close>

theorem longest_zero_run: "k \<le> zero_runs data 0 0 \<longleftrightarrow> (\<exists>xs ys. data = xs @ replicate k 0 @ ys)"
proof (cases k)
  case 0
  then show ?thesis by auto
next
  case (Suc n)
  then show ?thesis using zero_runs_le [of 0 0 k data] by (simp add: has_name_iff)
qed

section \<open>Readable strings\<close>

text \<open>
  The last run of a file has no byte behind it and is not counted: a file of one short run and then one readable string up to
  its end is reported as having no readable strings.
\<close>

lemma string_runs_printable: "\<forall>b \<in> set bs. printable_byte b \<Longrightarrow> string_runs bs c p t = (p, t)"
  by (induction bs arbitrary: c) auto

lemma last_string_not_counted:
  assumes "\<forall>b \<in> set readable. printable_byte b" "4096 \<le> length readable"
  shows "check_obfuscated_strings (0x41 # 0 # readable) \<noteq> None"
proof -
  have "string_runs (0x41 # 0 # readable) 0 0 0 = (0, 1)"
    using string_runs_printable [OF assms(1)] by (simp add: printable_byte_def)
  then show ?thesis using assms(2) by (simp add: check_obfuscated_strings_def)
qed

end
