(* ===== verification/Deep_Scanner.thy ===== *)
theory Deep_Scanner
  imports Signature_DB Heuristic_Rules Fileless_Ast Process_Behavior "HOL-Library.Sublist"
begin

text \<open>
  \<^verbatim>\<open>scanner/deep_scanner.{hpp,cpp}\<close>, the Windows build: the walk over a directory tree, the checks on the bytes of a file or of a
  memory region, and the state of a scan from its start to its end. Files, directories and memory regions are arguments: what
  the operating system answers. The tasks of a scan run in the order of the queue. The cancel flag is set once and read in
  many places: a walk gets the number of reads before it is set. The lemmas say what a walk collects, which byte strings count
  as shellcode, in which order the checks decide on a file, and what the counters hold at the end of a scan.
\<close>

section \<open>The checks\<close>

datatype ScanMode = QUICK | DEEP | MEMORY | CUSTOM

text \<open>The level is the byte of the enumeration value, as in the signatures.\<close>

record ScanResult =
  sr_file_path :: string
  sr_level :: u8
  sr_category :: ThreatCategory
  sr_signature_name :: string
  sr_entropy :: double
  sr_matched_bytes :: bytes
  sr_description :: string

definition ScanResult_for :: "string \<Rightarrow> ScanResult" where
  "ScanResult_for path = \<lparr>sr_file_path = path, sr_level = 0, sr_category = NONE, sr_signature_name = [], sr_entropy = Fin 0, sr_matched_bytes = [],
     sr_description = []\<rparr>"

definition level_byte :: "ThreatLevel \<Rightarrow> u8" where
  "level_byte l = of_nat (level_code l)"

definition check_signature_match :: "SignatureDB \<Rightarrow> bytes \<Rightarrow> ScanResult \<Rightarrow> ScanResult option" where
  "check_signature_match db data out =
     map_option (\<lambda>m. out\<lparr>sr_level := sg_level (mr_sig m), sr_category := sg_category (mr_sig m), sr_signature_name := sg_name (mr_sig m),
       sr_description := sg_description (mr_sig m), sr_matched_bytes := sub_bytes data (mr_offset m) (min (length (sg_pattern (mr_sig m))) 32)\<rparr>)
       (sig_scan db data)"

definition check_entropy_anomaly :: "(double \<Rightarrow> double) \<Rightarrow> bytes \<Rightarrow> ScanResult \<Rightarrow> ScanResult option" where
  "check_entropy_anomaly lg data out =
     (let ent = shannon_entropy lg data in
      if dlt (fl (78/10)) ent \<and> 4096 < length data
      then Some (out\<lparr>sr_entropy := ent, sr_level := level_byte HIGH, sr_category := ENTROPY_ANOMALY,
        sr_description := ''Extremely high entropy ('' @ format_fixed 3 ent @ '') '' @ em_dash @ '' packed/encrypted''\<rparr>)
      else None)"

definition pe_result :: "PeAnalysisReport \<Rightarrow> ScanResult \<Rightarrow> ScanResult" where
  "pe_result r out =
     (let packer = pr_detected_packer r; out1 = out\<lparr>sr_level := level_byte (pr_assessed_level r), sr_entropy := pr_overall_entropy r\<rparr> in
      if pr_is_packed r then
        out1\<lparr>sr_category := MALWARE_PACKER, sr_signature_name := ''PE.Packer.'' @ (if packer = [] then ''Generic'' else packer),
          sr_description := ''Packed/Obfuscated PE binary ('' @ (if packer = [] then ''High Entropy'' else packer) @ '')''\<rparr>
      else if 100 \<le> pr_dangerous_api_score r then
        out1\<lparr>sr_category := MEMORY_INJECTION, sr_signature_name := ''PE.DangerousAPIs'',
          sr_description := ''PE with dangerous API cluster (Score: '' @ to_string (unat (pr_dangerous_api_score r)) @ '')''\<rparr>
      else
        out1\<lparr>sr_category := SUSPICIOUS_BINARY, sr_signature_name := ''PE.Anomaly'',
          sr_description := (if pr_threat_reasons r = [] then ''PE static structural anomaly'' else pr_threat_reasons r ! 0)\<rparr>)"

definition heuristic_result :: "(double \<Rightarrow> double) \<Rightarrow> bytes \<Rightarrow> ScanResult \<Rightarrow> ScanResult option" where
  "heuristic_result lg data out =
     map_option (\<lambda>h. out\<lparr>sr_level := level_byte (hr_level h), sr_category := hr_category h, sr_description := hr_description h\<rparr>)
       (find (\<lambda>h. dlt (fl (7/10)) (hr_confidence h)) (analyze_binary lg data))"

text \<open>The outer option is that of the PE analysis, which is \<open>None\<close> for a read outside the buffer; the static analysis counts its calls.\<close>

definition check_pe_header ::
  "(double \<Rightarrow> double) \<Rightarrow> bytes \<Rightarrow> ScanResult \<Rightarrow> PeStaticAnalysisEngine \<Rightarrow> (ScanResult option \<times> PeStaticAnalysisEngine) option" where
  "check_pe_header lg data out pe =
     (if length data < 64 then Some (None, pe)
      else if data ! 0 \<noteq> 0x4D \<or> data ! 1 \<noteq> 0x5A then Some (None, pe)
      else let pe_offset = unat (read_u32 data 60) in
        if length data < pe_offset + 8 then Some (None, pe)
        else if data ! pe_offset \<noteq> 0x50 \<or> data ! (pe_offset + 1) \<noteq> 0x45 then Some (None, pe)
        else let num_sections = read_u16 data (pe_offset + 6) in
          if 96 < num_sections
          then Some (Some (out\<lparr>sr_level := level_byte MEDIUM, sr_category := SUSPICIOUS_BINARY,
            sr_description := ''PE with abnormal section count: '' @ to_string (unat num_sections)\<rparr>), pe)
          else (case analyze_buffer lg data of
             None \<Rightarrow> None
           | Some r \<Rightarrow>
               let pe1 = pe\<lparr>pe_scans_performed := pe_scans_performed pe + 1\<rparr> in
               if pr_is_valid_pe r \<and> MEDIUM \<le> pr_assessed_level r then Some (Some (pe_result r out), pe1)
               else Some (heuristic_result lg data out, pe1)))"

definition check_elf_header :: "(double \<Rightarrow> double) \<Rightarrow> bytes \<Rightarrow> ScanResult \<Rightarrow> ScanResult option" where
  "check_elf_header lg data out =
     (if length data < 16 then None
      else if take 4 data \<noteq> [0x7F, 0x45, 0x4C, 0x46] then None
      else if dlt (fl (75/10)) (shannon_entropy lg (take 4096 data))
      then Some (out\<lparr>sr_level := level_byte MEDIUM, sr_category := SUSPICIOUS_BINARY, sr_description := ''ELF binary with high entropy header section''\<rparr>)
      else None)"

text \<open>The end of a sled that starts at \<open>i\<close>: the first position from there without the byte \<^verbatim>\<open>0x90\<close>.\<close>

definition sled_end :: "bytes \<Rightarrow> nat \<Rightarrow> nat" where
  "sled_end data i = i + length (takeWhile (\<lambda>b. b = 0x90) (drop i data))"

definition transfer_bytes :: "u8 list" where
  "transfer_bytes = [0xCC, 0xEB, 0xE8, 0xE9, 0x68, 0x31]"

function sled_scan :: "bytes \<Rightarrow> nat \<Rightarrow> (nat \<times> nat) option" where
  "sled_scan data i =
     (if length data < i + 32 then None
      else if sub_bytes data i 32 = replicate 32 0x90 then
        let e = sled_end data i in
        if e + 4 < length data \<and> data ! e \<in> set transfer_bytes then Some (i, e - i) else sled_scan data (e + 1)
      else sled_scan data (i + 1))"
  by pat_completeness auto
termination by (relation "measure (\<lambda>(data, i). length data - i)") (auto simp: sled_end_def)

declare sled_scan.simps [simp del]

definition check_shellcode_patterns :: "bytes \<Rightarrow> ScanResult \<Rightarrow> ScanResult option" where
  "check_shellcode_patterns data out =
     map_option (\<lambda>(i, n). out\<lparr>sr_level := level_byte CRITICAL, sr_category := SHELLCODE,
       sr_description := ''NOP sled ('' @ to_string n @ '' bytes) followed by control transfer at offset '' @ to_string i\<rparr>) (sled_scan data 0)"

section \<open>Files\<close>

datatype scan_call = Result_Call ScanResult | Observation_Call SecurityObservation

record DeepScanner =
  ds_scanning :: bool
  ds_cancel :: bool
  ds_files_total :: u64
  ds_files_scanned :: u64
  ds_threats_found :: u64
  ds_lifetime_scanned :: u64
  ds_lifetime_threats :: u64
  ds_scans_completed :: u64
  ds_results :: "ScanResult list"
  ds_mode :: ScanMode
  ds_result_cb :: bool
  ds_observation_cb :: bool
  ds_pe_static :: PeStaticAnalysisEngine
  ds_lolbins :: LolbinsEngine
  ds_fileless :: FilelessAstEngine

definition DeepScanner_new :: DeepScanner where
  "DeepScanner_new = \<lparr>ds_scanning = False, ds_cancel = False, ds_files_total = 0, ds_files_scanned = 0, ds_threats_found = 0,
     ds_lifetime_scanned = 0, ds_lifetime_threats = 0, ds_scans_completed = 0, ds_results = [], ds_mode = DEEP, ds_result_cb = False,
     ds_observation_cb = False, ds_pe_static = PeStaticAnalysisEngine_new, ds_lolbins = LolbinsEngine_new, ds_fileless = FilelessAstEngine_new\<rparr>"

definition script_extensions :: "string list" where
  "script_extensions = [''.ps1'', ''.vbs'', ''.js'', ''.bat'', ''.cmd'', ''.hta'']"

definition LolbinExecution_default :: LolbinExecution where
  "LolbinExecution_default = \<lparr>le_pid = 0, le_binary_name = [], le_command_line = [], le_normalized_command_line = [], le_decoded_payload = [],
     le_is_malicious = False, le_mitre_technique = [], le_reason = [], le_severity = SAFE\<rparr>"

text \<open>The checks by file type: shortcuts and scripts.\<close>

definition check_by_type :: "time_point \<Rightarrow> string \<Rightarrow> bytes option \<Rightarrow> bytes \<Rightarrow> DeepScanner \<Rightarrow> ScanResult option \<times> DeepScanner" where
  "check_by_type now path contents data s =
     (let ext = map tolower_c (extension path); result = ScanResult_for path in
      if ext = ''.lnk'' then
        (case inspect_lnk_file now contents LolbinExecution_default (ds_lolbins s) of (hit, le, lb, es) \<Rightarrow>
           (if hit \<and> le_is_malicious le
            then Some (result\<lparr>sr_level := level_byte (le_severity le), sr_category := LOLBIN_EXECUTION, sr_signature_name := ''LNK.Weaponized'',
              sr_description := ''Weaponized LNK shortcut: '' @ le_reason le\<rparr>)
            else None, s\<lparr>ds_lolbins := lb\<rparr>))
      else if ext \<in> set script_extensions then
        (case evaluate_script now (map text_byte data) (ds_fileless s) of (fe, fa, es) \<Rightarrow>
           (if fe_is_malicious fe
            then Some (result\<lparr>sr_level := level_byte (fe_severity fe), sr_category := PERSISTENCE_HIJACK, sr_signature_name := ''Script.ObfuscatedAST'',
              sr_description := ''Malicious fileless script: '' @ fe_reason fe\<rparr>)
            else None, s\<lparr>ds_fileless := fa\<rparr>))
      else (None, s))"

definition check_contents ::
  "(double \<Rightarrow> double) \<Rightarrow> bytes \<Rightarrow> string \<Rightarrow> DeepScanner \<Rightarrow> (ScanResult option \<times> DeepScanner) option" where
  "check_contents lg data path s =
     (case check_shellcode_patterns data (ScanResult_for path) of
        Some r \<Rightarrow> Some (Some r, s)
      | None \<Rightarrow>
          (case check_pe_header lg data (ScanResult_for path) (ds_pe_static s) of
             None \<Rightarrow> None
           | Some (pr, pe) \<Rightarrow>
               let s1 = s\<lparr>ds_pe_static := pe\<rparr> in
               (case pr of
                  Some r \<Rightarrow> Some (Some r, s1)
                | None \<Rightarrow>
                    (case check_elf_header lg data (ScanResult_for path) of
                       Some r \<Rightarrow> Some (Some r, s1)
                     | None \<Rightarrow> Some (check_entropy_anomaly lg data (ScanResult_for path), s1)))))"

definition find_threat ::
  "(double \<Rightarrow> double) \<Rightarrow> SignatureDB \<Rightarrow> time_point \<Rightarrow> string \<Rightarrow> bytes option \<Rightarrow> bytes \<Rightarrow> DeepScanner \<Rightarrow> (ScanResult option \<times> DeepScanner) option" where
  "find_threat lg db now path contents data s =
     (case check_signature_match db data (ScanResult_for path) of
        Some r \<Rightarrow> Some (Some r, s)
      | None \<Rightarrow> (case check_by_type now path contents data s of
           (Some r, s1) \<Rightarrow> Some (Some r, s1)
         | (None, s1) \<Rightarrow> check_contents lg data path s1))"

definition note_threat :: "ScanResult \<Rightarrow> DeepScanner \<Rightarrow> DeepScanner \<times> scan_call list" where
  "note_threat r s = (s\<lparr>ds_threats_found := ds_threats_found s + 1, ds_results := ds_results s @ [r]\<rparr>, if ds_result_cb s then [Result_Call r] else [])"

definition trust_calls :: "(double \<Rightarrow> double) \<Rightarrow> time_point \<Rightarrow> string \<Rightarrow> FileView \<Rightarrow> DeepScanner \<Rightarrow> scan_call list" where
  "trust_calls lg now path f s =
     (if ds_observation_cb s \<and> (ds_mode s = QUICK \<or> ds_mode s = CUSTOM) \<and> map tolower_c (extension path) \<in> {''.exe'', ''.dll'', ''.sys''}
      then map Observation_Call (artifact_inspect lg now path f) else [])"

text \<open>A file shorter than its size leaves the rest of the buffer zero.\<close>

definition read_buffer :: "nat \<Rightarrow> bytes \<Rightarrow> bytes" where
  "read_buffer sz c = take sz (c @ replicate (sz - length c) 0)"

definition scan_file ::
  "(double \<Rightarrow> double) \<Rightarrow> SignatureDB \<Rightarrow> time_point \<Rightarrow> string \<Rightarrow> FileView \<Rightarrow> DeepScanner \<Rightarrow> (bool \<times> DeepScanner \<times> scan_call list) option" where
  "scan_file lg db now path f s =
     (case fv_size f of
        None \<Rightarrow> Some (False, s, [])
      | Some sz \<Rightarrow>
          if sz = 0 \<or> 256 * 1024 * 1024 < sz then Some (False, s, [])
          else (case fv_contents f of
             None \<Rightarrow> Some (False, s, [])
           | Some c \<Rightarrow>
               (case find_threat lg db now path (Some c) (read_buffer sz c) s of
                  None \<Rightarrow> None
                | Some (Some r, s1) \<Rightarrow> (case note_threat r s1 of (s2, calls) \<Rightarrow> Some (True, s2, calls @ trust_calls lg now path f s2))
                | Some (None, s1) \<Rightarrow> Some (False, s1, trust_calls lg now path f s1))))"

section \<open>Memory\<close>

definition scan_buffer_for :: "(double \<Rightarrow> double) \<Rightarrow> SignatureDB \<Rightarrow> bytes \<Rightarrow> string \<Rightarrow> ScanResult option" where
  "scan_buffer_for lg db data origin =
     (case check_signature_match db data (ScanResult_for origin) of
        Some r \<Rightarrow> Some r
      | None \<Rightarrow> (case check_shellcode_patterns data (ScanResult_for origin) of
           Some r \<Rightarrow> Some r
         | None \<Rightarrow> check_entropy_anomaly lg data (ScanResult_for origin)))"

text \<open>A region as \<^verbatim>\<open>VirtualQueryEx\<close> describes it, and what \<^verbatim>\<open>ReadProcessMemory\<close> gives for its start.\<close>

record MemRegion =
  mg_base :: u64
  mg_size :: u64
  mg_committed :: bool
  mg_executable :: bool
  mg_guard :: bool
  mg_read :: "bytes option"

definition kMaxRegion :: nat where "kMaxRegion = 16 * 1024 * 1024"
definition kMaxPerProc :: nat where "kMaxPerProc = 64 * 1024 * 1024"

definition memory_origin :: "u32 \<Rightarrow> string \<Rightarrow> u64 \<Rightarrow> string" where
  "memory_origin pid pname base = ''PID '' @ to_string (unat pid) @ '' ('' @ pname @ '') @ 0x'' @ hex_string (unat base)"

definition region_bytes :: "MemRegion \<Rightarrow> bytes option" where
  "region_bytes r =
     (if \<not> mg_committed r \<or> \<not> mg_executable r \<or> mg_guard r then None
      else case mg_read r of None \<Rightarrow> None
        | Some bs \<Rightarrow> let got = take (min (unat (mg_size r)) kMaxRegion) bs in if got = [] then None else Some got)"

fun region_loop ::
  "(double \<Rightarrow> double) \<Rightarrow> SignatureDB \<Rightarrow> u32 \<Rightarrow> string \<Rightarrow> nat \<Rightarrow> u64 \<Rightarrow> nat \<Rightarrow> MemRegion list \<Rightarrow> bool \<Rightarrow> DeepScanner \<Rightarrow>
   bool \<times> DeepScanner \<times> scan_call list" where
  "region_loop lg db pid pname polls addr scanned [] found s = (found, s, [])"
| "region_loop lg db pid pname polls addr scanned (r # rs) found s =
     (if polls = 0 \<or> kMaxPerProc \<le> scanned then (found, s, [])
      else let after = mg_base r + mg_size r in
        if after \<le> addr then (found, s, [])
        else case region_bytes r of
          None \<Rightarrow> region_loop lg db pid pname (polls - 1) after scanned rs found s
        | Some buf \<Rightarrow>
            (case scan_buffer_for lg db buf (memory_origin pid pname (mg_base r)) of
               None \<Rightarrow> region_loop lg db pid pname (polls - 1) after (scanned + length buf) rs found s
             | Some res \<Rightarrow>
                 (case note_threat res s of (s1, calls) \<Rightarrow>
                    case region_loop lg db pid pname (polls - 1) after (scanned + length buf) rs True s1 of
                      (b, s2, calls') \<Rightarrow> (b, s2, calls @ calls'))))"

text \<open>\<open>None\<close> is a process that cannot be opened.\<close>

definition scan_process_memory ::
  "(double \<Rightarrow> double) \<Rightarrow> SignatureDB \<Rightarrow> u32 \<Rightarrow> string \<Rightarrow> nat \<Rightarrow> MemRegion list option \<Rightarrow> DeepScanner \<Rightarrow> bool \<times> DeepScanner \<times> scan_call list" where
  "scan_process_memory lg db pid pname polls regions s =
     (case regions of None \<Rightarrow> (False, s, []) | Some rs \<Rightarrow> region_loop lg db pid pname polls 0 0 rs False s)"

section \<open>Directories\<close>

text \<open>
  An entry of a directory: a link, a file with its size where it can be asked, a directory with what iterating it yields, or
  something else. A directory that cannot be opened has \<open>None\<close>; where the iteration fails half-way, the entries before it.
\<close>

datatype fs_entry =
    Link string
  | File string "nat option"
  | Dir string "fs_entry list option"
  | Other string

fun entry_size :: "fs_entry \<Rightarrow> nat" where
  "entry_size (Dir p es) = Suc (case es of None \<Rightarrow> 0 | Some xs \<Rightarrow> sum_list (map entry_size xs))"
| "entry_size _ = 1"

definition scannable :: "nat option \<Rightarrow> bool" where
  "scannable sz = (case sz of None \<Rightarrow> False | Some n \<Rightarrow> n \<noteq> 0 \<and> n \<le> 256 * 1024 * 1024)"

text \<open>
  One directory: its files are appended and its directories pushed; \<open>None\<close> in the last component means that the walk
  returns, at the cancel flag or at the limit.
\<close>

fun list_directory ::
  "nat \<Rightarrow> nat \<Rightarrow> fs_entry list \<Rightarrow> fs_entry list \<Rightarrow> string list \<Rightarrow> nat \<times> string list \<times> fs_entry list option" where
  "list_directory max_files polls [] stack out = (polls, out, Some stack)"
| "list_directory max_files polls (e # es) stack out =
     (if polls = 0 \<or> max_files \<le> length out then (polls - 1, out, None)
      else case e of
        Link p \<Rightarrow> list_directory max_files (polls - 1) es stack out
      | Dir p sub \<Rightarrow> list_directory max_files (polls - 1) es (e # stack) out
      | File p sz \<Rightarrow> list_directory max_files (polls - 1) es stack (if scannable sz then out @ [p] else out)
      | Other p \<Rightarrow> list_directory max_files (polls - 1) es stack out)"

lemma list_directory_size:
  "list_directory max_files polls es stack out = (polls', out', Some stack') \<Longrightarrow>
    sum_list (map entry_size stack') \<le> sum_list (map entry_size stack) + sum_list (map entry_size es)"
proof (induction max_files polls es stack out arbitrary: polls' out' stack' rule: list_directory.induct)
  case (2 max_files polls e es stack out)
  then show ?case by (cases e) (fastforce split: if_splits)+
qed simp

function walk :: "nat \<Rightarrow> nat \<Rightarrow> fs_entry list \<Rightarrow> string list \<Rightarrow> string list" where
  "walk max_files polls stack out =
     (case stack of [] \<Rightarrow> out
      | d # rest \<Rightarrow>
          if polls = 0 \<or> max_files \<le> length out then out
          else case d of
            Dir p (Some es) \<Rightarrow>
              (case list_directory max_files (polls - 1) es rest out of
                 (polls', out', None) \<Rightarrow> out'
               | (polls', out', Some stack') \<Rightarrow> walk max_files polls' stack' out')
          | _ \<Rightarrow> walk max_files (polls - 1) rest out)"
  by pat_completeness auto
termination by (relation "measure (\<lambda>(m, k, stack, out). sum_list (map entry_size stack))") (auto dest!: list_directory_size [OF sym])

declare walk.simps [simp del]

definition enumerate_files :: "nat \<Rightarrow> nat \<Rightarrow> fs_entry option \<Rightarrow> string list \<Rightarrow> string list" where
  "enumerate_files max_files polls rt out =
     (case rt of
        None \<Rightarrow> out
      | Some (File p sz) \<Rightarrow> out @ [p]
      | Some r \<Rightarrow> if max_files \<le> length out then out else walk max_files polls [r] out)"

section \<open>A scan\<close>

definition start_scan :: "ScanMode \<Rightarrow> DeepScanner \<Rightarrow> DeepScanner" where
  "start_scan mode s =
     (if ds_scanning s then s
      else s\<lparr>ds_scanning := True, ds_cancel := False, ds_mode := mode, ds_files_scanned := 0, ds_threats_found := 0, ds_files_total := 0,
             ds_results := []\<rparr>)"

definition max_files_for :: "ScanMode \<Rightarrow> nat" where
  "max_files_for mode = (if mode = QUICK then 20000 else 200000)"

text \<open>One task of the pool; the progress advances in every case.\<close>

definition file_task ::
  "(double \<Rightarrow> double) \<Rightarrow> SignatureDB \<Rightarrow> time_point \<Rightarrow> string \<times> FileView \<Rightarrow> DeepScanner \<Rightarrow> (DeepScanner \<times> scan_call list) option" where
  "file_task lg db now t s =
     (case (if ds_cancel s then Some (False, s, []) else scan_file lg db now (fst t) (snd t) s) of
        None \<Rightarrow> None
      | Some (b, s1, calls) \<Rightarrow> Some (s1\<lparr>ds_files_scanned := ds_files_scanned s1 + 1\<rparr>, calls))"

fun run_tasks ::
  "(double \<Rightarrow> double) \<Rightarrow> SignatureDB \<Rightarrow> time_point \<Rightarrow> (string \<times> FileView) list \<Rightarrow> DeepScanner \<Rightarrow> (DeepScanner \<times> scan_call list) option" where
  "run_tasks lg db now [] s = Some (s, [])"
| "run_tasks lg db now (t # ts) s =
     (case file_task lg db now t s of None \<Rightarrow> None
      | Some (s1, calls) \<Rightarrow> (case run_tasks lg db now ts s1 of None \<Rightarrow> None | Some (s2, calls') \<Rightarrow> Some (s2, calls @ calls')))"

definition finish_scan :: "DeepScanner \<Rightarrow> DeepScanner" where
  "finish_scan s =
     s\<lparr>ds_scanning := False, ds_lifetime_scanned := ds_lifetime_scanned s + ds_files_scanned s,
       ds_lifetime_threats := ds_lifetime_threats s + ds_threats_found s,
       ds_scans_completed := (if ds_cancel s then ds_scans_completed s else ds_scans_completed s + 1)\<rparr>"

text \<open>The thread of a scan over the files the walk found, when nobody cancels it.\<close>

definition file_scan ::
  "(double \<Rightarrow> double) \<Rightarrow> SignatureDB \<Rightarrow> time_point \<Rightarrow> ScanMode \<Rightarrow> (string \<times> FileView) list \<Rightarrow> DeepScanner \<Rightarrow> (DeepScanner \<times> scan_call list) option" where
  "file_scan lg db now mode files s =
     (case run_tasks lg db now files ((start_scan mode s)\<lparr>ds_files_total := of_nat (length files)\<rparr>) of
        None \<Rightarrow> None | Some (s1, calls) \<Rightarrow> Some (finish_scan s1, calls))"

definition cancel_scan :: "DeepScanner \<Rightarrow> DeepScanner" where
  "cancel_scan s = s\<lparr>ds_cancel := True, ds_scanning := False\<rparr>"

section \<open>What a walk collects\<close>

fun own_files :: "fs_entry \<Rightarrow> string list" where
  "own_files (File p sz) = (if scannable sz then [p] else [])"
| "own_files _ = []"

fun is_dir :: "fs_entry \<Rightarrow> bool" where
  "is_dir (Dir p es) = True"
| "is_dir _ = False"

text \<open>The scannable files of a tree, in no particular order.\<close>

fun files_below :: "fs_entry \<Rightarrow> string multiset" where
  "files_below (File p sz) = (if scannable sz then {#p#} else {#})"
| "files_below (Dir p es) = (case es of None \<Rightarrow> {#} | Some xs \<Rightarrow> sum_list (map files_below xs))"
| "files_below _ = {#}"

lemma entry_size_pos [simp]: "0 < entry_size e"
  by (cases e) auto

lemma list_directory_result:
  "length es \<le> polls \<Longrightarrow> length out + length (concat (map own_files es)) < max_files \<Longrightarrow>
    list_directory max_files polls es stack out = (polls - length es, out @ concat (map own_files es), Some (rev (filter is_dir es) @ stack))"
proof (induction max_files polls es stack out rule: list_directory.induct)
  case (2 max_files polls e es stack out)
  then show ?case by (cases e) (auto split: if_splits)
qed simp

lemma files_split: "sum_list (map files_below es) = mset (concat (map own_files es)) + sum_list (map files_below (filter is_dir es))"
proof (induction es)
  case (Cons e es)
  then show ?case by (cases e) auto
qed simp

lemma size_split: "sum_list (map entry_size es) + length (filter is_dir es) = sum_list (map entry_size (filter is_dir es)) + length es"
proof (induction es)
  case (Cons e es)
  then show ?case by (cases e) auto
qed simp

lemma length_le_size: "length es \<le> sum_list (map entry_size es)"
proof (induction es)
  case (Cons e es)
  have "1 \<le> entry_size e" by (simp add: Suc_le_eq)
  then show ?case using Cons by simp
qed simp

lemma sum_list_rev_filter: "sum_list (map f (rev xs)) = sum_list (map f xs)" for f :: "'a \<Rightarrow> 'b :: comm_monoid_add"
  by (simp add: rev_map [symmetric])

text \<open>
  A walk that is not cancelled and stays below the limit collects exactly the files of the tree that can be scanned, each as
  often as it occurs; links are not followed.
\<close>

lemma walk_collects:
  "\<forall>d \<in> set stack. is_dir d \<Longrightarrow> 2 * sum_list (map entry_size stack) \<le> polls + length stack \<Longrightarrow>
    length out + size (sum_list (map files_below stack)) < max_files \<Longrightarrow>
    mset (walk max_files polls stack out) = mset out + sum_list (map files_below stack)"
proof (induction max_files polls stack out rule: walk.induct)
  case (1 max_files polls stack out)
  show ?case
  proof (cases stack)
    case Nil
    then show ?thesis by (simp add: walk.simps)
  next
    case (Cons d rest)
    then obtain p sub where d: "d = Dir p sub" using "1.prems"(1) by (cases d) auto
    have go: "\<not> (polls = 0 \<or> max_files \<le> length out)" using "1.prems"(2,3) length_le_size [of rest] by (auto simp: Cons d)
    show ?thesis
    proof (cases sub)
      case None
      have "walk max_files polls stack out = walk max_files (polls - 1) rest out"
        using go by (subst walk.simps) (simp add: Cons d None)
      moreover have "mset (walk max_files (polls - 1) rest out) = mset out + sum_list (map files_below rest)"
        using "1.prems" Cons d None by (intro "1.IH"(3) [OF Cons go]) auto
      ultimately show ?thesis by (simp add: Cons d None)
    next
      case (Some es)
      let ?out = "out @ concat (map own_files es)" and ?stack = "rev (filter is_dir es) @ rest"
      have sz: "length (concat (map own_files es)) \<le> size (sum_list (map files_below es))"
        unfolding files_split [of es] by simp
      have pol: "length es \<le> polls - 1" using "1.prems"(2) length_le_size [of es] length_le_size [of rest] by (simp add: Cons d Some)
      have ld: "list_directory max_files (polls - 1) es rest out = (polls - 1 - length es, ?out, Some ?stack)"
        using pol sz "1.prems"(3) by (intro list_directory_result) (simp_all add: Cons d Some)
      have "walk max_files polls stack out = walk max_files (polls - 1 - length es) ?stack ?out"
        using go by (subst walk.simps) (simp add: Cons d Some ld [unfolded One_nat_def])
      moreover have "mset (walk max_files (polls - 1 - length es) ?stack ?out) = mset ?out + sum_list (map files_below ?stack)"
      proof (rule "1.IH"(4) [OF Cons go d Some ld [symmetric] refl refl])
        show "\<forall>d \<in> set ?stack. is_dir d" using "1.prems"(1) Cons by auto
        show "2 * sum_list (map entry_size ?stack) \<le> polls - 1 - length es + length ?stack"
        proof -
          have f: "length (filter is_dir es) \<le> length es" "0 < polls" using go by simp_all
          show ?thesis using "1.prems"(2) size_split [of es] pol by (simp add: Cons d Some sum_list_rev_filter) (use f in linarith)
        qed
        show "length ?out + size (sum_list (map files_below ?stack)) < max_files"
          using "1.prems"(3) files_split [of es] by (simp add: Cons d Some sum_list_rev_filter)
      qed
      ultimately show ?thesis using files_split [of es] by (simp add: Cons d Some sum_list_rev_filter)
    qed
  qed
qed

text \<open>In every case a walk collects files of the tree only, and no more than the limit.\<close>

lemma list_directory_sound:
  "list_directory max_files polls es stack out = (polls', out', st) \<Longrightarrow>
    (\<exists>new. out' = out @ new \<and> set new \<subseteq> set_mset (sum_list (map files_below es))) \<and> length out' \<le> max (length out) max_files \<and>
    (\<forall>stack'. st = Some stack' \<longrightarrow> set stack' \<subseteq> set stack \<union> set es)"
proof (induction max_files polls es stack out arbitrary: polls' out' st rule: list_directory.induct)
  case (2 max_files polls e es stack out)
  show ?case
  proof (cases "polls = 0 \<or> max_files \<le> length out")
    case True
    then show ?thesis using "2.prems" by auto
  next
    case False
    note ih = "2.IH" [OF False]
    show ?thesis
    proof (cases e)
      case (File p sz)
      have "list_directory max_files (polls - 1) es stack (if scannable sz then out @ [p] else out) = (polls', out', st)"
        using "2.prems" False File by simp
      from ih(2) [OF File this] show ?thesis using False by (auto simp: File split: if_splits)
    next
      case (Link p)
      then show ?thesis using "2.prems" False ih(1) [OF Link] by fastforce
    next
      case (Dir p sub)
      then show ?thesis using "2.prems" False ih(3) [OF Dir] by fastforce
    next
      case (Other p)
      then show ?thesis using "2.prems" False ih(4) [OF Other] by fastforce
    qed
  qed
qed simp

lemma walk_length: "length (walk max_files polls stack out) \<le> max (length out) max_files"
proof (induction max_files polls stack out rule: walk.induct)
  case (1 max_files polls stack out)
  show ?case
  proof (cases stack)
    case Nil
    then show ?thesis by (simp add: walk.simps)
  next
    case (Cons d rest)
    show ?thesis
    proof (cases "polls = 0 \<or> max_files \<le> length out")
      case True
      then show ?thesis by (subst walk.simps) (auto simp: Cons)
    next
      case False
      note ih = "1.IH" [OF Cons False]
      show ?thesis
      proof (cases "\<exists>p es. d = Dir p (Some es)")
        case True
        then obtain p es where d: "d = Dir p (Some es)" by blast
        obtain polls' out' st where ld: "list_directory max_files (polls - 1) es rest out = (polls', out', st)" by (metis prod_cases3)
        have b: "length out' \<le> max (length out) max_files" using list_directory_sound [OF ld] by blast
        have w: "walk max_files polls stack out = (case st of None \<Rightarrow> out' | Some stack' \<Rightarrow> walk max_files polls' stack' out')"
          using False by (subst walk.simps) (simp add: Cons d ld [unfolded One_nat_def] split: option.split)
        show ?thesis
        proof (cases st)
          case None
          then show ?thesis using b w by simp
        next
          case (Some stack')
          have "length (walk max_files polls' stack' out') \<le> max (length out') max_files"
            using ih(4) [OF d refl ld [symmetric] refl] Some by simp
          then show ?thesis using b w Some by simp
        qed
      next
        case F: False
        have "walk max_files polls stack out = walk max_files (polls - 1) rest out"
          using False F by (subst walk.simps) (auto simp: Cons split: fs_entry.split option.split)
        moreover have "length (walk max_files (polls - 1) rest out) \<le> max (length out) max_files"
        proof (cases d)
          case (Dir p sub)
          then have "sub = None" using F by (cases sub) auto
          then show ?thesis using ih(3) [OF Dir] by simp
        qed (use ih(1,2,5) in blast)+
        ultimately show ?thesis by simp
      qed
    qed
  qed
qed

theorem walk_exact:
  assumes "2 * entry_size (Dir p es) \<le> polls + 1" "size (files_below (Dir p es)) < max_files"
  shows "mset (enumerate_files max_files polls (Some (Dir p es)) []) = files_below (Dir p es)"
  using walk_collects [of "[Dir p es]" polls "[]" max_files] assms by (simp add: enumerate_files_def)

section \<open>Shellcode\<close>

text \<open>At \<open>e\<close> stands a control transfer, with at least four bytes behind it and 32 bytes \<^verbatim>\<open>0x90\<close> before it.\<close>

definition sled_hit :: "bytes \<Rightarrow> nat \<Rightarrow> bool" where
  "sled_hit data e \<longleftrightarrow> 32 \<le> e \<and> e + 4 < length data \<and> (\<forall>j. e - 32 \<le> j \<and> j < e \<longrightarrow> data ! j = 0x90) \<and> data ! e \<in> set transfer_bytes"

lemma sled_end_spec:
  assumes "i \<le> length data"
  shows "i \<le> sled_end data i" "sled_end data i \<le> length data" "\<forall>j. i \<le> j \<and> j < sled_end data i \<longrightarrow> data ! j = 0x90"
    "sled_end data i < length data \<Longrightarrow> data ! sled_end data i \<noteq> 0x90"
proof -
  let ?w = "takeWhile (\<lambda>b. b = 0x90) (drop i data)"
  show "i \<le> sled_end data i" by (simp add: sled_end_def)
  have l: "length ?w \<le> length data - i" using length_takeWhile_le [of _ "drop i data"] by simp
  then show "sled_end data i \<le> length data" using assms by (simp add: sled_end_def)
  show "\<forall>j. i \<le> j \<and> j < sled_end data i \<longrightarrow> data ! j = 0x90"
  proof (intro allI impI)
    fix j assume j: "i \<le> j \<and> j < sled_end data i"
    then have "j - i < length ?w" unfolding sled_end_def by linarith
    then have "?w ! (j - i) \<in> set ?w" by (rule nth_mem)
    then have "?w ! (j - i) = 0x90" by (rule set_takeWhileD [THEN conjunct2])
    then show "data ! j = 0x90" using j assms takeWhile_nth [OF \<open>j - i < length ?w\<close>] by simp
  qed
  assume "sled_end data i < length data"
  then show "data ! sled_end data i \<noteq> 0x90"
    using nth_length_takeWhile [of "\<lambda>b. b = 0x90" "drop i data"] assms by (simp add: sled_end_def)
qed

lemma sled_at: "i + 32 \<le> length data \<Longrightarrow> sub_bytes data i 32 = replicate 32 0x90 \<longleftrightarrow> 32 \<le> sled_end data i - i"
proof -
  assume i: "i + 32 \<le> length data"
  have "sub_bytes data i 32 = replicate 32 0x90 \<longleftrightarrow> (\<forall>k < 32. data ! (i + k) = 0x90)"
    using i by (simp add: list_eq_iff_nth_eq sub_bytes_nth)
  also have "\<dots> \<longleftrightarrow> 32 \<le> sled_end data i - i"
  proof
    assume h: "\<forall>k < 32. data ! (i + k) = 0x90"
    show "32 \<le> sled_end data i - i"
    proof (rule ccontr)
      assume n: "\<not> 32 \<le> sled_end data i - i"
      have "sled_end data i < length data" using n i by linarith
      moreover have "data ! (i + (sled_end data i - i)) = 0x90" using h n by simp
      ultimately show False using sled_end_spec(1,4) [of i data] i by simp
    qed
  next
    assume h: "32 \<le> sled_end data i - i"
    show "\<forall>k < 32. data ! (i + k) = 0x90" using h sled_end_spec(3) [of i data] i by auto
  qed
  finally show ?thesis .
qed

lemma transfer_not_nop: "b \<in> set transfer_bytes \<Longrightarrow> b \<noteq> 0x90"
  by (auto simp: transfer_bytes_def)

lemma sled_scan_complete: "i + 32 \<le> e \<Longrightarrow> sled_hit data e \<Longrightarrow> sled_scan data i \<noteq> None"
proof (induction data i rule: sled_scan.induct)
  case (1 data i)
  let ?s = "sled_end data i"
  have e: "e + 4 < length data" "\<And>j. e - 32 \<le> j \<Longrightarrow> j < e \<Longrightarrow> data ! j = 0x90" "data ! e \<noteq> 0x90" "data ! e \<in> set transfer_bytes"
    using "1.prems"(2) transfer_not_nop by (auto simp: sled_hit_def)
  have i: "\<not> length data < i + 32" "i \<le> length data" using "1.prems"(1) e(1) by linarith+
  show ?case
  proof (cases "sub_bytes data i 32 = replicate 32 0x90")
    case True
    show ?thesis
    proof (cases "?s + 4 < length data \<and> data ! ?s \<in> set transfer_bytes")
      case hit: True
      then show ?thesis using i(1) True by (subst sled_scan.simps) (simp add: Let_def)
    next
      case False
      have "\<not> e < ?s" using sled_end_spec(3) [OF i(2)] "1.prems"(1) e(3) by auto
      moreover have "e \<noteq> ?s" using False e(1,4) by auto
      ultimately have lt: "?s < e" by linarith
      have "data ! ?s \<noteq> 0x90" using lt e(1) by (intro sled_end_spec(4) [OF i(2)]) linarith
      then have "\<not> e - 32 \<le> ?s" using e(2) lt by blast
      then have "?s + 1 + 32 \<le> e" using "1.prems"(1) by linarith
      then have "sled_scan data (?s + 1) \<noteq> None" using "1.IH"(1) [OF i(1) True refl False _ "1.prems"(2)] by simp
      then show ?thesis using i(1) True False by (subst sled_scan.simps) (simp add: Let_def)
    qed
  next
    case False
    have "e \<noteq> i + 32"
    proof
      assume "e = i + 32"
      then have "sub_bytes data i 32 = replicate 32 0x90" using e(1,2) by (simp add: list_eq_iff_nth_eq sub_bytes_nth)
      then show False using False by simp
    qed
    then have "i + 1 + 32 \<le> e" using "1.prems"(1) by linarith
    then have "sled_scan data (i + 1) \<noteq> None" using "1.IH"(2) [OF i(1) False _ "1.prems"(2)] by simp
    then show ?thesis using i(1) False by (subst sled_scan.simps) simp
  qed
qed

lemma sled_scan_sound: "sled_scan data i = Some (a, n) \<Longrightarrow> i \<le> a \<and> 32 \<le> n \<and> (\<forall>j. a \<le> j \<and> j < a + n \<longrightarrow> data ! j = 0x90) \<and> sled_hit data (a + n)"
proof (induction data i rule: sled_scan.induct)
  case (1 data i)
  let ?s = "sled_end data i"
  have len: "\<not> length data < i + 32" using "1.prems" by (subst (asm) sled_scan.simps) (auto split: if_splits)
  then have i: "i \<le> length data" "i + 32 \<le> length data" by linarith+
  show ?case
  proof (cases "sub_bytes data i 32 = replicate 32 0x90")
    case True
    have long: "32 \<le> ?s - i" using sled_at [OF i(2)] True by simp
    show ?thesis
    proof (cases "?s + 4 < length data \<and> data ! ?s \<in> set transfer_bytes")
      case hit: True
      then have "a = i" "n = ?s - i" using "1.prems" len True by (subst (asm) sled_scan.simps, simp add: Let_def)+
      then show ?thesis using hit long sled_end_spec(1,3) [OF i(1)] by (auto simp: sled_hit_def)
    next
      case False
      have "sled_scan data (?s + 1) = Some (a, n)" using "1.prems" len True False by (subst (asm) sled_scan.simps) (simp add: Let_def)
      then show ?thesis using "1.IH"(1) [OF len True refl False] sled_end_spec(1) [OF i(1)] by simp
    qed
  next
    case False
    have "sled_scan data (i + 1) = Some (a, n)" using "1.prems" len False by (subst (asm) sled_scan.simps) simp
    then show ?thesis using "1.IH"(2) [OF len False] by simp
  qed
qed

text \<open>
  C30. Shellcode is reported exactly when somewhere a control transfer follows at least 32 bytes \<^verbatim>\<open>0x90\<close>; skipping behind a sled
  misses none.
\<close>

theorem shellcode_exact: "check_shellcode_patterns data out \<noteq> None \<longleftrightarrow> (\<exists>e. sled_hit data e)"
proof -
  have "sled_scan data 0 \<noteq> None" if "sled_hit data e" for e
    using that sled_scan_complete [of 0 e data] by (simp add: sled_hit_def)
  moreover have "\<exists>e. sled_hit data e" if "sled_scan data 0 \<noteq> None"
    using that sled_scan_sound [of data 0] by (auto simp: not_None_eq)
  ultimately show ?thesis by (auto simp: check_shellcode_patterns_def)
qed

section \<open>The verdict on a file\<close>

lemma check_pe_header_defined: "check_pe_header lg data out pe \<noteq> None"
  using analyze_buffer_defined [of lg data] by (auto simp: check_pe_header_def Let_def)

lemma check_contents_defined: "check_contents lg data path s \<noteq> None"
  using check_pe_header_defined [of lg data "ScanResult_for path" "ds_pe_static s"]
  by (auto simp: check_contents_def Let_def split: option.split)

lemma find_threat_defined: "find_threat lg db now path contents data s \<noteq> None"
  using check_contents_defined by (auto simp: find_threat_def split: option.split prod.split)

lemma scan_file_cases:
  assumes "scan_file lg db now path f s = x"
  obtains (skipped) "x = Some (False, s, [])" "fv_size f = None \<or> fv_contents f = None \<or> (\<exists>n. fv_size f = Some n \<and> (n = 0 \<or> 256 * 1024 * 1024 < n))"
  | (scanned) sz c r s1 where "fv_size f = Some sz" "0 < sz" "sz \<le> 256 * 1024 * 1024" "fv_contents f = Some c"
      "find_threat lg db now path (Some c) (read_buffer sz c) s = Some (r, s1)"
      "x = Some (r \<noteq> None, case r of None \<Rightarrow> (s1, trust_calls lg now path f s1)
         | Some res \<Rightarrow> (fst (note_threat res s1), snd (note_threat res s1) @ trust_calls lg now path f (fst (note_threat res s1))))"
proof (cases "\<exists>sz c. fv_size f = Some sz \<and> 0 < sz \<and> sz \<le> 256 * 1024 * 1024 \<and> fv_contents f = Some c")
  case True
  then obtain sz c where h: "fv_size f = Some sz" "0 < sz" "sz \<le> 256 * 1024 * 1024" "fv_contents f = Some c" by blast
  obtain r s1 where r: "find_threat lg db now path (Some c) (read_buffer sz c) s = Some (r, s1)"
    using find_threat_defined by (metis not_None_eq surj_pair)
  show ?thesis
  proof (rule scanned [OF h r])
    show "x = Some (r \<noteq> None, case r of None \<Rightarrow> (s1, trust_calls lg now path f s1)
         | Some res \<Rightarrow> (fst (note_threat res s1), snd (note_threat res s1) @ trust_calls lg now path f (fst (note_threat res s1))))"
      using assms h r by (cases r) (simp_all add: scan_file_def case_prod_beta)
  qed
next
  case False
  show ?thesis
  proof (rule skipped)
    have "\<not> sz \<le> 256 * 1024 * 1024 \<or> sz = 0 \<or> fv_contents f = None" if "fv_size f = Some sz" for sz
      using False that by (cases "fv_contents f") auto
    then show "x = Some (False, s, [])" using assms by (cases "fv_size f") (force simp: scan_file_def)+
    show "fv_size f = None \<or> fv_contents f = None \<or> (\<exists>n. fv_size f = Some n \<and> (n = 0 \<or> 256 * 1024 * 1024 < n))"
      using False by (cases "fv_size f"; cases "fv_contents f") auto
  qed
qed

lemma scan_file_defined: "scan_file lg db now path f s \<noteq> None"
  by (rule scan_file_cases [OF refl, of lg db now path f s]) simp_all

text \<open>The checks change only the counters of the engines they use.\<close>

definition engines_only :: "DeepScanner \<Rightarrow> DeepScanner \<Rightarrow> bool" where
  "engines_only s s1 \<longleftrightarrow> s1 = s\<lparr>ds_pe_static := ds_pe_static s1, ds_lolbins := ds_lolbins s1, ds_fileless := ds_fileless s1\<rparr>"

lemma engines_only_trans: "engines_only s s1 \<Longrightarrow> engines_only s1 s2 \<Longrightarrow> engines_only s s2"
  by (cases s; cases s1; cases s2) (simp add: engines_only_def)

lemma check_by_type_frame: "engines_only s (snd (check_by_type now path contents data s))"
  by (auto simp: check_by_type_def engines_only_def Let_def split: prod.split)

lemma check_contents_frame: "check_contents lg data path s = Some (r, s1) \<Longrightarrow> engines_only s s1"
  by (auto simp: check_contents_def engines_only_def Let_def split: option.splits prod.splits)

lemma find_threat_frame: "find_threat lg db now path contents data s = Some (r, s1) \<Longrightarrow> engines_only s s1"
proof -
  assume h: "find_threat lg db now path contents data s = Some (r, s1)"
  obtain t s' where t: "check_by_type now path contents data s = (t, s')" by (cases "check_by_type now path contents data s")
  then have f: "engines_only s s'" using check_by_type_frame [of s now path contents data] by simp
  have tr: "engines_only s' s1 \<Longrightarrow> engines_only s s1" using f engines_only_trans by blast
  show ?thesis
  proof (cases "check_signature_match db data (ScanResult_for path)")
    case (Some x)
    then show ?thesis using h by (auto simp: find_threat_def engines_only_def)
  next
    case None
    then show ?thesis using h f tr check_contents_frame by (cases t) (auto simp: find_threat_def t)
  qed
qed

text \<open>A result is about the file it was found in.\<close>

lemma result_path:
  assumes "find_threat lg db now path contents data s = Some (Some r, s1)"
  shows "sr_file_path r = path"
proof -
  have sig: "check_signature_match db data (ScanResult_for path) = Some x \<Longrightarrow> sr_file_path x = path" for x
    by (auto simp: check_signature_match_def ScanResult_for_def)
  have byt: "fst (check_by_type now path contents data s) = Some x \<Longrightarrow> sr_file_path x = path" for x
    by (auto simp: check_by_type_def ScanResult_for_def Let_def split: prod.splits if_splits)
  have shell: "check_shellcode_patterns data (ScanResult_for path) = Some x \<Longrightarrow> sr_file_path x = path" for x
    by (auto simp: check_shellcode_patterns_def ScanResult_for_def)
  have pe: "check_pe_header lg data (ScanResult_for path) e = Some (Some x, e') \<Longrightarrow> sr_file_path x = path" for x e e'
    by (auto simp: check_pe_header_def pe_result_def heuristic_result_def ScanResult_for_def Let_def split: if_splits option.splits)
  have elf: "check_elf_header lg data (ScanResult_for path) = Some x \<Longrightarrow> sr_file_path x = path" for x
    by (auto simp: check_elf_header_def ScanResult_for_def split: if_splits)
  have ent: "check_entropy_anomaly lg data (ScanResult_for path) = Some x \<Longrightarrow> sr_file_path x = path" for x
    by (auto simp: check_entropy_anomaly_def ScanResult_for_def Let_def split: if_splits)
  have cont: "check_contents lg data path s' = Some (Some x, s2) \<Longrightarrow> sr_file_path x = path" for x s' s2
    using shell pe elf ent by (fastforce simp: check_contents_def Let_def split: option.splits prod.splits)
  show ?thesis using assms sig byt cont by (fastforce simp: find_threat_def split: option.splits prod.splits)
qed

section \<open>A whole scan\<close>

lemma file_task_effect:
  assumes "\<not> ds_cancel s"
  obtains s1 calls new where "file_task lg db now t s = Some (s1, calls)" "\<not> ds_cancel s1" "ds_scanning s1 = ds_scanning s"
    "ds_results s1 = ds_results s @ new" "length new \<le> 1" "\<forall>r \<in> set new. sr_file_path r = fst t"
    "ds_threats_found s1 = ds_threats_found s + of_nat (length new)" "ds_files_scanned s1 = ds_files_scanned s + 1"
    "ds_files_total s1 = ds_files_total s" "ds_lifetime_scanned s1 = ds_lifetime_scanned s" "ds_lifetime_threats s1 = ds_lifetime_threats s"
    "ds_scans_completed s1 = ds_scans_completed s"
proof (rule scan_file_cases [OF refl, of lg db now "fst t" "snd t" s], goal_cases)
  case 1
  then show ?case using assms that [of "s\<lparr>ds_files_scanned := ds_files_scanned s + 1\<rparr>" "[]" "[]"] by (simp add: file_task_def)
next
  case (2 sz c r s1)
  have f: "engines_only s s1" using find_threat_frame 2 by blast
  have frame: "ds_cancel s1 = ds_cancel s \<and> ds_scanning s1 = ds_scanning s \<and> ds_results s1 = ds_results s \<and> ds_threats_found s1 = ds_threats_found s \<and>
      ds_files_scanned s1 = ds_files_scanned s \<and> ds_files_total s1 = ds_files_total s \<and> ds_lifetime_scanned s1 = ds_lifetime_scanned s \<and>
      ds_lifetime_threats s1 = ds_lifetime_threats s \<and> ds_scans_completed s1 = ds_scans_completed s"
    using f by (cases s; cases s1) (simp add: engines_only_def)
  show ?case
  proof (cases r)
    case None
    then show ?thesis using 2 assms frame that [of "s1\<lparr>ds_files_scanned := ds_files_scanned s1 + 1\<rparr>" _ "[]"] by (simp add: file_task_def)
  next
    case (Some res)
    have "sr_file_path res = fst t" using result_path 2 Some by auto
    then show ?thesis
      using 2 Some assms frame that [of "(fst (note_threat res s1))\<lparr>ds_files_scanned := ds_files_scanned s1 + 1\<rparr>" _ "[res]"]
      by (simp add: file_task_def note_threat_def)
  qed
qed

lemma run_tasks_effect:
  "\<not> ds_cancel s \<Longrightarrow> \<exists>s1 calls new. run_tasks lg db now ts s = Some (s1, calls) \<and> \<not> ds_cancel s1 \<and>
    ds_results s1 = ds_results s @ new \<and> subseq (map sr_file_path new) (map fst ts) \<and>
    ds_threats_found s1 = ds_threats_found s + of_nat (length new) \<and> ds_files_scanned s1 = ds_files_scanned s + of_nat (length ts) \<and>
    ds_files_total s1 = ds_files_total s \<and> ds_lifetime_scanned s1 = ds_lifetime_scanned s \<and> ds_lifetime_threats s1 = ds_lifetime_threats s \<and>
    ds_scans_completed s1 = ds_scans_completed s"
proof (induction ts arbitrary: s)
  case (Cons t ts)
  obtain s1 calls n1 where 1: "file_task lg db now t s = Some (s1, calls)" "\<not> ds_cancel s1" "ds_results s1 = ds_results s @ n1" "length n1 \<le> 1"
    "\<forall>r \<in> set n1. sr_file_path r = fst t" "ds_threats_found s1 = ds_threats_found s + of_nat (length n1)" "ds_files_scanned s1 = ds_files_scanned s + 1"
    "ds_files_total s1 = ds_files_total s" "ds_lifetime_scanned s1 = ds_lifetime_scanned s" "ds_lifetime_threats s1 = ds_lifetime_threats s"
    "ds_scans_completed s1 = ds_scans_completed s"
    by (rule file_task_effect [OF Cons.prems])
  obtain s2 calls2 n2 where 2: "run_tasks lg db now ts s1 = Some (s2, calls2)" "\<not> ds_cancel s2" "ds_results s2 = ds_results s1 @ n2"
    "subseq (map sr_file_path n2) (map fst ts)" "ds_threats_found s2 = ds_threats_found s1 + of_nat (length n2)"
    "ds_files_scanned s2 = ds_files_scanned s1 + of_nat (length ts)" "ds_files_total s2 = ds_files_total s1"
    "ds_lifetime_scanned s2 = ds_lifetime_scanned s1" "ds_lifetime_threats s2 = ds_lifetime_threats s1" "ds_scans_completed s2 = ds_scans_completed s1"
    using Cons.IH [OF 1(2)] by blast
  have "subseq (map sr_file_path (n1 @ n2)) (map fst (t # ts))"
  proof (cases n1)
    case (Cons r rs)
    then show ?thesis using 1(4,5) 2(4) by simp
  qed (use 2(4) in \<open>simp add: list_emb_Cons\<close>)
  then show ?case using 1 2 by (intro exI [of _ s2] exI [of _ "calls @ calls2"] exI [of _ "n1 @ n2"]) simp
qed simp

text \<open>
  A scan that nobody cancels ends, whatever the files hold: every file is counted once, the threats are the results, which name
  files of the scan in its order, each at most once, and the totals over all scans grow by the counts of this one.
\<close>

theorem scan_counts:
  assumes "\<not> ds_scanning s"
  shows "\<exists>s' calls. file_scan lg db now mode files s = Some (s', calls) \<and> \<not> ds_scanning s' \<and>
    ds_files_scanned s' = of_nat (length files) \<and> ds_files_total s' = of_nat (length files) \<and>
    ds_threats_found s' = of_nat (length (ds_results s')) \<and> subseq (map sr_file_path (ds_results s')) (map fst files) \<and>
    ds_lifetime_scanned s' = ds_lifetime_scanned s + of_nat (length files) \<and>
    ds_lifetime_threats s' = ds_lifetime_threats s + of_nat (length (ds_results s')) \<and> ds_scans_completed s' = ds_scans_completed s + 1"
proof -
  let ?s = "(start_scan mode s)\<lparr>ds_files_total := of_nat (length files)\<rparr>"
  have "\<not> ds_cancel ?s" using assms by (simp add: start_scan_def)
  from run_tasks_effect [OF this, of lg db now files] obtain s1 calls new where
    r: "run_tasks lg db now files ?s = Some (s1, calls)" "\<not> ds_cancel s1" "ds_results s1 = new" "subseq (map sr_file_path new) (map fst files)"
      "ds_threats_found s1 = of_nat (length new)" "ds_files_scanned s1 = of_nat (length files)" "ds_files_total s1 = of_nat (length files)"
      "ds_lifetime_scanned s1 = ds_lifetime_scanned s" "ds_lifetime_threats s1 = ds_lifetime_threats s" "ds_scans_completed s1 = ds_scans_completed s"
    using assms by (auto simp: start_scan_def)
  then show ?thesis by (simp add: file_scan_def finish_scan_def)
qed

theorem scan_counts_witness:
  "\<exists>s' calls. file_scan (\<lambda>d. d) SignatureDB_new 1 QUICK [(''a.txt'', \<lparr>fv_regular = True, fv_size = Some 1, fv_contents = Some [0]\<rparr>)] DeepScanner_new = Some (s', calls) \<and>
     ds_files_scanned s' = 1 \<and> ds_scans_completed s' = 1"
proof -
  have "\<not> ds_scanning DeepScanner_new" by (simp add: DeepScanner_new_def)
  from scan_counts [OF this, of "\<lambda>d. d" SignatureDB_new 1 QUICK "[(''a.txt'', \<lparr>fv_regular = True, fv_size = Some 1, fv_contents = Some [0]\<rparr>)]"]
  show ?thesis by (auto simp: DeepScanner_new_def)
qed

text \<open>
  The prefix of a shortcut's description is put in front of a reason that already has it.
\<close>

lemma lnk_loop_reason:
  "lnk_loop now extracted bins out s = (True, out', s', es) \<Longrightarrow> \<exists>x. le_reason out' = ''Weaponized LNK shortcut: '' @ x"
proof (induction now extracted bins out s arbitrary: out' s' es rule: lnk_loop.induct)
  case (2 now extracted needle bin_name bins out s)
  show ?case
  proof (cases "find_text needle (lb_to_lower_ascii extracted)")
    case None
    then show ?thesis using 2 by auto
  next
    case (Some pos)
    obtain e s1 es1 where ev: "evaluate_command_line now 0 bin_name (take 512 (drop pos extracted)) s = (e, s1, es1)" by (metis prod_cases3)
    show ?thesis
    proof (cases "le_is_malicious e")
      case True
      then show ?thesis using 2(3) Some ev by auto
    next
      case False
      obtain r2 out2 s2 es2 where l: "lnk_loop now extracted bins e s1 = (r2, out2, s2, es2)" by (metis prod_cases4)
      then have "lnk_loop now extracted bins e s1 = (True, out', s2, es2)" using 2(3) Some ev False by simp
      then show ?thesis using 2(2) [OF Some ev [symmetric] refl False] by blast
    qed
  qed
qed simp

lemma lnk_prefix_twice:
  assumes "map tolower_c (extension path) = ''.lnk''" "fst (check_by_type now path contents data s) = Some r"
  shows "\<exists>x. sr_description r = ''Weaponized LNK shortcut: Weaponized LNK shortcut: '' @ x"
proof -
  obtain hit le lb es where i: "inspect_lnk_file now contents LolbinExecution_default (ds_lolbins s) = (hit, le, lb, es)" by (metis prod_cases4)
  have h: "hit" "sr_description r = ''Weaponized LNK shortcut: '' @ le_reason le"
    using assms by (auto simp: check_by_type_def i split: if_splits)
  then obtain ext where "lnk_loop now ext suspicious_bins LolbinExecution_default (ds_lolbins s) = (True, le, lb, es)"
    using i by (auto simp: inspect_lnk_file_def split: option.splits if_splits)
  from lnk_loop_reason [OF this] show ?thesis using h(2) by auto
qed

end
