(* ===== verification/Spec2Isabelle.thy ===== *)
theory Spec2Isabelle
  imports Engine_Manager Authenticode Firewall_Engine Yara_Engine Threat_Intel Signature_DB Pe_Static Etw_Process Process_Behavior Artifact_Trust Device_Control Ransomware_Shield Alert_Manager Network_Dpi Lolbins_Engine Fileless_Ast Heuristic_Rules Deep_Scanner
begin

text \<open>
  Verification of the core of GCAD, an endpoint security agent written in C++ (sources under \<^verbatim>\<open>src/\<close>; file names below
  are relative to \<^verbatim>\<open>src/src\<close> and \<^verbatim>\<open>src/include/gcad\<close>).

  \<^bold>\<open>The program.\<close> Detection engines and sensors watch the machine and report to the \<^verbatim>\<open>EngineManager\<close>: threats go to its
  event log and the forensic timeline, and through the legacy adapter, like the observations of the newer sensors, to the
  telemetry bus. A worker of the \<^verbatim>\<open>SecurityPipeline\<close> takes observations from the bus, the correlation engine collects them
  per target into scored findings, and the policy engine turns a finding with enough evidence into a candidate for
  quarantine. Nothing is moved on its own: an operator approves a candidate and separately asks for its execution, and the
  quarantine executor checks approval, policy and hash again before it moves the file and writes its ledger. Trust in
  a file comes from the agent's own Authenticode check, down to DER, RSA and SHA-2. Beside this core stand the file scanner
  and the engines with decision logic of their own.

  \<^bold>\<open>Theories and sources.\<close>
  \<^item> \<open>GCAD_Prelude\<close>, \<open>GCAD_Common\<close>, \<open>GCAD_Double\<close>, \<open>Engine_Base\<close>: integer types, strings, paths and number parsing of the standard
    library; the enumerations and structs of \<^verbatim>\<open>common.hpp\<close>; \<^verbatim>\<open>double\<close> as binary64 with rounding; what all engines share, with the
    locale \<open>observation_source\<close>, the contract of a source of observations, interpreted for the firewall, ETW, process,
    artifact, device, ransomware and network engines.
  \<^item> \<open>Policy\<close>, \<open>Policy_Store\<close>, \<open>Telemetry_Bus\<close>, \<open>Correlation\<close>, \<open>Pipeline\<close>, \<open>Legacy_Adapter\<close>: \<^verbatim>\<open>security/{observation,policy,
    policy_store,telemetry_bus,correlation_engine,security_pipeline,legacy_adapter}\<close>. The bus is an instance of the locale
    \<open>fifo_channel\<close>; the pipeline is a sequence of actions of callers, worker and operator.
  \<^item> \<open>Quarantine\<close>: \<^verbatim>\<open>security/quarantine_executor\<close> over a file system whose operations may fail; the ledger as text.
  \<^item> \<open>Forensic_Timeline\<close>, \<open>Engine_Manager\<close>, \<open>Alert_Manager\<close>: \<^verbatim>\<open>engines/forensic_timeline_engine\<close>, \<^verbatim>\<open>engine_manager\<close>,
    \<^verbatim>\<open>alert/alert_manager\<close>. The manager's operations \<open>em_op\<close> are all calls from outside; \<open>em_exec\<close> runs one.
  \<^item> \<open>Sha2\<close>, \<open>Asn1\<close>, \<open>Bignum\<close>, \<open>Rsa_Pkcs1\<close>, \<open>X509\<close>, \<open>Pkcs7\<close>, \<open>Trust_Anchors\<close>, \<open>Pe_Authenticode\<close>, \<open>Authenticode\<close>,
    \<open>Artifact_Trust\<close>: the hash classes of \<^verbatim>\<open>common.hpp\<close> and \<^verbatim>\<open>security/{asn1,bignum,rsa_pkcs1,x509,pkcs7,trust_anchors,
    pe_authenticode_hash,authenticode,artifact_trust_engine}\<close>. Both hash classes, and the padding of \<open>Md5\<close>, share the locale
    \<open>md_hash\<close> or its definitions.
  \<^item> \<open>Etw_Process\<close>, \<open>Process_Behavior\<close>: \<^verbatim>\<open>security/{etw_kernel_process_engine,process_behavior_engine}\<close>.
  \<^item> \<open>Firewall_Engine\<close>, \<open>Yara_Engine\<close>, \<open>Threat_Intel\<close>, \<open>Md5\<close>, \<open>Pe_Static\<close>, \<open>Device_Control\<close>, \<open>Ransomware_Shield\<close>, \<open>Network_Dpi\<close>,
    \<open>Lolbins_Engine\<close>, \<open>Fileless_Ast\<close>: \<^verbatim>\<open>engines/{firewall,yara,threat_intel,pe_static_analysis,device_control,ransomware_shield,
    network_dpi,lolbins,fileless_ast}_engine\<close>. The three indices of the indicators are instances of the locale \<open>entry_index\<close>.
  \<^item> \<open>Signature_DB\<close>, \<open>Heuristic_Rules\<close>, \<open>Deep_Scanner\<close>: \<^verbatim>\<open>scanner/{signature_db,heuristic_rules,deep_scanner}\<close>.

  A class is a record of its members with a prefix, \<open>X_new\<close> its constructor; a method is a function of the same name that
  returns the new state with its result and the callback calls it makes, in order. A record literal of C++ with defaults
  is \<open>X_default\<close>. An error is a value of \<open>ErrorCode\<close>, \<open>None\<close> or a constructor of its own; a read outside a buffer is
  \<open>None\<close> where the code would have undefined behaviour, and the theorems show that it does not occur.

  \<^bold>\<open>What is shown.\<close>
  \<^item> Remediation: a file changes only under a record whose candidate an operator approved and had executed, on an
    unprotected path, with valid evidence of two sources, over all interleavings of the manager's operations (C1, below);
    candidates and approvals in every run of the pipeline; success, refusal and failure of quarantine, restore and shred;
    the ledger survives a reload.
  \<^item> Transport: the bus loses and reorders nothing it accepted; a stop processes what is queued; under a fair worker every
    queued observation is processed; bounds of every table in every reachable state.
  \<^item> Parsing and cryptography: the parsers stay in bounds and recover what an encoder wrote; the limb arithmetic is
    exact; a signature is accepted exactly when it is the padded digest; streaming hashes equal the padded fold; TRUSTED
    holds exactly for the listed conditions.
  \<^item> Decisions: exact characterisations of the optimised searches (strings, signatures, sleds, zero runs), the first-match
    rules, the verdicts of scores, the decoders; abstract specifications refined by the alert history, the device lists, the
    firewall rules, the bus and the chain walk; a whole scan counts every file once.
  \<^item> Life cycle: a failing start releases what it took; the manager can be started once only.

  \<^bold>\<open>Bounds and loops.\<close> Every loop is a function with a termination proof; there is no fuel. The limits in the definitions
  (capacities, 4096 memory regions, the depth of a certificate chain, 200000 files) are those of the code. The directory
  walk takes the number of reads of the cancel flag before it is set, and twice the size of the tree is enough for a full
  walk. A round of a background thread is one step; \<open>start_all\<close> yields \<open>None\<close> where the code would end the process.

  \<^bold>\<open>Assumptions of the model.\<close> Every public operation is one atomic step (the code holds a mutex), and it reads the clock once.
  \<^verbatim>\<open>std::sort\<close> is taken as stable and the iteration order of hash tables as the order of insertion. Callbacks
  are installed as the manager does. \<^verbatim>\<open>std::log2\<close> and \<^verbatim>\<open>std::sqrt\<close> are parameters. Files are their contents, and answers of the
  operating system (processes, memory regions, drives, trace sessions, registry keys) are arguments. The sensors are
  modelled in their Windows build. \<^verbatim>\<open>char\<close> is eight bits and text functions are those of the C locale.

  \<^bold>\<open>Not modelled.\<close> The remaining detection engines (\<^verbatim>\<open>engines/\<close>: AMSI, ARHS, credentials, DNS, drivers, registry, named
  pipes, system calls, self defence, sandbox, webhooks, updates and others) appear only through \<^verbatim>\<open>ISecurityEngine\<close>: most of their
  code samples the operating system. The platform layer and service IPC, logger, thread pool and spin lock are system
  calls and library primitives; the facade \<^verbatim>\<open>galois_shield\<close>, the report generator, the user interface with its views and the
  program entry format and forward what the manager holds. Of the scanner, the choice of roots and the process list are left out.
\<close>

section \<open>Properties that span the components\<close>

text \<open>
  C1. The remediation workflow end to end, over all interleavings of engines, sensors, worker, monitor and operator
  calls on a manager with a new pipeline and an empty ledger: a file outside the vault whose content differs from
  the start was quarantined under a ledger record; an operator approved that finding and separately requested
  its execution; the path is not protected; and two published valid observations of different sources about one
  target, one of them or a third deterministic and one naming exactly this path, stand behind it.
\<close>

theorem file_moves_need_approval:
  assumes "em_pipeline m0 = Some (SecurityPipeline_new n pol)" "qx_ledger (em_quarantine m0) = []" "m = fold em_exec ops m0"
    "p \<notin> vault_paths (qx_vault_dir (em_quarantine m0))" "qx_fs (em_quarantine m) p \<noteq> qx_fs (em_quarantine m0) p"
  shows "(\<exists>r \<in> set (qx_ledger (em_quarantine m)). qr_original_path r = p \<and> MApprove (qr_finding_id r) \<in> set ops \<and>
      (\<exists>env. MQuarantine env (qr_finding_id r) \<in> set ops)) \<and> p \<noteq> [] \<and> \<not> is_protected_path p pol \<and>
    (\<exists>key. (\<exists>x \<in> em_published ops. \<exists>y \<in> em_published ops. obs_valid x \<and> obs_valid y \<and> correlation_key x = key \<and>
               correlation_key y = key \<and> obs_source_id x \<noteq> obs_source_id y) \<and>
           (\<exists>x \<in> em_published ops. obs_valid x \<and> correlation_key x = key \<and> obs_deterministic x) \<and>
           (\<exists>x \<in> em_published ops. obs_valid x \<and> correlation_key x = key \<and> obs_file_path x = p))"
proof -
  obtain r where r: "r \<in> set (qx_ledger (em_quarantine m))" "qr_original_path r = p" "record_traced pol ops r"
    using em_run_traced [OF assms(1,2), of ops] assms(3-5) unfolding traced_def by blast
  then obtain c where c: "MApprove (qr_finding_id r) \<in> set ops \<and> (\<exists>env. MQuarantine env (qr_finding_id r) \<in> set ops)"
    "candidate_evidence (em_published ops) pol c" "cand_target_path c = p" by (auto simp: record_traced_def)
  show ?thesis using r(1,2) c(1) c(2) [unfolded candidate_evidence_def c(3)] by blast
qed

definition sample_manager :: EngineManager where
  "sample_manager = (EngineManager_new None ''v'' None [''c:/tmp/x'' \<mapsto> Regular [1, 2, 3]])\<lparr>em_pipeline := Some sample_pipeline\<rparr>"

definition sample_calls :: "em_op list" where
  "sample_calls = [MStart sample_start, MSensor (sample_observation ''a''), MSensor (sample_observation ''b''), MWorker 1, MWorker 2,
     MApprove 2, MQuarantine (fs_fine 0) 2]"

lemma sample_manager_fields [simp]:
  "em_pipeline sample_manager = Some sample_pipeline" "em_quarantine sample_manager = sample_executor" "\<not> em_poll_running sample_manager"
  by (simp_all add: sample_manager_def EngineManager_new_def sample_executor_def PolicyStore_load_def)

lemma sample_calls_pipeline:
  "em_pipeline (fold em_exec (take 5 sample_calls) sample_manager) = Some (fold pl_exec sample_actions sample_pipeline) \<and>
   em_quarantine (fold em_exec (take 5 sample_calls) sample_manager) = sample_executor"
proof -
  let ?m = "em_exec (MStart sample_start) sample_manager"
  have 1: "em_pipeline ?m = Some (pl_exec (AStart True) sample_pipeline)" "em_quarantine ?m = sample_executor"
    by (simp_all add: start_all_def Let_def sample_start_def pipeline_start_def sample_pipeline_def SecurityPipeline_new_def TelemetryBus_new_def)
  have "all_enabled (drop 1 sample_actions) (pl_exec (AStart True) sample_pipeline)" using sample_enabled by (simp add: sample_actions_def del: pl_exec.simps)
  with 1 show ?thesis by (auto simp: sample_calls_def sample_actions_def pipe_publish_def simp del: em_exec.simps(1))
qed

theorem file_moves_need_approval_witness:
  "\<exists>r. qx_fs (em_quarantine (fold em_exec sample_calls sample_manager)) ''c:/tmp/x'' = None \<and>
     r \<in> set (qx_ledger (em_quarantine (fold em_exec sample_calls sample_manager))) \<and> MApprove (qr_finding_id r) \<in> set sample_calls \<and>
     qr_original_path r = ''c:/tmp/x''"
proof -
  let ?m = "fold em_exec (take 5 sample_calls) sample_manager" and ?e = "fold em_exec sample_calls sample_manager"
  obtain c where c: "find_remediation_candidate (em_exec (MApprove 2) ?m) 2 = Some c" "cand_approval_state c = APPROVED"
    "cand_target_path c = ''c:/tmp/x''" "cand_expected_sha256 c = []" "cand_requested_action c = QUARANTINE_CANDIDATE" "cand_finding_id c = 2"
    using sample_calls_pipeline
    by (simp add: approve_remediation_def approve_candidate_def sample_candidates find_remediation_candidate_def find_candidate_def split: prod.split)
  have q: "em_quarantine (em_exec (MApprove 2) ?m) = sample_executor" using sample_calls_pipeline by (simp add: em_exec_executor del: em_exec.simps)
  have "?e = em_exec (MQuarantine (fs_fine 0) 2) (em_exec (MApprove 2) ?m)" by (simp add: sample_calls_def del: em_exec.simps)
  then have e: "em_quarantine ?e = snd (snd (quarantine (fs_fine 0) sample_executor c))"
    using c(1) q by (simp add: em_exec_executor del: em_exec.simps)
  have may: "may_quarantine (fs_fine 0) sample_executor c [1, 2, 3]"
    using sample_may_quarantine c by (simp add: may_quarantine_def sample_candidate_def)
  have mv: "move_to_vault (fs_fine 0) (qx_fs sample_executor) ''c:/tmp/x'' (vault_path_for sample_executor 1) =
      (False, (qx_fs sample_executor)(vault_path_for sample_executor 1 \<mapsto> Regular [1, 2, 3], ''c:/tmp/x'' := None))"
    by (simp add: move_to_vault_def fs_rename_def fs_fine_def vault_path_for_def)
  have fs: "qx_fs (em_quarantine ?e) ''c:/tmp/x'' = None"
    unfolding e by (cases rule: quarantine_cases [where env = "fs_fine 0" and x = sample_executor and c = c])
      (use may c mv in \<open>auto simp: Let_def\<close>)
  have "''c:/tmp/x'' \<notin> vault_paths ''v''" by (auto simp: vault_paths_def)
  with file_moves_need_approval [of sample_manager 8 default_policy ?e sample_calls "''c:/tmp/x''"] fs show ?thesis
    by (auto simp: sample_pipeline_def)
qed

end
